(* ===== verification/Prelude.thy ===== *)
theory Prelude
  imports Main "HOL-Library.Monad_Syntax"
begin

text \<open>
  Shared vocabulary of the development: status codes of \<^verbatim>\<open>status.h\<close>, unsigned
  arithmetic at the width the C++ code has it, the \<^verbatim>\<open>std::string\<close> operations the
  sources call (\<^verbatim>\<open>find\<close>, \<^verbatim>\<open>rfind\<close>, \<^verbatim>\<open>substr\<close>, \<^verbatim>\<open>c_str\<close>), decimal printing and
  scanning, and generic lemmas on lists.  A byte is a HOL \<^typ>\<open>char\<close> (8 bits), a
  \<^verbatim>\<open>std::string\<close> or a buffer is a list of them.

  Operations that can dereference an end iterator, read or write outside a buffer or
  run forever return an option: \<^term>\<open>None\<close> is undefined behaviour or divergence, so
  that a theorem with \<^term>\<open>Some\<close> in its conclusion says that neither happens.
\<close>

named_theorems machine_arith \<open>unsigned arithmetic that does not wrap\<close>
named_theorems ub_simps \<open>unfolding of the option-valued primitives\<close>

section \<open>Status codes\<close>

definition STATUS_OK :: int where "STATUS_OK = 0"
definition STATUS_ERROR :: int where "STATUS_ERROR = -1"
definition STATUS_AGAIN :: int where "STATUS_AGAIN = -2"
definition STATUS_BUSY :: int where "STATUS_BUSY = -3"
definition STATUS_DONE :: int where "STATUS_DONE = -4"

lemmas status_defs = STATUS_OK_def STATUS_ERROR_def STATUS_AGAIN_def STATUS_BUSY_def STATUS_DONE_def

section \<open>Machine arithmetic\<close>

text \<open>
  Unsigned values are naturals; each operation of the code that can wrap is written
  with the width it has in C++.  The lemmas in \<^theory_text>\<open>machine_arith\<close> remove the
  wrap-around where the operands are in range.
\<close>

definition u32 :: "nat \<Rightarrow> nat" where "u32 n = n mod 2 ^ 32"
definition u64 :: "nat \<Rightarrow> nat" where "u64 n = n mod 2 ^ 64"
definition sub32 :: "nat \<Rightarrow> nat \<Rightarrow> nat" where
  "sub32 a b = nat ((int a - int b) mod 2 ^ 32)"
definition sub64 :: "nat \<Rightarrow> nat \<Rightarrow> nat" where
  "sub64 a b = nat ((int a - int b) mod 2 ^ 64)"

text \<open>Conversions between \<^verbatim>\<open>uint32_t\<close>/\<^verbatim>\<open>uint64_t\<close> values and \<^verbatim>\<open>int32_t\<close>.\<close>

definition s32 :: "nat \<Rightarrow> int" where
  "s32 n = (let m = n mod 2 ^ 32 in if m < 2 ^ 31 then int m else int m - 2 ^ 32)"
definition u32_of_int :: "int \<Rightarrow> nat" where
  "u32_of_int i = nat (i mod 2 ^ 32)"

lemma u32_id [machine_arith]: "n < 2 ^ 32 \<Longrightarrow> u32 n = n"
  by (simp add: u32_def)

lemma u64_id [machine_arith]: "n < 2 ^ 64 \<Longrightarrow> u64 n = n"
  by (simp add: u64_def)

lemma sub32_id [machine_arith]: "b \<le> a \<Longrightarrow> a < 2 ^ 32 \<Longrightarrow> sub32 a b = a - b"
proof -
  assume "b \<le> a" "a < 2 ^ 32"
  then have "(int a - int b) mod 2 ^ 32 = int a - int b"
    by (intro mod_pos_pos_trivial) auto
  then show ?thesis by (simp add: sub32_def nat_diff_distrib)
qed

lemma sub64_id [machine_arith]: "b \<le> a \<Longrightarrow> a < 2 ^ 64 \<Longrightarrow> sub64 a b = a - b"
proof -
  assume "b \<le> a" "a < 2 ^ 64"
  then have "(int a - int b) mod 2 ^ 64 = int a - int b"
    by (intro mod_pos_pos_trivial) auto
  then show ?thesis by (simp add: sub64_def nat_diff_distrib)
qed

lemma s32_id [machine_arith]: "n < 2 ^ 31 \<Longrightarrow> s32 n = int n"
  by (simp add: s32_def)

lemma u32_of_s32 [simp]: "u32_of_int (s32 n) = u32 n"
proof -
  have "int n mod 4294967296 = int (n mod 4294967296)" by (simp add: zmod_int)
  then show ?thesis
    by (simp add: u32_of_int_def s32_def u32_def Let_def mod_diff_left_eq [symmetric])
qed

lemma u32_of_int_id [machine_arith]: "0 \<le> i \<Longrightarrow> i < 2 ^ 32 \<Longrightarrow> u32_of_int i = nat i"
  by (simp add: u32_of_int_def)

lemma u32_less: "u32 n < 2 ^ 32"
  by (simp add: u32_def)

lemma u64_less: "u64 n < 2 ^ 64"
  by (simp add: u64_def)

section \<open>Lists\<close>

lemma sum_list_map_update:
  fixes f :: "'a \<Rightarrow> nat"
  assumes "i < length xs"
  shows "sum_list (map f (xs[i := y])) + f (xs ! i) = sum_list (map f xs) + f y"
  using assms
proof (induction xs arbitrary: i)
  case (Cons x xs)
  then show ?case by (cases i) (auto simp: add.assoc)
qed simp

lemma sum_list_map_split:
  fixes f :: "'a \<Rightarrow> nat"
  assumes "i < length xs"
  shows "sum_list (map f xs) =
    sum_list (map f (take i xs)) + f (xs ! i) + sum_list (map f (drop (Suc i) xs))"
proof -
  have "map f xs = map f (take i xs @ xs ! i # drop (Suc i) xs)"
    using id_take_nth_drop [OF assms] by simp
  then show ?thesis by (simp add: add.assoc)
qed

lemma concat_map_split:
  assumes "i < length xs"
  shows "concat (map f xs) =
    concat (map f (take i xs)) @ f (xs ! i) @ concat (map f (drop (Suc i) xs))"
proof -
  have "map f xs = map f (take i xs @ xs ! i # drop (Suc i) xs)"
    using id_take_nth_drop [OF assms] by simp
  then show ?thesis by simp
qed

lemma concat_map_update:
  assumes "i < length xs"
  shows "concat (map f (xs[i := y])) =
    concat (map f (take i xs)) @ f y @ concat (map f (drop (Suc i) xs))"
  using assms by (simp add: upd_conv_take_nth_drop)

lemma sum_list_map_zero:
  fixes f :: "'a \<Rightarrow> nat"
  shows "(\<forall>x \<in> set xs. f x = 0) \<Longrightarrow> sum_list (map f xs) = 0"
  by (induction xs) auto

lemma concat_map_Nil: "(\<forall>x \<in> set xs. f x = []) \<Longrightarrow> concat (map f xs) = []"
  by (induction xs) auto

lemma member_le_sum_list_map:
  fixes f :: "'a \<Rightarrow> nat"
  shows "x \<in> set xs \<Longrightarrow> f x \<le> sum_list (map f xs)"
  by (induction xs) auto

lemma set_take_Suc: "i < length xs \<Longrightarrow> set (take (Suc i) xs) = insert (xs ! i) (set (take i xs))"
  by (simp add: take_Suc_conv_app_nth)

lemma set_drop_Suc: "i < length xs \<Longrightarrow> set (drop i xs) = insert (xs ! i) (set (drop (Suc i) xs))"
  by (simp flip: Cons_nth_drop_Suc)

lemma in_set_drop_mono: "i \<le> j \<Longrightarrow> x \<in> set (drop j xs) \<Longrightarrow> x \<in> set (drop i xs)"
  by (rule subsetD [OF set_drop_subset_set_drop])

lemma all_set_update:
  assumes "\<forall>b \<in> set xs. P b" "i < length xs \<Longrightarrow> P (xs ! i) \<Longrightarrow> P y"
  shows "\<forall>b \<in> set (xs[i := y]). P b"
proof (cases "i < length xs")
  case True
  then have "P y" using assms nth_mem by blast
  then show ?thesis using assms(1) set_update_subset_insert [of xs i y] by blast
next
  case False
  then have "xs[i := y] = xs" by (simp add: list_update_beyond)
  then show ?thesis using assms(1) by simp
qed

lemma all_drop_update:
  assumes "\<forall>b \<in> set (drop k xs). P b" "k \<le> i \<Longrightarrow> i < length xs \<Longrightarrow> P (xs ! i) \<Longrightarrow> P y"
  shows "\<forall>b \<in> set (drop k (xs[i := y])). P b"
proof (cases "i < k")
  case False
  then have e: "drop k (xs[i := y]) = (drop k xs)[i - k := y]"
    by (simp add: drop_update_swap)
  show ?thesis
    unfolding e by (rule all_set_update [OF assms(1)]) (use False assms(2) in auto)
qed (use assms(1) in simp)

lemma all_take_update:
  assumes "\<forall>b \<in> set (take k xs). P b" "i < k \<Longrightarrow> i < length xs \<Longrightarrow> P (xs ! i) \<Longrightarrow> P y"
  shows "\<forall>b \<in> set (take k (xs[i := y])). P b"
proof (cases "i < k")
  case True
  show ?thesis
    unfolding take_update_swap by (rule all_set_update [OF assms(1)]) (use True assms(2) in auto)
qed (use assms(1) in simp)

section \<open>Strings\<close>

type_synonym byte = char

definition NUL :: byte where "NUL = CHR 0x00"

text \<open>\<^verbatim>\<open>c_str()\<close> as C sees it: the bytes before the first NUL.\<close>

definition c_str :: "string \<Rightarrow> string" where
  "c_str s = takeWhile (\<lambda>c. c \<noteq> NUL) s"

lemma c_str_id: "NUL \<notin> set s \<Longrightarrow> c_str s = s"
  by (auto simp: c_str_def takeWhile_eq_all_conv)

text \<open>\<^verbatim>\<open>find(c, pos)\<close> and \<^verbatim>\<open>rfind(c)\<close>; \<^term>\<open>None\<close> is \<^verbatim>\<open>npos\<close>.\<close>

definition str_find :: "char \<Rightarrow> nat \<Rightarrow> string \<Rightarrow> nat option" where
  "str_find c pos s =
     (let n = pos + length (takeWhile (\<lambda>x. x \<noteq> c) (drop pos s))
      in if n < length s then Some n else None)"

definition str_rfind :: "char \<Rightarrow> string \<Rightarrow> nat option" where
  "str_rfind c s =
     (let n = length (takeWhile (\<lambda>x. x \<noteq> c) (rev s))
      in if n < length s then Some (length s - 1 - n) else None)"

text \<open>\<^verbatim>\<open>substr(pos, len)\<close> for \<open>pos \<le> size()\<close>.\<close>

definition substr :: "string \<Rightarrow> nat \<Rightarrow> nat \<Rightarrow> string" where
  "substr s pos len = take len (drop pos s)"

text \<open>\<^verbatim>\<open>find(needle, 0) != npos\<close> for a string needle.\<close>

fun has_substr :: "string \<Rightarrow> string \<Rightarrow> bool" where
  "has_substr w [] = (w = [])"
| "has_substr w (c # cs) = (take (length w) (c # cs) = w \<or> has_substr w cs)"

lemma takeWhile_neq_length:
  "length (takeWhile (\<lambda>x. x \<noteq> c) s) < length s \<longleftrightarrow> c \<in> set s"
  by (induction s) auto

lemma str_find_Some:
  assumes "str_find c pos s = Some n"
  shows "pos \<le> n" and "n < length s" and "s ! n = c" and "c \<notin> set (take (n - pos) (drop pos s))"
proof -
  let ?t = "takeWhile (\<lambda>x. x \<noteq> c) (drop pos s)"
  from assms have n: "n = pos + length ?t" and l: "n < length s"
    by (auto simp: str_find_def Let_def split: if_splits)
  show "pos \<le> n" using n by simp
  show "n < length s" by (rule l)
  have "length ?t < length (drop pos s)" using n l by simp
  then have "drop pos s ! length ?t = c"
    using nth_length_takeWhile [of "\<lambda>x. x \<noteq> c" "drop pos s"] by simp
  then show "s ! n = c" using n l by simp
  show "c \<notin> set (take (n - pos) (drop pos s))"
    using n by (simp add: takeWhile_eq_take [symmetric]) (metis (full_types) set_takeWhileD)
qed

lemma str_find_None:
  assumes "str_find c pos s = None"
  shows "c \<notin> set (drop pos s)"
proof
  assume "c \<in> set (drop pos s)"
  then have "length (takeWhile (\<lambda>x. x \<noteq> c) (drop pos s)) < length (drop pos s)"
    by (simp only: takeWhile_neq_length)
  with assms show False by (simp add: str_find_def Let_def split: if_splits)
qed

lemma str_find_append:
  assumes "c \<notin> set xs"
  shows "str_find c (length ps) (ps @ xs @ c # ys) = Some (length ps + length xs)"
proof -
  have "takeWhile (\<lambda>x. x \<noteq> c) (xs @ c # ys) = xs"
    using assms by (induction xs) auto
  then show ?thesis by (simp add: str_find_def Let_def)
qed

lemma str_find_absent:
  assumes "c \<notin> set xs"
  shows "str_find c (length ps) (ps @ xs) = None"
proof -
  have "takeWhile (\<lambda>x. x \<noteq> c) xs = xs"
    using assms by (auto simp: takeWhile_eq_all_conv)
  then have "length (takeWhile (\<lambda>x. x \<noteq> c) xs) = length xs" by (simp only:)
  then show ?thesis unfolding str_find_def Let_def by simp
qed

lemma str_rfind_Some:
  assumes "str_rfind c s = Some n"
  shows "n < length s" and "s ! n = c" and "c \<notin> set (drop (Suc n) s)"
proof -
  let ?t = "takeWhile (\<lambda>x. x \<noteq> c) (rev s)"
  from assms have l: "length ?t < length s" and n: "n = length s - 1 - length ?t"
    by (auto simp: str_rfind_def Let_def split: if_splits)
  show "n < length s" using l n by simp
  have "rev s ! length ?t = c"
    using nth_length_takeWhile [of "\<lambda>x. x \<noteq> c" "rev s"] l by simp
  then show "s ! n = c" using l n by (simp add: rev_nth)
  have "length s - Suc n = length ?t" using l n by simp
  then have "rev (drop (Suc n) s) = ?t"
    by (simp add: rev_drop takeWhile_eq_take [symmetric])
  then show "c \<notin> set (drop (Suc n) s)"
    by (metis (full_types) set_rev set_takeWhileD)
qed

lemma str_rfind_None: "str_rfind c s = None \<longleftrightarrow> c \<notin> set s"
  by (auto simp: str_rfind_def Let_def)
    (metis takeWhile_neq_length length_rev set_rev)+

section \<open>Decimal and hexadecimal numerals\<close>

definition digit_char :: "nat \<Rightarrow> char" where
  "digit_char d = char_of (48 + d)"

text \<open>\<^verbatim>\<open>printf("%u")\<close>: the decimal digits of a natural number.\<close>

fun nat_str :: "nat \<Rightarrow> string" where
  "nat_str n = (if n < 10 then [digit_char n] else nat_str (n div 10) @ [digit_char (n mod 10)])"

definition int_str :: "int \<Rightarrow> string" where
  "int_str i = (if i < 0 then CHR ''-'' # nat_str (nat (- i)) else nat_str (nat i))"

declare nat_str.simps [simp del]

definition is_digit :: "char \<Rightarrow> bool" where
  "is_digit c \<longleftrightarrow> 48 \<le> (of_char c :: nat) \<and> (of_char c :: nat) \<le> 57"

definition digit_val :: "char \<Rightarrow> nat" where
  "digit_val c = of_char c - 48"

text \<open>Value of a string of decimal digits, most significant first.\<close>

definition dec_val :: "string \<Rightarrow> nat" where
  "dec_val s = foldl (\<lambda>a c. 10 * a + digit_val c) 0 s"

lemma of_char_digit_char: "d < 10 \<Longrightarrow> (of_char (digit_char d) :: nat) = 48 + d"
  by (simp add: digit_char_def of_char_of)

lemma digit_val_char [simp]: "d < 10 \<Longrightarrow> digit_val (digit_char d) = d"
  by (simp add: digit_val_def of_char_digit_char)

lemma is_digit_char [simp]: "d < 10 \<Longrightarrow> is_digit (digit_char d)"
  by (simp add: is_digit_def of_char_digit_char)

lemma dec_val_snoc [simp]: "dec_val (s @ [c]) = 10 * dec_val s + digit_val c"
  by (simp add: dec_val_def)

lemma nat_str_digits: "\<forall>c \<in> set (nat_str n). is_digit c"
proof (induction n rule: nat_str.induct)
  case (1 n)
  then show ?case by (cases "n < 10") (auto simp: nat_str.simps [of n])
qed

lemma nat_str_not_Nil [simp]: "nat_str n \<noteq> []"
  by (subst nat_str.simps) simp

lemma dec_val_nat_str [simp]: "dec_val (nat_str n) = n"
proof (induction n rule: nat_str.induct)
  case (1 n)
  show ?case
  proof (cases "n < 10")
    case True
    then show ?thesis by (simp add: nat_str.simps [of n] dec_val_def)
  next
    case False
    with 1 show ?thesis by (simp add: nat_str.simps [of n])
  qed
qed

end
