(* ===== verification/Nbq.thy ===== *)
theory Nbq
  imports Prelude
begin

text \<open>
  The block queue \<^verbatim>\<open>nbq\<close> of \<^verbatim>\<open>src/core/support/nbq.{h,cc}\<close>: a list of
  fixed-size blocks with a write cursor and a read cursor.  The list iterators of the
  code are \<^emph>\<open>cursors\<close>: a position in the block list, or \<open>End\<close> for \<^verbatim>\<open>m_q.end()\<close>,
  which stays the end when blocks are appended.  Dereferencing or advancing \<open>End\<close>,
  and copying outside a block's buffer, is undefined behaviour: the result is
  \<^term>\<open>None\<close>.

  A block made by \<^verbatim>\<open>join_ref\<close> points into the buffer of another queue; the model
  keeps the bytes it points to (no operation of this file writes through such a block
  while its owner is in use).  \<^verbatim>\<open>malloc\<close> is assumed to succeed; its uninitialised
  bytes are modelled as NUL and no theorem reads them.
\<close>

section \<open>Blocks\<close>

record nb =
  nb_data :: "byte list"
  nb_len :: nat
  nb_written :: nat
  nb_read :: nat
  nb_ref :: bool

definition nb_new :: "nat \<Rightarrow> nb" where
  "nb_new len = \<lparr>nb_data = replicate len NUL, nb_len = len, nb_written = 0, nb_read = 0, nb_ref = False\<rparr>"

definition nb_new_ref :: "byte list \<Rightarrow> nat \<Rightarrow> nb" where
  "nb_new_ref buf len = \<lparr>nb_data = buf, nb_len = len, nb_written = len, nb_read = 0, nb_ref = True\<rparr>"

definition nb_write_avail :: "nb \<Rightarrow> nat" where
  "nb_write_avail b = sub32 (nb_len b) (nb_written b)"

definition nb_read_avail :: "nb \<Rightarrow> nat" where
  "nb_read_avail b = sub32 (nb_written b) (nb_read b)"

definition nb_write_inc :: "nat \<Rightarrow> nb \<Rightarrow> nb" where
  "nb_write_inc n b = b\<lparr>nb_written := u32 (nb_written b + n)\<rparr>"

definition nb_write_reset :: "nb \<Rightarrow> nb" where
  "nb_write_reset b = b\<lparr>nb_written := 0, nb_read := 0\<rparr>"

definition nb_read_inc :: "nat \<Rightarrow> nb \<Rightarrow> nb" where
  "nb_read_inc n b = b\<lparr>nb_read := u32 (nb_read b + n)\<rparr>"

definition nb_read_reset :: "nb \<Rightarrow> nb" where
  "nb_read_reset b = b\<lparr>nb_read := 0\<rparr>"

text \<open>\<^verbatim>\<open>memcpy(write_ptr(), src, n)\<close> and \<^verbatim>\<open>memcpy(dst, read_ptr(), n)\<close>.\<close>

definition nb_poke :: "byte list \<Rightarrow> nb \<Rightarrow> nb option" where
  "nb_poke src b =
     (if nb_written b + length src \<le> length (nb_data b)
      then Some (b\<lparr>nb_data := take (nb_written b) (nb_data b) @ src @
                              drop (nb_written b + length src) (nb_data b)\<rparr>)
      else None)"

definition nb_peek :: "nat \<Rightarrow> nb \<Rightarrow> byte list option" where
  "nb_peek n b =
     (if nb_read b + n \<le> length (nb_data b)
      then Some (take n (drop (nb_read b) (nb_data b))) else None)"

section \<open>Cursors\<close>

datatype cursor = At nat | End

definition it_begin :: "'a list \<Rightarrow> cursor" where
  "it_begin q = (if q = [] then End else At 0)"

text \<open>\<^verbatim>\<open>--end()\<close>; on an empty list libstdc++ yields the end again.\<close>

definition it_last :: "'a list \<Rightarrow> cursor" where
  "it_last q = (if q = [] then End else At (length q - 1))"

fun it_deref :: "'a list \<Rightarrow> cursor \<Rightarrow> 'a option" where
  "it_deref q (At i) = (if i < length q then Some (q ! i) else None)"
| "it_deref q End = None"

fun it_next :: "'a list \<Rightarrow> cursor \<Rightarrow> cursor option" where
  "it_next q (At i) =
     (if Suc i < length q then Some (At (Suc i)) else if Suc i = length q then Some End else None)"
| "it_next q End = None"

text \<open>Updating the object an iterator points to.\<close>

fun it_update :: "'a list \<Rightarrow> cursor \<Rightarrow> 'a \<Rightarrow> 'a list option" where
  "it_update q (At i) x = (if i < length q then Some (q[i := x]) else None)"
| "it_update q End x = None"

section \<open>The queue and its block operations\<close>

record nbq =
  m_q :: "nb list"
  m_bsize :: nat
  m_cur_write_block :: cursor
  m_cur_read_block :: cursor
  m_idx :: nat
  m_cur_write_offset :: nat
  m_total_read_avail :: nat
  m_max_read_queue :: int

definition nbq_new :: "nat \<Rightarrow> nbq" where
  "nbq_new bsize =
     \<lparr>m_q = [], m_bsize = bsize, m_cur_write_block = End, m_cur_read_block = End, m_idx = 0,
      m_cur_write_offset = 0, m_total_read_avail = 0, m_max_read_queue = -1\<rparr>"

definition read_avail :: "nbq \<Rightarrow> nat" where
  "read_avail q = m_total_read_avail q"

definition read_avail_is_max_limit :: "nbq \<Rightarrow> bool" where
  "read_avail_is_max_limit q \<longleftrightarrow>
     m_max_read_queue q > 0 \<and> int (m_total_read_avail q) \<ge> m_max_read_queue q"

definition b_write_avail :: "nbq \<Rightarrow> nat option" where
  "b_write_avail q =
     (if m_cur_write_block q = End then Some 0
      else map_option nb_write_avail (it_deref (m_q q) (m_cur_write_block q)))"

definition b_write_add_avail :: "nbq \<Rightarrow> (int \<times> nbq) option" where
  "b_write_add_avail q =
     (let q1 = q\<lparr>m_q := m_q q @ [nb_new (m_bsize q)]\<rparr> in
      do {
        q2 \<leftarrow>
          (if length (m_q q1) = 1
           then Some (q1\<lparr>m_cur_read_block := it_begin (m_q q1), m_cur_write_block := it_begin (m_q q1)\<rparr>)
           else do {
             b \<leftarrow> it_deref (m_q q1) (m_cur_write_block q1);
             if nb_write_avail b = 0 \<and> m_cur_write_block q1 \<noteq> it_last (m_q q1)
             then do { c \<leftarrow> it_next (m_q q1) (m_cur_write_block q1); Some (q1\<lparr>m_cur_write_block := c\<rparr>) }
             else Some q1 });
        b \<leftarrow> it_deref (m_q q2) (m_cur_write_block q2);
        Some (s32 (nb_write_avail b), q2) })"

definition b_write_incr :: "nat \<Rightarrow> nbq \<Rightarrow> nbq option" where
  "b_write_incr n q =
     do {
       b \<leftarrow> it_deref (m_q q) (m_cur_write_block q);
       bs \<leftarrow> it_update (m_q q) (m_cur_write_block q) (nb_write_inc n b);
       let q1 = q\<lparr>m_cur_write_offset := u64 (m_cur_write_offset q + n), m_q := bs,
                  m_total_read_avail := u64 (m_total_read_avail q + n)\<rparr>;
       q2 \<leftarrow>
         (if nb_write_avail (nb_write_inc n b) = 0 \<and> m_cur_write_block q1 \<noteq> it_last bs
          then do { c \<leftarrow> it_next bs (m_cur_write_block q1); Some (q1\<lparr>m_cur_write_block := c\<rparr>) }
          else Some q1);
       if n > 0
       then do {
         r \<leftarrow> it_deref bs (m_cur_read_block q2);
         if nb_read_avail r = 0
         then do { c \<leftarrow> it_next bs (m_cur_read_block q2); Some (q2\<lparr>m_cur_read_block := c\<rparr>) }
         else Some q2 }
       else Some q2 }"

text \<open>The copy to \<^verbatim>\<open>b_write_ptr()\<close> and the copy from \<^verbatim>\<open>b_read_ptr()\<close>.\<close>

definition b_write_copy :: "byte list \<Rightarrow> nbq \<Rightarrow> nbq option" where
  "b_write_copy src q =
     do {
       b \<leftarrow> it_deref (m_q q) (m_cur_write_block q);
       b' \<leftarrow> nb_poke src b;
       bs \<leftarrow> it_update (m_q q) (m_cur_write_block q) b';
       Some (q\<lparr>m_q := bs\<rparr>) }"

definition b_read_copy :: "nat \<Rightarrow> nbq \<Rightarrow> byte list option" where
  "b_read_copy n q =
     (if m_cur_read_block q = End then (if n = 0 then Some [] else None)
      else do { b \<leftarrow> it_deref (m_q q) (m_cur_read_block q); nb_peek n b })"

definition b_read_avail :: "nbq \<Rightarrow> int option" where
  "b_read_avail q =
     (if m_cur_read_block q = End then Some 0
      else if m_cur_read_block q = m_cur_write_block q then Some (s32 (m_total_read_avail q))
      else map_option (\<lambda>b. s32 (nb_read_avail b)) (it_deref (m_q q) (m_cur_read_block q)))"

definition b_read_incr :: "nat \<Rightarrow> nbq \<Rightarrow> nbq option" where
  "b_read_incr n q =
     do {
       a \<leftarrow> b_read_avail q;
       let total = sub64 (m_total_read_avail q) n;
       let avail = sub32 (u32_of_int a) n;
       b \<leftarrow> it_deref (m_q q) (m_cur_read_block q);
       bs \<leftarrow> it_update (m_q q) (m_cur_read_block q) (nb_read_inc n b);
       let q1 = q\<lparr>m_q := bs, m_total_read_avail := total\<rparr>;
       if avail = 0 \<and> total \<noteq> 0
       then do { c \<leftarrow> it_next bs (m_cur_read_block q1); Some (q1\<lparr>m_cur_read_block := c\<rparr>) }
       else Some q1 }"

section \<open>Writing\<close>

text \<open>
  \<^verbatim>\<open>nbq::write\<close>: the loop ends when the buffer is consumed; the result is the
  number of bytes written, or \<open>-1\<close> when no block could be added.  A null buffer is
  \<^term>\<open>None\<close>.
\<close>

partial_function (option) nbq_write_loop :: "byte list \<Rightarrow> nat \<Rightarrow> nbq \<Rightarrow> (int \<times> nbq) option" where
  "nbq_write_loop buf written q =
     (if buf = [] then Some (int written, q)
      else do {
        av \<leftarrow> b_write_avail q;
        (st, q1) \<leftarrow> (if av \<le> 0 then b_write_add_avail q else Some (1, q));
        if st \<le> 0 then Some (-1, q1)
        else do {
          av1 \<leftarrow> b_write_avail q1;
          q2 \<leftarrow> b_write_copy (take (if length buf > av1 then av1 else length buf) buf) q1;
          q3 \<leftarrow> b_write_incr (if length buf > av1 then av1 else length buf) q2;
          nbq_write_loop (drop (if length buf > av1 then av1 else length buf) buf)
            (written + (if length buf > av1 then av1 else length buf)) q3 } })"

definition nbq_write :: "byte list option \<Rightarrow> nbq \<Rightarrow> (int \<times> nbq) option" where
  "nbq_write buf q =
     (case buf of None \<Rightarrow> Some (-1, q)
      | Some bs \<Rightarrow> if bs = [] then Some (0, q) else nbq_write_loop bs 0 q)"

section \<open>Reading\<close>

text \<open>
  \<^verbatim>\<open>nbq::read\<close>: \<open>dst\<close> tells whether the destination is non-null.  The result is
  the count returned, the bytes stored at the destination and the queue.
\<close>

partial_function (option) nbq_read_loop ::
  "bool \<Rightarrow> nat \<Rightarrow> nat \<Rightarrow> byte list \<Rightarrow> nbq \<Rightarrow> (nat \<times> byte list \<times> nbq) option" where
  "nbq_read_loop dst left cnt out q =
     (if left = 0 then Some (cnt, out, q)
      else do {
        a \<leftarrow> b_read_avail q;
        xs \<leftarrow> (if dst then b_read_copy (if left > u32_of_int a then u32_of_int a else left) q else Some []);
        q1 \<leftarrow> b_read_incr (if left > u32_of_int a then u32_of_int a else left) q;
        nbq_read_loop dst (left - (if left > u32_of_int a then u32_of_int a else left))
          (cnt + (if left > u32_of_int a then u32_of_int a else left)) (out @ xs) q1 })"

definition nbq_read :: "bool \<Rightarrow> nat \<Rightarrow> nbq \<Rightarrow> (nat \<times> byte list \<times> nbq) option" where
  "nbq_read dst len q =
     (if len = 0 then Some (0, [], q)
      else nbq_read_loop dst (if len > read_avail q then read_avail q else len) 0 [] q)"

definition nbq_peek :: "nbq \<Rightarrow> byte option" where
  "nbq_peek q =
     (if read_avail q \<noteq> 0 then map_option hd (b_read_copy 1 q) else Some NUL)"

text \<open>\<^verbatim>\<open>reset_read\<close>: every block is unread again.\<close>

definition reset_read :: "nbq \<Rightarrow> nbq" where
  "reset_read q =
     (let bs = map nb_read_reset (m_q q)
      in q\<lparr>m_q := bs,
           m_total_read_avail := fold (\<lambda>b t. u64 (t + nb_read_avail b)) bs 0,
           m_cur_read_block := it_begin bs\<rparr>)"

definition read_seek :: "nat \<Rightarrow> nbq \<Rightarrow> (nat \<times> byte list \<times> nbq) option" where
  "read_seek off q = nbq_read False off (reset_read q)"

definition read_from :: "nat \<Rightarrow> nat \<Rightarrow> nbq \<Rightarrow> (nat \<times> byte list \<times> nbq) option" where
  "read_from off len q =
     do { (_, _, q1) \<leftarrow> read_seek off q; nbq_read True len q1 }"

section \<open>Resetting, shrinking\<close>

definition reset_write :: "nbq \<Rightarrow> nbq" where
  "reset_write q =
     (let bs = map nb_write_reset (filter (\<lambda>b. \<not> nb_ref b) (m_q q))
      in q\<lparr>m_q := bs, m_cur_write_block := it_begin bs, m_cur_read_block := it_begin bs,
           m_total_read_avail := 0, m_cur_write_offset := 0\<rparr>)"

definition nbq_reset :: "nbq \<Rightarrow> nbq" where
  "nbq_reset q =
     q\<lparr>m_q := [], m_cur_write_block := End, m_cur_read_block := End,
       m_cur_write_offset := 0, m_total_read_avail := 0\<rparr>"

text \<open>
  Removing the first block: the cursors that point to later blocks keep pointing to
  them, that is, their positions go down by one.  A cursor to the removed block
  dangles; the model makes it \<open>End\<close>, and the invariant below excludes the case.
\<close>

fun it_popped :: "cursor \<Rightarrow> cursor" where
  "it_popped (At (Suc i)) = At i"
| "it_popped (At 0) = End"
| "it_popped End = End"

function shrink_loop :: "nbq \<Rightarrow> nbq" where
  "shrink_loop q =
     (if it_begin (m_q q) \<noteq> m_cur_read_block q \<and> m_q q \<noteq> []
      then shrink_loop (q\<lparr>m_q := tl (m_q q),
             m_cur_write_offset := sub64 (m_cur_write_offset q) (nb_len (hd (m_q q))),
             m_cur_write_block := it_popped (m_cur_write_block q),
             m_cur_read_block := it_popped (m_cur_read_block q)\<rparr>)
      else q)"
  by pat_completeness auto
termination by (relation "measure (\<lambda>q. length (m_q q))") auto

declare shrink_loop.simps [simp del]

definition shrink :: "nbq \<Rightarrow> nbq" where
  "shrink q =
     (let q1 = shrink_loop q in
      case (it_deref (m_q q1) (m_cur_read_block q1), it_deref (m_q q1) (m_cur_write_block q1)) of
        (Some b, Some _) \<Rightarrow>
          (if m_cur_read_block q1 = m_cur_write_block q1 \<and> nb_read_avail b = 0 \<and> nb_write_avail b = 0
           then q1\<lparr>m_q := [], m_cur_write_block := End, m_cur_read_block := End,
                   m_cur_write_offset := 0, m_total_read_avail := 0\<rparr>
           else q1)
      | _ \<Rightarrow> q1)"

section \<open>Splitting and joining\<close>

text \<open>
  The search for the block at an offset: the number of blocks skipped and what is left
  of the offset.
\<close>

fun split_find :: "nb list \<Rightarrow> nat \<Rightarrow> nat \<times> nat" where
  "split_find [] off = (0, off)"
| "split_find (b # bs) off =
     (if nb_written b > off then (0, off)
      else (let (k, o') = split_find bs (off - nb_written b) in (Suc k, o')))"

text \<open>
  \<^verbatim>\<open>nbq::split\<close>: status, the new tail queue (none when the code leaves the output
  pointer null) and the remaining head.  After the search the iterator is advanced
  before the tail is moved, whether or not the block it was at has been cut.
\<close>

definition nbq_split :: "nat \<Rightarrow> nbq \<Rightarrow> (int \<times> nbq option \<times> nbq) option" where
  "nbq_split off q =
     (if off = 0 then Some (STATUS_OK, None, q)
      else if off \<ge> m_cur_write_offset q then Some (STATUS_ERROR, None, q)
      else (let (k, o') = split_find (m_q q) off; tl0 = nbq_new (m_bsize q) in
        do {
          (bs1, tl1) \<leftarrow>
            (if o' > 0
             then do {
               b \<leftarrow> it_deref (m_q q) (At k);
               (_, t1) \<leftarrow> b_write_add_avail tl0;
               (_, t2) \<leftarrow> nbq_write (Some (take (nb_written b - o') (drop o' (nb_data b)))) t1;
               Some ((m_q q)[k := nb_write_inc o' (nb_write_reset b)], t2) }
             else Some (m_q q, tl0));
          _ \<leftarrow> it_next bs1 (At k);
          let moved = map nb_read_reset (drop (Suc k) bs1);
          let tq = m_q tl1 @ moved;
          let tl2 = tl1\<lparr>m_q := tq,
                m_cur_write_offset := fold (\<lambda>b t. u64 (t + nb_written b)) moved (m_cur_write_offset tl1),
                m_cur_write_block := it_last tq, m_cur_read_block := it_begin tq\<rparr>;
          let hq = take (Suc k) bs1;
          let hd1 = q\<lparr>m_q := hq,
                m_cur_write_offset := fold (\<lambda>b t. sub64 t (nb_written b)) moved (m_cur_write_offset q),
                m_cur_write_block := it_last hq\<rparr>;
          Some (STATUS_OK, Some (reset_read tl2), reset_read hd1) }))"

definition join_ref :: "nbq \<Rightarrow> nbq \<Rightarrow> int \<times> nbq" where
  "join_ref t q =
     (let refs = map (\<lambda>b. nb_new_ref (take (nb_written b) (nb_data b)) (nb_written b)) (m_q t);
          bs = m_q q @ refs
      in (STATUS_OK,
          q\<lparr>m_q := bs,
            m_cur_write_offset := fold (\<lambda>b n. u64 (n + nb_written b)) refs (m_cur_write_offset q),
            m_total_read_avail := fold (\<lambda>b n. u64 (n + nb_written b)) refs (m_total_read_avail q),
            m_cur_write_block := End,
            m_cur_read_block := (if m_q q = [] then it_begin bs else m_cur_read_block q)\<rparr>))"


section \<open>Invariant and abstraction\<close>

text \<open>
  A block is well formed when its counters are ordered and its buffer has the length
  it says.  \<open>avail\<close> is what can still be read from it.
\<close>

definition blk_ok :: "nb \<Rightarrow> bool" where
  "blk_ok b \<longleftrightarrow> length (nb_data b) = nb_len b \<and> nb_read b \<le> nb_written b \<and>
     nb_written b \<le> nb_len b \<and> nb_len b < 2 ^ 31"

definition avail :: "nb \<Rightarrow> nat" where
  "avail b = nb_written b - nb_read b"

definition written_bytes :: "nb \<Rightarrow> byte list" where
  "written_bytes b = take (nb_written b) (nb_data b)"

definition avail_bytes :: "nb \<Rightarrow> byte list" where
  "avail_bytes b = drop (nb_read b) (written_bytes b)"

text \<open>What the queue still has to deliver, and everything that was written to it.\<close>

definition unread :: "nbq \<Rightarrow> byte list" where
  "unread q = concat (map avail_bytes (m_q q))"

definition all_written :: "nbq \<Rightarrow> byte list" where
  "all_written q = concat (map written_bytes (m_q q))"

text \<open>The part of the invariant that reading needs (it also holds after \<open>join_ref\<close>).\<close>

definition rd_inv :: "nbq \<Rightarrow> bool" where
  "rd_inv q \<longleftrightarrow>
     (\<forall>b \<in> set (m_q q). blk_ok b) \<and>
     m_total_read_avail q = sum_list (map avail (m_q q)) \<and> m_total_read_avail q < 2 ^ 64 \<and>
     (case m_cur_read_block q of
        End \<Rightarrow> m_total_read_avail q = 0
      | At r \<Rightarrow> r < length (m_q q) \<and>
          (\<forall>b \<in> set (take r (m_q q)). avail b = 0) \<and>
          (\<forall>b \<in> set (drop (Suc r) (m_q q)). nb_read b = 0)) \<and>
     (case m_cur_write_block q of
        End \<Rightarrow> True
      | At w \<Rightarrow> (\<forall>b \<in> set (drop (Suc w) (m_q q)). nb_written b = 0))"

text \<open>The invariant of a queue that is only written, read, rewound and reset.\<close>

definition wr_ok :: "nbq \<Rightarrow> nat \<Rightarrow> nat \<Rightarrow> bool" where
  "wr_ok q r w \<longleftrightarrow>
     m_cur_write_block q = At w \<and> m_cur_read_block q = At r \<and> r \<le> w \<and> w < length (m_q q) \<and>
     (\<forall>b \<in> set (m_q q). 0 < nb_len b) \<and>
     (\<forall>i < w. nb_written (m_q q ! i) = nb_len (m_q q ! i)) \<and>
     (nb_written (m_q q ! w) = nb_len (m_q q ! w) \<longrightarrow> Suc w = length (m_q q)) \<and>
     (m_total_read_avail q \<noteq> 0 \<longrightarrow> avail (m_q q ! r) \<noteq> 0)"

definition nbq_inv :: "nbq \<Rightarrow> bool" where
  "nbq_inv q \<longleftrightarrow>
     rd_inv q \<and> 0 < m_bsize q \<and> m_bsize q < 2 ^ 31 \<and>
     m_cur_write_offset q = sum_list (map nb_written (m_q q)) \<and> m_cur_write_offset q < 2 ^ 64 \<and>
     (m_q q = [] \<and> m_cur_write_block q = End \<and> m_cur_read_block q = End \<or>
      (\<exists>r w. wr_ok q r w))"

lemma nb_read_avail_ok [simp]: "blk_ok b \<Longrightarrow> nb_read_avail b = avail b"
  by (simp add: nb_read_avail_def avail_def blk_ok_def sub32_id)

lemma nb_write_avail_ok [simp]: "blk_ok b \<Longrightarrow> nb_write_avail b = nb_len b - nb_written b"
  by (simp add: nb_write_avail_def blk_ok_def sub32_id)

lemma length_avail_bytes [simp]: "blk_ok b \<Longrightarrow> length (avail_bytes b) = avail b"
  by (simp add: avail_bytes_def written_bytes_def avail_def blk_ok_def)

lemma length_written_bytes [simp]: "blk_ok b \<Longrightarrow> length (written_bytes b) = nb_written b"
  by (simp add: written_bytes_def blk_ok_def)

lemma avail_less: "blk_ok b \<Longrightarrow> avail b < 2 ^ 31"
  unfolding avail_def blk_ok_def by linarith

lemma length_concat_blocks:
  assumes "\<forall>b \<in> set bs. blk_ok b"
  shows "length (concat (map avail_bytes bs)) = sum_list (map avail bs)"
    and "length (concat (map written_bytes bs)) = sum_list (map nb_written bs)"
  using assms by (induction bs) auto

lemma rd_inv_length: "rd_inv q \<Longrightarrow> length (unread q) = m_total_read_avail q"
  by (simp add: rd_inv_def unread_def length_concat_blocks)

lemma nbq_inv_length: "nbq_inv q \<Longrightarrow> length (all_written q) = m_cur_write_offset q"
  by (simp add: nbq_inv_def rd_inv_def all_written_def length_concat_blocks)

lemma nbq_inv_rd: "nbq_inv q \<Longrightarrow> rd_inv q"
  by (simp add: nbq_inv_def)

lemma avail_bytes_Nil [simp]: "blk_ok b \<Longrightarrow> avail b = 0 \<Longrightarrow> avail_bytes b = []"
  by (metis length_avail_bytes length_0_conv)

lemma avail_le_written: "sum_list (map avail bs) \<le> sum_list (map nb_written bs)"
  by (induction bs) (auto simp: avail_def)

lemma nbq_new_inv [simp]: "0 < n \<Longrightarrow> n < 2 ^ 31 \<Longrightarrow> nbq_inv (nbq_new n)"
  by (simp add: nbq_inv_def rd_inv_def nbq_new_def)

lemma nbq_new_empty [simp]: "unread (nbq_new n) = []" "all_written (nbq_new n) = []"
  "m_cur_write_offset (nbq_new n) = 0" "m_q (nbq_new n) = []" "m_bsize (nbq_new n) = n"
  by (simp_all add: unread_def all_written_def nbq_new_def)

section \<open>Reading delivers the unread bytes in order\<close>

text \<open>With the invariant, the unread bytes are those of the read block and of the blocks after it.\<close>

lemma rd_inv_At:
  assumes "rd_inv q" "m_cur_read_block q = At r"
  shows "r < length (m_q q)" and "blk_ok (m_q q ! r)"
    and "unread q = avail_bytes (m_q q ! r) @ concat (map avail_bytes (drop (Suc r) (m_q q)))"
    and "m_total_read_avail q = avail (m_q q ! r) + sum_list (map avail (drop (Suc r) (m_q q)))"
    and "m_cur_write_block q = At r \<Longrightarrow> m_total_read_avail q = avail (m_q q ! r)"
    and "concat (map avail_bytes (take r (m_q q))) = []"
proof -
  show r: "r < length (m_q q)" and ok: "blk_ok (m_q q ! r)"
    using assms by (auto simp: rd_inv_def)
  have z: "\<forall>b \<in> set (take r (m_q q)). avail b = 0"
    and okt: "\<forall>b \<in> set (take r (m_q q)). blk_ok b"
    using assms by (auto simp: rd_inv_def dest: in_set_takeD)
  show "concat (map avail_bytes (take r (m_q q))) = []"
    by (rule concat_map_Nil) (use z okt in simp)
  then show "unread q = avail_bytes (m_q q ! r) @ concat (map avail_bytes (drop (Suc r) (m_q q)))"
    by (simp add: unread_def concat_map_split [OF r])
  have "sum_list (map avail (take r (m_q q))) = 0"
    by (rule sum_list_map_zero) (use z in simp)
  then show t: "m_total_read_avail q = avail (m_q q ! r) + sum_list (map avail (drop (Suc r) (m_q q)))"
    using assms(1) sum_list_map_split [OF r, of avail] by (simp add: rd_inv_def)
  assume "m_cur_write_block q = At r"
  then have "\<forall>b \<in> set (drop (Suc r) (m_q q)). avail b = 0"
    using assms by (auto simp: rd_inv_def avail_def)
  then have "sum_list (map avail (drop (Suc r) (m_q q))) = 0"
    by (rule sum_list_map_zero)
  with t show "m_total_read_avail q = avail (m_q q ! r)" by simp
qed

lemma rd_b_read_avail:
  assumes "rd_inv q" "m_cur_read_block q = At r"
  shows "b_read_avail q = Some (s32 (avail (m_q q ! r)))"
  using rd_inv_At(1,2,5) [OF assms] assms(2) by (simp add: b_read_avail_def)

text \<open>The block after consuming \<open>n\<close> bytes of it.\<close>

lemma nb_read_inc_ok:
  assumes "blk_ok b" "n \<le> avail b"
  shows "blk_ok (nb_read_inc n b)" "avail (nb_read_inc n b) = avail b - n"
    "avail_bytes (nb_read_inc n b) = drop n (avail_bytes b)"
    "written_bytes (nb_read_inc n b) = written_bytes b"
    "nb_written (nb_read_inc n b) = nb_written b" "nb_len (nb_read_inc n b) = nb_len b"
proof -
  have "nb_read b + n < 2 ^ 32" using assms avail_less [OF assms(1)] by (auto simp: blk_ok_def avail_def)
  then have e: "u32 (nb_read b + n) = nb_read b + n" by (rule u32_id)
  show "blk_ok (nb_read_inc n b)" "avail (nb_read_inc n b) = avail b - n"
    "avail_bytes (nb_read_inc n b) = drop n (avail_bytes b)"
    "written_bytes (nb_read_inc n b) = written_bytes b"
    "nb_written (nb_read_inc n b) = nb_written b" "nb_len (nb_read_inc n b) = nb_len b"
    using assms e by (auto simp: nb_read_inc_def blk_ok_def avail_def avail_bytes_def
      written_bytes_def add.commute)
qed

text \<open>The queue after a step of the read loop that takes \<open>n\<close> bytes of block \<open>r\<close>.\<close>

definition read_step :: "nat \<Rightarrow> nat \<Rightarrow> nbq \<Rightarrow> nbq" where
  "read_step r n q =
     q\<lparr>m_q := (m_q q)[r := nb_read_inc n (m_q q ! r)],
       m_total_read_avail := m_total_read_avail q - n,
       m_cur_read_block :=
         (if n = avail (m_q q ! r) \<and> n \<noteq> m_total_read_avail q then At (Suc r) else At r)\<rparr>"

lemma read_step_next:
  assumes "rd_inv q" "m_cur_read_block q = At r" "avail (m_q q ! r) \<noteq> m_total_read_avail q"
  shows "Suc r < length (m_q q)"
proof (rule ccontr)
  assume "\<not> Suc r < length (m_q q)"
  then have "drop (Suc r) (m_q q) = []" by simp
  with rd_inv_At(4) [OF assms(1,2)] assms(3) show False by simp
qed

lemma b_read_incr_step:
  assumes "rd_inv q" "m_cur_read_block q = At r" "n \<le> avail (m_q q ! r)"
  shows "b_read_incr n q = Some (read_step r n q)"
proof -
  note A = rd_inv_At [OF assms(1,2)]
  have le: "n \<le> m_total_read_avail q" using A(4) assms(3) by simp
  have t: "sub64 (m_total_read_avail q) n = m_total_read_avail q - n"
    using le assms(1) by (intro sub64_id) (auto simp: rd_inv_def)
  have a: "sub32 (avail (m_q q ! r)) n = avail (m_q q ! r) - n"
    using avail_less [OF A(2)] assms(3) by (intro sub32_id) auto
  have u: "u32 (avail (m_q q ! r)) = avail (m_q q ! r)"
    using avail_less [OF A(2)] by (intro u32_id) simp
  have nx: "Suc r < length (m_q q)" if "n = avail (m_q q ! r)" "n \<noteq> m_total_read_avail q"
    using read_step_next [OF assms(1,2)] that by simp
  show ?thesis
    using assms A(1) le nx
    by (auto simp: b_read_incr_def rd_b_read_avail t a u read_step_def Let_def)
qed

lemma read_step_inv:
  assumes "rd_inv q" "m_cur_read_block q = At r" "n \<le> avail (m_q q ! r)"
  shows "rd_inv (read_step r n q)" "unread (read_step r n q) = drop n (unread q)"
    "all_written (read_step r n q) = all_written q"
proof -
  note A = rd_inv_At [OF assms(1,2)]
  note R = nb_read_inc_ok [OF A(2) assms(3)]
  let ?bs = "(m_q q)[r := nb_read_inc n (m_q q ! r)]"
  have le: "n \<le> m_total_read_avail q" using A(4) assms(3) by simp
  have blk: "\<forall>b \<in> set ?bs. blk_ok b"
    using assms(1) R(1) by (auto simp: rd_inv_def dest!: set_update_subset_insert [THEN subsetD])
  have sum: "m_total_read_avail q - n = sum_list (map avail ?bs)"
    using sum_list_map_update [OF A(1), of avail "nb_read_inc n (m_q q ! r)"] R(2) assms(1,3)
    by (simp add: rd_inv_def)
  have pre: "\<forall>b \<in> set (take r ?bs). avail b = 0"
    using assms(1,2) by (simp add: rd_inv_def)
  have post: "\<forall>b \<in> set (drop (Suc r) ?bs). nb_read b = 0"
    using assms(1,2) by (simp add: rd_inv_def)
  have cw: "case m_cur_write_block q of End \<Rightarrow> True
      | At w \<Rightarrow> (\<forall>b \<in> set (drop (Suc w) ?bs). nb_written b = 0)"
  proof (cases "m_cur_write_block q")
    case (At w)
    then have "\<forall>b \<in> set (drop (Suc w) (m_q q)). nb_written b = 0"
      using assms(1) by (simp add: rd_inv_def)
    then have "\<forall>b \<in> set (drop (Suc w) ?bs). nb_written b = 0"
      by (rule all_drop_update) (use R(5) in simp)
    with At show ?thesis by simp
  qed simp
  have lt: "m_total_read_avail q - n < 2 ^ 64"
    using assms(1) le_less_trans [OF diff_le_self] unfolding rd_inv_def by blast
  show "rd_inv (read_step r n q)"
  proof (cases "n = avail (m_q q ! r) \<and> n \<noteq> m_total_read_avail q")
    case False
    then have "m_cur_read_block (read_step r n q) = At r" by (auto simp: read_step_def)
    moreover have "m_q (read_step r n q) = ?bs"
      "m_total_read_avail (read_step r n q) = m_total_read_avail q - n"
      "m_cur_write_block (read_step r n q) = m_cur_write_block q" by (auto simp: read_step_def)
    ultimately show ?thesis
      unfolding rd_inv_def using blk sum [symmetric] lt pre post cw A(1) by (simp split: cursor.splits)
  next
    case True
    have nx: "Suc r < length (m_q q)" using read_step_next [OF assms(1,2)] True by simp
    have pre': "\<forall>b \<in> set (take (Suc r) ?bs). avail b = 0"
      using pre True R(2) A(1) by (simp add: set_take_Suc)
    have post': "\<forall>b \<in> set (drop (Suc (Suc r)) ?bs). nb_read b = 0"
      using post in_set_drop_mono [OF le_SucI [OF order_refl], of _ "Suc r" ?bs] by auto
    have "m_cur_read_block (read_step r n q) = At (Suc r)" using True by (simp add: read_step_def)
    moreover have "m_q (read_step r n q) = ?bs"
      "m_total_read_avail (read_step r n q) = m_total_read_avail q - n"
      "m_cur_write_block (read_step r n q) = m_cur_write_block q" by (auto simp: read_step_def)
    ultimately show ?thesis
      unfolding rd_inv_def using blk sum [symmetric] lt pre' post' cw nx by (simp split: cursor.splits)
  qed
  show "unread (read_step r n q) = drop n (unread q)"
    using concat_map_update [OF A(1), of avail_bytes "nb_read_inc n (m_q q ! r)"] assms(3) A(2,3,6)
    by (simp add: unread_def read_step_def R(3))
  show "all_written (read_step r n q) = all_written q"
    using concat_map_update [OF A(1), of written_bytes] concat_map_split [OF A(1), of written_bytes]
    by (simp add: all_written_def read_step_def R(4))
qed

lemma nbq_inv_AtE:
  assumes "nbq_inv q" "m_q q \<noteq> [] \<or> m_cur_read_block q \<noteq> End \<or> m_cur_write_block q \<noteq> End"
  obtains r w where "wr_ok q r w"
  using assms by (auto simp: nbq_inv_def)

text \<open>Between the read and the write block every block is full and unread.\<close>

lemma wr_ok_between:
  assumes "nbq_inv q" "wr_ok q r w" "r < i" "i < w"
  shows "0 < avail (m_q q ! i)"
proof -
  have i: "i < length (m_q q)" using assms(2,4) by (simp add: wr_ok_def)
  have "m_q q ! i \<in> set (drop (Suc r) (m_q q))"
    using i assms(3) by (auto simp: in_set_conv_nth intro!: exI [of _ "i - Suc r"])
  then have "nb_read (m_q q ! i) = 0"
    using assms(1,2) by (simp add: nbq_inv_def rd_inv_def wr_ok_def)
  moreover have "m_q q ! i \<in> set (m_q q)" using i by simp
  then have "0 < nb_len (m_q q ! i)" using assms(2) by (simp add: wr_ok_def)
  ultimately show ?thesis
    using assms(2,4) by (simp add: wr_ok_def avail_def)
qed

lemma wr_ok_drained:
  assumes "nbq_inv q" "wr_ok q r w" "m_total_read_avail q = 0"
  shows "w \<le> Suc r"
proof (rule ccontr)
  assume "\<not> w \<le> Suc r"
  then have "0 < avail (m_q q ! Suc r)" "Suc r < length (m_q q)"
    using wr_ok_between [OF assms(1,2)] assms(2) by (simp_all add: wr_ok_def)
  moreover have "avail b = 0" if "b \<in> set (m_q q)" for b
    using that assms(1,3) member_le_sum_list_map [OF that, of avail] by (simp add: nbq_inv_def rd_inv_def)
  ultimately show False using nth_mem by force
qed

lemma read_step_wr:
  assumes "nbq_inv q" "m_cur_read_block q = At r" "n \<le> avail (m_q q ! r)"
  shows "nbq_inv (read_step r n q)"
proof -
  have rd: "rd_inv q" using assms(1) by (simp add: nbq_inv_def)
  note A = rd_inv_At [OF rd assms(2)]
  note R = nb_read_inc_ok [OF A(2) assms(3)]
  let ?q = "read_step r n q"
  from assms(1,2) obtain w where w: "wr_ok q r w"
    by (elim nbq_inv_AtE) (auto simp: wr_ok_def)
  have [simp]: "m_cur_write_block ?q = m_cur_write_block q" "m_bsize ?q = m_bsize q"
    "m_cur_write_offset ?q = m_cur_write_offset q" "length (m_q ?q) = length (m_q q)"
    by (auto simp: read_step_def)
  have mp: "map nb_written (m_q ?q) = map nb_written (m_q q)" "map nb_len (m_q ?q) = map nb_len (m_q q)"
    using R(5,6) A(1) by (auto simp: read_step_def map_update intro!: nth_equalityI simp: nth_list_update)
  have nth: "nb_written (m_q ?q ! i) = nb_written (m_q q ! i)" "nb_len (m_q ?q ! i) = nb_len (m_q q ! i)"
    if "i < length (m_q q)" for i
    using that R(5,6) by (cases "i = r"; simp add: read_step_def)+
  define r' where "r' = (if n = avail (m_q q ! r) \<and> n \<noteq> m_total_read_avail q then Suc r else r)"
  have r': "m_cur_read_block ?q = At r'" by (simp add: r'_def read_step_def)
  have cur: "m_cur_write_block q = At w" "r \<le> w" "w < length (m_q q)"
    using w by (simp_all add: wr_ok_def)
  have le: "r' \<le> w"
    using cur A(5) by (auto simp: r'_def le_eq_less_or_eq Suc_le_eq)
  have nz: "avail (m_q ?q ! r') \<noteq> 0" if t: "m_total_read_avail ?q \<noteq> 0"
  proof (cases "r' = r")
    case True
    have "n \<noteq> avail (m_q q ! r)" using True t assms(3) by (auto simp: r'_def read_step_def split: if_splits)
    then show ?thesis using True R(2) A(1) assms(3) by (simp add: read_step_def)
  next
    case False
    then have r: "r' = Suc r" by (auto simp: r'_def split: if_splits)
    then have e: "m_q ?q ! r' = m_q q ! r'" by (simp add: read_step_def)
    show ?thesis
    proof (cases "r' = w")
      case True
      have "m_cur_write_block ?q = At r'" using True cur by simp
      from rd_inv_At(5) [OF read_step_inv(1) [OF rd assms(2,3)] r' this] t show ?thesis by simp
    next
      case False
      then show ?thesis using wr_ok_between [OF assms(1) w, of r'] le r e by simp
    qed
  qed
  have "wr_ok ?q r' w"
    using w r' le nz nth cur by (auto simp: wr_ok_def read_step_def R(6) dest!: set_update_subset_insert [THEN subsetD])
  moreover have "rd_inv ?q" by (rule read_step_inv(1) [OF rd assms(2,3)])
  ultimately show ?thesis
    using assms(1) mp by (auto simp: nbq_inv_def)
qed

lemma read_step_frame:
  "m_cur_write_block (read_step r n q) = m_cur_write_block q" "m_bsize (read_step r n q) = m_bsize q"
  "m_cur_write_offset (read_step r n q) = m_cur_write_offset q"
  "length (m_q (read_step r n q)) = length (m_q q)"
  "m_total_read_avail (read_step r n q) = m_total_read_avail q - n"
  by (simp_all add: read_step_def)

lemma rd_b_read_copy:
  assumes "rd_inv q" "m_cur_read_block q = At r" "n \<le> avail (m_q q ! r)"
  shows "b_read_copy n q = Some (take n (unread q))"
proof -
  note A = rd_inv_At [OF assms(1,2)]
  have "nb_read (m_q q ! r) + n \<le> length (nb_data (m_q q ! r))"
    using A(2) assms(3) by (auto simp: blk_ok_def avail_def)
  moreover have "take n (drop (nb_read (m_q q ! r)) (nb_data (m_q q ! r))) = take n (avail_bytes (m_q q ! r))"
    using assms(3) by (simp add: avail_bytes_def written_bytes_def avail_def drop_take)
  ultimately show ?thesis
    using A assms(2,3) by (simp add: b_read_copy_def nb_peek_def)
qed

text \<open>
  The read loop: each round either takes bytes or steps over a block with none, so
  \<open>left\<close> plus the number of blocks ahead goes down.
\<close>

definition read_post :: "nbq \<Rightarrow> nat \<Rightarrow> nbq \<Rightarrow> bool" where
  "read_post q n q' \<longleftrightarrow>
     rd_inv q' \<and> (nbq_inv q \<longrightarrow> nbq_inv q') \<and> unread q' = drop n (unread q) \<and>
     all_written q' = all_written q \<and> m_bsize q' = m_bsize q \<and>
     m_cur_write_offset q' = m_cur_write_offset q \<and> m_total_read_avail q' = m_total_read_avail q - n"

lemma read_post_trans: "read_post q n q1 \<Longrightarrow> read_post q1 m q2 \<Longrightarrow> read_post q (n + m) q2"
  by (simp add: read_post_def add.commute)

lemma read_post_step:
  assumes "rd_inv q" "m_cur_read_block q = At r" "n \<le> avail (m_q q ! r)"
  shows "read_post q n (read_step r n q)"
  using read_step_inv[OF assms] read_step_wr[OF _ assms(2,3)] by (simp add: read_post_def read_step_frame)

definition blocks_ahead :: "nbq \<Rightarrow> nat" where
  "blocks_ahead q = (case m_cur_read_block q of At r \<Rightarrow> length (m_q q) - r | End \<Rightarrow> 0)"

text \<open>One round of a loop that takes \<open>left\<close> bytes block by block.\<close>

lemma read_round:
  assumes "rd_inv q" "left \<le> m_total_read_avail q" "left \<noteq> 0"
  obtains a n q1 where "b_read_avail q = Some a" "n = (if left > u32_of_int a then u32_of_int a else left)"
    "b_read_copy n q = Some (take n (unread q))" "b_read_incr n q = Some q1" "read_post q n q1" "n \<le> left"
    "left - n \<le> m_total_read_avail q1" "left - n + blocks_ahead q1 < left + blocks_ahead q"
proof -
  obtain r where r: "m_cur_read_block q = At r"
    using assms by (cases "m_cur_read_block q") (auto simp: rd_inv_def)
  note A = rd_inv_At [OF assms(1) r]
  let ?a = "avail (m_q q ! r)"
  define n where "n = (if left > ?a then ?a else left)"
  have n: "n \<le> ?a" "n \<le> left" by (auto simp: n_def)
  have u: "u32 ?a = ?a" using avail_less [OF A(2)] by (intro u32_id) simp
  have dec: "left - n + blocks_ahead (read_step r n q) < left + blocks_ahead q"
  proof (cases "n = 0")
    case True
    then have "?a = 0" using assms(3) by (auto simp: n_def split: if_splits)
    then show ?thesis using True r A(1) assms(2,3) by (simp add: read_step_def blocks_ahead_def)
  next
    case False
    then show ?thesis using n A(1) r by (auto simp: read_step_def blocks_ahead_def)
  qed
  show ?thesis
    by (rule that[OF rd_b_read_avail [OF assms(1) r] _ rd_b_read_copy [OF assms(1) r n(1)]
          b_read_incr_step [OF assms(1) r n(1)] read_post_step [OF assms(1) r n(1)] n(2) _ dec])
      (use u assms(2) in \<open>simp_all add: n_def read_step_frame\<close>)
qed

lemma take_round: "n \<le> left \<Longrightarrow> take n xs @ take (left - n) (drop n xs) = take left xs"
  by (metis take_add le_add_diff_inverse)

lemma nbq_read_loop_spec:
  assumes "rd_inv q" "left \<le> m_total_read_avail q"
  shows "\<exists>q'. nbq_read_loop dst left cnt out q =
      Some (cnt + left, out @ (if dst then take left (unread q) else []), q') \<and> read_post q left q'"
  using assms
proof (induction "left + blocks_ahead q" arbitrary: left cnt out q rule: less_induct)
  case less
  show ?case
  proof (cases "left = 0")
    case True
    then show ?thesis
      using less.prems by (subst nbq_read_loop.simps) (simp add: read_post_def)
  next
    case False
    obtain a n q1 where R: "b_read_avail q = Some a" "n = (if left > u32_of_int a then u32_of_int a else left)"
      "b_read_copy n q = Some (take n (unread q))" "b_read_incr n q = Some q1" "read_post q n q1" "n \<le> left"
      "left - n \<le> m_total_read_avail q1" "left - n + blocks_ahead q1 < left + blocks_ahead q"
      using read_round[OF less.prems False] by blast
    let ?out = "out @ (if dst then take n (unread q) else [])"
    have loop: "nbq_read_loop dst left cnt out q = nbq_read_loop dst (left - n) (cnt + n) ?out q1"
      using False R(1,3,4) by (subst nbq_read_loop.simps) (simp add: R(2)[symmetric])
    have "rd_inv q1" "unread q1 = drop n (unread q)" using R(5) by (simp_all add: read_post_def)
    then obtain q' where
      q': "nbq_read_loop dst (left - n) (cnt + n) ?out q1 =
        Some (cnt + n + (left - n), ?out @ (if dst then take (left - n) (drop n (unread q)) else []), q')"
      "read_post q1 (left - n) q'" using less.hyps [OF R(8) _ R(7), of "cnt + n" ?out] by auto
    then show ?thesis
      using loop R(6) read_post_trans[OF R(5) q'(2)] take_round[OF R(6), of "unread q"] by simp
  qed
qed

lemma nbq_read_spec:
  assumes "rd_inv q"
  shows "\<exists>q'. nbq_read dst len q =
      Some (min len (length (unread q)), if dst then take len (unread q) else [], q') \<and>
    read_post q (min len (length (unread q))) q'"
proof (cases "len = 0")
  case True
  then show ?thesis using assms by (simp add: nbq_read_def read_post_def)
next
  case False
  let ?n = "if len > m_total_read_avail q then m_total_read_avail q else len"
  have n: "?n = min len (length (unread q))" by (simp add: rd_inv_length [OF assms])
  have t: "take ?n (unread q) = take len (unread q)" by (simp add: rd_inv_length [OF assms, symmetric])
  from nbq_read_loop_spec [OF assms, of ?n dst 0 "[]"] False show ?thesis
    unfolding nbq_read_def read_avail_def n [symmetric] t by auto
qed

section \<open>Writing appends\<close>

lemma b_write_avail_wr:
  assumes "nbq_inv q" "wr_ok q r w"
  shows "b_write_avail q = Some (nb_len (m_q q ! w) - nb_written (m_q q ! w))"
proof -
  have "w < length (m_q q)" "m_cur_write_block q = At w" using assms(2) by (simp_all add: wr_ok_def)
  moreover from this have "blk_ok (m_q q ! w)" using assms(1) by (simp add: nbq_inv_def rd_inv_def)
  ultimately show ?thesis by (simp add: b_write_avail_def)
qed

lemma nb_new_simps [simp]:
  "avail (nb_new n) = 0" "nb_written (nb_new n) = 0" "nb_len (nb_new n) = n" "nb_read (nb_new n) = 0"
  "avail_bytes (nb_new n) = []" "written_bytes (nb_new n) = []"
  "nb_write_avail (nb_new n) = u32 n"
  by (simp_all add: nb_new_def avail_def avail_bytes_def written_bytes_def nb_write_avail_def sub32_def
    u32_def nat_mod_distrib)

lemma blk_ok_new: "n < 2 ^ 31 \<Longrightarrow> blk_ok (nb_new n)"
  by (simp add: blk_ok_def nb_new_def)

text \<open>When the write block is full (or there is none) a block is added and has room.\<close>

lemma b_write_add_avail_spec:
  assumes "nbq_inv q" "b_write_avail q = Some 0"
  shows "\<exists>q1 r w. b_write_add_avail q = Some (int (m_bsize q), q1) \<and> nbq_inv q1 \<and> wr_ok q1 r w \<and>
    nb_written (m_q q1 ! w) < nb_len (m_q q1 ! w) \<and> unread q1 = unread q \<and>
    all_written q1 = all_written q \<and> m_cur_write_offset q1 = m_cur_write_offset q \<and> m_bsize q1 = m_bsize q \<and>
    m_q q1 = m_q q @ [nb_new (m_bsize q)] \<and> w = length (m_q q)"
proof (cases "m_q q = []")
  case True
  let ?q1 = "q\<lparr>m_q := [nb_new (m_bsize q)], m_cur_read_block := At 0, m_cur_write_block := At 0\<rparr>"
  have b: "0 < m_bsize q" "m_bsize q < 2 ^ 31" using assms(1) by (simp_all add: nbq_inv_def)
  have z: "m_total_read_avail q = 0" "m_cur_write_offset q = 0"
    using assms(1) True by (simp_all add: nbq_inv_def rd_inv_def)
  have "b_write_add_avail q = Some (int (m_bsize q), ?q1)"
    using True b by (simp add: b_write_add_avail_def it_begin_def s32_id u32_id)
  moreover have w: "wr_ok ?q1 0 0" using b z by (simp add: wr_ok_def)
  moreover have "nbq_inv ?q1"
    using b z w blk_ok_new [OF b(2)] by (auto simp: nbq_inv_def rd_inv_def)
  ultimately show ?thesis
    using b True by (intro exI [of _ ?q1] exI [of _ 0]) (simp add: unread_def all_written_def)
next
  case False
  then obtain r w where w: "wr_ok q r w" using assms(1) by (elim nbq_inv_AtE) auto
  let ?q1 = "q\<lparr>m_q := m_q q @ [nb_new (m_bsize q)], m_cur_write_block := At (Suc w)\<rparr>"
  have b: "0 < m_bsize q" "m_bsize q < 2 ^ 31" using assms(1) by (simp_all add: nbq_inv_def)
  have cur: "m_cur_write_block q = At w" "m_cur_read_block q = At r" "r \<le> w" "w < length (m_q q)"
    using w by (simp_all add: wr_ok_def)
  have ok: "blk_ok (m_q q ! w)" using assms(1) cur by (simp add: nbq_inv_def rd_inv_def)
  have full: "nb_written (m_q q ! w) = nb_len (m_q q ! w)"
    using assms b_write_avail_wr [OF assms(1) w] ok by (simp add: blk_ok_def)
  then have last: "Suc w = length (m_q q)" using w by (simp add: wr_ok_def)
  have "b_write_add_avail q = Some (int (m_bsize q), ?q1)"
    using False b cur ok full last
    by (simp add: b_write_add_avail_def it_last_def s32_id u32_id nth_append)
  moreover have "wr_ok ?q1 r (Suc w)"
  proof -
    have "\<forall>i < length (m_q q). nb_written (m_q q ! i) = nb_len (m_q q ! i)"
    proof (intro allI impI)
      fix i assume "i < length (m_q q)"
      then have "i < w \<or> i = w" using last by linarith
      then show "nb_written (m_q q ! i) = nb_len (m_q q ! i)" using w full by (auto simp: wr_ok_def)
    qed
    then show ?thesis using w b cur last by (auto simp: wr_ok_def nth_append)
  qed
  moreover have "nbq_inv ?q1"
  proof -
    have "rd_inv ?q1"
      using assms(1) cur last blk_ok_new [OF b(2)] by (auto simp: nbq_inv_def rd_inv_def)
    then show ?thesis
      using assms(1) \<open>wr_ok ?q1 r (Suc w)\<close> by (auto simp: nbq_inv_def)
  qed
  ultimately show ?thesis
    using b last by (intro exI [of _ ?q1] exI [of _ r] exI [of _ "Suc w"])
      (simp add: unread_def all_written_def nth_append)
qed

text \<open>The write block with \<open>src\<close> copied to it, and the queue after one round of the write loop.\<close>

definition nb_filled :: "byte list \<Rightarrow> nb \<Rightarrow> nb" where
  "nb_filled src b = b\<lparr>nb_data := take (nb_written b) (nb_data b) @ src @
     drop (nb_written b + length src) (nb_data b), nb_written := nb_written b + length src\<rparr>"

lemma nb_filled_ok:
  assumes "blk_ok b" "length src \<le> nb_len b - nb_written b"
  shows "blk_ok (nb_filled src b)" "avail (nb_filled src b) = avail b + length src"
    "avail_bytes (nb_filled src b) = avail_bytes b @ src"
    "written_bytes (nb_filled src b) = written_bytes b @ src"
    "nb_written (nb_filled src b) = nb_written b + length src" "nb_len (nb_filled src b) = nb_len b"
    "nb_read (nb_filled src b) = nb_read b"
  using assms by (auto simp: nb_filled_def blk_ok_def avail_def avail_bytes_def written_bytes_def)

definition write_step :: "nat \<Rightarrow> nat \<Rightarrow> byte list \<Rightarrow> nbq \<Rightarrow> nbq" where
  "write_step r w src q =
     (let b = nb_filled src (m_q q ! w); bs = (m_q q)[w := b] in
      q\<lparr>m_q := bs, m_cur_write_offset := m_cur_write_offset q + length src,
        m_total_read_avail := m_total_read_avail q + length src,
        m_cur_write_block := (if nb_written b = nb_len b \<and> Suc w < length bs then At (Suc w) else At w),
        m_cur_read_block := (if avail (bs ! r) = 0 then At (Suc r) else At r)\<rparr>)"

lemma b_write_step:
  assumes "nbq_inv q" "wr_ok q r w" "length src \<le> nb_len (m_q q ! w) - nb_written (m_q q ! w)"
    "src \<noteq> []" "m_cur_write_offset q + length src < 2 ^ 64"
  shows "do { q1 \<leftarrow> b_write_copy src q; b_write_incr (length src) q1 } = Some (write_step r w src q)"
proof -
  have cur: "m_cur_write_block q = At w" "m_cur_read_block q = At r" "r \<le> w" "w < length (m_q q)"
    using assms(2) by (simp_all add: wr_ok_def)
  let ?b = "m_q q ! w"
  have ok: "blk_ok ?b" using assms(1) cur by (simp add: nbq_inv_def rd_inv_def)
  have tra: "m_total_read_avail q \<le> m_cur_write_offset q"
    using assms(1) avail_le_written by (simp add: nbq_inv_def rd_inv_def)
  have wi: "nb_write_inc (length src) (?b\<lparr>nb_data := take (nb_written ?b) (nb_data ?b) @ src @
      drop (nb_written ?b + length src) (nb_data ?b)\<rparr>) = nb_filled src ?b"
  proof -
    have "nb_written ?b + length src < 2 ^ 32" using ok assms(3) by (auto simp: blk_ok_def)
    then show ?thesis by (simp add: nb_write_inc_def nb_filled_def u32_id)
  qed
  note F = nb_filled_ok [OF ok assms(3)]
  have okr: "blk_ok ((m_q q)[w := nb_filled src ?b] ! r)"
    using assms(1) F(1) cur by (cases "r = w") (simp_all add: nbq_inv_def rd_inv_def)
  have rd: "r < length (m_q q)" using cur by simp
  have z: "r \<noteq> w" if "avail ((m_q q)[w := nb_filled src ?b] ! r) = 0"
    using that assms(4) cur F(2) by auto
  have copy: "b_write_copy src q = Some (q\<lparr>m_q := (m_q q)[w := ?b\<lparr>nb_data := take (nb_written ?b) (nb_data ?b) @ src @
      drop (nb_written ?b + length src) (nb_data ?b)\<rparr>]\<rparr>)"
  proof -
    have "nb_written ?b + length src \<le> length (nb_data ?b)" using ok assms(3) by (auto simp: blk_ok_def)
    then show ?thesis using cur by (simp add: b_write_copy_def nb_poke_def)
  qed
  let ?F = "nb_filled src ?b"
  let ?bs = "(m_q q)[w := ?F]"
  define b1 where "b1 = ?b\<lparr>nb_data := take (nb_written ?b) (nb_data ?b) @ src @
      drop (nb_written ?b + length src) (nb_data ?b)\<rparr>"
  define q1 where "q1 = q\<lparr>m_q := (m_q q)[w := b1]\<rparr>"
  have q1: "b_write_copy src q = Some q1" using copy by (simp add: q1_def b1_def)
  have f: "it_deref (m_q q1) (At w) = Some b1" "it_update (m_q q1) (At w) ?F = Some ?bs"
    "nb_write_inc (length src) b1 = ?F" "it_deref ?bs (At r) = Some (?bs ! r)"
    using cur wi by (simp_all add: q1_def b1_def)
  have n: "u64 (m_cur_write_offset q1 + length src) = m_cur_write_offset q + length src"
    "u64 (m_total_read_avail q1 + length src) = m_total_read_avail q + length src"
    using assms(5) tra by (simp_all add: q1_def u64_id)
  have fr: "q1\<lparr>m_cur_write_offset := x, m_q := bs, m_total_read_avail := y\<rparr> =
      q\<lparr>m_q := bs, m_cur_write_offset := x, m_total_read_avail := y\<rparr>" for x bs y
    by (simp add: q1_def)
  have cw: "nb_write_avail ?F = 0 \<and> At w \<noteq> it_last ?bs \<longleftrightarrow> nb_written ?F = nb_len ?F \<and> Suc w < length ?bs"
    using F(1) cur by (auto simp: it_last_def blk_ok_def)
  have cq: "m_cur_write_block q1 = At w" "m_cur_read_block q1 = At r" using cur by (simp_all add: q1_def)
  have nx: "Suc r < length ?bs" if "avail (?bs ! r) = 0" using z [OF that] cur by simp
  note defs = b_write_incr_def write_step_def Let_def
  show ?thesis
  proof (cases "nb_written ?F = nb_len ?F \<and> Suc w < length ?bs"; cases "avail (?bs ! r) = 0")
  qed (use assms(4) nx rd okr cur(1,2) in \<open>simp_all add: q1 defs f n fr cw cq
      del: it_deref.simps it_update.simps\<close>)
qed

lemma write_step_inv:
  assumes "nbq_inv q" "wr_ok q r w" "length src \<le> nb_len (m_q q ! w) - nb_written (m_q q ! w)"
    "src \<noteq> []" "m_cur_write_offset q + length src < 2 ^ 64"
  shows "nbq_inv (write_step r w src q)" "unread (write_step r w src q) = unread q @ src"
    "all_written (write_step r w src q) = all_written q @ src"
    "m_cur_write_offset (write_step r w src q) = m_cur_write_offset q + length src"
    "m_bsize (write_step r w src q) = m_bsize q"
proof -
  let ?q = "write_step r w src q" and ?b = "nb_filled src (m_q q ! w)"
  let ?bs = "(m_q q)[w := ?b]"
  have rd: "rd_inv q" using assms(1) by (simp add: nbq_inv_def)
  have cur: "m_cur_write_block q = At w" "m_cur_read_block q = At r" "r \<le> w" "w < length (m_q q)"
    using assms(2) by (simp_all add: wr_ok_def)
  have ok: "blk_ok (m_q q ! w)" using rd cur by (simp add: rd_inv_def)
  note F = nb_filled_ok [OF ok assms(3)]
  have tra: "m_total_read_avail q \<le> m_cur_write_offset q"
    using assms(1) avail_le_written by (simp add: nbq_inv_def rd_inv_def)
  have blk: "\<forall>b \<in> set ?bs. blk_ok b" using rd F(1) by (intro all_set_update) (auto simp: rd_inv_def)
  have pos: "\<forall>b \<in> set ?bs. 0 < nb_len b"
    using assms(2) F(6) by (intro all_set_update) (auto simp: wr_ok_def)
  have av: "m_total_read_avail q + length src = sum_list (map avail ?bs)"
    using sum_list_map_update [OF cur(4), of avail ?b] F(2) rd by (simp add: rd_inv_def)
  have wo: "m_cur_write_offset q + length src = sum_list (map nb_written ?bs)"
    using sum_list_map_update [OF cur(4), of nb_written ?b] F(5) assms(1) by (simp add: nbq_inv_def)
  have after: "\<forall>b \<in> set (drop (Suc w) (m_q q)). nb_written b = 0"
    using rd cur by (simp add: rd_inv_def)
  have pre: "\<forall>b \<in> set (take r ?bs). avail b = 0" using rd cur by (simp add: rd_inv_def)
  have post: "\<forall>b \<in> set (drop (Suc r) ?bs). nb_read b = 0"
    using rd cur F(7) by (intro all_drop_update) (simp_all add: rd_inv_def)
  define w' where "w' = (if nb_written ?b = nb_len ?b \<and> Suc w < length ?bs then Suc w else w)"
  define r' where "r' = (if avail (?bs ! r) = 0 then Suc r else r)"
  have q: "m_q ?q = ?bs" "m_cur_write_block ?q = At w'" "m_cur_read_block ?q = At r'"
    "m_total_read_avail ?q = m_total_read_avail q + length src" "m_bsize ?q = m_bsize q"
    "m_cur_write_offset ?q = m_cur_write_offset q + length src"
    by (simp_all add: write_step_def Let_def w'_def r'_def)
  have nw: "r \<noteq> w" if "avail (?bs ! r) = 0" using that cur F(2) assms(4) by auto
  have sr: "Suc r = w" if "avail (?bs ! r) = 0"
  proof -
    have "avail (m_q q ! r) = 0" using that nw by simp
    then have "m_total_read_avail q = 0" using assms(2) by (auto simp: wr_ok_def)
    from wr_ok_drained [OF assms(1,2) this] show ?thesis using nw [OF that] cur by simp
  qed
  have w': "w \<le> w'" "w' < length ?bs" using cur by (simp_all add: w'_def)
  have r': "r' \<le> w'" "r' < length ?bs" using w' cur sr by (auto simp: r'_def)
  have pre': "\<forall>b \<in> set (take r' ?bs). avail b = 0"
    using pre cur by (auto simp: r'_def set_take_Suc)
  have post': "\<forall>b \<in> set (drop (Suc r') ?bs). nb_read b = 0"
    using post in_set_drop_mono [OF le_SucI [OF order_refl], of _ "Suc r" ?bs] by (auto simp: r'_def)
  have after': "\<forall>b \<in> set (drop (Suc w') ?bs). nb_written b = 0"
    using after in_set_drop_mono [OF le_SucI [OF order_refl], of _ "Suc w" ?bs] by (auto simp: w'_def)
  have rd': "rd_inv ?q"
    unfolding rd_inv_def q using blk av [symmetric] pre' post' after' r' tra assms(5) by simp
  have nz: "avail (?bs ! r') \<noteq> 0"
    using sr F(2) assms(4) cur by (auto simp: r'_def)
  have full: "nb_written (?bs ! i) = nb_len (?bs ! i)" if "i < w'" for i
    using that assms(2) by (cases "i = w") (auto simp: w'_def wr_ok_def split: if_splits)
  have room: "Suc w' = length ?bs" if "nb_written (?bs ! w') = nb_len (?bs ! w')"
  proof (cases "w' = w")
    case True
    then show ?thesis using that cur by (auto simp: w'_def split: if_splits)
  next
    case False
    then have "w' = Suc w" by (auto simp: w'_def split: if_splits)
    moreover have "?bs ! w' \<in> set (drop (Suc w) (m_q q))"
      using calculation w' by (simp add: in_set_conv_nth) (rule exI [of _ 0], simp)
    moreover have "?bs ! w' \<in> set ?bs" using w'(2) by simp
    ultimately show ?thesis using after pos that by (auto dest!: bspec)
  qed
  have "wr_ok ?q r' w'"
    unfolding wr_ok_def q using w' r' pos full room nz by blast
  then show "nbq_inv ?q"
    unfolding nbq_inv_def using rd' q wo assms(1,5) by (auto simp: nbq_inv_def)
  have okd: "\<forall>b \<in> set (drop (Suc w) (m_q q)). blk_ok b"
    using rd by (auto simp: rd_inv_def dest: in_set_dropD)
  have e: "concat (map avail_bytes (drop (Suc w) (m_q q))) = []"
    by (rule concat_map_Nil) (use after in \<open>simp add: avail_bytes_def written_bytes_def\<close>)
  show "unread ?q = unread q @ src"
    unfolding unread_def q concat_map_update [OF cur(4)] concat_map_split [OF cur(4), of avail_bytes] F(3) e
    by simp
  have e': "concat (map written_bytes (drop (Suc w) (m_q q))) = []"
    by (rule concat_map_Nil) (use after in \<open>simp add: written_bytes_def\<close>)
  show "all_written ?q = all_written q @ src"
    unfolding all_written_def q concat_map_update [OF cur(4)] concat_map_split [OF cur(4), of written_bytes] F(4) e'
    by simp
  show "m_cur_write_offset ?q = m_cur_write_offset q + length src" "m_bsize ?q = m_bsize q"
    by (simp_all add: q)
qed

text \<open>The write loop: every round consumes bytes of the buffer.\<close>

definition write_post :: "nbq \<Rightarrow> byte list \<Rightarrow> nbq \<Rightarrow> bool" where
  "write_post q buf q' \<longleftrightarrow>
     nbq_inv q' \<and> unread q' = unread q @ buf \<and> all_written q' = all_written q @ buf \<and>
     m_cur_write_offset q' = m_cur_write_offset q + length buf \<and> m_bsize q' = m_bsize q"

text \<open>Before the copy of a round the write block has room.\<close>

lemma write_room:
  assumes "nbq_inv q"
  shows "\<exists>st q1 r w av. b_write_avail q = Some av \<and>
    (if av \<le> 0 then b_write_add_avail q else Some (1, q)) = Some (st, q1) \<and> 0 < st \<and>
    write_post q [] q1 \<and> wr_ok q1 r w \<and> nb_written (m_q q1 ! w) < nb_len (m_q q1 ! w) \<and>
    (m_q q1 = m_q q \<or> m_q q1 = m_q q @ [nb_new (m_bsize q)] \<and> w = length (m_q q))"
proof (cases "\<exists>av. b_write_avail q = Some av \<and> 0 < av")
  case True
  then obtain av where av: "b_write_avail q = Some av" "0 < av" by blast
  then have "m_cur_write_block q \<noteq> End" by (auto simp: b_write_avail_def)
  then obtain r w where w: "wr_ok q r w" using assms by (elim nbq_inv_AtE) auto
  then have "nb_written (m_q q ! w) < nb_len (m_q q ! w)"
    using av b_write_avail_wr [OF assms w] by simp
  with av w assms show ?thesis by (auto simp: write_post_def)
next
  case False
  have "b_write_avail q = Some 0"
  proof (cases "m_cur_write_block q = End")
    case False
    then obtain r w where "wr_ok q r w" using assms by (elim nbq_inv_AtE) auto
    then show ?thesis
      using b_write_avail_wr [OF assms] \<open>\<not> (\<exists>av. b_write_avail q = Some av \<and> 0 < av)\<close> by simp
  qed (simp add: b_write_avail_def)
  from b_write_add_avail_spec [OF assms this] obtain q1 r w where
    "b_write_add_avail q = Some (int (m_bsize q), q1)" "wr_ok q1 r w"
    "nb_written (m_q q1 ! w) < nb_len (m_q q1 ! w)" "write_post q [] q1"
    "m_q q1 = m_q q @ [nb_new (m_bsize q)]" "w = length (m_q q)"
    unfolding write_post_def by auto
  moreover have "0 < int (m_bsize q)" using assms by (simp add: nbq_inv_def)
  ultimately show ?thesis using \<open>b_write_avail q = Some 0\<close> by auto
qed

text \<open>No block of the queue is empty: what the loop keeps, as it adds a block only to write to it.\<close>

definition packed :: "nbq \<Rightarrow> bool" where
  "packed q \<longleftrightarrow> (\<forall>b \<in> set (m_q q). 0 < nb_written b)"

lemma packed_write_step:
  assumes "packed q" "m_q q1 = m_q q \<or> m_q q1 = m_q q @ [b] \<and> w = length (m_q q)" "src \<noteq> []"
  shows "packed (write_step r w src q1)"
proof -
  have m: "m_q (write_step r w src q1) = (m_q q1)[w := nb_filled src (m_q q1 ! w)]"
    by (simp add: write_step_def Let_def)
  have f: "0 < nb_written (nb_filled src (m_q q1 ! w))" using assms(3) by (simp add: nb_filled_def)
  from assms(2) show ?thesis
  proof (elim disjE conjE)
    assume "m_q q1 = m_q q"
    then show ?thesis
      using assms(1) f unfolding packed_def m by (auto dest!: set_update_subset_insert[THEN subsetD])
  next
    assume "m_q q1 = m_q q @ [b]" "w = length (m_q q)"
    then have "m_q (write_step r w src q1) = m_q q @ [nb_filled src (m_q q1 ! w)]" unfolding m by simp
    then show ?thesis
      using assms(1) f by (auto simp: packed_def)
  qed
qed

lemma nbq_write_loop_spec:
  assumes "nbq_inv q" "m_cur_write_offset q + length buf < 2 ^ 64"
  shows "\<exists>q'. nbq_write_loop buf n q = Some (int (n + length buf), q') \<and> write_post q buf q' \<and> (packed q \<longrightarrow> packed q')"
  using assms
proof (induction "length buf" arbitrary: buf n q rule: less_induct)
  case less
  show ?case
  proof (cases "buf = []")
    case True
    then show ?thesis
      using less.prems by (subst nbq_write_loop.simps) (simp add: write_post_def)
  next
    case False
    from write_room [OF less.prems(1)] obtain st q1 r w av where
      av: "b_write_avail q = Some av"
        "(if av \<le> 0 then b_write_add_avail q else Some (1, q)) = Some (st, q1)" "0 < st" and
      q1: "write_post q [] q1" and w: "wr_ok q1 r w" and
      room: "nb_written (m_q q1 ! w) < nb_len (m_q q1 ! w)" and
      blocks: "m_q q1 = m_q q \<or> m_q q1 = m_q q @ [nb_new (m_bsize q)] \<and> w = length (m_q q)" by blast
    have inv: "nbq_inv q1" using q1 by (simp add: write_post_def)
    let ?av = "nb_len (m_q q1 ! w) - nb_written (m_q q1 ! w)"
    define k where "k = (if length buf > ?av then ?av else length buf)"
    have k: "0 < k" "k \<le> length buf" "k \<le> ?av" using room False by (auto simp: k_def)
    have bnd: "m_cur_write_offset q1 + k < 2 ^ 64"
      using q1 less.prems(2) k(2) by (simp add: write_post_def)
    have len: "length (take k buf) = k" using k by simp
    let ?q2 = "write_step r w (take k buf) q1"
    have step: "do { q2 \<leftarrow> b_write_copy (take k buf) q1; b_write_incr k q2 } = Some ?q2"
      using b_write_step [OF inv w, of "take k buf"] k bnd False len by simp
    note I = write_step_inv [OF inv w, of "take k buf"]
    from step obtain q2 where q2: "b_write_copy (take k buf) q1 = Some q2" "b_write_incr k q2 = Some ?q2"
      by (auto simp: bind_eq_Some_conv)
    have loop: "nbq_write_loop buf n q = nbq_write_loop (drop k buf) (n + k) ?q2"
      using False av b_write_avail_wr [OF inv w] q2
      by (subst nbq_write_loop.simps) (simp add: k_def [symmetric])
    have "\<exists>q'. nbq_write_loop (drop k buf) (n + k) ?q2 = Some (int (n + k + length (drop k buf)), q') \<and>
        write_post ?q2 (drop k buf) q' \<and> (packed ?q2 \<longrightarrow> packed q')"
      using I k bnd len False less.prems(2) q1 by (intro less.hyps) (auto simp: write_post_def)
    moreover have "packed q \<Longrightarrow> packed ?q2"
      using blocks k(1) False by (intro packed_write_step) auto
    ultimately show ?thesis
      using loop I k bnd len False q1 by (auto simp: write_post_def)
  qed
qed

lemma nbq_write_spec:
  assumes "nbq_inv q" "m_cur_write_offset q + length buf < 2 ^ 64"
  shows "\<exists>q'. nbq_write (Some buf) q = Some (int (length buf), q') \<and> write_post q buf q'"
  using nbq_write_loop_spec [OF assms, of 0] assms by (auto simp: nbq_write_def write_post_def)

lemma nbq_write_packed:
  assumes "nbq_inv q" "m_cur_write_offset q + length buf < 2 ^ 64"
  shows "\<exists>q'. nbq_write (Some buf) q = Some (int (length buf), q') \<and> write_post q buf q' \<and> (packed q \<longrightarrow> packed q')"
  using nbq_write_loop_spec [OF assms, of 0] assms by (auto simp: nbq_write_def write_post_def)

end
