(* ===== verification/Nbq_Ops.thy ===== *)
theory Nbq_Ops
  imports Nbq
begin

text \<open>
  The laws of the remaining queue operations of \<^verbatim>\<open>nbq.cc\<close> (\<^verbatim>\<open>reset_read\<close>,
  \<^verbatim>\<open>read_from\<close>, \<^verbatim>\<open>reset_write\<close>, \<^verbatim>\<open>reset\<close>, \<^verbatim>\<open>shrink\<close>,
  \<^verbatim>\<open>join_ref\<close>, \<^verbatim>\<open>split\<close>), then the operations that move bytes between a queue and
  a descriptor or another queue (\<^verbatim>\<open>write_fd\<close>, \<^verbatim>\<open>write_q\<close>), \<^verbatim>\<open>copy_part\<close>, the
  character stream of \<^verbatim>\<open>nbq_stream.h\<close> and \<^verbatim>\<open>read_file_nbq\<close> of \<^verbatim>\<open>file_util.cc\<close>.
  The interface that the connection layer uses is the locale \<open>byte_queue\<close> at the end.
\<close>

section \<open>Rewinding\<close>

text \<open>What rewinding needs of the blocks: it does not use the read side of the invariant.\<close>

definition wf_blocks :: "nbq \<Rightarrow> bool" where
  "wf_blocks q \<longleftrightarrow>
     (\<forall>b \<in> set (m_q q). blk_ok b) \<and> sum_list (map nb_written (m_q q)) < 2 ^ 64 \<and>
     (case m_cur_write_block q of
        End \<Rightarrow> True
      | At w \<Rightarrow> (\<forall>b \<in> set (drop (Suc w) (m_q q)). nb_written b = 0))"

lemma nbq_inv_wf: "nbq_inv q \<Longrightarrow> wf_blocks q"
  by (simp add: nbq_inv_def wf_blocks_def rd_inv_def)

lemma wf_length: "wf_blocks q \<Longrightarrow> length (all_written q) < 2 ^ 64"
  by (simp add: wf_blocks_def all_written_def length_concat_blocks)

lemma rd_inv_wf: "rd_inv q \<Longrightarrow> length (all_written q) < 2 ^ 64 \<Longrightarrow> wf_blocks q"
  by (auto simp: rd_inv_def wf_blocks_def all_written_def length_concat_blocks)

lemma nb_read_reset_simps [simp]:
  "nb_read (nb_read_reset b) = 0" "nb_written (nb_read_reset b) = nb_written b"
  "nb_len (nb_read_reset b) = nb_len b" "nb_data (nb_read_reset b) = nb_data b"
  "avail (nb_read_reset b) = nb_written b" "written_bytes (nb_read_reset b) = written_bytes b"
  "avail_bytes (nb_read_reset b) = written_bytes b"
  "blk_ok b \<Longrightarrow> blk_ok (nb_read_reset b)"
  by (simp_all add: nb_read_reset_def avail_def written_bytes_def avail_bytes_def blk_ok_def)

text \<open>The running totals kept with wrap-around are the sums when these are in range.\<close>

lemma fold_u64_sum:
  assumes "\<forall>b \<in> set bs. f b = g b" "t + sum_list (map g bs) < 2 ^ 64"
  shows "fold (\<lambda>b t. u64 (t + f b)) bs t = t + sum_list (map g bs)"
  using assms
proof (induction bs arbitrary: t)
  case (Cons b bs)
  have "u64 (t + f b) = t + g b" using Cons.prems by (intro trans [OF u64_id]) auto
  with Cons show ?case by simp
qed simp

lemma reset_read_total:
  assumes "wf_blocks q"
  shows "m_total_read_avail (reset_read q) = sum_list (map nb_written (m_q q))"
proof -
  have "\<forall>b \<in> set (map nb_read_reset (m_q q)). nb_read_avail b = nb_written b"
    using assms by (auto simp: wf_blocks_def)
  moreover have "sum_list (map nb_written (map nb_read_reset (m_q q))) = sum_list (map nb_written (m_q q))"
    by (simp add: comp_def)
  ultimately show ?thesis
    using assms fold_u64_sum [of "map nb_read_reset (m_q q)" nb_read_avail nb_written 0]
    by (simp add: reset_read_def wf_blocks_def Let_def)
qed

lemma reset_read_spec:
  assumes "wf_blocks q"
  shows "rd_inv (reset_read q)" "unread (reset_read q) = all_written q"
    "all_written (reset_read q) = all_written q"
    "m_q (reset_read q) = map nb_read_reset (m_q q)"
    "m_cur_write_offset (reset_read q) = m_cur_write_offset q" "m_bsize (reset_read q) = m_bsize q"
    "m_cur_write_block (reset_read q) = m_cur_write_block q"
    "m_cur_read_block (reset_read q) = it_begin (m_q q)"
proof -
  show f: "m_q (reset_read q) = map nb_read_reset (m_q q)"
    "m_cur_write_offset (reset_read q) = m_cur_write_offset q" "m_bsize (reset_read q) = m_bsize q"
    "m_cur_write_block (reset_read q) = m_cur_write_block q"
    "m_cur_read_block (reset_read q) = it_begin (m_q q)"
    by (simp_all add: reset_read_def it_begin_def Let_def)
  show "rd_inv (reset_read q)"
    unfolding rd_inv_def f reset_read_total [OF assms]
    using assms by (auto simp: it_begin_def wf_blocks_def comp_def drop_map split: cursor.splits)
  show "unread (reset_read q) = all_written q" "all_written (reset_read q) = all_written q"
    by (simp_all add: unread_def all_written_def f comp_def)
qed

lemma reset_read_inv:
  assumes "nbq_inv q"
  shows "nbq_inv (reset_read q)"
proof -
  note R = reset_read_spec [OF nbq_inv_wf [OF assms]]
  have "\<exists>r w. wr_ok (reset_read q) r w" if ne: "m_q q \<noteq> []"
  proof -
    obtain r w where w: "wr_ok q r w" using assms ne by (elim nbq_inv_AtE) auto
    have cur: "m_cur_write_block q = At w" "w < length (m_q q)" using w by (simp_all add: wr_ok_def)
    have "avail (m_q (reset_read q) ! 0) \<noteq> 0" if t: "m_total_read_avail (reset_read q) \<noteq> 0"
    proof (cases "w = 0")
      case True
      then have "m_cur_write_block (reset_read q) = At 0" "m_cur_read_block (reset_read q) = At 0"
        using cur R(7,8) ne by (simp_all add: it_begin_def)
      from rd_inv_At(5) [OF R(1) this(2,1)] t show ?thesis by simp
    next
      case False
      then have "nb_written (m_q q ! 0) = nb_len (m_q q ! 0)" "0 < nb_len (m_q q ! 0)"
        using w ne by (simp_all add: wr_ok_def)
      then show ?thesis using ne by (simp add: R(4))
    qed
    then have "wr_ok (reset_read q) 0 w"
      using w ne cur by (simp add: wr_ok_def R it_begin_def)
    then show ?thesis by blast
  qed
  moreover have "m_q q = [] \<Longrightarrow> m_cur_write_block q = End" using assms by (auto simp: nbq_inv_def wr_ok_def)
  ultimately show ?thesis
    using assms R(1) by (auto simp: nbq_inv_def R(2-) it_begin_def comp_def)
qed

text \<open>Reading a slice by offset, whatever has been read before.\<close>

lemma read_from_spec:
  assumes "wf_blocks q"
  shows "\<exists>q'. read_from off len q =
      Some (min len (length (all_written q) - off), take len (drop off (all_written q)), q') \<and>
    rd_inv q' \<and> (nbq_inv q \<longrightarrow> nbq_inv q') \<and> all_written q' = all_written q \<and>
    unread q' = drop (off + len) (all_written q)"
proof -
  note R = reset_read_spec [OF assms]
  obtain q1 where q1: "nbq_read False off (reset_read q) = Some (min off (length (all_written q)), [], q1)"
    "read_post (reset_read q) (min off (length (all_written q))) q1"
    using nbq_read_spec [OF R(1), of False off] by (auto simp: R)
  then have u: "unread q1 = drop off (all_written q)" "rd_inv q1" "all_written q1 = all_written q"
    by (auto simp: read_post_def R min_def)
  obtain q2 where q2: "nbq_read True len q1 = Some (min len (length (unread q1)), take len (unread q1), q2)"
    "read_post q1 (min len (length (unread q1))) q2"
    using nbq_read_spec [OF u(2), of True len] by auto
  show ?thesis
    using q1 q2 u reset_read_inv [of q]
    by (auto simp: read_from_def read_seek_def read_post_def add.commute min_def)
qed

section \<open>Resetting\<close>

lemma reset_write_inv:
  assumes "nbq_inv q"
  shows "nbq_inv (reset_write q)" "unread (reset_write q) = []" "all_written (reset_write q) = []"
proof -
  let ?bs = "map nb_write_reset (filter (\<lambda>b. \<not> nb_ref b) (m_q q))"
  have z: "avail b = 0" "nb_written b = 0" "nb_read b = 0" "written_bytes b = []" "avail_bytes b = []"
    if "b \<in> set ?bs" for b
    using that by (auto simp: nb_write_reset_def avail_def written_bytes_def avail_bytes_def)
  have ok: "\<forall>b \<in> set ?bs. blk_ok b"
    using assms by (auto simp: nbq_inv_def rd_inv_def nb_write_reset_def blk_ok_def)
  have pos: "\<forall>b \<in> set ?bs. 0 < nb_len b"
    using assms by (auto simp: nbq_inv_def nb_write_reset_def wr_ok_def)
  have s: "sum_list (map avail ?bs) = 0" "sum_list (map nb_written ?bs) = 0"
    by (rule sum_list_map_zero; use z in blast)+
  have c: "concat (map avail_bytes ?bs) = []" "concat (map written_bytes ?bs) = []"
    by (rule concat_map_Nil; use z in blast)+
  have f: "m_q (reset_write q) = ?bs" "m_cur_write_block (reset_write q) = it_begin ?bs"
    "m_cur_read_block (reset_write q) = it_begin ?bs" "m_total_read_avail (reset_write q) = 0"
    "m_cur_write_offset (reset_write q) = 0" "m_bsize (reset_write q) = m_bsize q"
    by (simp_all add: reset_write_def Let_def)
  show "unread (reset_write q) = []" "all_written (reset_write q) = []"
    unfolding unread_def all_written_def f using c by simp_all
  have d: "b \<in> set ?bs" if "b \<in> set (drop n ?bs)" for b n using that by (rule in_set_dropD)
  have rd: "rd_inv (reset_write q)"
    unfolding rd_inv_def f s using ok z d by (auto simp: it_begin_def split: cursor.splits)
  have w0: "wr_ok (reset_write q) 0 0" if "?bs \<noteq> []"
  proof -
    have "?bs ! 0 \<in> set ?bs" using that by (intro nth_mem) simp
    then have n: "nb_written (?bs ! 0) = 0" "0 < nb_len (?bs ! 0)" using z(2) pos by blast+
    have "it_begin ?bs = At 0" using that unfolding it_begin_def by (simp only: if_False)
    then show ?thesis unfolding wr_ok_def f using that pos n by (metis (no_types, lifting)
      length_greater_0_conv less_irrefl_nat not_less_zero order_refl)
  qed
  then show "nbq_inv (reset_write q)"
    unfolding nbq_inv_def f s using rd assms by (cases "?bs = []") (auto simp: it_begin_def nbq_inv_def)
qed

lemma nbq_reset_inv:
  assumes "nbq_inv q"
  shows "nbq_inv (nbq_reset q)" "unread (nbq_reset q) = []" "all_written (nbq_reset q) = []"
  using assms by (simp_all add: nbq_reset_def nbq_inv_def rd_inv_def unread_def all_written_def)

section \<open>Shrinking frees only what has been read\<close>

definition pop_front :: "nbq \<Rightarrow> nbq" where
  "pop_front q = q\<lparr>m_q := tl (m_q q),
     m_cur_write_offset := sub64 (m_cur_write_offset q) (nb_len (hd (m_q q))),
     m_cur_write_block := it_popped (m_cur_write_block q),
     m_cur_read_block := it_popped (m_cur_read_block q)\<rparr>"

lemma shrink_loop_step:
  "shrink_loop q = (if it_begin (m_q q) \<noteq> m_cur_read_block q \<and> m_q q \<noteq> []
     then shrink_loop (pop_front q) else q)"
  by (subst shrink_loop.simps) (simp add: pop_front_def)

lemma pop_front_spec:
  assumes "nbq_inv q" "wr_ok q (Suc r) w"
  shows "nbq_inv (pop_front q)" "unread (pop_front q) = unread q"
    "m_q (pop_front q) = tl (m_q q)"
    "m_cur_read_block (pop_front q) = At r"
proof -
  obtain v where v: "w = Suc v" using assms(2) by (cases w) (auto simp: wr_ok_def)
  have cur: "m_cur_write_block q = At (Suc v)" "m_cur_read_block q = At (Suc r)" "r \<le> v"
    "Suc v < length (m_q q)"
    using assms(2) v by (simp_all add: wr_ok_def)
  then obtain b bs where bs: "m_q q = b # bs" by (cases "m_q q") auto
  have b0: "nb_written b = nb_len b" using assms(2) v bs by (auto simp: wr_ok_def)
  have ab: "avail b = 0" using assms(1) cur bs by (auto simp: nbq_inv_def rd_inv_def)
  have okb: "blk_ok b" using assms(1) bs by (simp add: nbq_inv_def rd_inv_def)
  have s: "sub64 (m_cur_write_offset q) (nb_len b) = sum_list (map nb_written bs)"
    using assms(1) b0 bs sub64_id [of "nb_len b" "m_cur_write_offset q"] by (simp add: nbq_inv_def)
  have f: "m_q (pop_front q) = bs" "m_cur_write_block (pop_front q) = At v"
    "m_cur_read_block (pop_front q) = At r" "m_bsize (pop_front q) = m_bsize q"
    "m_total_read_avail (pop_front q) = m_total_read_avail q"
    "m_cur_write_offset (pop_front q) = sum_list (map nb_written bs)"
    using cur s bs by (simp_all add: pop_front_def)
  show "m_q (pop_front q) = tl (m_q q)" "m_cur_read_block (pop_front q) = At r"
    using f bs by simp_all
  show "unread (pop_front q) = unread q" by (simp add: unread_def f bs ab okb)
  have rd: "rd_inv (pop_front q)"
    using assms(1) cur ab by (simp add: nbq_inv_def rd_inv_def f bs)
  have full: "\<forall>i < v. nb_written (bs ! i) = nb_len (bs ! i)"
    using assms(2) v bs by (force simp: wr_ok_def)
  have "wr_ok (pop_front q) r v"
    using assms(2) v cur full by (simp add: wr_ok_def f bs)
  then show "nbq_inv (pop_front q)"
    using rd assms(1) bs by (auto simp: nbq_inv_def f)
qed

lemma shrink_loop_spec:
  assumes "nbq_inv q"
  shows "nbq_inv (shrink_loop q) \<and> unread (shrink_loop q) = unread q \<and>
    (\<exists>k. m_q (shrink_loop q) = drop k (m_q q)) \<and>
    m_cur_read_block (shrink_loop q) = it_begin (m_q (shrink_loop q))"
  using assms
proof (induction "length (m_q q)" arbitrary: q rule: less_induct)
  case less
  show ?case
  proof (cases "it_begin (m_q q) \<noteq> m_cur_read_block q \<and> m_q q \<noteq> []")
    case False
    have "m_cur_read_block q = it_begin (m_q q)"
      using False less.prems by (auto simp: it_begin_def nbq_inv_def wr_ok_def)
    moreover have "\<exists>k. m_q q = drop k (m_q q)" by (rule exI [of _ 0]) simp
    ultimately show ?thesis using False less.prems by (subst (1 2 3 4 5) shrink_loop_step) auto
  next
    case True
    then obtain r w where w: "wr_ok q r w" using less.prems by (elim nbq_inv_AtE) auto
    moreover have "r \<noteq> 0" using True w by (auto simp: it_begin_def wr_ok_def)
    ultimately obtain r' where w': "wr_ok q (Suc r') w" by (cases r) auto
    note P = pop_front_spec [OF less.prems w']
    have "length (m_q (pop_front q)) < length (m_q q)" using True P(3) by simp
    from less.hyps [OF this P(1)] obtain k where
      "nbq_inv (shrink_loop (pop_front q))" "unread (shrink_loop (pop_front q)) = unread q"
      "m_q (shrink_loop (pop_front q)) = drop (Suc k) (m_q q)"
      "m_cur_read_block (shrink_loop (pop_front q)) = it_begin (m_q (shrink_loop (pop_front q)))"
      using P by (auto simp: drop_Suc)
    moreover have "shrink_loop q = shrink_loop (pop_front q)"
      using True by (subst shrink_loop_step) simp
    ultimately show ?thesis by auto
  qed
qed

lemma shrink_spec:
  assumes "nbq_inv q"
  shows "nbq_inv (shrink q)" "unread (shrink q) = unread q"
    "\<exists>k. m_q (shrink q) = drop k (m_q q)"
    "m_cur_read_block (shrink q) = it_begin (m_q (shrink q))"
proof -
  let ?q = "shrink_loop q"
  note S = shrink_loop_spec [OF assms]
  have "nbq_inv (shrink q) \<and> unread (shrink q) = unread q \<and> (\<exists>k. m_q (shrink q) = drop k (m_q q)) \<and>
    m_cur_read_block (shrink q) = it_begin (m_q (shrink q))"
  proof (cases "shrink q = ?q")
    case True
    then show ?thesis using S by simp
  next
    case False
    then obtain b where b: "it_deref (m_q ?q) (m_cur_read_block ?q) = Some b"
      "nb_read_avail b = 0" and
      e: "shrink q = ?q\<lparr>m_q := [], m_cur_write_block := End, m_cur_read_block := End,
        m_cur_write_offset := 0, m_total_read_avail := 0\<rparr>"
      by (auto simp: shrink_def Let_def split: option.splits if_splits)
    have ne: "m_q ?q \<noteq> []" using b(1) by (cases "m_cur_read_block ?q") (auto split: if_splits)
    obtain r w where w: "wr_ok ?q r w" using S ne by (elim conjE nbq_inv_AtE) auto
    have r: "m_cur_read_block ?q = At r" "b = m_q ?q ! r" "r < length (m_q ?q)"
      using w b(1) by (auto simp: wr_ok_def split: if_splits)
    then have "blk_ok b" using S by (simp add: nbq_inv_def rd_inv_def)
    then have "avail (m_q ?q ! r) = 0" using b r by simp
    then have "m_total_read_avail ?q = 0" using w by (auto simp: wr_ok_def)
    then have "unread ?q = []" using S rd_inv_length nbq_inv_rd by fastforce
    then have "unread q = []" using S by simp
    moreover have "\<exists>k. [] = drop k (m_q q)" by (rule exI [of _ "length (m_q q)"]) simp
    ultimately show ?thesis
      using S e by (simp add: nbq_inv_def rd_inv_def unread_def it_begin_def)
  qed
  then show "nbq_inv (shrink q)" "unread (shrink q) = unread q"
    "\<exists>k. m_q (shrink q) = drop k (m_q q)"
    "m_cur_read_block (shrink q) = it_begin (m_q (shrink q))" by auto
qed

section \<open>Joining by reference\<close>

lemma nb_new_ref_simps [simp]:
  "nb_read (nb_new_ref xs n) = 0" "nb_written (nb_new_ref xs n) = n" "nb_len (nb_new_ref xs n) = n"
  "avail (nb_new_ref xs n) = n" "nb_ref (nb_new_ref xs n)"
  "n = length xs \<Longrightarrow> written_bytes (nb_new_ref xs n) = xs"
  "n = length xs \<Longrightarrow> avail_bytes (nb_new_ref xs n) = xs"
  by (simp_all add: nb_new_ref_def avail_def written_bytes_def avail_bytes_def)

definition ref_of :: "nb \<Rightarrow> nb" where
  "ref_of b = nb_new_ref (take (nb_written b) (nb_data b)) (nb_written b)"

lemma ref_of_simps [simp]:
  assumes "blk_ok b"
  shows "blk_ok (ref_of b)" "avail (ref_of b) = nb_written b"
    "nb_written (ref_of b) = nb_written b"
    "written_bytes (ref_of b) = written_bytes b" "avail_bytes (ref_of b) = written_bytes b"
proof -
  have "nb_written b = length (take (nb_written b) (nb_data b))" using assms by (simp add: blk_ok_def)
  then show "written_bytes (ref_of b) = written_bytes b" "avail_bytes (ref_of b) = written_bytes b"
    by (simp_all add: ref_of_def written_bytes_def [of b])
  show "blk_ok (ref_of b)" "avail (ref_of b) = nb_written b"
    "nb_written (ref_of b) = nb_written b"
    using assms by (auto simp: ref_of_def blk_ok_def nb_new_ref_def avail_def)
qed

lemma ref_of_read [simp]: "nb_read (ref_of b) = 0"
  by (simp add: ref_of_def)

lemma sum_list_ref:
  assumes "\<forall>b \<in> set bs. blk_ok b"
  shows "sum_list (map avail (map ref_of bs)) = sum_list (map nb_written bs)"
    "sum_list (map nb_written (map ref_of bs)) = sum_list (map nb_written bs)"
    "concat (map avail_bytes (map ref_of bs)) = concat (map written_bytes bs)"
    "concat (map written_bytes (map ref_of bs)) = concat (map written_bytes bs)"
  using assms by (induction bs) auto

text \<open>
  The joined queue reads on into everything the tail holds, read or unread there; the
  write cursor is past the end.
\<close>

lemma join_ref_spec:
  assumes "rd_inv q" "\<forall>b \<in> set (m_q t). blk_ok b"
    "m_cur_write_offset q = sum_list (map nb_written (m_q q))"
    "m_cur_write_offset q + length (all_written t) < 2 ^ 64" "m_q q \<noteq> [] \<Longrightarrow> m_cur_read_block q \<noteq> End"
  shows "\<exists>q'. join_ref t q = (STATUS_OK, q') \<and> rd_inv q' \<and> unread q' = unread q @ all_written t \<and>
    all_written q' = all_written q @ all_written t \<and> m_cur_write_block q' = End \<and> wf_blocks q' \<and>
    m_cur_write_offset q' = m_cur_write_offset q + length (all_written t)"
proof -
  let ?refs = "map ref_of (m_q t)"
  note S = sum_list_ref [OF assms(2)]
  have len: "length (all_written t) = sum_list (map nb_written (m_q t))"
    using assms(2) by (simp add: all_written_def length_concat_blocks)
  have tle: "m_total_read_avail q \<le> m_cur_write_offset q"
    using assms(1,3) avail_le_written by (simp add: rd_inv_def)
  have fw: "fold (\<lambda>b n. u64 (n + nb_written b)) ?refs (m_cur_write_offset q) =
      m_cur_write_offset q + length (all_written t)"
    using fold_u64_sum [of ?refs nb_written nb_written "m_cur_write_offset q"] assms(4) S(2) len by simp
  have fr: "fold (\<lambda>b n. u64 (n + nb_written b)) ?refs (m_total_read_avail q) =
      m_total_read_avail q + length (all_written t)"
    using fold_u64_sum [of ?refs nb_written nb_written "m_total_read_avail q"] assms(4) S(2) len tle by simp
  have ro: "(\<lambda>b. nb_new_ref (take (nb_written b) (nb_data b)) (nb_written b)) = ref_of"
    by (rule ext) (simp add: ref_of_def)
  define q' where "q' = snd (join_ref t q)"
  have f: "m_q q' = m_q q @ ?refs" "m_cur_write_block q' = End"
    "m_cur_write_offset q' = m_cur_write_offset q + length (all_written t)"
    "m_total_read_avail q' = m_total_read_avail q + length (all_written t)"
    "m_cur_read_block q' = (if m_q q = [] then it_begin ?refs else m_cur_read_block q)"
    using fw fr by (simp_all add: q'_def join_ref_def Let_def ro)
  have j: "join_ref t q = (STATUS_OK, q')" by (simp add: q'_def join_ref_def Let_def)
  have blk: "\<forall>b \<in> set (m_q q'). blk_ok b" using assms(1,2) by (auto simp: f rd_inv_def)
  have z: "nb_read b = 0" if "b \<in> set (drop n ?refs)" for b n
    using that by (auto dest!: in_set_dropD)
  have "case m_cur_read_block q' of End \<Rightarrow> m_total_read_avail q' = 0
      | At r \<Rightarrow> r < length (m_q q') \<and> (\<forall>b \<in> set (take r (m_q q')). avail b = 0) \<and>
        (\<forall>b \<in> set (drop (Suc r) (m_q q')). nb_read b = 0)"
  proof (cases "m_q q = []")
    case True
    then show ?thesis
      using z assms(1) len S unfolding f by (cases "m_q t") (auto simp: it_begin_def rd_inv_def)
  next
    case False
    then obtain r where "m_cur_read_block q = At r" using assms(5) by (cases "m_cur_read_block q") auto
    then show ?thesis using False z assms(1) unfolding f by (auto simp: rd_inv_def)
  qed
  moreover have "m_total_read_avail q' = sum_list (map avail (m_q q'))"
    using assms(1) S(1) len by (simp add: f rd_inv_def)
  ultimately have "rd_inv q'"
    unfolding rd_inv_def using blk tle assms(4) by (simp add: f)
  moreover have "wf_blocks q'"
    unfolding wf_blocks_def using blk assms(3,4) S(2) len by (simp add: f)
  ultimately show ?thesis
    using j S by (simp add: f unread_def all_written_def)
qed

section \<open>Splitting\<close>

lemma split_find_spec:
  assumes "split_find bs off = (k, o')" "off < sum_list (map nb_written bs)"
  shows "k < length bs \<and> off = sum_list (map nb_written (take k bs)) + o' \<and> o' < nb_written (bs ! k)"
  using assms
proof (induction bs off arbitrary: k o' rule: split_find.induct)
  case (2 b bs off)
  show ?case
  proof (cases "nb_written b > off")
    case False
    obtain j p where jp: "split_find bs (off - nb_written b) = (j, p)" by fastforce
    have "off - nb_written b < sum_list (map nb_written bs)" using "2.prems"(2) False by auto
    from "2.IH" [OF False jp this] "2.prems" False jp show ?thesis by auto
  qed (use "2.prems" in auto)
qed simp

lemma take_drop_blocks:
  assumes "\<forall>b \<in> set bs. blk_ok b" "k < length bs" "o' \<le> nb_written (bs ! k)"
  shows "take (sum_list (map nb_written (take k bs)) + o') (concat (map written_bytes bs)) =
      concat (map written_bytes (take k bs)) @ take o' (written_bytes (bs ! k))"
    and "drop (sum_list (map nb_written (take k bs)) + o') (concat (map written_bytes bs)) =
      drop o' (written_bytes (bs ! k)) @ concat (map written_bytes (drop (Suc k) bs))"
proof -
  have l: "length (concat (map written_bytes (take k bs))) = sum_list (map nb_written (take k bs))"
    by (rule length_concat_blocks) (use assms(1) in \<open>auto dest: in_set_takeD\<close>)
  have "blk_ok (bs ! k)" using assms by simp
  then have "length (written_bytes (bs ! k)) = nb_written (bs ! k)" by simp
  then show "take (sum_list (map nb_written (take k bs)) + o') (concat (map written_bytes bs)) =
      concat (map written_bytes (take k bs)) @ take o' (written_bytes (bs ! k))"
    and "drop (sum_list (map nb_written (take k bs)) + o') (concat (map written_bytes bs)) =
      drop o' (written_bytes (bs ! k)) @ concat (map written_bytes (drop (Suc k) bs))"
    unfolding concat_map_split [OF assms(2), of written_bytes] using assms(3) l by simp_all
qed

text \<open>The block cut at \<open>n\<close>, as it stays in the head.\<close>

lemma nb_cut_ok:
  assumes "blk_ok b" "n \<le> nb_written b"
  shows "blk_ok (nb_write_inc n (nb_write_reset b))"
    "written_bytes (nb_write_inc n (nb_write_reset b)) = take n (written_bytes b)"
    "nb_written (nb_write_inc n (nb_write_reset b)) = n"
proof -
  have "u32 n = n" using assms by (intro u32_id) (auto simp: blk_ok_def)
  then show "blk_ok (nb_write_inc n (nb_write_reset b))"
    "written_bytes (nb_write_inc n (nb_write_reset b)) = take n (written_bytes b)"
    "nb_written (nb_write_inc n (nb_write_reset b)) = n"
    using assms by (auto simp: nb_write_inc_def nb_write_reset_def blk_ok_def written_bytes_def)
qed

text \<open>
  Where the cut falls: at the offset when it is inside a block; at a block boundary the
  iterator is moved past the block, which therefore stays in the head.
\<close>

definition split_point :: "nat \<Rightarrow> nbq \<Rightarrow> nat" where
  "split_point off q = (case split_find (m_q q) off of (k, o') \<Rightarrow>
     if o' > 0 then off else off + nb_written (m_q q ! k))"

text \<open>The queue made for the tail, holding the second half of the cut block.\<close>

lemma split_tail:
  assumes "0 < n" "n < 2 ^ 31" "length xs < 2 ^ 64"
  shows "\<exists>s t1 t2. b_write_add_avail (nbq_new n) = Some (s, t1) \<and>
    nbq_write (Some xs) t1 = Some (int (length xs), t2) \<and> nbq_inv t2 \<and> all_written t2 = xs \<and> m_bsize t2 = n"
proof -
  have i: "nbq_inv (nbq_new n)" using assms by simp
  moreover have "b_write_avail (nbq_new n) = Some 0" by (simp add: b_write_avail_def nbq_new_def)
  ultimately obtain t1 where t1: "b_write_add_avail (nbq_new n) = Some (int n, t1)" "nbq_inv t1"
    "all_written t1 = []" "m_cur_write_offset t1 = 0" "m_bsize t1 = n"
    using b_write_add_avail_spec by (fastforce simp: nbq_new_def all_written_def)
  with nbq_write_spec [OF t1(2), of xs] assms(3) show ?thesis by (auto simp: write_post_def)
qed

lemma it_last_drop: "bs \<noteq> [] \<Longrightarrow> it_last bs = At w \<Longrightarrow> drop (Suc w) bs = []"
  by (auto simp: it_last_def)

text \<open>A queue whose write cursor is at its last block, or past the end.\<close>

lemma wf_blocks_last:
  assumes "\<forall>b \<in> set (m_q q). blk_ok b" "sum_list (map nb_written (m_q q)) < 2 ^ 64"
    "m_cur_write_block q = it_last (m_q q)"
  shows "wf_blocks q"
  using assms by (auto simp: wf_blocks_def it_last_def)

lemma nbq_split_spec:
  assumes "wf_blocks q" "m_cur_write_offset q = sum_list (map nb_written (m_q q))"
    "0 < m_bsize q" "m_bsize q < 2 ^ 31" "0 < off" "off < m_cur_write_offset q"
  shows "\<exists>t h. nbq_split off q = Some (STATUS_OK, Some t, h) \<and> rd_inv t \<and> rd_inv h \<and>
    all_written h = take (split_point off q) (all_written q) \<and> unread h = all_written h \<and>
    all_written t = drop (split_point off q) (all_written q) \<and> unread t = all_written t"
proof -
  obtain k o' where ko: "split_find (m_q q) off = (k, o')" by fastforce
  have s: "k < length (m_q q)" "off = sum_list (map nb_written (take k (m_q q))) + o'"
    "o' < nb_written (m_q q ! k)"
    using split_find_spec [OF ko] assms(2,6) by auto
  let ?b = "m_q q ! k"
  have blk: "\<forall>b \<in> set (m_q q). blk_ok b" using assms(1) by (simp add: wf_blocks_def)
  then have okb: "blk_ok ?b" using s by simp
  define bs1 where "bs1 = (if o' > 0 then (m_q q)[k := nb_write_inc o' (nb_write_reset ?b)] else m_q q)"
  have seg: "take (nb_written ?b - o') (drop o' (nb_data ?b)) = drop o' (written_bytes ?b)"
    by (simp add: written_bytes_def drop_take)
  have lseg: "length (drop o' (written_bytes ?b)) < 2 ^ 64"
    using okb by (auto simp: blk_ok_def)
  obtain tl1 where tl1: "(if o' > 0
       then do {
         b \<leftarrow> it_deref (m_q q) (At k);
         (_, t1) \<leftarrow> b_write_add_avail (nbq_new (m_bsize q));
         (_, t2) \<leftarrow> nbq_write (Some (take (nb_written b - o') (drop o' (nb_data b)))) t1;
         Some ((m_q q)[k := nb_write_inc o' (nb_write_reset b)], t2) }
       else Some (m_q q, nbq_new (m_bsize q))) = Some (bs1, tl1)"
    "\<forall>b \<in> set (m_q tl1). blk_ok b" "all_written tl1 = (if o' > 0 then drop o' (written_bytes ?b) else [])"
    "m_bsize tl1 = m_bsize q"
  proof (cases "o' > 0")
    case True
    from split_tail [OF assms(3,4) lseg] obtain s1 t1 t2 where
      "b_write_add_avail (nbq_new (m_bsize q)) = Some (s1, t1)"
      "nbq_write (Some (drop o' (written_bytes ?b))) t1 = Some (int (length (drop o' (written_bytes ?b))), t2)"
      "nbq_inv t2" "all_written t2 = drop o' (written_bytes ?b)" "m_bsize t2 = m_bsize q" by blast
    then show ?thesis using True s seg by (intro that [of t2]) (auto simp: bs1_def nbq_inv_def rd_inv_def)
  next
    case False
    then show ?thesis by (intro that [of "nbq_new (m_bsize q)"])
      (auto simp: bs1_def nbq_new_def all_written_def)
  qed
  let ?moved = "map nb_read_reset (drop (Suc k) bs1)"
  have dr: "drop (Suc k) bs1 = drop (Suc k) (m_q q)" by (simp add: bs1_def)
  have okd: "\<forall>b \<in> set (drop (Suc k) (m_q q)). blk_ok b" using blk by (auto dest: in_set_dropD)
  define t0 where "t0 = tl1\<lparr>m_q := m_q tl1 @ ?moved,
      m_cur_write_offset := fold (\<lambda>b t. u64 (t + nb_written b)) ?moved (m_cur_write_offset tl1),
      m_cur_write_block := it_last (m_q tl1 @ ?moved), m_cur_read_block := it_begin (m_q tl1 @ ?moved)\<rparr>"
  define h0 where "h0 = q\<lparr>m_q := take (Suc k) bs1,
      m_cur_write_offset := fold (\<lambda>b t. sub64 t (nb_written b)) ?moved (m_cur_write_offset q),
      m_cur_write_block := it_last (take (Suc k) bs1)\<rparr>"
  have nx: "\<exists>c. it_next bs1 (At k) = Some c" using s by (auto simp: bs1_def)
  have split: "nbq_split off q = Some (STATUS_OK, Some (reset_read t0), reset_read h0)"
    using nx assms(5,6) by (auto simp: nbq_split_def ko tl1(1) Let_def t0_def h0_def simp del: it_next.simps)
  have len: "length (all_written q) < 2 ^ 64"
    using blk assms(1) by (simp add: all_written_def length_concat_blocks wf_blocks_def)
  note T = take_drop_blocks [OF blk s(1), of o']
  note T' = take_drop_blocks [OF blk s(1), of "nb_written ?b"]
  have sp: "split_point off q = sum_list (map nb_written (take k (m_q q))) + (if 0 < o' then o' else nb_written ?b)"
    unfolding split_point_def ko using s(2) by simp
  have aw: "all_written q = concat (map written_bytes (m_q q))" by (simp add: all_written_def)
  have "all_written t0 = all_written tl1 @ concat (map written_bytes (drop (Suc k) (m_q q)))"
    by (simp add: t0_def all_written_def dr comp_def)
  then have wt: "all_written t0 = drop (split_point off q) (all_written q)"
    unfolding sp aw using T(2) T'(2) s(3) tl1(3) okb by simp
  have "all_written h0 = concat (map written_bytes (take k (m_q q))) @
      (if 0 < o' then take o' (written_bytes ?b) else written_bytes ?b)"
    using s nb_cut_ok [OF okb, of o'] by (simp add: h0_def bs1_def all_written_def take_Suc_conv_app_nth)
  then have wh: "all_written h0 = take (split_point off q) (all_written q)"
    unfolding sp aw using T(1) T'(1) s(3) okb by simp
  have bt: "\<forall>b \<in> set (m_q t0). blk_ok b" using tl1(2) okd by (auto simp: t0_def dr)
  have b1: "\<forall>b \<in> set bs1. blk_ok b"
    unfolding bs1_def using blk okb s nb_cut_ok(1) [OF okb, of o']
    by (auto dest!: set_update_subset_insert [THEN subsetD])
  then have bh: "\<forall>b \<in> set (m_q h0). blk_ok b" by (auto simp: h0_def dest: in_set_takeD)
  have "length (all_written t0) < 2 ^ 64" "length (all_written h0) < 2 ^ 64"
    unfolding wt wh using len by simp_all
  then have "sum_list (map nb_written (m_q t0)) < 2 ^ 64" "sum_list (map nb_written (m_q h0)) < 2 ^ 64"
    using bt bh by (simp_all add: all_written_def length_concat_blocks)
  then have "wf_blocks t0" "wf_blocks h0"
    using bt bh by (auto intro!: wf_blocks_last simp: t0_def h0_def)
  then show ?thesis
    using split wt wh reset_read_spec by metis
qed

text \<open>A queue of two blocks that the examples use.\<close>

definition demo_q :: nbq where
  "demo_q = \<lparr>m_q = [\<lparr>nb_data = ''abcd'', nb_len = 4, nb_written = 4, nb_read = 0, nb_ref = False\<rparr>,
                    \<lparr>nb_data = ''efgh'', nb_len = 4, nb_written = 2, nb_read = 0, nb_ref = False\<rparr>],
     m_bsize = 4, m_cur_write_block = At 1, m_cur_read_block = At 0, m_idx = 0,
     m_cur_write_offset = 6, m_total_read_avail = 6, m_max_read_queue = -1\<rparr>"

lemma demo_q_inv: "nbq_inv demo_q"
  by (auto simp: nbq_inv_def rd_inv_def wr_ok_def demo_q_def blk_ok_def avail_def)

section \<open>Filling a queue from a descriptor or from another queue\<close>

text \<open>
  \<^verbatim>\<open>read(2)\<close> is the parameter \<open>rd\<close>: from the state of the descriptor and the size of
  the buffer it gives the status, whether \<^verbatim>\<open>errno\<close> is \<^verbatim>\<open>EAGAIN\<close>, the bytes
  stored and the next state.
\<close>

type_synonym 's reader = "'s \<Rightarrow> nat \<Rightarrow> int \<times> bool \<times> byte list \<times> 's"

partial_function (option) write_fd_loop ::
  "'s reader \<Rightarrow> nat \<Rightarrow> nat \<Rightarrow> int \<Rightarrow> nbq \<Rightarrow> 's \<Rightarrow> (int \<times> int \<times> nbq \<times> 's) option" where
  "write_fd_loop rd left written status q s =
     (if left = 0 then Some (int written, status, q, s)
      else do {
        av \<leftarrow> b_write_avail q;
        (st, q1) \<leftarrow> (if av \<le> 0 then b_write_add_avail q else Some (1, q));
        if st \<le> 0 then Some (-1, status, q1, s)
        else do {
          av1 \<leftarrow> b_write_avail q1;
          (a_status, again, bytes, s1) \<leftarrow> Some (rd s (if left > av1 then av1 else left));
          if a_status > 0
          then do {
            q2 \<leftarrow> b_write_copy bytes q1;
            q3 \<leftarrow> b_write_incr (nat a_status) q2;
            q4 \<leftarrow> b_read_incr 0 q3;
            write_fd_loop rd (left - nat a_status) (written + nat a_status) a_status q4 s1 }
          else if a_status = 0 \<or> again then Some (int written, a_status, q1, s1)
          else Some (STATUS_ERROR, a_status, q1, s1) } })"

definition write_fd :: "'s reader \<Rightarrow> nat \<Rightarrow> int \<Rightarrow> nbq \<Rightarrow> 's \<Rightarrow> (int \<times> int \<times> nbq \<times> 's) option" where
  "write_fd rd len status q s =
     (if len = 0 then Some (0, status, q, s) else write_fd_loop rd len 0 status q s)"

partial_function (option) write_q_loop :: "nat \<Rightarrow> nat \<Rightarrow> nbq \<Rightarrow> nbq \<Rightarrow> (int \<times> nbq \<times> nbq) option" where
  "write_q_loop left written a q =
     (if left = 0 then Some (int written, a, q)
      else do {
        av \<leftarrow> b_write_avail q;
        (st, q1) \<leftarrow> (if av \<le> 0 then b_write_add_avail q else Some (1, q));
        if st \<le> 0 then Some (STATUS_ERROR, a, q1)
        else do {
          av1 \<leftarrow> b_write_avail q1;
          (n, bytes, a1) \<leftarrow> nbq_read True (if left > av1 then av1 else left) a;
          if n = 0 then Some (int written, a1, q1)
          else do {
            q2 \<leftarrow> b_write_copy bytes q1;
            q3 \<leftarrow> b_write_incr n q2;
            write_q_loop (left - n) (written + n) a1 q3 } } })"

definition write_q :: "nbq \<Rightarrow> nbq \<Rightarrow> (int \<times> nbq \<times> nbq) option" where
  "write_q a q = write_q_loop (read_avail a) 0 a q"

text \<open>
  What \<^verbatim>\<open>read(2)\<close> promises: it stores a prefix of what is left in the descriptor, of
  the length it returns, and never more than was asked for.  A blocking descriptor
  makes progress until its end.
\<close>

definition fd_ok :: "'s reader \<Rightarrow> ('s \<Rightarrow> byte list) \<Rightarrow> bool" where
  "fd_ok rd rem \<longleftrightarrow> (\<forall>s n. case rd s n of (st, again, bs, s') \<Rightarrow>
     st \<le> int n \<and>
     (if 0 < st then nat st \<le> length (rem s) \<and> bs = take (nat st) (rem s) \<and> rem s' = drop (nat st) (rem s)
      else rem s' = rem s))"

definition fd_blocking :: "'s reader \<Rightarrow> ('s \<Rightarrow> byte list) \<Rightarrow> bool" where
  "fd_blocking rd rem \<longleftrightarrow> (\<forall>s n. 0 < n \<longrightarrow>
     (if rem s = [] then fst (rd s n) = 0 else 0 < fst (rd s n)))"

text \<open>One round of a write loop, up to the copy: the write block and its room.\<close>

lemma write_round:
  assumes "nbq_inv q" "0 < left" "m_cur_write_offset q + left < 2 ^ 64"
  obtains st q1 r w k where
    "do { av \<leftarrow> b_write_avail q; (if av \<le> 0 then b_write_add_avail q else Some (1, q)) } = Some (st, q1)"
    "0 < st" "write_post q [] q1" "wr_ok q1 r w"
    "b_write_avail q1 = Some k" "k = nb_len (m_q q1 ! w) - nb_written (m_q q1 ! w)" "0 < k"
proof -
  from write_room [OF assms(1)] obtain st q1 r w av where
    *: "b_write_avail q = Some av" "(if av \<le> 0 then b_write_add_avail q else Some (1, q)) = Some (st, q1)"
    "0 < st" "write_post q [] q1" "wr_ok q1 r w" "nb_written (m_q q1 ! w) < nb_len (m_q q1 ! w)"
    by blast
  then have "b_write_avail q1 = Some (nb_len (m_q q1 ! w) - nb_written (m_q q1 ! w))"
    by (intro b_write_avail_wr) (simp_all add: write_post_def)
  with * show ?thesis by (intro that [of st q1 r w]) auto
qed

lemma read_incr_0:
  assumes "nbq_inv q" "unread q \<noteq> []"
  shows "\<exists>q'. b_read_incr 0 q = Some q' \<and> write_post q [] q'"
proof -
  have rd: "rd_inv q" by (rule nbq_inv_rd [OF assms(1)])
  have "m_total_read_avail q \<noteq> 0" using assms(2) rd_inv_length [OF rd] by (metis length_0_conv)
  then obtain r where r: "m_cur_read_block q = At r"
    using rd by (cases "m_cur_read_block q") (auto simp: rd_inv_def)
  have "b_read_incr 0 q = Some (read_step r 0 q)" by (rule b_read_incr_step [OF rd r]) simp
  then show ?thesis
    using read_step_inv [OF rd r, of 0] read_step_wr [OF assms(1) r, of 0]
    by (simp add: write_post_def read_step_frame)
qed

lemma write_post_trans:
  "write_post q xs q1 \<Longrightarrow> write_post q1 ys q2 \<Longrightarrow> write_post q (xs @ ys) q2"
  by (simp add: write_post_def)

lemma write_step_post:
  assumes "nbq_inv q" "wr_ok q r w" "length src \<le> nb_len (m_q q ! w) - nb_written (m_q q ! w)"
    "src \<noteq> []" "m_cur_write_offset q + length src < 2 ^ 64"
  shows "\<exists>q2 q3. b_write_copy src q = Some q2 \<and> b_write_incr (length src) q2 = Some q3 \<and> write_post q src q3"
  using b_write_step [OF assms] write_step_inv [OF assms]
  by (auto simp: bind_eq_Some_conv write_post_def)

lemma write_fd_loop_spec:
  assumes "fd_ok rd rem" "nbq_inv q" "m_cur_write_offset q + left < 2 ^ 64"
  shows "\<exists>res st q' s' n. write_fd_loop rd left written status q s = Some (res, st, q', s') \<and>
    n \<le> left \<and> n \<le> length (rem s) \<and> write_post q (take n (rem s)) q' \<and> rem s' = drop n (rem s) \<and>
    (res = int (written + n) \<or> res = STATUS_ERROR) \<and>
    (fd_blocking rd rem \<longrightarrow> n = min left (length (rem s)) \<and> res = int (written + n))"
  using assms(2,3)
proof (induction left arbitrary: written status q s rule: less_induct)
  case (less left)
  show ?case
  proof (cases "left = 0")
    case True
    then show ?thesis
      using less.prems by (subst write_fd_loop.simps) (auto simp: write_post_def)
  next
    case False
    then obtain st q1 r w k where
      st: "do { av \<leftarrow> b_write_avail q; (if av \<le> 0 then b_write_add_avail q else Some (1, q)) } = Some (st, q1)"
      "0 < st" and q1: "write_post q [] q1" and w: "wr_ok q1 r w" and
      k: "b_write_avail q1 = Some k" "k = nb_len (m_q q1 ! w) - nb_written (m_q q1 ! w)" "0 < k"
      using write_round [OF less.prems(1) _ less.prems(2)] by blast
    define m where "m = (if left > k then k else left)"
    have m: "0 < m" "m \<le> k" "m \<le> left" using False k(3) by (auto simp: m_def)
    obtain a ag bs s1 where rd: "rd s m = (a, ag, bs, s1)" by (metis prod_cases4)
    have F: "a \<le> int m" "0 < a \<Longrightarrow> nat a \<le> length (rem s)" "0 < a \<Longrightarrow> bs = take (nat a) (rem s)"
      "0 < a \<Longrightarrow> rem s1 = drop (nat a) (rem s)" "a \<le> 0 \<Longrightarrow> rem s1 = rem s"
      using assms(1) rd unfolding fd_ok_def by (force split: prod.splits if_splits)+
    from st(1) obtain av where av: "b_write_avail q = Some av"
      "(if av \<le> 0 then b_write_add_avail q else Some (1, q)) = Some (st, q1)"
      by (auto simp: bind_eq_Some_conv)
    show ?thesis
    proof (cases "0 < a")
      case False
      have blk: "rem s = [] \<and> a = 0" if "fd_blocking rd rem"
        using that m(1) rd False unfolding fd_blocking_def by (metis fst_conv)
      have "write_fd_loop rd left written status q s =
          Some (if a = 0 \<or> ag then int written else STATUS_ERROR, a, q1, s1)"
        using \<open>left \<noteq> 0\<close> av st(2) k(1) rd False
        by (subst write_fd_loop.simps) (simp add: m_def [symmetric])
      then show ?thesis
        using q1 F(5) False blk by (intro exI [of _ 0] exI conjI) auto
    next
      case True
      let ?n = "nat a"
      have n: "0 < ?n" "?n \<le> m" "length bs = ?n" "bs \<noteq> []" using True F by auto
      have inv1: "nbq_inv q1" using q1 by (simp add: write_post_def)
      have bnd: "m_cur_write_offset q1 + ?n < 2 ^ 64"
        using q1 less.prems(2) n(2) m(3) by (simp add: write_post_def)
      obtain q2 q3 where q3: "b_write_copy bs q1 = Some q2" "b_write_incr ?n q2 = Some q3" "write_post q1 bs q3"
        using write_step_post [OF inv1 w, of bs] n m(2) k(2) bnd by auto
      have "unread q3 \<noteq> []" "nbq_inv q3" using q3(3) n(4) by (simp_all add: write_post_def)
      then obtain q4 where q4: "b_read_incr 0 q3 = Some q4" "write_post q3 [] q4"
        using read_incr_0 by blast
      have p: "write_post q bs q4"
        using write_post_trans [OF write_post_trans [OF q1 q3(3)] q4(2)] by simp
      have loop: "write_fd_loop rd left written status q s =
          write_fd_loop rd (left - ?n) (written + ?n) a q4 s1"
        using \<open>left \<noteq> 0\<close> av st(2) k(1) rd True q3 q4
        by (subst write_fd_loop.simps) (simp add: m_def [symmetric])
      have "nbq_inv q4" "m_cur_write_offset q4 + (left - ?n) < 2 ^ 64" "left - ?n < left"
        using p less.prems(2) n m by (simp_all add: write_post_def)
      from less.IH [OF this(3,1,2), of "written + ?n" a s1] obtain res st' q' s' j where
        j: "write_fd_loop rd (left - ?n) (written + ?n) a q4 s1 = Some (res, st', q', s')"
        "j \<le> left - ?n" "j \<le> length (rem s1)" "write_post q4 (take j (rem s1)) q'"
        "rem s' = drop j (rem s1)" "res = int (written + ?n + j) \<or> res = STATUS_ERROR"
        "fd_blocking rd rem \<longrightarrow> j = min (left - ?n) (length (rem s1)) \<and> res = int (written + ?n + j)"
        by blast
      have "take (?n + j) (rem s) = bs @ take j (rem s1)"
        using F(3,4) [OF True] by (simp add: take_add)
      then have "write_post q (take (?n + j) (rem s)) q'"
        using write_post_trans [OF p j(4)] by simp
      moreover have "rem s' = drop (?n + j) (rem s)" using F(4) [OF True] j(5) by (simp add: add.commute)
      moreover have "?n + j \<le> left" "?n + j \<le> length (rem s)"
        using j(2,3) n m F(2,4) True by auto
      moreover have "fd_blocking rd rem \<longrightarrow> ?n + j = min left (length (rem s))"
      proof
        assume "fd_blocking rd rem"
        then have "j = min (left - ?n) (length (rem s) - ?n)" using j(7) F(4) [OF True] by simp
        then show "?n + j = min left (length (rem s))"
          using F(2) [OF True] n m unfolding min_def by (auto split: if_splits)
      qed
      moreover have "int (written + ?n + j) = int (written + (?n + j))" by simp
      ultimately show ?thesis
        using loop j(1,6,7) by metis
    qed
  qed
qed

lemma write_q_loop_spec:
  assumes "rd_inv a" "nbq_inv q" "m_cur_write_offset q + left < 2 ^ 64" "left \<le> length (unread a)"
  shows "\<exists>a' q'. write_q_loop left written a q = Some (int (written + left), a', q') \<and>
    write_post q (take left (unread a)) q' \<and> rd_inv a' \<and> unread a' = drop left (unread a) \<and>
    all_written a' = all_written a"
  using assms
proof (induction left arbitrary: written a q rule: less_induct)
  case (less left)
  show ?case
  proof (cases "left = 0")
    case True
    then show ?thesis
      using less.prems by (subst write_q_loop.simps) (auto simp: write_post_def)
  next
    case False
    then obtain st q1 r w k where
      st: "do { av \<leftarrow> b_write_avail q; (if av \<le> 0 then b_write_add_avail q else Some (1, q)) } = Some (st, q1)"
      "0 < st" and q1: "write_post q [] q1" and w: "wr_ok q1 r w" and
      k: "b_write_avail q1 = Some k" "k = nb_len (m_q q1 ! w) - nb_written (m_q q1 ! w)" "0 < k"
      using write_round [OF less.prems(2) _ less.prems(3)] by blast
    define m where "m = (if left > k then k else left)"
    have m: "0 < m" "m \<le> k" "m \<le> left" using False k(3) by (auto simp: m_def)
    from st(1) obtain av where av: "b_write_avail q = Some av"
      "(if av \<le> 0 then b_write_add_avail q else Some (1, q)) = Some (st, q1)"
      by (auto simp: bind_eq_Some_conv)
    have mm: "min m (length (unread a)) = m" using m less.prems(4) by simp
    obtain a1 where a1: "nbq_read True m a = Some (m, take m (unread a), a1)" "read_post a m a1"
      using nbq_read_spec [OF less.prems(1), of True m] mm by auto
    have ra: "rd_inv a1" "unread a1 = drop m (unread a)" "all_written a1 = all_written a"
      using a1(2) by (simp_all add: read_post_def)
    have inv1: "nbq_inv q1" using q1 by (simp add: write_post_def)
    have len: "length (take m (unread a)) = m" using mm by (simp add: min.commute)
    have bnd: "m_cur_write_offset q1 + m < 2 ^ 64"
      using q1 less.prems(3) m(3) by (simp add: write_post_def)
    obtain q2 q3 where q3: "b_write_copy (take m (unread a)) q1 = Some q2" "b_write_incr m q2 = Some q3"
      "write_post q1 (take m (unread a)) q3"
      using write_step_post [OF inv1 w, of "take m (unread a)"] len m k(2) bnd by force
    have p: "write_post q (take m (unread a)) q3" using write_post_trans [OF q1 q3(3)] by simp
    have loop: "write_q_loop left written a q = write_q_loop (left - m) (written + m) a1 q3"
      using False av st(2) k(1) a1(1) q3 m(1)
      by (subst write_q_loop.simps) (simp add: m_def [symmetric])
    have h: "nbq_inv q3" "m_cur_write_offset q3 + (left - m) < 2 ^ 64" "left - m < left"
      "left - m \<le> length (unread a1)"
      using p less.prems(3,4) len m ra(2) by (simp_all add: write_post_def)
    from less.IH [OF h(3) ra(1) h(1,2,4), of "written + m"] obtain a' q' where
      "write_q_loop (left - m) (written + m) a1 q3 = Some (int (written + m + (left - m)), a', q')"
      "write_post q3 (take (left - m) (unread a1)) q'" "rd_inv a'" "unread a' = drop (left - m) (unread a1)"
      "all_written a' = all_written a1" by auto
    moreover have "take m (unread a) @ take (left - m) (unread a1) = take left (unread a)"
      using ra(2) m(3) by (metis take_add le_add_diff_inverse)
    ultimately show ?thesis
      using loop write_post_trans [OF p] ra m(3) by fastforce
  qed
qed

lemma write_fd_spec:
  assumes "fd_ok rd rem" "nbq_inv q" "m_cur_write_offset q + len < 2 ^ 64"
  shows "\<exists>res st q' s' n. write_fd rd len status q s = Some (res, st, q', s') \<and>
    n \<le> len \<and> n \<le> length (rem s) \<and> write_post q (take n (rem s)) q' \<and> rem s' = drop n (rem s) \<and>
    (res = int n \<or> res = STATUS_ERROR) \<and>
    (fd_blocking rd rem \<longrightarrow> n = min len (length (rem s)) \<and> res = int n)"
proof (cases "len = 0")
  case True
  then show ?thesis
    using assms(2) by (auto simp: write_fd_def write_post_def)
next
  case False
  then show ?thesis
    using write_fd_loop_spec [OF assms, of 0 status s] by (simp add: write_fd_def)
qed

lemma write_q_spec:
  assumes "rd_inv a" "nbq_inv q" "m_cur_write_offset q + length (unread a) < 2 ^ 64"
  shows "\<exists>a' q'. write_q a q = Some (int (length (unread a)), a', q') \<and>
    write_post q (unread a) q' \<and> rd_inv a' \<and> unread a' = [] \<and> all_written a' = all_written a"
  using write_q_loop_spec [OF assms order_refl, of 0]
  by (simp add: write_q_def read_avail_def rd_inv_length [OF assms(1)])

section \<open>Copies, the character stream, files\<close>

text \<open>\<^verbatim>\<open>copy_part\<close>: a zeroed buffer one byte longer than asked, filled by \<^verbatim>\<open>read_from\<close>.\<close>

definition copy_part :: "nat \<Rightarrow> nat \<Rightarrow> nbq \<Rightarrow> (byte list \<times> nbq) option" where
  "copy_part off len q =
     do {
       (n, xs, q1) \<leftarrow> read_from off len q;
       Some ((take len (xs @ replicate (len - n) NUL)) @ [NUL], q1) }"

text \<open>The rapidjson input stream over a queue: the queue and the characters taken.\<close>

record nbq_stream =
  st_nbq :: nbq
  st_idx :: nat

definition stream_Peek :: "nbq_stream \<Rightarrow> char option" where
  "stream_Peek s = (if read_avail (st_nbq s) \<noteq> 0 then nbq_peek (st_nbq s) else Some NUL)"

definition stream_Take :: "nbq_stream \<Rightarrow> (char \<times> nbq_stream) option" where
  "stream_Take s =
     do {
       (n, xs, q1) \<leftarrow> nbq_read True 1 (st_nbq s);
       if n \<noteq> 1 then Some (NUL, s\<lparr>st_nbq := q1\<rparr>)
       else Some (hd xs, s\<lparr>st_nbq := q1, st_idx := u64 (st_idx s + 1)\<rparr>) }"

definition stream_Tell :: "nbq_stream \<Rightarrow> nat" where
  "stream_Tell s = st_idx s"

text \<open>
  \<^verbatim>\<open>read_file_nbq\<close>: what \<^verbatim>\<open>stat\<close>, \<^verbatim>\<open>open\<close> and \<^verbatim>\<open>close\<close> answer for the file is
  a record; the result is the status, the length stored (if any) and the queue.
\<close>

record file_env =
  fe_stat :: "(bool \<times> nat) option"
  fe_open :: bool
  fe_close :: bool

definition read_file_nbq ::
  "'s reader \<Rightarrow> file_env \<Rightarrow> nbq \<Rightarrow> 's \<Rightarrow> (int \<times> nat option \<times> nbq) option" where
  "read_file_nbq rd fe q s =
     (case fe_stat fe of
        None \<Rightarrow> Some (STATUS_ERROR, None, q)
      | Some (regular, st_size) \<Rightarrow>
          if \<not> regular then Some (STATUS_ERROR, None, q)
          else if \<not> fe_open fe then Some (STATUS_ERROR, None, q)
          else do {
            (res, _, q1, _) \<leftarrow> write_fd rd st_size 0 q s;
            Some (if fe_close fe then STATUS_OK else STATUS_ERROR, Some (u32_of_int res), q1) })"

definition read_file :: "file_env \<Rightarrow> byte list \<Rightarrow> int \<times> byte list option \<times> nat option" where
  "read_file fe contents =
     (case fe_stat fe of
        None \<Rightarrow> (STATUS_ERROR, None, None)
      | Some (regular, st_size) \<Rightarrow>
          if \<not> regular then (STATUS_ERROR, None, None)
          else if \<not> fe_open fe then (STATUS_ERROR, None, None)
          else if s32 (length (take (u32 st_size) contents)) \<noteq> s32 st_size
               then (STATUS_ERROR, Some (take (u32 st_size) contents), Some (u32 st_size))
          else (if fe_close fe then STATUS_OK else STATUS_ERROR,
                Some (take (u32 st_size) contents), Some (u32 st_size)))"

lemma copy_part_spec:
  assumes "wf_blocks q"
  shows "\<exists>q'. copy_part off len q =
    Some (take len (drop off (all_written q)) @
      replicate (len - length (take len (drop off (all_written q)))) NUL @ [NUL], q') \<and>
    rd_inv q' \<and> all_written q' = all_written q"
proof -
  obtain q' where q': "read_from off len q =
      Some (min len (length (all_written q) - off), take len (drop off (all_written q)), q')"
    "rd_inv q'" "all_written q' = all_written q"
    using read_from_spec [OF assms] by blast
  then show ?thesis by (simp add: copy_part_def min_def)
qed

lemma stream_Take_spec:
  assumes "rd_inv (st_nbq s)" "st_idx s + 1 < 2 ^ 64"
  shows "\<exists>s'. stream_Take s = Some (case unread (st_nbq s) of [] \<Rightarrow> NUL | c # _ \<Rightarrow> c, s') \<and>
    rd_inv (st_nbq s') \<and> unread (st_nbq s') = tl (unread (st_nbq s)) \<and>
    st_idx s' = st_idx s + min 1 (length (unread (st_nbq s)))"
proof -
  obtain q' where q': "nbq_read True 1 (st_nbq s) =
      Some (min 1 (length (unread (st_nbq s))), take 1 (unread (st_nbq s)), q')"
    "read_post (st_nbq s) (min 1 (length (unread (st_nbq s)))) q'"
    using nbq_read_spec [OF assms(1), of True 1] by auto
  then show ?thesis
    using assms(2)
    by (cases "unread (st_nbq s)") (auto simp: stream_Take_def read_post_def u64_id)
qed

lemma nbq_peek_spec:
  assumes "nbq_inv q"
  shows "nbq_peek q = Some (case unread q of [] \<Rightarrow> NUL | c # _ \<Rightarrow> c)"
proof (cases "m_total_read_avail q = 0")
  case True
  then have "unread q = []" using rd_inv_length [OF nbq_inv_rd [OF assms]] by simp
  then show ?thesis using True by (simp add: nbq_peek_def read_avail_def)
next
  case False
  note rd = nbq_inv_rd [OF assms]
  obtain r where r: "m_cur_read_block q = At r"
    using False rd by (cases "m_cur_read_block q") (auto simp: rd_inv_def)
  have "m_q q \<noteq> []" using rd_inv_At(1) [OF rd r] by auto
  then obtain w where "wr_ok q r w" using assms r by (elim nbq_inv_AtE) (auto simp: wr_ok_def)
  then have "1 \<le> avail (m_q q ! r)" using False by (auto simp: wr_ok_def)
  from rd_b_read_copy [OF rd r this]
  have "b_read_copy 1 q = Some (take 1 (unread q))" .
  moreover have "unread q \<noteq> []" using False rd_inv_length [OF rd] by auto
  ultimately show ?thesis
    using False by (cases "unread q") (auto simp: nbq_peek_def read_avail_def)
qed

text \<open>
  A failing \<^verbatim>\<open>read(2)\<close> is not reported: \<^verbatim>\<open>read_file_nbq\<close> stores the status of
  \<^verbatim>\<open>write_fd\<close> as the length and answers \<^verbatim>\<open>STATUS_OK\<close>.
\<close>

lemma read_file_nbq_read_error:
  "read_file_nbq (\<lambda>s n. (-1, False, [], s)) \<lparr>fe_stat = Some (True, 4), fe_open = True, fe_close = True\<rparr> demo_q s =
     Some (STATUS_OK, Some 4294967295, demo_q)"
  by (simp add: read_file_nbq_def write_fd_def write_fd_loop.simps b_write_avail_def demo_q_def
    nb_write_avail_def sub32_def STATUS_ERROR_def u32_of_int_def)

section \<open>The queue as an interface\<close>

text \<open>
  What the connection layer, the request generator and the response parser rely on:
  bytes come out in the order they went in, whatever the order of the calls.
\<close>

datatype qop = Put "byte list" | Get nat

fun puts :: "qop list \<Rightarrow> byte list" where
  "puts [] = []"
| "puts (Put xs # ops) = xs @ puts ops"
| "puts (Get n # ops) = puts ops"

text \<open>A sequence of calls; the result is what each \<open>Get\<close> delivered.\<close>

fun run_ops :: "(byte list \<Rightarrow> 'q \<Rightarrow> 'q option) \<Rightarrow> (nat \<Rightarrow> 'q \<Rightarrow> (byte list \<times> 'q) option) \<Rightarrow>
    qop list \<Rightarrow> 'q \<Rightarrow> (byte list list \<times> 'q) option" where
  "run_ops put get [] q = Some ([], q)"
| "run_ops put get (Put xs # ops) q = do { q1 \<leftarrow> put xs q; run_ops put get ops q1 }"
| "run_ops put get (Get n # ops) q =
     do { (out, q1) \<leftarrow> get n q; (outs, q2) \<leftarrow> run_ops put get ops q1; Some (out # outs, q2) }"

locale byte_queue =
  fixes inv :: "'q \<Rightarrow> bool"
    and contents :: "'q \<Rightarrow> byte list"
    and room :: "'q \<Rightarrow> nat \<Rightarrow> bool"
    and put :: "byte list \<Rightarrow> 'q \<Rightarrow> 'q option"
    and get :: "nat \<Rightarrow> 'q \<Rightarrow> (byte list \<times> 'q) option"
  assumes put_law: "inv q \<Longrightarrow> room q (length xs + n) \<Longrightarrow>
      \<exists>q'. put xs q = Some q' \<and> inv q' \<and> contents q' = contents q @ xs \<and> room q' n"
    and get_law: "inv q \<Longrightarrow> room q m \<Longrightarrow>
      \<exists>q'. get n q = Some (take n (contents q), q') \<and> inv q' \<and> contents q' = drop n (contents q) \<and> room q' m"
begin

lemma run_fifo:
  assumes "inv q" "room q (length (puts ops))"
  shows "\<exists>outs q'. run_ops put get ops q = Some (outs, q') \<and> inv q' \<and>
    concat outs @ contents q' = contents q @ puts ops"
  using assms
proof (induction ops arbitrary: q)
  case (Cons op ops)
  show ?case
  proof (cases op)
    case (Put xs)
    then obtain q1 where q1: "put xs q = Some q1" "inv q1" "contents q1 = contents q @ xs"
      "room q1 (length (puts ops))"
      using put_law [of q xs "length (puts ops)"] Cons.prems by auto
    then show ?thesis using Cons.IH [OF q1(2,4)] Put by auto
  next
    case (Get n)
    then obtain q1 where q1: "get n q = Some (take n (contents q), q1)" "inv q1"
      "contents q1 = drop n (contents q)" "room q1 (length (puts ops))"
      using get_law [of q "length (puts ops)" n] Cons.prems by auto
    with Cons.IH [OF q1(2,4)] obtain outs q' where
      o: "run_ops put get ops q1 = Some (outs, q')" "inv q'"
      "concat outs @ contents q' = drop n (contents q) @ puts ops" by auto
    have "take n (contents q) @ concat outs @ contents q' = contents q @ puts ops"
      unfolding o(3) by (simp only: append.assoc [symmetric] append_take_drop_id)
    then show ?thesis using Get q1 o by (simp del: append_assoc) (simp add: append.assoc)
  qed
qed simp

text \<open>Asking for everything at the end leaves nothing behind.\<close>

lemma run_drain:
  assumes "inv q" "room q (length (puts ops))" "length (contents q) + length (puts ops) \<le> n"
  shows "\<exists>outs q'. run_ops put get (ops @ [Get n]) q = Some (outs, q') \<and>
    concat outs = contents q @ puts ops \<and> contents q' = []"
  using assms
proof (induction ops arbitrary: q)
  case Nil
  then show ?case using get_law [of q 0 n] by auto
next
  case (Cons op ops)
  show ?case
  proof (cases op)
    case (Put xs)
    then obtain q1 where q1: "put xs q = Some q1" "inv q1" "contents q1 = contents q @ xs"
      "room q1 (length (puts ops))"
      using put_law [of q xs "length (puts ops)"] Cons.prems by auto
    then show ?thesis using Cons.IH [OF q1(2,4)] Cons.prems Put by auto
  next
    case (Get m)
    then obtain q1 where q1: "get m q = Some (take m (contents q), q1)" "inv q1"
      "contents q1 = drop m (contents q)" "room q1 (length (puts ops))"
      using get_law [of q "length (puts ops)" m] Cons.prems by auto
    moreover have "length (contents q1) + length (puts ops) \<le> n" using Cons.prems(3) Get q1(3) by simp
    ultimately obtain outs q' where
      o: "run_ops put get (ops @ [Get n]) q1 = Some (outs, q')"
      "concat outs = drop m (contents q) @ puts ops" "contents q' = []"
      using Cons.IH [OF q1(2,4)] by auto
    have "take m (contents q) @ concat outs = contents q @ puts ops"
      unfolding o(2) by (simp only: append.assoc [symmetric] append_take_drop_id)
    then show ?thesis using Get q1 o(1,3) by (simp del: append_assoc)
  qed
qed

end

section \<open>The model of \<^verbatim>\<open>nbq\<close> provides the interface\<close>

definition nbq_put :: "byte list \<Rightarrow> nbq \<Rightarrow> nbq option" where
  "nbq_put xs q = map_option snd (nbq_write (Some xs) q)"

definition nbq_get :: "nat \<Rightarrow> nbq \<Rightarrow> (byte list \<times> nbq) option" where
  "nbq_get n q = map_option snd (nbq_read True n q)"

definition nbq_room :: "nbq \<Rightarrow> nat \<Rightarrow> bool" where
  "nbq_room q n \<longleftrightarrow> m_cur_write_offset q + n < 2 ^ 64"

interpretation bq: byte_queue nbq_inv unread nbq_room nbq_put nbq_get
proof
  fix q :: nbq and xs :: "byte list" and n
  assume q: "nbq_inv q" "nbq_room q (length xs + n)"
  then have "m_cur_write_offset q + length xs < 2 ^ 64" by (simp add: nbq_room_def)
  from nbq_write_spec [OF q(1) this] q(2)
  show "\<exists>q'. nbq_put xs q = Some q' \<and> nbq_inv q' \<and> unread q' = unread q @ xs \<and> nbq_room q' n"
    by (auto simp: nbq_put_def write_post_def nbq_room_def add.assoc)
next
  fix q :: nbq and m n
  assume q: "nbq_inv q" "nbq_room q m"
  from nbq_read_spec [OF nbq_inv_rd [OF q(1)], of True n] q
  show "\<exists>q'. nbq_get n q = Some (take n (unread q), q') \<and> nbq_inv q' \<and>
      unread q' = drop n (unread q) \<and> nbq_room q' m"
    by (auto simp: nbq_get_def read_post_def nbq_room_def min_def)
qed

section \<open>Properties\<close>

text \<open>
  C13: the queue is FIFO.  Whatever the order of writes and reads, and however the bytes
  fall on block boundaries, no call leaves the queue's memory or runs on, and what the
  reads deliver, followed by what is still unread, is what was unread followed by
  everything written.
\<close>

theorem nbq_fifo:
  assumes "nbq_inv q" "m_cur_write_offset q + length (puts ops) < 2 ^ 64"
  shows "\<exists>outs q'. run_ops nbq_put nbq_get ops q = Some (outs, q') \<and> nbq_inv q' \<and>
    concat outs @ unread q' = unread q @ puts ops"
  using bq.run_fifo [of q ops] assms by (simp add: nbq_room_def)

theorem nbq_fifo_witness:
  "\<exists>outs q'. run_ops nbq_put nbq_get [Put ''GET /'', Get 2, Put '' HTTP'', Get 9] (nbq_new 3) = Some (outs, q') \<and>
    nbq_inv q' \<and> concat outs @ unread q' = ''GET / HTTP''"
  using nbq_fifo [of "nbq_new 3" "[Put ''GET /'', Get 2, Put '' HTTP'', Get 9]"]
  by simp

text \<open>
  \<^verbatim>\<open>nbq::write\<close> consumes the whole buffer: it returns its length, the unread
  bytes and the written bytes grow by exactly the buffer, and the write offset by its
  length.
\<close>

theorem nbq_write_appends:
  assumes "nbq_inv q" "m_cur_write_offset q + length buf < 2 ^ 64"
  shows "\<exists>q'. nbq_write (Some buf) q = Some (int (length buf), q') \<and> nbq_inv q' \<and>
    unread q' = unread q @ buf \<and> all_written q' = all_written q @ buf \<and>
    m_cur_write_offset q' = m_cur_write_offset q + length buf"
  using nbq_write_spec [OF assms] by (auto simp: write_post_def)

theorem nbq_write_appends_witness:
  "\<exists>q'. nbq_write (Some ''abcde'') (nbq_new 2) = Some (5, q') \<and> nbq_inv q' \<and>
    unread q' = ''abcde'' \<and> all_written q' = ''abcde'' \<and> m_cur_write_offset q' = length ''abcde''"
  using nbq_write_appends [of "nbq_new 2" "''abcde''"]
  by simp

text \<open>
  \<^verbatim>\<open>nbq::read\<close> terminates on every queue the operations build, delivers the first
  \<open>len\<close> unread bytes (all of them when there are fewer), returns how many, and
  consumes exactly those.
\<close>

theorem nbq_read_prefix:
  assumes "rd_inv q"
  shows "\<exists>q'. nbq_read True len q = Some (min len (length (unread q)), take len (unread q), q') \<and>
    rd_inv q' \<and> unread q' = drop len (unread q) \<and> all_written q' = all_written q \<and>
    read_avail q' = read_avail q - len"
  using nbq_read_spec [OF assms, of True len] rd_inv_length [OF assms]
  by (auto simp: read_post_def read_avail_def min_def)

theorem nbq_read_prefix_witness:
  "\<exists>q'. nbq_read True 3 (snd (join_ref (nbq_new 4) (nbq_new 4))) = Some (0, [], q') \<and> rd_inv q' \<and>
    unread q' = [] \<and> all_written q' = [] \<and> read_avail q' = 0"
  using nbq_read_prefix [of "snd (join_ref (nbq_new 4) (nbq_new 4))" 3]
  by (simp add: join_ref_def Let_def rd_inv_def unread_def all_written_def read_avail_def nbq_new_def it_begin_def)

text \<open>
  \<^verbatim>\<open>nbq::read_from\<close> is random access to everything ever written: it delivers the
  slice at the offset, whatever was read before.
\<close>

theorem nbq_read_from_slice:
  assumes "nbq_inv q"
  shows "\<exists>q'. read_from off len q = Some (min len (length (all_written q) - off),
      take len (drop off (all_written q)), q') \<and>
    nbq_inv q' \<and> all_written q' = all_written q \<and> unread q' = drop (off + len) (all_written q)"
  using read_from_spec [OF nbq_inv_wf [OF assms]] assms by blast

theorem nbq_read_from_slice_witness:
  "\<exists>q'. read_from 1 2 (nbq_new 8) = Some (0, [], q') \<and> nbq_inv q'"
  using nbq_read_from_slice [of "nbq_new 8" 1 2] by auto

text \<open>
  \<^verbatim>\<open>nbq::shrink\<close> frees memory only: it drops a prefix of the block list, the read
  cursor ends up at the first block, no unread byte is lost and the queue stays usable.
\<close>

theorem nbq_shrink_keeps_unread:
  assumes "nbq_inv q"
  shows "nbq_inv (shrink q) \<and> unread (shrink q) = unread q \<and>
    (\<exists>k. m_q (shrink q) = drop k (m_q q)) \<and> m_cur_read_block (shrink q) = it_begin (m_q (shrink q))"
  using shrink_spec [OF assms] by blast

theorem nbq_shrink_keeps_unread_witness:
  "nbq_inv (shrink (nbq_new 5)) \<and> unread (shrink (nbq_new 5)) = []"
  using nbq_shrink_keeps_unread [of "nbq_new 5"] by simp

text \<open>
  \<^verbatim>\<open>nbq::split\<close> at an offset strictly inside a block cuts the written bytes in two at
  the offset; both queues are rewound and readable from their start.
\<close>

theorem nbq_split_partitions:
  assumes "nbq_inv q" "0 < off" "off < m_cur_write_offset q" "0 < snd (split_find (m_q q) off)"
  shows "\<exists>t h. nbq_split off q = Some (STATUS_OK, Some t, h) \<and> rd_inv t \<and> rd_inv h \<and>
    unread h = take off (all_written q) \<and> unread t = drop off (all_written q)"
proof -
  have "split_point off q = off" using assms(4) by (auto simp: split_point_def split: prod.splits)
  with nbq_split_spec [of q off] assms nbq_inv_wf [OF assms(1)] show ?thesis
    by (auto simp: nbq_inv_def)
qed

theorem nbq_split_partitions_witness:
  "\<exists>t h. nbq_split 5 demo_q = Some (STATUS_OK, Some t, h) \<and> unread h = ''abcde'' \<and> unread t = ''f''"
  using nbq_split_partitions [OF demo_q_inv, of 5]
  by (auto simp: demo_q_def all_written_def written_bytes_def)

text \<open>
  At a block boundary \<^verbatim>\<open>nbq::split\<close> does not cut at the offset: the iterator is
  advanced past the block that starts there, so that whole block stays in the head and
  the tail starts one block later, with \<^verbatim>\<open>STATUS_OK\<close>.
\<close>

theorem nbq_split_at_block_boundary:
  assumes "nbq_inv q" "0 < off" "off < m_cur_write_offset q" "split_find (m_q q) off = (k, 0)"
  shows "\<exists>t h. nbq_split off q = Some (STATUS_OK, Some t, h) \<and> nb_written (m_q q ! k) > 0 \<and>
    unread h = take (off + nb_written (m_q q ! k)) (all_written q) \<and>
    unread t = drop (off + nb_written (m_q q ! k)) (all_written q)"
proof -
  have "split_point off q = off + nb_written (m_q q ! k)" using assms(4) by (simp add: split_point_def)
  moreover have "nb_written (m_q q ! k) > 0"
    using split_find_spec [OF assms(4)] assms(1,3) by (simp add: nbq_inv_def)
  ultimately show ?thesis
    using nbq_split_spec [of q off] assms(1-3) nbq_inv_wf [OF assms(1)] by (auto simp: nbq_inv_def)
qed

theorem nbq_split_at_block_boundary_witness:
  "\<exists>t h. nbq_split 4 demo_q = Some (STATUS_OK, Some t, h) \<and> unread h = ''abcdef'' \<and> unread t = []"
  using nbq_split_at_block_boundary [OF demo_q_inv, of 4 1]
  by (auto simp: demo_q_def all_written_def written_bytes_def)

text \<open>
  \<^verbatim>\<open>nbq::join_ref\<close> appends everything the other queue holds, without copying: the
  joined queue reads its own unread bytes and then all bytes of the tail.  Its write
  cursor is the end iterator, and a write to it dereferences that: the call has no
  defined result.
\<close>

theorem nbq_join_ref_appends:
  assumes "nbq_inv q" "nbq_inv t" "m_cur_write_offset q + length (all_written t) < 2 ^ 64"
  shows "\<exists>q'. join_ref t q = (STATUS_OK, q') \<and> rd_inv q' \<and> unread q' = unread q @ all_written t \<and>
    (m_q q \<noteq> [] \<and> buf \<noteq> [] \<longrightarrow> nbq_write (Some buf) q' = None)"
proof -
  have "m_q q \<noteq> [] \<Longrightarrow> m_cur_read_block q \<noteq> End" using assms(1) by (auto simp: nbq_inv_def wr_ok_def)
  with join_ref_spec [of q t] assms obtain q' where q': "join_ref t q = (STATUS_OK, q')" "rd_inv q'"
    "unread q' = unread q @ all_written t" "m_cur_write_block q' = End"
    by (auto simp: nbq_inv_def rd_inv_def)
  have "m_q q' = m_q q @ map ref_of (m_q t)"
    using q'(1) by (auto simp: join_ref_def Let_def ref_of_def)
  then have "nbq_write (Some buf) q' = None" if "m_q q \<noteq> []" "buf \<noteq> []"
    using that q'(4)
    by (subst nbq_write_def, simp, subst nbq_write_loop.simps) (simp add: b_write_avail_def b_write_add_avail_def)
  with q' show ?thesis by blast
qed

theorem nbq_join_ref_appends_witness:
  "\<exists>q'. join_ref demo_q demo_q = (STATUS_OK, q') \<and> unread q' = ''abcdefabcdef'' \<and>
    nbq_write (Some ''x'') q' = None"
  using nbq_join_ref_appends [OF demo_q_inv demo_q_inv, of "''x''"]
  by (auto simp: demo_q_def all_written_def unread_def avail_bytes_def written_bytes_def)

text \<open>
  \<^verbatim>\<open>nbq::write_fd\<close> moves bytes from a descriptor to the queue without loss or
  reordering, and from a blocking descriptor it moves all it was asked for; so
  \<^verbatim>\<open>read_file_nbq\<close> loads a regular file completely.
\<close>

theorem read_file_nbq_loads:
  assumes "fd_ok rd rem" "fd_blocking rd rem" "nbq_inv q"
    "fe_stat fe = Some (True, length (rem s))" "fe_open fe" "fe_close fe"
    "m_cur_write_offset q + length (rem s) < 2 ^ 64" "length (rem s) < 2 ^ 32"
  shows "\<exists>q'. read_file_nbq rd fe q s = Some (STATUS_OK, Some (length (rem s)), q') \<and>
    nbq_inv q' \<and> unread q' = unread q @ rem s"
  using write_fd_spec [OF assms(1,3,7), of 0 s] assms(2,4,5,6,8)
  by (auto simp: read_file_nbq_def write_post_def u32_of_int_id)

definition file_rd :: "byte list reader" where
  "file_rd s n = (int (min n (length s)), False, take n s, drop n s)"

lemma file_rd_ok: "fd_ok file_rd (\<lambda>s. s)" "fd_blocking file_rd (\<lambda>s. s)"
  by (auto simp: fd_ok_def fd_blocking_def file_rd_def min_def)

theorem read_file_nbq_loads_witness:
  "\<exists>q'. read_file_nbq file_rd \<lparr>fe_stat = Some (True, length ''hello''), fe_open = True, fe_close = True\<rparr>
      (nbq_new 2) ''hello'' = Some (STATUS_OK, Some (length ''hello''), q') \<and> unread q' = ''hello''"
  using read_file_nbq_loads [OF file_rd_ok, of "nbq_new 2"
      "\<lparr>fe_stat = Some (True, length ''hello''), fe_open = True, fe_close = True\<rparr>" "''hello''"]
  by auto
end
