(* ===== verification/Uri.thy ===== *)
theory Uri
  imports Prelude
begin

text \<open>
  Percent encoding and decoding, \<^verbatim>\<open>src/core/support/uri.cc\<close>.  The source pointer of
  the decoder is the list of characters still to come: three or more of them is
  \<^verbatim>\<open>pSrc < SRC_LAST_DEC\<close>.
\<close>

section \<open>Tables\<close>

definition G_HEX2DEC :: "char \<Rightarrow> int" where
  "G_HEX2DEC c = (let n = of_char c :: nat in
     if 48 \<le> n \<and> n \<le> 57 then int n - 48
     else if 65 \<le> n \<and> n \<le> 70 then int n - 55
     else if 97 \<le> n \<and> n \<le> 102 then int n - 87
     else -1)"

definition G_SAFE :: "char \<Rightarrow> bool" where
  "G_SAFE c \<longleftrightarrow> (let n = of_char c :: nat in
     48 \<le> n \<and> n \<le> 57 \<or> 65 \<le> n \<and> n \<le> 90 \<or> 97 \<le> n \<and> n \<le> 122)"

definition DEC2HEX :: "nat \<Rightarrow> char" where
  "DEC2HEX n = ''0123456789ABCDEF'' ! n"

section \<open>The codec\<close>

fun decode_bytes :: "string \<Rightarrow> string" where
  "decode_bytes (c # x # y # rest) =
     (if c = CHR ''+'' then CHR '' '' # decode_bytes (x # y # rest)
      else if c = CHR ''%'' \<and> G_HEX2DEC x \<noteq> -1 \<and> G_HEX2DEC y \<noteq> -1
      then char_of (nat (G_HEX2DEC x * 16 + G_HEX2DEC y)) # decode_bytes rest
      else c # decode_bytes (x # y # rest))"
| "decode_bytes s = s"

fun encode_bytes :: "string \<Rightarrow> string" where
  "encode_bytes [] = []"
| "encode_bytes (c # cs) =
     (if G_SAFE c then c # encode_bytes cs
      else CHR ''%'' # DEC2HEX (of_char c div 16) # DEC2HEX (of_char c mod 16) # encode_bytes cs)"

text \<open>
  The length is kept in an \<^verbatim>\<open>int\<close>: what does not fit is cut, an array of a negative
  length is not allocated (\<^verbatim>\<open>new\<close> throws), and three times the length may overflow;
  these ends of the functions are \<^term>\<open>None\<close>.
\<close>

definition uri_decode :: "string \<Rightarrow> string option" where
  "uri_decode s =
     (let src_len = s32 (length s) in
      if src_len < 0 then None else Some (decode_bytes (take (nat src_len) s)))"

definition uri_encode :: "string \<Rightarrow> string option" where
  "uri_encode s =
     (let src_len = s32 (length s) in
      if src_len < 0 \<or> 2 ^ 31 \<le> src_len * 3 then None else Some (encode_bytes (take (nat src_len) s)))"

lemma uri_decode_ok: "length s < 2 ^ 31 \<Longrightarrow> uri_decode s = Some (decode_bytes s)"
  by (simp add: uri_decode_def s32_id)

lemma uri_encode_ok: "3 * length s < 2 ^ 31 \<Longrightarrow> uri_encode s = Some (encode_bytes s)"
  by (simp add: uri_encode_def s32_id)

text \<open>From 2 GB the decoder throws, from two thirds of a gigabyte the size of the encoder's buffer overflows.\<close>

lemma uri_decode_long: "2 ^ 31 \<le> length s \<Longrightarrow> length s < 2 ^ 32 \<Longrightarrow> uri_decode s = None"
  by (simp add: uri_decode_def s32_def)

lemma uri_encode_long: "2 ^ 31 \<le> 3 * length s \<Longrightarrow> length s < 2 ^ 32 \<Longrightarrow> uri_encode s = None"
  by (simp add: uri_encode_def s32_def Let_def)

section \<open>Laws of the tables\<close>

lemma less_16_cases: "n < 16 \<Longrightarrow> n \<in> set [0..<16]" for n :: nat
  by simp

lemma hex_digit [simp]:
  assumes "n < 16"
  shows "G_HEX2DEC (DEC2HEX n) = int n" "G_SAFE (DEC2HEX n)" "DEC2HEX n \<noteq> CHR ''+''" "DEC2HEX n \<noteq> CHR ''%''"
proof -
  have "\<forall>n \<in> set [0..<16]. G_HEX2DEC (DEC2HEX n) = int n \<and> G_SAFE (DEC2HEX n) \<and>
      DEC2HEX n \<noteq> CHR ''+'' \<and> DEC2HEX n \<noteq> CHR ''%''"
    by (simp add: upt_rec G_HEX2DEC_def G_SAFE_def DEC2HEX_def Let_def)
  then show "G_HEX2DEC (DEC2HEX n) = int n" "G_SAFE (DEC2HEX n)" "DEC2HEX n \<noteq> CHR ''+''" "DEC2HEX n \<noteq> CHR ''%''"
    using less_16_cases [OF assms] by blast+
qed

lemma G_SAFE_neq: "G_SAFE c \<Longrightarrow> c \<noteq> CHR ''+'' \<and> c \<noteq> CHR ''%''"
  by (auto simp: G_SAFE_def)

lemma char_split: "char_of (nat (int (of_char c div 16) * 16 + int (of_char c mod 16))) = (c :: char)"
proof -
  have "nat (int ((of_char c :: nat) div 16) * 16 + int ((of_char c :: nat) mod 16)) = of_char c"
    by (metis div_mult_mod_eq nat_int of_nat_add of_nat_mult of_nat_numeral)
  then show ?thesis by simp
qed

lemma of_char_div [simp]: "(of_char c :: nat) div 16 < 16"
  using range_nat_of_char by (auto simp: less_mult_imp_div_less)

text \<open>The decoder steps over a safe character, also near the end of the input.\<close>

lemma decode_bytes_safe:
  assumes "G_SAFE c"
  shows "decode_bytes (c # s) = c # decode_bytes s"
  using G_SAFE_neq [OF assms] by (cases s rule: remdups_adj.cases) auto

lemma decode_bytes_escape:
  assumes "a < 16" "b < 16"
  shows "decode_bytes (CHR ''%'' # DEC2HEX a # DEC2HEX b # s) = char_of (nat (int a * 16 + int b)) # decode_bytes s"
  using assms by simp

section \<open>Reference decoder\<close>

text \<open>
  Form decoding as it is usually stated: a plus is a space wherever it stands, an escape
  with two hexadecimal digits is its octet, anything else is itself.
\<close>

fun form_decode :: "string \<Rightarrow> string" where
  "form_decode [] = []"
| "form_decode (c # s) =
     (if c = CHR ''+'' then CHR '' '' # form_decode s
      else case s of
        x # y # rest \<Rightarrow>
          if c = CHR ''%'' \<and> G_HEX2DEC x \<noteq> -1 \<and> G_HEX2DEC y \<noteq> -1
          then char_of (nat (G_HEX2DEC x * 16 + G_HEX2DEC y)) # form_decode rest
          else c # form_decode s
      | _ \<Rightarrow> c # form_decode s)"

definition plus_near_end :: "string \<Rightarrow> bool" where
  "plus_near_end s \<longleftrightarrow> CHR ''+'' \<in> set (drop (length s - 2) s)"

lemma plus_near_end_Cons: "length s \<ge> 2 \<Longrightarrow> plus_near_end (c # s) = plus_near_end s"
proof -
  assume "2 \<le> length s"
  then have "length (c # s) - 2 = Suc (length s - 2)" by simp
  then show ?thesis by (simp add: plus_near_end_def del: length_Cons)
qed

lemma plus_near_end_short:
  "plus_near_end [] = False" "plus_near_end [a] = (a = CHR ''+'')"
  "plus_near_end [a, b] = (a = CHR ''+'' \<or> b = CHR ''+'')"
  by (auto simp: plus_near_end_def)

lemma plus_near_end_3:
  "plus_near_end (c # x # y # rest) = plus_near_end (x # y # rest)"
  by (rule plus_near_end_Cons) simp

lemma plus_near_end_escape:
  assumes "y \<noteq> CHR ''+''" "x \<noteq> CHR ''+''"
  shows "plus_near_end (x # y # rest) = plus_near_end rest"
  using assms plus_near_end_3 [of x y] plus_near_end_Cons [of rest y]
  by (cases rest rule: remdups_adj.cases) (auto simp: plus_near_end_short plus_near_end_3)

section \<open>Properties\<close>

lemma decode_encode_bytes: "decode_bytes (encode_bytes s) = s"
proof (induction s)
  case (Cons c s)
  have "(of_char c :: nat) mod 16 < 16" by simp
  with Cons show ?case
    by (cases "G_SAFE c") (auto simp: decode_bytes_safe decode_bytes_escape char_split simp del: decode_bytes.simps)
qed simp

lemma length_decode_bytes: "length (decode_bytes s) \<le> length s"
  by (induction s rule: decode_bytes.induct) auto

lemma length_encode_bytes: "length (encode_bytes s) \<le> 3 * length s"
  by (induction s) auto

lemma encode_bytes_chars: "c \<in> set (encode_bytes s) \<Longrightarrow> G_SAFE c \<or> c = CHR ''%''"
  by (induction s) (auto split: if_splits)

text \<open>
  C28: encoding a byte string, NUL and the octets above 127 included, and decoding the
  result gives the string back, as long as three times its length fits the \<^verbatim>\<open>int\<close> the
  functions keep lengths in.
\<close>

theorem uri_roundtrip:
  assumes "3 * length s < 2 ^ 31"
  shows "\<exists>e. uri_encode s = Some e \<and> uri_decode e = Some s"
proof -
  have "length (encode_bytes s) < 2 ^ 31"
    using length_encode_bytes[of s] assms by (rule le_less_trans)
  then show ?thesis
    by (simp add: uri_encode_ok[OF assms] uri_decode_ok decode_encode_bytes)
qed

theorem uri_roundtrip_witness:
  "\<exists>e. uri_encode ''a+b 100%'' = Some e \<and> uri_decode e = Some ''a+b 100%''"
  by (rule uri_roundtrip) simp

lemma G_HEX2DEC_plus: "G_HEX2DEC c \<noteq> -1 \<Longrightarrow> c \<noteq> CHR ''+''"
  by (auto simp: G_HEX2DEC_def)

lemma decode_bytes_form: "decode_bytes s = form_decode s \<longleftrightarrow> \<not> plus_near_end s"
proof (induction s rule: decode_bytes.induct)
  case (1 c x y rest)
  show ?case
  proof (cases "c = CHR ''%'' \<and> G_HEX2DEC x \<noteq> -1 \<and> G_HEX2DEC y \<noteq> -1")
    case True
    then have "plus_near_end (c # x # y # rest) = plus_near_end rest"
      using G_HEX2DEC_plus by (simp add: plus_near_end_3 plus_near_end_escape)
    then show ?thesis using 1(2) True by simp
  next
    case False
    then show ?thesis using 1 by (auto simp: plus_near_end_3)
  qed
qed (auto simp: plus_near_end_short)

text \<open>
  C40: a string of less than 2 GB is decoded, and to its form decoding exactly when its last
  two characters have no plus sign; a plus sign among the last two is left as it is.
\<close>

theorem uri_decode_is_form_decode_iff:
  assumes "length s < 2 ^ 31"
  shows "\<exists>t. uri_decode s = Some t \<and> (t = form_decode s \<longleftrightarrow> \<not> plus_near_end s)"
  using uri_decode_ok[OF assms] decode_bytes_form by blast

theorem uri_decode_is_form_decode_iff_witness:
  "\<exists>t. uri_decode ''a%20b+c'' = Some t \<and> t \<noteq> form_decode ''a%20b+c''"
  using uri_decode_is_form_decode_iff[of "''a%20b+c''"] by (simp add: plus_near_end_def)

end
