(* ===== verification/Str_Util.thy ===== *)
theory Str_Util
  imports Prelude
begin

text \<open>
  \<^verbatim>\<open>src/core/support/string_util.cc\<close>: the header splitter used for \<^verbatim>\<open>-H\<close> and the
  file name helpers.
\<close>

section \<open>Definitions\<close>

text \<open>
  \<^verbatim>\<open>break_header_string\<close>: status, key and value.  The skip of blanks stops at the
  terminating NUL, so it never leaves the string.
\<close>

definition break_header_string :: "string \<Rightarrow> (string \<times> string) option" where
  "break_header_string s =
     (case str_find CHR '':'' 0 s of
        None \<Rightarrow> None
      | Some p \<Rightarrow> Some (substr s 0 p, dropWhile (\<lambda>c. c = CHR '' '') (drop (Suc p) s)))"

definition get_file_wo_path :: "string \<Rightarrow> string" where
  "get_file_wo_path s =
     (case str_rfind CHR ''/'' s of
        None \<Rightarrow> s | Some p \<Rightarrow> if p = 0 then s else substr s (p + 1) (length s))"

definition get_file_path :: "string \<Rightarrow> string" where
  "get_file_path s =
     (case str_rfind CHR ''/'' s of
        None \<Rightarrow> s | Some p \<Rightarrow> if p = 0 then s else substr s 0 p)"

definition get_base_filename :: "string \<Rightarrow> string" where
  "get_base_filename s =
     (case str_rfind CHR ''.'' s of
        None \<Rightarrow> s | Some p \<Rightarrow> if p = 0 then s else substr s 0 p)"

definition get_file_ext :: "string \<Rightarrow> string" where
  "get_file_ext s =
     (case str_rfind CHR ''.'' s of
        None \<Rightarrow> [] | Some p \<Rightarrow> if p = 0 then [] else substr s (p + 1) (length s))"

definition get_file_wo_ext :: "string \<Rightarrow> string" where
  "get_file_wo_ext s =
     (case str_rfind CHR ''.'' s of
        None \<Rightarrow> [] | Some p \<Rightarrow> if p = 0 then [] else substr s 0 p)"

section \<open>Laws\<close>

lemma dropWhile_blanks: "v = [] \<or> hd v \<noteq> c \<Longrightarrow> dropWhile (\<lambda>x. x = c) (replicate n c @ v) = v"
  by (induction n) (cases v; auto)+

lemma break_header_string_spec:
  assumes "CHR '':'' \<notin> set k" "v = [] \<or> hd v \<noteq> CHR '' ''"
  shows "break_header_string (k @ '':'' @ replicate n CHR '' '' @ v) = Some (k, v)"
proof -
  have "str_find CHR '':'' 0 (k @ CHR '':'' # replicate n CHR '' '' @ v) = Some (length k)"
    using str_find_append [OF assms(1), of "[]"] by simp
  then show ?thesis using assms(2) by (simp add: break_header_string_def substr_def dropWhile_blanks)
qed

lemma break_header_string_None: "break_header_string s = None \<longleftrightarrow> CHR '':'' \<notin> set s"
proof
  assume "break_header_string s = None"
  then have "str_find CHR '':'' 0 s = None" by (simp add: break_header_string_def split: option.splits)
  from str_find_None [OF this] show "CHR '':'' \<notin> set s" by simp
next
  assume "CHR '':'' \<notin> set s"
  from str_find_absent [OF this, of "[]"] show "break_header_string s = None"
    by (simp add: break_header_string_def)
qed

lemma substr_split:
  assumes "p < length s"
  shows "substr s 0 p @ s ! p # substr s (p + 1) (length s) = s"
  using id_take_nth_drop [OF assms] by (simp add: substr_def)

text \<open>Directory and file part, with a slash in between, are the path again.\<close>

lemma file_path_split:
  assumes "str_rfind CHR ''/'' s = Some p" "p \<noteq> 0"
  shows "get_file_path s @ ''/'' @ get_file_wo_path s = s" "CHR ''/'' \<notin> set (get_file_wo_path s)"
  using assms str_rfind_Some [OF assms(1)] substr_split [of p s]
  by (simp_all add: get_file_path_def get_file_wo_path_def) (auto simp: substr_def dest: in_set_takeD)

lemma file_ext_split:
  assumes "str_rfind CHR ''.'' s = Some p" "p \<noteq> 0"
  shows "get_file_wo_ext s @ ''.'' @ get_file_ext s = s" "CHR ''.'' \<notin> set (get_file_ext s)"
  using assms str_rfind_Some [OF assms(1)] substr_split [of p s]
  by (simp_all add: get_file_wo_ext_def get_file_ext_def) (auto simp: substr_def dest: in_set_takeD)

end
