(* ===== verification/Kv_Map.thy ===== *)
theory Kv_Map
  imports Prelude "HOL-Library.List_Lexorder" "HOL-Library.Char_ord"
begin

text \<open>
  \<^verbatim>\<open>kv_map_list_t\<close> of \<^verbatim>\<open>src/core/support/kv_map_list.h\<close>: a \<^verbatim>\<open>std::map\<close> from header
  names to lists of values, ordered by \<^verbatim>\<open>strcasecmp\<close>.  The map is an association list in
  iteration order; two keys are the same entry when their lower-case C strings are equal,
  and the entry keeps the spelling it was first inserted with.
\<close>

section \<open>Case-insensitive keys\<close>

definition to_lower :: "char \<Rightarrow> char" where
  "to_lower c = (let n = of_char c :: nat in if 65 \<le> n \<and> n \<le> 90 then char_of (n + 32) else c)"

definition ci_key :: "string \<Rightarrow> string" where
  "ci_key s = List.map to_lower (c_str s)"

text \<open>\<^verbatim>\<open>strcasecmp(a, b) == 0\<close> and the comparator \<^verbatim>\<open>case_i_comp\<close>.\<close>

definition ci_eq :: "string \<Rightarrow> string \<Rightarrow> bool" where
  "ci_eq a b \<longleftrightarrow> ci_key a = ci_key b"

definition case_i_comp :: "string \<Rightarrow> string \<Rightarrow> bool" where
  "case_i_comp a b \<longleftrightarrow> ci_key a < ci_key b"

section \<open>The map\<close>

type_synonym kv_map_list = "(string \<times> string list) list"

definition kv_inv :: "kv_map_list \<Rightarrow> bool" where
  "kv_inv m \<longleftrightarrow> sorted_wrt (\<lambda>a b. case_i_comp (fst a) (fst b)) m"

fun kv_find :: "string \<Rightarrow> kv_map_list \<Rightarrow> (string \<times> string list) option" where
  "kv_find k [] = None"
| "kv_find k (e # m) = (if ci_eq (fst e) k then Some e else kv_find k m)"

text \<open>\<open>m[k] = v\<close>: the value of an entry is replaced, a new entry goes to its place in the order.\<close>

fun kv_set :: "string \<Rightarrow> string list \<Rightarrow> kv_map_list \<Rightarrow> kv_map_list" where
  "kv_set k v [] = [(k, v)]"
| "kv_set k v (e # m) =
     (if ci_eq (fst e) k then (fst e, v) # m
      else if case_i_comp (fst e) k then e # kv_set k v m
      else (k, v) # e # m)"

definition kv_erase :: "string \<Rightarrow> kv_map_list \<Rightarrow> kv_map_list" where
  "kv_erase k m = filter (\<lambda>e. \<not> ci_eq (fst e) k) m"

text \<open>What the clients look up: the values under a name.\<close>

definition kv_values :: "kv_map_list \<Rightarrow> string \<Rightarrow> string list option" where
  "kv_values m k = map_option snd (kv_find k m)"

text \<open>Find-or-insert and push back, as the header callbacks and \<^verbatim>\<open>get_headers\<close> do.\<close>

definition kv_append :: "string \<Rightarrow> string \<Rightarrow> kv_map_list \<Rightarrow> kv_map_list" where
  "kv_append k v m =
     (case kv_find k m of
        Some e \<Rightarrow> kv_set k (snd e @ [v]) m
      | None \<Rightarrow> kv_set k [v] m)"

section \<open>Laws of the association list\<close>

lemma ci_eq_refl [simp]: "ci_eq a a"
  by (simp add: ci_eq_def)

lemma ci_eq_sym: "ci_eq a b \<longleftrightarrow> ci_eq b a"
  by (auto simp: ci_eq_def)

lemma ci_eq_trans: "ci_eq a b \<Longrightarrow> ci_eq b c \<Longrightarrow> ci_eq a c"
  by (simp add: ci_eq_def)

lemma case_i_total: "\<not> ci_eq a b \<Longrightarrow> \<not> case_i_comp a b \<Longrightarrow> case_i_comp b a"
  by (auto simp: ci_eq_def case_i_comp_def)

lemma case_i_irrefl [simp]: "ci_eq a b \<Longrightarrow> \<not> case_i_comp a b"
  by (simp add: ci_eq_def case_i_comp_def)

lemma case_i_trans: "case_i_comp a b \<Longrightarrow> case_i_comp b c \<Longrightarrow> case_i_comp a c"
  unfolding case_i_comp_def by (rule less_trans)

lemma case_i_cong: "ci_eq a b \<Longrightarrow> case_i_comp a c = case_i_comp b c" "ci_eq a b \<Longrightarrow> case_i_comp c a = case_i_comp c b"
  by (simp_all add: ci_eq_def case_i_comp_def)

lemma kv_inv_simps [simp]:
  "kv_inv []" "kv_inv (e # m) \<longleftrightarrow> (\<forall>x \<in> set m. case_i_comp (fst e) (fst x)) \<and> kv_inv m"
  by (simp_all add: kv_inv_def)

lemma kv_find_Some: "kv_find k m = Some e \<Longrightarrow> e \<in> set m \<and> ci_eq (fst e) k"
  by (induction m) (auto split: if_splits)

lemma kv_find_None: "kv_find k m = None \<longleftrightarrow> (\<forall>e \<in> set m. \<not> ci_eq (fst e) k)"
  by (induction m) auto

lemma kv_find_cong: "ci_eq k k' \<Longrightarrow> kv_find k m = kv_find k' m"
  by (induction m) (auto simp: ci_eq_def)

lemma kv_find_set:
  "kv_inv m \<Longrightarrow> map_option snd (kv_find k' (kv_set k v m)) =
     (if ci_eq k k' then Some v else map_option snd (kv_find k' m))"
proof (induction m)
  case (Cons e m)
  have "kv_find k' m = None" if "ci_eq k k'" "\<not> case_i_comp (fst e) k" "\<not> ci_eq (fst e) k"
    unfolding kv_find_None
  proof
    fix x assume "x \<in> set m"
    then have "case_i_comp (fst e) (fst x)" using Cons.prems by simp
    moreover have "case_i_comp k (fst e)" using that case_i_total by blast
    ultimately have "case_i_comp k (fst x)" by (blast intro: case_i_trans)
    then show "\<not> ci_eq (fst x) k'" using that(1) by (metis case_i_cong(2) case_i_irrefl ci_eq_refl)
  qed
  with Cons show ?case by (cases e) (auto simp: ci_eq_def)
qed simp

lemma set_kv_set: "set (kv_set k v m) \<subseteq> insert (k, v) (set m \<union> (\<lambda>e. (fst e, v)) ` {e \<in> set m. ci_eq (fst e) k})"
  by (induction m) auto

lemma kv_set_keys: "x \<in> set (kv_set k v m) \<Longrightarrow> fst x = k \<or> fst x \<in> fst ` set m"
  by (induction m) (auto split: if_splits)

lemma kv_set_inv: "kv_inv m \<Longrightarrow> kv_inv (kv_set k v m)"
proof (induction m)
  case (Cons e m)
  then show ?case
    using case_i_total [of "fst e" k]
    by (auto dest!: kv_set_keys intro: case_i_trans)
qed simp

lemma kv_erase_inv: "kv_inv m \<Longrightarrow> kv_inv (kv_erase k m)"
  by (simp add: kv_inv_def kv_erase_def sorted_wrt_filter)

lemma kv_find_erase: "kv_find k' (kv_erase k m) = (if ci_eq k k' then None else kv_find k' m)"
  by (induction m) (auto simp: kv_erase_def ci_eq_def)

section \<open>The map as an interface\<close>

text \<open>
  The contract of \<^verbatim>\<open>std::map\<close> with a key equivalence, and what find-or-insert-and-push-back
  does on any such map.
\<close>

locale header_map =
  fixes inv :: "'m \<Rightarrow> bool"
    and eqk :: "string \<Rightarrow> string \<Rightarrow> bool"
    and look :: "'m \<Rightarrow> string \<Rightarrow> string list option"
    and upd :: "string \<Rightarrow> string list \<Rightarrow> 'm \<Rightarrow> 'm"
    and del :: "string \<Rightarrow> 'm \<Rightarrow> 'm"
  assumes eqk_refl: "eqk a a"
    and look_upd: "inv m \<Longrightarrow> look (upd k v m) k' = (if eqk k k' then Some v else look m k')"
    and look_del: "inv m \<Longrightarrow> look (del k m) k' = (if eqk k k' then None else look m k')"
    and inv_upd: "inv m \<Longrightarrow> inv (upd k v m)"
    and inv_del: "inv m \<Longrightarrow> inv (del k m)"
begin

lemma push_back:
  assumes "inv m"
    and "m' = (case look m k of Some vs \<Rightarrow> upd k (vs @ [v]) m | None \<Rightarrow> upd k [v] m)"
  shows "inv m'" "look m' k' = (if eqk k k' then Some ((case look m k of Some vs \<Rightarrow> vs | None \<Rightarrow> []) @ [v]) else look m k')"
  using assms(1) by (auto simp: assms(2) look_upd inv_upd split: option.splits)

lemma replace:
  assumes "inv m"
  shows "look (upd k v (del k m)) k' = (if eqk k k' then Some v else look m k')"
  using assms by (simp add: look_upd look_del inv_del)

end

interpretation kv: header_map kv_inv ci_eq kv_values kv_set kv_erase
  by unfold_locales (simp_all add: kv_values_def kv_find_set kv_find_erase kv_set_inv kv_erase_inv)

lemma kv_append_values: "kv_append k v m = (case kv_values m k of Some vs \<Rightarrow> kv_set k (vs @ [v]) m | None \<Rightarrow> kv_set k [v] m)"
  by (auto simp: kv_append_def kv_values_def split: option.splits)

lemma kv_append_spec:
  assumes "kv_inv m"
  shows "kv_inv (kv_append k v m)"
    "kv_values (kv_append k v m) k' =
       (if ci_eq k k' then Some ((case kv_values m k of Some vs \<Rightarrow> vs | None \<Rightarrow> []) @ [v]) else kv_values m k')"
  unfolding kv_append_values using kv.push_back [OF assms refl] by blast+

end
