(* ===== verification/Nlru.thy ===== *)
theory Nlru
  imports Prelude
begin

text \<open>
  The labelled LRU cache \<^verbatim>\<open>nlru\<close> of \<^verbatim>\<open>src/core/support/nlru.h\<close>: a recency list of
  (id, item) pairs, an index from ids to list nodes, one from labels to sets of ids and
  one from ids back to labels.  A list iterator is the id of its node.  The element
  \<^verbatim>\<open>begin()\<close> picks from a hash set is the parameter \<open>pick\<close>.  The delete callback is the
  list of items it was called on.
\<close>

section \<open>State\<close>

record 'a nlru =
  label_id_set_map :: "string \<Rightarrow> nat list option"
  item_list_map :: "nat \<Rightarrow> nat option"
  item_list :: "(nat \<times> 'a) list"
  item_list_size :: nat
  id_label_map :: "nat \<Rightarrow> string option"
  max_entries :: nat
  next_id :: nat
  deleted :: "'a list"

definition nlru_new :: "nat \<Rightarrow> 'a nlru" where
  "nlru_new n = \<lparr>label_id_set_map = (\<lambda>_. None), item_list_map = (\<lambda>_. None), item_list = [],
     item_list_size = 0, id_label_map = (\<lambda>_. None), max_entries = n, next_id = 0, deleted = []\<rparr>"

section \<open>Operations\<close>

definition nlru_remove :: "nat \<Rightarrow> 'a nlru \<Rightarrow> 'a nlru" where
  "nlru_remove i c =
     (case id_label_map c i of
        None \<Rightarrow> c
      | Some l \<Rightarrow>
          (case label_id_set_map c l of
             None \<Rightarrow> c
           | Some ids \<Rightarrow>
               if i \<notin> set ids then c
               else (case item_list_map c i of
                   None \<Rightarrow> c
                 | Some node \<Rightarrow>
                     let ids' = remove1 i ids in
                     c\<lparr>label_id_set_map := (label_id_set_map c)(l := (if ids' = [] then None else Some ids')),
                       item_list_size := sub64 (item_list_size c) 1,
                       item_list := filter (\<lambda>e. fst e \<noteq> node) (item_list c),
                       item_list_map := (item_list_map c)(i := None),
                       id_label_map := (id_label_map c)(i := None)\<rparr>)))"

definition nlru_evict :: "'a nlru \<Rightarrow> 'a nlru" where
  "nlru_evict c =
     (if item_list c = [] then c
      else nlru_remove (fst (last (item_list c))) (c\<lparr>deleted := deleted c @ [snd (last (item_list c))]\<rparr>))"

definition nlru_insert :: "string \<Rightarrow> 'a \<Rightarrow> 'a nlru \<Rightarrow> nat \<times> 'a nlru" where
  "nlru_insert l x c =
     (let i = next_id c;
          c1 = c\<lparr>next_id := u64 (i + 1),
                 item_list_size := u64 (item_list_size c + 1),
                 item_list := (i, x) # item_list c,
                 label_id_set_map := (label_id_set_map c)(l := Some (case label_id_set_map c l of
                     None \<Rightarrow> [i] | Some ids \<Rightarrow> List.insert i ids)),
                 item_list_map := (item_list_map c)(i := Some i),
                 id_label_map := (id_label_map c)(i := Some l)\<rparr>
      in (i, if item_list_size c1 > max_entries c1 then nlru_evict c1 else c1))"

definition nlru_get :: "(nat list \<Rightarrow> nat) \<Rightarrow> string \<Rightarrow> 'a nlru \<Rightarrow> 'a option \<times> 'a nlru" where
  "nlru_get pick l c =
     (case label_id_set_map c l of
        None \<Rightarrow> (None, c)
      | Some ids \<Rightarrow>
          if ids = [] then (None, c)
          else let i = pick ids in
            (case item_list_map c i of
               None \<Rightarrow> (None, c)
             | Some node \<Rightarrow> (map_of (item_list c) node, nlru_remove i c)))"

definition nlru_size :: "'a nlru \<Rightarrow> nat" where
  "nlru_size c = item_list_size c"

definition get_label_cnt :: "'a nlru \<Rightarrow> string \<Rightarrow> nat" where
  "get_label_cnt c l = (case label_id_set_map c l of None \<Rightarrow> 0 | Some ids \<Rightarrow> u32 (length ids))"

section \<open>Abstract cache and invariant\<close>

text \<open>The cache as clients see it: labelled items, most recent first.\<close>

definition nlru_abs :: "'a nlru \<Rightarrow> (nat \<times> string \<times> 'a) list" where
  "nlru_abs c = map (\<lambda>(i, x). (i, the (id_label_map c i), x)) (item_list c)"

text \<open>A label's id set holds exactly the ids with that label, and is dropped when empty.\<close>

definition label_ok :: "nat list option \<Rightarrow> (nat \<Rightarrow> string option) \<Rightarrow> string \<Rightarrow> bool" where
  "label_ok s f l \<longleftrightarrow> (case s of
      None \<Rightarrow> (\<forall>i. f i \<noteq> Some l)
    | Some ids \<Rightarrow> ids \<noteq> [] \<and> distinct ids \<and> (\<forall>i. (i \<in> set ids) = (f i = Some l)))"

definition nlru_inv :: "'a nlru \<Rightarrow> bool" where
  "nlru_inv c \<longleftrightarrow>
     distinct (map fst (item_list c)) \<and>
     item_list_size c = length (item_list c) \<and> length (item_list c) < 2 ^ 63 \<and>
     (\<forall>i. item_list_map c i = (if i \<in> fst ` set (item_list c) then Some i else None)) \<and>
     (\<forall>i. (id_label_map c i \<noteq> None) = (i \<in> fst ` set (item_list c))) \<and>
     (\<forall>l. label_ok (label_id_set_map c l) (id_label_map c) l) \<and>
     (\<forall>i \<in> fst ` set (item_list c). i < next_id c) \<and> max_entries c < 2 ^ 32"

lemma nlru_new_inv [simp]: "n < 2 ^ 32 \<Longrightarrow> nlru_inv (nlru_new n)"
  by (simp add: nlru_inv_def nlru_new_def label_ok_def)

lemma nlru_inv_label:
  assumes "nlru_inv c" "id_label_map c i = Some l"
  shows "\<exists>ids. label_id_set_map c l = Some ids \<and> i \<in> set ids \<and> distinct ids"
proof -
  have "label_ok (label_id_set_map c l) (id_label_map c) l" using assms(1) by (simp add: nlru_inv_def)
  then show ?thesis using assms(2) by (auto simp: label_ok_def split: option.splits)
qed

lemma nlru_remove_eq:
  assumes "nlru_inv c" "id_label_map c i = Some l"
  obtains ids where "label_id_set_map c l = Some ids" "i \<in> set ids" "distinct ids"
    "nlru_remove i c = c\<lparr>label_id_set_map := (label_id_set_map c)(l := (if remove1 i ids = [] then None else Some (remove1 i ids))),
       item_list_size := length (item_list c) - 1,
       item_list := filter (\<lambda>e. fst e \<noteq> i) (item_list c),
       item_list_map := (item_list_map c)(i := None),
       id_label_map := (id_label_map c)(i := None)\<rparr>"
proof -
  obtain ids where ids: "label_id_set_map c l = Some ids" "i \<in> set ids" "distinct ids"
    using nlru_inv_label [OF assms] by blast
  have m: "i \<in> fst ` set (item_list c)" "item_list_map c i = Some i"
    "item_list_size c = length (item_list c)" "length (item_list c) < 2 ^ 63"
    using assms by (auto simp: nlru_inv_def)
  then have "sub64 (item_list_size c) 1 = length (item_list c) - 1"
    by (cases "item_list c") (auto intro!: trans [OF sub64_id])
  then show ?thesis
    using assms(2) ids m by (intro that [OF ids]) (simp add: nlru_remove_def Let_def)
qed

lemma filter_key_length:
  assumes "distinct (map fst xs)" "i \<in> fst ` set xs"
  shows "length (filter (\<lambda>e. fst e \<noteq> i) xs) = length xs - 1"
  using assms
proof (induction xs)
  case (Cons x xs)
  show ?case
  proof (cases "fst x = i")
    case True
    then have "filter (\<lambda>e. fst e \<noteq> i) xs = xs" using Cons.prems by (auto intro!: filter_True simp: image_iff)
    then show ?thesis using True by simp
  next
    case False
    then have "xs \<noteq> []" using Cons.prems by auto
    then show ?thesis using False Cons by (cases xs) auto
  qed
qed simp

lemma nlru_remove_inv:
  assumes "nlru_inv c" "id_label_map c i = Some l"
  shows "nlru_inv (nlru_remove i c)"
    "nlru_abs (nlru_remove i c) = filter (\<lambda>e. fst e \<noteq> i) (nlru_abs c)"
    "deleted (nlru_remove i c) = deleted c" "next_id (nlru_remove i c) = next_id c"
    "max_entries (nlru_remove i c) = max_entries c"
proof -
  obtain ids where ids: "label_id_set_map c l = Some ids" "i \<in> set ids" "distinct ids"
    and e: "nlru_remove i c = c\<lparr>label_id_set_map := (label_id_set_map c)(l := (if remove1 i ids = [] then None else Some (remove1 i ids))),
       item_list_size := length (item_list c) - 1,
       item_list := filter (\<lambda>e. fst e \<noteq> i) (item_list c),
       item_list_map := (item_list_map c)(i := None),
       id_label_map := (id_label_map c)(i := None)\<rparr>"
    by (rule nlru_remove_eq [OF assms])
  have d: "distinct (map fst (item_list c))" "i \<in> fst ` set (item_list c)"
    using assms by (auto simp: nlru_inv_def)
  have len: "length (filter (\<lambda>e. fst e \<noteq> i) (item_list c)) = length (item_list c) - 1"
    by (rule filter_key_length [OF d])
  have keys: "fst ` set (filter (\<lambda>e. fst e \<noteq> i) (item_list c)) = fst ` set (item_list c) - {i}" by auto
  have dist: "distinct (map fst (filter (\<lambda>e. fst e \<noteq> i) (item_list c)))"
    by (rule distinct_map_filter [OF d(1)])
  define ls where "ls = (label_id_set_map c)(l := (if remove1 i ids = [] then None else Some (remove1 i ids)))"
  define il where "il = (id_label_map c)(i := None)"
  have ok: "label_ok (label_id_set_map c l') (id_label_map c) l'" for l'
    using assms(1) by (simp add: nlru_inv_def)
  have sets: "label_ok (ls l') il l'" for l'
  proof (cases "l' = l")
    case True
    have "\<forall>j. (j \<in> set ids) = (id_label_map c j = Some l)"
      using ok [of l] ids(1) by (simp add: label_ok_def)
    then have "\<forall>j. (j \<in> set (remove1 i ids)) = (il j = Some l)"
      using ids(3) by (auto simp: il_def)
    moreover have "distinct (remove1 i ids)" using ids(3) by simp
    ultimately show ?thesis
      using True by (cases "remove1 i ids") (auto simp: ls_def label_ok_def)
  next
    case False
    then show ?thesis
      using ok [of l'] assms(2) by (auto simp: ls_def il_def label_ok_def split: option.splits)
  qed
  have rest: "\<forall>j. item_list_map c j = (if j \<in> fst ` set (item_list c) then Some j else None)"
    "\<forall>j. (id_label_map c j \<noteq> None) = (j \<in> fst ` set (item_list c))"
    "length (item_list c) < 2 ^ 63" "\<forall>j \<in> fst ` set (item_list c). j < next_id c" "max_entries c < 2 ^ 32"
    using assms(1) by (simp_all add: nlru_inv_def)
  have f: "label_id_set_map (nlru_remove i c) = ls" "id_label_map (nlru_remove i c) = il"
    "item_list (nlru_remove i c) = filter (\<lambda>e. fst e \<noteq> i) (item_list c)"
    "item_list_map (nlru_remove i c) = (item_list_map c)(i := None)"
    "item_list_size (nlru_remove i c) = length (item_list c) - 1"
    "next_id (nlru_remove i c) = next_id c" "max_entries (nlru_remove i c) = max_entries c"
    by (simp_all add: e ls_def il_def)
  have idx: "\<forall>j. ((item_list_map c)(i := None)) j = (if j \<in> fst ` set (item_list c) - {i} then Some j else None)"
    "\<forall>j. (il j \<noteq> None) = (j \<in> fst ` set (item_list c) - {i})"
    using rest(1,2) by (auto simp: il_def)
  show "nlru_inv (nlru_remove i c)"
    unfolding nlru_inv_def f keys
  proof (intro conjI)
    show "length (item_list c) - 1 = length (filter (\<lambda>e. fst e \<noteq> i) (item_list c))" using len by simp
    show "length (filter (\<lambda>e. fst e \<noteq> i) (item_list c)) < 2 ^ 63"
      unfolding len using rest(3) by (rule le_less_trans [OF diff_le_self])
    show "\<forall>l. label_ok (ls l) il l" using sets by blast
    show "\<forall>j \<in> fst ` set (item_list c) - {i}. j < next_id c" using rest(4) by blast
  qed (rule dist idx rest)+
  have "map (\<lambda>(j, x). (j, the (((id_label_map c)(i := None)) j), x)) (filter (\<lambda>e. fst e \<noteq> i) xs) =
      filter (\<lambda>e. fst e \<noteq> i) (map (\<lambda>(j, x). (j, the (id_label_map c j), x)) xs)" for xs
    by (induction xs) auto
  then show "nlru_abs (nlru_remove i c) = filter (\<lambda>e. fst e \<noteq> i) (nlru_abs c)"
    by (simp add: nlru_abs_def e)
  show "deleted (nlru_remove i c) = deleted c" "next_id (nlru_remove i c) = next_id c"
    "max_entries (nlru_remove i c) = max_entries c"
    by (simp_all add: e)
qed


section \<open>Refinement\<close>

text \<open>Eviction drops the least recent item, and only tells the callback about that one.\<close>

lemma nlru_evict_spec:
  assumes "nlru_inv c" "item_list c \<noteq> []"
  shows "nlru_inv (nlru_evict c)" "nlru_abs (nlru_evict c) = butlast (nlru_abs c)"
    "deleted (nlru_evict c) = deleted c @ [snd (snd (last (nlru_abs c)))]"
    "next_id (nlru_evict c) = next_id c" "max_entries (nlru_evict c) = max_entries c"
proof -
  let ?c = "c\<lparr>deleted := deleted c @ [snd (last (item_list c))]\<rparr>" and ?i = "fst (last (item_list c))"
  have inv: "nlru_inv ?c" using assms(1) by (simp add: nlru_inv_def)
  have "?i \<in> fst ` set (item_list c)" using assms(2) by simp
  moreover have "\<forall>j. (id_label_map c j \<noteq> None) = (j \<in> fst ` set (item_list c))"
    using assms(1) by (simp add: nlru_inv_def)
  ultimately have "id_label_map c ?i \<noteq> None" by blast
  then obtain l where l: "id_label_map ?c ?i = Some l" by auto
  note R = nlru_remove_inv [OF inv l]
  have e: "nlru_evict c = nlru_remove ?i ?c" using assms(2) by (simp add: nlru_evict_def)
  show "nlru_inv (nlru_evict c)" "next_id (nlru_evict c) = next_id c" "max_entries (nlru_evict c) = max_entries c"
    using R by (simp_all add: e)
  have ne: "nlru_abs c \<noteq> []" using assms(2) by (simp add: nlru_abs_def)
  have la: "fst (last (nlru_abs c)) = ?i" "snd (snd (last (nlru_abs c))) = snd (last (item_list c))"
    using assms(2) by (simp_all add: nlru_abs_def last_map split: prod.split)
  have keys: "map fst (nlru_abs c) = map fst (item_list c)" by (simp add: nlru_abs_def comp_def split_beta)
  have d: "distinct (map fst (nlru_abs c))" using assms(1) by (simp add: keys nlru_inv_def)
  have "filter (\<lambda>e. fst e \<noteq> ?i) (nlru_abs c) = butlast (nlru_abs c)"
  proof -
    have s: "nlru_abs c = butlast (nlru_abs c) @ [last (nlru_abs c)]" using ne by simp
    have "?i \<notin> set (map fst (butlast (nlru_abs c)))"
    proof -
      have eq: "map fst (nlru_abs c) = map fst (butlast (nlru_abs c)) @ [?i]"
        using arg_cong [OF s, of "map fst"] by (simp only: map_append list.map la(1))
      show ?thesis using d unfolding eq by simp
    qed
    then have "filter (\<lambda>e. fst e \<noteq> ?i) (butlast (nlru_abs c)) = butlast (nlru_abs c)"
      by (intro filter_True) (auto simp: image_iff)
    moreover have "filter (\<lambda>e. fst e \<noteq> ?i) [last (nlru_abs c)] = []" using la(1) by simp
    ultimately show ?thesis using s by (metis append_Nil2 filter_append)
  qed
  moreover have "nlru_abs ?c = nlru_abs c" by (simp add: nlru_abs_def)
  ultimately show "nlru_abs (nlru_evict c) = butlast (nlru_abs c)" using R(2) by (simp add: e)
  show "deleted (nlru_evict c) = deleted c @ [snd (snd (last (nlru_abs c)))]"
    using R(3) la(2) by (simp add: e)
qed

lemma nlru_new_fields:
  "next_id (nlru_new n) = 0" "nlru_abs (nlru_new n) = []" "max_entries (nlru_new n) = n"
  by (simp_all add: nlru_new_def nlru_abs_def)

text \<open>The insertion before the size check.\<close>

definition nlru_push :: "string \<Rightarrow> 'a \<Rightarrow> 'a nlru \<Rightarrow> 'a nlru" where
  "nlru_push l x c =
     c\<lparr>next_id := u64 (next_id c + 1),
       item_list_size := u64 (item_list_size c + 1),
       item_list := (next_id c, x) # item_list c,
       label_id_set_map := (label_id_set_map c)(l := Some (case label_id_set_map c l of
           None \<Rightarrow> [next_id c] | Some ids \<Rightarrow> List.insert (next_id c) ids)),
       item_list_map := (item_list_map c)(next_id c := Some (next_id c)),
       id_label_map := (id_label_map c)(next_id c := Some l)\<rparr>"

lemma nlru_insert_push:
  "nlru_insert l x c = (next_id c,
     if item_list_size (nlru_push l x c) > max_entries c then nlru_evict (nlru_push l x c) else nlru_push l x c)"
  by (simp add: nlru_insert_def nlru_push_def Let_def)

lemma nlru_push_spec:
  assumes "nlru_inv c" "next_id c + 1 < 2 ^ 64" "length (item_list c) + 1 < 2 ^ 63"
  shows "nlru_inv (nlru_push l x c)" "nlru_abs (nlru_push l x c) = (next_id c, l, x) # nlru_abs c"
    "item_list_size (nlru_push l x c) = Suc (length (nlru_abs c))"
proof -
  let ?i = "next_id c"
  have rest: "distinct (map fst (item_list c))" "item_list_size c = length (item_list c)"
    "\<forall>j. item_list_map c j = (if j \<in> fst ` set (item_list c) then Some j else None)"
    "\<forall>j. (id_label_map c j \<noteq> None) = (j \<in> fst ` set (item_list c))"
    "\<forall>j \<in> fst ` set (item_list c). j < ?i" "max_entries c < 2 ^ 32"
    using assms(1) by (simp_all add: nlru_inv_def)
  have fresh: "?i \<notin> fst ` set (item_list c)" using rest(5) by blast
  then have nl: "id_label_map c ?i = None" using rest(4) by blast
  have ok: "label_ok (label_id_set_map c l') (id_label_map c) l'" for l'
    using assms(1) by (simp add: nlru_inv_def)
  have sets: "label_ok (label_id_set_map (nlru_push l x c) l') (id_label_map (nlru_push l x c)) l'" for l'
  proof (cases "l' = l")
    case True
    then show ?thesis
      using ok [of l] nl
      by (cases "label_id_set_map c l") (auto simp: nlru_push_def label_ok_def)
  next
    case False
    have "(id_label_map (nlru_push l x c) j = Some l') = (id_label_map c j = Some l')" for j
      using False nl by (simp add: nlru_push_def)
    moreover have "label_id_set_map (nlru_push l x c) l' = label_id_set_map c l'"
      using False by (simp add: nlru_push_def)
    ultimately show ?thesis
      using ok [of l'] by (cases "label_id_set_map c l'") (simp_all add: label_ok_def)
  qed
  have sz: "u64 (item_list_size c + 1) = Suc (length (item_list c))" "u64 (?i + 1) = Suc ?i"
    using assms(2,3) rest(2) by (simp_all add: u64_id)
  show "nlru_inv (nlru_push l x c)"
    unfolding nlru_inv_def
  proof (intro conjI)
    show "\<forall>l'. label_ok (label_id_set_map (nlru_push l x c) l') (id_label_map (nlru_push l x c)) l'"
      using sets by blast
    show "distinct (map fst (item_list (nlru_push l x c)))"
      using rest(1) fresh by (simp add: nlru_push_def)
    show "item_list_size (nlru_push l x c) = length (item_list (nlru_push l x c))"
      using sz by (simp add: nlru_push_def)
    show "length (item_list (nlru_push l x c)) < 2 ^ 63" using assms(3) by (simp add: nlru_push_def)
    show "\<forall>i. item_list_map (nlru_push l x c) i =
        (if i \<in> fst ` set (item_list (nlru_push l x c)) then Some i else None)"
      using rest(3) by (simp add: nlru_push_def)
    show "\<forall>i. (id_label_map (nlru_push l x c) i \<noteq> None) = (i \<in> fst ` set (item_list (nlru_push l x c)))"
      using rest(4) by (simp add: nlru_push_def)
    show "\<forall>i \<in> fst ` set (item_list (nlru_push l x c)). i < next_id (nlru_push l x c)"
      using rest(5) sz by (auto simp: nlru_push_def less_Suc_eq)
    show "max_entries (nlru_push l x c) < 2 ^ 32" using rest(6) by (simp add: nlru_push_def)
  qed
  have "map (\<lambda>(j, y). (j, the (((id_label_map c)(?i \<mapsto> l)) j), y)) (item_list c) = nlru_abs c"
    unfolding nlru_abs_def using fresh by (intro map_cong) (auto simp: image_iff)
  then show "nlru_abs (nlru_push l x c) = (?i, l, x) # nlru_abs c"
    by (simp add: nlru_abs_def nlru_push_def)
  show "item_list_size (nlru_push l x c) = Suc (length (nlru_abs c))"
    using sz by (simp add: nlru_push_def nlru_abs_def)
qed

lemma nlru_inv_size: "nlru_inv c \<Longrightarrow> nlru_size c = length (nlru_abs c)"
  by (simp add: nlru_inv_def nlru_size_def nlru_abs_def)

section \<open>Properties\<close>

text \<open>
  C23: inserting into the cache, seen as a list of labelled items with the most recent
  first, puts the item in front under a fresh id; when that makes the list longer than
  the bound, exactly the least recent item leaves and the delete callback is called on it
  alone.  The four indexes stay consistent.
\<close>

theorem nlru_insert_refines:
  assumes "nlru_inv c" "next_id c + 1 < 2 ^ 64" "length (nlru_abs c) \<le> max_entries c"
  shows "nlru_inv (snd (nlru_insert l x c)) \<and>
    (let full = (next_id c, l, x) # nlru_abs c in
     nlru_abs (snd (nlru_insert l x c)) = (if length full > max_entries c then butlast full else full) \<and>
     deleted (snd (nlru_insert l x c)) =
       (if length full > max_entries c then deleted c @ [snd (snd (last full))] else deleted c) \<and>
     nlru_size (snd (nlru_insert l x c)) \<le> max_entries c)"
proof -
  have b: "length (item_list c) + 1 < 2 ^ 63"
    using assms(1,3) by (auto simp: nlru_inv_def nlru_abs_def)
  note P = nlru_push_spec [OF assms(1,2) b, of l x]
  have ne: "item_list (nlru_push l x c) \<noteq> []" and dl: "deleted (nlru_push l x c) = deleted c"
    by (simp_all add: nlru_push_def)
  note E = nlru_evict_spec [OF P(1) ne]
  show ?thesis
  proof (cases "Suc (length (nlru_abs c)) > max_entries c")
    case True
    then have i: "snd (nlru_insert l x c) = nlru_evict (nlru_push l x c)"
      using P(3) by (simp add: nlru_insert_push)
    have "length (butlast ((next_id c, l, x) # nlru_abs c)) = length (nlru_abs c)" by simp
    then show ?thesis
      unfolding i using True E P(2) dl nlru_inv_size [OF E(1)] assms(3) by (simp del: butlast.simps last.simps)
  next
    case False
    then have i: "snd (nlru_insert l x c) = nlru_push l x c"
      using P(3) by (simp add: nlru_insert_push)
    show ?thesis unfolding i using False P dl nlru_inv_size [OF P(1)] by simp
  qed
qed

theorem nlru_insert_refines_witness:
  "nlru_abs (snd (nlru_insert ''a'' True (nlru_new 1))) = [(0, ''a'', True)] \<and>
   nlru_size (snd (nlru_insert ''a'' True (nlru_new 1))) \<le> 1"
  using nlru_insert_refines [of "nlru_new 1" "''a''" True]
  by (simp add: nlru_new_fields)

lemma nlru_abs_mem:
  assumes "nlru_inv c"
  shows "(i, l, x) \<in> set (nlru_abs c) \<longleftrightarrow> map_of (item_list c) i = Some x \<and> id_label_map c i = Some l"
proof -
  have "distinct (map fst (item_list c))" "\<forall>j. (id_label_map c j \<noteq> None) = (j \<in> fst ` set (item_list c))"
    using assms by (simp_all add: nlru_inv_def)
  then show ?thesis by (force simp: nlru_abs_def map_of_eq_Some_iff)
qed

text \<open>
  C24: \<^verbatim>\<open>get\<close> returns an item with the label asked for and takes exactly that item out;
  it returns nothing, and changes nothing, exactly when no item has the label.
\<close>

theorem nlru_get_refines:
  assumes "nlru_inv c" "\<And>ids. ids \<noteq> [] \<Longrightarrow> pick ids \<in> set ids"
  shows "nlru_inv (snd (nlru_get pick l c)) \<and>
    (if \<exists>i x. (i, l, x) \<in> set (nlru_abs c)
     then \<exists>i x. (i, l, x) \<in> set (nlru_abs c) \<and> fst (nlru_get pick l c) = Some x \<and>
       nlru_abs (snd (nlru_get pick l c)) = filter (\<lambda>e. fst e \<noteq> i) (nlru_abs c)
     else nlru_get pick l c = (None, c))"
proof (cases "label_id_set_map c l")
  case None
  then have "label_ok None (id_label_map c) l" using assms(1) by (metis nlru_inv_def)
  then have "\<not> (\<exists>i x. (i, l, x) \<in> set (nlru_abs c))"
    using nlru_abs_mem [OF assms(1)] by (simp add: label_ok_def)
  then show ?thesis using None assms(1) by (simp add: nlru_get_def)
next
  case (Some ids)
  then have ok: "label_ok (Some ids) (id_label_map c) l" using assms(1) by (metis nlru_inv_def)
  let ?i = "pick ids"
  have i: "ids \<noteq> []" "id_label_map c ?i = Some l"
    using ok assms(2) by (auto simp: label_ok_def)
  then have k: "?i \<in> fst ` set (item_list c)" "item_list_map c ?i = Some ?i"
    using assms(1) by (auto simp: nlru_inv_def)
  then obtain x where x: "map_of (item_list c) ?i = Some x"
    by (metis map_of_eq_None_iff not_None_eq)
  have m: "(?i, l, x) \<in> set (nlru_abs c)" using nlru_abs_mem [OF assms(1)] x i by simp
  have g: "nlru_get pick l c = (Some x, nlru_remove ?i c)"
    using Some i(1) k(2) x by (simp add: nlru_get_def)
  show ?thesis
    unfolding g using m nlru_remove_inv(1,2) [OF assms(1) i(2)] by auto
qed

theorem nlru_get_refines_witness:
  "nlru_get hd ''z'' (nlru_new 2 :: bool nlru) = (None, nlru_new 2)"
proof -
  have "\<not> (\<exists>i x. (i, ''z'', x) \<in> set (nlru_abs (nlru_new 2 :: bool nlru)))"
    by (simp add: nlru_abs_def nlru_new_def)
  then show ?thesis
    using nlru_get_refines [of "nlru_new 2 :: bool nlru" hd "''z''"] by simp
qed

end
