(* ===== verification/Containers.thy ===== *)
theory Containers
  imports Prelude
begin

text \<open>
  Two containers of \<^verbatim>\<open>src/core/support\<close>: the ring of \<^verbatim>\<open>circular_vector.h\<close> and the
  object pool of \<^verbatim>\<open>obj_pool.h\<close>.
\<close>

section \<open>The circular vector\<close>

record 'a circular_vector =
  cv_vector :: "'a list"
  cv_max_size :: int
  cv_cur_index :: int
  cv_start_index :: int

definition cv_new :: "int \<Rightarrow> 'a circular_vector" where
  "cv_new m = \<lparr>cv_vector = [], cv_max_size = m, cv_cur_index = -1, cv_start_index = 0\<rparr>"

text \<open>\<^term>\<open>None\<close> is an access outside the vector.\<close>

definition get_obj :: "nat \<Rightarrow> 'a circular_vector \<Rightarrow> 'a option" where
  "get_obj i c =
     (let n = length (cv_vector c); j = (if i \<ge> n then i - n else i)
      in if j < n then Some (cv_vector c ! j) else None)"

definition add_obj :: "'a \<Rightarrow> 'a circular_vector \<Rightarrow> 'a circular_vector option" where
  "add_obj x c =
     (let cur = cv_cur_index c + 1 in
      if cv_max_size c = -1
      then Some (c\<lparr>cv_cur_index := cur, cv_vector := cv_vector c @ [x]\<rparr>)
      else (let cur = (if cur \<ge> cv_max_size c then 0 else cur) in
        if length (cv_vector c) < nat (cur + 1)
        then Some (c\<lparr>cv_cur_index := cur, cv_vector := cv_vector c @ [x]\<rparr>)
        else if 0 \<le> cur \<and> nat cur < length (cv_vector c)
        then Some (c\<lparr>cv_cur_index := cur, cv_vector := (cv_vector c)[nat cur := x],
               cv_start_index := (if cur + 1 \<ge> cv_max_size c then 0 else cur + 1)\<rparr>)
        else None))"

definition get_distance_to_cur_index :: "nat \<Rightarrow> 'a circular_vector \<Rightarrow> nat" where
  "get_distance_to_cur_index i c =
     (if cv_cur_index c < 0 then 0
      else if nat (cv_cur_index c) < i
           then u32_of_int (int (length (cv_vector c)) - int i + cv_cur_index c)
           else nat (cv_cur_index c) - i)"

text \<open>The elements from the oldest to the newest.\<close>

definition cv_window :: "'a circular_vector \<Rightarrow> 'a list" where
  "cv_window c = drop (nat (cv_start_index c)) (cv_vector c) @ take (nat (cv_start_index c)) (cv_vector c)"

definition cv_inv :: "nat \<Rightarrow> 'a circular_vector \<Rightarrow> bool" where
  "cv_inv m c \<longleftrightarrow> 0 < m \<and> m < 2 ^ 31 \<and> cv_max_size c = int m \<and>
     (length (cv_vector c) < m \<and> cv_cur_index c = int (length (cv_vector c)) - 1 \<and> cv_start_index c = 0 \<or>
      length (cv_vector c) = m \<and> 0 \<le> cv_cur_index c \<and> cv_cur_index c < int m \<and>
        cv_start_index c = (cv_cur_index c + 1) mod int m)"

lemma cv_new_inv: "0 < m \<Longrightarrow> m < 2 ^ 31 \<Longrightarrow> cv_inv m (cv_new (int m))"
  by (simp add: cv_inv_def cv_new_def)

lemma add_obj_grow:
  assumes "cv_inv m c" "length (cv_vector c) < m"
  shows "\<exists>c'. add_obj x c = Some c' \<and> cv_inv m c' \<and> cv_window c' = cv_window c @ [x] \<and>
    length (cv_vector c') = Suc (length (cv_vector c))"
proof -
  let ?n = "length (cv_vector c)"
  let ?c = "c\<lparr>cv_cur_index := int ?n, cv_vector := cv_vector c @ [x]\<rparr>"
  have f: "cv_max_size c = int m" "cv_cur_index c = int ?n - 1" "cv_start_index c = 0" "0 < m" "m < 2 ^ 31"
    using assms by (auto simp: cv_inv_def)
  have "add_obj x c = Some ?c"
    using f assms(2) by (simp add: add_obj_def Let_def nat_add_distrib)
  moreover have "cv_inv m ?c"
  proof (cases "Suc ?n < m")
    case False
    then have "int ?n + 1 = int m" using assms(2) by simp
    then show ?thesis using f assms(2) by (simp add: cv_inv_def)
  qed (use f in \<open>simp add: cv_inv_def\<close>)
  ultimately show ?thesis using f by (simp add: cv_window_def)
qed

lemma add_obj_wrap:
  assumes "cv_inv m c" "length (cv_vector c) = m"
  shows "\<exists>c'. add_obj x c = Some c' \<and> cv_inv m c' \<and> cv_window c' = tl (cv_window c) @ [x] \<and>
    length (cv_vector c') = m"
proof -
  define s where "s = nat (cv_start_index c)"
  have f: "cv_max_size c = int m" "0 \<le> cv_cur_index c" "cv_cur_index c < int m" "0 < m" "m < 2 ^ 31"
    "cv_start_index c = (cv_cur_index c + 1) mod int m"
    using assms by (auto simp: cv_inv_def)
  have sm: "s < m" "cv_start_index c = int s" using f by (simp_all add: s_def nat_less_iff)
  have cur: "(if cv_cur_index c + 1 \<ge> int m then 0 else cv_cur_index c + 1) = int s"
  proof (cases "cv_cur_index c + 1 = int m")
    case True
    then show ?thesis using f sm(2) by simp
  next
    case False
    then have "(cv_cur_index c + 1) mod int m = cv_cur_index c + 1"
      using f by (intro mod_pos_pos_trivial) auto
    then show ?thesis using f sm(2) False by auto
  qed
  let ?c = "c\<lparr>cv_cur_index := int s, cv_vector := (cv_vector c)[s := x],
    cv_start_index := (if int s + 1 \<ge> int m then 0 else int s + 1)\<rparr>"
  have a: "add_obj x c = Some ?c"
    using f(1,4) assms(2) sm cur unfolding add_obj_def Let_def by auto
  have i: "cv_inv m ?c"
  proof (cases "int s + 1 = int m")
    case True
    then show ?thesis using f(1,4,5) assms(2) sm(1) by (simp add: cv_inv_def)
  next
    case False
    then have "(int s + 1) mod int m = int s + 1" using sm(1) by (intro mod_pos_pos_trivial) auto
    then show ?thesis using False f(1,4,5) assms(2) sm(1) by (simp add: cv_inv_def)
  qed
  have d: "drop s (cv_vector c) = cv_vector c ! s # drop (Suc s) (cv_vector c)"
    using sm(1) assms(2) by (simp add: Cons_nth_drop_Suc)
  have "cv_window ?c = tl (cv_window c) @ [x]"
  proof (cases "Suc s = m")
    case True
    then have e: "(cv_vector c)[s := x] = take s (cv_vector c) @ [x]"
      using sm(1) assms(2) by (simp add: upd_conv_take_nth_drop)
    have "int s + 1 \<ge> int m" using True by simp
    then show ?thesis using d e True assms(2) sm(2) by (simp add: cv_window_def s_def [symmetric])
  next
    case False
    then have n: "nat (int s + 1) = Suc s" "\<not> int s + 1 \<ge> int m" using sm(1) by auto
    have "take (Suc s) ((cv_vector c)[s := x]) = take s (cv_vector c) @ [x]"
      using sm(1) assms(2) by (simp add: take_Suc_conv_app_nth)
    then show ?thesis using d n sm(2) by (simp add: cv_window_def s_def [symmetric])
  qed
  then show ?thesis using a i assms(2) by simp
qed

fun add_objs :: "'a list \<Rightarrow> 'a circular_vector \<Rightarrow> 'a circular_vector option" where
  "add_objs [] c = Some c"
| "add_objs (x # xs) c = do { c1 \<leftarrow> add_obj x c; add_objs xs c1 }"

lemma length_window [simp]: "length (cv_window c) = length (cv_vector c)"
  by (simp add: cv_window_def)

lemma add_objs_window:
  assumes "cv_inv m c" "cv_window c = drop (length ys - m) ys" "length (cv_vector c) = min m (length ys)"
  shows "\<exists>c'. add_objs xs c = Some c' \<and> cv_inv m c' \<and>
    cv_window c' = drop (length (ys @ xs) - m) (ys @ xs) \<and>
    length (cv_vector c') = min m (length (ys @ xs))"
  using assms
proof (induction xs arbitrary: c ys)
  case (Cons x xs)
  have m: "0 < m" using Cons.prems(1) by (simp add: cv_inv_def)
  have "\<exists>c1. add_obj x c = Some c1 \<and> cv_inv m c1 \<and>
      cv_window c1 = drop (length (ys @ [x]) - m) (ys @ [x]) \<and>
      length (cv_vector c1) = min m (length (ys @ [x]))"
  proof (cases "length ys < m")
    case True
    then show ?thesis
      using add_obj_grow [OF Cons.prems(1), of x] Cons.prems(2,3) by force
  next
    case False
    then have "tl (cv_window c) = drop (Suc (length ys) - m) ys"
      using Cons.prems(2) by (simp add: tl_drop Suc_diff_le drop_Suc)
    then show ?thesis
      using False m add_obj_wrap [OF Cons.prems(1), of x] Cons.prems(3) by (force simp: min_def)
  qed
  then obtain c1 where c1: "add_obj x c = Some c1" "cv_inv m c1"
    "cv_window c1 = drop (length (ys @ [x]) - m) (ys @ [x])"
    "length (cv_vector c1) = min m (length (ys @ [x]))" by blast
  from Cons.IH [OF c1(2,3,4)] c1(1) show ?case by simp
qed simp

section \<open>The object pool\<close>

text \<open>
  Objects are the values of the vector, an object's index is its place; the index sets
  are lists without repetition and \<open>pick\<close> is the element \<^verbatim>\<open>begin()\<close> yields.
\<close>

record 'a obj_pool =
  obj_vec :: "'a list"
  used_idx :: "nat list"
  free_idx :: "nat list"

definition pool_new :: "'a obj_pool" where
  "pool_new = \<lparr>obj_vec = [], used_idx = [], free_idx = []\<rparr>"

definition get_free :: "(nat list \<Rightarrow> nat) \<Rightarrow> 'a obj_pool \<Rightarrow> (nat \<times> 'a) option \<times> 'a obj_pool" where
  "get_free pick p =
     (if free_idx p \<noteq> []
      then let i = pick (free_idx p) in
        (Some (i, obj_vec p ! i), p\<lparr>free_idx := removeAll i (free_idx p), used_idx := List.insert i (used_idx p)\<rparr>)
      else (None, p))"

definition pool_add :: "'a \<Rightarrow> 'a obj_pool \<Rightarrow> nat \<times> 'a obj_pool" where
  "pool_add x p =
     (let i = length (obj_vec p)
      in (i, p\<lparr>obj_vec := obj_vec p @ [x], used_idx := List.insert i (used_idx p)\<rparr>))"

definition pool_release :: "nat \<Rightarrow> 'a obj_pool \<Rightarrow> 'a obj_pool" where
  "pool_release i p = p\<lparr>used_idx := removeAll i (used_idx p), free_idx := List.insert i (free_idx p)\<rparr>"

definition free_size :: "'a obj_pool \<Rightarrow> nat" where "free_size p = length (free_idx p)"
definition used_size :: "'a obj_pool \<Rightarrow> nat" where "used_size p = length (used_idx p)"

text \<open>Every object is either used or free, never both.\<close>

definition pool_inv :: "'a obj_pool \<Rightarrow> bool" where
  "pool_inv p \<longleftrightarrow> distinct (used_idx p) \<and> distinct (free_idx p) \<and>
     set (used_idx p) \<inter> set (free_idx p) = {} \<and>
     set (used_idx p) \<union> set (free_idx p) = {..<length (obj_vec p)}"

lemma pool_new_inv [simp]: "pool_inv pool_new"
  by (simp add: pool_inv_def pool_new_def)

lemma pool_add_inv: "pool_inv p \<Longrightarrow> pool_inv (snd (pool_add x p))"
  by (auto simp: pool_inv_def pool_add_def Let_def)

lemma pool_release_inv: "pool_inv p \<Longrightarrow> i < length (obj_vec p) \<Longrightarrow> pool_inv (pool_release i p)"
  by (auto simp: pool_inv_def pool_release_def distinct_removeAll)

lemma pool_sizes:
  assumes "pool_inv p"
  shows "used_size p + free_size p = length (obj_vec p)"
proof -
  have "card (set (used_idx p) \<union> set (free_idx p)) = card (set (used_idx p)) + card (set (free_idx p))"
    using assms by (intro card_Un_disjoint) (auto simp: pool_inv_def)
  then show ?thesis
    using assms by (simp add: pool_inv_def used_size_def free_size_def distinct_card)
qed

lemma get_free_inv:
  assumes "pool_inv p" "\<And>is. is \<noteq> [] \<Longrightarrow> pick is \<in> set is" "get_free pick p = (r, p')"
  shows "pool_inv p'" "obj_vec p' = obj_vec p"
    "r = None \<longleftrightarrow> free_size p = 0"
    "r = Some (i, x) \<Longrightarrow> i < length (obj_vec p) \<and> x = obj_vec p ! i \<and> i \<in> set (used_idx p') \<and> i \<notin> set (used_idx p)"
proof -
  show "obj_vec p' = obj_vec p" "r = None \<longleftrightarrow> free_size p = 0"
    using assms(3) by (auto simp: get_free_def Let_def free_size_def split: if_splits)
  have k: "pick (free_idx p) \<in> set (free_idx p)" if "free_idx p \<noteq> []" using assms(2) that by blast
  show "pool_inv p'"
  proof (cases "free_idx p = []")
    case True
    then show ?thesis using assms(1,3) by (simp add: get_free_def)
  next
    case False
    then have "p' = p\<lparr>free_idx := removeAll (pick (free_idx p)) (free_idx p),
        used_idx := List.insert (pick (free_idx p)) (used_idx p)\<rparr>"
      using assms(3) by (simp add: get_free_def Let_def)
    then show ?thesis using k [OF False] assms(1) by (auto simp: pool_inv_def distinct_removeAll)
  qed
  show "i < length (obj_vec p) \<and> x = obj_vec p ! i \<and> i \<in> set (used_idx p') \<and> i \<notin> set (used_idx p)"
    if "r = Some (i, x)"
    using assms(1,3) that k by (auto simp: get_free_def Let_def pool_inv_def split: if_splits)
qed

section \<open>Properties\<close>

text \<open>
  A bounded circular vector keeps the most recent \<open>m\<close> objects, oldest first from
  the start index, after any number of insertions, and never indexes outside its storage.
\<close>

theorem circular_vector_window:
  assumes "0 < m" "m < 2 ^ 31"
  shows "\<exists>c. add_objs xs (cv_new (int m)) = Some c \<and> cv_window c = drop (length xs - m) xs \<and>
    length (cv_vector c) = min m (length xs)"
  using add_objs_window [OF cv_new_inv [OF assms], of "[]" xs]
  by (auto simp: cv_new_def cv_window_def)

theorem circular_vector_window_witness:
  "\<exists>c. add_objs [1, 2, 3, 4, 5 :: nat] (cv_new (int 3)) = Some c \<and> cv_window c = [3, 4, 5]"
  using circular_vector_window [of 3 "[1, 2, 3, 4, 5 :: nat]"] by auto

text \<open>
  The pool never hands out an object that is in use.  An object it returns was free
  and is used afterwards, it returns none exactly when none is free, and used and free
  objects always make up the whole pool.
\<close>

theorem pool_get_free_exclusive:
  assumes "pool_inv p" "\<And>is. is \<noteq> [] \<Longrightarrow> pick is \<in> set is"
  shows "pool_inv (snd (get_free pick p)) \<and>
    (fst (get_free pick p) = None \<longleftrightarrow> free_size p = 0) \<and>
    used_size (snd (get_free pick p)) + free_size (snd (get_free pick p)) = length (obj_vec p) \<and>
    (case fst (get_free pick p) of None \<Rightarrow> True
     | Some (i, x) \<Rightarrow> x = obj_vec p ! i \<and> i < length (obj_vec p) \<and> i \<notin> set (used_idx p) \<and>
         i \<in> set (used_idx (snd (get_free pick p))))"
proof -
  obtain r p' where e: "get_free pick p = (r, p')" by fastforce
  note G = get_free_inv [OF assms e]
  show ?thesis using G pool_sizes [OF G(1)] unfolding e by (auto split: option.splits)
qed

theorem pool_get_free_exclusive_witness:
  "fst (get_free hd (pool_release 0 (snd (pool_add ''s'' pool_new)))) \<noteq> None"
proof -
  have "pool_inv (pool_release 0 (snd (pool_add ''s'' pool_new)))"
    by (intro pool_release_inv pool_add_inv pool_new_inv) (simp add: pool_add_def Let_def)
  moreover have "free_size (pool_release 0 (snd (pool_add ''s'' pool_new))) = 1"
    by (simp add: pool_release_def pool_add_def pool_new_def Let_def free_size_def)
  ultimately show ?thesis
    using pool_get_free_exclusive [of "pool_release 0 (snd (pool_add ''s'' pool_new))" hd] by simp
qed

end
