(* ===== verification/Time_Util.thy ===== *)
theory Time_Util
  imports Prelude
begin

text \<open>
  The cached clocks of \<^verbatim>\<open>src/core/support/time_util.cc\<close>.  The cycle counter and the
  real-time clock are parameters: \<open>tsc k\<close> and \<open>rt k\<close> are what the \<open>k\<close>-th reading of
  either yields; the thread's variables and the number of readings are the state.
\<close>

record time_cache =
  g_last_s_rdtsc :: nat
  g_last_s :: nat
  g_last_ms_rdtsc :: nat
  g_last_ms :: nat
  g_last_us_rdtsc :: nat
  g_last_us :: nat
  g_cyles_us :: nat
  readings :: nat

definition time_cache_new :: time_cache where
  "time_cache_new = \<lparr>g_last_s_rdtsc = 0, g_last_s = 0, g_last_ms_rdtsc = 0, g_last_ms = 0,
     g_last_us_rdtsc = 0, g_last_us = 0, g_cyles_us = 0, readings = 0\<rparr>"

definition MAX_TIMER_RESOLUTION_US :: nat where "MAX_TIMER_RESOLUTION_US = 10"

text \<open>A clock reading is seconds and nanoseconds.\<close>

definition ts_s :: "nat \<times> nat \<Rightarrow> nat" where "ts_s t = u64 (fst t)"
definition ts_ms :: "nat \<times> nat \<Rightarrow> nat" where "ts_ms t = u64 (fst t * 1000 + snd t div 1000000)"
definition ts_us :: "nat \<times> nat \<Rightarrow> nat" where "ts_us t = u64 (fst t * 1000000 + snd t div 1000)"

text \<open>
  \<^verbatim>\<open>_use_cached_time\<close>: calibration on the first call, then whether the last reading is
  young enough; the counter value to remember otherwise.
\<close>

definition use_cached_time :: "(nat \<Rightarrow> nat) \<Rightarrow> nat \<Rightarrow> time_cache \<Rightarrow> bool \<times> nat \<times> time_cache" where
  "use_cached_time tsc l c =
     (let c1 = (if g_cyles_us c = 0
                then c\<lparr>g_cyles_us := sub64 (tsc (Suc (readings c))) (tsc (readings c)) div 100000,
                       readings := readings c + 2\<rparr>
                else c);
          k = readings c1
      in if sub64 (tsc k) l < u64 (MAX_TIMER_RESOLUTION_US * g_cyles_us c1)
         then (True, l, c1\<lparr>readings := Suc k\<rparr>)
         else (False, tsc (Suc k), c1\<lparr>readings := Suc (Suc k)\<rparr>))"

definition get_time_s :: "(nat \<Rightarrow> nat) \<Rightarrow> (nat \<Rightarrow> nat \<times> nat) \<Rightarrow> time_cache \<Rightarrow> nat \<times> time_cache" where
  "get_time_s tsc rt c =
     (case use_cached_time tsc (g_last_s_rdtsc c) c of (hit, l, c1) \<Rightarrow>
        let c2 = c1\<lparr>g_last_s_rdtsc := l\<rparr> in
        if hit \<and> g_last_s c2 \<noteq> 0 then (g_last_s c2, c2)
        else let v = ts_s (rt (readings c2)) in (v, c2\<lparr>g_last_s := v, readings := Suc (readings c2)\<rparr>))"

definition get_time_ms :: "(nat \<Rightarrow> nat) \<Rightarrow> (nat \<Rightarrow> nat \<times> nat) \<Rightarrow> time_cache \<Rightarrow> nat \<times> time_cache" where
  "get_time_ms tsc rt c =
     (case use_cached_time tsc (g_last_ms_rdtsc c) c of (hit, l, c1) \<Rightarrow>
        let c2 = c1\<lparr>g_last_ms_rdtsc := l\<rparr> in
        if hit \<and> g_last_ms c2 \<noteq> 0 then (g_last_ms c2, c2)
        else let v = ts_ms (rt (readings c2)) in (v, c2\<lparr>g_last_ms := v, readings := Suc (readings c2)\<rparr>))"

definition get_time_us :: "(nat \<Rightarrow> nat) \<Rightarrow> (nat \<Rightarrow> nat \<times> nat) \<Rightarrow> time_cache \<Rightarrow> nat \<times> time_cache" where
  "get_time_us tsc rt c =
     (case use_cached_time tsc (g_last_us_rdtsc c) c of (hit, l, c1) \<Rightarrow>
        let c2 = c1\<lparr>g_last_us_rdtsc := l\<rparr> in
        if hit \<and> g_last_us c2 \<noteq> 0 then (g_last_us c2, c2)
        else let v = ts_us (rt (readings c2)) in (v, c2\<lparr>g_last_us := v, readings := Suc (readings c2)\<rparr>))"

definition get_delta_time_ms :: "(nat \<Rightarrow> nat) \<Rightarrow> (nat \<Rightarrow> nat \<times> nat) \<Rightarrow> nat \<Rightarrow> time_cache \<Rightarrow> nat \<times> time_cache" where
  "get_delta_time_ms tsc rt start c = (case get_time_ms tsc rt c of (v, c1) \<Rightarrow> (sub64 v start, c1))"

definition get_delta_time_us :: "(nat \<Rightarrow> nat) \<Rightarrow> (nat \<Rightarrow> nat \<times> nat) \<Rightarrow> nat \<Rightarrow> time_cache \<Rightarrow> nat \<times> time_cache" where
  "get_delta_time_us tsc rt start c = (case get_time_us tsc rt c of (v, c1) \<Rightarrow> (sub64 v start, c1))"

section \<open>The millisecond clock does not run backwards\<close>

lemma use_cached_time_frame:
  assumes "use_cached_time tsc l c = (hit, last', c1)"
  shows "g_last_ms c1 = g_last_ms c" "readings c \<le> readings c1"
  using assms by (auto simp: use_cached_time_def Let_def split: if_splits)

text \<open>Any number of calls, one after the other.\<close>

fun times_ms :: "(nat \<Rightarrow> nat) \<Rightarrow> (nat \<Rightarrow> nat \<times> nat) \<Rightarrow> nat \<Rightarrow> time_cache \<Rightarrow> nat list" where
  "times_ms tsc rt 0 c = []"
| "times_ms tsc rt (Suc n) c = (case get_time_ms tsc rt c of (v, c1) \<Rightarrow> v # times_ms tsc rt n c1)"

lemma get_time_ms_step:
  assumes "mono (\<lambda>k. ts_ms (rt k))" "g_last_ms c \<le> ts_ms (rt (readings c))"
    "get_time_ms tsc rt c = (v, c1)"
  shows "g_last_ms c \<le> v" "g_last_ms c1 = v" "v \<le> ts_ms (rt (readings c1))"
proof -
  obtain hit last' c0 where u: "use_cached_time tsc (g_last_ms_rdtsc c) c = (hit, last', c0)"
    using prod_cases3 by blast
  note F = use_cached_time_frame [OF u]
  have le: "g_last_ms c \<le> ts_ms (rt k)" if "readings c \<le> k" for k
    using assms(2) monoD [OF assms(1) that] by (rule le_trans)
  have up: "ts_ms (rt (readings c0)) \<le> ts_ms (rt (Suc (readings c0)))"
    using monoD [OF assms(1), of "readings c0" "Suc (readings c0)"] by simp
  show "g_last_ms c \<le> v" "g_last_ms c1 = v" "v \<le> ts_ms (rt (readings c1))"
    using assms(3) u F le up by (auto simp: get_time_ms_def Let_def split: if_splits)
qed

lemma times_ms_sorted:
  assumes "mono (\<lambda>k. ts_ms (rt k))" "g_last_ms c \<le> ts_ms (rt (readings c))"
  shows "sorted (times_ms tsc rt n c) \<and> (\<forall>t \<in> set (times_ms tsc rt n c). g_last_ms c \<le> t)"
  using assms(2)
proof (induction n arbitrary: c)
  case (Suc n)
  obtain v c1 where g: "get_time_ms tsc rt c = (v, c1)" by fastforce
  note S = get_time_ms_step [OF assms(1) Suc.prems g]
  have "g_last_ms c1 \<le> ts_ms (rt (readings c1))" using S by simp
  from Suc.IH [OF this] S show ?case by (auto simp: g)
qed simp

text \<open>
  with a clock that does not run backwards the cached millisecond clock never does
  either, whatever the cycle counter reads: the cache only ever repeats the last value.
\<close>

theorem get_time_ms_monotone:
  assumes "mono (\<lambda>k. ts_ms (rt k))"
  shows "sorted (times_ms tsc rt n time_cache_new)"
  using times_ms_sorted [OF assms, of time_cache_new tsc n] by (simp add: time_cache_new_def)

theorem get_time_ms_monotone_witness:
  "sorted (times_ms (\<lambda>k. 7 * k) (\<lambda>k. (5, 0)) 3 time_cache_new)"
  by (rule get_time_ms_monotone) (simp add: mono_def)

end
