(* ===== verification/Evr.thy ===== *)
theory Evr
  imports Prelude "HOL-Library.Monad_Syntax"
begin

unbundle bit_operations_syntax

text \<open>
  The event loop of \<^verbatim>\<open>src/core/evr/evr.{h,cc}\<close>: a priority queue of timers and the
  dispatch of descriptor events.  Objects the code allocates are the values of maps from
  addresses: \<open>ev_store\<close> holds the timer objects, \<open>fd_store\<close> the \<^verbatim>\<open>evr_fd_t\<close>
  objects; an address outside its map is freed memory and reading it is undefined
  (\<^term>\<open>None\<close>).  Callbacks are names of type \<open>'c\<close>; what they do is the parameter
  \<open>call\<close>, a function on the whole state, which a client extends by its own fields.  The
  clock is the parameter \<open>clk\<close>, read once per tick.  Of events with the same time the
  queue may have any on top: that is the parameter \<open>pick\<close>.
\<close>

section \<open>Constants\<close>

definition EVR_EVENT_FD_MAGIC :: nat where "EVR_EVENT_FD_MAGIC = 0xDEADF154"
definition EVR_EVENT_MAGIC :: nat where "EVR_EVENT_MAGIC = 0xDEADCAFE"
definition EVR_DEFAULT_TIME_WAIT_MS :: nat where "EVR_DEFAULT_TIME_WAIT_MS = 2 ^ 32 - 1"

definition EVR_FILE_ATTR_MASK_READ :: nat where "EVR_FILE_ATTR_MASK_READ = 1"
definition EVR_FILE_ATTR_MASK_WRITE :: nat where "EVR_FILE_ATTR_MASK_WRITE = 2"
definition EVR_FILE_ATTR_MASK_STATUS_ERROR :: nat where "EVR_FILE_ATTR_MASK_STATUS_ERROR = 4"
definition EVR_FILE_ATTR_MASK_RD_HUP :: nat where "EVR_FILE_ATTR_MASK_RD_HUP = 8"
definition EVR_FILE_ATTR_MASK_HUP :: nat where "EVR_FILE_ATTR_MASK_HUP = 16"
definition EVR_FILE_ATTR_MASK_ET :: nat where "EVR_FILE_ATTR_MASK_ET = 32"

lemmas attr_masks = EVR_FILE_ATTR_MASK_READ_def EVR_FILE_ATTR_MASK_WRITE_def
  EVR_FILE_ATTR_MASK_STATUS_ERROR_def EVR_FILE_ATTR_MASK_RD_HUP_def EVR_FILE_ATTR_MASK_HUP_def
  EVR_FILE_ATTR_MASK_ET_def

definition EVR_EV_IN :: nat where "EVR_EV_IN = 0x001"
definition EVR_EV_OUT :: nat where "EVR_EV_OUT = 0x004"
definition EVR_EV_ERR :: nat where "EVR_EV_ERR = 0x008"
definition EVR_EV_HUP :: nat where "EVR_EV_HUP = 0x010"
definition EVR_EV_RDHUP :: nat where "EVR_EV_RDHUP = 0x2000"

lemmas ev_masks = EVR_EV_IN_def EVR_EV_OUT_def EVR_EV_ERR_def EVR_EV_HUP_def EVR_EV_RDHUP_def

definition EVR_FILE_ATTR_VAL_READABLE :: nat where "EVR_FILE_ATTR_VAL_READABLE = 0x001D"
definition EVR_FILE_ATTR_VAL_WRITEABLE :: nat where "EVR_FILE_ATTR_VAL_WRITEABLE = 0x0002"
definition EVR_EV_VAL_READABLE :: nat where "EVR_EV_VAL_READABLE = 0x2019"
definition EVR_EV_VAL_WRITEABLE :: nat where "EVR_EV_VAL_WRITEABLE = 0x0004"

text \<open>\<open>msk & bits\<close> as a condition.\<close>

definition has_bits :: "nat \<Rightarrow> nat \<Rightarrow> bool" where
  "has_bits msk bits \<longleftrightarrow> msk AND bits \<noteq> 0"

section \<open>State\<close>

datatype evr_event_state = EVR_EVENT_ACTIVE | EVR_EVENT_CANCELLED
datatype evr_mode = EVR_MODE_NONE | EVR_MODE_READ | EVR_MODE_WRITE | EVR_MODE_TIMEOUT | EVR_MODE_ERROR

record 'c evr_event =
  ev_magic :: nat
  ev_time_ms :: nat
  ev_cb :: "'c option"
  ev_state :: evr_event_state
  ev_data :: nat

record 'c evr_fd =
  fd_magic :: nat
  fd_read_cb :: "'c option"
  fd_write_cb :: "'c option"
  fd_error_cb :: "'c option"
  fd_data :: nat
  fd_attr_mask :: nat

record 'c evr_loop =
  event_pq :: "nat list"
  ev_store :: "nat \<Rightarrow> 'c evr_event option"
  fd_store :: "nat \<Rightarrow> 'c evr_fd option"
  next_addr :: nat
  tick :: nat
  evr_stopped :: bool

type_synonym ('c, 'm) callbacks = "'c \<Rightarrow> nat \<Rightarrow> ('c, 'm) evr_loop_scheme \<Rightarrow> (int \<times> ('c, 'm) evr_loop_scheme) option"

definition now_ms :: "(nat \<Rightarrow> nat) \<Rightarrow> ('c, 'm) evr_loop_scheme \<Rightarrow> nat \<times> ('c, 'm) evr_loop_scheme" where
  "now_ms clk l = (clk (tick l), l\<lparr>tick := Suc (tick l)\<rparr>)"

section \<open>Timers\<close>

definition add_event ::
  "(nat \<Rightarrow> nat) \<Rightarrow> nat \<Rightarrow> 'c option \<Rightarrow> nat \<Rightarrow> ('c, 'm) evr_loop_scheme \<Rightarrow> int \<times> nat \<times> ('c, 'm) evr_loop_scheme" where
  "add_event clk time_ms cb data l =
     (case now_ms clk l of (now, l1) \<Rightarrow>
        let a = next_addr l1 in
        (STATUS_OK, a,
         l1\<lparr>ev_store := (ev_store l1)(a \<mapsto> \<lparr>ev_magic = EVR_EVENT_MAGIC, ev_time_ms = u64 (now + time_ms),
                  ev_cb = cb, ev_state = EVR_EVENT_ACTIVE, ev_data = data\<rparr>),
            next_addr := Suc a, event_pq := a # event_pq l1\<rparr>))"

text \<open>A null event is \<^term>\<open>None\<close> in the argument.\<close>

definition cancel_event :: "nat option \<Rightarrow> ('c, 'm) evr_loop_scheme \<Rightarrow> (int \<times> ('c, 'm) evr_loop_scheme) option" where
  "cancel_event e l =
     (case e of
        None \<Rightarrow> Some (STATUS_ERROR, l)
      | Some a \<Rightarrow>
          (case ev_store l a of
             None \<Rightarrow> None
           | Some ev \<Rightarrow> Some (STATUS_OK, l\<lparr>ev_store := (ev_store l)(a \<mapsto>
               ev\<lparr>ev_cb := None, ev_state := EVR_EVENT_CANCELLED, ev_data := 0\<rparr>)\<rparr>)))"

definition ev_time :: "('c, 'm) evr_loop_scheme \<Rightarrow> nat \<Rightarrow> nat" where
  "ev_time l a = (case ev_store l a of Some ev \<Rightarrow> ev_time_ms ev | None \<Rightarrow> 0)"

definition pq_min :: "('c, 'm) evr_loop_scheme \<Rightarrow> nat list" where
  "pq_min l = filter (\<lambda>a. \<forall>b \<in> set (event_pq l). ev_time l a \<le> ev_time l b) (event_pq l)"

definition pq_top :: "(nat list \<Rightarrow> nat) \<Rightarrow> ('c, 'm) evr_loop_scheme \<Rightarrow> nat" where
  "pq_top pick l = pick (pq_min l)"

definition pq_pop :: "nat \<Rightarrow> ('c, 'm) evr_loop_scheme \<Rightarrow> ('c, 'm) evr_loop_scheme" where
  "pq_pop a l = l\<lparr>event_pq := remove1 a (event_pq l)\<rparr>"

definition ev_delete :: "nat \<Rightarrow> ('c, 'm) evr_loop_scheme \<Rightarrow> ('c, 'm) evr_loop_scheme option" where
  "ev_delete a l = (if ev_store l a = None then None else Some (l\<lparr>ev_store := (ev_store l)(a := None)\<rparr>))"

text \<open>
  \<^verbatim>\<open>dequeue_events\<close>: the time to wait and the state after the due timers have run.
\<close>

partial_function (option) dequeue_events ::
  "(nat \<Rightarrow> nat) \<Rightarrow> (nat list \<Rightarrow> nat) \<Rightarrow> ('c, 'm) callbacks \<Rightarrow> ('c, 'm) evr_loop_scheme \<Rightarrow>
     (nat \<times> ('c, 'm) evr_loop_scheme) option" where
  "dequeue_events clk pick call l =
     (if event_pq l = [] then Some (EVR_DEFAULT_TIME_WAIT_MS, l)
      else do {
        (now, l1) \<leftarrow> Some (now_ms clk l);
        ev \<leftarrow> ev_store l1 (pq_top pick l1);
        if ev_magic ev \<noteq> EVR_EVENT_MAGIC
        then dequeue_events clk pick call (pq_pop (pq_top pick l1) l1)
        else if ev_state ev = EVR_EVENT_CANCELLED
        then do {
          l2 \<leftarrow> ev_delete (pq_top pick l1) (pq_pop (pq_top pick l1) l1);
          dequeue_events clk pick call l2 }
        else if now < ev_time_ms ev
        then Some (u32 (ev_time_ms ev - now), l1)
        else do {
          l2 \<leftarrow> (case ev_cb ev of None \<Rightarrow> Some (pq_pop (pq_top pick l1) l1)
                 | Some c \<Rightarrow> map_option snd (call c (ev_data ev) (pq_pop (pq_top pick l1) l1)));
          l3 \<leftarrow> ev_delete (pq_top pick l1) l2;
          dequeue_events clk pick call l3 } })"

section \<open>Descriptors\<close>

definition evr_fd_zero :: "'c evr_fd" where
  "evr_fd_zero = \<lparr>fd_magic = 0, fd_read_cb = None, fd_write_cb = None, fd_error_cb = None, fd_data = 0, fd_attr_mask = 0\<rparr>"

text \<open>
  One round of the loop in \<^verbatim>\<open>evr_loop::run\<close>: the callbacks of one descriptor event.  The
  object is read again after the read callback, which may have freed it.
\<close>

definition service_write ::
  "('c, 'm) callbacks \<Rightarrow> nat \<Rightarrow> nat \<Rightarrow> ('c, 'm) evr_loop_scheme \<Rightarrow> ('c, 'm) evr_loop_scheme option" where
  "service_write call events p l =
     (if \<not> has_bits events EVR_EV_VAL_WRITEABLE then Some l
      else do {
        f \<leftarrow> fd_store l p;
        (case fd_write_cb f of
           None \<Rightarrow> Some l
         | Some c \<Rightarrow> if has_bits (fd_attr_mask f) EVR_FILE_ATTR_VAL_WRITEABLE
                     then map_option snd (call c (fd_data f) l) else Some l) })"

definition service_event ::
  "('c, 'm) callbacks \<Rightarrow> nat \<Rightarrow> nat option \<Rightarrow> ('c, 'm) evr_loop_scheme \<Rightarrow> ('c, 'm) evr_loop_scheme option" where
  "service_event call events ptr l =
     (case ptr of
        None \<Rightarrow> Some l
      | Some p \<Rightarrow>
          do {
            f \<leftarrow> fd_store l p;
            if fd_magic f \<noteq> EVR_EVENT_FD_MAGIC then Some l
            else if \<not> has_bits events EVR_EV_VAL_READABLE then service_write call events p l
            else do {
              (st, l1) \<leftarrow> (case fd_read_cb f of
                  None \<Rightarrow> Some (STATUS_OK, l)
                | Some c \<Rightarrow> if has_bits (fd_attr_mask f) EVR_FILE_ATTR_VAL_READABLE
                            then call c (fd_data f) l else Some (STATUS_OK, l));
              if st \<noteq> STATUS_OK then Some l1
              else if has_bits events EVR_EV_HUP \<or> has_bits events EVR_EV_ERR then Some l1
              else service_write call events p l1 } })"

fun service_events ::
  "('c, 'm) callbacks \<Rightarrow> (nat \<times> nat option) list \<Rightarrow> ('c, 'm) evr_loop_scheme \<Rightarrow> ('c, 'm) evr_loop_scheme option" where
  "service_events call [] l = Some l"
| "service_events call ((events, ptr) # es) l =
     (if evr_stopped l then Some l
      else do { l1 \<leftarrow> service_event call events ptr l; service_events call es l1 })"

text \<open>
  \<^verbatim>\<open>evr_loop::run\<close>: \<open>wait\<close> is the reactor, from the time to wait to the number of
  events and the events.
\<close>

definition evr_run ::
  "(nat \<Rightarrow> nat) \<Rightarrow> (nat list \<Rightarrow> nat) \<Rightarrow> (int \<Rightarrow> ('c, 'm) evr_loop_scheme \<Rightarrow>
      int \<times> (nat \<times> nat option) list \<times> ('c, 'm) evr_loop_scheme) \<Rightarrow>
   ('c, 'm) callbacks \<Rightarrow> ('c, 'm) evr_loop_scheme \<Rightarrow> (int \<times> ('c, 'm) evr_loop_scheme) option" where
  "evr_run clk pick wait call l =
     do {
       (d, l1) \<leftarrow> dequeue_events clk pick call l;
       (n, es, l2) \<leftarrow> Some (wait (s32 d) l1);
       if n < 0 then Some (STATUS_ERROR, l2)
       else if n = 0
       then do { (_, l3) \<leftarrow> dequeue_events clk pick call l2; Some (STATUS_OK, l3) }
       else do { l3 \<leftarrow> service_events call (take (nat n) es) l2; Some (STATUS_OK, l3) } }"

text \<open>\<^verbatim>\<open>add_fd\<close>, \<^verbatim>\<open>mod_fd\<close>, \<^verbatim>\<open>del_fd\<close>: the reactor's status and the mask kept in the object.\<close>

definition set_attr_mask :: "nat \<Rightarrow> nat \<Rightarrow> ('c, 'm) evr_loop_scheme \<Rightarrow> ('c, 'm) evr_loop_scheme option" where
  "set_attr_mask msk p l =
     map_option (\<lambda>f. l\<lparr>fd_store := (fd_store l)(p \<mapsto> f\<lparr>fd_attr_mask := msk\<rparr>)\<rparr>) (fd_store l p)"

definition add_fd ::
  "('f \<Rightarrow> nat \<Rightarrow> nat option \<Rightarrow> 'r \<Rightarrow> int \<times> 'r) \<Rightarrow> 'f \<Rightarrow> nat \<Rightarrow> nat option \<Rightarrow>
   'r \<times> ('c, 'm) evr_loop_scheme \<Rightarrow> (int \<times> 'r \<times> ('c, 'm) evr_loop_scheme) option" where
  "add_fd add fd msk e s =
     (case (e, s) of
        (None, (r, l)) \<Rightarrow> Some (STATUS_ERROR, r, l)
      | (Some p, (r, l)) \<Rightarrow>
          (case add fd msk e r of (st, r1) \<Rightarrow> map_option (\<lambda>l1. (st, r1, l1)) (set_attr_mask msk p l)))"

definition del_fd :: "('f \<Rightarrow> 'r \<Rightarrow> int \<times> 'r) \<Rightarrow> 'f \<Rightarrow> 'r option \<Rightarrow> int \<times> 'r option" where
  "del_fd del fd r =
     (case r of None \<Rightarrow> (STATUS_OK, None) | Some r \<Rightarrow> (case del fd r of (st, r1) \<Rightarrow> (st, Some r1)))"

text \<open>\<^verbatim>\<open>signal\<close>: forwarded to the reactor, an error when there is none.\<close>

definition evr_signal :: "('r \<Rightarrow> int \<times> 'r) \<Rightarrow> 'r option \<Rightarrow> int \<times> 'r option" where
  "evr_signal sig r =
     (case r of None \<Rightarrow> (STATUS_ERROR, None) | Some r \<Rightarrow> (case sig r of (st, r1) \<Rightarrow> (st, Some r1)))"

section \<open>Timers fire once, in order, and only when due\<close>

text \<open>
  Every queued timer is an allocated object with its magic number, and no object is at an
  address that is still to be given out.
\<close>

definition timers_ok :: "('c, 'm) evr_loop_scheme \<Rightarrow> bool" where
  "timers_ok l \<longleftrightarrow> distinct (event_pq l) \<and>
     (\<forall>a \<in> set (event_pq l). \<exists>ev. ev_store l a = Some ev \<and> ev_magic ev = EVR_EVENT_MAGIC) \<and>
     (\<forall>a. next_addr l \<le> a \<longrightarrow> ev_store l a = None)"

definition ev_active :: "('c, 'm) evr_loop_scheme \<Rightarrow> nat \<Rightarrow> bool" where
  "ev_active l a \<longleftrightarrow> (case ev_store l a of Some ev \<Rightarrow> ev_state ev = EVR_EVENT_ACTIVE | None \<Rightarrow> False)"

text \<open>A timer with no earlier one in the queue.\<close>

definition first_timer :: "('c, 'm) evr_loop_scheme \<Rightarrow> nat \<Rightarrow> bool" where
  "first_timer l a \<longleftrightarrow> a \<in> set (event_pq l) \<and> (\<forall>b \<in> set (event_pq l). ev_time l a \<le> ev_time l b)"

text \<open>A timer taken from the queue: freed at once, or after its callback has run.\<close>

definition drop_timer :: "nat \<Rightarrow> ('c, 'm) evr_loop_scheme \<Rightarrow> ('c, 'm) evr_loop_scheme" where
  "drop_timer a l = (pq_pop a l)\<lparr>ev_store := (ev_store l)(a := None)\<rparr>"

definition run_timer :: "('c, 'm) callbacks \<Rightarrow> nat \<Rightarrow> ('c, 'm) evr_loop_scheme \<Rightarrow> ('c, 'm) evr_loop_scheme option" where
  "run_timer call a l =
     (case ev_store l a of
        None \<Rightarrow> None
      | Some ev \<Rightarrow>
          (case (ev_state ev, ev_cb ev) of
             (EVR_EVENT_ACTIVE, Some c) \<Rightarrow>
               (case call c (ev_data ev) (pq_pop a l) of None \<Rightarrow> None | Some (_, l1) \<Rightarrow> ev_delete a l1)
           | _ \<Rightarrow> Some (drop_timer a l)))"

text \<open>
  What a callback may do with the timers: start new ones and cancel any, its own included, but
  neither free one nor take one from the queue.
\<close>

definition keeps_timer :: "'c evr_event \<Rightarrow> 'c evr_event \<Rightarrow> bool" where
  "keeps_timer ev ev' \<longleftrightarrow> ev' = ev \<or>
     ev_state ev' = EVR_EVENT_CANCELLED \<and> ev_time_ms ev' = ev_time_ms ev \<and> ev_magic ev' = ev_magic ev"

definition timers_evolve :: "('c, 'm) evr_loop_scheme \<Rightarrow> ('c, 'm) evr_loop_scheme \<Rightarrow> bool" where
  "timers_evolve l l' \<longleftrightarrow> timers_ok l' \<and> next_addr l \<le> next_addr l' \<and> set (event_pq l) \<subseteq> set (event_pq l') \<and>
     (\<forall>a \<in> set (event_pq l') - set (event_pq l). next_addr l \<le> a) \<and>
     (\<forall>a ev. ev_store l a = Some ev \<longrightarrow> (\<exists>ev'. ev_store l' a = Some ev' \<and> keeps_timer ev ev')) \<and>
     (\<forall>a < next_addr l. ev_store l a = None \<longrightarrow> ev_store l' a = None)"

text \<open>
  The contract of a client with the invariant \<open>I\<close>: the callback of an active timer of the
  queue runs to its end, changes the timers in no other way, and can start only a bounded
  number of new ones, \<open>budget\<close> of them being left to it.
\<close>

definition timer_client ::
  "('c, 'm) callbacks \<Rightarrow> (('c, 'm) evr_loop_scheme \<Rightarrow> bool) \<Rightarrow> (('c, 'm) evr_loop_scheme \<Rightarrow> nat) \<Rightarrow> bool" where
  "timer_client call I budget \<longleftrightarrow>
     (\<forall>l t. I l \<longrightarrow> I (l\<lparr>tick := t\<rparr>) \<and> budget (l\<lparr>tick := t\<rparr>) = budget l) \<and>
     (\<forall>l a. I l \<and> timers_ok l \<and> a \<in> set (event_pq l) \<longrightarrow> I (drop_timer a l) \<and> budget (drop_timer a l) = budget l) \<and>
     (\<forall>l a ev c. I l \<and> timers_ok l \<and> a \<in> set (event_pq l) \<and> ev_store l a = Some ev \<and>
        ev_state ev = EVR_EVENT_ACTIVE \<and> ev_cb ev = Some c \<longrightarrow>
        (\<exists>st l1. call c (ev_data ev) (pq_pop a l) = Some (st, l1) \<and> timers_evolve (pq_pop a l) l1 \<and>
           I (l1\<lparr>ev_store := (ev_store l1)(a := None)\<rparr>) \<and>
           length (event_pq l1) + budget (l1\<lparr>ev_store := (ev_store l1)(a := None)\<rparr>) < length (event_pq l) + budget l))"

text \<open>
  A run: the timers that were taken from the queue, each with the state it was found in.  The
  clock is read once for each, at \<^const>\<open>tick\<close>.
\<close>

fun timers_run ::
  "(nat \<Rightarrow> nat) \<Rightarrow> ('c, 'm) callbacks \<Rightarrow> ('c, 'm) evr_loop_scheme \<Rightarrow> (('c, 'm) evr_loop_scheme \<times> nat) list \<Rightarrow>
     ('c, 'm) evr_loop_scheme \<Rightarrow> bool" where
  "timers_run clk call l [] l' \<longleftrightarrow> l' = l"
| "timers_run clk call l ((s, a) # rs) l' \<longleftrightarrow> s = l \<and> first_timer l a \<and> (ev_active l a \<longrightarrow> ev_time l a \<le> clk (tick l)) \<and>
     (\<exists>l1. run_timer call a (l\<lparr>tick := Suc (tick l)\<rparr>) = Some l1 \<and> timers_run clk call l1 rs l')"

text \<open>How it ends, in a state \<open>m\<close> with the time to wait \<open>w\<close>.\<close>

definition timers_rest :: "(nat \<Rightarrow> nat) \<Rightarrow> ('c, 'm) evr_loop_scheme \<Rightarrow> nat \<Rightarrow> ('c, 'm) evr_loop_scheme \<Rightarrow> bool" where
  "timers_rest clk m w l' \<longleftrightarrow>
     (if event_pq m = [] then w = EVR_DEFAULT_TIME_WAIT_MS \<and> l' = m
      else \<exists>a. first_timer m a \<and> ev_active m a \<and> clk (tick m) < ev_time m a \<and> w = u32 (ev_time m a - clk (tick m)) \<and>
        l' = m\<lparr>tick := Suc (tick m)\<rparr>)"

definition fired :: "(('c, 'm) evr_loop_scheme \<times> nat) list \<Rightarrow> nat list" where
  "fired rs = map snd (filter (\<lambda>(s, a). ev_active s a) rs)"

definition pick_ok :: "(nat list \<Rightarrow> nat) \<Rightarrow> bool" where
  "pick_ok pick \<longleftrightarrow> (\<forall>xs. xs \<noteq> [] \<longrightarrow> pick xs \<in> set xs)"

lemma pq_min_nonempty: "event_pq l \<noteq> [] \<Longrightarrow> pq_min l \<noteq> []"
proof -
  assume "event_pq l \<noteq> []"
  then have "arg_min_on (ev_time l) (set (event_pq l)) \<in> set (pq_min l)"
    using arg_min_if_finite[of "set (event_pq l)" "ev_time l"]
    by (auto simp: pq_min_def not_less)
  then show ?thesis by auto
qed

lemma pq_top_first:
  assumes "pick_ok pick" "event_pq l \<noteq> []"
  shows "first_timer l (pq_top pick l)"
proof -
  have "pq_top pick l \<in> set (pq_min l)"
    using assms pq_min_nonempty by (auto simp: pick_ok_def pq_top_def)
  then show ?thesis by (auto simp: pq_min_def first_timer_def)
qed

lemma tick_irrelevant [simp]:
  "ev_time (l\<lparr>tick := t\<rparr>) = ev_time l" "ev_active (l\<lparr>tick := t\<rparr>) = ev_active l" "timers_ok (l\<lparr>tick := t\<rparr>) = timers_ok l"
  "pq_top pick (l\<lparr>tick := t\<rparr>) = pq_top pick l"
  by (simp_all add: ev_time_def ev_active_def timers_ok_def pq_top_def pq_min_def fun_eq_iff)

lemma dequeue_step:
  assumes "timers_ok l" "pick_ok pick" "event_pq l \<noteq> []"
  defines "a \<equiv> pq_top pick l"
  shows "dequeue_events clk pick call l =
    (if ev_active l a \<and> clk (tick l) < ev_time l a
     then Some (u32 (ev_time l a - clk (tick l)), l\<lparr>tick := Suc (tick l)\<rparr>)
     else (case run_timer call a (l\<lparr>tick := Suc (tick l)\<rparr>) of None \<Rightarrow> None | Some l1 \<Rightarrow> dequeue_events clk pick call l1))"
proof -
  have a_in: "a \<in> set (event_pq l)" using pq_top_first[OF assms(2,3)] by (simp add: a_def first_timer_def)
  then obtain ev where ev: "ev_store l a = Some ev" "ev_magic ev = EVR_EVENT_MAGIC"
    using assms(1) by (auto simp: timers_ok_def)
  have top: "pq_top pick l = a" by (simp add: a_def)
  show ?thesis
    by (subst dequeue_events.simps)
      (use ev assms(3) in \<open>cases "ev_state ev"; cases "ev_cb ev";
        simp add: now_ms_def top ev_active_def ev_time_def run_timer_def drop_timer_def pq_pop_def ev_delete_def
          split: option.split prod.split\<close>)
qed

text \<open>The state after a round.\<close>

definition round_post :: "nat \<Rightarrow> ('c, 'm) evr_loop_scheme \<Rightarrow> ('c, 'm) evr_loop_scheme \<Rightarrow> bool" where
  "round_post a l l1 \<longleftrightarrow> timers_ok l1 \<and> ev_store l1 a = None \<and> a < next_addr l \<and> next_addr l \<le> next_addr l1 \<and>
     set (event_pq l) - {a} \<subseteq> set (event_pq l1) \<and> a \<notin> set (event_pq l1) \<and>
     (\<forall>b \<in> set (event_pq l1) - set (event_pq l). next_addr l \<le> b) \<and>
     (\<forall>b ev. b \<noteq> a \<longrightarrow> ev_store l b = Some ev \<longrightarrow> (\<exists>ev'. ev_store l1 b = Some ev' \<and> keeps_timer ev ev')) \<and>
     (\<forall>b < next_addr l. ev_store l b = None \<longrightarrow> ev_store l1 b = None)"

lemma keeps_timer_refl [simp]: "keeps_timer ev ev"
  by (simp add: keeps_timer_def)

lemma queued_allocated: "timers_ok l \<Longrightarrow> a \<in> set (event_pq l) \<Longrightarrow> a < next_addr l"
  unfolding timers_ok_def by (metis leI option.distinct(1))

lemma drop_post:
  assumes "timers_ok l" "a \<in> set (event_pq l)"
  shows "round_post a l (drop_timer a l)"
  using assms queued_allocated[OF assms]
  by (auto simp: round_post_def drop_timer_def pq_pop_def timers_ok_def)

lemma fire_post:
  assumes ok: "timers_ok l" "a \<in> set (event_pq l)" and e: "timers_evolve (pq_pop a l) l1"
  shows "round_post a l (l1\<lparr>ev_store := (ev_store l1)(a := None)\<rparr>)"
proof -
  have pop: "set (event_pq (pq_pop a l)) = set (event_pq l) - {a}" "ev_store (pq_pop a l) = ev_store l"
    "next_addr (pq_pop a l) = next_addr l"
    using ok(1) by (auto simp: pq_pop_def timers_ok_def)
  have E: "timers_ok l1" "next_addr l \<le> next_addr l1" "set (event_pq l) - {a} \<subseteq> set (event_pq l1)"
    "\<forall>b \<in> set (event_pq l1) - (set (event_pq l) - {a}). next_addr l \<le> b"
    "\<forall>b ev. ev_store l b = Some ev \<longrightarrow> (\<exists>ev'. ev_store l1 b = Some ev' \<and> keeps_timer ev ev')"
    "\<forall>b < next_addr l. ev_store l b = None \<longrightarrow> ev_store l1 b = None"
    using e unfolding timers_evolve_def pop by blast+
  note a = queued_allocated[OF ok]
  have new: "a \<notin> set (event_pq l1)" using E(4) a by (meson DiffD2 DiffI leD singletonI)
  then have "timers_ok (l1\<lparr>ev_store := (ev_store l1)(a := None)\<rparr>)" using E(1) by (auto simp: timers_ok_def)
  then show ?thesis
    unfolding round_post_def using E(2-6) a new by simp
qed

text \<open>What a run leaves of the timers of its start.\<close>

definition timers_done ::
  "('c, 'm) evr_loop_scheme \<Rightarrow> (('c, 'm) evr_loop_scheme \<times> nat) list \<Rightarrow> ('c, 'm) evr_loop_scheme \<Rightarrow> bool" where
  "timers_done l rs m \<longleftrightarrow>
     distinct (map snd rs) \<and>
     set (event_pq l) \<subseteq> snd ` set rs \<union> set (event_pq m) \<and>
     (\<forall>a \<in> snd ` set rs. a \<notin> set (event_pq m) \<and> ev_store m a = None) \<and>
     sorted (map (ev_time l) (filter (\<lambda>a. a \<in> set (event_pq l)) (fired rs))) \<and>
     (\<forall>a \<in> set (event_pq l). \<not> ev_active l a \<longrightarrow> a \<notin> set (fired rs)) \<and>
     (\<forall>a ev. ev_store l a = Some ev \<and> a \<notin> snd ` set rs \<longrightarrow> (\<exists>ev'. ev_store m a = Some ev' \<and> keeps_timer ev ev'))"

lemma fired_simps [simp]:
  "fired [] = []" "fired ((s, a) # rs) = (if ev_active s a then a # fired rs else fired rs)"
  by (simp_all add: fired_def)

lemma set_fired: "set (fired rs) \<subseteq> snd ` set rs"
  by (auto simp: fired_def)

lemma keeps_timer_time: "keeps_timer ev ev' \<Longrightarrow> ev_time_ms ev' = ev_time_ms ev"
  by (auto simp: keeps_timer_def)

lemma keeps_timer_trans: "keeps_timer e1 e2 \<Longrightarrow> keeps_timer e2 e3 \<Longrightarrow> keeps_timer e1 e3"
  by (auto simp: keeps_timer_def)

lemma timers_done_Nil: "timers_done l [] l"
  by (simp add: timers_done_def)

lemma timers_done_Cons:
  assumes ok: "timers_ok l" and a: "first_timer l a" and post: "round_post a l l1"
    and d: "timers_done l1 rs m" and addr: "\<forall>b \<in> snd ` set rs. ev_store l1 b \<noteq> None \<or> next_addr l1 \<le> b"
    and gone: "\<forall>b < next_addr l1. ev_store l1 b = None \<longrightarrow> ev_store m b = None"
    and pq: "\<forall>b \<in> set (event_pq m). ev_store m b \<noteq> None"
  shows "timers_done l ((l, a) # rs) m"
proof -
  have q: "a \<in> set (event_pq l)" "\<And>b. b \<in> set (event_pq l) \<Longrightarrow> ev_time l a \<le> ev_time l b"
    using a by (auto simp: first_timer_def)
  have p: "ev_store l1 a = None" "a < next_addr l1" "a \<notin> set (event_pq l1)"
    "\<And>b. b \<in> set (event_pq l) \<Longrightarrow> b \<noteq> a \<Longrightarrow> b \<in> set (event_pq l1)"
    "\<And>b ev. b \<noteq> a \<Longrightarrow> ev_store l b = Some ev \<Longrightarrow> \<exists>ev'. ev_store l1 b = Some ev' \<and> keeps_timer ev ev'"
    using post by (auto simp: round_post_def)
  have D: "distinct (map snd rs)" "set (event_pq l1) \<subseteq> snd ` set rs \<union> set (event_pq m)"
    "\<forall>b \<in> snd ` set rs. b \<notin> set (event_pq m) \<and> ev_store m b = None"
    "sorted (map (ev_time l1) (filter (\<lambda>a. a \<in> set (event_pq l1)) (fired rs)))"
    "\<forall>b \<in> set (event_pq l1). \<not> ev_active l1 b \<longrightarrow> b \<notin> set (fired rs)"
    "\<forall>b ev. ev_store l1 b = Some ev \<and> b \<notin> snd ` set rs \<longrightarrow> (\<exists>ev'. ev_store m b = Some ev' \<and> keeps_timer ev ev')"
    using d unfolding timers_done_def by - (elim conjE, assumption)+
  have fresh: "a \<notin> snd ` set rs" using addr p(1,2) by auto
  have ma: "ev_store m a = None" using gone p(1,2) by blast
  have kept: "ev_time l1 b = ev_time l b" "\<not> ev_active l b \<Longrightarrow> \<not> ev_active l1 b"
    if b: "b \<in> set (event_pq l)" "b \<noteq> a" for b
  proof -
    obtain ev where ev: "ev_store l b = Some ev" using ok b(1) by (auto simp: timers_ok_def)
    then obtain ev' where ev': "ev_store l1 b = Some ev'" "keeps_timer ev ev'" using p(5) b(2) by blast
    then show "ev_time l1 b = ev_time l b" "\<not> ev_active l b \<Longrightarrow> \<not> ev_active l1 b"
      using ev keeps_timer_time by (auto simp: ev_time_def ev_active_def keeps_timer_def)
  qed
  have nf: "b \<noteq> a" if "b \<in> set (fired rs)" for b using that set_fired fresh by blast
  have sub: "filter (\<lambda>b. b \<in> set (event_pq l)) (fired rs) =
      filter (\<lambda>b. b \<in> set (event_pq l)) (filter (\<lambda>b. b \<in> set (event_pq l1)) (fired rs))"
    using nf p(4) by (auto intro!: filter_cong)
  have "map (ev_time l) (filter (\<lambda>b. b \<in> set (event_pq l)) (fired rs)) = map (ev_time l1) (filter (\<lambda>b. b \<in> set (event_pq l)) (fired rs))"
    using kept(1) nf by auto
  then have sorted: "sorted (map (ev_time l) (filter (\<lambda>b. b \<in> set (event_pq l)) (fired rs)))"
    using sorted_filter[OF D(4), of "\<lambda>b. b \<in> set (event_pq l)"] unfolding sub[symmetric] by (simp only:)
  show ?thesis
    unfolding timers_done_def
  proof (intro conjI)
    show "distinct (map snd ((l, a) # rs))" using D(1) fresh by simp
    show "set (event_pq l) \<subseteq> snd ` set ((l, a) # rs) \<union> set (event_pq m)" using D(2) p(4) by force
    show "\<forall>b \<in> snd ` set ((l, a) # rs). b \<notin> set (event_pq m) \<and> ev_store m b = None"
      using D(3) ma pq by auto
    show "sorted (map (ev_time l) (filter (\<lambda>b. b \<in> set (event_pq l)) (fired ((l, a) # rs))))"
      using sorted q by simp
    show "\<forall>b \<in> set (event_pq l). \<not> ev_active l b \<longrightarrow> b \<notin> set (fired ((l, a) # rs))"
      using D(5) kept(2) nf p(4) by auto
    show "\<forall>b ev. ev_store l b = Some ev \<and> b \<notin> snd ` set ((l, a) # rs) \<longrightarrow>
        (\<exists>ev'. ev_store m b = Some ev' \<and> keeps_timer ev ev')"
    proof (intro allI impI, elim conjE)
      fix b ev
      assume b: "ev_store l b = Some ev" "b \<notin> snd ` set ((l, a) # rs)"
      then obtain e1 where "ev_store l1 b = Some e1" "keeps_timer ev e1" using p(5)[of b ev] by auto
      then show "\<exists>ev'. ev_store m b = Some ev' \<and> keeps_timer ev ev'"
        using D(6)[rule_format, of b e1] b(2) keeps_timer_trans by auto
    qed
  qed
qed

locale timer_rounds =
  fixes call :: "('c, 'm) callbacks" and I :: "('c, 'm) evr_loop_scheme \<Rightarrow> bool" and budget :: "('c, 'm) evr_loop_scheme \<Rightarrow> nat"
  assumes client: "timer_client call I budget"
begin

lemma tick_ok: "I l \<Longrightarrow> I (l\<lparr>tick := t\<rparr>)" "I l \<Longrightarrow> budget (l\<lparr>tick := t\<rparr>) = budget l"
  using client unfolding timer_client_def by blast+

lemma round_ok:
  assumes "I l" "timers_ok l" "a \<in> set (event_pq l)"
  obtains l1 where "run_timer call a l = Some l1" "I l1" "round_post a l l1"
    "length (event_pq l1) + budget l1 < length (event_pq l) + budget l"
proof -
  obtain ev where ev: "ev_store l a = Some ev" using assms(2,3) by (auto simp: timers_ok_def)
  show ?thesis
  proof (cases "\<exists>c. ev_state ev = EVR_EVENT_ACTIVE \<and> ev_cb ev = Some c")
    case True
    then obtain c where c: "ev_state ev = EVR_EVENT_ACTIVE" "ev_cb ev = Some c" by blast
    obtain st l1 where l1: "call c (ev_data ev) (pq_pop a l) = Some (st, l1)" "timers_evolve (pq_pop a l) l1"
      "I (l1\<lparr>ev_store := (ev_store l1)(a := None)\<rparr>)"
      "length (event_pq l1) + budget (l1\<lparr>ev_store := (ev_store l1)(a := None)\<rparr>) < length (event_pq l) + budget l"
      using client assms ev c unfolding timer_client_def by blast
    have "ev_store (pq_pop a l) a = Some ev" using ev by (simp add: pq_pop_def)
    then have "ev_store l1 a \<noteq> None" using l1(2) unfolding timers_evolve_def by fastforce
    then have "run_timer call a l = Some (l1\<lparr>ev_store := (ev_store l1)(a := None)\<rparr>)"
      using ev c l1(1) by (simp add: run_timer_def ev_delete_def)
    then show ?thesis using that l1(3,4) fire_post[OF assms(2,3) l1(2)] by simp
  next
    case False
    then have r: "run_timer call a l = Some (drop_timer a l)"
      using ev by (auto simp: run_timer_def split: evr_event_state.split option.split)
    have "length (event_pq (drop_timer a l)) < length (event_pq l)"
      using assms(3) length_pos_if_in_set by (fastforce simp: drop_timer_def pq_pop_def length_remove1)
    moreover have "I (drop_timer a l) \<and> budget (drop_timer a l) = budget l"
      using client assms unfolding timer_client_def by blast
    ultimately show ?thesis using that[OF r] drop_post[OF assms(2,3)] by simp
  qed
qed

lemma dequeue_run:
  assumes "pick_ok pick" "I l" "timers_ok l"
  shows "\<exists>w l' rs m. dequeue_events clk pick call l = Some (w, l') \<and> timers_run clk call l rs m \<and> timers_rest clk m w l' \<and>
    I l' \<and> timers_ok m \<and> timers_done l rs m \<and> next_addr l \<le> next_addr m \<and>
    (\<forall>b \<in> snd ` set rs. ev_store l b \<noteq> None \<or> next_addr l \<le> b) \<and>
    (\<forall>b < next_addr l. ev_store l b = None \<longrightarrow> ev_store m b = None)"
  using assms(2,3)
proof (induction "length (event_pq l) + budget l" arbitrary: l rule: less_induct)
  case less
  show ?case
  proof (cases "event_pq l = []")
    case True
    then show ?thesis
      using less.prems
      by (subst dequeue_events.simps) (auto simp: timers_rest_def timers_done_Nil intro!: exI[of _ "[]"])
  next
    case ne: False
    let ?a = "pq_top pick l" and ?lt = "l\<lparr>tick := Suc (tick l)\<rparr>"
    note first = pq_top_first[OF assms(1) ne]
    note step = dequeue_step[OF less.prems(2) assms(1) ne, of clk call]
    show ?thesis
    proof (cases "ev_active l ?a \<and> clk (tick l) < ev_time l ?a")
      case True
      then have "timers_rest clk l (u32 (ev_time l ?a - clk (tick l))) ?lt"
        using ne first by (auto simp: timers_rest_def)
      then show ?thesis
        using step True less.prems tick_ok(1)[OF less.prems(1)] timers_done_Nil[of l] by (auto intro!: exI[of _ "[]"])
    next
      case False
      have lt: "I ?lt" "timers_ok ?lt" "?a \<in> set (event_pq ?lt)"
        using tick_ok(1)[OF less.prems(1)] less.prems(2) first by (simp_all add: first_timer_def)
      obtain l1 where r: "run_timer call ?a ?lt = Some l1" "I l1" "round_post ?a ?lt l1"
        "length (event_pq l1) + budget l1 < length (event_pq l) + budget l"
        using round_ok[OF lt] tick_ok(2)[OF less.prems(1)] by auto
      have post: "round_post ?a l l1" using r(3) by (simp add: round_post_def)
      obtain w l' rs m where IH: "dequeue_events clk pick call l1 = Some (w, l')" "timers_run clk call l1 rs m"
        "timers_rest clk m w l'" "I l'" "timers_ok m" "timers_done l1 rs m" "next_addr l1 \<le> next_addr m"
        "\<forall>b \<in> snd ` set rs. ev_store l1 b \<noteq> None \<or> next_addr l1 \<le> b"
        "\<forall>b < next_addr l1. ev_store l1 b = None \<longrightarrow> ev_store m b = None"
        using less.hyps[OF r(4) r(2) post[unfolded round_post_def, THEN conjunct1]] by blast
      have fin: "timers_done l ((l, ?a) # rs) m"
        using IH(5) by (intro timers_done_Cons[OF less.prems(2) first post IH(6,8,9)]) (auto simp: timers_ok_def)
      have "dequeue_events clk pick call l = Some (w, l')" using step False r(1) IH(1) by simp
      moreover have "timers_run clk call l ((l, ?a) # rs) m" using False r(1) IH(2) first by auto
      moreover have up: "next_addr l \<le> next_addr l1" and top: "ev_store l ?a \<noteq> None"
        and gone: "\<And>b. b < next_addr l \<Longrightarrow> ev_store l b = None \<Longrightarrow> ev_store l1 b = None"
        using post lt(2,3) by (auto simp: round_post_def timers_ok_def)
      moreover have "\<forall>b \<in> snd ` set ((l, ?a) # rs). ev_store l b \<noteq> None \<or> next_addr l \<le> b"
      proof
        fix b
        assume "b \<in> snd ` set ((l, ?a) # rs)"
        then have "b = ?a \<or> ev_store l1 b \<noteq> None \<or> next_addr l1 \<le> b" using IH(8) by auto
        then show "ev_store l b \<noteq> None \<or> next_addr l \<le> b" using top gone[of b] up by (metis leI order_trans)
      qed
      moreover have "\<forall>b < next_addr l. ev_store l b = None \<longrightarrow> ev_store m b = None"
        using IH(9) gone up by simp
      ultimately show ?thesis using IH(3,4,5,7) fin order_trans by blast
    qed
  qed
qed

end

text \<open>
  C15: With any client whose callbacks start a bounded number of timers and cancel any, and
  whatever the clock reads, \<open>dequeue_events\<close> returns.  It takes timers from the queue, at each
  time one with no earlier one in it: one that is active is fired if it is due by the clock
  read for it, a cancelled one is dropped.  No timer is taken twice, each one taken is freed,
  and each of the queue it started with is either taken or still queued; those of them it
  fired were fired in the order of their times, and none that was cancelled.  It stops when
  the queue is empty, with the default time to wait, or at an active timer not due, with the
  time until then, and has touched the other timers only by the callbacks.
\<close>

theorem dequeue_fires_due_timers:
  assumes "timer_client call I budget" "I l" "timers_ok l" "pick_ok pick"
  shows "\<exists>w l' rs m. dequeue_events clk pick call l = Some (w, l') \<and> timers_run clk call l rs m \<and>
    timers_rest clk m w l' \<and> timers_done l rs m \<and> I l' \<and> timers_ok m"
  using timer_rounds.dequeue_run[OF timer_rounds.intro, OF assms(1,4,2,3)] by blast

section \<open>Clients of the timers\<close>

text \<open>
  A client whose callbacks are scripts of the operations the loop offers them: starting
  timers, as long as its budget lasts, and cancelling those it knows to be alive.  It records
  which callback ran on which data.
\<close>

record 'c evr_log = "'c evr_loop" +
  ev_fired :: "('c \<times> nat) list"
  ev_budget :: nat

datatype 'c timer_op = Add_Timer nat "'c option" nat | Cancel_Timer nat

definition script_op :: "(nat \<Rightarrow> nat) \<Rightarrow> 'c timer_op \<Rightarrow> 'c evr_log \<Rightarrow> 'c evr_log" where
  "script_op clk x l =
     (case x of
        Add_Timer t c d \<Rightarrow>
          (if ev_budget l = 0 then l else (snd (snd (add_event clk t c d l)))\<lparr>ev_budget := ev_budget l - 1\<rparr>)
      | Cancel_Timer a \<Rightarrow> (case cancel_event (Some a) l of None \<Rightarrow> l | Some (_, l1) \<Rightarrow> l1))"

definition script_call :: "(nat \<Rightarrow> nat) \<Rightarrow> ('c \<Rightarrow> 'c timer_op list) \<Rightarrow> ('c, ('c, unit) evr_log_ext) callbacks" where
  "script_call clk prog c d l = Some (STATUS_OK, fold (script_op clk) (prog c) (l\<lparr>ev_fired := ev_fired l @ [(c, d)]\<rparr>))"

lemma timers_evolve_refl: "timers_ok l \<Longrightarrow> timers_evolve l l"
  by (auto simp: timers_evolve_def)

lemma timers_evolve_trans:
  assumes "timers_evolve l l1" "timers_evolve l1 l2"
  shows "timers_evolve l l2"
proof -
  have A: "next_addr l \<le> next_addr l1" "set (event_pq l) \<subseteq> set (event_pq l1)"
    "\<And>a. a \<in> set (event_pq l1) \<Longrightarrow> a \<notin> set (event_pq l) \<Longrightarrow> next_addr l \<le> a"
    "\<And>a ev. ev_store l a = Some ev \<Longrightarrow> \<exists>ev'. ev_store l1 a = Some ev' \<and> keeps_timer ev ev'"
    "\<And>a. a < next_addr l \<Longrightarrow> ev_store l a = None \<Longrightarrow> ev_store l1 a = None"
    using assms(1) by (auto simp: timers_evolve_def)
  have B: "timers_ok l2" "next_addr l1 \<le> next_addr l2" "set (event_pq l1) \<subseteq> set (event_pq l2)"
    "\<And>a. a \<in> set (event_pq l2) \<Longrightarrow> a \<notin> set (event_pq l1) \<Longrightarrow> next_addr l1 \<le> a"
    "\<And>a ev. ev_store l1 a = Some ev \<Longrightarrow> \<exists>ev'. ev_store l2 a = Some ev' \<and> keeps_timer ev ev'"
    "\<And>a. a < next_addr l1 \<Longrightarrow> ev_store l1 a = None \<Longrightarrow> ev_store l2 a = None"
    using assms(2) by (auto simp: timers_evolve_def)
  have "\<exists>ev'. ev_store l2 a = Some ev' \<and> keeps_timer ev ev'" if "ev_store l a = Some ev" for a ev
    using A(4)[OF that] B(5) keeps_timer_trans by blast
  moreover have "next_addr l \<le> a" if "a \<in> set (event_pq l2)" "a \<notin> set (event_pq l)" for a
    using A(1,3) B(4) that by (cases "a \<in> set (event_pq l1)") (auto intro: order_trans)
  ultimately show ?thesis
    using A(1,2,5) B(1,2,3,6) unfolding timers_evolve_def by (auto intro: order_trans)
qed

lemma add_event_evolves:
  assumes "timers_ok l"
  shows "timers_evolve l (snd (snd (add_event clk t c d l)))"
  using assms queued_allocated[OF assms]
  by (auto simp: timers_evolve_def timers_ok_def add_event_def now_ms_def Let_def)

lemma cancel_event_evolves:
  "timers_ok l \<Longrightarrow> cancel_event e l = Some (st, l1) \<Longrightarrow> timers_evolve l l1"
  by (fastforce simp: timers_evolve_def timers_ok_def cancel_event_def keeps_timer_def split: option.splits)

lemma budget_irrelevant:
  "timers_evolve l (l1\<lparr>ev_budget := n\<rparr>) = timers_evolve l l1"
  by (simp add: timers_evolve_def timers_ok_def)

lemma script_op_evolves:
  assumes "timers_ok l"
  shows "timers_evolve l (script_op clk x l)"
    "length (event_pq (script_op clk x l)) + ev_budget (script_op clk x l) = length (event_pq l) + ev_budget l"
proof -
  show "timers_evolve l (script_op clk x l)"
    using timers_evolve_refl[OF assms] add_event_evolves[OF assms] cancel_event_evolves[OF assms]
    by (auto simp: script_op_def budget_irrelevant split: timer_op.split option.split)
  show "length (event_pq (script_op clk x l)) + ev_budget (script_op clk x l) = length (event_pq l) + ev_budget l"
    by (auto simp: script_op_def add_event_def now_ms_def Let_def cancel_event_def split: timer_op.split option.split)
qed

lemma script_evolves:
  "timers_ok l \<Longrightarrow> timers_evolve l (fold (script_op clk) xs l) \<and>
    length (event_pq (fold (script_op clk) xs l)) + ev_budget (fold (script_op clk) xs l) = length (event_pq l) + ev_budget l"
proof (induction xs arbitrary: l)
  case (Cons x xs)
  note x = script_op_evolves[OF Cons.prems, of clk x]
  have "timers_ok (script_op clk x l)" using x(1) by (simp add: timers_evolve_def)
  then show ?case using Cons.IH[of "script_op clk x l"] x timers_evolve_trans by fastforce
qed (simp add: timers_evolve_refl)

lemma script_client: "timer_client (script_call clk (prog :: 'c \<Rightarrow> 'c timer_op list)) (\<lambda>_. True) ev_budget"
proof -
  have "\<exists>st l1. script_call clk prog c (ev_data ev) (pq_pop a l) = Some (st, l1) \<and> timers_evolve (pq_pop a l) l1 \<and>
      length (event_pq l1) + ev_budget l1 < length (event_pq l) + ev_budget l"
    if ok: "timers_ok l" "a \<in> set (event_pq l)" for l :: "'c evr_log" and a c ev
  proof -
    let ?l = "(pq_pop a l)\<lparr>ev_fired := ev_fired (pq_pop a l) @ [(c, ev_data ev)]\<rparr>"
    have "timers_ok ?l" using ok by (auto simp: timers_ok_def pq_pop_def)
    moreover have "timers_evolve (pq_pop a l) = timers_evolve ?l"
      by (simp add: timers_evolve_def fun_eq_iff)
    moreover have "length (event_pq ?l) + ev_budget ?l < length (event_pq l) + ev_budget l"
      using ok(2) length_pos_if_in_set by (fastforce simp: pq_pop_def length_remove1)
    ultimately show ?thesis using script_evolves[of ?l clk "prog c"] by (simp add: script_call_def)
  qed
  then show ?thesis
    unfolding timer_client_def by (auto simp: drop_timer_def pq_pop_def)
qed

interpretation script: timer_rounds "script_call clk prog" "\<lambda>_. True" ev_budget for clk prog
  by (rule timer_rounds.intro[OF script_client])

definition demo_timers :: "nat evr_log" where
  "demo_timers = \<lparr>event_pq = [1, 2, 3],
     ev_store = [1 \<mapsto> \<lparr>ev_magic = EVR_EVENT_MAGIC, ev_time_ms = 9, ev_cb = Some 7, ev_state = EVR_EVENT_ACTIVE, ev_data = 11\<rparr>,
                 2 \<mapsto> \<lparr>ev_magic = EVR_EVENT_MAGIC, ev_time_ms = 3, ev_cb = None, ev_state = EVR_EVENT_CANCELLED, ev_data = 0\<rparr>,
                 3 \<mapsto> \<lparr>ev_magic = EVR_EVENT_MAGIC, ev_time_ms = 4, ev_cb = Some 8, ev_state = EVR_EVENT_ACTIVE, ev_data = 13\<rparr>],
     fd_store = Map.empty, next_addr = 4, tick = 0, evr_stopped = False, ev_fired = [], ev_budget = 5\<rparr>"

text \<open>The first callback starts a timer and cancels another, and the clock goes backwards.\<close>

theorem dequeue_fires_due_timers_witness:
  "\<exists>w l' rs m. dequeue_events (\<lambda>n. 8 - n) hd (script_call (\<lambda>n. 8 - n) (\<lambda>c. if c = 8 then [Add_Timer 1 (Some 7) 5, Cancel_Timer 1] else []))
       demo_timers = Some (w, l') \<and>
     timers_run (\<lambda>n. 8 - n) (script_call (\<lambda>n. 8 - n) (\<lambda>c. if c = 8 then [Add_Timer 1 (Some 7) 5, Cancel_Timer 1] else [])) demo_timers rs m \<and>
     timers_done demo_timers rs m"
proof -
  have ok: "timers_ok demo_timers"
    by (auto simp: timers_ok_def demo_timers_def)
  have "pick_ok hd" by (auto simp: pick_ok_def)
  from dequeue_fires_due_timers[OF script_client TrueI ok this] show ?thesis by blast
qed

section \<open>The dispatch never uses a freed descriptor object\<close>

definition keeps_fd :: "('c, 'm) evr_loop_scheme \<Rightarrow> ('c, 'm) evr_loop_scheme \<Rightarrow> nat \<Rightarrow> bool" where
  "keeps_fd l l' p \<longleftrightarrow> (case fd_store l p of None \<Rightarrow> True
     | Some f \<Rightarrow> (case fd_store l' p of None \<Rightarrow> False | Some f' \<Rightarrow> fd_data f' = fd_data f))"

definition fd_data_of :: "('c, 'm) evr_loop_scheme \<Rightarrow> nat \<Rightarrow> nat option" where
  "fd_data_of l p = map_option fd_data (fd_store l p)"

lemma keeps_fd_data: "keeps_fd l l' p \<Longrightarrow> fd_data_of l p \<noteq> None \<Longrightarrow> fd_data_of l' p = fd_data_of l p"
  by (auto simp: keeps_fd_def fd_data_of_def split: option.splits)

lemma keeps_fd_refl [simp]: "keeps_fd l l p"
  by (simp add: keeps_fd_def split: option.splits)

text \<open>
  The contract of a client with the invariant \<open>I\<close> of its states: a callback of a descriptor
  object, called on its data, runs to its end, keeps \<open>I\<close> and leaves the descriptor objects of
  the others allocated, and its own too when it returns \<^const>\<open>STATUS_OK\<close>.
\<close>

definition fd_client :: "('c, 'm) callbacks \<Rightarrow> (('c, 'm) evr_loop_scheme \<Rightarrow> bool) \<Rightarrow> bool" where
  "fd_client call I \<longleftrightarrow> (\<forall>c l p f. I l \<and> fd_store l p = Some f \<and> (fd_read_cb f = Some c \<or> fd_write_cb f = Some c) \<longrightarrow>
     (\<exists>st l'. call c (fd_data f) l = Some (st, l') \<and> I l' \<and>
       (\<forall>q. st = STATUS_OK \<or> fd_data_of l q \<noteq> Some (fd_data f) \<longrightarrow> keeps_fd l l' q)))"

text \<open>The pointers of a round of events.\<close>

definition event_ptrs :: "(nat \<times> nat option) list \<Rightarrow> nat list" where
  "event_ptrs es = concat (map (\<lambda>(_, q). case q of None \<Rightarrow> [] | Some p \<Rightarrow> [p]) es)"

locale fd_rounds =
  fixes call :: "('c, 'm) callbacks" and I :: "('c, 'm) evr_loop_scheme \<Rightarrow> bool"
  assumes client: "fd_client call I"
begin

lemma call_runs:
  assumes "I l" "fd_store l p = Some f" "fd_read_cb f = Some c \<or> fd_write_cb f = Some c"
  obtains st l' where "call c (fd_data f) l = Some (st, l')" "I l'"
    "\<And>q. fd_data_of l q \<noteq> None \<Longrightarrow> st = STATUS_OK \<or> fd_data_of l q \<noteq> fd_data_of l p \<Longrightarrow>
       fd_data_of l' q = fd_data_of l q"
proof -
  obtain st l' where r: "call c (fd_data f) l = Some (st, l')" "I l'"
    "\<forall>q. st = STATUS_OK \<or> fd_data_of l q \<noteq> Some (fd_data f) \<longrightarrow> keeps_fd l l' q"
    using client assms unfolding fd_client_def by blast
  have "fd_data_of l p = Some (fd_data f)"
    using assms(2) by (simp add: fd_data_of_def)
  then show ?thesis
    using that[OF r(1,2)] r(3) keeps_fd_data[of l l'] by metis
qed

lemma service_write_keeps:
  assumes "I l" "fd_store l p = Some f"
  shows "\<exists>l'. service_write call events p l = Some l' \<and> I l' \<and>
    (\<forall>q. fd_data_of l q \<noteq> None \<and> fd_data_of l q \<noteq> fd_data_of l p \<longrightarrow> fd_data_of l' q = fd_data_of l q)"
proof (cases "fd_write_cb f")
  case None
  then show ?thesis using assms by (simp add: service_write_def)
next
  case (Some c)
  obtain st l' where "call c (fd_data f) l = Some (st, l')" "I l'"
    "\<And>q. fd_data_of l q \<noteq> None \<Longrightarrow> st = STATUS_OK \<or> fd_data_of l q \<noteq> fd_data_of l p \<Longrightarrow>
       fd_data_of l' q = fd_data_of l q"
    using call_runs[OF assms] Some by blast
  then show ?thesis using assms Some by (simp add: service_write_def)
qed

lemma read_cb_keeps:
  assumes "I l" "fd_store l p = Some f"
  obtains st l1 where
    "(case fd_read_cb f of None \<Rightarrow> Some (STATUS_OK, l)
      | Some c \<Rightarrow> if has_bits (fd_attr_mask f) EVR_FILE_ATTR_VAL_READABLE then call c (fd_data f) l
                  else Some (STATUS_OK, l)) = Some (st, l1)" "I l1"
    "\<And>q. fd_data_of l q \<noteq> None \<Longrightarrow> st = STATUS_OK \<or> fd_data_of l q \<noteq> fd_data_of l p \<Longrightarrow>
       fd_data_of l1 q = fd_data_of l q"
proof (cases "fd_read_cb f")
  case None
  then show ?thesis using that[of STATUS_OK l] assms by simp
next
  case (Some c)
  obtain st l' where r: "call c (fd_data f) l = Some (st, l')" "I l'"
    "\<And>q. fd_data_of l q \<noteq> None \<Longrightarrow> st = STATUS_OK \<or> fd_data_of l q \<noteq> fd_data_of l p \<Longrightarrow>
       fd_data_of l' q = fd_data_of l q"
    using call_runs[OF assms] Some by blast
  show ?thesis
  proof (cases "has_bits (fd_attr_mask f) EVR_FILE_ATTR_VAL_READABLE")
    case True
    then show ?thesis using that[OF _ r(2,3)] r(1) Some by simp
  next
    case False
    then show ?thesis using that[of STATUS_OK l] assms Some by simp
  qed
qed

lemma service_event_keeps:
  assumes "I l" "fd_store l p = Some f"
  shows "\<exists>l'. service_event call events (Some p) l = Some l' \<and> I l' \<and>
    (\<forall>q. fd_data_of l q \<noteq> None \<and> fd_data_of l q \<noteq> fd_data_of l p \<longrightarrow> fd_data_of l' q = fd_data_of l q)"
proof -
  obtain st l1 where r: "(case fd_read_cb f of None \<Rightarrow> Some (STATUS_OK, l)
      | Some c \<Rightarrow> if has_bits (fd_attr_mask f) EVR_FILE_ATTR_VAL_READABLE then call c (fd_data f) l
                  else Some (STATUS_OK, l)) = Some (st, l1)" "I l1"
    "\<And>q. fd_data_of l q \<noteq> None \<Longrightarrow> st = STATUS_OK \<or> fd_data_of l q \<noteq> fd_data_of l p \<Longrightarrow>
       fd_data_of l1 q = fd_data_of l q"
    using read_cb_keeps[OF assms] by blast
  have "service_event call events (Some p) l =
     (if fd_magic f \<noteq> EVR_EVENT_FD_MAGIC then Some l
      else if \<not> has_bits events EVR_EV_VAL_READABLE then service_write call events p l
      else if st \<noteq> STATUS_OK then Some l1
      else if has_bits events EVR_EV_HUP \<or> has_bits events EVR_EV_ERR then Some l1
      else service_write call events p l1)"
    using assms(2) r(1) by (simp add: service_event_def)
  moreover have "\<exists>l'. service_write call events p l1 = Some l' \<and> I l' \<and>
    (\<forall>q. fd_data_of l q \<noteq> None \<and> fd_data_of l q \<noteq> fd_data_of l p \<longrightarrow> fd_data_of l' q = fd_data_of l q)"
    if ok: "st = STATUS_OK"
  proof -
    have same: "fd_data_of l1 q = fd_data_of l q" if "fd_data_of l q \<noteq> None" for q
      using r(3) that ok by simp
    have f: "fd_data_of l p \<noteq> None" using assms(2) by (simp add: fd_data_of_def)
    have "fd_data_of l1 p \<noteq> None" using same[OF f] f by simp
    then obtain f1 where f1: "fd_store l1 p = Some f1" by (cases "fd_store l1 p") (auto simp: fd_data_of_def)
    show ?thesis
      using service_write_keeps[OF r(2) f1, of events] same same[of p] f
      by (elim exE conjE) (intro exI conjI, assumption+, metis)
  qed
  ultimately show ?thesis
    using service_write_keeps[OF assms, of events] assms(1) r(2,3) by auto
qed

lemma service_events_run:
  assumes "I l"
    "\<forall>p \<in> set (event_ptrs es). fd_data_of l p \<noteq> None"
    "distinct (map (fd_data_of l) (event_ptrs es))"
  shows "\<exists>l'. service_events call es l = Some l' \<and> I l'"
  using assms
proof (induction es arbitrary: l)
  case Nil
  then show ?case by simp
next
  case (Cons e es)
  obtain ev q where e: "e = (ev, q)" by (cases e)
  show ?case
  proof (cases q)
    case None
    then show ?thesis using Cons e by (simp add: service_event_def event_ptrs_def)
  next
    case (Some p)
    then obtain f where f: "fd_store l p = Some f"
      using Cons.prems(2) e by (auto simp: event_ptrs_def fd_data_of_def)
    obtain l1 where l1: "service_event call ev (Some p) l = Some l1" "I l1"
      "\<forall>q. fd_data_of l q \<noteq> None \<and> fd_data_of l q \<noteq> fd_data_of l p \<longrightarrow> fd_data_of l1 q = fd_data_of l q"
      using service_event_keeps[OF Cons.prems(1) f] by blast
    have ptrs: "event_ptrs (e # es) = p # event_ptrs es"
      by (simp add: e Some event_ptrs_def)
    have "fd_data_of l1 r = fd_data_of l r" if "r \<in> set (event_ptrs es)" for r
    proof -
      have "fd_data_of l r \<noteq> fd_data_of l p" using Cons.prems(3) that unfolding ptrs by (simp, metis image_eqI)
      then show ?thesis using l1(3) Cons.prems(2) that unfolding ptrs by simp
    qed
    then have "\<exists>l'. service_events call es l1 = Some l' \<and> I l'"
      using Cons.prems l1(2) unfolding ptrs by (intro Cons.IH) (simp_all cong: map_cong)
    then show ?thesis using l1(1) e Some Cons.prems(1) by simp
  qed
qed

end

text \<open>
  C29: When the events a wait returns are for allocated descriptor objects of different
  connections, and the callbacks keep the contract, the round of callbacks never reads a
  freed object: neither the write callback of a connection whose read callback closed it, nor
  the object of a later event.  It ends in a state with the client's invariant.
\<close>

theorem service_events_no_use_after_free:
  assumes "fd_client call I" "I l"
    "\<forall>p \<in> set (event_ptrs es). fd_data_of l p \<noteq> None"
    "distinct (map (fd_data_of l) (event_ptrs es))"
  shows "\<exists>l'. service_events call es l = Some l' \<and> I l'"
  by (rule fd_rounds.service_events_run[OF fd_rounds.intro, OF assms])

text \<open>
  A callback that closes its own connection, as a read callback does at the end of one, on
  objects whose data is their own address.
\<close>

definition demo_close :: "nat \<Rightarrow> nat \<Rightarrow> nat evr_log \<Rightarrow> (int \<times> nat evr_log) option" where
  "demo_close c d l = Some (STATUS_DONE, l\<lparr>fd_store := (fd_store l)(d := None)\<rparr>)"

definition own_data :: "nat evr_log \<Rightarrow> bool" where
  "own_data l \<longleftrightarrow> (\<forall>p f. fd_store l p = Some f \<longrightarrow> fd_data f = p)"

definition demo_fd :: "nat \<Rightarrow> nat evr_fd" where
  "demo_fd d = \<lparr>fd_magic = EVR_EVENT_FD_MAGIC, fd_read_cb = Some 0, fd_write_cb = Some 1, fd_error_cb = None, fd_data = d,
     fd_attr_mask = EVR_FILE_ATTR_MASK_READ OR EVR_FILE_ATTR_MASK_WRITE\<rparr>"

definition demo_fds :: "nat evr_log" where
  "demo_fds = demo_timers\<lparr>fd_store := [5 \<mapsto> demo_fd 5, 6 \<mapsto> demo_fd 6]\<rparr>"

lemma demo_close_client: "fd_client demo_close own_data"
  by (auto simp: fd_client_def demo_close_def own_data_def keeps_fd_def fd_data_of_def status_defs split: option.splits)

interpretation demo: fd_rounds demo_close own_data
  by (rule fd_rounds.intro[OF demo_close_client])

theorem service_events_no_use_after_free_witness:
  "\<exists>l'. service_events demo_close [(EVR_EV_IN OR EVR_EV_OUT, Some 5), (EVR_EV_IN OR EVR_EV_OUT, Some 6)] demo_fds = Some l' \<and>
     own_data l'"
  by (rule service_events_no_use_after_free[OF demo_close_client])
    (simp_all add: own_data_def event_ptrs_def demo_fds_def fd_data_of_def demo_fd_def)

end
