(* ===== verification/Smap.thy ===== *)
theory Smap
  imports Prelude
begin

text \<open>
  \<^verbatim>\<open>std::map\<close> and \<^verbatim>\<open>std::set\<close> as association lists in ascending key order: the order the
  iterators of the code visit.
\<close>

fun smap_upd :: "'k::linorder \<Rightarrow> 'v \<Rightarrow> ('k \<times> 'v) list \<Rightarrow> ('k \<times> 'v) list" where
  "smap_upd k v [] = [(k, v)]"
| "smap_upd k v ((a, b) # m) =
     (if k < a then (k, v) # (a, b) # m else if k = a then (k, v) # m else (a, b) # smap_upd k v m)"

fun smap_del :: "'k::linorder \<Rightarrow> ('k \<times> 'v) list \<Rightarrow> ('k \<times> 'v) list" where
  "smap_del k [] = []"
| "smap_del k ((a, b) # m) = (if k = a then m else (a, b) # smap_del k m)"

definition smap_ok :: "('k::linorder \<times> 'v) list \<Rightarrow> bool" where
  "smap_ok m \<longleftrightarrow> sorted (map fst m) \<and> distinct (map fst m)"

lemma smap_ok_Nil [simp]: "smap_ok []"
  by (simp add: smap_ok_def)

lemma smap_ok_Cons: "smap_ok ((a, b) # m) \<longleftrightarrow> (\<forall>k \<in> fst ` set m. a < k) \<and> smap_ok m"
  by (auto simp: smap_ok_def le_less)

lemma keys_smap_upd [simp]: "fst ` set (smap_upd k v m) = insert k (fst ` set m)"
  by (induction k v m rule: smap_upd.induct) auto

lemma smap_upd_ok [simp]: "smap_ok m \<Longrightarrow> smap_ok (smap_upd k v m)"
  by (induction k v m rule: smap_upd.induct) (auto simp: smap_ok_Cons dest: order.strict_trans)

lemma map_of_smap_upd [simp]: "map_of (smap_upd k v m) = (map_of m)(k \<mapsto> v)"
  by (induction k v m rule: smap_upd.induct) auto

lemma keys_smap_del: "fst ` set (smap_del k m) \<subseteq> fst ` set m"
  by (induction k m rule: smap_del.induct) auto

lemma smap_del_ok [simp]: "smap_ok m \<Longrightarrow> smap_ok (smap_del k m)"
  using keys_smap_del by (induction k m rule: smap_del.induct) (fastforce simp: smap_ok_Cons)+

lemma map_of_smap_del [simp]: "smap_ok m \<Longrightarrow> map_of (smap_del k m) = (map_of m)(k := None)"
proof (induction k m rule: smap_del.induct)
  case (2 k a b m)
  have "k = a \<Longrightarrow> map_of m k = None"
    using "2.prems" by (fastforce simp: smap_ok_Cons map_of_eq_None_iff)
  then show ?case using 2 by (auto simp: smap_ok_Cons)
qed simp

lemma smap_map_of_iff: "smap_ok m \<Longrightarrow> map_of m k = Some v \<longleftrightarrow> (k, v) \<in> set m"
  by (simp add: smap_ok_def)

lemma smap_last_greatest: "smap_ok m \<Longrightarrow> k \<in> fst ` set m \<Longrightarrow> k \<le> fst (last m)"
proof (induction m)
  case (Cons x m)
  then show ?case
    by (cases x; cases "m = []") (auto simp: smap_ok_Cons, meson less_imp_le image_eqI last_in_set order_trans)
qed simp

end
