(* ===== verification/Evr_Select.thy ===== *)
theory Evr_Select
  imports Evr Smap
begin

unbundle bit_operations_syntax

text \<open>
  The two reactors of the event loop: \<^verbatim>\<open>src/core/evr/evr_select.cc\<close> and
  \<^verbatim>\<open>src/core/evr/evr_epoll.cc\<close>.  The system calls \<^verbatim>\<open>select\<close>, \<^verbatim>\<open>epoll_ctl\<close>, \<^verbatim>\<open>epoll_wait\<close> and
  \<^verbatim>\<open>write\<close> are parameters.  The array of events belongs to the loop, which allocates it
  once and passes it to every wait, so it is an argument and a result of \<open>select_wait\<close>.
\<close>

section \<open>select\<close>

record evr_select =
  conn_map :: "(nat \<times> nat) list"
  rfdset :: "nat set"
  wfdset :: "nat set"

definition select_new :: evr_select where
  "select_new = \<lparr>conn_map = [], rfdset = {}, wfdset = {}\<rparr>"

text \<open>
  \<^verbatim>\<open>FD_SET\<close>, \<^verbatim>\<open>FD_CLR\<close> and \<^verbatim>\<open>FD_ISSET\<close> of a descriptor from \<^verbatim>\<open>FD_SETSIZE\<close> on are undefined: they
  reach past the set, and an operation that does so is \<^term>\<open>None\<close>.
\<close>

definition FD_SETSIZE :: nat where "FD_SETSIZE = 1024"

definition fd_set_if :: "nat \<Rightarrow> nat \<Rightarrow> nat \<Rightarrow> nat set \<Rightarrow> nat set" where
  "fd_set_if msk b fd s = (if has_bits msk b then insert fd s else s)"

definition select_mod :: "nat \<Rightarrow> nat \<Rightarrow> nat \<Rightarrow> evr_select \<Rightarrow> (int \<times> evr_select) option" where
  "select_mod fd msk p s =
     (if FD_SETSIZE \<le> fd then None
      else Some (STATUS_OK, s\<lparr>wfdset := fd_set_if msk EVR_FILE_ATTR_MASK_WRITE fd (wfdset s - {fd}),
        rfdset := fd_set_if msk EVR_FILE_ATTR_MASK_STATUS_ERROR fd
                   (fd_set_if msk EVR_FILE_ATTR_MASK_HUP fd
                     (fd_set_if msk EVR_FILE_ATTR_MASK_RD_HUP fd
                       (fd_set_if msk EVR_FILE_ATTR_MASK_READ fd (rfdset s - {fd}))))\<rparr>))"

definition select_add :: "nat \<Rightarrow> nat \<Rightarrow> nat \<Rightarrow> evr_select \<Rightarrow> (int \<times> evr_select) option" where
  "select_add fd msk p s =
     (case select_mod fd msk p (s\<lparr>conn_map := smap_upd fd p (conn_map s)\<rparr>) of
        None \<Rightarrow> None
      | Some (_, s1) \<Rightarrow> Some (STATUS_OK, s1))"

definition select_del :: "nat \<Rightarrow> evr_select \<Rightarrow> (int \<times> evr_select) option" where
  "select_del fd s =
     (if FD_SETSIZE \<le> fd then None
      else Some (STATUS_OK, s\<lparr>conn_map := smap_del fd (conn_map s), rfdset := rfdset s - {fd}, wfdset := wfdset s - {fd}\<rparr>))"

definition select_signal :: "evr_select \<Rightarrow> int" where
  "select_signal s = STATUS_OK"

text \<open>
  The loop over the connections: \<open>evs\<close> is the array of the events, an event its flags and
  its pointer, and writing past its end is undefined.
\<close>

fun select_scan :: "nat set \<Rightarrow> nat set \<Rightarrow> int \<Rightarrow> (nat \<times> nat) list \<Rightarrow> nat \<Rightarrow> (nat \<times> nat option) list \<Rightarrow>
    (int \<times> (nat \<times> nat option) list) option" where
  "select_scan r w sstat [] p evs = Some (int p, evs)"
| "select_scan r w sstat ((fd, ptr) # m) p evs =
     (if FD_SETSIZE \<le> fd then None
      else if fd \<notin> w \<and> fd \<notin> r then select_scan r w sstat m p evs
      else if length evs \<le> p then None
      else let flags = fst (evs ! p) OR (if fd \<in> w then EVR_EV_OUT else 0) OR (if fd \<in> r then EVR_EV_IN else 0);
               evs1 = evs[p := (flags, Some ptr)]
           in if int (Suc p) > sstat then Some (STATUS_ERROR, evs1)
              else select_scan r w sstat m (Suc p) evs1)"

definition select_wait ::
  "(nat \<Rightarrow> nat set \<Rightarrow> nat set \<Rightarrow> nat option \<Rightarrow> int \<times> nat set \<times> nat set) \<Rightarrow>
   (nat \<times> nat option) list \<Rightarrow> int \<Rightarrow> int \<Rightarrow> evr_select \<Rightarrow> (int \<times> (nat \<times> nat option) list) option" where
  "select_wait sel evs max_events timeout s =
     (case sel (if conn_map s = [] then 1 else fst (last (conn_map s)) + 1) (rfdset s) (wfdset s)
             (if timeout \<ge> 0 then Some (nat timeout) else None) of
        (sstat, r, w) \<Rightarrow>
          if sstat < 0 then Some (STATUS_ERROR, evs)
          else if sstat > max_events then Some (STATUS_ERROR, evs)
          else select_scan r w sstat (conn_map s) 0 evs)"

section \<open>epoll\<close>

definition EPOLLIN :: nat where "EPOLLIN = 0x001"
definition EPOLLOUT :: nat where "EPOLLOUT = 0x004"
definition EPOLLERR :: nat where "EPOLLERR = 0x008"
definition EPOLLRDHUP :: nat where "EPOLLRDHUP = 0x2000"
definition EPOLLET :: nat where "EPOLLET = 2 ^ 31"

definition or_if :: "nat \<Rightarrow> nat \<Rightarrow> nat \<Rightarrow> nat \<Rightarrow> nat" where
  "or_if msk b val attr = (if has_bits msk b then attr OR val else attr)"

definition get_epoll_attr :: "nat \<Rightarrow> nat" where
  "get_epoll_attr msk =
     or_if msk EVR_FILE_ATTR_MASK_ET EPOLLET
    (or_if msk EVR_FILE_ATTR_MASK_HUP EPOLLRDHUP
    (or_if msk EVR_FILE_ATTR_MASK_RD_HUP EPOLLRDHUP
    (or_if msk EVR_FILE_ATTR_MASK_STATUS_ERROR EPOLLERR
    (or_if msk EVR_FILE_ATTR_MASK_WRITE EPOLLOUT
    (or_if msk EVR_FILE_ATTR_MASK_READ EPOLLIN 0)))))"

datatype epoll_op = EPOLL_CTL_ADD | EPOLL_CTL_MOD | EPOLL_CTL_DEL

text \<open>The argument of \<^verbatim>\<open>epoll_ctl\<close> is the operation, the descriptor, the events and the pointer.\<close>

type_synonym 'k epoll_ctl = "epoll_op \<Rightarrow> int \<Rightarrow> (nat \<times> nat option) option \<Rightarrow> 'k \<Rightarrow> int \<times> 'k"

definition epoll_add :: "'k epoll_ctl \<Rightarrow> int \<Rightarrow> nat \<Rightarrow> nat option \<Rightarrow> 'k \<Rightarrow> int \<times> 'k" where
  "epoll_add ctl fd msk p k =
     (case ctl EPOLL_CTL_ADD fd (Some (get_epoll_attr msk, p)) k of
        (rc, k1) \<Rightarrow> if rc \<noteq> 0 then (STATUS_ERROR, k1) else (STATUS_OK, k1))"

definition epoll_mod :: "'k epoll_ctl \<Rightarrow> int \<Rightarrow> nat \<Rightarrow> nat option \<Rightarrow> 'k \<Rightarrow> int \<times> 'k" where
  "epoll_mod ctl fd msk p k =
     (case ctl EPOLL_CTL_MOD fd (Some (get_epoll_attr msk, p)) k of
        (rc, k1) \<Rightarrow> if rc \<noteq> 0 then (STATUS_ERROR, k1) else (STATUS_OK, k1))"

definition epoll_del :: "'k epoll_ctl \<Rightarrow> int \<Rightarrow> int \<Rightarrow> 'k \<Rightarrow> int \<times> 'k" where
  "epoll_del ctl m_fd fd k =
     (if 0 < m_fd \<and> 0 < fd
      then (case ctl EPOLL_CTL_DEL fd None k of (rc, k1) \<Rightarrow> if rc \<noteq> 0 then (STATUS_ERROR, k1) else (STATUS_OK, k1))
      else (STATUS_OK, k))"

definition epoll_signal :: "('k \<Rightarrow> int \<times> 'k) \<Rightarrow> 'k \<Rightarrow> int \<times> 'k" where
  "epoll_signal write_ctrl k =
     (case write_ctrl k of (n, k1) \<Rightarrow> if n = -1 then (STATUS_ERROR, k1) else (STATUS_OK, k1))"

text \<open>\<^verbatim>\<open>evr_epoll::evr_epoll\<close>: \<^term>\<open>None\<close> where the code exits.\<close>

definition epoll_new :: "('k \<Rightarrow> int \<times> 'k) \<Rightarrow> ('k \<Rightarrow> int \<times> 'k) \<Rightarrow> 'k epoll_ctl \<Rightarrow> 'k \<Rightarrow> (int \<times> int \<times> 'k) option" where
  "epoll_new create evfd ctl k =
     (case create k of (m_fd, k1) \<Rightarrow>
        if m_fd = -1 then None
        else (case evfd k1 of (c_fd, k2) \<Rightarrow>
          if c_fd = -1 then None
          else (case epoll_add ctl c_fd (EVR_FILE_ATTR_MASK_READ OR EVR_FILE_ATTR_MASK_ET) None k2 of
                  (st, k3) \<Rightarrow> if st \<noteq> 0 then None else Some (m_fd, c_fd, k3))))"

section \<open>The interface of a reactor\<close>

text \<open>
  What the event loop relies on: \<open>reg\<close> is the object registered for a descriptor, \<open>watch\<close>
  whether it is watched for reading and for writing.
\<close>

datatype reactor_op = Op_Add (op_fd: nat) nat nat | Op_Mod (op_fd: nat) nat nat | Op_Del (op_fd: nat)

definition wants_read :: "nat \<Rightarrow> bool" where
  "wants_read msk \<longleftrightarrow> has_bits msk EVR_FILE_ATTR_MASK_READ \<or> has_bits msk EVR_FILE_ATTR_MASK_RD_HUP \<or>
     has_bits msk EVR_FILE_ATTR_MASK_HUP \<or> has_bits msk EVR_FILE_ATTR_MASK_STATUS_ERROR"

definition wants_write :: "nat \<Rightarrow> bool" where
  "wants_write msk \<longleftrightarrow> has_bits msk EVR_FILE_ATTR_MASK_WRITE"

fun last_reg :: "reactor_op list \<Rightarrow> nat \<Rightarrow> nat option \<Rightarrow> nat option" where
  "last_reg [] fd r = r"
| "last_reg (Op_Add g _ p # ops) fd r = last_reg ops fd (if g = fd then Some p else r)"
| "last_reg (Op_Mod _ _ _ # ops) fd r = last_reg ops fd r"
| "last_reg (Op_Del g # ops) fd r = last_reg ops fd (if g = fd then None else r)"

fun last_watch :: "reactor_op list \<Rightarrow> nat \<Rightarrow> bool \<times> bool \<Rightarrow> bool \<times> bool" where
  "last_watch [] fd b = b"
| "last_watch (Op_Add g m _ # ops) fd b = last_watch ops fd (if g = fd then (wants_read m, wants_write m) else b)"
| "last_watch (Op_Mod g m _ # ops) fd b = last_watch ops fd (if g = fd then (wants_read m, wants_write m) else b)"
| "last_watch (Op_Del g # ops) fd b = last_watch ops fd (if g = fd then (False, False) else b)"

locale reactor =
  fixes add :: "nat \<Rightarrow> nat \<Rightarrow> nat \<Rightarrow> 's \<Rightarrow> (int \<times> 's) option"
    and modify :: "nat \<Rightarrow> nat \<Rightarrow> nat \<Rightarrow> 's \<Rightarrow> (int \<times> 's) option"
    and del :: "nat \<Rightarrow> 's \<Rightarrow> (int \<times> 's) option"
    and able :: "nat \<Rightarrow> bool"
    and inv :: "'s \<Rightarrow> bool"
    and reg :: "'s \<Rightarrow> nat \<Rightarrow> nat option"
    and watch :: "'s \<Rightarrow> nat \<Rightarrow> bool \<times> bool"
  assumes add_law: "inv s \<Longrightarrow> able fd \<Longrightarrow> \<exists>s'. add fd m p s = Some (STATUS_OK, s') \<and> inv s' \<and>
        reg s' = (reg s)(fd \<mapsto> p) \<and> watch s' = (watch s)(fd := (wants_read m, wants_write m))"
    and modify_law: "inv s \<Longrightarrow> able fd \<Longrightarrow> \<exists>s'. modify fd m p s = Some (STATUS_OK, s') \<and> inv s' \<and>
        reg s' = reg s \<and> watch s' = (watch s)(fd := (wants_read m, wants_write m))"
    and del_law: "inv s \<Longrightarrow> able fd \<Longrightarrow> \<exists>s'. del fd s = Some (STATUS_OK, s') \<and> inv s' \<and>
        reg s' = (reg s)(fd := None) \<and> watch s' = (watch s)(fd := (False, False))"
begin

fun run :: "reactor_op list \<Rightarrow> 's \<Rightarrow> 's option" where
  "run [] s = Some s"
| "run (Op_Add fd m p # ops) s = (case add fd m p s of None \<Rightarrow> None | Some (_, s1) \<Rightarrow> run ops s1)"
| "run (Op_Mod fd m p # ops) s = (case modify fd m p s of None \<Rightarrow> None | Some (_, s1) \<Rightarrow> run ops s1)"
| "run (Op_Del fd # ops) s = (case del fd s of None \<Rightarrow> None | Some (_, s1) \<Rightarrow> run ops s1)"

lemma run_ok:
  "inv s \<Longrightarrow> list_all (\<lambda>x. able (op_fd x)) ops \<Longrightarrow> \<exists>s'. run ops s = Some s' \<and> inv s' \<and>
    (\<forall>fd. reg s' fd = last_reg ops fd (reg s fd) \<and> watch s' fd = last_watch ops fd (watch s fd))"
proof (induction ops s rule: run.induct)
  case (2 fd m p ops s)
  obtain s1 where s1: "add fd m p s = Some (STATUS_OK, s1)" "inv s1" "reg s1 = (reg s)(fd \<mapsto> p)"
    "watch s1 = (watch s)(fd := (wants_read m, wants_write m))" using add_law[of s fd m p] 2(2,3) by auto
  obtain s' where "run ops s1 = Some s'" "inv s'"
    "\<forall>g. reg s' g = last_reg ops g (reg s1 g) \<and> watch s' g = last_watch ops g (watch s1 g)"
    using 2(1)[OF s1(1) refl s1(2)] 2(3) by auto
  then show ?case using s1 by (intro exI[of _ s']) (simp add: eq_sym_conv[of _ fd] cong: if_cong)
next
  case (3 fd m p ops s)
  obtain s1 where s1: "modify fd m p s = Some (STATUS_OK, s1)" "inv s1" "reg s1 = reg s"
    "watch s1 = (watch s)(fd := (wants_read m, wants_write m))" using modify_law[of s fd m p] 3(2,3) by auto
  obtain s' where "run ops s1 = Some s'" "inv s'"
    "\<forall>g. reg s' g = last_reg ops g (reg s1 g) \<and> watch s' g = last_watch ops g (watch s1 g)"
    using 3(1)[OF s1(1) refl s1(2)] 3(3) by auto
  then show ?case using s1 by (intro exI[of _ s']) (simp add: eq_sym_conv[of _ fd] cong: if_cong)
next
  case (4 fd ops s)
  obtain s1 where s1: "del fd s = Some (STATUS_OK, s1)" "inv s1" "reg s1 = (reg s)(fd := None)"
    "watch s1 = (watch s)(fd := (False, False))" using del_law[of s fd] 4(2,3) by auto
  obtain s' where "run ops s1 = Some s'" "inv s'"
    "\<forall>g. reg s' g = last_reg ops g (reg s1 g) \<and> watch s' g = last_watch ops g (watch s1 g)"
    using 4(1)[OF s1(1) refl s1(2)] 4(3) by auto
  then show ?case using s1 by (intro exI[of _ s']) (simp add: eq_sym_conv[of _ fd] cong: if_cong)
qed simp

end

definition sel_inv :: "evr_select \<Rightarrow> bool" where
  "sel_inv s \<longleftrightarrow> smap_ok (conn_map s) \<and> finite (rfdset s) \<and> finite (wfdset s) \<and> (\<forall>x \<in> set (conn_map s). fst x < FD_SETSIZE)"

definition sel_watch :: "evr_select \<Rightarrow> nat \<Rightarrow> bool \<times> bool" where
  "sel_watch s fd = (fd \<in> rfdset s, fd \<in> wfdset s)"

lemma sel_conns: "smap_ok m \<Longrightarrow> (\<forall>x \<in> set m. fst x < (n :: nat)) \<longleftrightarrow> (\<forall>fd. map_of m fd \<noteq> None \<longrightarrow> fd < n)"
  by (auto simp: map_of_eq_None_iff)

lemma sel_add_ok:
  assumes "sel_inv s" "fd < FD_SETSIZE"
  shows "\<exists>s'. select_add fd m p s = Some (STATUS_OK, s') \<and> sel_inv s' \<and>
    map_of (conn_map s') = (map_of (conn_map s))(fd \<mapsto> p) \<and> sel_watch s' = (sel_watch s)(fd := (wants_read m, wants_write m))"
  using assms sel_conns[of "smap_upd fd p (conn_map s)" FD_SETSIZE] sel_conns[of "conn_map s" FD_SETSIZE]
  by (auto simp: sel_inv_def sel_watch_def select_add_def select_mod_def fd_set_if_def wants_read_def wants_write_def fun_eq_iff)

lemma sel_mod_ok:
  assumes "sel_inv s" "fd < FD_SETSIZE"
  shows "\<exists>s'. select_mod fd m p s = Some (STATUS_OK, s') \<and> sel_inv s' \<and>
    map_of (conn_map s') = map_of (conn_map s) \<and> sel_watch s' = (sel_watch s)(fd := (wants_read m, wants_write m))"
  using assms by (auto simp: sel_inv_def sel_watch_def select_mod_def fd_set_if_def wants_read_def wants_write_def fun_eq_iff)

lemma sel_del_ok:
  assumes "sel_inv s" "fd < FD_SETSIZE"
  shows "\<exists>s'. select_del fd s = Some (STATUS_OK, s') \<and> sel_inv s' \<and>
    map_of (conn_map s') = (map_of (conn_map s))(fd := None) \<and> sel_watch s' = (sel_watch s)(fd := (False, False))"
  using assms sel_conns[of "smap_del fd (conn_map s)" FD_SETSIZE] sel_conns[of "conn_map s" FD_SETSIZE]
  by (auto simp: sel_inv_def sel_watch_def select_del_def fun_eq_iff)

interpretation sel: reactor select_add select_mod select_del "\<lambda>fd. fd < FD_SETSIZE" sel_inv "\<lambda>s. map_of (conn_map s)" sel_watch
  by unfold_locales (simp_all add: sel_add_ok sel_mod_ok sel_del_ok)

text \<open>The registrations of a client of the select reactor.\<close>

fun select_run :: "reactor_op list \<Rightarrow> evr_select \<Rightarrow> evr_select option" where
  "select_run [] s = Some s"
| "select_run (Op_Add fd m p # ops) s = (case select_add fd m p s of None \<Rightarrow> None | Some (_, s1) \<Rightarrow> select_run ops s1)"
| "select_run (Op_Mod fd m p # ops) s = (case select_mod fd m p s of None \<Rightarrow> None | Some (_, s1) \<Rightarrow> select_run ops s1)"
| "select_run (Op_Del fd # ops) s = (case select_del fd s of None \<Rightarrow> None | Some (_, s1) \<Rightarrow> select_run ops s1)"

lemma select_run_eq: "select_run ops s = sel.run ops s"
  by (induction ops s rule: select_run.induct) (simp_all split: option.split prod.split)

lemma sel_inv_new: "sel_inv select_new"
  by (simp add: sel_inv_def select_new_def)

section \<open>What a wait of select reports\<close>

definition ready :: "nat set \<Rightarrow> nat set \<Rightarrow> (nat \<times> nat) list \<Rightarrow> (nat \<times> nat) list" where
  "ready r w m = filter (\<lambda>(fd, _). fd \<in> w \<or> fd \<in> r) m"

definition ready_flags :: "nat set \<Rightarrow> nat set \<Rightarrow> nat \<Rightarrow> nat" where
  "ready_flags r w fd = (if fd \<in> w then EVR_EV_OUT else 0) OR (if fd \<in> r then EVR_EV_IN else 0)"

lemma ready_simps [simp]:
  "ready r w [] = []"
  "ready r w ((fd, p) # m) = (if fd \<in> w \<or> fd \<in> r then (fd, p) # ready r w m else ready r w m)"
  by (simp_all add: ready_def)

lemma select_scan_spec:
  assumes "\<forall>x \<in> set m. fst x < FD_SETSIZE" "p + length (ready r w m) \<le> length evs" "int (p + length (ready r w m)) \<le> sstat"
  shows "\<exists>evs'. select_scan r w sstat m p evs = Some (int (p + length (ready r w m)), evs') \<and>
    length evs' = length evs \<and>
    (\<forall>i < length evs. evs' ! i = (if p \<le> i \<and> i < p + length (ready r w m)
       then (fst (evs ! i) OR ready_flags r w (fst (ready r w m ! (i - p))), Some (snd (ready r w m ! (i - p))))
       else evs ! i))"
  using assms
proof (induction r w sstat m p evs rule: select_scan.induct)
  case (1 r w sstat p evs)
  then show ?case by auto
next
  case (2 r w sstat fd ptr m p evs)
  have fd: "\<not> FD_SETSIZE \<le> fd" and m: "\<forall>x \<in> set m. fst x < FD_SETSIZE" using "2.prems"(1) by auto
  show ?case
  proof (cases "fd \<notin> w \<and> fd \<notin> r")
    case True
    then have "ready r w ((fd, ptr) # m) = ready r w m"
      "select_scan r w sstat ((fd, ptr) # m) p evs = select_scan r w sstat m p evs" using fd by simp_all
    then show ?thesis using "2.IH"(1)[OF fd True m] "2.prems"(2,3) by metis
  next
    case False
    define evs1 where "evs1 = evs[p := (fst (evs ! p) OR ready_flags r w fd, Some ptr)]"
    have p: "p < length evs" using "2.prems"(2) False by (auto split: if_splits)
    have next_ok: "Suc p + length (ready r w m) \<le> length evs1" "int (Suc p + length (ready r w m)) \<le> sstat"
      using "2.prems" False by (auto simp: evs1_def)
    have step: "select_scan r w sstat ((fd, ptr) # m) p evs = select_scan r w sstat m (Suc p) evs1"
      using False fd p next_ok(2) by (auto simp: evs1_def ready_flags_def Let_def or.assoc)
    have IH: "\<exists>evs'. select_scan r w sstat m (Suc p) evs1 = Some (int (Suc p + length (ready r w m)), evs') \<and>
      length evs' = length evs1 \<and>
      (\<forall>i < length evs1. evs' ! i = (if Suc p \<le> i \<and> i < Suc p + length (ready r w m)
       then (fst (evs1 ! i) OR ready_flags r w (fst (ready r w m ! (i - Suc p))), Some (snd (ready r w m ! (i - Suc p))))
       else evs1 ! i))"
      using "2.IH"(2)[OF fd _ _ _ _ _ m next_ok] False p next_ok(2)
      by (auto simp: evs1_def ready_flags_def or.assoc)
    then obtain evs' where evs': "select_scan r w sstat m (Suc p) evs1 = Some (int (Suc p + length (ready r w m)), evs')"
      "length evs' = length evs1"
      "\<forall>i < length evs1. evs' ! i = (if Suc p \<le> i \<and> i < Suc p + length (ready r w m)
       then (fst (evs1 ! i) OR ready_flags r w (fst (ready r w m ! (i - Suc p))), Some (snd (ready r w m ! (i - Suc p))))
       else evs1 ! i)" by blast
    have "evs' ! i = (if p \<le> i \<and> i < p + length (ready r w ((fd, ptr) # m))
       then (fst (evs ! i) OR ready_flags r w (fst (ready r w ((fd, ptr) # m) ! (i - p))), Some (snd (ready r w ((fd, ptr) # m) ! (i - p))))
       else evs ! i)" if "i < length evs" for i
    proof (cases "i = p")
      case True
      then show ?thesis using evs'(3) False p by (auto simp: evs1_def)
    next
      case neq: False
      then have "p \<le> i \<Longrightarrow> i - p = Suc (i - Suc p)" by simp
      then show ?thesis using evs'(3) False that neq by (auto simp: evs1_def)
    qed
    then show ?thesis using step evs'(1,2) False by (auto simp: evs1_def)
  qed
qed

lemma card_ready_le:
  assumes "smap_ok m" "finite r" "finite w"
  shows "length (ready r w m) \<le> card r + card w"
proof -
  have d: "distinct (map fst (ready r w m))"
    using assms(1) by (simp add: ready_def smap_ok_def distinct_map_filter)
  have "length (ready r w m) = card (fst ` set (ready r w m))"
    using distinct_card[OF d] by simp
  also have "\<dots> \<le> card (r \<union> w)"
    using assms by (intro card_mono) (auto simp: ready_def)
  also have "\<dots> \<le> card r + card w"
    by (rule card_Un_le)
  finally show ?thesis .
qed

text \<open>
  The contract of \<^verbatim>\<open>select\<close> when it succeeds: it leaves in the two sets the members that
  are ready and returns how many bits are set.
\<close>

definition select_contract :: "(nat \<Rightarrow> nat set \<Rightarrow> nat set \<Rightarrow> nat option \<Rightarrow> int \<times> nat set \<times> nat set) \<Rightarrow> bool" where
  "select_contract sel \<longleftrightarrow> (\<forall>n r w t c r' w'. finite r \<and> finite w \<and> sel n r w t = (c, r', w') \<and> 0 \<le> c \<longrightarrow>
      r' \<subseteq> r \<and> w' \<subseteq> w \<and> c = int (card r' + card w'))"

text \<open>A wait that succeeds fills the array with the connections that are ready.\<close>

lemma select_wait_spec:
  assumes "select_contract sys" "sel_inv s"
    and "sys (if conn_map s = [] then 1 else fst (last (conn_map s)) + 1) (rfdset s) (wfdset s)
           (if t \<ge> 0 then Some (nat t) else None) = (c, r, w)" "0 \<le> c" "c \<le> max_ev" "max_ev \<le> int (length evs)"
  shows "r \<subseteq> rfdset s \<and> w \<subseteq> wfdset s \<and> length (ready r w (conn_map s)) \<le> length evs \<and>
    (\<exists>evs'. select_wait sys evs max_ev t s = Some (int (length (ready r w (conn_map s))), evs') \<and> length evs' = length evs \<and>
      (\<forall>i < length evs. evs' ! i = (if i < length (ready r w (conn_map s))
         then (fst (evs ! i) OR ready_flags r w (fst (ready r w (conn_map s) ! i)), Some (snd (ready r w (conn_map s) ! i)))
         else evs ! i)))"
proof -
  have ok: "smap_ok (conn_map s)" "finite (rfdset s)" "finite (wfdset s)" using assms(2) by (simp_all add: sel_inv_def)
  have con: "r \<subseteq> rfdset s" "w \<subseteq> wfdset s" "c = int (card r + card w)"
    using assms(1)[unfolded select_contract_def, rule_format, OF conjI[OF ok(2) conjI[OF ok(3) conjI[OF assms(3,4)]]]]
    by simp_all
  have fin: "finite r" "finite w" using con(1,2) ok(2,3) finite_subset by blast+
  have len: "int (length (ready r w (conn_map s))) \<le> c"
    using card_ready_le[OF ok(1) fin] con(3) by simp
  have "\<exists>evs'. select_scan r w c (conn_map s) 0 evs = Some (int (0 + length (ready r w (conn_map s))), evs') \<and>
    length evs' = length evs \<and>
    (\<forall>i < length evs. evs' ! i = (if 0 \<le> i \<and> i < 0 + length (ready r w (conn_map s))
       then (fst (evs ! i) OR ready_flags r w (fst (ready r w (conn_map s) ! (i - 0))), Some (snd (ready r w (conn_map s) ! (i - 0))))
       else evs ! i))"
    using len assms(2,5,6) by (intro select_scan_spec) (auto simp: sel_inv_def)
  moreover have "select_wait sys evs max_ev t s = select_scan r w c (conn_map s) 0 evs"
    using assms(3-5) by (simp add: select_wait_def)
  moreover have "length (ready r w (conn_map s)) \<le> length evs" using len assms(5,6) by linarith
  ultimately show ?thesis using con(1,2) by auto
qed


definition demo_select :: "nat \<Rightarrow> nat set \<Rightarrow> nat set \<Rightarrow> nat option \<Rightarrow> int \<times> nat set \<times> nat set" where
  "demo_select n r w t = (int (card r + card w), r, w)"


text \<open>
  The flags of an earlier wait stay in the array: a descriptor that is only readable is
  reported as writeable too when the slot was last used for a writeable one.
\<close>

lemma select_wait_stale_flags:
  "select_wait (\<lambda>n r w t. (1, {3}, {})) [(EVR_EV_OUT, Some 40)] 1 (-1) \<lparr>conn_map = [(3, 30)], rfdset = {3}, wfdset = {3}\<rparr>
     = Some (1, [(EVR_EV_OUT OR EVR_EV_IN, Some 30)])"
  by (simp add: select_wait_def FD_SETSIZE_def)

end
