(* ===== verification/Http_Msg.thy ===== *)
theory Http_Msg
  imports Nbq_Ops Kv_Map Smap Uri "HOL-Library.Char_ord" "HOL-Library.List_Lexorder"
begin

text \<open>
  HTTP messages: \<^verbatim>\<open>src/core/http/hmsg.cc\<close>, the parser callbacks of \<^verbatim>\<open>cb.cc\<close>, responses
  (\<^verbatim>\<open>resp.cc\<close>) and requests (\<^verbatim>\<open>rqst.cc\<close>).  The parser itself (\<^verbatim>\<open>http_parser\<close>) is vendored:
  what it calls is a list of events.  The queue a message refers to belongs to the
  connection and is passed to the functions that read it.
\<close>

section \<open>The message\<close>

record cr =
  cr_off :: nat
  cr_len :: nat

definition cr_new :: cr where "cr_new = \<lparr>cr_off = 0, cr_len = 0\<rparr>"

datatype hmsg_type = TYPE_NONE | TYPE_RQST | TYPE_RESP

record hmsg =
  hm_expect_resp_body_flag :: bool
  hm_cur_off :: nat
  hm_save :: bool
  hm_h_list_key :: "cr list"
  hm_h_list_val :: "cr list"
  hm_body :: cr
  hm_http_major :: int
  hm_http_minor :: int
  hm_complete :: bool
  hm_supports_keep_alives :: bool
  hm_type :: hmsg_type
  hm_body_q :: "nbq option"
  hm_idx :: nat
  hm_headers :: "kv_map_list option"

definition hmsg_init :: "bool \<Rightarrow> 'a hmsg_scheme \<Rightarrow> 'a hmsg_scheme" where
  "hmsg_init save m = m\<lparr>hm_h_list_key := [], hm_h_list_val := [], hm_body := cr_new, hm_http_major := 0,
     hm_http_minor := 0, hm_complete := False, hm_supports_keep_alives := False, hm_save := save,
     hm_headers := None, hm_body_q := None\<rparr>"

definition hmsg_new :: hmsg where
  "hmsg_new = hmsg_init False \<lparr>hm_expect_resp_body_flag = True, hm_cur_off = 0, hm_save = False, hm_h_list_key = [],
     hm_h_list_val = [], hm_body = cr_new, hm_http_major = 0, hm_http_minor = 0, hm_complete = False,
     hm_supports_keep_alives = False, hm_type = TYPE_NONE, hm_body_q = None, hm_idx = 0, hm_headers = None\<rparr>"

text \<open>
  \<^verbatim>\<open>get_body_q\<close>: a null result is \<^term>\<open>None\<close> in the second component; \<^verbatim>\<open>m_q\<close> is cut in two.
\<close>

definition get_body_q :: "nbq \<Rightarrow> 'a hmsg_scheme \<Rightarrow> (nbq \<times> nbq option \<times> 'a hmsg_scheme) option" where
  "get_body_q q m =
     (case hm_body_q m of
        Some b \<Rightarrow> Some (q, Some b, m)
      | None \<Rightarrow>
          if cr_off (hm_body m) = 0 then Some (q, None, m)
          else (case nbq_split (cr_off (hm_body m)) q of
                  None \<Rightarrow> None
                | Some (st, t, q1) \<Rightarrow>
                    if st \<noteq> STATUS_OK then Some (q1, None, m\<lparr>hm_body_q := t\<rparr>)
                    else Some (q1, t, m\<lparr>hm_body_q := t\<rparr>)))"

definition get_body_len :: "'a hmsg_scheme \<Rightarrow> nat" where
  "get_body_len m = cr_len (hm_body m)"

definition reset_body_q :: "'a hmsg_scheme \<Rightarrow> 'a hmsg_scheme" where
  "reset_body_q m = m\<lparr>hm_body_q := None, hm_body := cr_new\<rparr>"

text \<open>The walk over the two lists of slices, and \<^verbatim>\<open>get_headers\<close>, which keeps its result.\<close>

fun copy_headers :: "cr list \<Rightarrow> cr list \<Rightarrow> nbq \<Rightarrow> kv_map_list \<Rightarrow> (kv_map_list \<times> nbq) option" where
  "copy_headers (k # ks) (v # vs) q hs =
     do {
       (kb, q1) \<leftarrow> copy_part (cr_off k) (cr_len k) q;
       (vb, q2) \<leftarrow> copy_part (cr_off v) (cr_len v) q1;
       copy_headers ks vs q2 (kv_append (c_str kb) (c_str vb) hs) }"
| "copy_headers ks vs q hs = Some (hs, q)"

definition get_headers :: "nbq \<Rightarrow> 'a hmsg_scheme \<Rightarrow> (kv_map_list \<times> nbq \<times> 'a hmsg_scheme) option" where
  "get_headers q m =
     (case hm_headers m of
        Some hs \<Rightarrow> Some (hs, q, m)
      | None \<Rightarrow> (case copy_headers (hm_h_list_key m) (hm_h_list_val m) q [] of
           None \<Rightarrow> None | Some (hs, q1) \<Rightarrow> Some (hs, q1, m\<lparr>hm_headers := Some hs\<rparr>)))"

section \<open>Responses and requests\<close>

record resp = hmsg +
  rs_status_cr :: cr
  rs_status :: nat
  rs_tls_protocol :: "string option"
  rs_tls_cipher :: "string option"
  rs_save_callbacks :: bool

definition HTTP_STATUS_NONE :: nat where "HTTP_STATUS_NONE = 0"

definition resp_init :: "bool \<Rightarrow> resp \<Rightarrow> resp" where
  "resp_init save m =
     (let m = hmsg_init save m in
      m\<lparr>hm_type := TYPE_RESP, rs_status_cr := cr_new, rs_tls_protocol := None, rs_tls_cipher := None,
        rs_status := HTTP_STATUS_NONE, rs_save_callbacks := save\<rparr>)"

definition resp_new :: resp where
  "resp_new = resp_init False (hmsg.extend hmsg_new
     \<lparr>rs_status_cr = cr_new, rs_status = 0, rs_tls_protocol = None, rs_tls_cipher = None, rs_save_callbacks = False\<rparr>)"

definition resp_clear :: "resp \<Rightarrow> resp" where
  "resp_clear m = resp_init (hm_save m) m"

type_synonym query_map = "(string \<times> string list) list"

record rqst = hmsg +
  rqs_url_cr :: cr
  rqs_method :: nat
  rqs_expect :: bool
  rqs_url_parsed :: bool
  rqs_url :: string
  rqs_url_path :: string
  rqs_url_query :: string
  rqs_url_query_map :: query_map
  rqs_url_fragment :: string

definition HTTP_GET :: nat where "HTTP_GET = 1"

definition rqst_init :: "bool \<Rightarrow> rqst \<Rightarrow> rqst" where
  "rqst_init save m =
     (let m = hmsg_init save m in
      m\<lparr>hm_type := TYPE_RQST, hm_save := save, rqs_url_cr := cr_new, rqs_method := HTTP_GET, rqs_expect := False,
        rqs_url := [], rqs_url_path := [], rqs_url_query := [], rqs_url_query_map := [], rqs_url_fragment := [],
        rqs_url_parsed := False\<rparr>)"

definition rqst_new :: rqst where
  "rqst_new = rqst_init True (hmsg.extend hmsg_new
     \<lparr>rqs_url_cr = cr_new, rqs_method = HTTP_GET, rqs_expect = False, rqs_url_parsed = False, rqs_url = [],
      rqs_url_path = [], rqs_url_query = [], rqs_url_query_map = [], rqs_url_fragment = []\<rparr>)"

section \<open>The parser callbacks\<close>

text \<open>
  A pointer \<^verbatim>\<open>a_at\<close> into the buffer being parsed is its offset there, \<open>a_at - m_cur_buf\<close>.
\<close>

definition calc_offset :: "nat \<Rightarrow> 'a hmsg_scheme \<Rightarrow> nat" where
  "calc_offset at m = u64 (at + hm_cur_off m)"

definition slice_at :: "nat \<Rightarrow> nat \<Rightarrow> 'a hmsg_scheme \<Rightarrow> cr" where
  "slice_at at len m = \<lparr>cr_off = calc_offset at m, cr_len = len\<rparr>"

definition hp_on_url :: "nat \<Rightarrow> nat \<Rightarrow> rqst \<Rightarrow> int \<times> rqst" where
  "hp_on_url at len m =
     (if hm_save m \<and> hm_type m = TYPE_RQST then (0, m\<lparr>rqs_url_cr := slice_at at len m\<rparr>) else (0, m))"

definition hp_on_status :: "nat \<Rightarrow> nat \<Rightarrow> nat \<Rightarrow> resp \<Rightarrow> int \<times> resp" where
  "hp_on_status code at len m =
     (if hm_type m = TYPE_RESP
      then (let m1 = m\<lparr>rs_status := code\<rparr> in
            (0, if hm_save m1 then m1\<lparr>rs_status_cr := slice_at at len m1\<rparr> else m1))
      else (0, m))"

definition push_header_field :: "nat \<Rightarrow> nat \<Rightarrow> 'a hmsg_scheme \<Rightarrow> 'a hmsg_scheme" where
  "push_header_field at len m =
     (if hm_save m then m\<lparr>hm_h_list_key := hm_h_list_key m @ [slice_at at len m]\<rparr> else m)"

text \<open>\<open>bytes\<close> are the bytes at \<open>at\<close> in the buffer.\<close>

definition hp_on_header_field_rqst :: "nat \<Rightarrow> string \<Rightarrow> rqst \<Rightarrow> int \<times> rqst" where
  "hp_on_header_field_rqst at bytes m =
     (let m1 = push_header_field at (length bytes) m in
      (0, if hm_save m \<and> hm_type m = TYPE_RQST \<and> length bytes = 6 \<and> hd bytes = CHR ''E'' \<and> map to_lower bytes = ''expect''
          then m1\<lparr>rqs_expect := True\<rparr> else m1))"

definition hp_on_header_field :: "nat \<Rightarrow> nat \<Rightarrow> resp \<Rightarrow> int \<times> resp" where
  "hp_on_header_field at len m = (0, push_header_field at len m)"

definition hp_on_header_value :: "nat \<Rightarrow> nat \<Rightarrow> 'a hmsg_scheme \<Rightarrow> int \<times> 'a hmsg_scheme" where
  "hp_on_header_value at len m =
     (0, if hm_save m then m\<lparr>hm_h_list_val := hm_h_list_val m @ [slice_at at len m]\<rparr> else m)"

definition hp_on_headers_complete :: "int \<Rightarrow> int \<Rightarrow> 'a hmsg_scheme \<Rightarrow> int \<times> 'a hmsg_scheme" where
  "hp_on_headers_complete major minor m =
     (let m1 = (if hm_save m then m\<lparr>hm_http_major := major, hm_http_minor := minor\<rparr> else m) in
      (if hm_type m1 = TYPE_RESP \<and> \<not> hm_expect_resp_body_flag m1 then 1 else 0, m1))"

definition hp_on_headers_complete_rqst :: "int \<Rightarrow> int \<Rightarrow> nat \<Rightarrow> rqst \<Rightarrow> int \<times> rqst" where
  "hp_on_headers_complete_rqst major minor meth m =
     (case hp_on_headers_complete major minor m of (r, m1) \<Rightarrow>
        (r, if hm_save m \<and> hm_type m = TYPE_RQST then m1\<lparr>rqs_method := meth\<rparr> else m1))"

definition hp_on_body :: "nat \<Rightarrow> nat \<Rightarrow> 'a hmsg_scheme \<Rightarrow> int \<times> 'a hmsg_scheme" where
  "hp_on_body at len m =
     (0, if hm_save m
         then (if cr_off (hm_body m) = 0 then m\<lparr>hm_body := slice_at at len m\<rparr>
               else m\<lparr>hm_body := (hm_body m)\<lparr>cr_len := u64 (cr_len (hm_body m) + len)\<rparr>\<rparr>)
         else m)"

definition hp_on_message_complete :: "bool \<Rightarrow> 'a hmsg_scheme \<Rightarrow> int \<times> 'a hmsg_scheme" where
  "hp_on_message_complete keep_alive m = (0, m\<lparr>hm_complete := True, hm_supports_keep_alives := keep_alive\<rparr>)"

text \<open>The events of the parser, and those that \<^verbatim>\<open>resp::init\<close> installs a callback for.\<close>

datatype hp_event =
    Ev_Message_Begin
  | Ev_Status nat nat nat
  | Ev_Header_Field nat nat
  | Ev_Header_Value nat nat
  | Ev_Headers_Complete int int
  | Ev_Body nat nat
  | Ev_Message_Complete bool

fun resp_event :: "hp_event \<Rightarrow> resp \<Rightarrow> int \<times> resp" where
  "resp_event Ev_Message_Begin m = (0, m)"
| "resp_event (Ev_Status c at n) m = hp_on_status c at n m"
| "resp_event (Ev_Header_Field at n) m = (if rs_save_callbacks m then hp_on_header_field at n m else (0, m))"
| "resp_event (Ev_Header_Value at n) m = (if rs_save_callbacks m then hp_on_header_value at n m else (0, m))"
| "resp_event (Ev_Headers_Complete j n) m = (if rs_save_callbacks m then hp_on_headers_complete j n m else (0, m))"
| "resp_event (Ev_Body at n) m = (if rs_save_callbacks m then hp_on_body at n m else (0, m))"
| "resp_event (Ev_Message_Complete k) m = hp_on_message_complete k m"

fun resp_events :: "hp_event list \<Rightarrow> resp \<Rightarrow> resp" where
  "resp_events [] m = m"
| "resp_events (e # es) m = resp_events es (snd (resp_event e m))"

section \<open>The URL and the query of a request\<close>

text \<open>\<^verbatim>\<open>std::map\<close> with find-or-insert and push back.\<close>

definition qm_values :: "query_map \<Rightarrow> string \<Rightarrow> string list option" where
  "qm_values m k = map_of m k"

definition qm_append :: "string \<Rightarrow> string \<Rightarrow> query_map \<Rightarrow> query_map" where
  "qm_append k v m =
     (case qm_values m k of Some vs \<Rightarrow> smap_upd k (vs @ [v]) m | None \<Rightarrow> smap_upd k [v] m)"

text \<open>One name and value; no result where the decoder has none.\<close>

definition query_part :: "string \<Rightarrow> (string \<times> string) option" where
  "query_part part =
     (case str_find CHR ''='' 0 part of
        None \<Rightarrow> (case uri_decode part of None \<Rightarrow> None | Some k \<Rightarrow> Some (k, []))
      | Some e \<Rightarrow> (case uri_decode (substr part 0 e) of
            None \<Rightarrow> None
          | Some k \<Rightarrow> (case uri_decode (drop (Suc e) part) of None \<Rightarrow> None | Some v \<Rightarrow> Some (k, v))))"

lemma str_find_bound: "str_find c pos s = Some n \<Longrightarrow> pos \<le> n \<and> n < length s"
  by (auto simp: str_find_def Let_def split: if_splits)

function parse_query :: "string \<Rightarrow> nat \<Rightarrow> query_map \<Rightarrow> query_map option" where
  "parse_query q last_pos m =
     (case str_find CHR ''&'' last_pos q of
        None \<Rightarrow> (case query_part (drop last_pos q) of None \<Rightarrow> None | Some (k, v) \<Rightarrow> Some (qm_append k v m))
      | Some pos \<Rightarrow>
          (case query_part (substr q last_pos (pos - last_pos)) of
             None \<Rightarrow> None
           | Some (k, v) \<Rightarrow> parse_query q (Suc pos) (qm_append k v m)))"
  by pat_completeness auto
termination
  by (relation "measure (\<lambda>(q, p, m). Suc (length q) - p)") (auto dest!: str_find_bound)

section \<open>Headers\<close>

definition cr_text :: "nbq \<Rightarrow> cr \<Rightarrow> string" where
  "cr_text q c = c_str (take (cr_len c) (drop (cr_off c) (all_written q)))"

lemma c_str_append_NUL: "c_str (s @ NUL # r) = c_str s"
  by (induction s) (auto simp: c_str_def)

lemma c_str_replicate_NUL: "c_str (s @ replicate n NUL @ [NUL]) = c_str s"
  by (cases n) (simp_all add: c_str_append_NUL)

lemma copy_part_text:
  assumes "nbq_inv q"
  shows "\<exists>b q'. copy_part (cr_off c) (cr_len c) q = Some (b, q') \<and> c_str b = cr_text q c \<and>
    nbq_inv q' \<and> all_written q' = all_written q"
proof -
  let ?xs = "take (cr_len c) (drop (cr_off c) (all_written q))"
  let ?n = "cr_len c - min (cr_len c) (length (all_written q) - cr_off c)"
  obtain q' where r: "read_from (cr_off c) (cr_len c) q =
      Some (min (cr_len c) (length (all_written q) - cr_off c), ?xs, q')"
    "nbq_inv q'" "all_written q' = all_written q"
    using read_from_spec[OF nbq_inv_wf[OF assms]] assms by blast
  have "length (?xs @ replicate ?n NUL) = cr_len c" by (simp add: min_def)
  then have "take (cr_len c) (?xs @ replicate ?n NUL) = ?xs @ replicate ?n NUL"
    by (intro take_all) (rule eq_imp_le)
  then have "copy_part (cr_off c) (cr_len c) q = Some (?xs @ replicate ?n NUL @ [NUL], q')"
    using r(1) by (simp add: copy_part_def)
  moreover have "c_str (?xs @ replicate ?n NUL @ [NUL]) = cr_text q c"
    by (simp only: c_str_replicate_NUL cr_text_def)
  ultimately show ?thesis using r(2,3) by blast
qed

lemma cr_text_cong: "all_written q' = all_written q \<Longrightarrow> cr_text q' = cr_text q"
  by (simp add: cr_text_def fun_eq_iff)

definition add_header :: "string \<times> string \<Rightarrow> kv_map_list \<Rightarrow> kv_map_list" where
  "add_header kv hs = kv_append (fst kv) (snd kv) hs"

lemma copy_headers_spec:
  assumes "nbq_inv q"
  shows "\<exists>q'. copy_headers ks vs q hs = Some (fold add_header (zip (map (cr_text q) ks) (map (cr_text q) vs)) hs, q') \<and>
    nbq_inv q' \<and> all_written q' = all_written q"
  using assms
proof (induction ks vs q hs rule: copy_headers.induct)
  case (1 k ks v vs q hs)
  obtain kb q1 where k: "copy_part (cr_off k) (cr_len k) q = Some (kb, q1)" "c_str kb = cr_text q k"
    "nbq_inv q1" "all_written q1 = all_written q" using copy_part_text[OF "1.prems"] by blast
  obtain vb q2 where v: "copy_part (cr_off v) (cr_len v) q1 = Some (vb, q2)" "c_str vb = cr_text q1 v"
    "nbq_inv q2" "all_written q2 = all_written q1" using copy_part_text[OF k(3)] by blast
  have t: "cr_text q1 = cr_text q" "cr_text q2 = cr_text q" 
    by (rule cr_text_cong[OF k(4)], rule cr_text_cong[OF trans[OF v(4) k(4)]])
  have "\<exists>q'. copy_headers ks vs q2 (kv_append (c_str kb) (c_str vb) hs) =
      Some (fold add_header (zip (map (cr_text q2) ks) (map (cr_text q2) vs)) (kv_append (c_str kb) (c_str vb) hs), q') \<and>
      nbq_inv q' \<and> all_written q' = all_written q2"
    using "1.IH"[OF k(1) refl v(1) refl v(3)] by blast
  then obtain q' where q': "copy_headers ks vs q2 (kv_append (c_str kb) (c_str vb) hs) =
      Some (fold add_header (zip (map (cr_text q) ks) (map (cr_text q) vs)) (kv_append (cr_text q k) (cr_text q v) hs), q')"
      "nbq_inv q'" "all_written q' = all_written q2"
    using k(2) v(2) t by metis
  have "copy_headers (k # ks) (v # vs) q hs = copy_headers ks vs q2 (kv_append (c_str kb) (c_str vb) hs)"
    using k(1) v(1) by simp
  then show ?case
    using q' k(4) v(4) add_header_def[of "(cr_text q k, cr_text q v)" hs] by simp
qed auto

text \<open>The values of a name among the headers of a message, in the order they came.\<close>

definition named :: "string \<Rightarrow> (string \<times> string) list \<Rightarrow> string list" where
  "named k hs = map snd (filter (\<lambda>h. ci_eq (fst h) k) hs)"

lemma fold_add_header:
  "kv_inv m \<Longrightarrow> kv_inv (fold add_header hs m) \<and>
   kv_values (fold add_header hs m) k =
     (if named k hs = [] then kv_values m k
      else Some ((case kv_values m k of None \<Rightarrow> [] | Some vs \<Rightarrow> vs) @ named k hs))"
proof (induction hs arbitrary: m)
  case Nil
  then show ?case by (simp add: named_def)
next
  case (Cons h hs)
  note A = kv_append_spec[OF Cons.prems]
  have C: "ci_eq (fst h) k \<Longrightarrow> kv_values m (fst h) = kv_values m k"
    by (simp add: kv_values_def kv_find_cong)
  show ?case
    using Cons.IH[of "add_header h m"] A(1)[of "fst h" "snd h"] A(2)[of "fst h" "snd h" k] C
    by (auto simp: add_header_def named_def)
qed

text \<open>The parser's calls for a list of headers, each a name and a value in one piece.\<close>

definition header_events :: "((nat \<times> nat) \<times> (nat \<times> nat)) list \<Rightarrow> hp_event list" where
  "header_events hs = concat (map (\<lambda>((a, n), (b, k)). [Ev_Header_Field a n, Ev_Header_Value b k]) hs)"

lemma resp_events_append: "resp_events (es @ fs) m = resp_events fs (resp_events es m)"
  by (induction es arbitrary: m) simp_all

lemma resp_events_headers:
  assumes "hm_save m" "rs_save_callbacks m"
  shows "resp_events (header_events hs) m =
    m\<lparr>hm_h_list_key := hm_h_list_key m @ map (\<lambda>((a, n), _). slice_at a n m) hs,
      hm_h_list_val := hm_h_list_val m @ map (\<lambda>(_, (b, k)). slice_at b k m) hs\<rparr>"
  using assms
proof (induction hs arbitrary: m)
  case Nil
  then show ?case by (simp add: header_events_def)
next
  case (Cons h hs)
  obtain a n b k where h: "h = ((a, n), (b, k))" by (metis surj_pair)
  define m1 where "m1 = m\<lparr>hm_h_list_key := hm_h_list_key m @ [slice_at a n m], hm_h_list_val := hm_h_list_val m @ [slice_at b k m]\<rparr>"
  have s: "slice_at x y m1 = slice_at x y m" for x y by (simp add: m1_def slice_at_def calc_offset_def)
  have "resp_events (header_events (h # hs)) m = resp_events (header_events hs) m1"
    using Cons.prems
    by (simp add: h header_events_def hp_on_header_field_def hp_on_header_value_def push_header_field_def m1_def
        slice_at_def calc_offset_def)
  also have "\<dots> = m1\<lparr>hm_h_list_key := hm_h_list_key m1 @ map (\<lambda>((a, n), _). slice_at a n m1) hs,
      hm_h_list_val := hm_h_list_val m1 @ map (\<lambda>(_, (b, k)). slice_at b k m1) hs\<rparr>"
    using Cons.prems by (intro Cons.IH) (simp_all add: m1_def)
  finally show ?case by (simp add: s h) (simp add: m1_def)
qed

text \<open>A header of the message in the queue.\<close>

definition header_at :: "nbq \<Rightarrow> nat \<Rightarrow> (nat \<times> nat) \<times> (nat \<times> nat) \<Rightarrow> string \<times> string" where
  "header_at q off h = (case h of ((a, n), (b, k)) \<Rightarrow>
     (cr_text q \<lparr>cr_off = u64 (a + off), cr_len = n\<rparr>, cr_text q \<lparr>cr_off = u64 (b + off), cr_len = k\<rparr>))"

text \<open>
  C18: When a response is saved and the parser reports each header name and value in one
  piece, \<^verbatim>\<open>get_headers\<close> returns for every name, whatever its case, exactly the values the
  message has for it, in their order and read from the queue, and is repeatable: the second
  call returns the same map.
\<close>

theorem resp_headers_collected:
  assumes "nbq_inv q" "m = resp_events (Ev_Status st at n # header_events hs) (resp_init True m0)"
  shows "\<exists>H q' m'. get_headers q m = Some (H, q', m') \<and> rs_status m = st \<and>
    (\<forall>k. kv_values H k = (if named k (map (header_at q (hm_cur_off m0)) hs) = [] then None
                          else Some (named k (map (header_at q (hm_cur_off m0)) hs)))) \<and>
    nbq_inv q' \<and> all_written q' = all_written q \<and> get_headers q' m' = Some (H, q', m')"
proof -
  define m1 where "m1 = snd (resp_event (Ev_Status st at n) (resp_init True m0))"
  have m1: "hm_save m1" "rs_save_callbacks m1" "hm_h_list_key m1 = []" "hm_h_list_val m1 = []" "hm_headers m1 = None"
    "hm_cur_off m1 = hm_cur_off m0" "rs_status m1 = st"
    by (simp_all add: m1_def hp_on_status_def resp_init_def hmsg_init_def Let_def)
  have m: "m = m1\<lparr>hm_h_list_key := map (\<lambda>((a, n), _). slice_at a n m1) hs, hm_h_list_val := map (\<lambda>(_, (b, k)). slice_at b k m1) hs\<rparr>"
    unfolding assms(2) using resp_events_headers[OF m1(1,2), of hs] m1(3,4) by (simp add: m1_def)
  let ?ks = "map (\<lambda>((a, n), _). slice_at a n m1) hs" and ?vs = "map (\<lambda>(_, (b, k)). slice_at b k m1) hs"
  have z: "zip (map (cr_text q) ?ks) (map (cr_text q) ?vs) = map (header_at q (hm_cur_off m0)) hs"
    by (auto simp: zip_map_map zip_same_conv_map header_at_def slice_at_def calc_offset_def m1(6) split: prod.splits)
  let ?H = "fold add_header (map (header_at q (hm_cur_off m0)) hs) []"
  obtain q' where q': "copy_headers ?ks ?vs q [] = Some (?H, q')" "nbq_inv q'" "all_written q' = all_written q"
    using copy_headers_spec[OF assms(1), of ?ks ?vs "[]"] unfolding z by blast
  have "kv_values ?H k = (if named k (map (header_at q (hm_cur_off m0)) hs) = [] then None
      else Some (named k (map (header_at q (hm_cur_off m0)) hs)))" for k
    using fold_add_header[of "[]" "map (header_at q (hm_cur_off m0)) hs" k] by (simp add: kv_values_def)
  then show ?thesis
    using q' m1 by (auto simp: get_headers_def m)
qed

definition demo_resp_q :: nbq where
  "demo_resp_q = (case nbq_write (Some ''HTTP/1.1 200 OK__Aa: 1__b: 2__aA: 3'') (nbq_new 16) of
     Some (_, q) \<Rightarrow> q | None \<Rightarrow> nbq_new 16)"

lemma demo_resp_q_ok: "nbq_inv demo_resp_q" "all_written demo_resp_q = ''HTTP/1.1 200 OK__Aa: 1__b: 2__aA: 3''"
proof -
  obtain q where "nbq_write (Some ''HTTP/1.1 200 OK__Aa: 1__b: 2__aA: 3'') (nbq_new 16) = Some (35, q)"
    "nbq_inv q" "all_written q = ''HTTP/1.1 200 OK__Aa: 1__b: 2__aA: 3''"
    using nbq_write_spec[of "nbq_new 16" "''HTTP/1.1 200 OK__Aa: 1__b: 2__aA: 3''"] by (auto simp: write_post_def)
  then show "nbq_inv demo_resp_q" "all_written demo_resp_q = ''HTTP/1.1 200 OK__Aa: 1__b: 2__aA: 3''"
    by (simp_all add: demo_resp_q_def)
qed

definition demo_headers :: "((nat \<times> nat) \<times> (nat \<times> nat)) list" where
  "demo_headers = [((17, 2), (21, 1)), ((24, 1), (27, 1)), ((30, 2), (34, 1))]"

lemma demo_headers_at:
  "map (header_at demo_resp_q 0) demo_headers = [(''Aa'', ''1''), (''b'', ''2''), (''aA'', ''3'')]"
  by (simp add: demo_headers_def header_at_def cr_text_def demo_resp_q_ok(2) c_str_def NUL_def u64_def)

theorem resp_headers_collected_witness:
  "\<exists>H q' m'. get_headers demo_resp_q (resp_events (Ev_Status 200 13 2 # header_events demo_headers) (resp_init True resp_new)) = Some (H, q', m') \<and>
    kv_values H ''AA'' = Some [''1'', ''3''] \<and> kv_values H ''C'' = None"
proof -
  have z: "hm_cur_off resp_new = 0"
    by (simp add: resp_new_def resp_init_def hmsg_init_def hmsg_new_def Let_def hmsg.defs)
  have n: "named ''AA'' [(''Aa'', ''1''), (''b'', ''2''), (''aA'', ''3'')] = [''1'', ''3'']"
    "named ''C'' [(''Aa'', ''1''), (''b'', ''2''), (''aA'', ''3'')] = []"
    by code_simp+
  from resp_headers_collected[OF demo_resp_q_ok(1) refl, of 200 13 2 demo_headers resp_new, unfolded z demo_headers_at]
  obtain H q' m' where H: "get_headers demo_resp_q (resp_events (Ev_Status 200 13 2 # header_events demo_headers) (resp_init True resp_new)) = Some (H, q', m')"
    "\<forall>k. kv_values H k = (if named k [(''Aa'', ''1''), (''b'', ''2''), (''aA'', ''3'')] = [] then None
       else Some (named k [(''Aa'', ''1''), (''b'', ''2''), (''aA'', ''3'')]))" by blast
  have "kv_values H ''AA'' = Some [''1'', ''3'']" "kv_values H ''C'' = None"
    using H(2)[rule_format, of "''AA''"] H(2)[rule_format, of "''C''"] n by simp_all
  then show ?thesis using H(1) by blast
qed

text \<open>
  A header name the parser reports in two pieces, as it does when a read ends inside it,
  becomes two names, and every later name is paired with the wrong value: of the headers
  \<^verbatim>\<open>Aa: 1\<close> and \<^verbatim>\<open>b: 2\<close> is left one, \<^verbatim>\<open>A\<close>, with both values.
\<close>

lemma split_header_field_mispairs:
  "\<exists>H q' m'. get_headers demo_resp_q (resp_events [Ev_Header_Field 17 1, Ev_Header_Field 18 1, Ev_Header_Value 21 1,
       Ev_Header_Field 24 1, Ev_Header_Value 27 1] (resp_init True resp_new)) = Some (H, q', m') \<and>
     H = [(''A'', [''1'', ''2''])]"
proof -
  let ?m = "resp_events [Ev_Header_Field 17 1, Ev_Header_Field 18 1, Ev_Header_Value 21 1,
       Ev_Header_Field 24 1, Ev_Header_Value 27 1] (resp_init True resp_new)"
  have m: "hm_h_list_key ?m = [\<lparr>cr_off = 17, cr_len = 1\<rparr>, \<lparr>cr_off = 18, cr_len = 1\<rparr>, \<lparr>cr_off = 24, cr_len = 1\<rparr>]"
    "hm_h_list_val ?m = [\<lparr>cr_off = 21, cr_len = 1\<rparr>, \<lparr>cr_off = 27, cr_len = 1\<rparr>]" "hm_headers ?m = None"
    by (simp_all add: resp_new_def resp_init_def hmsg_init_def hmsg_new_def Let_def hmsg.defs
        hp_on_header_field_def push_header_field_def hp_on_header_value_def slice_at_def calc_offset_def u64_def)
  have t: "map (cr_text demo_resp_q) (hm_h_list_key ?m) = [''A'', ''a'', ''b'']"
    "map (cr_text demo_resp_q) (hm_h_list_val ?m) = [''1'', ''2'']"
    unfolding m by (simp_all add: cr_text_def demo_resp_q_ok(2) c_str_def NUL_def)
  have f: "fold add_header (zip [''A'', ''a'', ''b''] [''1'', ''2'']) [] = [(''A'', [''1'', ''2''])]"
    by code_simp
  obtain q' where "copy_headers (hm_h_list_key ?m) (hm_h_list_val ?m) demo_resp_q [] = Some ([(''A'', [''1'', ''2''])], q')"
    using copy_headers_spec[OF demo_resp_q_ok(1), of "hm_h_list_key ?m" "hm_h_list_val ?m" "[]"] unfolding t f by blast
  then show ?thesis using m(3) by (auto simp: get_headers_def)
qed

section \<open>The body\<close>

text \<open>Without the callbacks the flag for responses without a body is never consulted.\<close>

lemma no_save_expects_body: "fst (resp_event (Ev_Headers_Complete j n) (resp_init False m)) = 0"
  by (simp add: resp_init_def)

text \<open>The parser's calls for a body in adjacent pieces of the given lengths.\<close>

fun body_events :: "nat \<Rightarrow> nat list \<Rightarrow> hp_event list" where
  "body_events at [] = []"
| "body_events at (n # ns) = Ev_Body at n # body_events (at + n) ns"

lemma resp_events_more_body:
  assumes "hm_save m" "rs_save_callbacks m" "cr_off (hm_body m) \<noteq> 0" "cr_len (hm_body m) + sum_list ns < 2 ^ 64"
  shows "resp_events (body_events at ns) m =
    m\<lparr>hm_body := \<lparr>cr_off = cr_off (hm_body m), cr_len = cr_len (hm_body m) + sum_list ns\<rparr>\<rparr>"
  using assms by (induction ns arbitrary: at m) (simp_all add: hp_on_body_def u64_id)

lemma resp_events_body:
  assumes "hm_save m" "rs_save_callbacks m" "hm_body m = cr_new" "0 < at + hm_cur_off m"
    "at + hm_cur_off m + sum_list ns < 2 ^ 64" "ns \<noteq> []"
  shows "resp_events (body_events at ns) m = m\<lparr>hm_body := \<lparr>cr_off = at + hm_cur_off m, cr_len = sum_list ns\<rparr>\<rparr>"
proof -
  obtain n ns' where ns: "ns = n # ns'" using assms(6) by (cases ns) auto
  let ?m1 = "m\<lparr>hm_body := \<lparr>cr_off = at + hm_cur_off m, cr_len = n\<rparr>\<rparr>"
  have "resp_events (body_events at ns) m = resp_events (body_events (at + n) ns') ?m1"
    using assms by (simp add: ns hp_on_body_def cr_new_def slice_at_def calc_offset_def u64_id)
  also have "\<dots> = ?m1\<lparr>hm_body := \<lparr>cr_off = cr_off (hm_body ?m1), cr_len = cr_len (hm_body ?m1) + sum_list ns'\<rparr>\<rparr>"
    using assms by (intro resp_events_more_body) (simp_all add: ns)
  finally show ?thesis by (simp add: ns)
qed

text \<open>
  When the body of a saved response reaches the end of the queue and the parser reports
  it in adjacent pieces, \<^verbatim>\<open>get_body_len\<close> is its length and \<^verbatim>\<open>get_body_q\<close> cuts the queue in
  two exactly before it (at an offset strictly inside a block): the message's queue keeps
  status and headers, the new queue holds the whole body, unread.
\<close>

theorem resp_body_cut:
  assumes "nbq_inv q" "hm_save m" "rs_save_callbacks m" "hm_body m = cr_new" "hm_body_q m = None"
    and off: "off = at + hm_cur_off m" "0 < off" "off + sum_list ns = length (all_written q)" "0 < sum_list ns"
      "length (all_written q) < 2 ^ 64" "0 < snd (split_find (m_q q) off)"
    and m': "m' = resp_events (body_events at ns) m"
  shows "get_body_len m' = sum_list ns \<and>
    (\<exists>h t m''. get_body_q q m' = Some (h, Some t, m'') \<and> unread h = take off (all_written q) \<and>
      unread t = drop off (all_written q) \<and> length (unread t) = sum_list ns \<and> hm_body_q m'' = Some t)"
proof -
  have b: "m' = m\<lparr>hm_body := \<lparr>cr_off = off, cr_len = sum_list ns\<rparr>\<rparr>"
    unfolding m' off(1) using assms off by (intro resp_events_body) auto
  have p: "split_point off q = off" using off(6) by (auto simp: split_point_def split: prod.splits)
  have w: "m_cur_write_offset q = sum_list (map nb_written (m_q q))" "0 < m_bsize q" "m_bsize q < 2 ^ 31"
    using assms(1) by (simp_all add: nbq_inv_def)
  have "off < m_cur_write_offset q"
    using nbq_inv_length[OF assms(1)] off(3,4) by simp
  then obtain t h where "nbq_split off q = Some (STATUS_OK, Some t, h)" "unread h = take off (all_written q)"
    "unread t = drop off (all_written q)"
    using nbq_split_spec[OF nbq_inv_wf[OF assms(1)] w off(2)] p by auto
  moreover have "length (drop off (all_written q)) = sum_list ns" using off(3) by simp
  ultimately show ?thesis
    using b off(2) assms(5) by (auto simp: get_body_len_def get_body_q_def)
qed

theorem resp_body_cut_witness:
  "\<exists>h t m''. get_body_q demo_q (resp_events (body_events 2 [1, 3]) (resp_init True resp_new)) = Some (h, Some t, m'') \<and>
     unread t = ''cdef''"
proof -
  have z: "hm_cur_off (resp_init True resp_new) = 0"
    by (simp add: resp_new_def resp_init_def hmsg_init_def hmsg_new_def Let_def hmsg.defs)
  show ?thesis
    using resp_body_cut[OF demo_q_inv _ _ _ _ _ _ _ _ _ _ refl, of "resp_init True resp_new" 2 2 "[1, 3]"]
    by (auto simp: z) (auto simp: resp_init_def hmsg_init_def Let_def demo_q_def all_written_def written_bytes_def)
qed

text \<open>
  The pieces of a chunked body are not adjacent: the length is the sum of the pieces but the
  slice starts at the first, so it takes in the framing and misses the end.
\<close>

lemma chunked_body_slice:
  "cr_text demo_resp_q (hm_body (resp_events [Ev_Body 17 2, Ev_Body 24 1] (resp_init True resp_new))) = ''Aa:''"
  by (simp add: resp_new_def resp_init_def hmsg_init_def hmsg_new_def Let_def hmsg.defs hp_on_body_def cr_new_def
      slice_at_def calc_offset_def u64_def cr_text_def demo_resp_q_ok(2) c_str_def NUL_def)

section \<open>Queries\<close>

interpretation qm: header_map smap_ok "(=)" qm_values smap_upd smap_del
  by unfold_locales (simp_all add: qm_values_def)

lemma qm_append_spec:
  assumes "smap_ok m"
  shows "smap_ok (qm_append k v m)"
    "qm_values (qm_append k v m) k' =
       (if k = k' then Some ((case qm_values m k of Some vs \<Rightarrow> vs | None \<Rightarrow> []) @ [v]) else qm_values m k')"
  unfolding qm_append_def using qm.push_back[OF assms refl] by blast+

text \<open>A query as a client writes it.\<close>

definition query_pair :: "string \<times> string \<Rightarrow> string" where
  "query_pair p = encode_bytes (fst p) @ CHR ''='' # encode_bytes (snd p)"

fun query_text :: "(string \<times> string) list \<Rightarrow> string" where
  "query_text [] = []"
| "query_text [p] = query_pair p"
| "query_text (p # ps) = query_pair p @ CHR ''&'' # query_text ps"

lemma encode_bytes_plain: "CHR ''='' \<notin> set (encode_bytes s)" "CHR ''&'' \<notin> set (encode_bytes s)"
  using encode_bytes_chars[of _ s] by (auto simp: G_SAFE_def dest!: encode_bytes_chars)

lemma query_part_pair:
  assumes "length (query_pair p) < 2 ^ 31"
  shows "query_part (query_pair p) = Some p"
proof -
  have "str_find CHR ''='' 0 (query_pair p) = Some (length (encode_bytes (fst p)))"
    using str_find_append[of "CHR ''=''" "encode_bytes (fst p)" "[]" "encode_bytes (snd p)"] encode_bytes_plain
    by (simp add: query_pair_def)
  moreover have "length (encode_bytes (fst p)) < 2 ^ 31" "length (encode_bytes (snd p)) < 2 ^ 31"
    using assms by (simp_all add: query_pair_def)
  ultimately show ?thesis
    by (simp add: query_part_def query_pair_def substr_def uri_decode_ok decode_encode_bytes)
qed

lemma query_pair_plain: "CHR ''&'' \<notin> set (query_pair p)"
  by (simp add: query_pair_def encode_bytes_plain)

lemma parse_query_text:
  "ps \<noteq> [] \<Longrightarrow> length (query_text ps) < 2 ^ 31 \<Longrightarrow>
    parse_query (pre @ query_text ps) (length pre) m = Some (fold (\<lambda>p. qm_append (fst p) (snd p)) ps m)"
proof (induction ps arbitrary: pre m rule: query_text.induct)
  case (2 p)
  then show ?case
    using str_find_absent[OF query_pair_plain, of pre p]
    by (subst parse_query.simps) (simp add: query_part_pair split: prod.split)
next
  case (3 p r ps)
  have f: "str_find CHR ''&'' (length pre) (pre @ query_pair p @ CHR ''&'' # query_text (r # ps)) = Some (length pre + length (query_pair p))"
    by (rule str_find_append[OF query_pair_plain])
  have p: "query_part (query_pair p) = Some p" using 3(3) by (intro query_part_pair) simp
  have "parse_query (pre @ query_text (p # r # ps)) (length pre) m =
      parse_query ((pre @ query_pair p @ ''&'') @ query_text (r # ps)) (length (pre @ query_pair p @ ''&'')) (qm_append (fst p) (snd p) m)"
    unfolding parse_query.simps[of "pre @ query_text (p # r # ps)" "length pre" m]
    using f by (simp add: substr_def p del: parse_query.simps split: prod.split)
  then show ?case using "3.IH"[of "pre @ query_pair p @ ''&''"] 3(3) by simp
qed simp

definition query_values :: "string \<Rightarrow> (string \<times> string) list \<Rightarrow> string list" where
  "query_values k ps = map snd (filter (\<lambda>p. fst p = k) ps)"

lemma fold_qm_append:
  "smap_ok m \<Longrightarrow> smap_ok (fold (\<lambda>p. qm_append (fst p) (snd p)) ps m) \<and>
   qm_values (fold (\<lambda>p. qm_append (fst p) (snd p)) ps m) k =
     (if query_values k ps = [] then qm_values m k
      else Some ((case qm_values m k of None \<Rightarrow> [] | Some vs \<Rightarrow> vs) @ query_values k ps))"
proof (induction ps arbitrary: m)
  case (Cons p ps)
  show ?case
    using Cons.IH[of "qm_append (fst p) (snd p) m"] qm_append_spec[OF Cons.prems, of "fst p" "snd p"]
    by (auto simp: query_values_def)
qed (simp add: query_values_def)

text \<open>
  C27: Parsing a query undoes writing one: for a list of names and values, percent-encoded
  and joined with equals signs and ampersands to a text of less than 2 GB, \<^verbatim>\<open>parse_query\<close>
  returns a sorted map that has for every name its values in their order, and no other name.
\<close>

theorem parse_query_roundtrip:
  assumes "ps \<noteq> []" "length (query_text ps) < 2 ^ 31"
  shows "\<exists>m. parse_query (query_text ps) 0 [] = Some m \<and> smap_ok m \<and>
    (\<forall>k. qm_values m k = (if query_values k ps = [] then None else Some (query_values k ps)))"
  using parse_query_text[OF assms, of "[]" "[]"] fold_qm_append[of "[]" ps]
  by (simp add: qm_values_def)

theorem parse_query_roundtrip_witness:
  "\<exists>m. parse_query (query_text [(''a b'', ''1&2''), (''c'', []), (''a b'', ''='')]) 0 [] = Some m \<and>
     qm_values m ''a b'' = Some [''1&2'', ''='']"
proof -
  have "length (query_text [(''a b'', ''1&2''), (''c'', []), (''a b'', ''='')]) < 2 ^ 31"
    by (simp add: query_pair_def G_SAFE_def)
  then show ?thesis
    using parse_query_roundtrip[of "[(''a b'', ''1&2''), (''c'', []), (''a b'', ''='')]"]
    by (auto simp: query_values_def)
qed

end
