(* ===== verification/Nconn.thy ===== *)
theory Nconn
  imports Nbq_Ops Evr
begin

text \<open>
  The connection base class of \<^verbatim>\<open>src/core/nconn/nconn.{h,cc}\<close> with \<^verbatim>\<open>scheme.h\<close>,
  \<^verbatim>\<open>conn_status.h\<close> and \<^verbatim>\<open>host_info.{h,cc}\<close>.  The virtual methods of the class are the
  fields of the record \<open>nc_virt\<close>, functions on the object and the world around it; the
  first argument is the address of the object, which is also the address of its descriptor
  object \<^verbatim>\<open>m_evr_fd\<close> in the event loop's store.  A null queue is \<^term>\<open>None\<close>; a pointer
  to received bytes with their count is the list of these bytes.  The text of
  \<^verbatim>\<open>m_last_error\<close> is not kept, only the status set with it.
\<close>

section \<open>Types\<close>

datatype scheme = SCHEME_TCP | SCHEME_TLS | SCHEME_NONE

text \<open>\<^verbatim>\<open>sockaddr_storage\<close> is the list of its bytes.\<close>

record host_info =
  hi_sa :: "byte list"
  hi_sa_len :: int
  hi_sock_family :: int
  hi_sock_type :: int
  hi_sock_protocol :: int
  hi_expires_s :: nat

definition AF_INET :: int where "AF_INET = 2"
definition SOCK_STREAM :: int where "SOCK_STREAM = 1"
definition IPPROTO_TCP :: int where "IPPROTO_TCP = 6"

text \<open>The family is the first two bytes of the address, low byte first.\<close>

definition host_info_new :: host_info where
  "host_info_new = \<lparr>hi_sa = CHR 0x02 # replicate 127 NUL, hi_sa_len = 16, hi_sock_family = AF_INET,
     hi_sock_type = SOCK_STREAM, hi_sock_protocol = IPPROTO_TCP, hi_expires_s = 0\<rparr>"

definition NC_STATUS_FREE :: int where "NC_STATUS_FREE = -1"
definition NC_STATUS_OK :: int where "NC_STATUS_OK = -2"
definition NC_STATUS_AGAIN :: int where "NC_STATUS_AGAIN = -3"
definition NC_STATUS_ERROR :: int where "NC_STATUS_ERROR = -4"
definition NC_STATUS_UNSUPPORTED :: int where "NC_STATUS_UNSUPPORTED = -5"
definition NC_STATUS_EOF :: int where "NC_STATUS_EOF = -6"
definition NC_STATUS_BREAK :: int where "NC_STATUS_BREAK = -7"
definition NC_STATUS_IDLE :: int where "NC_STATUS_IDLE = -8"
definition NC_STATUS_READ_UNAVAILABLE :: int where "NC_STATUS_READ_UNAVAILABLE = -9"
definition NC_STATUS_NONE :: int where "NC_STATUS_NONE = -10"

lemmas nc_status_defs = NC_STATUS_FREE_def NC_STATUS_OK_def NC_STATUS_AGAIN_def NC_STATUS_ERROR_def
  NC_STATUS_UNSUPPORTED_def NC_STATUS_EOF_def NC_STATUS_BREAK_def NC_STATUS_IDLE_def
  NC_STATUS_READ_UNAVAILABLE_def NC_STATUS_NONE_def

datatype nc_conn_state =
  NC_STATE_FREE | NC_STATE_LISTENING | NC_STATE_ACCEPTING | NC_STATE_CONNECTING | NC_STATE_CONNECTED | NC_STATE_DONE

datatype alpn = ALPN_HTTP_VER_V1_0 | ALPN_HTTP_VER_V1_1 | ALPN_HTTP_VER_V2

text \<open>
  Two enumerators of \<^verbatim>\<open>conn_status_t\<close> have the same value, so a status is its value.
\<close>

type_synonym conn_status = int

definition CONN_STATUS_NONE :: conn_status where "CONN_STATUS_NONE = 1"
definition CONN_STATUS_OK :: conn_status where "CONN_STATUS_OK = 0"
definition CONN_STATUS_ERROR_INTERNAL :: conn_status where "CONN_STATUS_ERROR_INTERNAL = -1"
definition CONN_STATUS_ERROR_CONNECT_TLS :: conn_status where "CONN_STATUS_ERROR_CONNECT_TLS = -5"
definition CONN_STATUS_ERROR_CONNECT_TLS_HOST :: conn_status where "CONN_STATUS_ERROR_CONNECT_TLS_HOST = -6"

record nconn =
  nc_evr_loop :: bool
  nc_scheme :: scheme
  nc_label :: string
  nc_ctx :: "nat option"
  nc_data :: "nat option"
  nc_conn_status :: conn_status
  nc_host_data :: "nat option"
  nc_host_info :: host_info
  nc_host_info_is_set :: bool
  nc_num_reqs_per_conn :: int
  nc_num_reqs :: int
  nc_remote_sa :: "byte list"
  nc_remote_sa_len :: nat
  nc_state :: nc_conn_state
  nc_id :: nat
  nc_idx :: nat
  nc_pool_id :: nat
  nc_alpn :: alpn
  nc_alpn_buf :: "byte list option"
  nc_timer_obj :: "nat option"

definition nconn_new :: nconn where
  "nconn_new = \<lparr>nc_evr_loop = False, nc_scheme = SCHEME_NONE, nc_label = [], nc_ctx = None, nc_data = None,
     nc_conn_status = CONN_STATUS_OK, nc_host_data = None, nc_host_info = host_info_new,
     nc_host_info_is_set = False, nc_num_reqs_per_conn = -1, nc_num_reqs = 0, nc_remote_sa = replicate 128 NUL,
     nc_remote_sa_len = 0, nc_state = NC_STATE_FREE, nc_id = 0, nc_idx = 0, nc_pool_id = 0,
     nc_alpn = ALPN_HTTP_VER_V1_1, nc_alpn_buf = None, nc_timer_obj = None\<rparr>"

record ('n, 'w) nc_virt =
  v_ncsetup :: "nat \<Rightarrow> 'n \<times> 'w \<Rightarrow> (int \<times> 'n \<times> 'w) option"
  v_ncread :: "nat \<Rightarrow> nat \<Rightarrow> 'n \<times> 'w \<Rightarrow> (int \<times> byte list \<times> 'n \<times> 'w) option"
  v_ncwrite :: "nat \<Rightarrow> byte list \<Rightarrow> 'n \<times> 'w \<Rightarrow> (int \<times> 'n \<times> 'w) option"
  v_ncaccept :: "nat \<Rightarrow> 'n \<times> 'w \<Rightarrow> (int \<times> 'n \<times> 'w) option"
  v_ncconnect :: "nat \<Rightarrow> 'n \<times> 'w \<Rightarrow> (int \<times> 'n \<times> 'w) option"
  v_nccleanup :: "nat \<Rightarrow> 'n \<times> 'w \<Rightarrow> (int \<times> 'n \<times> 'w) option"
  v_ncset_listening :: "nat \<Rightarrow> int \<Rightarrow> 'n \<times> 'w \<Rightarrow> (int \<times> 'n \<times> 'w) option"
  v_ncset_listening_nb :: "nat \<Rightarrow> int \<Rightarrow> 'n \<times> 'w \<Rightarrow> (int \<times> 'n \<times> 'w) option"
  v_ncset_accepting :: "nat \<Rightarrow> int \<Rightarrow> 'n \<times> 'w \<Rightarrow> (int \<times> 'n \<times> 'w) option"
  v_ncset_connected :: "nat \<Rightarrow> 'n \<times> 'w \<Rightarrow> (int \<times> 'n \<times> 'w) option"
  v_is_connecting :: "'n \<Rightarrow> bool"

section \<open>Operations\<close>

text \<open>\<^verbatim>\<open>setup_evr_fd\<close>: the descriptor object at the address of the connection.\<close>

definition setup_evr_fd ::
  "nat \<Rightarrow> 'c option \<Rightarrow> 'c option \<Rightarrow> 'c option \<Rightarrow> ('c, 'm) evr_loop_scheme \<Rightarrow> ('c, 'm) evr_loop_scheme option" where
  "setup_evr_fd p rd wr er l =
     map_option (\<lambda>f. l\<lparr>fd_store := (fd_store l)(p \<mapsto>
       f\<lparr>fd_magic := EVR_EVENT_FD_MAGIC, fd_read_cb := rd, fd_write_cb := wr, fd_error_cb := er, fd_data := p\<rparr>)\<rparr>) (fd_store l p)"

definition set_host_info :: "host_info \<Rightarrow> ('a nconn_scheme) \<Rightarrow> 'a nconn_scheme" where
  "set_host_info h c = c\<lparr>nc_host_info := h, nc_host_info_is_set := True\<rparr>"

definition set_alpn_result :: "byte list \<Rightarrow> 'a nconn_scheme \<Rightarrow> int \<times> 'a nconn_scheme" where
  "set_alpn_result buf c = (STATUS_OK, c\<lparr>nc_alpn_buf := Some buf\<rparr>)"

definition s64 :: "int \<Rightarrow> int" where
  "s64 i = (i + 2 ^ 63) mod 2 ^ 64 - 2 ^ 63"

definition bump_num_requested :: "'a nconn_scheme \<Rightarrow> 'a nconn_scheme" where
  "bump_num_requested c = c\<lparr>nc_num_reqs := s64 (nc_num_reqs c + 1)\<rparr>"

definition can_reuse :: "'a nconn_scheme \<Rightarrow> bool" where
  "can_reuse c \<longleftrightarrow> nc_num_reqs_per_conn c = -1 \<or> nc_num_reqs c < nc_num_reqs_per_conn c"

text \<open>
  \<^verbatim>\<open>nc_read\<close>: status, the bytes at \<^verbatim>\<open>*ao_buf\<close> (\<^verbatim>\<open>ao_read\<close> of them), queue and state.
\<close>

definition nc_read_size :: "nat \<Rightarrow> nbq \<Rightarrow> nat" where
  "nc_read_size av q =
     (if m_max_read_queue q > 0 \<and> int (u64 (read_avail q + av)) > m_max_read_queue q
      then u32_of_int (m_max_read_queue q - int (read_avail q)) else av)"

definition nc_read ::
  "('n, 'w) nc_virt \<Rightarrow> nat \<Rightarrow> nbq option \<Rightarrow> 'n \<times> 'w \<Rightarrow> (int \<times> byte list \<times> nbq option \<times> 'n \<times> 'w) option" where
  "nc_read vt p in_q s =
     (case in_q of
        None \<Rightarrow> Some (NC_STATUS_ERROR, [], None, s)
      | Some q \<Rightarrow>
          if read_avail_is_max_limit q then Some (NC_STATUS_READ_UNAVAILABLE, [], Some q, s)
          else do {
            av \<leftarrow> b_write_avail q;
            (st, q1) \<leftarrow> (if av \<le> 0 then b_write_add_avail q else Some (1, q));
            if st \<le> 0 then Some (NC_STATUS_ERROR, [], Some q1, s)
            else do {
              av1 \<leftarrow> b_write_avail q1;
              (r, bytes, s1) \<leftarrow> v_ncread vt p (nc_read_size av1 q1) s;
              if r \<le> 0 then Some (r, [], Some q1, s1)
              else do {
                q2 \<leftarrow> b_write_copy bytes q1;
                q3 \<leftarrow> b_write_incr (nat r) q2;
                Some (NC_STATUS_OK, bytes, Some q3, s1) } } })"

text \<open>\<^verbatim>\<open>nc_write\<close>: status, the number of bytes written, queue and state.\<close>

definition nc_write ::
  "('n, 'w) nc_virt \<Rightarrow> nat \<Rightarrow> nbq option \<Rightarrow> 'n \<times> 'w \<Rightarrow> (int \<times> nat \<times> nbq option \<times> 'n \<times> 'w) option" where
  "nc_write vt p out_q s =
     (case out_q of
        None \<Rightarrow> Some (NC_STATUS_ERROR, 0, None, s)
      | Some q \<Rightarrow>
          if read_avail q = 0 then Some (NC_STATUS_OK, 0, Some q, s)
          else do {
            a \<leftarrow> b_read_avail q;
            bytes \<leftarrow> b_read_copy (u32_of_int a) q;
            (r, s1) \<leftarrow> v_ncwrite vt p bytes s;
            if r < 0 then Some (if r = NC_STATUS_AGAIN then r else NC_STATUS_ERROR, 0, Some q, s1)
            else if r = 0 then Some (NC_STATUS_OK, 0, Some q, s1)
            else do { q1 \<leftarrow> b_read_incr (nat r) q; Some (NC_STATUS_OK, nat r, Some q1, s1) } })"

text \<open>The setters of the state, each after the virtual method of its name.\<close>

definition nc_enter ::
  "nc_conn_state \<Rightarrow> (int \<times> 'a nconn_scheme \<times> 'w) option \<Rightarrow> (int \<times> 'a nconn_scheme \<times> 'w) option" where
  "nc_enter st r =
     do { (s, c, w) \<leftarrow> r;
          Some (if s \<noteq> NC_STATUS_OK then (STATUS_ERROR, c, w) else (STATUS_OK, c\<lparr>nc_state := st\<rparr>, w)) }"

definition nc_set_listening where
  "nc_set_listening vt p v s = nc_enter NC_STATE_LISTENING (v_ncset_listening vt p v s)"

definition nc_set_listening_nb where
  "nc_set_listening_nb vt p v s = nc_enter NC_STATE_LISTENING (v_ncset_listening_nb vt p v s)"

definition nc_set_accepting where
  "nc_set_accepting vt p fd s = nc_enter NC_STATE_ACCEPTING (v_ncset_accepting vt p fd s)"

definition nc_set_connected where
  "nc_set_connected vt p s = nc_enter NC_STATE_CONNECTED (v_ncset_connected vt p s)"

definition nc_cleanup ::
  "('a nconn_scheme, 'w) nc_virt \<Rightarrow> nat \<Rightarrow> 'a nconn_scheme \<times> 'w \<Rightarrow> (int \<times> 'a nconn_scheme \<times> 'w) option" where
  "nc_cleanup vt p s =
     do { (st, c, w) \<leftarrow> v_nccleanup vt p s;
          let c1 = c\<lparr>nc_state := NC_STATE_FREE, nc_num_reqs := 0\<rparr>;
          Some (if st \<noteq> NC_STATUS_OK then (STATUS_ERROR, c1, w)
                else (STATUS_OK, c1\<lparr>nc_data := None, nc_host_info_is_set := False\<rparr>, w)) }"

section \<open>Bytes pass unchanged between the queues and the transport\<close>

lemma nc_read_size_le: "\<not> read_avail_is_max_limit q \<Longrightarrow> nc_read_size av q \<le> av"
proof -
  assume a: "\<not> read_avail_is_max_limit q"
  have "u32_of_int (m_max_read_queue q - int (read_avail q)) \<le> av"
    if "m_max_read_queue q > 0" "int (u64 (read_avail q + av)) > m_max_read_queue q"
  proof -
    have "0 \<le> m_max_read_queue q - int (read_avail q)" "m_max_read_queue q - int (read_avail q) \<le> int av"
      using a that mod_less_eq_dividend[of "read_avail q + av" "2 ^ 64"]
      by (auto simp: read_avail_is_max_limit_def read_avail_def u64_def)
    then show ?thesis
      unfolding u32_of_int_def by (smt (verit) nat_le_iff zmod_le_nonneg_dividend)
  qed
  then show ?thesis by (simp add: nc_read_size_def)
qed

lemma added_room_limit:
  "(if av \<le> (0::nat) then b_write_add_avail q else Some (1, q)) = Some (st, q1) \<Longrightarrow> m_max_read_queue q1 = m_max_read_queue q"
  by (auto simp: b_write_add_avail_def Let_def bind_eq_Some_conv split: if_splits)

lemma write_post_read_avail: "nbq_inv q \<Longrightarrow> write_post q [] q1 \<Longrightarrow> read_avail q1 = read_avail q"
  using rd_inv_length[OF nbq_inv_rd, of q] rd_inv_length[OF nbq_inv_rd, of q1]
  by (simp add: write_post_def read_avail_def)

lemma read_post_refl: "rd_inv q \<Longrightarrow> read_post q 0 q"
  by (simp add: read_post_def)

definition no_gap :: "nbq \<Rightarrow> bool" where
  "no_gap q \<longleftrightarrow> (\<forall>r. m_cur_read_block q = At r \<and> m_total_read_avail q \<noteq> 0 \<longrightarrow> avail (m_q q ! r) \<noteq> 0)"

text \<open>
  The contract of a transport, seen from the connection: an invariant \<open>I\<close> of the state, and
  \<open>more\<close>, the number of bytes still to be received from the peer.  A read that gives bytes
  takes them from these; a write of a buffer accepts a part of it or fails.
\<close>

locale nc_moves =
  fixes vt :: "('n, 'w) nc_virt" and p :: nat and I :: "'n \<times> 'w \<Rightarrow> bool" and more :: "'n \<times> 'w \<Rightarrow> nat"
  assumes ncread: "I s \<Longrightarrow> \<exists>r bs s'. v_ncread vt p len s = Some (r, bs, s') \<and> I s' \<and> r \<noteq> NC_STATUS_OK \<and>
      (if 0 < r then length bs = nat r \<and> nat r \<le> len \<and> more s' + nat r = more s else more s' = more s)"
    and ncwrite: "I s \<Longrightarrow> \<exists>r s'. v_ncwrite vt p buf s = Some (r, s') \<and> I s' \<and> more s' = more s \<and>
      nat r \<le> length buf"
begin

text \<open>A read appends to the queue what it receives.\<close>

lemma nc_read_ends:
  assumes "I s" "nbq_inv q" "m_cur_write_offset q + more s < 2 ^ 64"
  shows "\<exists>st bs q' s'. nc_read vt p (Some q) s = Some (st, bs, Some q', s') \<and> I s' \<and>
    write_post q bs q' \<and> more s' + length bs = more s \<and> (st = NC_STATUS_OK \<longleftrightarrow> bs \<noteq> []) \<and>
    (s' = s \<and> bs = [] \<or>
     (\<exists>len r bs0. v_ncread vt p len s = Some (r, bs0, s') \<and> bs = (if 0 < r then bs0 else [])))"
proof (cases "read_avail_is_max_limit q")
  case True
  then show ?thesis using assms by (simp add: nc_read_def write_post_def nc_status_defs)
next
  case False
  obtain st q1 r w av where av: "b_write_avail q = Some av"
    "(if av \<le> 0 then b_write_add_avail q else Some (1, q)) = Some (st, q1)" and st: "0 < st"
    and q1: "write_post q [] q1" "wr_ok q1 r w" "nb_written (m_q q1 ! w) < nb_len (m_q q1 ! w)"
    using write_room[OF assms(2)] by blast
  define k where "k = nb_len (m_q q1 ! w) - nb_written (m_q q1 ! w)"
  have inv1: "nbq_inv q1" using q1(1) by (simp add: write_post_def)
  have k: "b_write_avail q1 = Some k" unfolding k_def by (rule b_write_avail_wr[OF inv1 q1(2)])
  have "\<not> read_avail_is_max_limit q1"
    using False added_room_limit[OF av(2)] write_post_read_avail[OF assms(2) q1(1)]
    by (simp add: read_avail_is_max_limit_def read_avail_def)
  then have le: "nc_read_size k q1 \<le> k" by (rule nc_read_size_le)
  obtain n bs s' where rd: "v_ncread vt p (nc_read_size k q1) s = Some (n, bs, s')" "I s'" "n \<noteq> NC_STATUS_OK"
    "if 0 < n then length bs = nat n \<and> nat n \<le> nc_read_size k q1 \<and> more s' + nat n = more s else more s' = more s"
    using ncread[OF assms(1)] by blast
  show ?thesis
  proof (cases "0 < n")
    case False
    then have "nc_read vt p (Some q) s = Some (n, [], Some q1, s')"
      using \<open>\<not> read_avail_is_max_limit q\<close> av st k rd(1) by (simp add: nc_read_def)
    then show ?thesis using rd q1(1) False by auto
  next
    case True
    then have n: "length bs = nat n" "bs \<noteq> []" "length bs \<le> k" "more s' + length bs = more s" using rd(4) le by auto
    have "m_cur_write_offset q1 + length bs < 2 ^ 64"
      using q1(1) assms(3) n(4) by (simp add: write_post_def)
    then obtain q2 q3 where q3: "b_write_copy bs q1 = Some q2" "b_write_incr (nat n) q2 = Some q3" "write_post q1 bs q3"
      using write_step_post[OF inv1 q1(2), of bs] n by (auto simp: k_def)
    have "nc_read vt p (Some q) s = Some (NC_STATUS_OK, bs, Some q3, s')"
      using \<open>\<not> read_avail_is_max_limit q\<close> av st k rd(1) True q3 by (simp add: nc_read_def)
    then show ?thesis
      using rd(1,2) n True write_post_trans[OF q1(1) q3(3)] by auto
  qed
qed

text \<open>A write takes from the queue what the transport accepts.\<close>

lemma nc_write_moves:
  assumes "I s" "rd_inv q"
  shows "\<exists>st n q' s'. nc_write vt p (Some q) s = Some (st, n, Some q', s') \<and> I s' \<and> more s' = more s \<and>
    n \<le> length (unread q) \<and> read_post q n q' \<and> st \<in> {NC_STATUS_OK, NC_STATUS_AGAIN, NC_STATUS_ERROR} \<and>
    (n = 0 \<and> q' = q \<or> (\<exists>r. m_cur_read_block q = At r \<and> n \<le> avail (m_q q ! r) \<and> q' = read_step r n q)) \<and>
    (s' = s \<and> n = 0 \<or> (\<exists>k r. v_ncwrite vt p (take k (unread q)) s = Some (r, s') \<and> n = nat r \<and> n \<le> k)) \<and>
    (st = NC_STATUS_OK \<and> unread q \<noteq> [] \<and> no_gap q \<and> n = 0 \<longrightarrow>
       (\<exists>k. take k (unread q) \<noteq> [] \<and> v_ncwrite vt p (take k (unread q)) s = Some (0, s')))"
proof (cases "read_avail q = 0")
  case True
  then have "unread q = []" using rd_inv_length[OF assms(2)] by (simp add: read_avail_def)
  then show ?thesis using True assms by (simp add: nc_write_def read_post_refl)
next
  case False
  then obtain r where r: "m_cur_read_block q = At r"
    using assms(2) by (cases "m_cur_read_block q") (auto simp: rd_inv_def read_avail_def)
  note A = rd_inv_At[OF assms(2) r]
  define k where "k = avail (m_q q ! r)"
  have k: "b_read_avail q = Some (s32 k)" "u32 k = k" "k \<le> length (unread q)"
    using rd_b_read_avail[OF assms(2) r] avail_less[OF A(2)] A(2,3) by (auto simp: k_def u32_id)
  have cp: "b_read_copy k q = Some (take k (unread q))"
    by (rule rd_b_read_copy[OF assms(2) r]) (simp add: k_def)
  obtain n s' where wr: "v_ncwrite vt p (take k (unread q)) s = Some (n, s')" "I s'" "more s' = more s"
    "nat n \<le> length (take k (unread q))"
    using ncwrite[OF assms(1)] by blast
  show ?thesis
  proof (cases "0 < n")
    case False
    then have "nc_write vt p (Some q) s = Some (if n = 0 then NC_STATUS_OK
        else if n = NC_STATUS_AGAIN then NC_STATUS_AGAIN else NC_STATUS_ERROR, 0, Some q, s')"
      using \<open>read_avail q \<noteq> 0\<close> k cp wr(1) by (simp add: nc_write_def)
    moreover have "take k (unread q) \<noteq> []" if "no_gap q"
    proof -
      have "k \<noteq> 0" using that r \<open>read_avail q \<noteq> 0\<close> by (simp add: no_gap_def read_avail_def k_def)
      then show ?thesis using k(3) by auto
    qed
    moreover have "v_ncwrite vt p (take k (unread q)) s = Some (n, s') \<and> 0 = nat n \<and> 0 \<le> k"
      using wr(1) False by simp
    ultimately show ?thesis
      using False wr assms(2) by (intro exI[of _ "if n = 0 then NC_STATUS_OK
        else if n = NC_STATUS_AGAIN then NC_STATUS_AGAIN else NC_STATUS_ERROR"] exI[of _ 0] exI[of _ q] exI[of _ s'] conjI)
        (auto simp: read_post_refl nc_status_defs intro: exI[of _ k])
  next
    case True
    then have n: "nat n \<le> k" using wr(4) k(3) by simp
    have "b_read_incr (nat n) q = Some (read_step r (nat n) q)"
      by (rule b_read_incr_step[OF assms(2) r]) (use n in \<open>simp add: k_def\<close>)
    then have "nc_write vt p (Some q) s = Some (NC_STATUS_OK, nat n, Some (read_step r (nat n) q), s')"
      using \<open>read_avail q \<noteq> 0\<close> k cp wr(1) True by (simp add: nc_write_def)
    moreover have "read_post q (nat n) (read_step r (nat n) q)"
      by (rule read_post_step[OF assms(2) r]) (use n in \<open>simp add: k_def\<close>)
    ultimately show ?thesis
      using wr n k(3) True r by (intro exI[of _ NC_STATUS_OK] exI[of _ "nat n"] exI[of _ "read_step r (nat n) q"] exI[of _ s'] conjI)
        (auto simp: k_def)
  qed
qed

end

text \<open>
  A transport that accepts something of any bytes it is given, or says that it does not: then
  a write makes progress when the read cursor is not at an empty block before others with data.
\<close>

locale nc_io = nc_moves +
  assumes ncwrite_some: "I s \<Longrightarrow> buf \<noteq> [] \<Longrightarrow> v_ncwrite vt p buf s = Some (r, s') \<Longrightarrow> r \<noteq> 0"
begin

lemma nc_write_ends:
  assumes "I s" "rd_inv q"
  shows "\<exists>st n q' s'. nc_write vt p (Some q) s = Some (st, n, Some q', s') \<and> I s' \<and> more s' = more s \<and>
    n \<le> length (unread q) \<and> read_post q n q' \<and> st \<in> {NC_STATUS_OK, NC_STATUS_AGAIN, NC_STATUS_ERROR} \<and>
    (n = 0 \<and> q' = q \<or> (\<exists>r. m_cur_read_block q = At r \<and> n \<le> avail (m_q q ! r) \<and> q' = read_step r n q)) \<and>
    (st = NC_STATUS_OK \<and> unread q \<noteq> [] \<and> no_gap q \<longrightarrow> 0 < n) \<and>
    (s' = s \<and> n = 0 \<or> (\<exists>k r. v_ncwrite vt p (take k (unread q)) s = Some (r, s') \<and> n = nat r \<and> n \<le> k))"
proof -
  have some: "st = NC_STATUS_OK \<and> unread q \<noteq> [] \<and> no_gap q \<longrightarrow> 0 < n"
    if "st = NC_STATUS_OK \<and> unread q \<noteq> [] \<and> no_gap q \<and> n = 0 \<longrightarrow>
       (\<exists>k. take k (unread q) \<noteq> [] \<and> v_ncwrite vt p (take k (unread q)) s = Some (0, s'))" for st s' and n :: nat
  proof (intro impI, elim conjE)
    assume "st = NC_STATUS_OK" "unread q \<noteq> []" "no_gap q"
    then have "n = 0 \<Longrightarrow> \<exists>k. take k (unread q) \<noteq> [] \<and> v_ncwrite vt p (take k (unread q)) s = Some (0, s')"
      using that by blast
    then show "0 < n" using ncwrite_some[OF assms(1), of "take k (unread q)" 0 s' for k] by (cases "n = 0") (blast, simp)
  qed
  from nc_write_moves[OF assms] show ?thesis
    by (elim ex_forward, elim conjE, intro conjI) (rule some | assumption)+
qed

end

lemma nc_ioI:
  fixes vt :: "('n, 'w) nc_virt" and more :: "'n \<times> 'w \<Rightarrow> nat"
  assumes "\<And>s len. I s \<Longrightarrow> \<exists>r bs s'. v_ncread vt p len s = Some (r, bs, s') \<and> I s' \<and> r \<noteq> NC_STATUS_OK \<and>
      (if 0 < r then length bs = nat r \<and> nat r \<le> len \<and> more s' + nat r = more s else more s' = more s)"
    and "\<And>s buf. I s \<Longrightarrow> \<exists>r s'. v_ncwrite vt p buf s = Some (r, s') \<and> I s' \<and> more s' = more s \<and>
      nat r \<le> length buf \<and> (buf \<noteq> [] \<longrightarrow> r \<noteq> 0)"
  shows "nc_io vt p I more"
proof (unfold_locales, goal_cases)
  case (3 s buf r s')
  then show ?case using assms(2)[of s buf] by auto
qed (use assms in blast)+

text \<open>
  The transport with its contents: \<open>rx\<close> are the bytes still to be received from the peer,
  \<open>tx\<close> those it has been sent.
\<close>

locale nc_stream = nc_moves vt p I "\<lambda>s. length (rx s)"
  for vt :: "('n, 'w) nc_virt" and p :: nat and I :: "'n \<times> 'w \<Rightarrow> bool" and rx :: "'n \<times> 'w \<Rightarrow> byte list" +
  fixes tx :: "'n \<times> 'w \<Rightarrow> byte list"
  assumes ncread_bytes: "I s \<Longrightarrow> v_ncread vt p len s = Some (r, bs, s') \<Longrightarrow>
      tx s' = tx s \<and> rx s = (if 0 < r then bs else []) @ rx s'"
    and ncwrite_bytes: "I s \<Longrightarrow> v_ncwrite vt p buf s = Some (r, s') \<Longrightarrow> rx s' = rx s \<and> tx s' = tx s @ take (nat r) buf"
begin

lemma nc_read_spec:
  assumes "I s" "nbq_inv q" "m_cur_write_offset q + length (rx s) < 2 ^ 64"
  shows "\<exists>st bs q' s'. nc_read vt p (Some q) s = Some (st, bs, Some q', s') \<and> I s' \<and> tx s' = tx s \<and>
    write_post q bs q' \<and> rx s = bs @ rx s' \<and> (st = NC_STATUS_OK \<longleftrightarrow> bs \<noteq> [])"
proof -
  obtain st bs q' s' where r: "nc_read vt p (Some q) s = Some (st, bs, Some q', s')" "I s'"
    "write_post q bs q'" "st = NC_STATUS_OK \<longleftrightarrow> bs \<noteq> []"
    "s' = s \<and> bs = [] \<or> (\<exists>len r bs0. v_ncread vt p len s = Some (r, bs0, s') \<and> bs = (if 0 < r then bs0 else []))"
    using nc_read_ends[OF assms] by blast
  then have "tx s' = tx s \<and> rx s = bs @ rx s'"
    using ncread_bytes[OF assms(1)] by fastforce
  then show ?thesis using r by blast
qed

lemma nc_write_spec:
  assumes "I s" "rd_inv q"
  shows "\<exists>st n q' s'. nc_write vt p (Some q) s = Some (st, n, Some q', s') \<and> I s' \<and> rx s' = rx s \<and>
    n \<le> length (unread q) \<and> tx s' = tx s @ take n (unread q) \<and> read_post q n q'"
proof -
  obtain st n q' s' where r: "nc_write vt p (Some q) s = Some (st, n, Some q', s')" "I s'"
    "n \<le> length (unread q)" "read_post q n q'"
    "s' = s \<and> n = 0 \<or> (\<exists>k r. v_ncwrite vt p (take k (unread q)) s = Some (r, s') \<and> n = nat r \<and> n \<le> k)"
    using nc_write_moves[OF assms] by blast
  have "rx s' = rx s \<and> tx s' = tx s @ take n (unread q)"
    using r(5)
  proof
    assume "\<exists>k r. v_ncwrite vt p (take k (unread q)) s = Some (r, s') \<and> n = nat r \<and> n \<le> k"
    then obtain k r where k: "v_ncwrite vt p (take k (unread q)) s = Some (r, s')" "n = nat r" "n \<le> k" by blast
    then show ?thesis using ncwrite_bytes[OF assms(1) k(1)] by (simp add: min_absorb2)
  qed simp
  then show ?thesis using r by blast
qed

end

end
