(* ===== verification/Hurl_Request.thy ===== *)
theory Hurl_Request
  imports Kv_Map Nconn
begin

text \<open>
  The request object of \<^verbatim>\<open>src/hurl/hurl.cc\<close>: class \<^verbatim>\<open>request\<close> with
  \<^verbatim>\<open>set_header\<close>, \<^verbatim>\<open>set_random_xfwd_header\<close> and \<^verbatim>\<open>init_with_url\<close>, and the
  serialisation of a request to the output queue, the part of
  \<^verbatim>\<open>http_session::srequest\<close> that writes (the session itself is in another theory).
  The URL splitter of \<^verbatim>\<open>http_parser\<close> and the TLS context constructor are parameters.
\<close>

section \<open>State\<close>

record request =
  rq_scheme :: scheme
  rq_host :: string
  rq_url_path :: string
  rq_url_query :: string
  rq_verb :: string
  rq_headers :: kv_map_list
  rq_body_q :: "nbq option"
  rq_port :: nat
  rq_expect_resp_body_flag :: bool
  rq_connect_only :: bool
  rq_keepalive :: bool
  rq_save :: bool
  rq_h1 :: bool
  rq_no_host :: bool
  rq_timeout_ms :: nat
  rq_host_info :: host_info
  rq_tls_ctx :: bool

definition request_new :: request where
  "request_new = \<lparr>rq_scheme = SCHEME_TCP, rq_host = [], rq_url_path = [], rq_url_query = [],
     rq_verb = ''GET'', rq_headers = [], rq_body_q = None, rq_port = 0, rq_expect_resp_body_flag = True,
     rq_connect_only = False, rq_keepalive = False, rq_save = False, rq_h1 = False, rq_no_host = False,
     rq_timeout_ms = 10000, rq_host_info = host_info_new, rq_tls_ctx = False\<rparr>"

section \<open>Headers\<close>

definition replaces_header :: "string \<Rightarrow> bool" where
  "replaces_header k \<longleftrightarrow> ci_eq k ''User-Agent'' \<or> ci_eq k ''Referer'' \<or> ci_eq k ''Accept'' \<or>
     ci_eq k ''X-Forwarded-For'' \<or> ci_eq k ''Host''"

text \<open>\<^verbatim>\<open>strncasecmp(key, "Host", 4) == 0\<close>\<close>

definition ci_prefix_host :: "string \<Rightarrow> bool" where
  "ci_prefix_host k \<longleftrightarrow> take 4 (ci_key k) = ''host''"

definition set_header :: "string \<Rightarrow> string \<Rightarrow> request \<Rightarrow> int \<times> request" where
  "set_header k v r =
     (let replace = replaces_header k;
          remove = replace \<and> v = [];
          r1 = (if remove \<and> ci_prefix_host k then r\<lparr>rq_no_host := True\<rparr> else r);
          hs = rq_headers r1
      in (STATUS_OK,
          case kv_find k hs of
            Some (_, vs) \<Rightarrow>
              if replace
              then if remove then r1\<lparr>rq_headers := kv_erase k hs\<rparr>
                   else r1\<lparr>rq_headers := kv_set k [v] hs\<rparr>
              else r1\<lparr>rq_headers := kv_set k (vs @ [v]) hs\<rparr>
          | None \<Rightarrow>
              if \<not> remove then r1\<lparr>rq_headers := kv_set k [v] hs\<rparr> else r1))"

text \<open>
  The random forwarding address: the four draws of \<^verbatim>\<open>rand()\<close> packed in an
  \<^verbatim>\<open>uint32_t\<close>, whose bytes \<^verbatim>\<open>inet_ntop\<close> prints in memory order (little-endian).
\<close>

definition RAND_MAX :: nat where "RAND_MAX = 2147483647"

definition rand_addr :: "nat \<Rightarrow> nat \<Rightarrow> nat \<Rightarrow> nat \<Rightarrow> nat" where
  "rand_addr a b c d =
     (a mod 255) * 2 ^ 24 + (b mod 255) * 2 ^ 16 + (c mod 255) * 2 ^ 8 + d div ((RAND_MAX + 1) div 255)"

definition inet_ntop_v4 :: "nat \<Rightarrow> string" where
  "inet_ntop_v4 n = nat_str (n mod 256) @ ''.'' @ nat_str (n div 256 mod 256) @ ''.'' @
     nat_str (n div 65536 mod 256) @ ''.'' @ nat_str (n div 16777216 mod 256)"

definition set_random_xfwd_header :: "nat \<Rightarrow> nat \<Rightarrow> nat \<Rightarrow> nat \<Rightarrow> request \<Rightarrow> request" where
  "set_random_xfwd_header a b c d r =
     snd (set_header ''X-Forwarded-For'' (inet_ntop_v4 (rand_addr a b c d)) r)"

section \<open>URL\<close>

text \<open>
  The fields \<^verbatim>\<open>http_parser_parse_url\<close> finds, in the order the loop visits them: offset
  and length of schema, host, port, path, query, fragment and user info.
\<close>

record url_fields =
  uf_schema :: "nat \<times> nat"
  uf_host :: "nat \<times> nat"
  uf_port :: "nat \<times> nat"
  uf_path :: "nat \<times> nat"
  uf_query :: "nat \<times> nat"

definition uf_part :: "string \<Rightarrow> nat \<times> nat \<Rightarrow> string option" where
  "uf_part s f = (case f of (off, len) \<Rightarrow>
     if len \<noteq> 0 \<and> len + off \<le> length s then Some (substr s off len) else None)"

text \<open>\<^verbatim>\<open>strtoul(_, nullptr, 10)\<close> on a string of digits, cut to 16 bits.\<close>

definition port_of :: "string \<Rightarrow> nat" where
  "port_of s = dec_val (takeWhile is_digit s) mod 2 ^ 16"

text \<open>The cases of the loop over the fields, then the defaults.\<close>

definition url_schema :: "string \<Rightarrow> url_fields \<Rightarrow> request \<Rightarrow> request option" where
  "url_schema u f r =
     (case uf_part u (uf_schema f) of
        None \<Rightarrow> Some r
      | Some p \<Rightarrow> if p = ''http'' then Some (r\<lparr>rq_scheme := SCHEME_TCP\<rparr>)
                  else if p = ''https'' then Some (r\<lparr>rq_scheme := SCHEME_TLS\<rparr>)
                  else None)"

definition url_parts :: "string \<Rightarrow> url_fields \<Rightarrow> request \<Rightarrow> request" where
  "url_parts u f r =
     r\<lparr>rq_host := (case uf_part u (uf_host f) of None \<Rightarrow> rq_host r | Some p \<Rightarrow> p),
       rq_port := (case uf_part u (uf_port f) of None \<Rightarrow> rq_port r | Some p \<Rightarrow> port_of p),
       rq_url_path := (case uf_part u (uf_path f) of None \<Rightarrow> rq_url_path r | Some p \<Rightarrow> p),
       rq_url_query := (case uf_part u (uf_query f) of None \<Rightarrow> rq_url_query r | Some p \<Rightarrow> p)\<rparr>"

definition url_defaults :: "request \<Rightarrow> request" where
  "url_defaults r =
     r\<lparr>rq_port := (if rq_port r = 0 then (case rq_scheme r of SCHEME_TLS \<Rightarrow> 443 | _ \<Rightarrow> 80) else rq_port r),
       rq_url_path := (if rq_url_path r = [] then ''/'' else rq_url_path r)\<rparr>"

text \<open>
  \<^verbatim>\<open>init_with_url\<close>; the mode calls on a context that could not be made dereference a
  null pointer.
\<close>

definition init_with_url ::
  "(string \<Rightarrow> url_fields option) \<Rightarrow> (request \<Rightarrow> bool) \<Rightarrow> string \<Rightarrow> request \<Rightarrow> (int \<times> request) option" where
  "init_with_url parse_url tls_ctx url r =
     (let u = (if has_substr ''://'' url then url else ''http://'' @ url) in
      case parse_url u of
        None \<Rightarrow> Some (STATUS_ERROR, r)
      | Some f \<Rightarrow>
          (case url_schema u f (r\<lparr>rq_port := 0\<rparr>) of
             None \<Rightarrow> Some (STATUS_ERROR, r\<lparr>rq_port := 0\<rparr>)
           | Some r1 \<Rightarrow>
               let r2 = url_defaults (url_parts u f r1)
               in if rq_scheme r2 = SCHEME_TLS
                  then if tls_ctx r2 then Some (STATUS_OK, r2\<lparr>rq_tls_ctx := True\<rparr>) else None
                  else Some (STATUS_OK, r2)))"

section \<open>Writing a request\<close>

definition CRLF :: string where "CRLF = [CHR 0x0D, CHR 0x0A]"

text \<open>Writing one string after the other, giving up at the first error.\<close>

fun nbq_puts :: "string list \<Rightarrow> nbq \<Rightarrow> (int \<times> nbq) option" where
  "nbq_puts [] q = Some (STATUS_OK, q)"
| "nbq_puts (s # ss) q =
     do { (st, q1) \<leftarrow> nbq_write (Some s) q;
          if st = STATUS_ERROR then Some (STATUS_ERROR, q1) else nbq_puts ss q1 }"

definition nbq_write_request_line :: "string \<Rightarrow> nbq \<Rightarrow> (int \<times> nbq) option" where
  "nbq_write_request_line buf q = nbq_puts [buf, CRLF] q"

definition nbq_write_header :: "string \<Rightarrow> string \<Rightarrow> nbq \<Rightarrow> (int \<times> nbq) option" where
  "nbq_write_header k v q = nbq_puts [k, '': '', v, CRLF] q"

definition nbq_write_body :: "byte list option \<Rightarrow> nbq \<Rightarrow> (int \<times> nbq) option" where
  "nbq_write_body buf q =
     (case buf of None \<Rightarrow> nbq_puts [CRLF] q
      | Some b \<Rightarrow> if b = [] then nbq_puts [CRLF] q else nbq_puts [CRLF, b] q)"

text \<open>
  \<^verbatim>\<open>snprintf\<close> to a buffer of \<open>n\<close> bytes followed by a write of the length it returns:
  what \<^verbatim>\<open>snprintf\<close> returns is the untruncated length, so a longer text makes the write
  read past the buffer; a text of exactly \<open>n\<close> bytes has its last byte replaced by the
  terminator.
\<close>

definition snprintf_buf :: "nat \<Rightarrow> string \<Rightarrow> string option" where
  "snprintf_buf n s =
     (if length s < n then Some s else if length s = n then Some (take (n - 1) s @ [NUL]) else None)"

definition request_uri :: "string \<Rightarrow> request \<Rightarrow> string" where
  "request_uri path r =
     (let u = (if path = [] then ''/'' else path)
      in if rq_url_query r \<noteq> [] then u @ ''?'' @ rq_url_query r else u)"

text \<open>\<^verbatim>\<open>SET_IF_V1\<close>: the first value of a header, its status ignored.\<close>

definition set_if_v1 :: "string \<Rightarrow> kv_map_list \<Rightarrow> bool \<times> nbq \<Rightarrow> (bool \<times> nbq) option" where
  "set_if_v1 key hs st = (case st of (specd, q) \<Rightarrow>
     case kv_find key hs of
       None \<Rightarrow> Some (specd, q)
     | Some (k, vs) \<Rightarrow> (case vs of
           [] \<Rightarrow> None
         | v # _ \<Rightarrow> do { (_, q1) \<leftarrow> nbq_write_header k v q; Some (specd \<or> ci_eq k ''host'', q1) }))"

fun write_values :: "string \<Rightarrow> string list \<Rightarrow> nbq \<Rightarrow> (int \<times> nbq) option" where
  "write_values k [] q = Some (STATUS_OK, q)"
| "write_values k (v # vs) q =
     do { (st, q1) \<leftarrow> nbq_write_header k v q;
          if st \<noteq> STATUS_OK then Some (STATUS_ERROR, q1) else write_values k vs q1 }"

definition skip_header :: "string \<times> string list \<Rightarrow> bool" where
  "skip_header e \<longleftrightarrow> ci_eq ''host'' (fst e) \<or> ci_eq ''accept'' (fst e) \<or> ci_eq ''user-agent'' (fst e) \<or>
     fst e = [] \<or> snd e = []"

fun write_headers :: "kv_map_list \<Rightarrow> bool \<times> nbq \<Rightarrow> (int \<times> bool \<times> nbq) option" where
  "write_headers [] st = Some (STATUS_OK, st)"
| "write_headers (e # hs) (specd, q) =
     (if skip_header e then write_headers hs (specd, q)
      else do { (st, q1) \<leftarrow> write_values (fst e) (snd e) q;
                if st \<noteq> STATUS_OK then Some (STATUS_ERROR, specd, q1)
                else write_headers hs (specd \<or> ci_eq (fst e) ''host'', q1) })"

text \<open>Lines 1135 to 1250 of \<^verbatim>\<open>http_session::srequest\<close>: the request built from scratch.\<close>

definition write_request :: "string \<Rightarrow> request \<Rightarrow> nbq \<Rightarrow> (int \<times> nbq) option" where
  "write_request path r out_q =
     do {
       buf \<leftarrow> snprintf_buf 2048 (c_str (rq_verb r) @ '' '' @ c_str (request_uri path r) @ '' HTTP/1.1'');
       (s1, q1) \<leftarrow> nbq_write_request_line buf (nbq_reset out_q);
       if s1 \<noteq> STATUS_OK then Some (STATUS_ERROR, q1)
       else do {
         p1 \<leftarrow> set_if_v1 ''host'' (rq_headers r) (False, q1);
         p2 \<leftarrow> set_if_v1 ''user-agent'' (rq_headers r) p1;
         p3 \<leftarrow> set_if_v1 ''accept'' (rq_headers r) p2;
         (s2, specd, q2) \<leftarrow> write_headers (rq_headers r) p3;
         if s2 \<noteq> STATUS_OK then Some (STATUS_ERROR, q2)
         else do {
           (s3, q3) \<leftarrow> (if \<not> specd \<and> \<not> rq_no_host r
                       then nbq_write_header ''Host'' (rq_host r) q2 else Some (STATUS_OK, q2));
           if s3 \<noteq> STATUS_OK then Some (STATUS_ERROR, q3)
           else (case rq_body_q r of
               Some b \<Rightarrow> do { (_, q4) \<leftarrow> nbq_write (Some CRLF) q3; Some (STATUS_OK, snd (join_ref b q4)) }
             | None \<Rightarrow> do { (s4, q4) \<leftarrow> nbq_write_body None q3;
                            Some (if s4 \<noteq> STATUS_OK then STATUS_ERROR else STATUS_OK, q4) }) } } }"


section \<open>Laws of the header map\<close>

definition headers_ok :: "kv_map_list \<Rightarrow> bool" where
  "headers_ok m \<longleftrightarrow> kv_inv m \<and> (\<forall>e \<in> set m. snd e \<noteq> [])"

lemma headers_ok_inv [simp]: "headers_ok m \<Longrightarrow> kv_inv m"
  by (simp add: headers_ok_def)

lemma headers_ok_set: "headers_ok m \<Longrightarrow> v \<noteq> [] \<Longrightarrow> headers_ok (kv_set k v m)"
  using set_kv_set [of k v m] by (fastforce simp: headers_ok_def kv_set_inv)

lemma headers_ok_erase: "headers_ok m \<Longrightarrow> headers_ok (kv_erase k m)"
  using kv_erase_inv [of m k] by (auto simp: headers_ok_def kv_erase_def)

lemma set_header_cases:
  "set_header k v r = (STATUS_OK,
     (if replaces_header k \<and> v = [] \<and> ci_prefix_host k then r\<lparr>rq_no_host := True\<rparr> else r)
       \<lparr>rq_headers := (if replaces_header k
          then if v = [] then if kv_find k (rq_headers r) = None then rq_headers r else kv_erase k (rq_headers r)
               else kv_set k [v] (rq_headers r)
          else kv_append k v (rq_headers r))\<rparr>)"
  by (auto simp: set_header_def Let_def kv_append_def split: option.splits)

lemma kv_erase_absent: "kv_find k m = None \<Longrightarrow> kv_erase k m = m"
  by (auto simp: kv_erase_def kv_find_None)

lemma set_header_spec:
  assumes "headers_ok (rq_headers r)" "set_header k v r = (s, r')"
  shows "s = STATUS_OK" "headers_ok (rq_headers r')"
    "kv_values (rq_headers r') k' =
       (if \<not> ci_eq k k' then kv_values (rq_headers r) k'
        else if replaces_header k then (if v = [] then None else Some [v])
        else Some ((case kv_values (rq_headers r) k of Some vs \<Rightarrow> vs | None \<Rightarrow> []) @ [v]))"
proof -
  let ?m = "rq_headers r"
  have app: "headers_ok (kv_append k v ?m)"
    using assms(1) by (auto simp: kv_append_def intro!: headers_ok_set split: option.splits)
  have r': "rq_headers r' = (if replaces_header k then if v = [] then kv_erase k ?m else kv_set k [v] ?m
      else kv_append k v ?m)"
    using assms(2) by (auto simp: set_header_cases kv_erase_absent)
  show "s = STATUS_OK" using assms(2) by (simp add: set_header_cases)
  show "headers_ok (rq_headers r')"
    unfolding r' using assms(1) app by (simp add: headers_ok_set headers_ok_erase)
  show "kv_values (rq_headers r') k' =
       (if \<not> ci_eq k k' then kv_values ?m k'
        else if replaces_header k then (if v = [] then None else Some [v])
        else Some ((case kv_values ?m k of Some vs \<Rightarrow> vs | None \<Rightarrow> []) @ [v]))"
    unfolding r' using headers_ok_inv [OF assms(1)]
    by (auto simp: kv.look_upd kv.look_del kv_append_spec)
qed

section \<open>What a request writes\<close>

text \<open>A writer emits a text when it appends it to any queue with room for it and succeeds.\<close>

definition sent :: "nbq \<Rightarrow> byte list \<Rightarrow> nbq \<Rightarrow> bool" where
  "sent q xs q' \<longleftrightarrow> write_post q xs q' \<and> (packed q \<longrightarrow> packed q')"

lemma sent_trans: "sent q xs q1 \<Longrightarrow> sent q1 ys q2 \<Longrightarrow> sent q (xs @ ys) q2"
  using write_post_trans[of q xs q1 ys q2] by (auto simp: sent_def)

lemma nbq_write_sent:
  assumes "nbq_inv q" "m_cur_write_offset q + length buf < 2 ^ 64"
  shows "\<exists>q'. nbq_write (Some buf) q = Some (int (length buf), q') \<and> sent q buf q'"
  using nbq_write_packed[OF assms] by (auto simp: sent_def)

definition emits :: "(nbq \<Rightarrow> (int \<times> nbq) option) \<Rightarrow> byte list \<Rightarrow> bool" where
  "emits f xs \<longleftrightarrow> (\<forall>q. nbq_inv q \<longrightarrow> m_cur_write_offset q + length xs < 2 ^ 64 \<longrightarrow>
     (\<exists>q'. f q = Some (STATUS_OK, q') \<and> sent q xs q'))"

lemma emitsD:
  assumes "emits f xs" "sent q ys q1" "m_cur_write_offset q + length (ys @ xs) < 2 ^ 64"
  shows "\<exists>q2. f q1 = Some (STATUS_OK, q2) \<and> sent q (ys @ xs) q2"
proof -
  have "nbq_inv q1" "m_cur_write_offset q1 + length xs < 2 ^ 64"
    using assms(2,3) by (simp_all add: sent_def write_post_def)
  with assms(1) obtain q2 where "f q1 = Some (STATUS_OK, q2)" "sent q1 xs q2"
    unfolding emits_def by blast
  then show ?thesis using sent_trans [OF assms(2)] by blast
qed

lemma emits_puts: "emits (nbq_puts ss) (concat ss)"
  unfolding emits_def
proof (intro allI impI)
  fix q
  assume "nbq_inv q" "m_cur_write_offset q + length (concat ss) < 2 ^ 64"
  then show "\<exists>q'. nbq_puts ss q = Some (STATUS_OK, q') \<and> sent q (concat ss) q'"
  proof (induction ss arbitrary: q)
    case Nil
    then show ?case by (simp add: sent_def write_post_def)
  next
    case (Cons s ss)
    then obtain q1 where q1: "nbq_write (Some s) q = Some (int (length s), q1)" "sent q s q1"
      using nbq_write_sent [of q s] by auto
    then have "nbq_inv q1" "m_cur_write_offset q1 + length (concat ss) < 2 ^ 64"
      using Cons.prems by (simp_all add: sent_def write_post_def)
    from Cons.IH [OF this] q1 show ?case
      using sent_trans by (force simp: STATUS_ERROR_def)
  qed
qed

definition header_text :: "string \<Rightarrow> string \<Rightarrow> byte list" where
  "header_text k v = k @ '': '' @ v @ CRLF"

lemma emits_header: "emits (nbq_write_header k v) (header_text k v)"
  using emits_puts [of "[k, '': '', v, CRLF]"]
  by (simp add: nbq_write_header_def [abs_def] header_text_def del: nbq_puts.simps)

lemma emits_line: "emits (nbq_write_request_line s) (s @ CRLF)"
  using emits_puts [of "[s, CRLF]"] by (simp add: nbq_write_request_line_def [abs_def] del: nbq_puts.simps)

lemma emits_no_body: "emits (nbq_write_body None) CRLF"
  using emits_puts [of "[CRLF]"] by (simp add: nbq_write_body_def [abs_def] del: nbq_puts.simps)

lemma emits_nil: "emits (\<lambda>q. Some (STATUS_OK, q)) []"
  by (simp add: emits_def sent_def write_post_def)

lemma emits_values: "emits (write_values k vs) (concat (map (header_text k) vs))"
  unfolding emits_def
proof (intro allI impI)
  fix q
  assume "nbq_inv q" "m_cur_write_offset q + length (concat (map (header_text k) vs)) < 2 ^ 64"
  then show "\<exists>q'. write_values k vs q = Some (STATUS_OK, q') \<and>
      sent q (concat (map (header_text k) vs)) q'"
  proof (induction vs arbitrary: q)
    case Nil
    then show ?case by (simp add: sent_def write_post_def)
  next
    case (Cons v vs)
    have "sent q [] q" using Cons.prems(1) by (simp add: sent_def write_post_def)
    from emitsD [OF emits_header this, of k v] Cons.prems(2) obtain q1 where
      q1: "nbq_write_header k v q = Some (STATUS_OK, q1)" "sent q (header_text k v) q1" by auto
    then have "nbq_inv q1" "m_cur_write_offset q1 + length (concat (map (header_text k) vs)) < 2 ^ 64"
      using Cons.prems by (simp_all add: sent_def write_post_def)
    from Cons.IH [OF this] q1 show ?case using sent_trans by force
  qed
qed

text \<open>The header block of a request and the request text, written down directly.\<close>

definition first_text :: "string \<Rightarrow> kv_map_list \<Rightarrow> byte list" where
  "first_text key hs = (case kv_find key hs of Some (k, v # _) \<Rightarrow> header_text k v | _ \<Rightarrow> [])"

definition rest_text :: "kv_map_list \<Rightarrow> byte list" where
  "rest_text hs = concat (map (\<lambda>e. if skip_header e then [] else concat (map (header_text (fst e)) (snd e))) hs)"

definition request_text :: "string \<Rightarrow> request \<Rightarrow> byte list" where
  "request_text path r =
     c_str (rq_verb r) @ '' '' @ c_str (request_uri path r) @ '' HTTP/1.1'' @ CRLF @
     first_text ''host'' (rq_headers r) @ first_text ''user-agent'' (rq_headers r) @
     first_text ''accept'' (rq_headers r) @ rest_text (rq_headers r) @
     (if kv_find ''host'' (rq_headers r) = None \<and> \<not> rq_no_host r then header_text ''Host'' (rq_host r) else []) @
     CRLF"

lemma set_if_v1_spec:
  assumes "headers_ok hs" "sent q0 ys q"
    "m_cur_write_offset q0 + length (ys @ first_text key hs) < 2 ^ 64"
  shows "\<exists>q'. set_if_v1 key hs (specd, q) =
      Some (specd \<or> (ci_eq key ''host'' \<and> kv_find key hs \<noteq> None), q') \<and>
    sent q0 (ys @ first_text key hs) q'"
proof (cases "kv_find key hs")
  case None
  then show ?thesis using assms(2) by (simp add: set_if_v1_def first_text_def)
next
  case (Some e)
  obtain k vs where e: "e = (k, vs)" by fastforce
  have "vs \<noteq> []" "ci_eq k key"
    using kv_find_Some [OF Some] assms(1) e by (auto simp: headers_ok_def)
  then obtain v vs' where v: "vs = v # vs'" by (cases vs) auto
  have ft: "first_text key hs = header_text k v" using Some e v by (simp add: first_text_def)
  from emitsD [OF emits_header assms(2), of k v] assms(3) obtain q' where
    "nbq_write_header k v q = Some (STATUS_OK, q')" "sent q0 (ys @ header_text k v) q'"
    unfolding ft by auto
  then show ?thesis
    using Some e v ft \<open>ci_eq k key\<close> by (auto simp: set_if_v1_def ci_eq_def)
qed

lemma rest_text_Cons:
  "rest_text (e # hs) = (if skip_header e then [] else concat (map (header_text (fst e)) (snd e))) @ rest_text hs"
  by (simp add: rest_text_def)

lemma write_headers_spec:
  assumes "sent q0 ys q" "m_cur_write_offset q0 + length (ys @ rest_text hs) < 2 ^ 64"
  shows "\<exists>q'. write_headers hs (specd, q) = Some (STATUS_OK, specd, q') \<and>
    sent q0 (ys @ rest_text hs) q'"
  using assms
proof (induction hs arbitrary: q ys)
  case Nil
  then show ?case by (simp add: rest_text_def)
next
  case (Cons e hs)
  show ?case
  proof (cases "skip_header e")
    case True
    then show ?thesis using Cons.IH [OF Cons.prems(1)] Cons.prems(2) by (simp add: rest_text_Cons)
  next
    case False
    let ?t = "concat (map (header_text (fst e)) (snd e))"
    from emitsD [OF emits_values Cons.prems(1), of "fst e" "snd e"] Cons.prems(2) False obtain q1 where
      q1: "write_values (fst e) (snd e) q = Some (STATUS_OK, q1)" "sent q0 (ys @ ?t) q1"
      by (auto simp: rest_text_Cons)
    have nh: "\<not> ci_eq (fst e) ''host''" using False by (auto simp: skip_header_def ci_eq_def)
    from Cons.IH [OF q1(2)] Cons.prems(2) False obtain q2 where
      "write_headers hs (specd, q1) = Some (STATUS_OK, specd, q2)" "sent q0 ((ys @ ?t) @ rest_text hs) q2"
      by (auto simp: rest_text_Cons)
    then show ?thesis using False q1(1) nh by (simp add: rest_text_Cons)
  qed
qed

lemma ci_eq_fixed:
  "\<not> ci_eq ''user-agent'' ''host''" "\<not> ci_eq ''accept'' ''host''"
  by (simp_all add: ci_eq_def ci_key_def c_str_def NUL_def to_lower_def)

text \<open>
  With a request line that fits the buffer, the request is written completely: the queue
  holds the request text, followed by the body if there is one.
\<close>

lemma write_request_spec:
  assumes "nbq_inv q" "headers_ok (rq_headers r)" "length (request_text path r) < 2 ^ 64"
    "length (c_str (rq_verb r) @ '' '' @ c_str (request_uri path r) @ '' HTTP/1.1'') < 2048"
  shows "\<exists>q1 q2. write_request path r q = Some (STATUS_OK, q2) \<and> nbq_inv q1 \<and> packed q1 \<and> m_bsize q1 = m_bsize q \<and>
      unread q1 = request_text path r \<and> all_written q1 = request_text path r \<and>
      q2 = (case rq_body_q r of None \<Rightarrow> q1 | Some b \<Rightarrow> snd (join_ref b q1))"
proof -
  let ?hs = "rq_headers r"
  let ?line = "c_str (rq_verb r) @ '' '' @ c_str (request_uri path r) @ '' HTTP/1.1''"
  let ?q0 = "nbq_reset q"
  have p0: "sent ?q0 [] ?q0" "m_cur_write_offset ?q0 = 0" "unread ?q0 = []" "all_written ?q0 = []"
    using nbq_reset_inv [OF assms(1)] by (simp_all add: sent_def write_post_def nbq_reset_def)
  have buf: "snprintf_buf 2048 ?line = Some ?line" using assms(4) by (simp add: snprintf_buf_def)
  define host where "host = (if kv_find ''host'' ?hs = None \<and> \<not> rq_no_host r then header_text ''Host'' (rq_host r) else [])"
  have len: "length (((((((?line @ CRLF) @ first_text ''host'' ?hs) @ first_text ''user-agent'' ?hs) @
      first_text ''accept'' ?hs) @ rest_text ?hs) @ host) @ CRLF) < 2 ^ 64"
    and full: "((((((?line @ CRLF) @ first_text ''host'' ?hs) @ first_text ''user-agent'' ?hs) @
      first_text ''accept'' ?hs) @ rest_text ?hs) @ host) @ CRLF = request_text path r"
    using assms(3) by (simp_all add: request_text_def host_def)
  have r1: "m_cur_write_offset ?q0 + length (?line @ CRLF) < 2 ^ 64" using len p0 by simp
  from emitsD [OF emits_line p0(1), of ?line] r1 obtain a1 where
    a1: "nbq_write_request_line ?line ?q0 = Some (STATUS_OK, a1)" "sent ?q0 (?line @ CRLF) a1" by auto
  have r2: "m_cur_write_offset ?q0 + length ((?line @ CRLF) @ first_text ''host'' ?hs) < 2 ^ 64"
    using len p0 by simp
  from set_if_v1_spec [OF assms(2) a1(2) r2, of False] obtain a2 where
    a2: "set_if_v1 ''host'' ?hs (False, a1) = Some (kv_find ''host'' ?hs \<noteq> None, a2)"
      "sent ?q0 ((?line @ CRLF) @ first_text ''host'' ?hs) a2" by auto
  have r3: "m_cur_write_offset ?q0 + length (((?line @ CRLF) @ first_text ''host'' ?hs) @ first_text ''user-agent'' ?hs) < 2 ^ 64"
    using len p0 by simp
  from set_if_v1_spec [OF assms(2) a2(2) r3] obtain a3 where
    a3: "set_if_v1 ''user-agent'' ?hs (kv_find ''host'' ?hs \<noteq> None, a2) = Some (kv_find ''host'' ?hs \<noteq> None, a3)"
      "sent ?q0 (((?line @ CRLF) @ first_text ''host'' ?hs) @ first_text ''user-agent'' ?hs) a3"
    using ci_eq_fixed by fastforce
  have r4: "m_cur_write_offset ?q0 + length ((((?line @ CRLF) @ first_text ''host'' ?hs) @
      first_text ''user-agent'' ?hs) @ first_text ''accept'' ?hs) < 2 ^ 64"
    using len p0 by simp
  from set_if_v1_spec [OF assms(2) a3(2) r4] obtain a4 where
    a4: "set_if_v1 ''accept'' ?hs (kv_find ''host'' ?hs \<noteq> None, a3) = Some (kv_find ''host'' ?hs \<noteq> None, a4)"
      "sent ?q0 ((((?line @ CRLF) @ first_text ''host'' ?hs) @ first_text ''user-agent'' ?hs) @
        first_text ''accept'' ?hs) a4"
    using ci_eq_fixed by fastforce
  have r5: "m_cur_write_offset ?q0 + length (((((?line @ CRLF) @ first_text ''host'' ?hs) @
      first_text ''user-agent'' ?hs) @ first_text ''accept'' ?hs) @ rest_text ?hs) < 2 ^ 64"
    using len p0 by simp
  from write_headers_spec [OF a4(2) r5] obtain a5 where
    a5: "write_headers ?hs (kv_find ''host'' ?hs \<noteq> None, a4) = Some (STATUS_OK, kv_find ''host'' ?hs \<noteq> None, a5)"
      "sent ?q0 (((((?line @ CRLF) @ first_text ''host'' ?hs) @ first_text ''user-agent'' ?hs) @
        first_text ''accept'' ?hs) @ rest_text ?hs) a5" by blast
  let ?h = "\<lambda>q2. if \<not> kv_find ''host'' ?hs \<noteq> None \<and> \<not> rq_no_host r
    then nbq_write_header ''Host'' (rq_host r) q2 else Some (STATUS_OK, q2)"
  have eh: "emits ?h host"
    using emits_header emits_nil by (cases "kv_find ''host'' ?hs = None \<and> \<not> rq_no_host r") (auto simp: host_def)
  from emitsD [OF eh a5(2)] len p0 obtain a6 where
    a6: "?h a5 = Some (STATUS_OK, a6)"
      "sent ?q0 ((((((?line @ CRLF) @ first_text ''host'' ?hs) @ first_text ''user-agent'' ?hs) @
        first_text ''accept'' ?hs) @ rest_text ?hs) @ host) a6" by auto
  have "\<exists>a7. write_request path r q = Some (STATUS_OK, case rq_body_q r of None \<Rightarrow> a7 | Some b \<Rightarrow> snd (join_ref b a7)) \<and>
    sent ?q0 (request_text path r) a7"
  proof (cases "rq_body_q r")
    case None
    from emitsD [OF emits_no_body a6(2)] len p0 full obtain a7 where
      "nbq_write_body None a6 = Some (STATUS_OK, a7)" "sent ?q0 (request_text path r) a7" by auto
    then show ?thesis
      using None a1(1) a2(1) a3(1) a4(1) a5(1) a6(1) buf
      by (intro exI [of _ a7]) (simp add: write_request_def)
  next
    case (Some b)
    have "nbq_inv a6" "m_cur_write_offset a6 + length CRLF < 2 ^ 64"
      using a6(2) len p0(2) by (simp_all add: sent_def write_post_def)
    from nbq_write_sent [OF this] obtain a7 where
      a7: "nbq_write (Some CRLF) a6 = Some (int (length CRLF), a7)" "sent a6 CRLF a7" by blast
    then have "sent ?q0 (request_text path r) a7"
      using sent_trans [OF a6(2) a7(2)] full by simp
    then show ?thesis
      using Some a1(1) a2(1) a3(1) a4(1) a5(1) a6(1) a7(1) buf
      by (intro exI [of _ a7]) (simp add: write_request_def)
  qed
  then obtain a7 where "write_request path r q = Some (STATUS_OK, case rq_body_q r of None \<Rightarrow> a7 | Some b \<Rightarrow> snd (join_ref b a7))"
    "sent ?q0 (request_text path r) a7" by blast
  moreover have "m_bsize ?q0 = m_bsize q" "packed ?q0" by (simp_all add: nbq_reset_def packed_def)
  ultimately show ?thesis using p0 by (auto simp: sent_def write_post_def)
qed

section \<open>The URL\<close>

text \<open>
  With an accepted scheme the request has a port and a path; the port is the scheme's
  when the URL names none.
\<close>

lemma url_schema_cases:
  assumes "url_schema u f r = Some r1"
  shows "r1 = r \<or> r1 = r\<lparr>rq_scheme := SCHEME_TCP\<rparr> \<or> r1 = r\<lparr>rq_scheme := SCHEME_TLS\<rparr>"
  using assms by (auto simp: url_schema_def split: option.splits if_splits)

lemma url_port:
  assumes "rq_port r = 0"
  shows "rq_port (url_defaults (url_parts u f r)) \<noteq> 0" "rq_port (url_defaults (url_parts u f r)) < 2 ^ 16"
  using assms by (auto simp: url_defaults_def url_parts_def port_of_def split: option.splits scheme.splits)

lemma url_frame [simp]:
  "rq_url_path (url_defaults r) \<noteq> []" "rq_scheme (url_defaults r) = rq_scheme r"
  "rq_headers (url_defaults r) = rq_headers r" "rq_headers (url_parts u f r) = rq_headers r"
  "rq_scheme (url_parts u f r) = rq_scheme r"
  by (auto simp: url_defaults_def url_parts_def)

lemma init_with_url_spec:
  assumes "init_with_url parse_url tls_ctx url r = Some (STATUS_OK, r')"
  shows "rq_port r' \<noteq> 0" "rq_port r' < 2 ^ 16" "rq_url_path r' \<noteq> []"
    "rq_scheme r' = SCHEME_TLS \<longrightarrow> rq_tls_ctx r'" "rq_headers r' = rq_headers r"
proof -
  define u where "u = (if has_substr ''://'' url then url else ''http://'' @ url)"
  from assms obtain f r1 where f: "parse_url u = Some f" "url_schema u f (r\<lparr>rq_port := 0\<rparr>) = Some r1"
    and r': "r' = url_defaults (url_parts u f r1) \<and> rq_scheme r' \<noteq> SCHEME_TLS \<or>
      r' = (url_defaults (url_parts u f r1))\<lparr>rq_tls_ctx := True\<rparr>"
    by (auto simp: init_with_url_def u_def [symmetric] Let_def STATUS_OK_def STATUS_ERROR_def
        split: option.splits if_splits)
  have "rq_port r1 = 0" "rq_headers r1 = rq_headers r" using url_schema_cases [OF f(2)] by auto
  with r' url_port [of r1 u f] show "rq_port r' \<noteq> 0" "rq_port r' < 2 ^ 16" "rq_url_path r' \<noteq> []"
    "rq_scheme r' = SCHEME_TLS \<longrightarrow> rq_tls_ctx r'" "rq_headers r' = rq_headers r"
    by auto
qed

section \<open>Properties\<close>

text \<open>
  C38: \<^verbatim>\<open>set_header\<close> on the case-insensitive map.  For the five single-valued headers
  a value replaces what was there and an empty value removes it; for any other header the
  value is added after the ones already there; every other name is untouched, and the map
  stays ordered with no empty value list.
\<close>

theorem set_header_values:
  assumes "headers_ok (rq_headers r)"
  shows "fst (set_header k v r) = STATUS_OK \<and> headers_ok (rq_headers (snd (set_header k v r))) \<and>
    kv_values (rq_headers (snd (set_header k v r))) k' =
      (if \<not> ci_eq k k' then kv_values (rq_headers r) k'
       else if replaces_header k then (if v = [] then None else Some [v])
       else Some ((case kv_values (rq_headers r) k of Some vs \<Rightarrow> vs | None \<Rightarrow> []) @ [v]))"
proof -
  obtain s r' where e: "set_header k v r = (s, r')" by fastforce
  from set_header_spec [OF assms e] e show ?thesis by simp
qed

lemma ci_key_literals [simp]:
  "ci_key ''Host'' = ''host''" "ci_key ''hOST'' = ''host''" "ci_key ''host'' = ''host''"
  "ci_key ''User-Agent'' = ''user-agent''" "ci_key ''user-agent'' = ''user-agent''"
  "ci_key ''Accept'' = ''accept''" "ci_key ''accept'' = ''accept''"
  "ci_key ''Referer'' = ''referer''" "ci_key ''X-Forwarded-For'' = ''x-forwarded-for''"
  by code_simp+

theorem set_header_values_witness:
  "kv_values (rq_headers (snd (set_header ''hOST'' ''a'' (request_new\<lparr>rq_headers := [(''Host'', [''b''])]\<rparr>)))) ''host'' = Some [''a'']"
  using set_header_values [of "request_new\<lparr>rq_headers := [(''Host'', [''b''])]\<rparr>" "''hOST''" "''a''" "''host''"]
  by (simp add: headers_ok_def replaces_header_def ci_eq_def)

text \<open>
  C14: the bytes of a request.  When the request line fits the 2048-byte buffer,
  \<^verbatim>\<open>srequest\<close> leaves in the output queue exactly the request line, the host, user
  agent and accept headers, the other headers with all their values, the default host if
  none was given and not suppressed, the blank line, and then the whole body, which is
  joined by reference.
\<close>

theorem request_bytes:
  assumes "nbq_inv q" "headers_ok (rq_headers r)" "nbq_inv b" "rq_body_q r = Some b"
    "length (request_text path r) + length (all_written b) < 2 ^ 64"
    "length (c_str (rq_verb r) @ '' '' @ c_str (request_uri path r) @ '' HTTP/1.1'') < 2048"
  shows "\<exists>q'. write_request path r q = Some (STATUS_OK, q') \<and> rd_inv q' \<and>
    unread q' = request_text path r @ all_written b"
proof -
  have l: "length (request_text path r) < 2 ^ 64" using assms(5) by simp
  from write_request_spec [OF assms(1,2) l assms(6)] assms(4) obtain q1 where
    q1: "write_request path r q = Some (STATUS_OK, snd (join_ref b q1))" "nbq_inv q1"
      "unread q1 = request_text path r" "all_written q1 = request_text path r" by auto
  have c: "m_cur_write_offset q1 + length (all_written b) < 2 ^ 64"
    using nbq_inv_length [OF q1(2)] q1(4) assms(5) by simp
  have "m_q q1 \<noteq> [] \<Longrightarrow> m_cur_read_block q1 \<noteq> End" using q1(2) by (auto simp: nbq_inv_def wr_ok_def)
  moreover have "rd_inv q1" "\<forall>x \<in> set (m_q b). blk_ok x"
    "m_cur_write_offset q1 = sum_list (map nb_written (m_q q1))"
    using q1(2) assms(3) by (simp_all add: nbq_inv_def rd_inv_def)
  ultimately obtain q' where "join_ref b q1 = (STATUS_OK, q')" "rd_inv q'"
    "unread q' = unread q1 @ all_written b"
    using join_ref_spec [of q1 b] c by blast
  then show ?thesis using q1(1,3) by simp
qed

definition get_req :: request where
  "get_req = request_new\<lparr>rq_host := ''h'', rq_headers := [(''Accept'', [''*/*''])], rq_body_q := Some demo_q\<rparr>"

lemma get_req_text:
  "request_text ''/x'' get_req =
     ''GET /x HTTP/1.1'' @ CRLF @ ''Accept: */*'' @ CRLF @ ''Host: h'' @ CRLF @ CRLF"
  "length (c_str (rq_verb get_req) @ '' '' @ c_str (request_uri ''/x'' get_req) @ '' HTTP/1.1'') = 15"
  "length (request_text ''/x'' get_req) = 41"
  by code_simp+

theorem request_bytes_witness:
  "\<exists>q'. write_request ''/x'' get_req (nbq_new 8) = Some (STATUS_OK, q') \<and>
    unread q' = (''GET /x HTTP/1.1'' @ CRLF @ ''Accept: */*'' @ CRLF @ ''Host: h'' @ CRLF @ CRLF) @ ''abcdef''"
proof -
  have "headers_ok (rq_headers get_req)" "rq_body_q get_req = Some demo_q" "all_written demo_q = ''abcdef''"
    by (simp_all add: get_req_def request_new_def headers_ok_def demo_q_def all_written_def written_bytes_def)
  then show ?thesis
    unfolding get_req_text(1) [symmetric]
    using request_bytes [of "nbq_new 8" get_req demo_q "''/x''"] demo_q_inv get_req_text(2,3) by auto
qed

text \<open>
  A request line longer than the buffer is not truncated: the length
  \<^verbatim>\<open>snprintf\<close> returns is used for the write, which reads past the end of the buffer.
\<close>

lemma long_request_line_overreads:
  assumes "length (c_str (rq_verb r) @ '' '' @ c_str (request_uri path r) @ '' HTTP/1.1'') > 2048"
  shows "write_request path r q = None"
  using assms by (simp add: write_request_def snprintf_buf_def)

lemma long_request_line_overreads_witness:
  "write_request (replicate 2048 CHR ''a'') request_new (nbq_new 8) = None"
  by (rule long_request_line_overreads)
    (simp add: request_new_def request_uri_def c_str_def NUL_def takeWhile_replicate)

text \<open>
  a URL that is accepted yields a request that can be sent: a path that is not empty
  and a port from 1 to 65535, and for https a TLS context.
\<close>

theorem init_with_url_complete:
  assumes "init_with_url parse_url tls_ctx url r = Some (STATUS_OK, r')"
  shows "0 < rq_port r' \<and> rq_port r' < 2 ^ 16 \<and> rq_url_path r' \<noteq> [] \<and>
    (rq_scheme r' = SCHEME_TLS \<longrightarrow> rq_tls_ctx r')"
  using init_with_url_spec [OF assms] by simp

definition demo_parse_url :: "string \<Rightarrow> url_fields option" where
  "demo_parse_url u = Some \<lparr>uf_schema = (0, 5), uf_host = (8, 1), uf_port = (0, 0), uf_path = (0, 0), uf_query = (0, 0)\<rparr>"

theorem init_with_url_complete_witness:
  "\<exists>r'. init_with_url demo_parse_url (\<lambda>_. True) ''https://h'' request_new = Some (STATUS_OK, r') \<and>
    rq_port r' = 443 \<and> 0 < rq_port r' \<and> rq_tls_ctx r'"
proof -
  let ?r = "request_new\<lparr>rq_scheme := SCHEME_TLS, rq_host := ''h'', rq_port := 443, rq_url_path := ''/'', rq_tls_ctx := True\<rparr>"
  have i: "init_with_url demo_parse_url (\<lambda>_. True) ''https://h'' request_new = Some (STATUS_OK, ?r)"
    by (simp add: init_with_url_def demo_parse_url_def url_schema_def url_parts_def url_defaults_def
        uf_part_def substr_def request_new_def Let_def)
  from init_with_url_complete [OF i] i show ?thesis by auto
qed

text \<open>The first octet of the random forwarding address may be zero, the comment excludes it.\<close>

lemma random_xfwd_zero_net: "take 2 (inet_ntop_v4 (rand_addr a b c 0)) = ''0.''"
proof -
  have z: "nat_str 0 = ''0''" by (subst nat_str.simps) code_simp
  have "rand_addr a b c 0 mod 256 = 0" by (simp add: rand_addr_def mod_add_eq [symmetric])
  then show ?thesis by (simp add: inet_ntop_v4_def z)
qed
end
