(* ===== verification/Http_Rqst.thy ===== *)
theory Http_Rqst
  imports Http_Msg Hurl_Request
begin

text \<open>
  The URL of a parsed request: \<^verbatim>\<open>rqst::parse_uri\<close> and the getters of \<^verbatim>\<open>rqst.cc\<close>.  The URL
  parser is vendored and is the parameter \<open>parse_url\<close>; a null queue is \<^term>\<open>None\<close>.
\<close>

record rqst_url_fields = url_fields +
  uf_fragment :: "nat \<times> nat"

type_synonym url_parser = "string \<Rightarrow> rqst_url_fields option"

text \<open>The copy of the URL out of the queue; an empty one leaves \<^verbatim>\<open>m_url\<close> as it is.\<close>

definition copy_url :: "nbq option \<Rightarrow> rqst \<Rightarrow> (nbq option \<times> rqst) option" where
  "copy_url q m =
     (case q of
        None \<Rightarrow> Some (None, m)
      | Some q0 \<Rightarrow>
          if cr_off (rqs_url_cr m) \<noteq> 0 \<and> cr_len (rqs_url_cr m) \<noteq> 0
          then (case copy_part (cr_off (rqs_url_cr m)) (cr_len (rqs_url_cr m)) q0 of
                  None \<Rightarrow> None
                | Some (b, q1) \<Rightarrow> Some (Some q1, if c_str b \<noteq> [] then m\<lparr>rqs_url := c_str b\<rparr> else m))
          else Some (q, m))"

definition set_url_parts :: "string \<Rightarrow> rqst_url_fields \<Rightarrow> rqst \<Rightarrow> rqst" where
  "set_url_parts u f m =
     m\<lparr>rqs_url_path := (case uf_part u (uf_path f) of None \<Rightarrow> rqs_url_path m | Some p \<Rightarrow> p),
       rqs_url_query := (case uf_part u (uf_query f) of None \<Rightarrow> rqs_url_query m | Some p \<Rightarrow> p),
       rqs_url_fragment := (case uf_part u (uf_fragment f) of None \<Rightarrow> rqs_url_fragment m | Some p \<Rightarrow> p)\<rparr>"

definition parse_uri :: "url_parser \<Rightarrow> nbq option \<Rightarrow> rqst \<Rightarrow> (int \<times> nbq option \<times> rqst) option" where
  "parse_uri parse_url q m =
     (if rqs_url_parsed m then Some (STATUS_OK, q, m)
      else (case copy_url q m of
         None \<Rightarrow> None
       | Some (q1, m1) \<Rightarrow>
           let u = (if has_substr ''://'' (rqs_url m1) then rqs_url m1 else ''http://bloop.com'' @ rqs_url m1) in
           (case parse_url u of
              None \<Rightarrow> Some (STATUS_ERROR, q1, m1)
            | Some f \<Rightarrow> Some (STATUS_OK, q1, (set_url_parts u f m1)\<lparr>rqs_url_parsed := True\<rparr>))))"

text \<open>A getter parses on the first call; \<^verbatim>\<open>get_url\<close> alone looks at the status.\<close>

definition get_url :: "url_parser \<Rightarrow> nbq option \<Rightarrow> rqst \<Rightarrow> (string \<times> nbq option \<times> rqst) option" where
  "get_url parse_url q m =
     (if rqs_url_parsed m then Some (rqs_url m, q, m)
      else (case parse_uri parse_url q m of
              None \<Rightarrow> None
            | Some (st, q1, m1) \<Rightarrow> Some (if st \<noteq> STATUS_OK then [] else rqs_url m1, q1, m1)))"

definition get_part :: "(rqst \<Rightarrow> string) \<Rightarrow> url_parser \<Rightarrow> nbq option \<Rightarrow> rqst \<Rightarrow> (string \<times> nbq option \<times> rqst) option" where
  "get_part sel parse_url q m =
     (if rqs_url_parsed m then Some (sel m, q, m)
      else (case parse_uri parse_url q m of None \<Rightarrow> None | Some (_, q1, m1) \<Rightarrow> Some (sel m1, q1, m1)))"

definition get_url_path :: "url_parser \<Rightarrow> nbq option \<Rightarrow> rqst \<Rightarrow> (string \<times> nbq option \<times> rqst) option" where
  "get_url_path = get_part rqs_url_path"

definition get_url_query :: "url_parser \<Rightarrow> nbq option \<Rightarrow> rqst \<Rightarrow> (string \<times> nbq option \<times> rqst) option" where
  "get_url_query = get_part rqs_url_query"

definition get_url_fragment :: "url_parser \<Rightarrow> nbq option \<Rightarrow> rqst \<Rightarrow> (string \<times> nbq option \<times> rqst) option" where
  "get_url_fragment = get_part rqs_url_fragment"

definition get_url_query_map :: "url_parser \<Rightarrow> nbq option \<Rightarrow> rqst \<Rightarrow> (query_map \<times> nbq option \<times> rqst) option" where
  "get_url_query_map parse_url q m =
     (if rqs_url_query_map m = []
      then (case get_url_query parse_url q m of
              None \<Rightarrow> None
            | Some (s, q1, m1) \<Rightarrow>
                (case parse_query s 0 (rqs_url_query_map m1) of
                   None \<Rightarrow> None
                 | Some qm \<Rightarrow> Some (qm, q1, m1\<lparr>rqs_url_query_map := qm\<rparr>)))
      else Some (rqs_url_query_map m, q, m))"

section \<open>Lemmas\<close>

lemma parse_uri_done: "parse_uri pu q m = Some (STATUS_OK, q1, m1) \<Longrightarrow> rqs_url_parsed m1"
  by (auto simp: parse_uri_def Let_def status_defs split: if_splits option.splits)

text \<open>The URL is parsed once: after a call that succeeds no getter changes the message.\<close>

lemma getters_stable:
  assumes "parse_uri pu q m = Some (STATUS_OK, q1, m1)"
  shows "get_url pu q2 m1 = Some (rqs_url m1, q2, m1)" "get_part sel pu q2 m1 = Some (sel m1, q2, m1)"
  using parse_uri_done[OF assms] by (simp_all add: get_url_def get_part_def)

text \<open>
  A request whose URL lies in the queue: the URL is the text of its slice, path, query
  and fragment are what the parser finds in it (after the placeholder host when it has no
  scheme), the queue keeps its bytes, and asking again gives the same.
\<close>

theorem rqst_url_from_queue:
  assumes "nbq_inv q" "\<not> rqs_url_parsed m" "0 < cr_off (rqs_url_cr m)" "0 < cr_len (rqs_url_cr m)"
    and "u = cr_text q (rqs_url_cr m)" "u \<noteq> []"
    and "v = (if has_substr ''://'' u then u else ''http://bloop.com'' @ u)" "pu v = Some f"
  shows "\<exists>q1 m1. get_url pu (Some q) m = Some (u, Some q1, m1) \<and> nbq_inv q1 \<and> all_written q1 = all_written q \<and>
    get_url pu (Some q1) m1 = Some (u, Some q1, m1) \<and>
    get_url_path pu (Some q1) m1 = Some (case uf_part v (uf_path f) of None \<Rightarrow> rqs_url_path m | Some p \<Rightarrow> p, Some q1, m1) \<and>
    get_url_query pu (Some q1) m1 = Some (case uf_part v (uf_query f) of None \<Rightarrow> rqs_url_query m | Some p \<Rightarrow> p, Some q1, m1) \<and>
    get_url_fragment pu (Some q1) m1 = Some (case uf_part v (uf_fragment f) of None \<Rightarrow> rqs_url_fragment m | Some p \<Rightarrow> p, Some q1, m1)"
proof -
  obtain b q1 where b: "copy_part (cr_off (rqs_url_cr m)) (cr_len (rqs_url_cr m)) q = Some (b, q1)" "c_str b = u"
    "nbq_inv q1" "all_written q1 = all_written q" using copy_part_text[OF assms(1)] assms(5) by blast
  let ?m1 = "(set_url_parts v f (m\<lparr>rqs_url := u\<rparr>))\<lparr>rqs_url_parsed := True\<rparr>"
  have c: "copy_url (Some q) m = Some (Some q1, m\<lparr>rqs_url := u\<rparr>)"
    using b assms(3,4,6) by (simp add: copy_url_def)
  have u1: "rqs_url (m\<lparr>rqs_url := u\<rparr>) = u" by simp
  have p: "parse_uri pu (Some q) m = Some (STATUS_OK, Some q1, ?m1)"
    using assms(2,8) unfolding parse_uri_def c option.case prod.case u1 Let_def assms(7)[symmetric] by simp
  have "rqs_url ?m1 = u" by (simp add: set_url_parts_def)
  then have "get_url pu (Some q) m = Some (u, Some q1, ?m1)" "get_url pu (Some q1) ?m1 = Some (u, Some q1, ?m1)"
    using assms(2) p getters_stable(1)[OF p] by (simp_all add: get_url_def)
  moreover note getters_stable(2)[OF p, of rqs_url_path "Some q1"] getters_stable(2)[OF p, of rqs_url_query "Some q1"]
    getters_stable(2)[OF p, of rqs_url_fragment "Some q1"]
  ultimately show ?thesis
    using b(3,4) by (auto simp: get_url_path_def get_url_query_def get_url_fragment_def set_url_parts_def cong: option.case_cong)
qed

theorem rqst_url_from_queue_witness:
  "\<exists>q1 m1. get_url (\<lambda>_. Some (url_fields.extend \<lparr>uf_schema = (0, 4), uf_host = (7, 9), uf_port = (0, 0), uf_path = (16, 3), uf_query = (0, 0)\<rparr>
       \<lparr>uf_fragment = (0, 0)\<rparr>)) (Some demo_q) (rqst_new\<lparr>rqs_url_cr := \<lparr>cr_off = 1, cr_len = 3\<rparr>\<rparr>) = Some (''bcd'', Some q1, m1)"
  using rqst_url_from_queue[OF demo_q_inv, of "rqst_new\<lparr>rqs_url_cr := \<lparr>cr_off = 1, cr_len = 3\<rparr>\<rparr>" "''bcd''" "''http://bloop.combcd''"
      "\<lambda>_. Some (url_fields.extend \<lparr>uf_schema = (0, 4), uf_host = (7, 9), uf_port = (0, 0), uf_path = (16, 3), uf_query = (0, 0)\<rparr>
       \<lparr>uf_fragment = (0, 0)\<rparr>)"]
  by (auto simp: rqst_new_def rqst_init_def Let_def hmsg.defs cr_text_def demo_q_def all_written_def written_bytes_def c_str_def NUL_def)

text \<open>A request without a query is given one parameter, with an empty name and value.\<close>

lemma empty_query_has_parameter: "parse_query [] 0 [] = Some [([], [[]])]"
  by (simp add: uri_decode_ok str_find_def query_part_def qm_append_def qm_values_def)

end
