(* ===== verification/Hurl_Path.thy ===== *)
theory Hurl_Path
  imports Prelude
begin

text \<open>
  The path language of \<^verbatim>\<open>src/hurl/hurl.cc\<close>: ranges in a URL path
  (\<^verbatim>\<open>convert_exp_to_range\<close>, \<^verbatim>\<open>parse_path\<close>, \<^verbatim>\<open>path_exploder\<close>), the options
  after a semicolon (\<^verbatim>\<open>special_effects_parse\<close>) and the choice of the next path
  (\<^verbatim>\<open>get_path\<close>).  The globals of the file that these functions use are a record.
  \<^term>\<open>None\<close> is a read of uninitialised or foreign memory, a string made from a null
  pointer, or a loop that never ends.
\<close>

section \<open>Scanning a range\<close>

type_synonym range = "nat \<times> nat"

definition is_hex :: "char \<Rightarrow> bool" where
  "is_hex c \<longleftrightarrow> is_digit c \<or> (let n = of_char c :: nat in 65 \<le> n \<and> n \<le> 70 \<or> 97 \<le> n \<and> n \<le> 102)"

definition hex_val :: "char \<Rightarrow> nat" where
  "hex_val c = (let n = of_char c :: nat in if n \<le> 57 then n - 48 else if n \<le> 70 then n - 55 else n - 87)"

definition is_space :: "char \<Rightarrow> bool" where
  "is_space c \<longleftrightarrow> c = CHR '' '' \<or> (let n = of_char c :: nat in 9 \<le> n \<and> n \<le> 13)"

text \<open>What \<^verbatim>\<open>strtoul\<close> makes of a magnitude and a sign, stored in an \<^verbatim>\<open>unsigned int\<close>.\<close>

definition strtoul_val :: "bool \<Rightarrow> nat \<Rightarrow> nat" where
  "strtoul_val neg v =
     (if v \<ge> 2 ^ 64 then 2 ^ 32 - 1 else if neg then u32_of_int (- int v) else u32 v)"

definition scan_sign :: "string \<Rightarrow> bool \<times> string" where
  "scan_sign s = (case s of
      c # r \<Rightarrow> if c = CHR ''-'' then (True, r) else if c = CHR ''+'' then (False, r) else (False, s)
    | [] \<Rightarrow> (False, s))"

text \<open>The conversions \<open>%u\<close> and \<open>%x\<close> of \<^verbatim>\<open>sscanf\<close>: the value and what follows it.\<close>

definition scan_u :: "string \<Rightarrow> (nat \<times> string) option" where
  "scan_u s =
     (case scan_sign (dropWhile is_space s) of (neg, r) \<Rightarrow>
        let ds = takeWhile is_digit r
        in if ds = [] then None else Some (strtoul_val neg (dec_val ds), dropWhile is_digit r))"

definition skip_0x :: "string \<Rightarrow> string" where
  "skip_0x s = (case s of
      a # b # c # r \<Rightarrow> if a = CHR ''0'' \<and> (b = CHR ''x'' \<or> b = CHR ''X'') \<and> is_hex c then c # r else s
    | _ \<Rightarrow> s)"

definition scan_x :: "string \<Rightarrow> (nat \<times> string) option" where
  "scan_x s =
     (case scan_sign (dropWhile is_space s) of (neg, r0) \<Rightarrow>
        let r = skip_0x r0; ds = takeWhile is_hex r
        in if ds = [] then None
           else Some (strtoul_val neg (foldl (\<lambda>a c. 16 * a + hex_val c) 0 ds), dropWhile is_hex r))"

text \<open>
  \<^verbatim>\<open>sscanf(s, "[%_-%_]", ..)\<close> answering 2: the closing bracket comes after the second
  conversion and does not count.
\<close>

definition scan_range :: "(string \<Rightarrow> (nat \<times> string) option) \<Rightarrow> string \<Rightarrow> range option" where
  "scan_range scan s =
     (case s of
        [] \<Rightarrow> None
      | c # r \<Rightarrow>
          if c \<noteq> CHR ''['' then None
          else (case scan r of
              None \<Rightarrow> None
            | Some (a, r1) \<Rightarrow> (case r1 of
                  [] \<Rightarrow> None
                | d # r2 \<Rightarrow> if d \<noteq> CHR ''-'' then None else map_option (\<lambda>(b, _). (a, b)) (scan r2))))"

text \<open>
  \<^verbatim>\<open>convert_exp_to_range\<close>.  The expression is copied with \<^verbatim>\<open>strncpy(_, _, 64)\<close>; from
  64 characters on the copy has no terminator and the scan runs into uninitialised memory.
\<close>

definition convert_exp_to_range :: "string \<Rightarrow> (int \<times> range) option" where
  "convert_exp_to_range e =
     (let s = c_str e in
      if length s \<ge> 64 then None
      else (case (case scan_range scan_u s of Some r \<Rightarrow> Some r | None \<Rightarrow> scan_range scan_x s) of
              None \<Rightarrow> Some (STATUS_ERROR, (0, 0))
            | Some (a, b) \<Rightarrow> if a > b then Some (STATUS_ERROR, (0, 0)) else Some (STATUS_OK, (a, b))))"

section \<open>Splitting a path at its ranges\<close>

text \<open>
  \<^verbatim>\<open>parse_path\<close>, on what is left of the path after the last bracket: status, literal
  parts and ranges.
\<close>

function parse_path :: "string \<Rightarrow> (int \<times> string list \<times> range list) option" where
  "parse_path s =
     (case str_find CHR ''['' 0 s of
        None \<Rightarrow> Some (STATUS_OK, [s], [])
      | Some p \<Rightarrow>
          (case str_find CHR '']'' p s of
             None \<Rightarrow> Some (STATUS_ERROR, [], [])
           | Some e \<Rightarrow>
               do {
                 (st, r) \<leftarrow> convert_exp_to_range (filter (\<lambda>c. c \<noteq> CHR '' '') (substr s p (e - p + 1)));
                 if st \<noteq> STATUS_OK then Some (STATUS_ERROR, [substr s 0 p], [])
                 else do {
                   (st2, ss, rs) \<leftarrow> parse_path (drop (e + 1) s);
                   Some (st2, substr s 0 p # ss, r # rs) } }))"
  by pat_completeness auto
termination by (relation "measure length") (auto dest: str_find_Some(2))

declare parse_path.simps [simp del]

section \<open>Exploding\<close>

text \<open>
  \<^verbatim>\<open>path_exploder\<close>: the paths pushed, in order.  The loop counter is 32 bits wide and wraps;
  the number is printed with \<open>%d\<close>.
\<close>

partial_function (option) range_loop ::
  "(nat \<Rightarrow> string list option) \<Rightarrow> nat \<Rightarrow> nat \<Rightarrow> string list \<Rightarrow> string list option" where
  "range_loop f i_r m_end acc =
     (if i_r \<le> m_end then do { ps \<leftarrow> f i_r; range_loop f (u32 (i_r + 1)) m_end (acc @ ps) } else Some acc)"

fun path_exploder :: "string \<Rightarrow> string list \<Rightarrow> range list \<Rightarrow> string list option" where
  "path_exploder part [] rs = Some [part]"
| "path_exploder part (s # ss) [] = Some [part @ s]"
| "path_exploder part (s # ss) (r # rs) =
     range_loop (\<lambda>i_r. path_exploder ((part @ s) @ int_str (s32 i_r)) ss rs) (fst r) (snd r) []"

section \<open>Options of a path\<close>

record path_globals =
  g_path :: string
  g_path_vector :: "string list"
  g_path_vector_last_idx :: nat
  g_path_order_random :: bool

text \<open>One call of \<^verbatim>\<open>strtok_r\<close>: the token and the rest behind its delimiter.\<close>

definition strtok :: "char \<Rightarrow> string \<Rightarrow> (string \<times> string) option" where
  "strtok d s =
     (let r = dropWhile (\<lambda>c. c = d) s
      in if r = [] then None else Some (takeWhile (\<lambda>c. c \<noteq> d) r, drop 1 (dropWhile (\<lambda>c. c \<noteq> d) r)))"

lemma strtok_shorter: "strtok d s = Some (t, r) \<Longrightarrow> length r < length s"
proof -
  assume "strtok d s = Some (t, r)"
  then have r: "r = drop 1 (dropWhile (\<lambda>c. c \<noteq> d) (dropWhile (\<lambda>c. c = d) s))"
    and ne: "dropWhile (\<lambda>c. c = d) s \<noteq> []"
    by (auto simp: strtok_def Let_def split: if_splits)
  then have "s \<noteq> []" by auto
  moreover have "length (dropWhile (\<lambda>c. c \<noteq> d) (dropWhile (\<lambda>c. c = d) s)) \<le> length s"
    using length_dropWhile_le le_trans by blast
  ultimately show "length r < length s"
    unfolding r by (cases s) (auto simp: less_Suc_eq_le)
qed

definition path_option :: "string \<Rightarrow> path_globals \<Rightarrow> (int \<times> path_globals) option" where
  "path_option tok g =
     (if length tok \<ge> 1024 then None
      else do {
        (key, rest) \<leftarrow> strtok CHR ''='' tok;
        (val, _) \<leftarrow> strtok CHR ''='' rest;
        Some (if key = ''order''
              then if val = ''sequential'' then (STATUS_OK, g\<lparr>g_path_order_random := False\<rparr>)
                   else if val = ''random'' then (STATUS_OK, g\<lparr>g_path_order_random := True\<rparr>)
                   else (STATUS_ERROR, g)
              else (STATUS_ERROR, g)) })"

function path_options :: "string \<Rightarrow> path_globals \<Rightarrow> (int \<times> path_globals) option" where
  "path_options s g =
     (case strtok CHR '';'' s of
        None \<Rightarrow> Some (STATUS_OK, g)
      | Some (tok, rest) \<Rightarrow>
          do { (st, g1) \<leftarrow> path_option tok g;
               if st \<noteq> STATUS_OK then Some (STATUS_ERROR, g1) else path_options rest g1 })"
  by pat_completeness auto
termination by (relation "measure (\<lambda>(s, _). length s)") (auto dest: strtok_shorter)

declare path_options.simps [simp del]

text \<open>
  \<^verbatim>\<open>special_effects_parse\<close>: status, the path as left in the argument, and the globals.
  From 2048 characters on the copy of the path has no terminator.
\<close>

definition special_effects_parse :: "string \<Rightarrow> path_globals \<Rightarrow> (int \<times> string \<times> path_globals) option" where
  "special_effects_parse a_path g =
     (if a_path = [] then Some (STATUS_OK, a_path, g)
      else if length (c_str a_path) \<ge> 2048 then None
      else if hd a_path \<noteq> CHR '';''
      then do {
        (p, rest) \<leftarrow> strtok CHR '';'' (c_str a_path);
        (st, substrs, ranges) \<leftarrow> parse_path p;
        if st \<noteq> STATUS_OK then Some (STATUS_ERROR, p, g)
        else do {
          g1 \<leftarrow> (if ranges \<noteq> []
                 then do { ps \<leftarrow> path_exploder [] substrs ranges;
                           Some (g\<lparr>g_path_vector := g_path_vector g @ ps\<rparr>) }
                 else Some (g\<lparr>g_path_vector := g_path_vector g @ [p]\<rparr>));
          (st2, g2) \<leftarrow> path_options rest g1;
          Some (st2, p, g2) } }
      else do {
        (st2, g2) \<leftarrow> path_options (c_str a_path) (g\<lparr>g_path := []\<rparr>);
        Some (st2, a_path, g2) })"

section \<open>Choosing the next path\<close>

text \<open>
  \<^verbatim>\<open>get_path\<close>: \<open>rand64\<close> is the value the generator would deliver, when there is a
  generator; \<open>rnd\<close> what \<^verbatim>\<open>random()\<close> would.  An index outside the vector is
  undefined.
\<close>

definition path_random_max :: nat where "path_random_max = 2147483647"

definition get_path :: "nat option \<Rightarrow> nat \<Rightarrow> path_globals \<Rightarrow> (string \<times> path_globals) option" where
  "get_path rand64 rnd g =
     (let n = length (g_path_vector g) in
      if n = 0 then Some (g_path g, g)
      else if \<not> g_path_order_random g
      then (let last = (if g_path_vector_last_idx g \<ge> n then 0 else g_path_vector_last_idx g)
            in Some (g_path_vector g ! last, g\<lparr>g_path_vector_last_idx := u32 (last + 1)\<rparr>))
      else (let i = (case rand64 of Some x \<Rightarrow> u32 (x mod n) | None \<Rightarrow> u32 (rnd * n div path_random_max))
            in if i < n then Some (g_path_vector g ! i, g) else None))"


section \<open>Laws: scanning decimal ranges\<close>

lemma nat_str_length: "n < 10 ^ Suc k \<Longrightarrow> length (nat_str n) \<le> Suc k"
proof (induction k arbitrary: n)
  case 0
  then show ?case by (subst nat_str.simps) simp
next
  case (Suc k)
  have "n div 10 < 10 ^ Suc k" using Suc.prems by (simp add: less_mult_imp_div_less mult.commute)
  from Suc.IH [OF this] show ?case by (subst nat_str.simps) simp
qed

lemma nat_str_hd: "is_digit (hd (nat_str n))"
  using nat_str_digits [of n] by (cases "nat_str n") auto

lemma digit_chars: "is_digit c \<Longrightarrow> \<not> is_space c \<and> c \<noteq> CHR ''-'' \<and> c \<noteq> CHR ''+'' \<and> c \<noteq> CHR '' '' \<and>
    c \<noteq> CHR '']'' \<and> c \<noteq> CHR ''['' \<and> c \<noteq> NUL"
  by (auto simp: is_digit_def is_space_def NUL_def)

lemma scan_u_nat_str:
  assumes "n < 2 ^ 32" "\<not> is_digit c"
  shows "scan_u (nat_str n @ c # r) = Some (n, c # r)"
proof -
  obtain d ds where d: "nat_str n = d # ds" by (cases "nat_str n") auto
  have "is_digit d" using nat_str_hd [of n] d by simp
  then have "scan_sign (dropWhile is_space (nat_str n @ c # r)) = (False, nat_str n @ c # r)"
    using digit_chars [of d] by (simp add: scan_sign_def d)
  moreover have "takeWhile is_digit (nat_str n @ c # r) = nat_str n" "dropWhile is_digit (nat_str n @ c # r) = c # r"
    using nat_str_digits [of n] assms(2) by (simp_all add: takeWhile_append2 dropWhile_append2)
  ultimately show ?thesis using assms(1) by (simp add: scan_u_def strtoul_val_def u32_id)
qed

definition range_text :: "range \<Rightarrow> string" where
  "range_text r = ''['' @ nat_str (fst r) @ ''-'' @ nat_str (snd r) @ '']''"

lemma not_digit_marks [simp]: "\<not> is_digit CHR ''-''" "\<not> is_digit CHR '']''"
  by (simp_all add: is_digit_def)

lemma range_text_chars:
  "c \<in> set (range_text r) \<Longrightarrow> c = CHR ''['' \<or> c = CHR ''-'' \<or> c = CHR '']'' \<or> is_digit c"
  using nat_str_digits by (auto simp: range_text_def)

lemma convert_range_text:
  assumes "fst r \<le> snd r" "snd r < 2 ^ 32"
  shows "convert_exp_to_range (range_text r) = Some (STATUS_OK, r)"
proof -
  have "NUL \<notin> set (range_text r)"
    using range_text_chars [of NUL r] by (auto simp: NUL_def is_digit_def)
  then have c: "c_str (range_text r) = range_text r" by (auto simp: c_str_def takeWhile_eq_all_conv)
  have b: "fst r < 10 ^ Suc 9" "snd r < 10 ^ Suc 9" using assms by simp_all
  have l: "length (range_text r) < 64"
    using nat_str_length [OF b(1)] nat_str_length [OF b(2)] by (simp add: range_text_def)
  have "scan_range scan_u (range_text r) = Some r"
    using assms by (simp add: range_text_def scan_range_def scan_u_nat_str)
  with c l assms show ?thesis
    by (cases r) (simp add: convert_exp_to_range_def Let_def)
qed

section \<open>Laws: printing and parsing a path\<close>

fun path_text :: "string list \<Rightarrow> range list \<Rightarrow> string" where
  "path_text (s # ss) (r # rs) = s @ range_text r @ path_text ss rs"
| "path_text (s # ss) [] = s"
| "path_text [] rs = []"

lemma parse_path_text:
  assumes "length ss = Suc (length rs)" "\<forall>s \<in> set ss. CHR ''['' \<notin> set s"
    "\<forall>r \<in> set rs. fst r \<le> snd r \<and> snd r < 2 ^ 32"
  shows "parse_path (path_text ss rs) = Some (STATUS_OK, ss, rs)"
  using assms
proof (induction rs arbitrary: ss)
  case Nil
  then obtain s where s: "ss = [s]" by (cases ss) auto
  have "str_find CHR ''['' 0 s = None" using str_find_absent [of _ s "[]"] Nil s by simp
  then show ?case using s by (subst parse_path.simps) simp
next
  case (Cons r rs)
  then obtain s ss' where s: "ss = s # ss'" by (cases ss) auto
  let ?rest = "path_text ss' rs"
  have nr: "CHR ''['' \<notin> set s" using Cons.prems(2) s by simp
  have f1: "str_find CHR ''['' 0 (s @ range_text r @ ?rest) = Some (length s)"
    using str_find_append [OF nr, of "[]"] by (simp add: range_text_def)
  let ?in = "CHR ''['' # nat_str (fst r) @ CHR ''-'' # nat_str (snd r)"
  have ni: "CHR '']'' \<notin> set ?in"
    using nat_str_digits [of "fst r"] nat_str_digits [of "snd r"] digit_chars by auto
  have rt: "range_text r = ?in @ ['']'' ! 0]" by (simp add: range_text_def)
  have f2: "str_find CHR '']'' (length s) (s @ range_text r @ ?rest) = Some (length s + length ?in)"
    using str_find_append [OF ni, of s ?rest] by (simp add: rt)
  have sub: "substr (s @ range_text r @ ?rest) (length s) (length s + length ?in - length s + 1) = range_text r"
    by (simp add: substr_def rt)
  have flt: "filter (\<lambda>c. c \<noteq> CHR '' '') (range_text r) = range_text r"
    using range_text_chars [of _ r] digit_chars by (intro filter_True) auto
  have cv: "convert_exp_to_range (range_text r) = Some (STATUS_OK, r)"
    using Cons.prems(3) by (intro convert_range_text) auto
  have d: "drop (length s + length ?in + 1) (s @ range_text r @ ?rest) = ?rest"
  proof -
    have "length s + length ?in + 1 = length (s @ range_text r)" by (simp add: rt)
    then show ?thesis by (simp only: append_assoc [symmetric] append_eq_conv_conj [symmetric]) simp
  qed
  have ih: "parse_path ?rest = Some (STATUS_OK, ss', rs)" using Cons s by simp
  have s0: "substr (s @ range_text r @ ?rest) 0 (length s) = s" by (simp add: substr_def)
  show ?case
    unfolding s path_text.simps
    by (subst parse_path.simps) (simp only: f1 option.case f2 sub flt cv d ih s0 Option.bind.simps prod.case simp_thms if_False)
qed

section \<open>Laws: exploding\<close>

fun interleave :: "string list \<Rightarrow> nat list \<Rightarrow> string" where
  "interleave (s # ss) (n # ns) = s @ nat_str n @ interleave ss ns"
| "interleave (s # ss) [] = s"
| "interleave [] ns = []"

definition range_list :: "range \<Rightarrow> nat list" where
  "range_list r = [fst r..<Suc (snd r)]"

lemma range_loop_upto:
  assumes "\<forall>i \<in> set [a..<Suc b]. f i = Some (g i)" "b < 2 ^ 32 - 1"
  shows "range_loop f a b acc = Some (acc @ concat (map g [a..<Suc b]))"
  using assms
proof (induction "Suc b - a" arbitrary: a acc)
  case 0
  then show ?case by (subst range_loop.simps) simp
next
  case (Suc n)
  then have a: "a \<le> b" "u32 (a + 1) = Suc a" by (simp_all add: u32_id)
  have "f a = Some (g a)" using Suc.prems(1) a(1) by (simp del: upt_Suc)
  then have "range_loop f a b acc = range_loop f (Suc a) b (acc @ g a)"
    using a by (subst range_loop.simps) simp
  also have "\<dots> = Some ((acc @ g a) @ concat (map g [Suc a..<Suc b]))"
    using Suc.hyps(2) Suc.prems by (intro Suc.hyps(1)) auto
  finally show ?case using a(1) by (simp add: upt_conv_Cons del: upt_Suc)
qed

lemma range_loop_max:
  assumes "range_loop f a b acc = Some y"
  shows "b = 4294967295 \<longrightarrow> 4294967295 < a"
proof (rule range_loop.raw_induct[OF _ assms, where P = "\<lambda>f a b acc y. b = 4294967295 \<longrightarrow> 4294967295 < a"])
  fix loop :: "(nat \<Rightarrow> string list option) \<Rightarrow> nat \<Rightarrow> nat \<Rightarrow> string list \<Rightarrow> string list option" and f a b acc y
  assume IH: "\<And>f a b acc y. loop f a b acc = Some y \<Longrightarrow> b = 4294967295 \<longrightarrow> 4294967295 < a"
    and e: "(if a \<le> b then f a \<bind> (\<lambda>ps. loop f (u32 (a + 1)) b (acc @ ps)) else Some acc) = Some y"
  have "\<not> 4294967295 < u32 (a + 1)" by (simp add: u32_def not_less less_Suc_eq_le[symmetric])
  then show "b = 4294967295 \<longrightarrow> 4294967295 < a" using IH e by (fastforce simp: bind_eq_Some_conv split: if_splits)
qed

lemma path_exploder_spec:
  assumes "length ss = Suc (length rs)" "\<forall>r \<in> set rs. snd r < 2 ^ 31"
  shows "path_exploder part ss rs =
    Some (map (\<lambda>ns. part @ interleave ss ns) (product_lists (map range_list rs)))"
  using assms
proof (induction rs arbitrary: part ss)
  case Nil
  then obtain s where "ss = [s]" by (cases ss) auto
  then show ?case by simp
next
  case (Cons r rs)
  then obtain s ss' where s: "ss = s # ss'" by (cases ss) auto
  let ?f = "\<lambda>i. map (\<lambda>ns. ((part @ s) @ nat_str i) @ interleave ss' ns) (product_lists (map range_list rs))"
  have "path_exploder ((part @ s) @ int_str (s32 i)) ss' rs = Some (?f i)" if "i \<in> set (range_list r)" for i
  proof -
    have "i < 2 ^ 31" using that Cons.prems(2) by (auto simp: range_list_def)
    then have "int_str (s32 i) = nat_str i" by (simp add: s32_id int_str_def)
    then show ?thesis using Cons.IH [of ss'] Cons.prems s by simp
  qed
  then show ?case
    using Cons.prems(2)
    unfolding s path_exploder.simps
    by (subst range_loop_upto[where g = ?f])
      (auto simp: range_list_def map_concat comp_def simp del: upt_Suc)
qed

lemma length_product_lists: "length (product_lists xss) = prod_list (map length xss)"
  by (induction xss) (auto simp: length_concat comp_def sum_list_triv)

section \<open>Laws: round robin\<close>

fun get_paths :: "nat \<Rightarrow> path_globals \<Rightarrow> (string list \<times> path_globals) option" where
  "get_paths 0 g = Some ([], g)"
| "get_paths (Suc k) g =
     do { (p, g1) \<leftarrow> get_path None 0 g; (ps, g2) \<leftarrow> get_paths k g1; Some (p # ps, g2) }"

lemma get_path_sequential:
  assumes "g_path_vector g \<noteq> []" "length (g_path_vector g) < 2 ^ 32" "\<not> g_path_order_random g"
    "g_path_vector_last_idx g \<le> length (g_path_vector g)"
  shows "get_path r x g = Some (g_path_vector g ! (g_path_vector_last_idx g mod length (g_path_vector g)),
      g\<lparr>g_path_vector_last_idx := Suc (g_path_vector_last_idx g mod length (g_path_vector g))\<rparr>)"
proof -
  have "(if g_path_vector_last_idx g \<ge> length (g_path_vector g) then 0 else g_path_vector_last_idx g) =
      g_path_vector_last_idx g mod length (g_path_vector g)"
    using assms(4) by (auto simp: le_less)
  moreover have "g_path_vector_last_idx g mod length (g_path_vector g) < length (g_path_vector g)"
    using assms(1) by simp
  then have "u32 (g_path_vector_last_idx g mod length (g_path_vector g) + 1) =
      Suc (g_path_vector_last_idx g mod length (g_path_vector g))"
    using assms(2) by (simp add: u32_id)
  ultimately show ?thesis using assms by (simp add: get_path_def Let_def)
qed

lemma get_paths_sequential:
  assumes "g_path_vector g \<noteq> []" "length (g_path_vector g) < 2 ^ 32" "\<not> g_path_order_random g"
    "g_path_vector_last_idx g \<le> length (g_path_vector g)"
  shows "\<exists>g'. get_paths k g =
      Some (map (\<lambda>i. g_path_vector g ! ((g_path_vector_last_idx g + i) mod length (g_path_vector g))) [0..<k], g')"
  using assms
proof (induction k arbitrary: g)
  case (Suc k)
  let ?n = "length (g_path_vector g)" and ?i = "g_path_vector_last_idx g"
  let ?g = "g\<lparr>g_path_vector_last_idx := Suc (?i mod ?n)\<rparr>"
  have "?i mod ?n < ?n" using Suc.prems(1) by simp
  then have le: "g_path_vector_last_idx ?g \<le> length (g_path_vector ?g)" by simp
  have "(Suc (?i mod ?n) + j) mod ?n = (?i + Suc j) mod ?n" for j
    by (metis add_Suc add_Suc_right mod_add_left_eq)
  then have "map (\<lambda>i. g_path_vector ?g ! ((g_path_vector_last_idx ?g + i) mod length (g_path_vector ?g))) [0..<k] =
      map (\<lambda>i. g_path_vector g ! ((?i + i) mod ?n)) [1..<Suc k]"
    by (simp add: map_Suc_upt [symmetric] del: upt_Suc)
  moreover have "[0..<Suc k] = 0 # [1..<Suc k]" by (simp add: upt_conv_Cons)
  moreover obtain g' where "get_paths k ?g =
      Some (map (\<lambda>i. g_path_vector ?g ! ((g_path_vector_last_idx ?g + i) mod length (g_path_vector ?g))) [0..<k], g')"
    using Suc.IH [of ?g] Suc.prems(1,2,3) le by auto
  ultimately show ?case
    using get_path_sequential [OF Suc.prems] by (simp del: upt_Suc)
qed simp

section \<open>Properties\<close>

text \<open>
  C26: \<^verbatim>\<open>parse_path\<close> recovers exactly the literal parts and the ranges of a path written
  with decimal ranges, for any number of them.
\<close>

theorem parse_path_roundtrip:
  assumes "length ss = Suc (length rs)" "\<forall>s \<in> set ss. CHR ''['' \<notin> set s"
    "\<forall>r \<in> set rs. fst r \<le> snd r \<and> snd r < 2 ^ 32"
  shows "parse_path (path_text ss rs) = Some (STATUS_OK, ss, rs)"
  by (rule parse_path_text [OF assms])

theorem parse_path_roundtrip_witness:
  "parse_path (path_text [''/a'', ''/b'', ''.html''] [(1, 3), (0, 4294967295)]) =
     Some (STATUS_OK, [''/a'', ''/b'', ''.html''], [(1, 3), (0, 4294967295)])"
  by (rule parse_path_roundtrip) simp_all

text \<open>
  C25: \<^verbatim>\<open>path_exploder\<close> terminates on ranges below 2^31 and pushes, in lexicographic
  order, one path for every choice of a number in every range, so as many as the product
  of the range sizes.
\<close>

theorem path_exploder_product:
  assumes "length ss = Suc (length rs)" "\<forall>r \<in> set rs. snd r < 2 ^ 31"
  shows "path_exploder [] ss rs = Some (map (interleave ss) (product_lists (map range_list rs))) \<and>
    length (product_lists (map range_list rs)) = prod_list (map (\<lambda>r. Suc (snd r) - fst r) rs)"
proof -
  have "prod_list (map length (map range_list rs)) = prod_list (map (\<lambda>r. Suc (snd r) - fst r) rs)"
    by (induction rs) (simp_all add: range_list_def del: upt_Suc)
  then show ?thesis
    using path_exploder_spec [OF assms, of "[]"] unfolding length_product_lists by simp
qed

theorem path_exploder_product_witness:
  "path_exploder [] [''/a'', ''-'', []] [(3, 4), (7, 8)] =
     Some (map (interleave [''/a'', ''-'', []]) [[3, 7], [3, 8], [4, 7], [4, 8]])"
  using path_exploder_product [of "[''/a'', ''-'', []]" "[(3, 4), (7, 8)]"]
  by (simp add: range_list_def upt_rec)

text \<open>
  C39: a range whose end is 4294967295 makes \<^verbatim>\<open>path_exploder\<close> run forever: the loop
  counter is 32 bits wide and never exceeds its bound.
\<close>

theorem path_exploder_diverges:
  assumes "a < 2 ^ 32"
  shows "path_exploder part (s # ss) ((a, 4294967295) # rs) = None"
  using range_loop_max[of _ a 4294967295 "[]"] assms
  by (cases "path_exploder part (s # ss) ((a, 4294967295) # rs)") fastforce+

theorem path_exploder_diverges_witness: "path_exploder [] [''/a'', []] [(0, 4294967295)] = None"
  by (rule path_exploder_diverges) simp

text \<open>
  with sequential order \<^verbatim>\<open>get_path\<close> is a round robin: the \<open>k\<close>-th call returns the
  entry \<open>k\<close> places on, cyclically, so every path is used once before any is used again.
\<close>

theorem get_path_round_robin:
  assumes "g_path_vector g \<noteq> []" "length (g_path_vector g) < 2 ^ 32" "\<not> g_path_order_random g"
    "g_path_vector_last_idx g = 0"
  shows "\<exists>g'. get_paths k g =
    Some (map (\<lambda>i. g_path_vector g ! (i mod length (g_path_vector g))) [0..<k], g')"
  using get_paths_sequential [OF assms(1-3), of k] assms(4) by simp

definition demo_paths :: path_globals where
  "demo_paths = \<lparr>g_path = [], g_path_vector = [''/a'', ''/b'', ''/c''], g_path_vector_last_idx = 0,
     g_path_order_random = False\<rparr>"

theorem get_path_round_robin_witness:
  "\<exists>g'. get_paths 4 demo_paths =
     Some (map (\<lambda>i. g_path_vector demo_paths ! (i mod length (g_path_vector demo_paths))) [0..<4], g')"
  by (rule get_path_round_robin) (simp_all add: demo_paths_def)

lemma strtok_plain:
  assumes "t \<noteq> []" "d \<notin> set t"
  shows "strtok d (t @ d # r) = Some (t, r)" "strtok d t = Some (t, [])"
proof -
  have "hd t \<noteq> d" using assms by (cases t) auto
  then have s: "dropWhile (\<lambda>c. c = d) (t @ r') = t @ r'" for r'
    using assms(1) by (cases t; simp)
  have w: "takeWhile (\<lambda>c. c \<noteq> d) (t @ d # r) = t" "takeWhile (\<lambda>c. c \<noteq> d) t = t"
    "dropWhile (\<lambda>c. c \<noteq> d) (t @ d # r) = d # r" "dropWhile (\<lambda>c. c \<noteq> d) t = []"
    using assms(2) by (induction t) auto
  show "strtok d (t @ d # r) = Some (t, r)"
    unfolding strtok_def Let_def s w using assms(1) by simp
  show "strtok d t = Some (t, [])"
    using s [of "[]"] unfolding strtok_def Let_def append_Nil2 by (simp only: w assms(1) if_False) simp
qed

text \<open>
  a path option without a value crashes: the value token is a null pointer and a
  string is made from it, for every key.
\<close>

theorem path_option_without_value:
  assumes "p \<noteq> []" "key \<noteq> []" "\<forall>c \<in> {CHR '';'', CHR ''['', NUL}. c \<notin> set p"
    "\<forall>c \<in> {CHR '';'', CHR ''='', NUL}. c \<notin> set key" "length p + length key < 1023"
  shows "special_effects_parse (p @ '';'' @ key) g = None"
proof -
  have "NUL \<notin> set (p @ '';'' @ key)" using assms(3,4) by (auto simp: NUL_def)
  then have c: "c_str (p @ '';'' @ key) = p @ '';'' @ key" by (auto simp: c_str_def takeWhile_eq_all_conv)
  have hd: "hd p \<noteq> CHR '';''" using assms(1,3) by (cases p) auto
  have t1: "strtok CHR '';'' (p @ CHR '';'' # key) = Some (p, key)"
    using assms(1,3) by (intro strtok_plain) auto
  have "str_find CHR ''['' 0 p = None" using str_find_absent [of _ p "[]"] assms(3) by simp
  then have pp: "parse_path p = Some (STATUS_OK, [p], [])" by (subst parse_path.simps) simp
  have t2: "strtok CHR '';'' key = Some (key, [])" using assms(2,4) by (intro strtok_plain) auto
  have t3: "strtok CHR ''='' key = Some (key, [])" using assms(2,4) by (intro strtok_plain) auto
  have "strtok CHR ''='' [] = None" by (simp add: strtok_def)
  then have "path_option key g' = None" for g' using t3 by (simp add: path_option_def)
  then have "path_options key g' = None" for g' using t2 by (subst path_options.simps) simp
  then show ?thesis
    using assms(1,5) c hd t1 pp by (simp add: special_effects_parse_def)
qed

theorem path_option_without_value_witness: "special_effects_parse ''/index;random'' demo_paths = None"
  using path_option_without_value [of "''/index''" "''random''" demo_paths] by (simp add: NUL_def)

text \<open>
  The decimal scan is tried first and also succeeds on a prefix, so a hexadecimal range
  that starts like a decimal one is cut short.
\<close>

lemma hex_range_cut: "convert_exp_to_range ''[1-1a]'' = Some (STATUS_OK, (1, 1))"
  by (simp add: convert_exp_to_range_def scan_range_def scan_u_def scan_sign_def c_str_def NUL_def
    is_space_def is_digit_def strtoul_val_def dec_val_def digit_val_def u32_def)

lemma hex_range_ok: "convert_exp_to_range ''[a-1f]'' = Some (STATUS_OK, (10, 31))"
  by (simp add: convert_exp_to_range_def scan_range_def scan_u_def scan_x_def scan_sign_def c_str_def NUL_def
    is_space_def is_digit_def is_hex_def hex_val_def skip_0x_def strtoul_val_def u32_def Let_def)

text \<open>Numbers from 2^31 on are printed as negative ones.\<close>

lemma large_range_negative: "path_exploder [] [[], []] [(2147483648, 2147483648)] = Some [''-'' @ nat_str 2147483648]"
  by (simp add: range_loop.simps s32_def u32_def int_str_def)

text \<open>With \<^verbatim>\<open>random()\<close> instead of a generator the largest draw is one past the vector.\<close>

lemma get_path_random_max:
  assumes "g_path_vector g \<noteq> []" "g_path_order_random g" "length (g_path_vector g) < 2 ^ 32"
  shows "get_path None path_random_max g = None"
  using assms by (simp add: get_path_def Let_def path_random_max_def u32_id)
end
