(* ===== verification/Hurl_Stat.thy ===== *)
theory Hurl_Stat
  imports Smap Complex_Main
begin

text \<open>
  The statistics of \<^verbatim>\<open>src/hurl/hurl.cc\<close>: \<^verbatim>\<open>xstat_t\<close> with \<^verbatim>\<open>update_stat\<close> and \<^verbatim>\<open>add_stat\<close>,
  the counters of a thread with \<^verbatim>\<open>session::request_log_status\<close>, and the aggregation over the
  threads, \<^verbatim>\<open>get_stat\<close> and \<^verbatim>\<open>get_status_codes\<close>.  Counters are naturals that wrap where the
  code's \<^verbatim>\<open>uint64_t\<close> and \<^verbatim>\<open>uint32_t\<close> do; \<^verbatim>\<open>double\<close> and \<^verbatim>\<open>float\<close> are the reals, so rounding is
  not modelled.
\<close>

section \<open>Running statistics\<close>

record xstat =
  xs_sum_x :: real
  xs_sum_x2 :: real
  xs_min :: real
  xs_max :: real
  xs_num :: nat

definition xstat_new :: xstat where
  "xstat_new = \<lparr>xs_sum_x = 0, xs_sum_x2 = 0, xs_min = 1000000000, xs_max = 0, xs_num = 0\<rparr>"

definition xstat_clear :: "xstat \<Rightarrow> xstat" where
  "xstat_clear s = s\<lparr>xs_sum_x := 0, xs_sum_x2 := 0, xs_min := 1000000000, xs_max := 0, xs_num := 0\<rparr>"

definition xstat_mean :: "xstat \<Rightarrow> real" where
  "xstat_mean s = (if xs_num s > 0 then xs_sum_x s / real (xs_num s) else 0)"

definition xstat_var :: "xstat \<Rightarrow> real" where
  "xstat_var s = (if xs_num s > 0 then (xs_sum_x2 s - xs_sum_x s) / real (xs_num s) else 0)"

definition xstat_stdev :: "xstat \<Rightarrow> real" where
  "xstat_stdev s = sqrt (xstat_var s)"

definition update_stat :: "real \<Rightarrow> xstat \<Rightarrow> xstat" where
  "update_stat v s = s\<lparr>xs_num := u64 (xs_num s + 1), xs_sum_x := xs_sum_x s + v, xs_sum_x2 := xs_sum_x2 s + v * v,
     xs_max := (if v > xs_max s then v else xs_max s), xs_min := (if v < xs_min s then v else xs_min s)\<rparr>"

definition add_stat :: "xstat \<Rightarrow> xstat \<Rightarrow> xstat" where
  "add_stat f s = s\<lparr>xs_num := u64 (xs_num s + xs_num f), xs_sum_x := xs_sum_x s + xs_sum_x f,
     xs_sum_x2 := xs_sum_x2 s + xs_sum_x2 f,
     xs_min := (if xs_min f < xs_min s then xs_min f else xs_min s),
     xs_max := (if xs_max f > xs_max s then xs_max f else xs_max s)\<rparr>"

section \<open>Counters\<close>

record t_stat_cntr =
  m_conn_started :: nat
  m_conn_completed :: nat
  m_reqs :: nat
  m_idle_killed :: nat
  m_subr_queued :: nat
  m_resp_count :: nat
  m_resp_status_2xx :: nat
  m_resp_status_3xx :: nat
  m_resp_status_4xx :: nat
  m_resp_status_5xx :: nat
  m_errors :: nat
  m_bytes_read :: nat
  m_bytes_written :: nat
  m_total_run :: nat
  m_total_add_timer :: nat

definition t_stat_cntr_new :: t_stat_cntr where
  "t_stat_cntr_new = \<lparr>m_conn_started = 0, m_conn_completed = 0, m_reqs = 0, m_idle_killed = 0, m_subr_queued = 0,
     m_resp_count = 0, m_resp_status_2xx = 0, m_resp_status_3xx = 0, m_resp_status_4xx = 0, m_resp_status_5xx = 0,
     m_errors = 0, m_bytes_read = 0, m_bytes_written = 0, m_total_run = 0, m_total_add_timer = 0\<rparr>"

definition t_stat_cntr_clear :: "t_stat_cntr \<Rightarrow> t_stat_cntr" where
  "t_stat_cntr_clear s = s\<lparr>m_conn_started := 0, m_conn_completed := 0, m_reqs := 0, m_idle_killed := 0, m_subr_queued := 0,
     m_resp_count := 0, m_resp_status_2xx := 0, m_resp_status_3xx := 0, m_resp_status_4xx := 0, m_resp_status_5xx := 0,
     m_errors := 0, m_bytes_read := 0, m_bytes_written := 0, m_total_run := 0, m_total_add_timer := 0\<rparr>"

type_synonym status_code_count_map = "(nat \<times> nat) list"

text \<open>A thread's \<^verbatim>\<open>m_stat\<close> and \<^verbatim>\<open>m_status_code_count_map\<close>.\<close>

record thread_stat =
  ts_stat :: t_stat_cntr
  ts_codes :: status_code_count_map

text \<open>\<^verbatim>\<open>++m[k]\<close> and \<^verbatim>\<open>m[k] += n\<close>: an absent key is 0.\<close>

definition code_add :: "nat \<Rightarrow> nat \<Rightarrow> status_code_count_map \<Rightarrow> status_code_count_map" where
  "code_add k n m = smap_upd k (u32 ((case map_of m k of None \<Rightarrow> 0 | Some c \<Rightarrow> c) + n)) m"

definition code_count :: "status_code_count_map \<Rightarrow> nat \<Rightarrow> nat" where
  "code_count m k = (case map_of m k of None \<Rightarrow> 0 | Some c \<Rightarrow> c)"

definition log_class :: "nat \<Rightarrow> t_stat_cntr \<Rightarrow> t_stat_cntr" where
  "log_class status s =
     (if 100 \<le> status \<and> status < 200 then s
      else if 200 \<le> status \<and> status < 300 then s\<lparr>m_resp_status_2xx := u64 (m_resp_status_2xx s + 1)\<rparr>
      else if 300 \<le> status \<and> status < 400 then s\<lparr>m_resp_status_3xx := u64 (m_resp_status_3xx s + 1)\<rparr>
      else if 400 \<le> status \<and> status < 500 then s\<lparr>m_resp_status_4xx := u64 (m_resp_status_4xx s + 1)\<rparr>
      else if 500 \<le> status \<and> status < 600 then s\<lparr>m_resp_status_5xx := u64 (m_resp_status_5xx s + 1)\<rparr>
      else s)"

text \<open>The status is a \<^verbatim>\<open>uint16_t\<close>.\<close>

definition request_log_status :: "nat \<Rightarrow> thread_stat \<Rightarrow> thread_stat" where
  "request_log_status status t =
     t\<lparr>ts_stat := log_class status (ts_stat t), ts_codes := code_add status 1 (ts_codes t)\<rparr>"

section \<open>Aggregation\<close>

record t_stat_calc =
  c_req_delta :: nat
  c_resp_delta :: nat
  c_req_s :: real
  c_resp_s :: real
  c_bytes_read_s :: real
  c_bytes_write_s :: real
  c_2xx_pcnt :: real
  c_3xx_pcnt :: real
  c_4xx_pcnt :: real
  c_5xx_pcnt :: real

definition t_stat_calc_new :: t_stat_calc where
  "t_stat_calc_new = \<lparr>c_req_delta = 0, c_resp_delta = 0, c_req_s = 0, c_resp_s = 0, c_bytes_read_s = 0,
     c_bytes_write_s = 0, c_2xx_pcnt = 0, c_3xx_pcnt = 0, c_4xx_pcnt = 0, c_5xx_pcnt = 0\<rparr>"

definition agg_thread :: "t_stat_cntr \<Rightarrow> t_stat_cntr \<Rightarrow> t_stat_cntr" where
  "agg_thread tot t =
     tot\<lparr>m_bytes_read := u64 (m_bytes_read tot + m_bytes_read t),
       m_bytes_written := u64 (m_bytes_written tot + m_bytes_written t),
       m_reqs := u64 (m_reqs tot + m_reqs t),
       m_resp_count := u64 (m_resp_count tot + m_resp_count t),
       m_errors := u64 (m_errors tot + m_errors t),
       m_idle_killed := u64 (m_idle_killed tot + 0),
       m_resp_status_2xx := m_resp_status_2xx t,
       m_resp_status_3xx := m_resp_status_3xx t,
       m_resp_status_4xx := m_resp_status_4xx t,
       m_resp_status_5xx := m_resp_status_5xx t\<rparr>"

text \<open>The function's static variables.\<close>

record stat_last =
  s_last :: t_stat_cntr
  s_stat_last_time_ms :: nat

definition stat_last_new :: stat_last where
  "stat_last_new = \<lparr>s_last = t_stat_cntr_new, s_stat_last_time_ms = 0\<rparr>"

definition calc_pcnt :: "nat \<Rightarrow> nat \<Rightarrow> nat \<Rightarrow> real" where
  "calc_pcnt now last_val delta_resp = 100 * real (sub64 now last_val) / real delta_resp"

definition calc_rate :: "nat \<Rightarrow> nat \<Rightarrow> real" where
  "calc_rate delta delta_ms = real delta * 1000 / real delta_ms"

definition get_stat ::
  "nat \<Rightarrow> t_stat_cntr list \<Rightarrow> t_stat_cntr \<Rightarrow> t_stat_calc \<Rightarrow> stat_last \<Rightarrow> t_stat_cntr \<times> t_stat_calc \<times> stat_last" where
  "get_stat now threads tot calc l =
     (let delta_ms = sub64 now (s_stat_last_time_ms l);
          tot = foldl agg_thread (t_stat_cntr_clear tot) threads;
          delta_reqs = sub64 (m_reqs tot) (m_reqs (s_last l));
          delta_resp = sub64 (m_resp_count tot) (m_resp_count (s_last l));
          calc1 = (if delta_resp > 0
            then calc\<lparr>c_2xx_pcnt := calc_pcnt (m_resp_status_2xx tot) (m_resp_status_2xx (s_last l)) delta_resp,
                      c_3xx_pcnt := calc_pcnt (m_resp_status_3xx tot) (m_resp_status_3xx (s_last l)) delta_resp,
                      c_4xx_pcnt := calc_pcnt (m_resp_status_4xx tot) (m_resp_status_4xx (s_last l)) delta_resp,
                      c_5xx_pcnt := calc_pcnt (m_resp_status_5xx tot) (m_resp_status_5xx (s_last l)) delta_resp\<rparr>
            else calc);
          calc2 = (if delta_ms > 0
            then calc1\<lparr>c_req_s := calc_rate delta_reqs delta_ms,
                       c_resp_s := calc_rate delta_reqs delta_ms,
                       c_bytes_read_s := real (u64 (sub64 (m_bytes_read tot) (m_bytes_read (s_last l)) * 1000)) / real delta_ms,
                       c_bytes_write_s := real (u64 (sub64 (m_bytes_written tot) (m_bytes_written (s_last l)) * 1000)) / real delta_ms\<rparr>
            else calc1)
      in (tot, calc2, \<lparr>s_last = tot, s_stat_last_time_ms = now\<rparr>))"

definition add_codes :: "status_code_count_map \<Rightarrow> status_code_count_map \<Rightarrow> status_code_count_map" where
  "add_codes m t = foldl (\<lambda>m (k, n). code_add k n m) m t"

definition get_status_codes :: "status_code_count_map \<Rightarrow> status_code_count_map list \<Rightarrow> status_code_count_map" where
  "get_status_codes m threads = foldl add_codes m threads"

section \<open>Lemmas\<close>

lemma code_count_add [simp]:
  "code_count (code_add k n m) j = (if j = k then u32 (code_count m k + n) else code_count m j)"
  by (simp add: code_add_def code_count_def)

lemma code_add_ok [simp]: "smap_ok m \<Longrightarrow> smap_ok (code_add k n m)"
  by (simp add: code_add_def)

lemma log_class_counts:
  "m_resp_status_2xx (log_class st s) = (if 200 \<le> st \<and> st < 300 then u64 (m_resp_status_2xx s + 1) else m_resp_status_2xx s)"
  "m_resp_status_3xx (log_class st s) = (if 300 \<le> st \<and> st < 400 then u64 (m_resp_status_3xx s + 1) else m_resp_status_3xx s)"
  "m_resp_status_4xx (log_class st s) = (if 400 \<le> st \<and> st < 500 then u64 (m_resp_status_4xx s + 1) else m_resp_status_4xx s)"
  "m_resp_status_5xx (log_class st s) = (if 500 \<le> st \<and> st < 600 then u64 (m_resp_status_5xx s + 1) else m_resp_status_5xx s)"
  by (simp_all add: log_class_def)

definition class_len :: "nat \<Rightarrow> nat list \<Rightarrow> nat" where
  "class_len c sts = length (filter (\<lambda>st. c * 100 \<le> st \<and> st < c * 100 + 100) sts)"

lemma class_len_simps [simp]:
  "class_len c [] = 0"
  "class_len c (st # sts) = (if c * 100 \<le> st \<and> st < c * 100 + 100 then Suc (class_len c sts) else class_len c sts)"
  by (simp_all add: class_len_def)

lemma u64_add_left: "u64 (u64 a + b) = u64 (a + b)" "u64 (a + u64 b) = u64 (a + b)" "u64 (Suc (u64 a)) = u64 (Suc a)"
  by (simp_all add: u64_def mod_simps)

lemma u32_add_left: "u32 (u32 a + b) = u32 (a + b)" "u32 (a + u32 b) = u32 (a + b)" "u32 (Suc (u32 a)) = u32 (Suc a)"
    "u32 (u32 a) = u32 a"
  by (simp_all add: u32_def mod_simps)

lemma code_count_Cons: "code_count ((j, n) # t) k = (if k = j then n else code_count t k)"
  by (simp add: code_count_def)

definition log_statuses :: "nat list \<Rightarrow> thread_stat \<Rightarrow> thread_stat" where
  "log_statuses sts t = foldl (\<lambda>t st. request_log_status st t) t sts"

lemma log_statuses_simps [simp]:
  "log_statuses [] t = t"
  "log_statuses (st # sts) t = log_statuses sts (request_log_status st t)"
  by (simp_all add: log_statuses_def)

lemma log_statuses_class:
  "m_resp_status_2xx (ts_stat t) + class_len 2 sts < 2 ^ 64 \<Longrightarrow>
     m_resp_status_2xx (ts_stat (log_statuses sts t)) = m_resp_status_2xx (ts_stat t) + class_len 2 sts"
  "m_resp_status_3xx (ts_stat t) + class_len 3 sts < 2 ^ 64 \<Longrightarrow>
     m_resp_status_3xx (ts_stat (log_statuses sts t)) = m_resp_status_3xx (ts_stat t) + class_len 3 sts"
  "m_resp_status_4xx (ts_stat t) + class_len 4 sts < 2 ^ 64 \<Longrightarrow>
     m_resp_status_4xx (ts_stat (log_statuses sts t)) = m_resp_status_4xx (ts_stat t) + class_len 4 sts"
  "m_resp_status_5xx (ts_stat t) + class_len 5 sts < 2 ^ 64 \<Longrightarrow>
     m_resp_status_5xx (ts_stat (log_statuses sts t)) = m_resp_status_5xx (ts_stat t) + class_len 5 sts"
  by (induction sts arbitrary: t) (auto simp: request_log_status_def log_class_counts u64_def split: if_splits)

lemma log_statuses_codes:
  "code_count (ts_codes t) k + count_list sts k < 2 ^ 32 \<Longrightarrow>
     code_count (ts_codes (log_statuses sts t)) k = code_count (ts_codes t) k + count_list sts k"
  by (induction sts arbitrary: t) (auto simp: request_log_status_def u32_def split: if_splits)

lemma log_statuses_ok: "smap_ok (ts_codes t) \<Longrightarrow> smap_ok (ts_codes (log_statuses sts t))"
  by (induction sts arbitrary: t) (simp_all add: request_log_status_def)

lemma code_count_add_codes:
  "smap_ok t \<Longrightarrow> u32 (code_count (add_codes m t) k) = u32 (code_count m k + code_count t k)"
proof (induction t arbitrary: m)
  case Nil
  then show ?case by (simp add: add_codes_def code_count_def)
next
  case (Cons e t)
  obtain j n where e: "e = (j, n)" by (cases e)
  have ok: "smap_ok t" and fresh: "j \<notin> fst ` set t"
    using Cons.prems by (auto simp: e smap_ok_Cons)
  have absent: "code_count t j = 0"
    using fresh by (simp add: code_count_def map_of_eq_None_iff [THEN iffD2])
  have "u32 (code_count (add_codes m (e # t)) k) = u32 (code_count (code_add j n m) k + code_count t k)"
    using Cons.IH[OF ok, of "code_add j n m"] by (simp add: e add_codes_def)
  then show ?case
    using absent by (auto simp: e code_count_Cons u32_add_left)
qed

lemma sum_u32_cong: "u32 a = u32 b \<Longrightarrow> u32 (a + c) = u32 (b + c)"
  by (metis u32_add_left(1))

lemma get_status_codes_count:
  "\<forall>t \<in> set ts. smap_ok t \<Longrightarrow>
   u32 (code_count (get_status_codes m ts) k) = u32 (code_count m k + (\<Sum>t \<leftarrow> ts. code_count t k))"
proof (induction ts arbitrary: m)
  case Nil
  then show ?case by (simp add: get_status_codes_def)
next
  case (Cons t ts)
  have "u32 (code_count (get_status_codes m (t # ts)) k) =
      u32 (code_count (add_codes m t) k + (\<Sum>t \<leftarrow> ts. code_count t k))"
    using Cons.IH[of "add_codes m t"] Cons.prems by (simp add: get_status_codes_def)
  also have "\<dots> = u32 (code_count m k + code_count t k + (\<Sum>t \<leftarrow> ts. code_count t k))"
    using code_count_add_codes[of t m k] Cons.prems by (intro sum_u32_cong) simp
  finally show ?case by (simp add: add.assoc)
qed

lemma smap_ok_add_codes: "smap_ok m \<Longrightarrow> smap_ok (add_codes m t)"
  unfolding add_codes_def by (induction t arbitrary: m) auto

text \<open>The sums that \<open>get_stat\<close> forms.\<close>

lemma agg_threads_sums:
  "u64 (m_reqs (foldl agg_thread s ts)) = u64 (m_reqs s + (\<Sum>t \<leftarrow> ts. m_reqs t))"
  "u64 (m_resp_count (foldl agg_thread s ts)) = u64 (m_resp_count s + (\<Sum>t \<leftarrow> ts. m_resp_count t))"
  "u64 (m_errors (foldl agg_thread s ts)) = u64 (m_errors s + (\<Sum>t \<leftarrow> ts. m_errors t))"
  "u64 (m_bytes_read (foldl agg_thread s ts)) = u64 (m_bytes_read s + (\<Sum>t \<leftarrow> ts. m_bytes_read t))"
  "u64 (m_bytes_written (foldl agg_thread s ts)) = u64 (m_bytes_written s + (\<Sum>t \<leftarrow> ts. m_bytes_written t))"
  by (induction ts arbitrary: s) (simp_all add: agg_thread_def u64_add_left add.assoc)

lemma agg_threads_less:
  "m_reqs s < 2 ^ 64 \<Longrightarrow> m_reqs (foldl agg_thread s ts) < 2 ^ 64"
  "m_resp_count s < 2 ^ 64 \<Longrightarrow> m_resp_count (foldl agg_thread s ts) < 2 ^ 64"
  "m_errors s < 2 ^ 64 \<Longrightarrow> m_errors (foldl agg_thread s ts) < 2 ^ 64"
  "m_bytes_read s < 2 ^ 64 \<Longrightarrow> m_bytes_read (foldl agg_thread s ts) < 2 ^ 64"
  "m_bytes_written s < 2 ^ 64 \<Longrightarrow> m_bytes_written (foldl agg_thread s ts) < 2 ^ 64"
  by (induction ts rule: rev_induct) (simp_all add: agg_thread_def u64_less[simplified])

lemma agg_threads_class:
  assumes "ts \<noteq> []"
  shows "m_resp_status_2xx (foldl agg_thread s ts) = m_resp_status_2xx (last ts)"
    "m_resp_status_3xx (foldl agg_thread s ts) = m_resp_status_3xx (last ts)"
    "m_resp_status_4xx (foldl agg_thread s ts) = m_resp_status_4xx (last ts)"
    "m_resp_status_5xx (foldl agg_thread s ts) = m_resp_status_5xx (last ts)"
  using assms
  by (induction ts rule: rev_induct) (simp_all add: agg_thread_def)

lemma get_stat_fst: "fst (get_stat now ts tot calc l) = foldl agg_thread (t_stat_cntr_clear tot) ts"
  by (simp add: get_stat_def Let_def)

section \<open>Properties\<close>

definition xstat_of :: "real list \<Rightarrow> xstat" where
  "xstat_of xs = foldl (\<lambda>s v. update_stat v s) xstat_new xs"

lemma xstat_of_snoc: "xstat_of (xs @ [v]) = update_stat v (xstat_of xs)"
  by (simp add: xstat_of_def)

lemma xstat_of_fields:
  "xs_num (xstat_of xs) = u64 (length xs)"
  "xs_sum_x (xstat_of xs) = sum_list xs" "xs_sum_x2 (xstat_of xs) = (\<Sum>x \<leftarrow> xs. x * x)"
  "xs_max (xstat_of xs) = Max (insert 0 (set xs))" "xs_min (xstat_of xs) = Min (insert 1000000000 (set xs))"
proof (induction xs rule: rev_induct)
  case (snoc v xs)
  have ins: "insert a (set (xs @ [v])) = insert v (insert a (set xs))" for a by auto
  have "xs_max (xstat_of (xs @ [v])) = max v (xs_max (xstat_of xs))"
    "xs_min (xstat_of (xs @ [v])) = min v (xs_min (xstat_of xs))"
    by (simp_all add: xstat_of_snoc update_stat_def max_def min_def)
  moreover have "Max (insert 0 (set (xs @ [v]))) = max v (Max (insert 0 (set xs)))"
    "Min (insert 1000000000 (set (xs @ [v]))) = min v (Min (insert 1000000000 (set xs)))"
    unfolding ins by (simp_all only: Max_insert Min_insert finite_insert finite_set insert_not_empty not_False_eq_True)
  ultimately show "xs_max (xstat_of (xs @ [v])) = Max (insert 0 (set (xs @ [v])))"
    "xs_min (xstat_of (xs @ [v])) = Min (insert 1000000000 (set (xs @ [v])))"
    using snoc(4,5) by metis+
  show "xs_num (xstat_of (xs @ [v])) = u64 (length (xs @ [v]))"
    "xs_sum_x (xstat_of (xs @ [v])) = sum_list (xs @ [v])" "xs_sum_x2 (xstat_of (xs @ [v])) = (\<Sum>x \<leftarrow> xs @ [v]. x * x)"
    using snoc(1-3) by (simp_all add: xstat_of_snoc update_stat_def u64_add_left)
qed (simp_all add: xstat_of_def xstat_new_def u64_def)

text \<open>
  Statistics can be kept per thread and merged: adding the statistics of one sample to
  those of another gives those of both samples together, in every field, and the extremes and
  sums are those of the sample.
\<close>

theorem add_stat_merges:
  "add_stat (xstat_of xs) (xstat_of ys) = xstat_of (ys @ xs) \<and>
   xs_sum_x (xstat_of xs) = sum_list xs \<and> xs_sum_x2 (xstat_of xs) = (\<Sum>x \<leftarrow> xs. x * x) \<and>
   xs_max (xstat_of xs) = Max (insert 0 (set xs)) \<and> xs_min (xstat_of xs) = Min (insert 1000000000 (set xs))"
proof -
  have "Max (insert 0 (set (ys @ xs))) = max (Max (insert 0 (set ys))) (Max (insert (0::real) (set xs)))"
    by (subst Max_Un[symmetric]) auto
  moreover have "Min (insert 1000000000 (set (ys @ xs))) = min (Min (insert 1000000000 (set ys))) (Min (insert (1000000000::real) (set xs)))"
    by (subst Min_Un[symmetric]) auto
  moreover have "u64 (u64 (length ys) + u64 (length xs)) = u64 (length ys + length xs)"
    by (simp add: u64_add_left)
  moreover have "xs_max (add_stat f t) = max (xs_max t) (xs_max f)" "xs_min (add_stat f t) = min (xs_min t) (xs_min f)" for f t
    by (simp_all add: add_stat_def max_def min_def)
  ultimately have "xs_max (add_stat (xstat_of xs) (xstat_of ys)) = xs_max (xstat_of (ys @ xs))"
    "xs_min (add_stat (xstat_of xs) (xstat_of ys)) = xs_min (xstat_of (ys @ xs))"
    "xs_num (add_stat (xstat_of xs) (xstat_of ys)) = xs_num (xstat_of (ys @ xs))"
    by (simp_all only: xstat_of_fields) (simp add: add_stat_def xstat_of_fields)
  then have "add_stat (xstat_of xs) (xstat_of ys) = xstat_of (ys @ xs)"
    by (intro xstat.equality) (simp_all add: add_stat_def xstat_of_fields)
  then show ?thesis by (simp add: xstat_of_fields)
qed

text \<open>
  The variance is not that of the sample: a sample of equal values other than 0 and 1 has
  one that is not 0.
\<close>

lemma xstat_var_wrong: "xstat_var (xstat_of [2, 2]) = 2"
  by (simp add: xstat_of_def xstat_var_def update_stat_def xstat_new_def u64_def)

definition thread_stat_new :: thread_stat where
  "thread_stat_new = \<lparr>ts_stat = t_stat_cntr_new, ts_codes = []\<rparr>"

text \<open>
  The status codes a thread has logged, up to 2^32 of them: the count kept for each code
  is how often it was logged, and the counter of each class is how many codes of the class
  were; the map stays sorted.
\<close>

theorem log_statuses_count:
  assumes "length sts < 2 ^ 32"
  shows "(\<forall>k. code_count (ts_codes (log_statuses sts thread_stat_new)) k = count_list sts k) \<and>
    m_resp_status_2xx (ts_stat (log_statuses sts thread_stat_new)) = class_len 2 sts \<and>
    m_resp_status_3xx (ts_stat (log_statuses sts thread_stat_new)) = class_len 3 sts \<and>
    m_resp_status_4xx (ts_stat (log_statuses sts thread_stat_new)) = class_len 4 sts \<and>
    m_resp_status_5xx (ts_stat (log_statuses sts thread_stat_new)) = class_len 5 sts \<and>
    smap_ok (ts_codes (log_statuses sts thread_stat_new))"
proof -
  have le: "class_len c sts \<le> length sts" for c
    by (simp add: class_len_def)
  have n: "class_len c sts < 2 ^ 64" "count_list sts k < 2 ^ 32" for c k
    using assms count_le_length[of sts k] le[of c] by simp_all
  have "code_count (ts_codes (log_statuses sts thread_stat_new)) k = count_list sts k" for k
    using log_statuses_codes[of thread_stat_new k sts] n(2)[of k] by (simp add: thread_stat_new_def code_count_def)
  moreover have "smap_ok (ts_codes (log_statuses sts thread_stat_new))"
    by (rule log_statuses_ok) (simp add: thread_stat_new_def)
  ultimately show ?thesis
    using log_statuses_class[of thread_stat_new sts] n(1)
    by (simp add: thread_stat_new_def t_stat_cntr_new_def)
qed

theorem log_statuses_count_witness:
  "code_count (ts_codes (log_statuses [200, 404, 200, 101] thread_stat_new)) 200 = 2 \<and>
   m_resp_status_4xx (ts_stat (log_statuses [200, 404, 200, 101] thread_stat_new)) = 1"
  using log_statuses_count[of "[200, 404, 200, 101]"] by simp

text \<open>
  \<^verbatim>\<open>get_status_codes\<close> gives for every code the sum of the counts of the threads
  (as a 32-bit number), and a sorted map.
\<close>

theorem get_status_codes_sums:
  assumes "\<forall>t \<in> set ts. smap_ok t"
  shows "u32 (code_count (get_status_codes [] ts) k) = u32 (\<Sum>t \<leftarrow> ts. code_count t k) \<and>
    smap_ok (get_status_codes [] ts)"
proof -
  have "smap_ok m \<Longrightarrow> smap_ok (get_status_codes m ts)" for m
    unfolding get_status_codes_def by (induction ts arbitrary: m) (auto simp: smap_ok_add_codes)
  moreover have "code_count [] k = 0" by (simp add: code_count_def)
  ultimately show ?thesis using get_status_codes_count[OF assms, of "[]" k] by simp
qed

theorem get_status_codes_sums_witness:
  "u32 (code_count (get_status_codes [] [[(200, 3), (404, 1)], [(200, 4)]]) 200) = u32 7"
  using get_status_codes_sums[of "[[(200, 3), (404, 1)], [(200, 4)]]" 200]
  by (simp add: smap_ok_Cons code_count_def)

text \<open>
  The totals of \<^verbatim>\<open>get_stat\<close> are the sums over the threads for requests, responses,
  errors and bytes; those of the four status classes are not: they are the counters of the
  last thread of the list.
\<close>

theorem get_stat_totals:
  assumes "ts \<noteq> []"
  shows "\<exists>t. fst (get_stat now ts tot calc l) = t \<and>
    m_reqs t = u64 (\<Sum>t \<leftarrow> ts. m_reqs t) \<and> m_resp_count t = u64 (\<Sum>t \<leftarrow> ts. m_resp_count t) \<and>
    m_errors t = u64 (\<Sum>t \<leftarrow> ts. m_errors t) \<and> m_bytes_read t = u64 (\<Sum>t \<leftarrow> ts. m_bytes_read t) \<and>
    m_bytes_written t = u64 (\<Sum>t \<leftarrow> ts. m_bytes_written t) \<and>
    m_resp_status_2xx t = m_resp_status_2xx (last ts) \<and> m_resp_status_3xx t = m_resp_status_3xx (last ts) \<and>
    m_resp_status_4xx t = m_resp_status_4xx (last ts) \<and> m_resp_status_5xx t = m_resp_status_5xx (last ts)"
proof -
  let ?s = "t_stat_cntr_clear tot"
  have z: "m_reqs ?s = 0" "m_resp_count ?s = 0" "m_errors ?s = 0" "m_bytes_read ?s = 0" "m_bytes_written ?s = 0"
    by (simp_all add: t_stat_cntr_clear_def)
  show ?thesis
    unfolding get_stat_fst
    using agg_threads_sums[of ?s ts] agg_threads_less[of ?s ts] agg_threads_class[OF assms, of ?s]
    by (simp add: z u64_id)
qed

theorem get_stat_totals_witness:
  "m_reqs (fst (get_stat 5 [t_stat_cntr_new\<lparr>m_reqs := 2, m_resp_status_2xx := 2\<rparr>, t_stat_cntr_new\<lparr>m_reqs := 3\<rparr>]
      t_stat_cntr_new t_stat_calc_new stat_last_new)) = 5 \<and>
   m_resp_status_2xx (fst (get_stat 5 [t_stat_cntr_new\<lparr>m_reqs := 2, m_resp_status_2xx := 2\<rparr>, t_stat_cntr_new\<lparr>m_reqs := 3\<rparr>]
      t_stat_cntr_new t_stat_calc_new stat_last_new)) = 0"
  using get_stat_totals[of "[t_stat_cntr_new\<lparr>m_reqs := 2, m_resp_status_2xx := 2\<rparr>, t_stat_cntr_new\<lparr>m_reqs := 3\<rparr>]" 5
      t_stat_cntr_new t_stat_calc_new stat_last_new]
  by (simp add: t_stat_cntr_new_def u64_def)

text \<open>
  The rate of responses is computed from the number of requests: ten requests and no
  response in a second are ten responses per second.
\<close>

lemma resp_rate_from_requests:
  "c_resp_s (fst (snd (get_stat 1000 [t_stat_cntr_new\<lparr>m_reqs := 10\<rparr>] t_stat_cntr_new t_stat_calc_new stat_last_new))) = 10"
  by (simp add: get_stat_def Let_def agg_thread_def t_stat_cntr_clear_def t_stat_cntr_new_def t_stat_calc_new_def
      stat_last_new_def sub64_def u64_def calc_rate_def)

end
