(* ===== verification/Nconn_Tcp.thy ===== *)
theory Nconn_Tcp
  imports Nconn
begin

unbundle bit_operations_syntax

text \<open>
  The TCP connection of \<^verbatim>\<open>src/core/nconn/nconn_tcp.{h,cc}\<close>, as compiled on Linux.  The
  system calls and the reactor are the fields of the record \<open>sys_env\<close>, functions on a state
  \<open>'o\<close> of the operating system, kept beside the event loop in \<open>evr_world\<close>.  A call that
  sets \<^verbatim>\<open>errno\<close> returns it.
\<close>

section \<open>The environment\<close>

datatype errno = EAGAIN | ECONNRESET | EISCONN | EINVAL | ECONNREFUSED | EINPROGRESS | EADDRNOTAVAIL | EOTHER nat

datatype sock_opt = SO_REUSEADDR | SO_REUSEPORT | SO_SNDBUF | SO_RCVBUF | TCP_NODELAY

record 'o sys_env =
  sys_socket :: "int \<Rightarrow> int \<Rightarrow> int \<Rightarrow> 'o \<Rightarrow> int \<times> 'o"
  sys_setsockopt :: "int \<Rightarrow> sock_opt \<Rightarrow> nat \<Rightarrow> 'o \<Rightarrow> int \<times> 'o"
  sys_set_linger :: "int \<Rightarrow> int \<Rightarrow> int \<Rightarrow> 'o \<Rightarrow> int \<times> 'o"
  sys_getsockopt_error :: "int \<Rightarrow> 'o \<Rightarrow> int \<times> 'o"
  sys_fcntl_getfl :: "int \<Rightarrow> 'o \<Rightarrow> int \<times> 'o"
  sys_fcntl_setfl :: "int \<Rightarrow> int \<Rightarrow> 'o \<Rightarrow> int \<times> 'o"
  sys_ioctl_fionbio :: "int \<Rightarrow> 'o \<Rightarrow> int \<times> 'o"
  sys_connect :: "int \<Rightarrow> byte list \<Rightarrow> int \<Rightarrow> 'o \<Rightarrow> int \<times> errno \<times> 'o"
  sys_accept4 :: "int \<Rightarrow> nat \<Rightarrow> 'o \<Rightarrow> int \<times> byte list \<times> nat \<times> 'o"
  sys_recvfrom :: "int \<Rightarrow> nat \<Rightarrow> 'o \<Rightarrow> int \<times> errno \<times> byte list \<times> 'o"
  sys_send :: "int \<Rightarrow> byte list \<Rightarrow> 'o \<Rightarrow> int \<times> errno \<times> 'o"
  sys_shutdown :: "int \<Rightarrow> 'o \<Rightarrow> int \<times> 'o"
  sys_close :: "int \<Rightarrow> 'o \<Rightarrow> int \<times> 'o"
  sys_usleep :: "nat \<Rightarrow> 'o \<Rightarrow> 'o"
  reactor_add :: "int \<Rightarrow> nat \<Rightarrow> nat option \<Rightarrow> 'o \<Rightarrow> int \<times> 'o"
  reactor_mod :: "int \<Rightarrow> nat \<Rightarrow> nat option \<Rightarrow> 'o \<Rightarrow> int \<times> 'o"
  reactor_del :: "int \<Rightarrow> 'o \<Rightarrow> int \<times> 'o"
  reactor_is_epoll :: bool

record ('c, 'o) evr_world = "'c evr_loop" +
  w_os :: 'o

section \<open>State\<close>

datatype tcp_conn_state =
  TCP_STATE_NONE | TCP_STATE_LISTENING | TCP_STATE_ACCEPTING | TCP_STATE_CONNECTING
  | TCP_STATE_CONNECTED | TCP_STATE_READING | TCP_STATE_WRITING | TCP_STATE_DONE

definition OPT_TCP_RECV_BUF_SIZE :: nat where "OPT_TCP_RECV_BUF_SIZE = 0"
definition OPT_TCP_SEND_BUF_SIZE :: nat where "OPT_TCP_SEND_BUF_SIZE = 1"
definition OPT_TCP_NO_DELAY :: nat where "OPT_TCP_NO_DELAY = 2"
definition OPT_TCP_NO_LINGER :: nat where "OPT_TCP_NO_LINGER = 10"
definition OPT_TCP_FD :: nat where "OPT_TCP_FD = 100"

record nconn_tcp = nconn +
  m_fd :: int
  m_sock_opt_recv_buf_size :: nat
  m_sock_opt_send_buf_size :: nat
  m_sock_opt_no_delay :: bool
  m_sock_opt_no_linger :: bool
  m_tcp_state :: tcp_conn_state

definition nconn_tcp_new :: nconn_tcp where
  "nconn_tcp_new = nconn.extend (nconn_new\<lparr>nc_scheme := SCHEME_TCP\<rparr>)
     \<lparr>m_fd = -1, m_sock_opt_recv_buf_size = 0, m_sock_opt_send_buf_size = 0, m_sock_opt_no_delay = False,
      m_sock_opt_no_linger = False, m_tcp_state = TCP_STATE_NONE\<rparr>"

definition is_listening :: "'a nconn_tcp_scheme \<Rightarrow> bool" where
  "is_listening c \<longleftrightarrow> m_tcp_state c = TCP_STATE_LISTENING"
definition is_connecting :: "'a nconn_tcp_scheme \<Rightarrow> bool" where
  "is_connecting c \<longleftrightarrow> m_tcp_state c = TCP_STATE_CONNECTING"
definition is_accepting :: "'a nconn_tcp_scheme \<Rightarrow> bool" where
  "is_accepting c \<longleftrightarrow> m_tcp_state c = TCP_STATE_ACCEPTING"

section \<open>Options\<close>

definition set_opt :: "nat \<Rightarrow> nat \<Rightarrow> 'a nconn_tcp_scheme \<Rightarrow> int \<times> 'a nconn_tcp_scheme" where
  "set_opt opt len c =
     (if opt = OPT_TCP_RECV_BUF_SIZE then (NC_STATUS_OK, c\<lparr>m_sock_opt_recv_buf_size := len\<rparr>)
      else if opt = OPT_TCP_SEND_BUF_SIZE then (NC_STATUS_OK, c\<lparr>m_sock_opt_send_buf_size := len\<rparr>)
      else if opt = OPT_TCP_NO_DELAY then (NC_STATUS_OK, c\<lparr>m_sock_opt_no_delay := len \<noteq> 0\<rparr>)
      else if opt = OPT_TCP_NO_LINGER then (NC_STATUS_OK, c\<lparr>m_sock_opt_no_linger := len \<noteq> 0\<rparr>)
      else (NC_STATUS_UNSUPPORTED, c))"

definition get_opt :: "nat \<Rightarrow> 'a nconn_tcp_scheme \<Rightarrow> int \<times> int option" where
  "get_opt opt c = (if opt = OPT_TCP_FD then (NC_STATUS_OK, Some (m_fd c)) else (NC_STATUS_UNSUPPORTED, None))"

definition nconn_get_fd :: "'a nconn_tcp_scheme \<Rightarrow> int" where
  "nconn_get_fd c = (case get_opt OPT_TCP_FD c of
     (st, Some fd) \<Rightarrow> if st \<noteq> NC_STATUS_OK then -1 else fd | (_, None) \<Rightarrow> -1)"

section \<open>Virtual methods\<close>

text \<open>
  \<open>if (m_evr_loop) { if (0 != m_evr_loop->add_fd(...)) ... }\<close>: whether the registration
  did not fail.
\<close>

definition evr_reg ::
  "(int \<Rightarrow> nat \<Rightarrow> nat option \<Rightarrow> 'o \<Rightarrow> int \<times> 'o) \<Rightarrow> int \<Rightarrow> nat \<Rightarrow> nat \<Rightarrow>
   'a nconn_scheme \<times> ('c, 'o, 'm) evr_world_scheme \<Rightarrow> (bool \<times> 'a nconn_scheme \<times> ('c, 'o, 'm) evr_world_scheme) option" where
  "evr_reg op fd msk p s =
     (case s of (c, w) \<Rightarrow>
        if nc_evr_loop c
        then do { (st, os, w1) \<leftarrow> add_fd op fd msk (Some p) (w_os w, w); Some (st = 0, c, w1\<lparr>w_os := os\<rparr>) }
        else Some (True, c, w))"

definition on_os :: "('o \<Rightarrow> 'r \<times> 'o) \<Rightarrow> ('c, 'o, 'm) evr_world_scheme \<Rightarrow> 'r \<times> ('c, 'o, 'm) evr_world_scheme" where
  "on_os f w = (case f (w_os w) of (r, os) \<Rightarrow> (r, w\<lparr>w_os := os\<rparr>))"

definition conn_error :: "conn_status \<Rightarrow> 'a nconn_scheme \<Rightarrow> 'a nconn_scheme" where
  "conn_error st c = c\<lparr>nc_conn_status := st\<rparr>"

definition MASK_READ_ALL :: nat where
  "MASK_READ_ALL = EVR_FILE_ATTR_MASK_READ OR EVR_FILE_ATTR_MASK_STATUS_ERROR OR EVR_FILE_ATTR_MASK_RD_HUP OR
     EVR_FILE_ATTR_MASK_HUP"

type_synonym ('a, 'c, 'o, 'm) tcp_op =
  "'a nconn_tcp_scheme \<times> ('c, 'o, 'm) evr_world_scheme \<Rightarrow> (int \<times> 'a nconn_tcp_scheme \<times> ('c, 'o, 'm) evr_world_scheme) option"

definition tcp_ncset_listening :: "'o sys_env \<Rightarrow> nat \<Rightarrow> int \<Rightarrow> ('a, 'c, 'o, 'm) tcp_op" where
  "tcp_ncset_listening env p fd s =
     (case s of (c, w) \<Rightarrow>
        do {
          (_, w1) \<leftarrow> Some (on_os (sys_ioctl_fionbio env fd) w);
          (ok, s1) \<leftarrow> evr_reg (reactor_add env) fd MASK_READ_ALL p (c\<lparr>m_fd := fd, m_tcp_state := TCP_STATE_LISTENING\<rparr>, w1);
          Some (if ok then NC_STATUS_OK else NC_STATUS_ERROR, s1) })"

definition O_NONBLOCK :: int where "O_NONBLOCK = 2048"
definition SOCK_CLOEXEC :: int where "SOCK_CLOEXEC = 524288"

text \<open>The two \<^verbatim>\<open>fcntl\<close> calls that make a descriptor non-blocking: whether both succeeded.\<close>

definition set_nonblock :: "'o sys_env \<Rightarrow> int \<Rightarrow> ('c, 'o, 'm) evr_world_scheme \<Rightarrow> bool \<times> ('c, 'o, 'm) evr_world_scheme" where
  "set_nonblock env fd w =
     (case on_os (sys_fcntl_getfl env fd) w of (flags, w1) \<Rightarrow>
        if flags = -1 then (False, w1)
        else (case on_os (sys_fcntl_setfl env fd (flags OR O_NONBLOCK)) w1 of (r, w2) \<Rightarrow> (\<not> r < 0, w2)))"

definition tcp_ncset_listening_nb :: "'o sys_env \<Rightarrow> nat \<Rightarrow> int \<Rightarrow> ('a, 'c, 'o, 'm) tcp_op" where
  "tcp_ncset_listening_nb env p fd s =
     (case s of (c, w) \<Rightarrow>
        let c1 = c\<lparr>m_fd := fd, m_tcp_state := TCP_STATE_LISTENING\<rparr> in
        (case set_nonblock env fd w of (ok, w1) \<Rightarrow>
           if \<not> ok then Some (NC_STATUS_ERROR, conn_error CONN_STATUS_ERROR_INTERNAL c1, w1)
           else do {
             (ok, s1) \<leftarrow> evr_reg (reactor_add env) fd (MASK_READ_ALL OR EVR_FILE_ATTR_MASK_ET) p (c1, w1);
             Some (if ok then NC_STATUS_OK else NC_STATUS_ERROR, s1) }))"

definition tcp_ncset_accepting :: "'o sys_env \<Rightarrow> nat \<Rightarrow> int \<Rightarrow> ('a, 'c, 'o, 'm) tcp_op" where
  "tcp_ncset_accepting env p fd s =
     (case s of (c, w) \<Rightarrow>
        do {
          (ok, s1) \<leftarrow> evr_reg (reactor_add env) fd (MASK_READ_ALL OR EVR_FILE_ATTR_MASK_ET) p
                        (c\<lparr>m_fd := fd, m_tcp_state := TCP_STATE_ACCEPTING\<rparr>, w);
          Some (if ok then NC_STATUS_OK else NC_STATUS_ERROR, s1) })"

definition tcp_ncset_connected :: "'o sys_env \<Rightarrow> nat \<Rightarrow> ('a, 'c, 'o, 'm) tcp_op" where
  "tcp_ncset_connected env p s =
     (case s of (c, w) \<Rightarrow>
        (case (if m_sock_opt_no_delay c then (0, w) else on_os (sys_setsockopt env (m_fd c) TCP_NODELAY 1) w) of (r, w1) \<Rightarrow>
           if r = -1 then Some (NC_STATUS_ERROR, c\<lparr>m_sock_opt_no_delay := True\<rparr>, w1)
           else do {
             (ok, s1) \<leftarrow> evr_reg (reactor_mod env) (m_fd c) (MASK_READ_ALL OR EVR_FILE_ATTR_MASK_ET) p
                           (c\<lparr>m_sock_opt_no_delay := True\<rparr>, w1);
             Some (if ok then NC_STATUS_OK else NC_STATUS_ERROR, s1) }))"

text \<open>Receiving: status and the bytes stored in the buffer.\<close>

definition tcp_ncread ::
  "'o sys_env \<Rightarrow> nat \<Rightarrow> nat \<Rightarrow> 'a nconn_tcp_scheme \<times> ('c, 'o, 'm) evr_world_scheme \<Rightarrow>
     (int \<times> byte list \<times> 'a nconn_tcp_scheme \<times> ('c, 'o, 'm) evr_world_scheme) option" where
  "tcp_ncread env p len s =
     (case s of (c, w) \<Rightarrow>
        (case on_os (\<lambda>os. case sys_recvfrom env (m_fd c) len os of (r, e, bs, os1) \<Rightarrow> ((r, e, bs), os1)) w of
           ((r, e, bs), w1) \<Rightarrow>
             Some (if r > 0 then (r, bs, c, w1)
                   else if r = 0 then (NC_STATUS_EOF, bs, c, w1)
                   else if e = EAGAIN then (NC_STATUS_AGAIN, bs, c, w1)
                   else (NC_STATUS_ERROR, bs, c, w1))))"

definition MASK_WRITE_ALL :: nat where
  "MASK_WRITE_ALL = EVR_FILE_ATTR_MASK_WRITE OR EVR_FILE_ATTR_MASK_STATUS_ERROR OR EVR_FILE_ATTR_MASK_RD_HUP OR
     EVR_FILE_ATTR_MASK_HUP OR EVR_FILE_ATTR_MASK_ET"

definition tcp_ncwrite :: "'o sys_env \<Rightarrow> nat \<Rightarrow> byte list \<Rightarrow> ('a, 'c, 'o, 'm) tcp_op" where
  "tcp_ncwrite env p buf s =
     (case s of (c, w) \<Rightarrow>
        (case on_os (\<lambda>os. case sys_send env (m_fd c) buf os of (r, e, os1) \<Rightarrow> ((r, e), os1)) w of
           ((r, e), w1) \<Rightarrow>
             if \<not> r < 0 then Some (r, c, w1)
             else if e = EAGAIN
             then do {
               (ok, c1, w2) \<leftarrow> evr_reg (reactor_mod env) (m_fd c) MASK_WRITE_ALL p (c, w1);
               Some (if ok then (NC_STATUS_AGAIN, c1, w2)
                     else (NC_STATUS_ERROR, conn_error CONN_STATUS_ERROR_INTERNAL c1, w2)) }
             else Some (NC_STATUS_ERROR, conn_error CONN_STATUS_ERROR_INTERNAL c, w1)))"

text \<open>The socket options of \<^verbatim>\<open>ncsetup\<close> in order, up to the first that fails.\<close>

fun set_sock_opts ::
  "'o sys_env \<Rightarrow> int \<Rightarrow> (sock_opt \<times> nat) list \<Rightarrow> ('c, 'o, 'm) evr_world_scheme \<Rightarrow> bool \<times> ('c, 'o, 'm) evr_world_scheme" where
  "set_sock_opts env fd [] w = (True, w)"
| "set_sock_opts env fd ((opt, v) # opts) w =
     (case on_os (sys_setsockopt env fd opt v) w of (r, w1) \<Rightarrow>
        if r = -1 then (False, w1) else set_sock_opts env fd opts w1)"

definition setup_opts :: "'a nconn_tcp_scheme \<Rightarrow> (sock_opt \<times> nat) list" where
  "setup_opts c = [(SO_REUSEADDR, 1), (SO_REUSEPORT, 1)] @
     (if m_sock_opt_send_buf_size c \<noteq> 0 then [(SO_SNDBUF, m_sock_opt_send_buf_size c)] else []) @
     (if m_sock_opt_recv_buf_size c \<noteq> 0 then [(SO_RCVBUF, m_sock_opt_recv_buf_size c)] else []) @
     (if m_sock_opt_no_delay c then [(TCP_NODELAY, 1)] else [])"

definition tcp_ncsetup :: "'o sys_env \<Rightarrow> nat \<Rightarrow> ('a, 'c, 'o, 'm) tcp_op" where
  "tcp_ncsetup env p s =
     (case s of (c, w) \<Rightarrow>
        let h = nc_host_info c in
        (case on_os (sys_socket env (hi_sock_family h) (hi_sock_type h OR SOCK_CLOEXEC) (hi_sock_protocol h)) w of (fd, w1) \<Rightarrow>
           let c1 = c\<lparr>m_fd := fd\<rparr> in
           if fd < 0 then Some (NC_STATUS_ERROR, conn_error CONN_STATUS_ERROR_INTERNAL c1, w1)
           else (case set_sock_opts env fd (setup_opts c) w1 of (ok, w2) \<Rightarrow>
             if \<not> ok then Some (NC_STATUS_ERROR, c1, w2)
             else (case set_nonblock env fd w2 of (ok, w3) \<Rightarrow>
               if \<not> ok then Some (NC_STATUS_ERROR, conn_error CONN_STATUS_ERROR_INTERNAL c1, w3)
               else do {
                 (ok, c2, w4) \<leftarrow> evr_reg (reactor_add env) fd
                    (EVR_FILE_ATTR_MASK_READ OR EVR_FILE_ATTR_MASK_RD_HUP OR EVR_FILE_ATTR_MASK_ET) p (c1, w3);
                 Some (if ok then (NC_STATUS_OK, c2, w4)
                       else (NC_STATUS_ERROR, conn_error CONN_STATUS_ERROR_INTERNAL c2, w4)) }))))"

text \<open>A listening connection accepts: the result is the new descriptor.\<close>

definition tcp_ncaccept :: "'o sys_env \<Rightarrow> nat \<Rightarrow> ('a, 'c, 'o, 'm) tcp_op" where
  "tcp_ncaccept env p s =
     (case s of (c, w) \<Rightarrow>
        if m_tcp_state c = TCP_STATE_LISTENING
        then (case on_os (\<lambda>os. case sys_accept4 env (m_fd c) 128 os of (fd, sa, n, os1) \<Rightarrow> ((fd, sa, n), os1)) w of
                ((fd, sa, n), w1) \<Rightarrow>
                  Some (if fd < 0
                        then (NC_STATUS_ERROR, c\<lparr>nc_remote_sa := replicate 128 NUL, nc_remote_sa_len := 128\<rparr>, w1)
                        else (fd, c\<lparr>nc_remote_sa := sa, nc_remote_sa_len := n\<rparr>, w1)))
        else Some (NC_STATUS_OK, c\<lparr>m_tcp_state := TCP_STATE_CONNECTED\<rparr>, w))"

definition MASK_RW_ALL :: nat where
  "MASK_RW_ALL = EVR_FILE_ATTR_MASK_READ OR EVR_FILE_ATTR_MASK_WRITE OR EVR_FILE_ATTR_MASK_STATUS_ERROR OR
     EVR_FILE_ATTR_MASK_RD_HUP OR EVR_FILE_ATTR_MASK_HUP OR EVR_FILE_ATTR_MASK_ET"

text \<open>
  \<^verbatim>\<open>ncconnect\<close> from the label \<^verbatim>\<open>state_top\<close>, with \<open>n\<close> retries left: the counter of the
  code is \<open>1023 - n\<close>.
\<close>

definition connect_reg :: "'o sys_env \<Rightarrow> nat \<Rightarrow> ('a, 'c, 'o, 'm) tcp_op" where
  "connect_reg env p s =
     do { (ok, c1, w1) \<leftarrow> evr_reg (reactor_mod env) (m_fd (fst s)) MASK_RW_ALL p s;
          Some (if ok then (NC_STATUS_OK, c1, w1)
                else (NC_STATUS_ERROR, conn_error CONN_STATUS_ERROR_INTERNAL c1, w1)) }"

fun connect_try :: "'o sys_env \<Rightarrow> nat \<Rightarrow> nat \<Rightarrow> ('a, 'c, 'o, 'm) tcp_op" where
  "connect_try env n p (c, w) =
     (case on_os (\<lambda>os. case sys_connect env (m_fd c) (hi_sa (nc_host_info c)) (hi_sa_len (nc_host_info c)) os of
                        (r, e, os1) \<Rightarrow> ((r, e), os1)) w of
        ((r, e), w1) \<Rightarrow>
          if \<not> r < 0 \<or> e = EISCONN then connect_reg env p (c\<lparr>m_tcp_state := TCP_STATE_CONNECTED\<rparr>, w1)
          else (case e of
              EINVAL \<Rightarrow> (case on_os (sys_getsockopt_error env (m_fd c)) w1 of
                  (_, w2) \<Rightarrow> Some (NC_STATUS_ERROR, conn_error CONN_STATUS_ERROR_INTERNAL c, w2))
            | ECONNREFUSED \<Rightarrow> Some (NC_STATUS_ERROR, c, w1)
            | EAGAIN \<Rightarrow> connect_reg env p (c, w1)
            | EINPROGRESS \<Rightarrow> connect_reg env p (c, w1)
            | EADDRNOTAVAIL \<Rightarrow>
                (case n of
                   0 \<Rightarrow> Some (NC_STATUS_ERROR, conn_error CONN_STATUS_ERROR_INTERNAL c, w1)
                 | Suc m \<Rightarrow> connect_try env m p (c, w1\<lparr>w_os := sys_usleep env 1000 (w_os w1)\<rparr>))
            | _ \<Rightarrow> Some (NC_STATUS_ERROR, conn_error CONN_STATUS_ERROR_INTERNAL c, w1)))"

declare connect_try.simps [simp del]

definition tcp_ncconnect :: "'o sys_env \<Rightarrow> nat \<Rightarrow> ('a, 'c, 'o, 'm) tcp_op" where
  "tcp_ncconnect env p s = (case s of (c, w) \<Rightarrow> connect_try env 1023 p (c\<lparr>m_tcp_state := TCP_STATE_CONNECTING\<rparr>, w))"

definition tcp_teardown :: "'o sys_env \<Rightarrow> 'a nconn_tcp_scheme \<Rightarrow> ('c, 'o, 'm) evr_world_scheme \<Rightarrow> ('c, 'o, 'm) evr_world_scheme" where
  "tcp_teardown env c w =
     (let w1 = (if nc_evr_loop c \<and> \<not> reactor_is_epoll env then snd (on_os (reactor_del env (m_fd c)) w) else w)
      in if m_fd c > 0
         then (let w2 = (if m_sock_opt_no_linger c
                         then snd (on_os (sys_set_linger env (m_fd c) 1 0) (snd (on_os (sys_shutdown env (m_fd c)) w1)))
                         else w1)
               in snd (on_os (sys_close env (m_fd c)) w2))
         else w1)"

definition tcp_nccleanup :: "'o sys_env \<Rightarrow> nat \<Rightarrow> ('a, 'c, 'o, 'm) tcp_op" where
  "tcp_nccleanup env p s =
     (case s of (c, w) \<Rightarrow>
        let w1 = tcp_teardown env c w
        in map_option (\<lambda>f. (NC_STATUS_OK,
             c\<lparr>m_fd := -1, nc_evr_loop := False, m_tcp_state := TCP_STATE_NONE, nc_num_reqs := 0\<rparr>,
             w1\<lparr>fd_store := (fd_store w1)(p \<mapsto> f\<lparr>fd_magic := 0\<rparr>)\<rparr>)) (fd_store w1 p))"

definition tcp_virt :: "'o sys_env \<Rightarrow> ('a nconn_tcp_scheme, ('c, 'o, 'm) evr_world_scheme) nc_virt" where
  "tcp_virt env = \<lparr>v_ncsetup = tcp_ncsetup env, v_ncread = tcp_ncread env, v_ncwrite = tcp_ncwrite env,
     v_ncaccept = tcp_ncaccept env, v_ncconnect = tcp_ncconnect env, v_nccleanup = tcp_nccleanup env,
     v_ncset_listening = tcp_ncset_listening env, v_ncset_listening_nb = tcp_ncset_listening_nb env,
     v_ncset_accepting = tcp_ncset_accepting env, v_ncset_connected = tcp_ncset_connected env,
     v_is_connecting = is_connecting\<rparr>"

section \<open>Frames\<close>

text \<open>
  What an operation on the connection at \<open>p\<close> may change of the world: the operating system
  and, in the connection's own descriptor object, the mask and the magic number.
\<close>

definition os_frame :: "nat \<Rightarrow> ('c, 'o, 'm) evr_world_scheme \<Rightarrow> ('c, 'o, 'm) evr_world_scheme \<Rightarrow> bool" where
  "os_frame p w w' \<longleftrightarrow> (\<exists>os f f'. fd_store w p = Some f \<and> w' = w\<lparr>w_os := os, fd_store := (fd_store w)(p \<mapsto> f')\<rparr> \<and>
     fd_data f' = fd_data f \<and> fd_read_cb f' = fd_read_cb f \<and> fd_write_cb f' = fd_write_cb f)"

definition conn_frame :: "'a nconn_tcp_scheme \<Rightarrow> 'a nconn_tcp_scheme \<Rightarrow> bool" where
  "conn_frame c c' \<longleftrightarrow> nc_data c' = nc_data c \<and> nc_ctx c' = nc_ctx c \<and> nc_state c' = nc_state c \<and>
     nc_scheme c' = nc_scheme c \<and> nc_label c' = nc_label c \<and> nc_num_reqs_per_conn c' = nc_num_reqs_per_conn c \<and>
     (nc_alpn c \<noteq> ALPN_HTTP_VER_V2 \<longrightarrow> nc_alpn c' \<noteq> ALPN_HTTP_VER_V2)"

lemma world_swap: "w\<lparr>fd_store := f, w_os := x\<rparr> = w\<lparr>w_os := x, fd_store := f\<rparr>"
  by (cases w) simp

lemma os_frame_os: "fd_store w p = Some f \<Longrightarrow> os_frame p w (w\<lparr>w_os := os\<rparr>)"
  unfolding os_frame_def
  by (intro exI[of _ os] exI[of _ f] conjI) (simp_all add: map_upd_triv world_swap[symmetric])

lemma os_frame_refl: "fd_store w p = Some f \<Longrightarrow> os_frame p w w"
  using os_frame_os[of w p f "w_os w"] by simp

lemma os_frame_fd:
  "fd_store w p = Some f \<Longrightarrow> fd_data f' = fd_data f \<Longrightarrow> fd_read_cb f' = fd_read_cb f \<Longrightarrow> fd_write_cb f' = fd_write_cb f \<Longrightarrow>
    os_frame p w (w\<lparr>w_os := os, fd_store := (fd_store w)(p \<mapsto> f')\<rparr>)"
  unfolding os_frame_def by blast

lemma os_frame_trans: "os_frame p w w1 \<Longrightarrow> os_frame p w1 w2 \<Longrightarrow> os_frame p w w2"
proof -
  assume "os_frame p w w1" "os_frame p w1 w2"
  then obtain os f f' os2 f2 where *: "fd_store w p = Some f" "w1 = w\<lparr>w_os := os, fd_store := (fd_store w)(p \<mapsto> f')\<rparr>"
    "fd_data f' = fd_data f" "fd_read_cb f' = fd_read_cb f" "fd_write_cb f' = fd_write_cb f"
    "w2 = w1\<lparr>w_os := os2, fd_store := (fd_store w1)(p \<mapsto> f2)\<rparr>"
    "fd_data f2 = fd_data f'" "fd_read_cb f2 = fd_read_cb f'" "fd_write_cb f2 = fd_write_cb f'"
    unfolding os_frame_def by auto
  then have "w2 = w\<lparr>w_os := os2, fd_store := (fd_store w)(p \<mapsto> f2)\<rparr>" by (simp add: world_swap)
  with * show "os_frame p w w2" unfolding os_frame_def by auto
qed

lemma os_frame_alloc: "os_frame p w w' \<Longrightarrow> \<exists>f. fd_store w' p = Some f"
  by (auto simp: os_frame_def)

lemma conn_frame_refl [simp]: "conn_frame c c"
  by (simp add: conn_frame_def)

lemma conn_frame_trans: "conn_frame c c1 \<Longrightarrow> conn_frame c1 c2 \<Longrightarrow> conn_frame c c2"
  by (simp add: conn_frame_def)

lemma on_os_frame: "fd_store w p = Some f \<Longrightarrow> on_os g w = (r, w') \<Longrightarrow> os_frame p w w' \<and> fd_store w' p = Some f"
  by (auto simp: on_os_def os_frame_os split: prod.splits)

lemma evr_reg_frame:
  assumes "fd_store w p = Some f"
  shows "\<exists>ok w'. evr_reg op fd msk p (c, w) = Some (ok, c, w') \<and> os_frame p w w'"
proof (cases "nc_evr_loop c")
  case True
  obtain st os where op: "op fd msk (Some p) (w_os w) = (st, os)" by (cases "op fd msk (Some p) (w_os w)")
  have "evr_reg op fd msk p (c, w) = Some (st = 0, c, w\<lparr>w_os := os, fd_store := (fd_store w)(p \<mapsto> f\<lparr>fd_attr_mask := msk\<rparr>)\<rparr>)"
    using assms True op by (simp add: evr_reg_def add_fd_def set_attr_mask_def world_swap)
  then show ?thesis
    using os_frame_fd[OF assms, of "f\<lparr>fd_attr_mask := msk\<rparr>" os] by (intro exI conjI) simp_all
next
  case False
  then show ?thesis using assms by (intro exI[of _ True] exI[of _ w]) (simp add: evr_reg_def os_frame_refl)
qed

text \<open>An operation that always ends, within the frames.\<close>

definition framed :: "nat \<Rightarrow> ('a, 'c, 'o, 'm) tcp_op \<Rightarrow> bool" where
  "framed p op \<longleftrightarrow> (\<forall>c w. fd_store w p \<noteq> None \<longrightarrow>
     (\<exists>r c' w'. op (c, w) = Some (r, c', w') \<and> conn_frame c c' \<and> os_frame p w w'))"

lemma framedI:
  assumes "\<And>c w f. fd_store w p = Some f \<Longrightarrow> \<exists>r c' w'. op (c, w) = Some (r, c', w') \<and> conn_frame c c' \<and> os_frame p w w'"
  shows "framed p op"
  using assms unfolding framed_def by auto

lemma framedD:
  assumes "framed p op" "fd_store w p = Some f"
  obtains r c' w' where "op (c, w) = Some (r, c', w')" "conn_frame c c'" "os_frame p w w'"
  using assms unfolding framed_def by (metis option.distinct(1))

text \<open>The same from the connections with \<open>A\<close>, with what it leaves.\<close>

definition framed_when ::
  "nat \<Rightarrow> ('a nconn_tcp_scheme \<Rightarrow> bool) \<Rightarrow> (int \<Rightarrow> 'a nconn_tcp_scheme \<Rightarrow> bool) \<Rightarrow> ('a, 'c, 'o, 'm) tcp_op \<Rightarrow> bool" where
  "framed_when p A B op \<longleftrightarrow> (\<forall>c w. fd_store w p \<noteq> None \<and> A c \<longrightarrow>
     (\<exists>r c' w'. op (c, w) = Some (r, c', w') \<and> conn_frame c c' \<and> os_frame p w w' \<and> B r c'))"

lemma framed_whenI:
  assumes "\<And>c w f. fd_store w p = Some f \<Longrightarrow> A c \<Longrightarrow>
    \<exists>r c' w'. op (c, w) = Some (r, c', w') \<and> conn_frame c c' \<and> os_frame p w w' \<and> B r c'"
  shows "framed_when p A B op"
  using assms unfolding framed_when_def by auto

lemma framed_whenD:
  assumes "framed_when p A B op" "fd_store w p = Some f" "A c"
  obtains r c' w' where "op (c, w) = Some (r, c', w')" "conn_frame c c'" "os_frame p w w'" "B r c'"
  using assms unfolding framed_when_def by (metis option.distinct(1))

lemma framed_when_any: "framed p op \<Longrightarrow> (\<And>r c. B r c) \<Longrightarrow> framed_when p A B op"
  by (simp add: framed_def framed_when_def)

lemma set_sock_opts_frame:
  "fd_store w p = Some f \<Longrightarrow> set_sock_opts env fd opts w = (ok, w') \<Longrightarrow> os_frame p w w' \<and> fd_store w' p = Some f"
proof (induction env fd opts w rule: set_sock_opts.induct)
  case (2 env fd opt v opts w)
  obtain r w1 where r: "on_os (sys_setsockopt env fd opt v) w = (r, w1)" by (cases "on_os (sys_setsockopt env fd opt v) w")
  note f = on_os_frame[OF "2.prems"(1) r]
  show ?case
  proof (cases "r = -1")
    case False
    then show ?thesis using "2.IH"[OF r[symmetric] False conjunct2[OF f]] f "2.prems"(2) r os_frame_trans[of p w w1 w'] by simp
  qed (use f "2.prems"(2) r in auto)
qed (auto simp: os_frame_refl)

lemma set_nonblock_frame:
  assumes "fd_store w p = Some f" "set_nonblock env fd w = (ok, w')"
  shows "os_frame p w w' \<and> fd_store w' p = Some f"
proof -
  obtain r w1 where r: "on_os (sys_fcntl_getfl env fd) w = (r, w1)" by (cases "on_os (sys_fcntl_getfl env fd) w")
  obtain r2 w2 where r2: "on_os (sys_fcntl_setfl env fd (r OR O_NONBLOCK)) w1 = (r2, w2)"
    by (cases "on_os (sys_fcntl_setfl env fd (r OR O_NONBLOCK)) w1")
  note f = on_os_frame[OF assms(1) r]
  note f2 = on_os_frame[OF conjunct2[OF f] r2]
  show ?thesis
    using f f2 assms(2) r r2 os_frame_trans[of p w w1 w2] by (auto simp: set_nonblock_def split: if_splits)
qed

lemma tcp_ncsetup_framed:
  fixes env :: "'o sys_env"
  shows "framed p (tcp_ncsetup env p :: ('a, 'c, 'o, 'm) tcp_op)"
proof (rule framedI)
  fix c :: "'a nconn_tcp_scheme" and w :: "('c, 'o, 'm) evr_world_scheme" and f
  assume f: "fd_store w p = Some f"
  let ?h = "nc_host_info c"
  obtain fd w1 where s: "on_os (sys_socket env (hi_sock_family ?h) (hi_sock_type ?h OR SOCK_CLOEXEC) (hi_sock_protocol ?h)) w = (fd, w1)"
    by (cases "on_os (sys_socket env (hi_sock_family ?h) (hi_sock_type ?h OR SOCK_CLOEXEC) (hi_sock_protocol ?h)) w")
  note f1 = on_os_frame[OF f s]
  obtain ok2 w2 where s2: "set_sock_opts env fd (setup_opts c) w1 = (ok2, w2)" by (cases "set_sock_opts env fd (setup_opts c) w1")
  note f2 = set_sock_opts_frame[OF conjunct2[OF f1] s2]
  obtain ok3 w3 where s3: "set_nonblock env fd w2 = (ok3, w3)" by (cases "set_nonblock env fd w2")
  note f3 = set_nonblock_frame[OF conjunct2[OF f2] s3]
  obtain ok4 w4 where s4: "evr_reg (reactor_add env) fd
      (EVR_FILE_ATTR_MASK_READ OR EVR_FILE_ATTR_MASK_RD_HUP OR EVR_FILE_ATTR_MASK_ET) p (c\<lparr>m_fd := fd\<rparr>, w3) = Some (ok4, c\<lparr>m_fd := fd\<rparr>, w4)"
    "os_frame p w3 w4"
    using evr_reg_frame[OF conjunct2[OF f3]] by blast
  have "os_frame p w w1" "os_frame p w w2" "os_frame p w w3" "os_frame p w w4"
    using f1 f2 f3 s4(2) os_frame_trans by blast+
  then show "\<exists>r c' w'. tcp_ncsetup env p (c, w) = Some (r, c', w') \<and> conn_frame c c' \<and> os_frame p w w'"
    using s s2 s3 s4(1) by (simp add: tcp_ncsetup_def conn_frame_def conn_error_def Let_def)
qed

lemma connect_reg_framed:
  fixes env :: "'o sys_env"
  shows "framed p (connect_reg env p :: ('a, 'c, 'o, 'm) tcp_op)"
proof (rule framedI)
  fix c :: "'a nconn_tcp_scheme" and w :: "('c, 'o, 'm) evr_world_scheme" and f
  assume f: "fd_store w p = Some f"
  show "\<exists>r c' w'. connect_reg env p (c, w) = Some (r, c', w') \<and> conn_frame c c' \<and> os_frame p w w'"
    using evr_reg_frame[OF f, of "reactor_mod env" "m_fd c" MASK_RW_ALL c]
    by (auto simp: connect_reg_def conn_frame_def conn_error_def)
qed

definition connect_call ::
  "'o sys_env \<Rightarrow> 'a nconn_tcp_scheme \<Rightarrow> ('c, 'o, 'm) evr_world_scheme \<Rightarrow> (int \<times> errno) \<times> ('c, 'o, 'm) evr_world_scheme" where
  "connect_call env c w = on_os (\<lambda>os. case sys_connect env (m_fd c) (hi_sa (nc_host_info c)) (hi_sa_len (nc_host_info c)) os of
      (r, e, os1) \<Rightarrow> ((r, e), os1)) w"

lemma connect_try_round:
  assumes "connect_call env c w = ((r, e), w1)"
  shows "connect_try env n p (c, w) =
    (if \<not> r < 0 \<or> e = EISCONN then connect_reg env p (c\<lparr>m_tcp_state := TCP_STATE_CONNECTED\<rparr>, w1)
     else if e = EAGAIN \<or> e = EINPROGRESS then connect_reg env p (c, w1)
     else if e = EADDRNOTAVAIL \<and> n \<noteq> 0 then connect_try env (n - 1) p (c, snd (on_os (\<lambda>os. ((), sys_usleep env 1000 os)) w1))
     else Some (NC_STATUS_ERROR, if e = ECONNREFUSED then c else conn_error CONN_STATUS_ERROR_INTERNAL c,
            if e = EINVAL then snd (on_os (sys_getsockopt_error env (m_fd c)) w1) else w1))"
  using assms by (cases e; cases n) (simp_all add: connect_call_def connect_try.simps on_os_def split: prod.splits)

lemma connect_try_framed:
  fixes env :: "'o sys_env"
  shows "framed p (connect_try env n p :: ('a, 'c, 'o, 'm) tcp_op)"
proof (induction n)
  have round: "\<exists>r c' w'. connect_try env n p (c, w) = Some (r, c', w') \<and> conn_frame c c' \<and> os_frame p w w'"
    if f: "fd_store w p = Some f" and again: "n \<noteq> 0 \<Longrightarrow> framed p (connect_try env (n - 1) p :: ('a, 'c, 'o, 'm) tcp_op)"
    for n f and c :: "'a nconn_tcp_scheme" and w :: "('c, 'o, 'm) evr_world_scheme"
  proof -
    obtain r e w1 where r: "connect_call env c w = ((r, e), w1)" by (metis surj_pair)
    note f1 = on_os_frame[OF f r[unfolded connect_call_def]]
    have reg: "\<exists>r c' w'. connect_reg env p (c1, w1) = Some (r, c', w') \<and> conn_frame c c' \<and> os_frame p w w'"
      if "conn_frame c c1" for c1
      using framedD[OF connect_reg_framed conjunct2[OF f1]] f1 that os_frame_trans conn_frame_trans by metis
    obtain u w2 where s: "on_os (\<lambda>os. ((), sys_usleep env 1000 os)) w1 = (u, w2)" by (metis surj_pair)
    note f2 = on_os_frame[OF conjunct2[OF f1] s]
    have retry: "\<exists>r c' w'. connect_try env (n - 1) p (c, w2) = Some (r, c', w') \<and> conn_frame c c' \<and> os_frame p w w'"
      if "n \<noteq> 0"
      using framedD[OF again[OF that] conjunct2[OF f2]] f1 f2 os_frame_trans by metis
    obtain x w3 where g: "on_os (sys_getsockopt_error env (m_fd c)) w1 = (x, w3)" by (metis surj_pair)
    note f3 = on_os_frame[OF conjunct2[OF f1] g]
    have "os_frame p w w3" using f1 f3 os_frame_trans by blast
    then show ?thesis
      unfolding connect_try_round[OF r] s g snd_conv
      using reg[of "c\<lparr>m_tcp_state := TCP_STATE_CONNECTED\<rparr>"] reg[of c] retry f1
      by (simp add: conn_frame_def conn_error_def)
  qed
  { case 0 show ?case by (rule framedI) (rule round, simp_all) }
  { case (Suc n) then show ?case by (intro framedI) (rule round, simp_all) }
qed

lemma tcp_ncconnect_framed:
  fixes env :: "'o sys_env"
  shows "framed p (tcp_ncconnect env p :: ('a, 'c, 'o, 'm) tcp_op)"
proof (rule framedI)
  fix c :: "'a nconn_tcp_scheme" and w :: "('c, 'o, 'm) evr_world_scheme" and f
  assume f: "fd_store w p = Some f"
  show "\<exists>r c' w'. tcp_ncconnect env p (c, w) = Some (r, c', w') \<and> conn_frame c c' \<and> os_frame p w w'"
    unfolding tcp_ncconnect_def prod.case
    by (rule framedD[OF connect_try_framed f, of env 1023 "c\<lparr>m_tcp_state := TCP_STATE_CONNECTING\<rparr>"])
      (auto simp: conn_frame_def)
qed

lemma tcp_teardown_frame:
  fixes env :: "'o sys_env" and w :: "('c, 'o, 'm) evr_world_scheme"
  assumes f: "fd_store w p = Some f"
  shows "os_frame p w (tcp_teardown env c w) \<and> fd_store (tcp_teardown env c w) p = Some f"
proof -
  have os: "os_frame p w (snd (on_os g w1)) \<and> fd_store (snd (on_os g w1)) p = Some f"
    if "os_frame p w w1 \<and> fd_store w1 p = Some f" for g :: "'o \<Rightarrow> int \<times> 'o" and w1 :: "('c, 'o, 'm) evr_world_scheme"
    using on_os_frame[of w1 p f g] that os_frame_trans by (cases "on_os g w1") auto
  show ?thesis
    using os_frame_refl[OF f] f by (auto simp: tcp_teardown_def Let_def intro!: os[THEN conjunct1] os[THEN conjunct2])
qed

lemma tcp_nccleanup_framed:
  fixes env :: "'o sys_env"
  shows "framed p (tcp_nccleanup env p :: ('a, 'c, 'o, 'm) tcp_op)"
proof (rule framedI)
  fix c :: "'a nconn_tcp_scheme" and w :: "('c, 'o, 'm) evr_world_scheme" and f
  assume f: "fd_store w p = Some f"
  define w1 where "w1 = tcp_teardown env c w"
  have f1: "os_frame p w w1" "fd_store w1 p = Some f" using tcp_teardown_frame[OF f, of env c] by (simp_all add: w1_def)
  have "tcp_nccleanup env p (c, w) = Some (NC_STATUS_OK,
      c\<lparr>m_fd := -1, nc_evr_loop := False, m_tcp_state := TCP_STATE_NONE, nc_num_reqs := 0\<rparr>,
      w1\<lparr>fd_store := (fd_store w1)(p \<mapsto> f\<lparr>fd_magic := 0\<rparr>)\<rparr>)"
    using f1 by (simp add: tcp_nccleanup_def w1_def Let_def)
  moreover have "os_frame p w1 (w1\<lparr>fd_store := (fd_store w1)(p \<mapsto> f\<lparr>fd_magic := 0\<rparr>)\<rparr>)"
    using os_frame_fd[OF f1(2), of "f\<lparr>fd_magic := 0\<rparr>" "w_os w1"] by simp
  ultimately show "\<exists>r c' w'. tcp_nccleanup env p (c, w) = Some (r, c', w') \<and> conn_frame c c' \<and> os_frame p w w'"
    using f1(1) os_frame_trans by (auto simp: conn_frame_def)
qed

section \<open>The socket as a transport\<close>

text \<open>
  What the kernel promises for a socket, \<open>rx fd\<close> the number of bytes still to be received on
  it: \<^verbatim>\<open>recv(2)\<close> stores as many bytes as it says, at most as many as asked for, and takes
  them from these; \<^verbatim>\<open>send(2)\<close> accepts a part of a buffer that is not empty, or fails; the
  reactor receives nothing.
\<close>

locale tcp_io =
  fixes env :: "'o sys_env" and rx :: "int \<Rightarrow> 'o \<Rightarrow> nat"
  assumes recv: "sys_recvfrom env fd len os = (r, e, bs, os') \<Longrightarrow>
      (if 0 < r then length bs = nat r \<and> nat r \<le> len \<and> rx fd os' + nat r = rx fd os else rx fd os' = rx fd os)"
    and send: "sys_send env fd buf os = (r, e, os') \<Longrightarrow>
      rx fd os' = rx fd os \<and> nat r \<le> length buf \<and> (buf \<noteq> [] \<longrightarrow> r \<noteq> 0)"
    and reactor: "reactor_mod env fd msk q os = (st, os') \<Longrightarrow> rx fd os' = rx fd os"
begin

text \<open>The states of the connection at \<open>p\<close> on the descriptor \<open>fd\<close>, in the frames of a start \<open>c0\<close>, \<open>w0\<close>.\<close>

definition up ::
  "nat \<Rightarrow> int \<Rightarrow> 'a nconn_tcp_scheme \<Rightarrow> ('c, 'o, 'm) evr_world_scheme \<Rightarrow> 'a nconn_tcp_scheme \<times> ('c, 'o, 'm) evr_world_scheme \<Rightarrow> bool" where
  "up p fd c0 w0 s \<longleftrightarrow> m_fd (fst s) = fd \<and> conn_frame c0 (fst s) \<and> os_frame p w0 (snd s)"

lemma ncread_io:
  assumes "up p fd c0 w0 (c, w)"
  shows "\<exists>r e bs os r'. sys_recvfrom env fd len (w_os w) = (r, e, bs, os) \<and>
    tcp_ncread env p len (c, w) = Some (r', bs, c, w\<lparr>w_os := os\<rparr>) \<and> up p fd c0 w0 (c, w\<lparr>w_os := os\<rparr>) \<and>
    r' \<noteq> NC_STATUS_OK \<and> (if 0 < r then r' = r else r' < 0)"
proof -
  obtain f where f: "fd_store w p = Some f" using assms os_frame_alloc by (force simp: up_def)
  obtain r e bs os where k: "sys_recvfrom env fd len (w_os w) = (r, e, bs, os)" by (metis prod_cases4)
  have "os_frame p w0 (w\<lparr>w_os := os\<rparr>)"
    using assms os_frame_trans[OF _ os_frame_os[OF f]] by (simp add: up_def)
  then have "up p fd c0 w0 (c, w\<lparr>w_os := os\<rparr>)" using assms by (simp add: up_def)
  moreover define r' where "r' = (if r > 0 then r else if r = 0 then NC_STATUS_EOF
      else if e = EAGAIN then NC_STATUS_AGAIN else NC_STATUS_ERROR)"
  have "tcp_ncread env p len (c, w) = Some (r', bs, c, w\<lparr>w_os := os\<rparr>)"
    using k assms by (simp add: tcp_ncread_def on_os_def up_def r'_def)
  moreover have "r' \<noteq> NC_STATUS_OK \<and> (if 0 < r then r' = r else r' < 0)"
    by (simp add: r'_def nc_status_defs)
  ultimately show ?thesis using k by blast
qed

lemma ncwrite_io:
  assumes "up p fd c0 w0 (c, w)"
  shows "\<exists>r e os r' c' w'. sys_send env fd buf (w_os w) = (r, e, os) \<and>
    tcp_ncwrite env p buf (c, w) = Some (r', c', w') \<and> up p fd c0 w0 (c', w') \<and> (if r < 0 then r' < 0 else r' = r) \<and>
    (w_os w' = os \<or> (\<exists>st. reactor_mod env fd MASK_WRITE_ALL (Some p) os = (st, w_os w')))"
proof -
  obtain f where f: "fd_store w p = Some f" using assms os_frame_alloc by (force simp: up_def)
  obtain r e os where k: "sys_send env fd buf (w_os w) = (r, e, os)" by (metis prod_cases3)
  define w1 where "w1 = w\<lparr>w_os := os\<rparr>"
  have fr: "os_frame p w0 w1" using assms os_frame_trans[OF _ os_frame_os[OF f]] by (simp add: up_def w1_def)
  obtain f1 where f1: "fd_store w1 p = Some f1" using os_frame_alloc[OF fr] by blast
  obtain ok w2 where reg: "evr_reg (reactor_mod env) fd MASK_WRITE_ALL p (c, w1) = Some (ok, c, w2)" "os_frame p w1 w2"
    using evr_reg_frame[OF f1] by blast
  have fr2: "os_frame p w0 w2" by (rule os_frame_trans[OF fr reg(2)])
  have os2: "w_os w2 = os \<or> (\<exists>st. reactor_mod env fd MASK_WRITE_ALL (Some p) os = (st, w_os w2))"
  proof (cases "nc_evr_loop c")
    case True
    obtain st os2 where "reactor_mod env fd MASK_WRITE_ALL (Some p) os = (st, os2)" by fastforce
    then show ?thesis using reg(1) True f1 by (auto simp: evr_reg_def add_fd_def set_attr_mask_def w1_def)
  next
    case False
    then have "w2 = w1" using reg(1) by (simp add: evr_reg_def)
    then show ?thesis by (simp add: w1_def)
  qed
  have fd: "m_fd c = fd" "conn_frame c0 c" using assms by (simp_all add: up_def)
  have cf: "conn_frame c0 (conn_error st c)" for st using fd(2) by (simp add: conn_frame_def conn_error_def)
  have op: "tcp_ncwrite env p buf (c, w) =
      (if \<not> r < 0 then Some (r, c, w1)
       else if e = EAGAIN
       then Some (if ok then (NC_STATUS_AGAIN, c, w2) else (NC_STATUS_ERROR, conn_error CONN_STATUS_ERROR_INTERNAL c, w2))
       else Some (NC_STATUS_ERROR, conn_error CONN_STATUS_ERROR_INTERNAL c, w1))"
    using k reg(1) by (simp add: tcp_ncwrite_def on_os_def fd(1) w1_def[symmetric])
  have up: "up p fd c0 w0 (c, w1)" "up p fd c0 w0 (c, w2)" "up p fd c0 w0 (conn_error st c, w1)" "up p fd c0 w0 (conn_error st c, w2)" for st
    using fd fr fr2 cf by (simp_all add: up_def conn_error_def)
  have "w_os w1 = os" by (simp add: w1_def)
  then show ?thesis
    using k op up os2 by (cases "r < 0"; cases "e = EAGAIN"; cases ok) (auto simp: nc_status_defs)
qed

end

sublocale tcp_io \<subseteq> io: nc_io "tcp_virt env" p "up p fd c0 w0" "\<lambda>s. rx fd (w_os (snd s))" for p fd c0 w0
proof (rule nc_ioI, goal_cases)
  case (1 s len)
  obtain c w where s: "s = (c, w)" by (cases s)
  from ncread_io[of p fd c0 w0 c w len] 1 s obtain r e bs os r' where
    k: "sys_recvfrom env fd len (w_os w) = (r, e, bs, os)" "tcp_ncread env p len (c, w) = Some (r', bs, c, w\<lparr>w_os := os\<rparr>)"
    "up p fd c0 w0 (c, w\<lparr>w_os := os\<rparr>)" "r' \<noteq> NC_STATUS_OK" "if 0 < r then r' = r else r' < 0" by auto
  show ?case
    using k recv[OF k(1)] s by (cases "0 < r") (auto simp: tcp_virt_def)
next
  case (2 s buf)
  obtain c w where s: "s = (c, w)" by (cases s)
  from ncwrite_io[of p fd c0 w0 c w buf] 2 s obtain r e os r' c' w' where
    k: "sys_send env fd buf (w_os w) = (r, e, os)" "tcp_ncwrite env p buf (c, w) = Some (r', c', w')"
    "up p fd c0 w0 (c', w')" "if r < 0 then r' < 0 else r' = r"
    "w_os w' = os \<or> (\<exists>st. reactor_mod env fd MASK_WRITE_ALL (Some p) os = (st, w_os w'))" by blast
  have "rx fd (w_os w') = rx fd os" using k(5) reactor by auto
  then show ?case
    using k send[OF k(1)] s by (cases "r < 0") (auto simp: tcp_virt_def)
qed

context tcp_io
begin

lemma io_up:
  "nc_io (tcp_virt env) p (\<lambda>s. m_fd (fst s) = fd \<and> conn_frame c0 (fst s) \<and> os_frame p w0 (snd s))
     (\<lambda>s. rx fd (w_os (snd s)))"
  using io.nc_io_axioms[of p fd c0 w0] by (simp add: up_def[abs_def])

end

text \<open>
  The same with the bytes: \<open>rxq fd\<close> are those still to be received on a socket and \<open>txq fd\<close>
  those it has accepted.
\<close>

locale tcp_kernel = tcp_io env "\<lambda>fd os. length (rxq fd os)"
  for env :: "'o sys_env" and rxq :: "int \<Rightarrow> 'o \<Rightarrow> byte list" +
  fixes txq :: "int \<Rightarrow> 'o \<Rightarrow> byte list"
  assumes recv_bytes: "sys_recvfrom env fd len os = (r, e, bs, os') \<Longrightarrow>
      txq fd os' = txq fd os \<and> rxq fd os = (if 0 < r then bs else []) @ rxq fd os'"
    and send_bytes: "sys_send env fd buf os = (r, e, os') \<Longrightarrow> rxq fd os' = rxq fd os \<and> txq fd os' = txq fd os @ take (nat r) buf"
    and reactor_bytes: "reactor_mod env fd msk q os = (st, os') \<Longrightarrow> rxq fd os' = rxq fd os \<and> txq fd os' = txq fd os"

sublocale tcp_kernel \<subseteq> tcp: nc_stream "tcp_virt env" p "up p fd c0 w0"
    "\<lambda>s. rxq fd (w_os (snd s))" "\<lambda>s. txq fd (w_os (snd s))" for p fd c0 w0
proof (unfold_locales, goal_cases)
  case (1 s len r bs s')
  obtain c w where s: "s = (c, w)" by (cases s)
  from ncread_io[of p fd c0 w0 c w len] 1 s obtain r0 e bs0 os r' where
    k: "sys_recvfrom env fd len (w_os w) = (r0, e, bs0, os)" "tcp_ncread env p len (c, w) = Some (r', bs0, c, w\<lparr>w_os := os\<rparr>)"
    "if 0 < r0 then r' = r0 else r' < 0" by auto
  show ?case
    using k 1 recv_bytes[OF k(1)] s by (cases "0 < r0") (auto simp: tcp_virt_def)
next
  case (2 s buf r s')
  obtain c w where s: "s = (c, w)" by (cases s)
  from ncwrite_io[of p fd c0 w0 c w buf] 2 s obtain r0 e os r' c' w' where
    k: "sys_send env fd buf (w_os w) = (r0, e, os)" "tcp_ncwrite env p buf (c, w) = Some (r', c', w')"
    "if r0 < 0 then r' < 0 else r' = r0"
    "w_os w' = os \<or> (\<exists>st. reactor_mod env fd MASK_WRITE_ALL (Some p) os = (st, w_os w'))" by blast
  have "rxq fd (w_os w') = rxq fd os" "txq fd (w_os w') = txq fd os" using k(4) reactor_bytes by auto
  then show ?case
    using k 2 send_bytes[OF k(1)] s by (cases "r0 < 0") (auto simp: tcp_virt_def)
qed

text \<open>Any order of reads to an input queue and writes from an output queue.\<close>

datatype io = Io_Read | Io_Write

fun io_run :: "('n, 'w) nc_virt \<Rightarrow> nat \<Rightarrow> io list \<Rightarrow> nbq \<times> nbq \<times> 'n \<times> 'w \<Rightarrow> (nbq \<times> nbq \<times> 'n \<times> 'w) option" where
  "io_run vt p [] st = Some st"
| "io_run vt p (Io_Read # ops) (iq, oq, s) =
     do { (_, _, iq1, s1) \<leftarrow> nc_read vt p (Some iq) s; io_run vt p ops (the iq1, oq, s1) }"
| "io_run vt p (Io_Write # ops) (iq, oq, s) =
     do { (_, _, oq1, s1) \<leftarrow> nc_write vt p (Some oq) s; io_run vt p ops (iq, the oq1, s1) }"

context nc_stream
begin

lemma io_run_stream:
  assumes "I s" "nbq_inv iq" "m_cur_write_offset iq + length (rx s) < 2 ^ 64" "rd_inv oq"
  shows "\<exists>iq' oq' s'. io_run vt p ops (iq, oq, s) = Some (iq', oq', s') \<and> I s' \<and> nbq_inv iq' \<and> rd_inv oq' \<and>
    unread iq' @ rx s' = unread iq @ rx s \<and> tx s' @ unread oq' = tx s @ unread oq"
  using assms
proof (induction ops arbitrary: s iq oq)
  case (Cons op ops)
  show ?case
  proof (cases op)
    case Io_Read
    obtain st bs iq1 s1 where r: "nc_read vt p (Some iq) s = Some (st, bs, Some iq1, s1)" "I s1" "tx s1 = tx s"
      "write_post iq bs iq1" "rx s = bs @ rx s1"
      using nc_read_spec[OF Cons.prems(1,2,3)] by blast
    have "nbq_inv iq1" "m_cur_write_offset iq1 + length (rx s1) < 2 ^ 64" "unread iq1 = unread iq @ bs"
      using r(4,5) Cons.prems(3) by (simp_all add: write_post_def)
    then show ?thesis
      using Cons.IH[OF r(2) _ _ Cons.prems(4), of iq1] r(1,3,5) Io_Read by simp
  next
    case Io_Write
    obtain st n oq1 s1 where r: "nc_write vt p (Some oq) s = Some (st, n, Some oq1, s1)" "I s1" "rx s1 = rx s"
      "tx s1 = tx s @ take n (unread oq)" "read_post oq n oq1"
      using nc_write_spec[OF Cons.prems(1,4)] by blast
    have "rd_inv oq1" "tx s1 @ unread oq1 = tx s @ unread oq"
      using r(4,5) by (simp_all add: read_post_def)
    then show ?thesis
      using Cons.IH[OF r(2) Cons.prems(2), of oq1] Cons.prems(3) r(1,3) Io_Write by simp
  qed
qed simp

end

context tcp_kernel
begin

lemma tcp_io_run:
  assumes "fd_store w p \<noteq> None" "nbq_inv iq" "rd_inv oq"
    "m_cur_write_offset iq + length (rxq (m_fd c) (w_os w)) < 2 ^ 64"
  shows "\<exists>iq' oq' c' w'. io_run (tcp_virt env) p ops (iq, oq, c, w) = Some (iq', oq', c', w') \<and>
    nbq_inv iq' \<and> rd_inv oq' \<and>
    unread iq' @ rxq (m_fd c) (w_os w') = unread iq @ rxq (m_fd c) (w_os w) \<and>
    txq (m_fd c) (w_os w') @ unread oq' = txq (m_fd c) (w_os w) @ unread oq"
proof -
  have "up p (m_fd c) c w (c, w)" using assms(1) os_frame_refl by (auto simp: up_def)
  from tcp.io_run_stream[OF this] assms show ?thesis by fastforce
qed

end

section \<open>Connecting\<close>

text \<open>
  The answers of the operating system to successive calls of \<^verbatim>\<open>connect(2)\<close>, a millisecond
  of sleep between them: the state before the call after \<open>j\<close> others, and its answer.
\<close>

definition connect_answer :: "'o sys_env \<Rightarrow> 'a nconn_tcp_scheme \<Rightarrow> 'o \<Rightarrow> (int \<times> errno) \<times> 'o" where
  "connect_answer env c os =
     (case sys_connect env (m_fd c) (hi_sa (nc_host_info c)) (hi_sa_len (nc_host_info c)) os of (r, e, os1) \<Rightarrow> ((r, e), os1))"

primrec connect_os :: "'o sys_env \<Rightarrow> 'a nconn_tcp_scheme \<Rightarrow> nat \<Rightarrow> 'o \<Rightarrow> 'o" where
  "connect_os env c 0 os = os"
| "connect_os env c (Suc j) os = connect_os env c j (sys_usleep env 1000 (snd (connect_answer env c os)))"

definition no_address :: "int \<times> errno \<Rightarrow> bool" where
  "no_address a \<longleftrightarrow> fst a < 0 \<and> snd a = EADDRNOTAVAIL"

text \<open>
  What the last answer \<open>a\<close>, that left the operating system at \<open>os1\<close>, makes of the connection:
  status, connection and world.
\<close>

definition connect_outcome ::
  "'o sys_env \<Rightarrow> nat \<Rightarrow> 'a nconn_tcp_scheme \<Rightarrow> ('c, 'o, 'm) evr_world_scheme \<Rightarrow> (int \<times> errno) \<times> 'o \<Rightarrow>
     int \<times> 'a nconn_tcp_scheme \<times> ('c, 'o, 'm) evr_world_scheme \<Rightarrow> bool" where
  "connect_outcome env p c w a res \<longleftrightarrow> (case (a, res) of (((r, e), os1), (st, c', w')) \<Rightarrow>
     m_tcp_state c' = (if r < 0 \<and> e \<noteq> EISCONN then TCP_STATE_CONNECTING else TCP_STATE_CONNECTED) \<and>
     (if \<not> r < 0 \<or> e \<in> {EISCONN, EAGAIN, EINPROGRESS}
      then (if nc_evr_loop c
            then (case reactor_mod env (m_fd c) MASK_RW_ALL (Some p) os1 of (rc, os2) \<Rightarrow>
                st = (if rc = 0 then NC_STATUS_OK else NC_STATUS_ERROR) \<and> w_os w' = os2 \<and>
                map_option fd_attr_mask (fd_store w' p) = Some MASK_RW_ALL)
            else st = NC_STATUS_OK \<and> w' = w\<lparr>w_os := os1\<rparr>)
      else st = NC_STATUS_ERROR \<and>
        nc_conn_status c' = (if e = ECONNREFUSED then nc_conn_status c else CONN_STATUS_ERROR_INTERNAL) \<and>
        w' = w\<lparr>w_os := (if e = EINVAL then snd (sys_getsockopt_error env (m_fd c) os1) else os1)\<rparr>))"

lemma connect_call_answer: "connect_call env c w = (fst (connect_answer env c (w_os w)), w\<lparr>w_os := snd (connect_answer env c (w_os w))\<rparr>)"
  by (simp add: connect_call_def on_os_def connect_answer_def split: prod.splits)

lemma connect_reg_outcome:
  assumes "fd_store w p = Some f" "\<not> r < 0 \<or> e \<in> {EISCONN, EAGAIN, EINPROGRESS}"
    "m_tcp_state c' = (if r < 0 \<and> e \<noteq> EISCONN then TCP_STATE_CONNECTING else TCP_STATE_CONNECTED)"
    "m_fd c' = m_fd c" "nc_evr_loop c' = nc_evr_loop c"
  shows "\<exists>res. connect_reg env p (c', w\<lparr>w_os := os1\<rparr>) = Some res \<and> connect_outcome env p c w ((r, e), os1) res"
proof (cases "nc_evr_loop c")
  case True
  obtain st os where m: "reactor_mod env (m_fd c) MASK_RW_ALL (Some p) os1 = (st, os)"
    by (cases "reactor_mod env (m_fd c) MASK_RW_ALL (Some p) os1")
  then show ?thesis
    using True assms
    by (auto simp: connect_reg_def evr_reg_def add_fd_def set_attr_mask_def conn_error_def connect_outcome_def)
next
  case False
  then show ?thesis using assms by (simp add: connect_reg_def evr_reg_def connect_outcome_def)
qed

lemma connect_try_last:
  assumes "fd_store w p = Some f" "m_tcp_state c = TCP_STATE_CONNECTING" "n = 0 \<or> \<not> no_address (fst (connect_answer env c (w_os w)))"
  shows "\<exists>res. connect_try env n p (c, w) = Some res \<and> connect_outcome env p c w (connect_answer env c (w_os w)) res"
proof -
  obtain r e os1 where a: "connect_answer env c (w_os w) = ((r, e), os1)" by (metis surj_pair)
  note round = connect_try_round[OF connect_call_answer[of env c w, unfolded a fst_conv snd_conv], of n p]
  have again: "\<not> (r < 0 \<and> e = EADDRNOTAVAIL \<and> n \<noteq> 0)" using assms(3) by (auto simp: a no_address_def)
  consider (connected) "\<not> r < 0 \<or> e = EISCONN" | (wait) "r < 0" "e = EAGAIN \<or> e = EINPROGRESS"
    | (fail) "r < 0" "e \<noteq> EISCONN" "e \<noteq> EAGAIN" "e \<noteq> EINPROGRESS" "\<not> (e = EADDRNOTAVAIL \<and> n \<noteq> 0)"
    using again by blast
  then show ?thesis
  proof cases
    case connected
    then show ?thesis
      using round connect_reg_outcome[OF assms(1), of r e "c\<lparr>m_tcp_state := TCP_STATE_CONNECTED\<rparr>" c env os1] a by auto
  next
    case wait
    then have "\<not> (\<not> r < 0 \<or> e = EISCONN)" by auto
    then show ?thesis
      using round wait connect_reg_outcome[OF assms(1), of r e c c env os1] assms(2) a by auto
  next
    case fail
    then show ?thesis
      using round assms(2) a by (auto simp: connect_outcome_def conn_error_def on_os_def split: prod.splits)
  qed
qed

lemma connect_try_outcome:
  assumes "fd_store w p = Some f" "m_tcp_state c = TCP_STATE_CONNECTING"
  shows "\<exists>k \<le> n. (\<forall>j < k. no_address (fst (connect_answer env c (connect_os env c j (w_os w))))) \<and>
    (k < n \<longrightarrow> \<not> no_address (fst (connect_answer env c (connect_os env c k (w_os w))))) \<and>
    (\<exists>res. connect_try env n p (c, w) = Some res \<and>
       connect_outcome env p c w (connect_answer env c (connect_os env c k (w_os w))) res)"
  using assms(1)
proof (induction n arbitrary: w)
  case 0
  then show ?case using connect_try_last[OF 0 assms(2), of 0 env] by simp
next
  case (Suc n)
  show ?case
  proof (cases "no_address (fst (connect_answer env c (w_os w)))")
    case False
    then show ?thesis
      using connect_try_last[OF Suc.prems assms(2), of "Suc n" env] by (intro exI[of _ 0]) simp
  next
    case True
    obtain r e os1 where a: "connect_answer env c (w_os w) = ((r, e), os1)" by (metis surj_pair)
    define w1 where "w1 = w\<lparr>w_os := sys_usleep env 1000 os1\<rparr>"
    have e: "r < 0" "e = EADDRNOTAVAIL" using True a by (simp_all add: no_address_def)
    have step: "connect_try env (Suc n) p (c, w) = connect_try env n p (c, w1)"
      using connect_try_round[OF connect_call_answer[of env c w, unfolded a fst_conv snd_conv], of "Suc n" p] e
      by (simp add: on_os_def w1_def)
    have os: "connect_os env c (Suc j) (w_os w) = connect_os env c j (w_os w1)" for j by (simp add: a w1_def)
    have out: "connect_outcome env p c w1 x res = connect_outcome env p c w x res" for x res
      by (simp add: connect_outcome_def w1_def split: prod.splits)
    obtain k where k: "k \<le> n" "\<forall>j < k. no_address (fst (connect_answer env c (connect_os env c j (w_os w1))))"
      "k < n \<longrightarrow> \<not> no_address (fst (connect_answer env c (connect_os env c k (w_os w1))))"
      "\<exists>res. connect_try env n p (c, w1) = Some res \<and>
       connect_outcome env p c w1 (connect_answer env c (connect_os env c k (w_os w1))) res"
      using Suc.IH[of w1] Suc.prems by (auto simp: w1_def)
    have "no_address (fst (connect_answer env c (connect_os env c j (w_os w))))" if "j < Suc k" for j
      using that k(2) True os by (cases j) (simp_all del: connect_os.simps(2))
    then show ?thesis
      using k(1,3,4) unfolding step out os[symmetric] by (intro exI[of _ "Suc k"]) simp
  qed
qed

lemma connect_state_irrelevant:
  "connect_answer env (c\<lparr>m_tcp_state := t\<rparr>) = connect_answer env c"
  "connect_os env (c\<lparr>m_tcp_state := t\<rparr>) j os = connect_os env c j os"
  "connect_outcome env p (c\<lparr>m_tcp_state := t\<rparr>) w a res = connect_outcome env p c w a res"
proof -
  show a: "connect_answer env (c\<lparr>m_tcp_state := t\<rparr>) = connect_answer env c" by (simp add: connect_answer_def fun_eq_iff)
  show "connect_os env (c\<lparr>m_tcp_state := t\<rparr>) j os = connect_os env c j os" by (induction j arbitrary: os) (simp_all add: a)
  show "connect_outcome env p (c\<lparr>m_tcp_state := t\<rparr>) w a res = connect_outcome env p c w a res" for a res
    by (simp add: connect_outcome_def)
qed

section \<open>Properties\<close>

text \<open>
  C19: Whatever the order of reads and writes of a TCP connection, and however short the reads
  and writes of the kernel are, no byte is lost, duplicated or reordered between the queues
  and the socket: what the peer has been sent followed by what the output queue still holds,
  and what the input queue holds followed by what is still to be received, do not change.  No
  operation is undefined.
\<close>

theorem tcp_stream_fidelity:
  assumes "tcp_kernel env rxq txq" "fd_store w p \<noteq> None" "nbq_inv iq" "rd_inv oq"
    "m_cur_write_offset iq + length (rxq (m_fd c) (w_os w)) < 2 ^ 64"
  shows "\<exists>iq' oq' c' w'. io_run (tcp_virt env) p ops (iq, oq, c, w) = Some (iq', oq', c', w') \<and>
    nbq_inv iq' \<and> rd_inv oq' \<and>
    unread iq' @ rxq (m_fd c) (w_os w') = unread iq @ rxq (m_fd c) (w_os w) \<and>
    txq (m_fd c) (w_os w') @ unread oq' = txq (m_fd c) (w_os w) @ unread oq"
  by (rule tcp_kernel.tcp_io_run[OF assms])

text \<open>
  A socket that hands out at most two bytes a time and accepts one, on a state of the bytes
  to be received, those sent and the number of connects; connecting finds no free address.
\<close>

type_synonym demo_os = "byte list \<times> byte list \<times> nat"

definition demo_env :: "demo_os sys_env" where
  "demo_env = \<lparr>sys_socket = (\<lambda>_ _ _ s. (3, s)), sys_setsockopt = (\<lambda>_ _ _ s. (0, s)), sys_set_linger = (\<lambda>_ _ _ s. (0, s)),
     sys_getsockopt_error = (\<lambda>_ s. (0, s)), sys_fcntl_getfl = (\<lambda>_ s. (0, s)), sys_fcntl_setfl = (\<lambda>_ _ s. (0, s)),
     sys_ioctl_fionbio = (\<lambda>_ s. (0, s)),
     sys_connect = (\<lambda>_ _ _ (rx, tx, n). (-1, EADDRNOTAVAIL, rx, tx, Suc n)), sys_accept4 = (\<lambda>_ _ s. (-1, [], 0, s)),
     sys_recvfrom = (\<lambda>_ len (rx, tx, n). let k = min (min len 2) (length rx) in
        if k = 0 then (-1, EAGAIN, [], rx, tx, n) else (int k, EOTHER 0, take k rx, drop k rx, tx, n)),
     sys_send = (\<lambda>_ buf (rx, tx, n). if buf = [] then (0, EOTHER 0, rx, tx, n) else (1, EOTHER 0, rx, tx @ take 1 buf, n)),
     sys_shutdown = (\<lambda>_ s. (0, s)), sys_close = (\<lambda>_ s. (0, s)), sys_usleep = (\<lambda>_ s. s),
     reactor_add = (\<lambda>_ _ _ s. (0, s)), reactor_mod = (\<lambda>_ _ _ s. (0, s)), reactor_del = (\<lambda>_ s. (0, s)),
     reactor_is_epoll = True\<rparr>"

interpretation demo_kernel: tcp_kernel demo_env "\<lambda>_. fst" "\<lambda>_ s. fst (snd s)"
  by unfold_locales (auto simp: demo_env_def Let_def min_def Suc_le_eq split: prod.splits if_splits)

definition demo_world :: "(nat, demo_os) evr_world" where
  "demo_world = \<lparr>event_pq = [], ev_store = Map.empty, fd_store = [9 \<mapsto> demo_fd 9], next_addr = 10, tick = 0,
     evr_stopped = False, w_os = (''abc'', [], 0)\<rparr>"

theorem tcp_stream_fidelity_witness:
  "\<exists>iq' oq' c' w'. io_run (tcp_virt demo_env) 9 [Io_Read, Io_Write, Io_Write, Io_Read] (nbq_new 4, demo_q, nconn_tcp_new, demo_world) =
      Some (iq', oq', c', w') \<and> nbq_inv iq' \<and> rd_inv oq' \<and>
    unread iq' @ fst (w_os w') = unread (nbq_new 4) @ ''abc'' \<and>
    fst (snd (w_os w')) @ unread oq' = [] @ unread demo_q"
  using tcp_stream_fidelity[OF demo_kernel.tcp_kernel_axioms, where w = demo_world and p = 9 and iq = "nbq_new 4" and oq = demo_q and c = nconn_tcp_new and ops = "[Io_Read, Io_Write, Io_Write, Io_Read]"]
    demo_q_inv
  by (simp add: demo_world_def nbq_inv_rd)

text \<open>
  C31: Connecting ends whatever the kernel answers, after \<open>k + 1 \<le> 1024\<close> calls of
  \<^verbatim>\<open>connect(2)\<close>: every call but the last found no address, the last did not unless it is the
  last allowed, and the status, the state of the connection and its registration are those its
  answer calls for.
\<close>

theorem tcp_connect_ends:
  assumes "fd_store w p \<noteq> None"
  shows "\<exists>k \<le> 1023. (\<forall>j < k. no_address (fst (connect_answer env c (connect_os env c j (w_os w))))) \<and>
    (k < 1023 \<longrightarrow> \<not> no_address (fst (connect_answer env c (connect_os env c k (w_os w))))) \<and>
    (\<exists>res. tcp_ncconnect env p (c, w) = Some res \<and>
       connect_outcome env p c w (connect_answer env c (connect_os env c k (w_os w))) res)"
proof -
  obtain f where "fd_store w p = Some f" using assms by auto
  from connect_try_outcome[OF this, of "c\<lparr>m_tcp_state := TCP_STATE_CONNECTING\<rparr>" 1023 env]
  show ?thesis by (simp add: tcp_ncconnect_def connect_state_irrelevant)
qed

text \<open>A kernel that never finds an address: 1024 calls and an error.\<close>

theorem tcp_connect_ends_witness:
  "\<exists>c' w'. tcp_ncconnect demo_env 9 (nconn_tcp_new\<lparr>nc_evr_loop := True\<rparr>, demo_world) = Some (NC_STATUS_ERROR, c', w') \<and>
     w_os w' = (''abc'', [], 1024)"
proof -
  let ?c = "nconn_tcp_new\<lparr>nc_evr_loop := True\<rparr>"
  have os: "connect_os demo_env ?c j (rx, tx, n) = (rx, tx, n + j)" for j rx tx n
    by (induction j arbitrary: n) (simp_all add: connect_answer_def demo_env_def)
  have ans: "connect_answer demo_env ?c (rx, tx, n) = ((-1, EADDRNOTAVAIL), rx, tx, Suc n)" for rx tx n
    by (simp add: connect_answer_def demo_env_def)
  have w: "w_os demo_world = (''abc'', [], 0)" by (simp add: demo_world_def)
  obtain k res where k: "k \<le> 1023" "k < 1023 \<longrightarrow> \<not> no_address (-1, EADDRNOTAVAIL)"
    and res: "tcp_ncconnect demo_env 9 (?c, demo_world) = Some res"
    "connect_outcome demo_env 9 ?c demo_world ((-1, EADDRNOTAVAIL), ''abc'', [], Suc k) res"
    using tcp_connect_ends[of demo_world 9 demo_env ?c] unfolding w os ans by (auto simp: demo_world_def)
  have "k = 1023" using k by (simp add: no_address_def)
  then show ?thesis
    using res by (cases res) (auto simp: connect_outcome_def)
qed

end
