(* ===== verification/Http_Show.thy ===== *)
theory Http_Show
  imports Http_Msg
begin

text \<open>
  What is printed: \<^verbatim>\<open>nbq::print\<close> and \<^verbatim>\<open>print_part\<close> of \<^verbatim>\<open>src/core/support/nbq.cc\<close>
  and \<^verbatim>\<open>resp::show\<close> of \<^verbatim>\<open>src/core/http/resp.cc\<close>.  The output of an operation is a
  string.  They also move the read cursor of the queue they print, so the queue is part of
  their results.
\<close>

section \<open>Printing\<close>

text \<open>
  \<^verbatim>\<open>printf("%.*s", (int)n, p)\<close> on the bytes \<open>b\<close> at \<open>p\<close>: at most as many bytes as the precision,
  an \<^verbatim>\<open>int\<close>, says, and all of them when it is negative, up to the first NUL.  Reading on
  behind the bytes is \<^term>\<open>None\<close>.
\<close>

definition c_prec :: "nat \<Rightarrow> byte list \<Rightarrow> string option" where
  "c_prec n b =
     (let p = s32 n in
      if 0 \<le> p \<and> nat p \<le> length b then Some (c_str (take (nat p) b))
      else if NUL \<in> set b then Some (c_str b) else None)"

lemma c_prec_less: "n < 2 ^ 31 \<Longrightarrow> n \<le> length b \<Longrightarrow> c_prec n b = Some (c_str (take n b))"
  by (simp add: c_prec_def s32_id)

partial_function (option) nbq_print_loop :: "nat \<Rightarrow> string \<Rightarrow> nbq \<Rightarrow> (string \<times> nbq) option" where
  "nbq_print_loop left out q =
     (if left = 0 then Some (out, q)
      else do {
        a \<leftarrow> b_read_avail q;
        xs \<leftarrow> b_read_copy (if left > u32_of_int a then u32_of_int a else left) q;
        q1 \<leftarrow> b_read_incr (if left > u32_of_int a then u32_of_int a else left) q;
        t \<leftarrow> c_prec (if left > u32_of_int a then u32_of_int a else left) xs;
        nbq_print_loop (left - (if left > u32_of_int a then u32_of_int a else left)) (out @ t) q1 })"

definition nbq_print :: "nbq \<Rightarrow> (string \<times> nbq) option" where
  "nbq_print q = do { (out, q1) \<leftarrow> nbq_print_loop (u32 (read_avail q)) [] q; Some (out, reset_read q1) }"

definition print_part :: "nbq \<Rightarrow> cr \<Rightarrow> (string \<times> nbq) option" where
  "print_part q c = do { (b, q1) \<leftarrow> copy_part (cr_off c) (cr_len c) q; t \<leftarrow> c_prec (cr_len c) b; Some (t, q1) }"

definition ANSI_COLOR_OFF :: string where "ANSI_COLOR_OFF = CHR 0x1B # ''[0m''"
definition ANSI_COLOR_FG_GREEN :: string where "ANSI_COLOR_FG_GREEN = CHR 0x1B # ''[01;32m''"
definition ANSI_COLOR_FG_BLUE :: string where "ANSI_COLOR_FG_BLUE = CHR 0x1B # ''[01;34m''"
definition ANSI_COLOR_FG_CYAN :: string where "ANSI_COLOR_FG_CYAN = CHR 0x1B # ''[01;36m''"
definition ANSI_COLOR_FG_WHITE :: string where "ANSI_COLOR_FG_WHITE = CHR 0x1B # ''[01;37m''"

definition when_color :: "bool \<Rightarrow> string \<Rightarrow> string" where
  "when_color color s = (if color then s else [])"

definition EOL :: string where "EOL = [CHR 0x0D, CHR 0x0A]"

fun show_headers :: "bool \<Rightarrow> cr list \<Rightarrow> cr list \<Rightarrow> nbq \<Rightarrow> (string \<times> nbq) option" where
  "show_headers color (k # ks) (v # vs) q =
     do {
       (kt, q1) \<leftarrow> print_part q k;
       (vt, q2) \<leftarrow> print_part q1 v;
       (out, q3) \<leftarrow> show_headers color ks vs q2;
       Some (when_color color ANSI_COLOR_FG_BLUE @ kt @ when_color color ANSI_COLOR_OFF @ '': '' @
             when_color color ANSI_COLOR_FG_GREEN @ vt @ when_color color ANSI_COLOR_OFF @ EOL @ out, q3) }"
| "show_headers color ks vs q = Some ([], q)"

definition resp_show :: "bool \<Rightarrow> resp \<Rightarrow> nbq \<Rightarrow> (string \<times> nbq) option" where
  "resp_show color m q =
     do {
       (st, q1) \<leftarrow> print_part (reset_read q) (rs_status_cr m);
       (hs, q2) \<leftarrow> show_headers color (hm_h_list_key m) (hm_h_list_val m) q1;
       (body, q3) \<leftarrow> print_part q2 (hm_body m);
       Some (when_color color ANSI_COLOR_FG_BLUE @
             ''HTTP/'' @ int_str (hm_http_major m) @ ''.'' @ int_str (hm_http_minor m) @ '' '' @ nat_str (rs_status m) @ '' '' @
             when_color color ANSI_COLOR_FG_GREEN @ st @ when_color color ANSI_COLOR_OFF @ EOL @
             hs @ EOL @ body @ EOL, q3) }"

section \<open>What is printed is what the queue holds\<close>

lemma c_str_pad: "c_str (s @ replicate n NUL) = c_str s"
  by (cases n) (simp_all add: c_str_append_NUL)

lemma nbq_print_loop_spec:
  assumes "rd_inv q" "left \<le> m_total_read_avail q" "left < 2 ^ 31" "NUL \<notin> set (unread q)"
  shows "\<exists>q'. nbq_print_loop left out q = Some (out @ take left (unread q), q') \<and> read_post q left q'"
  using assms
proof (induction "left + blocks_ahead q" arbitrary: left out q rule: less_induct)
  case less
  show ?case
  proof (cases "left = 0")
    case True
    then show ?thesis
      using less.prems by (subst nbq_print_loop.simps) (simp add: read_post_def)
  next
    case False
    obtain a n q1 where R: "b_read_avail q = Some a" "n = (if left > u32_of_int a then u32_of_int a else left)"
      "b_read_copy n q = Some (take n (unread q))" "b_read_incr n q = Some q1" "read_post q n q1" "n \<le> left"
      "left - n \<le> m_total_read_avail q1" "left - n + blocks_ahead q1 < left + blocks_ahead q"
      using read_round[OF less.prems(1,2) False] by blast
    have q1: "rd_inv q1" "unread q1 = drop n (unread q)" using R(5) by (simp_all add: read_post_def)
    have nul: "NUL \<notin> set (take n (unread q))" "NUL \<notin> set (unread q1)"
      using less.prems(4) q1(2) by (auto dest: in_set_takeD in_set_dropD)
    have n: "n < 2 ^ 31" "n \<le> length (take n (unread q))"
      using R(6) less.prems(2,3) rd_inv_length[OF less.prems(1)] by simp_all
    let ?out = "out @ take n (unread q)"
    have loop: "nbq_print_loop left out q = nbq_print_loop (left - n) ?out q1"
      using False R(1,3,4) c_str_id[OF nul(1)] c_prec_less[OF n]
      by (subst nbq_print_loop.simps) (simp add: R(2)[symmetric])
    obtain q' where q': "nbq_print_loop (left - n) ?out q1 = Some (?out @ take (left - n) (unread q1), q')"
      "read_post q1 (left - n) q'" using less.hyps [OF R(8) q1(1) R(7) _ nul(2)] less.prems(3) by fastforce
    then show ?thesis
      using loop R(6) read_post_trans[OF R(5) q'(2)] take_round[OF R(6), of "unread q"] q1(2) by simp
  qed
qed

text \<open>\<^verbatim>\<open>print\<close> shows what is unread and leaves everything unread.\<close>

lemma nbq_print_spec:
  assumes "rd_inv q" "wf_blocks q" "NUL \<notin> set (unread q)" "length (unread q) < 2 ^ 31"
  shows "\<exists>q'. nbq_print q = Some (unread q, q') \<and> rd_inv q' \<and> wf_blocks q' \<and> unread q' = all_written q \<and>
    all_written q' = all_written q \<and> m_bsize q' = m_bsize q"
proof -
  have len: "u32 (read_avail q) = length (unread q)"
    using assms(1,4) rd_inv_length[OF assms(1)] by (simp add: read_avail_def u32_id)
  obtain q1 where q1: "nbq_print_loop (length (unread q)) [] q = Some (unread q, q1)" "read_post q (length (unread q)) q1"
    using nbq_print_loop_spec[OF assms(1) _ assms(4,3), of "[]"] rd_inv_length[OF assms(1)] by auto
  have same: "all_written q1 = all_written q" "m_bsize q1 = m_bsize q" "rd_inv q1"
    using q1(2) by (simp_all add: read_post_def)
  have wf: "wf_blocks q1" using rd_inv_wf[OF same(3)] wf_length[OF assms(2)] same(1) by simp
  note R = reset_read_spec[OF wf]
  have "wf_blocks (reset_read q1)" using rd_inv_wf[OF R(1)] R(3) wf_length[OF wf] by simp
  then show ?thesis
    using q1(1) R same len by (intro exI[of _ "reset_read q1"]) (simp add: nbq_print_def)
qed

section \<open>A response is shown as it was received\<close>

lemma print_part_spec:
  assumes "wf_blocks q" "cr_len c < 2 ^ 32"
  shows "\<exists>q'. print_part q c = Some (cr_text q c, q') \<and> wf_blocks q' \<and> all_written q' = all_written q"
proof -
  let ?xs = "take (cr_len c) (drop (cr_off c) (all_written q))"
  obtain q' where q': "copy_part (cr_off c) (cr_len c) q = Some (?xs @ replicate (cr_len c - length ?xs) NUL @ [NUL], q')"
    "rd_inv q'" "all_written q' = all_written q"
    using copy_part_spec[OF assms(1)] by blast
  have "length (?xs @ replicate (cr_len c - length ?xs) NUL) = cr_len c" by simp
  then have "take (cr_len c) ((?xs @ replicate (cr_len c - length ?xs) NUL) @ [NUL]) = ?xs @ replicate (cr_len c - length ?xs) NUL"
    by (metis append_eq_conv_conj)
  moreover have "c_prec (cr_len c) ((?xs @ replicate (cr_len c - length ?xs) NUL) @ [NUL]) =
      Some (c_str (?xs @ replicate (cr_len c - length ?xs) NUL))"
  proof (cases "cr_len c < 2 ^ 31")
    case True
    then show ?thesis using calculation by (subst c_prec_less) simp_all
  next
    case False
    then have "s32 (cr_len c) < 0" using assms(2) by (simp add: s32_def)
    then show ?thesis by (simp add: c_prec_def c_str_append_NUL[of "xs @ ys" "[]" for xs ys, unfolded append_assoc])
  qed
  ultimately have "print_part q c = Some (c_str (?xs @ replicate (cr_len c - length ?xs) NUL), q')"
    using q'(1) by (simp add: print_part_def)
  moreover have "c_str (?xs @ replicate (cr_len c - length ?xs) NUL) = cr_text q c"
    by (simp only: c_str_pad cr_text_def)
  moreover have "wf_blocks q'" using rd_inv_wf[OF q'(2)] q'(3) wf_length[OF assms(1)] by simp
  ultimately show ?thesis using q'(3) by simp
qed

definition show_part :: "bool \<Rightarrow> string \<Rightarrow> string \<Rightarrow> string" where
  "show_part color c t = (if color then c @ t @ ANSI_COLOR_OFF else t)"

text \<open>The lengths that fit the precision of \<^verbatim>\<open>printf\<close>.\<close>

definition printable :: "resp \<Rightarrow> bool" where
  "printable m \<longleftrightarrow> (\<forall>c \<in> set (rs_status_cr m # hm_body m # hm_h_list_key m @ hm_h_list_val m). cr_len c < 2 ^ 32)"

lemma show_headers_spec:
  assumes "wf_blocks q" "\<forall>c \<in> set ks \<union> set vs. cr_len c < 2 ^ 32"
  shows "\<exists>q'. show_headers color ks vs q =
      Some (concat (map (\<lambda>(k, v). show_part color ANSI_COLOR_FG_BLUE (cr_text q k) @ '': '' @
        show_part color ANSI_COLOR_FG_GREEN (cr_text q v) @ EOL) (zip ks vs)), q') \<and>
    wf_blocks q' \<and> all_written q' = all_written q"
  using assms
proof (induction color ks vs q rule: show_headers.induct)
  case (1 color k ks v vs q)
  obtain q1 where q1: "print_part q k = Some (cr_text q k, q1)" "wf_blocks q1" "all_written q1 = all_written q"
    using print_part_spec[OF "1.prems"(1), of k] "1.prems"(2) by auto
  obtain q2 where q2: "print_part q1 v = Some (cr_text q v, q2)" "wf_blocks q2" "all_written q2 = all_written q"
    using print_part_spec[OF q1(2), of v] q1(3) cr_text_cong[OF q1(3)] "1.prems"(2) by auto
  have "\<exists>q'. show_headers color ks vs q2 =
      Some (concat (map (\<lambda>(k, v). show_part color ANSI_COLOR_FG_BLUE (cr_text q2 k) @ '': '' @
        show_part color ANSI_COLOR_FG_GREEN (cr_text q2 v) @ EOL) (zip ks vs)), q') \<and>
    wf_blocks q' \<and> all_written q' = all_written q2"
    using "1.prems"(2) by (intro "1.IH"[OF q1(1) refl q2(1) refl q2(2)]) simp
  then show ?case
    using q1(1) q2 cr_text_cong[OF q2(3)] by (auto simp: when_color_def show_part_def)
qed auto

text \<open>
  C32: Showing a response whose slices are shorter than 4 GB prints its status line, its
  headers in the order they were received, and its body, each the text of its slice of the
  queue, whatever of the queue has been read before, with the colors around the parts when
  they are asked for; no byte of the queue is lost.
\<close>

theorem resp_show_text:
  assumes "wf_blocks q" "printable m"
  shows "\<exists>q'. resp_show color m q = Some (
      (if color then ANSI_COLOR_FG_BLUE else []) @
      ''HTTP/'' @ int_str (hm_http_major m) @ ''.'' @ int_str (hm_http_minor m) @ '' '' @ nat_str (rs_status m) @ '' '' @
      show_part color ANSI_COLOR_FG_GREEN (cr_text q (rs_status_cr m)) @ EOL @
      concat (map (\<lambda>(k, v). show_part color ANSI_COLOR_FG_BLUE (cr_text q k) @ '': '' @
        show_part color ANSI_COLOR_FG_GREEN (cr_text q v) @ EOL) (zip (hm_h_list_key m) (hm_h_list_val m))) @ EOL @
      cr_text q (hm_body m) @ EOL, q') \<and> wf_blocks q' \<and> all_written q' = all_written q"
proof -
  note R = reset_read_spec[OF assms(1)]
  have wf: "wf_blocks (reset_read q)" using rd_inv_wf[OF R(1)] R(3) wf_length[OF assms(1)] by simp
  have len: "cr_len (rs_status_cr m) < 2 ^ 32" "cr_len (hm_body m) < 2 ^ 32"
    "\<forall>c \<in> set (hm_h_list_key m) \<union> set (hm_h_list_val m). cr_len c < 2 ^ 32"
    using assms(2) by (auto simp: printable_def)
  obtain q1 where q1: "print_part (reset_read q) (rs_status_cr m) = Some (cr_text q (rs_status_cr m), q1)"
    "wf_blocks q1" "all_written q1 = all_written q"
    using print_part_spec[OF wf len(1)] R(3) cr_text_cong[OF R(3)] by auto
  obtain q2 where q2: "show_headers color (hm_h_list_key m) (hm_h_list_val m) q1 =
      Some (concat (map (\<lambda>(k, v). show_part color ANSI_COLOR_FG_BLUE (cr_text q k) @ '': '' @
        show_part color ANSI_COLOR_FG_GREEN (cr_text q v) @ EOL) (zip (hm_h_list_key m) (hm_h_list_val m))), q2)"
    "wf_blocks q2" "all_written q2 = all_written q"
    using show_headers_spec[OF q1(2) len(3), of color] cr_text_cong[OF q1(3)] q1(3) by auto
  obtain q3 where q3: "print_part q2 (hm_body m) = Some (cr_text q (hm_body m), q3)" "wf_blocks q3" "all_written q3 = all_written q"
    using print_part_spec[OF q2(2) len(2)] cr_text_cong[OF q2(3)] q2(3) by auto
  show ?thesis using q1 q2 q3 by (simp add: resp_show_def when_color_def show_part_def)
qed

theorem resp_show_text_witness:
  "\<exists>q'. resp_show True (resp_new\<lparr>hm_http_major := 1, hm_http_minor := 1, rs_status := 200, rs_status_cr := \<lparr>cr_off = 0, cr_len = 2\<rparr>\<rparr>) demo_q =
     Some (ANSI_COLOR_FG_BLUE @ ''HTTP/1.1 200 '' @ ANSI_COLOR_FG_GREEN @ ''ab'' @ ANSI_COLOR_OFF @ EOL @ EOL @ EOL, q') \<and>
     wf_blocks q' \<and> all_written q' = ''abcdef''"
proof -
  let ?m = "resp_new\<lparr>hm_http_major := 1, hm_http_minor := 1, rs_status := 200, rs_status_cr := \<lparr>cr_off = 0, cr_len = 2\<rparr>\<rparr>"
  have t: "all_written demo_q = ''abcdef''" "cr_text demo_q \<lparr>cr_off = 0, cr_len = 2\<rparr> = ''ab''" "cr_text demo_q cr_new = []"
    "nat_str 200 = ''200''" "int_str 1 = ''1''"
    by code_simp+
  have m: "hm_h_list_key ?m = []" "hm_h_list_val ?m = []" "hm_body ?m = cr_new" "hm_http_major ?m = 1" "hm_http_minor ?m = 1" "rs_status ?m = 200"
    "rs_status_cr ?m = \<lparr>cr_off = 0, cr_len = 2\<rparr>"
    by code_simp+
  have p: "printable ?m" unfolding printable_def m by (simp add: cr_new_def)
  show ?thesis
    using resp_show_text[OF nbq_inv_wf[OF demo_q_inv] p, of True] unfolding m t by (simp add: show_part_def)
qed

end
