(* ===== verification/Base64.thy ===== *)
theory Base64
  imports Prelude
begin

unbundle bit_operations_syntax

text \<open>
  Base64, \<^verbatim>\<open>src/ext/base64/base64.cc\<close>, with which the cache of addresses writes its entries.
  The loops of the code fill an array of three bytes, or of four characters, before each step;
  here a step takes them from the front of a list.
\<close>

section \<open>Encoding\<close>

definition s_base64_chars :: string where
  "s_base64_chars = ''ABCDEFGHIJKLMNOPQRSTUVWXYZabcdefghijklmnopqrstuvwxyz0123456789+/''"

text \<open>\<^verbatim>\<open>char_array_4\<close> of \<^verbatim>\<open>char_array_3\<close>\<close>

definition b64_split :: "nat \<Rightarrow> nat \<Rightarrow> nat \<Rightarrow> nat list" where
  "b64_split a b c =
     [drop_bit 2 (a AND 0xfc), push_bit 4 (a AND 0x03) + drop_bit 4 (b AND 0xf0),
      push_bit 2 (b AND 0x0f) + drop_bit 6 (c AND 0xc0), c AND 0x3f]"

definition b64_char :: "nat \<Rightarrow> char" where
  "b64_char i = s_base64_chars ! i"

fun base64_encode :: "byte list \<Rightarrow> string" where
  "base64_encode (a # b # c # bs) =
     map b64_char (b64_split (of_char a) (of_char b) (of_char c)) @ base64_encode bs"
| "base64_encode [a, b] = map b64_char (take 3 (b64_split (of_char a) (of_char b) 0)) @ ''=''"
| "base64_encode [a] = map b64_char (take 2 (b64_split (of_char a) 0 0)) @ ''==''"
| "base64_encode [] = []"

section \<open>Decoding\<close>

definition is_base64 :: "char \<Rightarrow> bool" where
  "is_base64 c \<longleftrightarrow> (let n = of_char c :: nat in
     48 \<le> n \<and> n \<le> 57 \<or> 65 \<le> n \<and> n \<le> 90 \<or> 97 \<le> n \<and> n \<le> 122 \<or> n = 43 \<or> n = 47)"

text \<open>\<^verbatim>\<open>s_base64_chars.find(c)\<close> as an \<^verbatim>\<open>unsigned char\<close>: \<^verbatim>\<open>npos\<close> is 255.\<close>

definition b64_find :: "char \<Rightarrow> nat" where
  "b64_find c = (if c \<in> set s_base64_chars then length (takeWhile (\<lambda>d. d \<noteq> c) s_base64_chars) else 255)"

text \<open>\<^verbatim>\<open>char_array_3\<close> of \<^verbatim>\<open>char_array_4\<close>, each cut to a byte\<close>

definition b64_join :: "nat \<Rightarrow> nat \<Rightarrow> nat \<Rightarrow> nat \<Rightarrow> byte list" where
  "b64_join p q r s = map char_of
     [push_bit 2 p + drop_bit 4 (q AND 0x30),
      push_bit 4 (q AND 0xf) + drop_bit 2 (r AND 0x3c),
      push_bit 6 (r AND 0x3) + s]"

fun b64_groups :: "string \<Rightarrow> byte list" where
  "b64_groups (w # x # y # z # cs) =
     b64_join (b64_find w) (b64_find x) (b64_find y) (b64_find z) @ b64_groups cs"
| "b64_groups [x, y, z] = take 2 (b64_join (b64_find x) (b64_find y) (b64_find z) (b64_find NUL))"
| "b64_groups [y, z] = take 1 (b64_join (b64_find y) (b64_find z) (b64_find NUL) (b64_find NUL))"
| "b64_groups [z] = []"
| "b64_groups [] = []"

text \<open>
  The characters up to the first that is none of base64.  The count is the length as an
  \<^verbatim>\<open>int\<close>: from a negative one it goes down to the end of the string, past the least \<^verbatim>\<open>int\<close> (\<open>None\<close>)
  if that is far enough.
\<close>

definition base64_decode :: "string \<Rightarrow> byte list option" where
  "base64_decode s =
     (let n = s32 (length s); p = takeWhile (\<lambda>c. c \<noteq> CHR ''='' \<and> is_base64 c) s
      in if 0 \<le> n then Some (b64_groups (take (nat n) p))
         else if n - int (length p) - 1 < - (2 ^ 31) then None
         else Some (b64_groups p))"

section \<open>Laws\<close>

lemma b64_table:
  assumes "i < 64"
  shows "b64_find (b64_char i) = i" "is_base64 (b64_char i)" "b64_char i \<noteq> CHR ''=''" "b64_char i \<in> set s_base64_chars"
proof -
  have "list_all (\<lambda>i. b64_find (b64_char i) = i \<and> is_base64 (b64_char i) \<and> b64_char i \<noteq> CHR ''='' \<and> b64_char i \<in> set s_base64_chars) [0..<64]"
    by code_simp
  moreover have "i \<in> set [0..<64]" using assms by simp
  ultimately show "b64_find (b64_char i) = i" "is_base64 (b64_char i)" "b64_char i \<noteq> CHR ''=''" "b64_char i \<in> set s_base64_chars"
    unfolding list_all_iff by blast+
qed

text \<open>The masks and shifts of a byte as quotients and remainders.\<close>

lemma low_masks: "n AND 0x3f = n mod 64" "n AND 0x0f = n mod 16" "n AND 0x03 = n mod (4 :: nat)"
  using take_bit_eq_mask[of 6 n] take_bit_eq_mask[of 4 n] take_bit_eq_mask[of 2 n]
  by (simp_all add: take_bit_eq_mod mask_eq_exp_minus_1)

lemma byte_masks:
  assumes "a < 256"
  shows "drop_bit 2 (a AND 0xfc) = a div 4" "drop_bit 4 (a AND 0xf0) = a div 16" "drop_bit 6 (a AND 0xc0) = a div (64 :: nat)"
proof -
  have d: "drop_bit 2 0xfc = (0x3f :: nat)" "drop_bit 4 0xf0 = (0x0f :: nat)" "drop_bit 6 0xc0 = (0x03 :: nat)"
    by (simp_all add: drop_bit_eq_div)
  have "a div 4 < 64" "a div 16 < 16" "a div 64 < 4" using assms by (simp_all add: less_mult_imp_div_less)
  then show "drop_bit 2 (a AND 0xfc) = a div 4" "drop_bit 4 (a AND 0xf0) = a div 16" "drop_bit 6 (a AND 0xc0) = a div 64"
    by (simp_all add: drop_bit_and d low_masks) (simp_all add: drop_bit_eq_div)
qed

lemma mid_masks: "drop_bit 4 (n AND 0x30) = n div 16 mod 4" "drop_bit 2 (n AND 0x3c) = n div 4 mod (16 :: nat)"
proof -
  have d: "drop_bit 4 0x30 = (0x03 :: nat)" "drop_bit 2 0x3c = (0x0f :: nat)"
    by (simp_all add: drop_bit_eq_div)
  show "drop_bit 4 (n AND 0x30) = n div 16 mod 4" "drop_bit 2 (n AND 0x3c) = n div 4 mod 16"
    by (simp_all add: drop_bit_and d low_masks) (simp_all add: drop_bit_eq_div)
qed

lemma split_values:
  assumes "a < 256" "b < 256" "c < 256"
  shows "b64_split a b c = [a div 4, a mod 4 * 16 + b div 16, b mod 16 * 4 + c div 64, c mod 64]"
  using byte_masks assms by (simp add: b64_split_def low_masks push_bit_eq_mult)

lemma join_values:
  "b64_join p q r s = map char_of [p * 4 + q div 16 mod 4, q mod 16 * 16 + r div 4 mod 16, r mod 4 * 64 + s]"
  by (simp only: b64_join_def mid_masks low_masks push_bit_eq_mult) simp

lemma join_split:
  assumes "a < 256" "b < 256" "c < 256"
  shows "b64_join (a div 4) (a mod 4 * 16 + b div 16) (b mod 16 * 4 + c div 64) (c mod 64) = map char_of [a, b, c]"
proof -
  have q: "b div 16 < 16" "c div 64 < 4" using assms by (simp_all add: less_mult_imp_div_less)
  have "(a mod 4 * 16 + b div 16) div 16 mod 4 = a mod 4" using q by simp
  moreover have "(b mod 16 * 4 + c div 64) div 4 mod 16 = b mod 16" using q by simp
  moreover have "(a mod 4 * 16 + b div 16) mod 16 = b div 16" "(b mod 16 * 4 + c div 64) mod 4 = c div 64" using q by simp_all
  ultimately show ?thesis by (simp add: join_values)
qed

lemma split_less:
  assumes "a < 256" "b < 256" "c < 256"
  shows "list_all (\<lambda>i. i < 64) [a div 4, a mod 4 * 16 + b div 16, b mod 16 * 4 + c div 64, c mod (64 :: nat)]"
proof -
  have "b div 16 < 16" "c div 64 < 4" "a div 4 < 64" using assms by (simp_all add: less_mult_imp_div_less)
  moreover have "a mod 4 < 4" "b mod 16 < 16" by simp_all
  ultimately show ?thesis by simp linarith
qed

lemma byte_less: "(of_char (b :: char) :: nat) < 256"
  using mod_less_divisor[of 256 "of_char b :: nat"] by simp

lemma pad_split: "a div 4 < 64" "a mod 4 * 16 < (64 :: nat)" "a mod 16 * 4 < (64 :: nat)" if "a < 256"
  using that by (simp_all add: less_mult_imp_div_less)

text \<open>What is encoded is of the alphabet, then the padding.\<close>

definition b64_text :: "byte list \<Rightarrow> string" where
  "b64_text bs = takeWhile (\<lambda>c. c \<noteq> CHR ''='' \<and> is_base64 c) (base64_encode bs)"

lemma b64_text_simps:
  "b64_text [] = []"
  "b64_text [a] = map b64_char [of_char a div 4, of_char a mod 4 * 16]"
  "b64_text [a, b] = map b64_char [of_char a div 4, of_char a mod 4 * 16 + of_char b div 16, of_char b mod 16 * 4]"
  "b64_text (a # b # c # bs) = map b64_char [of_char a div 4, of_char a mod 4 * 16 + of_char b div 16,
     of_char b mod 16 * 4 + of_char c div 64, of_char c mod 64] @ b64_text bs"
proof -
  show "b64_text [] = []" by (simp add: b64_text_def)
  have z: "(0 :: nat) < 256" by simp
  note l1 = split_less[OF byte_less z z] and l2 = split_less[OF byte_less byte_less z] and l3 = split_less[OF byte_less byte_less byte_less]
  show "b64_text [a] = map b64_char [of_char a div 4, of_char a mod 4 * 16]"
    using l1[of a] by (simp add: b64_text_def split_values byte_less b64_table)
  show "b64_text [a, b] = map b64_char [of_char a div 4, of_char a mod 4 * 16 + of_char b div 16, of_char b mod 16 * 4]"
    using l2[of a b] by (simp add: b64_text_def split_values byte_less b64_table)
  show "b64_text (a # b # c # bs) = map b64_char [of_char a div 4, of_char a mod 4 * 16 + of_char b div 16,
     of_char b mod 16 * 4 + of_char c div 64, of_char c mod 64] @ b64_text bs"
    using l3[of a b c] by (simp add: b64_text_def split_values byte_less b64_table)
qed

lemma groups_text: "b64_groups (b64_text bs) = bs"
proof (induction bs rule: base64_encode.induct)
  case (1 a b c bs)
  have "list_all (\<lambda>i. i < 64) [of_char a div 4, of_char a mod 4 * 16 + of_char b div 16, of_char b mod 16 * 4 + of_char c div 64, of_char c mod (64 :: nat)]"
    by (rule split_less) (rule byte_less)+
  then show ?case
    using 1 join_split[OF byte_less byte_less byte_less, of a b c] by (simp add: b64_text_simps b64_table)
next
  case (2 a b)
  have l: "list_all (\<lambda>i. i < 64) [of_char a div 4, of_char a mod 4 * 16 + of_char b div 16, of_char b mod 16 * 4 + 0 div 64, 0 mod (64 :: nat)]"
    by (rule split_less) (simp_all add: byte_less)
  have j: "take 2 (b64_join p q r s) = take 2 (b64_join p q r s')" for p q r s s' by (simp add: b64_join_def)
  show ?case
    using l join_split[OF byte_less byte_less, of 0 a b] by (simp add: b64_text_simps b64_table j[of _ _ _ "b64_find NUL" 0])
next
  case (3 a)
  have l: "list_all (\<lambda>i. i < 64) [of_char a div 4, of_char a mod 4 * 16 + 0 div 16, 0 mod 16 * 4 + 0 div 64, 0 mod (64 :: nat)]"
    by (rule split_less) (simp_all add: byte_less)
  have j: "b64_join p q (b64_find NUL) (b64_find NUL) = take 1 (b64_join p q 0 0) @ drop 1 (b64_join p q (b64_find NUL) (b64_find NUL))" for p q
    by (simp add: join_values)
  show ?case
    using l join_split[OF byte_less, of 0 0 a] by (simp add: b64_text_simps b64_table) (subst j, simp)
qed (simp add: b64_text_simps)

lemma encode_length: "length (base64_encode bs) \<le> 2 * length bs + 2"
  by (induction bs rule: base64_encode.induct) (simp_all add: b64_split_def)

lemma base64_roundtrip:
  assumes "2 * length bs + 2 < 2 ^ 31"
  shows "base64_decode (base64_encode bs) = Some bs"
proof -
  have l: "length (base64_encode bs) < 2 ^ 31" using encode_length[of bs] assms by linarith
  have "length (b64_text bs) \<le> length (base64_encode bs)" by (simp add: b64_text_def length_takeWhile_le)
  then show ?thesis
    using l groups_text[of bs] by (simp add: base64_decode_def s32_def Let_def b64_text_def)
qed

lemma encode_chars: "set (base64_encode bs) \<subseteq> insert (CHR ''='') (set s_base64_chars)"
proof (induction bs rule: base64_encode.induct)
  case (1 a b c bs)
  have "list_all (\<lambda>i. i < 64) (b64_split (of_char a) (of_char b) (of_char c))"
    using split_less[OF byte_less byte_less byte_less] by (simp only: split_values[OF byte_less byte_less byte_less])
  then show ?case using 1 by (auto simp: list_all_iff b64_table)
next
  case (2 a b)
  have "list_all (\<lambda>i. i < 64) (b64_split (of_char a) (of_char b) 0)"
    using split_less[OF byte_less byte_less, of 0 a b] split_values[OF byte_less byte_less, of 0 a b] by simp
  then show ?case by (auto simp: list_all_iff b64_table dest: in_set_takeD)
next
  case (3 a)
  have "list_all (\<lambda>i. i < 64) (b64_split (of_char a) 0 0)"
    using split_less[OF byte_less, of 0 0 a] split_values[OF byte_less, of 0 0 a] by simp
  then show ?case by (auto simp: list_all_iff b64_table dest: in_set_takeD)
qed simp

end
