(* ===== verification/Dns.thy ===== *)
theory Dns
  imports Nconn Time_Util Smap Base64 "HOL-Library.Char_ord" "HOL-Library.List_Lexorder"
begin

text \<open>
  Name resolution: \<^verbatim>\<open>src/core/dns/nlookup.cc\<close>, the cache of resolved addresses of
  \<^verbatim>\<open>src/core/dns/ai_cache.cc\<close> with its file, and the resolver of
  \<^verbatim>\<open>src/core/dns/nresolver.cc\<close>.  The system's resolver, the clocks, the file system and the
  vendored parser rapidjson are the fields of \<open>dns_env\<close>.  An entry of the cache
  is the structure its pointer points to, which belongs to the cache.
\<close>

section \<open>The environment\<close>

record addrinfo =
  ai_family :: int
  ai_socktype :: int
  ai_protocol :: int
  ai_addrlen :: nat
  ai_addr :: "byte list"

text \<open>A document of rapidjson, as far as it is looked at.\<close>

datatype json = JArray "json list" | JObject "(string \<times> json) list" | JString string | JOther

record dns_env =
  de_getaddrinfo :: "string \<Rightarrow> string \<Rightarrow> int \<Rightarrow> int \<times> addrinfo list"
  de_inet_pton :: "string \<Rightarrow> bool"
  de_tsc :: "nat \<Rightarrow> nat"
  de_rt :: "nat \<Rightarrow> nat \<times> nat"
  de_json :: "string \<Rightarrow> json"
  de_stat :: "string \<Rightarrow> (bool \<times> int) option"
  de_fopen_r :: "string \<Rightarrow> byte list option"
  de_fopen_w :: "string \<Rightarrow> bool"
  de_fclose :: "string \<Rightarrow> bool"
  de_padding :: "byte list"

definition dns_now :: "dns_env \<Rightarrow> time_cache \<Rightarrow> nat \<times> time_cache" where
  "dns_now e t = get_time_s (de_tsc e) (de_rt e) t"

section \<open>nlookup\<close>

definition AF_INET6 :: int where "AF_INET6 = 10"
definition AF_UNSPEC :: int where "AF_UNSPEC = 0"

text \<open>The loop over the addresses: the first of each family, up to the first of any but for localhost.\<close>

fun scan_addrs :: "bool \<Rightarrow> addrinfo list \<Rightarrow> addrinfo option \<times> addrinfo option \<Rightarrow> addrinfo option \<times> addrinfo option" where
  "scan_addrs local [] (v4, v6) = (v4, v6)"
| "scan_addrs local (a # as) (v4, v6) =
     (let v4' = (if ai_family a = AF_INET \<and> v4 = None then Some a else v4);
          v6' = (if ai_family a = AF_INET6 \<and> v6 = None then Some a else v6)
      in if \<not> local \<and> (v4' \<noteq> None \<or> v6' \<noteq> None) then (v4', v6') else scan_addrs local as (v4', v6'))"

text \<open>The address is copied and its port set, in network order, at the offset both families have it.\<close>

definition put_port :: "nat \<Rightarrow> byte list \<Rightarrow> byte list" where
  "put_port port sa = sa[2 := char_of (port div 256), 3 := char_of (port mod 256)]"

definition take_addr :: "nat \<Rightarrow> addrinfo \<Rightarrow> host_info \<Rightarrow> (int \<times> host_info) option" where
  "take_addr port a h =
     (if 128 < ai_addrlen a then Some (STATUS_ERROR, h)
      else if length (ai_addr a) < ai_addrlen a then None
      else Some (STATUS_OK, h\<lparr>hi_sock_family := ai_family a, hi_sock_type := ai_socktype a, hi_sock_protocol := ai_protocol a,
             hi_sa_len := int (ai_addrlen a),
             hi_sa := put_port port (take (ai_addrlen a) (ai_addr a) @ drop (ai_addrlen a) (hi_sa h))\<rparr>))"

definition nlookup ::
  "dns_env \<Rightarrow> string \<Rightarrow> nat \<Rightarrow> host_info \<Rightarrow> int \<Rightarrow> time_cache \<Rightarrow> (int \<times> host_info \<times> time_cache) option" where
  "nlookup e host port h fam t =
     (let h0 = h\<lparr>hi_sa_len := 128, hi_sa := replicate 128 NUL\<rparr>
      in case de_getaddrinfo e (c_str host) (nat_str port) fam of (err, as) \<Rightarrow>
        if err \<noteq> 0 then Some (STATUS_ERROR, h0, t)
        else (case scan_addrs (host = ''localhost'') as (None, None) of (v4, v6) \<Rightarrow>
          (case (case v4 of Some a \<Rightarrow> Some a | None \<Rightarrow> v6) of
             None \<Rightarrow> Some (STATUS_ERROR, h0, t)
           | Some a \<Rightarrow> do {
               (st, h1) \<leftarrow> take_addr port a h0;
               if st \<noteq> STATUS_OK then Some (STATUS_ERROR, h1, t)
               else let (now, t1) = dns_now e t in Some (STATUS_OK, h1\<lparr>hi_expires_s := u32 (u64 (now + 3600))\<rparr>, t1) })))"

section \<open>The cache\<close>

record ai_cache =
  ac_map :: "(string \<times> host_info) list"
  ac_file :: string

definition ai_lookup :: "dns_env \<Rightarrow> string \<Rightarrow> ai_cache \<Rightarrow> time_cache \<Rightarrow> host_info option \<times> ai_cache \<times> time_cache" where
  "ai_lookup e label c t =
     (case map_of (ac_map c) label of
        None \<Rightarrow> (None, c, t)
      | Some h \<Rightarrow>
          if hi_expires_s h = 0 then (Some h, c, t)
          else (case dns_now e t of (now, t1) \<Rightarrow>
            if now > hi_expires_s h then (None, c\<lparr>ac_map := smap_del label (ac_map c)\<rparr>, t1) else (Some h, c, t1)))"

definition ai_lookup_or_add ::
  "dns_env \<Rightarrow> string \<Rightarrow> host_info \<Rightarrow> ai_cache \<Rightarrow> time_cache \<Rightarrow> host_info \<times> ai_cache \<times> time_cache" where
  "ai_lookup_or_add e label h c t =
     (case ai_lookup e label c t of
        (None, c1, t1) \<Rightarrow> (h, c1\<lparr>ac_map := smap_upd label h (ac_map c1)\<rparr>, t1)
      | (Some h1, c1, t1) \<Rightarrow> (h1, c1, t1))"

definition ai_add :: "string \<Rightarrow> host_info \<Rightarrow> ai_cache \<Rightarrow> ai_cache" where
  "ai_add label h c = c\<lparr>ac_map := smap_upd label h (ac_map c)\<rparr>"

text \<open>The structure in memory: 152 bytes on x86-64, low byte first, with four bytes of padding at the end.\<close>

definition le32 :: "nat \<Rightarrow> byte list" where
  "le32 n = map char_of [n mod 256, n div 256 mod 256, n div 65536 mod 256, n div 16777216 mod 256]"

definition le32_val :: "byte list \<Rightarrow> nat" where
  "le32_val bs = of_char (bs ! 0) + 256 * of_char (bs ! 1) + 65536 * of_char (bs ! 2) + 16777216 * of_char (bs ! 3)"

definition host_info_bytes :: "byte list \<Rightarrow> host_info \<Rightarrow> byte list" where
  "host_info_bytes pad h = hi_sa h @ le32 (u32_of_int (hi_sa_len h)) @ le32 (u32_of_int (hi_sock_family h)) @
     le32 (u32_of_int (hi_sock_type h)) @ le32 (u32_of_int (hi_sock_protocol h)) @ le32 (hi_expires_s h) @ pad"

definition bytes_host_info :: "byte list \<Rightarrow> host_info" where
  "bytes_host_info bs = \<lparr>hi_sa = take 128 bs, hi_sa_len = s32 (le32_val (drop 128 bs)), hi_sock_family = s32 (le32_val (drop 132 bs)),
     hi_sock_type = s32 (le32_val (drop 136 bs)), hi_sock_protocol = s32 (le32_val (drop 140 bs)), hi_expires_s = le32_val (drop 144 bs)\<rparr>"

text \<open>\<^verbatim>\<open>memcpy\<close> of a decoded string over a new structure; a longer string is written past its end.\<close>

definition host_info_memcpy :: "byte list \<Rightarrow> byte list \<Rightarrow> host_info option" where
  "host_info_memcpy pad ds =
     (if 152 < length ds then None
      else Some (bytes_host_info (ds @ drop (length ds) (host_info_bytes pad host_info_new))))"

text \<open>\<^verbatim>\<open>sync\<close>: what is written, an object for each entry with a comma after all but the last.\<close>

fun sync_entries :: "dns_env \<Rightarrow> nat \<Rightarrow> nat \<Rightarrow> (string \<times> host_info) list \<Rightarrow> string" where
  "sync_entries e len i [] = []"
| "sync_entries e len i ((k, h) # m) =
     ''{'' @ [CHR 0x22] @ ''host'' @ [CHR 0x22] @ '': '' @ [CHR 0x22] @ c_str k @ [CHR 0x22] @ '','' @
     [CHR 0x22] @ ''ai'' @ [CHR 0x22] @ '': '' @ [CHR 0x22] @ c_str (base64_encode (host_info_bytes (de_padding e) h)) @ [CHR 0x22] @
     (if u32 (i + 1) = len then ''}'' else ''},'') @ sync_entries e len (u32 (i + 1)) m"

definition ai_sync :: "dns_env \<Rightarrow> string \<Rightarrow> (string \<times> host_info) list \<Rightarrow> int \<times> string option" where
  "ai_sync e file m =
     (if \<not> de_fopen_w e (c_str file) then (STATUS_ERROR, None)
      else (if de_fclose e (c_str file) then STATUS_OK else STATUS_ERROR,
            Some (''['' @ sync_entries e (u32 (length m)) 0 m @ '']'')))"

text \<open>
  \<^verbatim>\<open>read\<close>: the records of the document, up to one that is not an object; a member that is not
  a string fails an assertion.
\<close>

definition json_string :: "json \<Rightarrow> string option" where
  "json_string j = (case j of JString s \<Rightarrow> Some (c_str s) | _ \<Rightarrow> None)"

fun read_records :: "dns_env \<Rightarrow> json list \<Rightarrow> (string \<times> host_info) list \<Rightarrow> (bool \<times> (string \<times> host_info) list) option" where
  "read_records e [] m = Some (True, m)"
| "read_records e (JObject kvs # js) m =
     (case map_of kvs ''host'' of
        None \<Rightarrow> read_records e js m
      | Some jh \<Rightarrow> do {
          host \<leftarrow> json_string jh;
          (case map_of kvs ''ai'' of
             None \<Rightarrow> read_records e js m
           | Some ja \<Rightarrow> do {
               ai \<leftarrow> json_string ja;
               ds \<leftarrow> base64_decode ai;
               h \<leftarrow> host_info_memcpy (de_padding e) ds;
               read_records e js (smap_upd host h m) }) })"
| "read_records e (_ # js) m = Some (False, m)"

definition ai_read :: "dns_env \<Rightarrow> string \<Rightarrow> (string \<times> host_info) list \<Rightarrow> (int \<times> (string \<times> host_info) list) option" where
  "ai_read e file m =
     (case de_stat e (c_str file) of
        None \<Rightarrow> Some (STATUS_OK, m)
      | Some (regular, fsize) \<Rightarrow>
          if \<not> regular then Some (STATUS_OK, m)
          else (case de_fopen_r e (c_str file) of
            None \<Rightarrow> Some (STATUS_OK, m)
          | Some contents \<Rightarrow>
              let sz = s32 (u32_of_int fsize); buf = take (nat sz) contents
              in if int (length buf) \<noteq> sz then Some (STATUS_OK, m)
                 else (case de_json e (c_str buf) of
                     JArray js \<Rightarrow> do {
                       (all, m1) \<leftarrow> read_records e js m;
                       Some (if \<not> all \<or> de_fclose e (c_str file) then STATUS_OK else STATUS_ERROR, m1) }
                   | _ \<Rightarrow> Some (STATUS_OK, m))))"

definition ai_cache_new :: "dns_env \<Rightarrow> string \<Rightarrow> ai_cache option" where
  "ai_cache_new e file =
     (if file = [] then Some \<lparr>ac_map = [], ac_file = file\<rparr>
      else map_option (\<lambda>(_, m). \<lparr>ac_map = m, ac_file = file\<rparr>) (ai_read e file []))"

text \<open>The destructor: what is left in the file.\<close>

definition ai_cache_delete :: "dns_env \<Rightarrow> ai_cache \<Rightarrow> string option" where
  "ai_cache_delete e c = (if ac_file c = [] then None else snd (ai_sync e (ac_file c) (ac_map c)))"

section \<open>The resolver\<close>

record nresolver =
  nr_is_initd :: bool
  nr_resolver_host_list :: "string list"
  nr_port :: nat
  nr_use_cache :: bool
  nr_ai_cache :: "ai_cache option"

definition nresolver_new :: nresolver where
  "nresolver_new = \<lparr>nr_is_initd = False, nr_resolver_host_list = [], nr_port = 53, nr_use_cache = True, nr_ai_cache = None\<rparr>"

definition NRESOLVER_DEFAULT_AI_CACHE_FILE :: string where
  "NRESOLVER_DEFAULT_AI_CACHE_FILE = ''/tmp/addr_info_cache.json''"

definition get_cache_key :: "string \<Rightarrow> nat \<Rightarrow> string" where
  "get_cache_key host port = host @ '':'' @ nat_str port"

definition nresolver_init :: "dns_env \<Rightarrow> bool \<Rightarrow> string \<Rightarrow> nresolver \<Rightarrow> (int \<times> nresolver) option" where
  "nresolver_init e use_cache file r =
     (if nr_is_initd r then Some (STATUS_OK, r)
      else do {
        c \<leftarrow> (if use_cache then map_option Some (ai_cache_new e file) else Some None);
        Some (STATUS_OK, r\<lparr>nr_use_cache := use_cache, nr_ai_cache := c, nr_is_initd := True\<rparr>) })"

definition add_resolver_host :: "string \<Rightarrow> nresolver \<Rightarrow> nresolver" where
  "add_resolver_host s r = r\<lparr>nr_resolver_host_list := nr_resolver_host_list r @ [s]\<rparr>"

definition set_port :: "nat \<Rightarrow> nresolver \<Rightarrow> nresolver" where
  "set_port p r = r\<lparr>nr_port := p\<rparr>"

type_synonym nr_res = "(int \<times> host_info \<times> nresolver \<times> time_cache) option"

definition lookup_inline :: "dns_env \<Rightarrow> string \<Rightarrow> nat \<Rightarrow> host_info \<Rightarrow> nresolver \<Rightarrow> time_cache \<Rightarrow> nr_res" where
  "lookup_inline e host port out r t =
     do {
       (st, h, t1) \<leftarrow> nlookup e host port host_info_new AF_UNSPEC t;
       if st \<noteq> STATUS_OK then Some (STATUS_ERROR, out, r, t1)
       else (case (if nr_use_cache r then nr_ai_cache r else None) of
           None \<Rightarrow> Some (STATUS_OK, h, r, t1)
         | Some c \<Rightarrow>
             (case ai_lookup_or_add e (get_cache_key host port) h c t1 of
                (h1, c1, t2) \<Rightarrow> Some (STATUS_OK, h1, r\<lparr>nr_ai_cache := Some c1\<rparr>, t2))) }"

definition ensure_init :: "dns_env \<Rightarrow> nresolver \<Rightarrow> (int \<times> nresolver) option" where
  "ensure_init e r = (if nr_is_initd r then Some (STATUS_OK, r) else nresolver_init e True NRESOLVER_DEFAULT_AI_CACHE_FILE r)"

definition lookup_tryfast :: "dns_env \<Rightarrow> string \<Rightarrow> nat \<Rightarrow> host_info \<Rightarrow> nresolver \<Rightarrow> time_cache \<Rightarrow> nr_res" where
  "lookup_tryfast e host port out r t =
     do {
       (st, r1) \<leftarrow> ensure_init e r;
       if st \<noteq> STATUS_OK then Some (STATUS_ERROR, out, r1, t)
       else (case (case (if nr_use_cache r1 then nr_ai_cache r1 else None) of
                     None \<Rightarrow> (None, r1, t)
                   | Some c \<Rightarrow> (case ai_lookup e (get_cache_key host port) c t of
                       (h, c1, t1) \<Rightarrow> (h, r1\<lparr>nr_ai_cache := Some c1\<rparr>, t1))) of
           (Some h, r2, t1) \<Rightarrow> Some (STATUS_OK, h, r2, t1)
         | (None, r2, t1) \<Rightarrow>
             if de_inet_pton e (c_str host) then lookup_inline e host port out r2 t1
             else Some (STATUS_ERROR, out, r2, t1)) }"

definition lookup_sync :: "dns_env \<Rightarrow> string \<Rightarrow> nat \<Rightarrow> host_info \<Rightarrow> nresolver \<Rightarrow> time_cache \<Rightarrow> nr_res" where
  "lookup_sync e host port out r t =
     do {
       (st, r1) \<leftarrow> ensure_init e r;
       if st \<noteq> STATUS_OK then Some (STATUS_ERROR, out, r1, t)
       else do {
         (st, out1, r2, t1) \<leftarrow> lookup_tryfast e host port out r1 t;
         if st = STATUS_OK then Some (STATUS_OK, out1, r2, t1)
         else lookup_inline e host port out1 r2 t1 } }"

text \<open>The destructor: what is left in the file of the cache.\<close>

definition nresolver_delete :: "dns_env \<Rightarrow> nresolver \<Rightarrow> string option" where
  "nresolver_delete e r = (case (if nr_use_cache r then nr_ai_cache r else None) of None \<Rightarrow> None | Some c \<Rightarrow> ai_cache_delete e c)"

definition s_bytes_2_ip_str :: "byte list \<Rightarrow> string" where
  "s_bytes_2_ip_str c = nat_str (of_char (c ! 0)) @ ''.'' @ nat_str (of_char (c ! 1)) @ ''.'' @
     nat_str (of_char (c ! 2)) @ ''.'' @ nat_str (of_char (c ! 3))"

section \<open>The structure and its bytes\<close>

definition host_info_ok :: "host_info \<Rightarrow> bool" where
  "host_info_ok h \<longleftrightarrow> length (hi_sa h) = 128 \<and> hi_expires_s h < 2 ^ 32 \<and>
     (\<forall>i \<in> {hi_sa_len h, hi_sock_family h, hi_sock_type h, hi_sock_protocol h}. - (2 ^ 31) \<le> i \<and> i < 2 ^ 31)"

lemma length_le32 [simp]: "length (le32 n) = 4"
  by (simp add: le32_def)

lemma le32_val_le32 [simp]: "le32_val (le32 n @ bs) = n mod 2 ^ 32"
proof -
  have b: "of_char (char_of k :: char) = k mod 256" for k :: nat by simp
  have "n mod 2 ^ 32 = n mod 256 + 256 * (n div 256 mod 2 ^ 24)" using mod_mult2_eq[of n 256 "2 ^ 24"] by simp
  also have "n div 256 mod 2 ^ 24 = n div 256 mod 256 + 256 * (n div 65536 mod 2 ^ 16)"
    using mod_mult2_eq[of "n div 256" 256 "2 ^ 16"] by (simp add: div_mult2_eq[symmetric])
  also have "n div 65536 mod 2 ^ 16 = n div 65536 mod 256 + 256 * (n div 16777216 mod 256)"
    using mod_mult2_eq[of "n div 65536" 256 256] by (simp add: div_mult2_eq[symmetric])
  finally show ?thesis by (simp add: le32_val_def le32_def b)
qed

lemma s32_u32_of_int: "- (2 ^ 31) \<le> i \<Longrightarrow> i < 2 ^ 31 \<Longrightarrow> s32 (u32_of_int i) = i"
proof -
  assume i: "- (2 ^ 31) \<le> i" "i < 2 ^ 31"
  show ?thesis
  proof (cases "0 \<le> i")
    case True
    then have "i mod 2 ^ 32 = i" using i by (intro mod_pos_pos_trivial) auto
    then show ?thesis using True i by (simp add: s32_def u32_of_int_def Let_def)
  next
    case False
    then have "(i + 2 ^ 32) mod 2 ^ 32 = i + 2 ^ 32" using i by (intro mod_pos_pos_trivial) auto
    then have m: "i mod 4294967296 = i + 4294967296" by simp
    show ?thesis using False i by (simp add: s32_def u32_of_int_def Let_def m)
  qed
qed

lemma s32_mod [simp]: "s32 (n mod 4294967296) = s32 n"
  by (simp add: s32_def Let_def)

lemma host_info_bytes_length: "host_info_ok h \<Longrightarrow> length pad = 4 \<Longrightarrow> length (host_info_bytes pad h) = 152"
  by (simp add: host_info_bytes_def host_info_ok_def)

lemma bytes_host_info_bytes: "host_info_ok h \<Longrightarrow> bytes_host_info (host_info_bytes pad h) = h"
  using s32_u32_of_int by (simp add: bytes_host_info_def host_info_bytes_def host_info_ok_def)

lemma host_info_new_ok: "host_info_ok host_info_new"
  by (simp add: host_info_ok_def host_info_new_def AF_INET_def SOCK_STREAM_def IPPROTO_TCP_def)

lemma memcpy_host_info:
  "host_info_ok h \<Longrightarrow> length pad = 4 \<Longrightarrow> host_info_memcpy pad (host_info_bytes pad h) = Some h"
  by (simp add: host_info_memcpy_def host_info_bytes_length host_info_new_ok bytes_host_info_bytes)

section \<open>The file of the cache\<close>

text \<open>
  The part of JSON (RFC 8259) the file is written in, as a function from texts to documents:
  arrays, objects, and strings of printable ASCII without escapes.  What it reads, a parser of
  JSON reads in the same way; of other texts nothing is said.  The fuel counts the calls, at most
  two for a character.
\<close>

definition json_plain :: "char \<Rightarrow> bool" where
  "json_plain c \<longleftrightarrow> 0x20 \<le> (of_char c :: nat) \<and> (of_char c :: nat) < 0x7f \<and> c \<noteq> CHR 0x22 \<and> c \<noteq> CHR 0x5C"

definition json_ws :: "string \<Rightarrow> string" where
  "json_ws s = dropWhile (\<lambda>c. c = CHR '' '' \<or> c = CHR 0x09 \<or> c = CHR 0x0A \<or> c = CHR 0x0D) s"

definition starts :: "char \<Rightarrow> string \<Rightarrow> bool" where
  "starts c s \<longleftrightarrow> (case s of [] \<Rightarrow> False | d # _ \<Rightarrow> d = c)"

fun json_str :: "string \<Rightarrow> (string \<times> string) option" where
  "json_str [] = None"
| "json_str (c # s) = (if c = CHR 0x22 then Some ([], s)
     else if json_plain c then map_option (\<lambda>(t, r). (c # t, r)) (json_str s) else None)"

fun json_val :: "nat \<Rightarrow> string \<Rightarrow> (json \<times> string) option"
  and json_items :: "nat \<Rightarrow> string \<Rightarrow> (json list \<times> string) option"
  and json_members :: "nat \<Rightarrow> string \<Rightarrow> ((string \<times> json) list \<times> string) option" where
  "json_val 0 s = None"
| "json_val (Suc n) s =
     (let r = json_ws s in
      if starts (CHR 0x22) r then map_option (\<lambda>(t, q). (JString t, q)) (json_str (tl r))
      else if starts (CHR ''['') r then
        (if starts (CHR '']'') (json_ws (tl r)) then Some (JArray [], tl (json_ws (tl r)))
         else map_option (\<lambda>(js, q). (JArray js, q)) (json_items n (tl r)))
      else if starts (CHR ''{'') r then
        (if starts (CHR ''}'') (json_ws (tl r)) then Some (JObject [], tl (json_ws (tl r)))
         else map_option (\<lambda>(kvs, q). (JObject kvs, q)) (json_members n (tl r)))
      else None)"
| "json_items 0 s = None"
| "json_items (Suc n) s =
     do {
       (j, r) \<leftarrow> json_val n s;
       if starts (CHR '']'') (json_ws r) then Some ([j], tl (json_ws r))
       else if starts (CHR '','') (json_ws r) then do { (js, q) \<leftarrow> json_items n (tl (json_ws r)); Some (j # js, q) }
       else None }"
| "json_members 0 s = None"
| "json_members (Suc n) s =
     (if \<not> starts (CHR 0x22) (json_ws s) then None
      else do {
        (k, r) \<leftarrow> json_str (tl (json_ws s));
        if \<not> starts (CHR '':'') (json_ws r) then None
        else do {
          (j, p) \<leftarrow> json_val n (tl (json_ws r));
          if starts (CHR ''}'') (json_ws p) then Some ([(k, j)], tl (json_ws p))
          else if starts (CHR '','') (json_ws p) then do { (kvs, q) \<leftarrow> json_members n (tl (json_ws p)); Some ((k, j) # kvs, q) }
          else None } })"

definition json_read :: "string \<Rightarrow> json option" where
  "json_read s = (case json_val (2 * length s + 2) s of
     Some (j, r) \<Rightarrow> if json_ws r = [] then Some j else None
   | None \<Rightarrow> None)"

lemma plain_not_NUL: "json_plain c \<Longrightarrow> c \<noteq> NUL"
  by (auto simp: json_plain_def NUL_def)

lemma plain_c_str: "list_all json_plain s \<Longrightarrow> c_str s = s"
  by (rule c_str_id) (auto simp: list_all_iff dest: plain_not_NUL)

lemma base64_plain: "list_all json_plain (base64_encode bs)"
proof -
  have "list_all json_plain (CHR ''='' # s_base64_chars)"
    by (simp add: s_base64_chars_def json_plain_def)
  then show ?thesis using encode_chars[of bs] by (auto simp: list_all_iff)
qed

lemma json_str_plain: "list_all json_plain s \<Longrightarrow> json_str (s @ CHR 0x22 # r) = Some (s, r)"
  by (induction s) (auto simp: json_plain_def)

lemma json_ws_starts [simp]:
  "json_ws (CHR 0x22 # s) = CHR 0x22 # s" "json_ws (CHR '' '' # CHR 0x22 # s) = CHR 0x22 # s"
  "json_ws (CHR ''{'' # s) = CHR ''{'' # s" "json_ws (CHR ''}'' # s) = CHR ''}'' # s"
  "json_ws (CHR ''['' # s) = CHR ''['' # s" "json_ws (CHR '']'' # s) = CHR '']'' # s"
  "json_ws (CHR '','' # s) = CHR '','' # s" "json_ws (CHR '':'' # s) = CHR '':'' # s" "json_ws [] = []"
  by (simp_all add: json_ws_def)

lemma starts_simps [simp]: "starts c [] = False" "starts c (d # s) \<longleftrightarrow> d = c"
  by (simp_all add: starts_def)

text \<open>The text of an array of objects with the two members, as JSON has it.\<close>

definition json_pair :: "string \<times> string \<Rightarrow> string" where
  "json_pair kv = ''{'' @ [CHR 0x22] @ ''host'' @ [CHR 0x22] @ '': '' @ [CHR 0x22] @ fst kv @ [CHR 0x22] @ '','' @
     [CHR 0x22] @ ''ai'' @ [CHR 0x22] @ '': '' @ [CHR 0x22] @ snd kv @ [CHR 0x22] @ ''}''"

fun json_pairs :: "(string \<times> string) list \<Rightarrow> string" where
  "json_pairs [] = []"
| "json_pairs [kv] = json_pair kv"
| "json_pairs (kv # kvs) = json_pair kv @ '','' @ json_pairs kvs"

definition json_array :: "(string \<times> string) list \<Rightarrow> string" where
  "json_array kvs = ''['' @ json_pairs kvs @ '']''"

definition json_doc :: "(string \<times> string) list \<Rightarrow> json" where
  "json_doc kvs = JArray (map (\<lambda>(k, v). JObject [(''host'', JString k), (''ai'', JString v)]) kvs)"

definition cache_pairs :: "dns_env \<Rightarrow> (string \<times> host_info) list \<Rightarrow> (string \<times> string) list" where
  "cache_pairs e m = map (\<lambda>(k, h). (k, base64_encode (host_info_bytes (de_padding e) h))) m"

lemma cache_pairs_simps [simp]:
  "cache_pairs e [] = []"
  "cache_pairs e ((k, h) # m) = (k, base64_encode (host_info_bytes (de_padding e) h)) # cache_pairs e m"
  by (simp_all add: cache_pairs_def)

text \<open>The text of such an array reads back as its document.\<close>

lemma json_val_pair:
  assumes "list_all json_plain k" "list_all json_plain v"
  shows "json_val (Suc (Suc (Suc (Suc n)))) (json_pair (k, v) @ r) = Some (JObject [(''host'', JString k), (''ai'', JString v)], r)"
proof -
  have "json_str (''host'' @ CHR 0x22 # q) = Some (''host'', q)" "json_str (''ai'' @ CHR 0x22 # q) = Some (''ai'', q)" for q
    by (rule json_str_plain, simp add: json_plain_def)+
  then show ?thesis
    using json_str_plain[OF assms(1)] json_str_plain[OF assms(2)] by (simp add: json_pair_def)
qed

lemma json_items_pairs:
  assumes "\<And>kv n r. kv \<in> set kvs \<Longrightarrow> json_val (Suc (Suc (Suc (Suc n)))) (json_pair kv @ r) = Some (obj kv, r)"
    and "kvs \<noteq> []" "length kvs + 4 \<le> n"
  shows "json_items n (json_pairs kvs @ CHR '']'' # r) = Some (map obj kvs, r)"
  using assms
proof (induction kvs arbitrary: n rule: json_pairs.induct)
  case (2 kv)
  define n' where "n' = n - 5"
  then have n: "n = Suc (Suc (Suc (Suc (Suc n'))))" using 2(3) by simp
  show ?case using 2(1)[of kv n'] by (simp add: n del: json_val.simps)
next
  case (3 kv kv' kvs)
  define n' where "n' = n - 5"
  then have n: "n = Suc (Suc (Suc (Suc (Suc n'))))" using 3(4) by simp
  have "json_items (Suc (Suc (Suc (Suc n')))) (json_pairs (kv' # kvs) @ CHR '']'' # r) = Some (map obj (kv' # kvs), r)"
    using 3(4) by (intro 3(1)[OF 3(2)]) (auto simp: n)
  moreover have "json_items n (json_pairs (kv # kv' # kvs) @ CHR '']'' # r) = do {
      (js, q) \<leftarrow> json_items (Suc (Suc (Suc (Suc n')))) (json_pairs (kv' # kvs) @ CHR '']'' # r); Some (obj kv # js, q) }"
    using 3(2)[of kv n'] by (simp add: n del: json_val.simps json_items.simps json_pairs.simps) (simp del: json_val.simps)
  ultimately show ?case by simp
qed simp

lemma json_pairs_length: "3 * length kvs \<le> length (json_pairs kvs) + 2"
  by (induction kvs rule: json_pairs.induct) (simp_all add: json_pair_def)

lemma plain_no_NUL: "list_all json_plain s \<Longrightarrow> NUL \<notin> set s"
  by (auto simp: list_all_iff dest: plain_not_NUL)

lemma json_array_no_NUL:
  assumes "\<forall>(k, v) \<in> set kvs. list_all json_plain k \<and> list_all json_plain v"
  shows "NUL \<notin> set (json_array kvs)"
proof -
  have pair: "NUL \<notin> set (json_pair kv)" if "kv \<in> set kvs" for kv
    using assms that plain_no_NUL[of "fst kv"] plain_no_NUL[of "snd kv"]
    by (cases kv) (auto simp: json_pair_def NUL_def)
  have "NUL \<notin> set (json_pairs ps)" if "\<And>kv. kv \<in> set ps \<Longrightarrow> NUL \<notin> set (json_pair kv)" for ps
    using that by (induction ps rule: json_pairs.induct) (simp_all add: NUL_def)
  from this[OF pair] show ?thesis by (simp add: json_array_def NUL_def)
qed

lemma json_read_array:
  assumes "\<forall>(k, v) \<in> set kvs. list_all json_plain k \<and> list_all json_plain v"
  shows "json_read (json_array kvs) = Some (json_doc kvs)"
proof (cases "kvs = []")
  case True
  then show ?thesis by (simp add: json_read_def json_array_def json_doc_def eval_nat_numeral)
next
  case False
  let ?t = "json_array kvs"
  obtain a q where p: "json_pairs kvs = CHR ''{'' # q" using False by (cases kvs rule: json_pairs.cases) (simp_all add: json_pair_def)
  have l: "length kvs + 4 \<le> 2 * length ?t + 1"
    using json_pairs_length[of kvs] False by (cases kvs) (simp_all add: json_array_def)
  have "json_items (2 * length ?t + 1) (json_pairs kvs @ CHR '']'' # []) =
    Some (map (\<lambda>(k, v). JObject [(''host'', JString k), (''ai'', JString v)]) kvs, [])"
    by (rule json_items_pairs) (use False assms l json_val_pair in \<open>auto simp del: json_val.simps\<close>)
  moreover have "json_ws (json_pairs kvs @ '']'') = json_pairs kvs @ '']''" using p by simp
  moreover have "?t = CHR ''['' # json_pairs kvs @ '']''" by (simp add: json_array_def)
  moreover have "2 * length ?t + 2 = Suc (2 * length ?t + 1)" by simp
  ultimately show ?thesis
    using p by (simp add: json_read_def json_doc_def del: json_items.simps)
qed

text \<open>The comma goes after every object but the last, counted in 32 bits.\<close>

lemma sync_entries_pairs:
  assumes "\<And>k h. (k, h) \<in> set m \<Longrightarrow> list_all json_plain k"
    and "i + length m < 2 ^ 32" "len = i + length m"
  shows "sync_entries e len i m = json_pairs (cache_pairs e m)"
  using assms
proof (induction m arbitrary: i)
  case (Cons x m)
  obtain k h where x: "x = (k, h)" by fastforce
  have c: "c_str k = k" "c_str (base64_encode bs) = base64_encode bs" for bs
    using Cons.prems(1)[of k h] x by (simp_all add: plain_c_str base64_plain)
  have u: "u32 (Suc i) = Suc i" using Cons.prems(2) by (simp add: u32_def)
  have IH: "sync_entries e len (Suc i) m = json_pairs (cache_pairs e m)"
    using Cons.IH[of "Suc i"] Cons.prems(1)[OF list.set_intros(2)] Cons.prems(2,3) by simp
  show ?case
  proof (cases m)
    case Nil
    then show ?thesis using x c u Cons.prems(3) by (simp add: json_pair_def)
  next
    case (Cons y m')
    then have "Suc i \<noteq> len" using Cons.prems(3) by simp
    then show ?thesis using x c u IH Cons by (cases y) (simp add: json_pair_def)
  qed
qed simp

lemma read_records_pairs:
  assumes "\<And>k h. (k, h) \<in> set m \<Longrightarrow> list_all json_plain k \<and> host_info_ok h" and "length (de_padding e) = 4"
  shows "read_records e (map (\<lambda>(k, v). JObject [(''host'', JString k), (''ai'', JString v)]) (cache_pairs e m)) m0 =
     Some (True, foldl (\<lambda>m' (k, h). smap_upd k h m') m0 m)"
  using assms(1)
proof (induction m arbitrary: m0)
  case (Cons x m)
  obtain k h where x: "x = (k, h)" by fastforce
  have k: "list_all json_plain k" "host_info_ok h" using Cons.prems[of k h] x by simp_all
  have d: "base64_decode (base64_encode (host_info_bytes (de_padding e) h)) = Some (host_info_bytes (de_padding e) h)"
    using host_info_bytes_length[OF k(2) assms(2)] by (intro base64_roundtrip) simp
  show ?case
    using Cons.IH[OF Cons.prems[OF list.set_intros(2)], of "smap_upd k h m0"] assms(2) x k d
    by (simp add: json_string_def plain_c_str base64_plain memcpy_host_info)
qed simp

text \<open>Insertion in ascending order appends.\<close>

lemma smap_upd_last: "(\<And>a. a \<in> fst ` set m \<Longrightarrow> a < k) \<Longrightarrow> smap_upd k v m = m @ [(k, v)]"
  by (induction k v m rule: smap_upd.induct) (auto dest: order.asym)

lemma foldl_smap_upd:
  "smap_ok (m0 @ m) \<Longrightarrow> foldl (\<lambda>m' (k, h). smap_upd k h m') m0 m = m0 @ m"
proof (induction m arbitrary: m0)
  case (Cons x m)
  obtain k h where x: "x = (k, h)" by fastforce
  have "a < k" if "a \<in> fst ` set m0" for a
    using Cons.prems that x by (auto simp: smap_ok_def sorted_append le_less)
  then have "smap_upd k h m0 = m0 @ [(k, h)]" by (rule smap_upd_last)
  then show ?case using Cons.IH[of "m0 @ [(k, h)]"] Cons.prems x by simp
qed simp

section \<open>Laws of the lookups\<close>

text \<open>The address that is taken: IPv4 before IPv6 for localhost, else the first of either.\<close>

definition addr_choice :: "string \<Rightarrow> addrinfo list \<Rightarrow> addrinfo option" where
  "addr_choice host as =
     (let v4 = find (\<lambda>a. ai_family a = AF_INET) as; v6 = find (\<lambda>a. ai_family a = AF_INET6) as
      in if host = ''localhost'' then (if v4 \<noteq> None then v4 else v6)
         else find (\<lambda>a. ai_family a = AF_INET \<or> ai_family a = AF_INET6) as)"

lemma scan_local: "scan_addrs True as (v4, v6) =
    (case v4 of Some a \<Rightarrow> Some a | None \<Rightarrow> find (\<lambda>a. ai_family a = AF_INET) as,
     case v6 of Some a \<Rightarrow> Some a | None \<Rightarrow> find (\<lambda>a. ai_family a = AF_INET6) as)"
  by (induction as arbitrary: v4 v6) (auto simp: Let_def AF_INET_def AF_INET6_def split: option.splits)

lemma scan_remote: "(case scan_addrs False as (None, None) of (v4, v6) \<Rightarrow> case v4 of Some a \<Rightarrow> Some a | None \<Rightarrow> v6) =
    find (\<lambda>a. ai_family a = AF_INET \<or> ai_family a = AF_INET6) as"
  by (induction as) (auto simp: Let_def AF_INET_def AF_INET6_def split: option.splits)

lemma scan_choice: "(case scan_addrs (host = ''localhost'') as (None, None) of (v4, v6) \<Rightarrow> case v4 of Some a \<Rightarrow> Some a | None \<Rightarrow> v6) =
    addr_choice host as"
  using scan_remote[of as] by (auto simp: addr_choice_def scan_local Let_def split: option.splits)

lemma nlookup_choice:
  "nlookup e host port h fam t =
     (let h0 = h\<lparr>hi_sa_len := 128, hi_sa := replicate 128 NUL\<rparr>
      in case de_getaddrinfo e (c_str host) (nat_str port) fam of (err, as) \<Rightarrow>
        if err \<noteq> 0 then Some (STATUS_ERROR, h0, t)
        else (case addr_choice host as of
           None \<Rightarrow> Some (STATUS_ERROR, h0, t)
         | Some a \<Rightarrow> do {
             (st, h1) \<leftarrow> take_addr port a h0;
             if st \<noteq> STATUS_OK then Some (STATUS_ERROR, h1, t)
             else let (now, t1) = dns_now e t in Some (STATUS_OK, h1\<lparr>hi_expires_s := u32 (u64 (now + 3600))\<rparr>, t1) }))"
proof -
  obtain err as where g: "de_getaddrinfo e (c_str host) (nat_str port) fam = (err, as)" by fastforce
  obtain v4 v6 where v: "scan_addrs (host = ''localhost'') as (None, None) = (v4, v6)" by fastforce
  have c: "(case v4 of Some a \<Rightarrow> Some a | None \<Rightarrow> v6) = addr_choice host as" using scan_choice[of host as] v by simp
  show ?thesis unfolding nlookup_def g v prod.case c ..
qed

lemma addr_choice_in: "addr_choice host as = Some a \<Longrightarrow> a \<in> set as \<and> (ai_family a = AF_INET \<or> ai_family a = AF_INET6)"
  by (auto simp: addr_choice_def Let_def find_Some_iff split: if_splits)

lemma nlookup_clock: "dns_now (e\<lparr>de_getaddrinfo := g\<rparr>) t = dns_now e t"
  by (simp add: dns_now_def)

lemma ai_lookup_env: "ai_lookup (e\<lparr>de_getaddrinfo := g\<rparr>) l c t = ai_lookup e l c t"
  by (cases "map_of (ac_map c) l") (simp_all add: ai_lookup_def nlookup_clock)

lemma ai_lookup_found:
  "ai_lookup e l c t = (Some h, c', t') \<Longrightarrow> c' = c \<and> map_of (ac_map c) l = Some h"
  by (auto simp: ai_lookup_def split: option.splits if_splits prod.splits)

lemma ai_lookup_or_add_found:
  assumes "ai_lookup_or_add e l h c t = (h1, c1, t1)"
  shows "map_of (ac_map c1) l = Some h1"
  using assms by (auto simp: ai_lookup_or_add_def dest: ai_lookup_found split: option.splits prod.splits)

lemma ai_lookup_smap: "ai_lookup e l c t = (r, c', t') \<Longrightarrow> smap_ok (ac_map c) \<Longrightarrow> smap_ok (ac_map c')"
  by (auto simp: ai_lookup_def split: option.splits if_splits prod.splits)

text \<open>What a successful lookup leaves in the cache.\<close>

definition cached_as :: "string \<Rightarrow> host_info \<Rightarrow> nresolver \<Rightarrow> bool" where
  "cached_as key h r \<longleftrightarrow> (nr_use_cache r \<longrightarrow> (\<forall>c. nr_ai_cache r = Some c \<longrightarrow> map_of (ac_map c) key = Some h))"

lemma lookup_inline_cached:
  assumes "lookup_inline e host port out r t = Some (st, h, r', t')"
  shows "nr_is_initd r' = nr_is_initd r \<and> (st = STATUS_OK \<longrightarrow> cached_as (get_cache_key host port) h r')"
proof -
  obtain s0 h0 t1 where n: "nlookup e host port host_info_new AF_UNSPEC t = Some (s0, h0, t1)"
    using assms by (auto simp: lookup_inline_def bind_eq_Some_conv)
  show ?thesis
  proof (cases "if nr_use_cache r then nr_ai_cache r else None")
    case None
    then show ?thesis using assms n by (auto simp: lookup_inline_def cached_as_def status_defs split: if_splits)
  next
    case (Some c)
    obtain h1 c1 t2 where a: "ai_lookup_or_add e (get_cache_key host port) h0 c t1 = (h1, c1, t2)" by (metis prod_cases3)
    have "map_of (ac_map c1) (get_cache_key host port) = Some h1" by (rule ai_lookup_or_add_found[OF a])
    then show ?thesis using assms n Some a by (auto simp: lookup_inline_def cached_as_def status_defs split: if_splits)
  qed
qed

lemma lookup_tryfast_cached:
  assumes "lookup_tryfast e host port out r t = Some (st, h, r', t')"
  shows "nr_is_initd r' \<and> (st = STATUS_OK \<longrightarrow> cached_as (get_cache_key host port) h r')"
proof -
  obtain s1 r1 where r1: "ensure_init e r = Some (s1, r1)" using assms by (auto simp: lookup_tryfast_def bind_eq_Some_conv)
  have i: "nr_is_initd r1" "s1 = STATUS_OK" using r1 by (auto simp: ensure_init_def nresolver_init_def bind_eq_Some_conv split: if_splits)
  define x where "x = (case (if nr_use_cache r1 then nr_ai_cache r1 else None) of
      None \<Rightarrow> (None, r1, t)
    | Some c \<Rightarrow> (case ai_lookup e (get_cache_key host port) c t of (h, c1, t1) \<Rightarrow> (h, r1\<lparr>nr_ai_cache := Some c1\<rparr>, t1)))"
  obtain ho r2 t1 where x: "x = (ho, r2, t1)" by (metis prod_cases3)
  have x2: "nr_is_initd r2" "ho = Some h' \<Longrightarrow> cached_as (get_cache_key host port) h' r2" for h'
    using x i unfolding x_def cached_as_def by (auto dest: ai_lookup_found split: option.splits prod.splits if_splits)
  have "(case x of (Some h, r2, t1) \<Rightarrow> Some (STATUS_OK, h, r2, t1)
      | (None, r2, t1) \<Rightarrow> if de_inet_pton e (c_str host) then lookup_inline e host port out r2 t1
                         else Some (STATUS_ERROR, out, r2, t1)) = Some (st, h, r', t')"
    using assms r1 i(2) unfolding x_def by (simp add: lookup_tryfast_def)
  then show ?thesis
    using x x2 lookup_inline_cached[of e host port out r2 t1 st h r' t']
    by (cases ho) (auto simp: status_defs split: if_splits)
qed

lemma lookup_sync_cached:
  assumes "lookup_sync e host port out r t = Some (STATUS_OK, h, r', t')"
  shows "nr_is_initd r' \<and> cached_as (get_cache_key host port) h r'"
proof -
  obtain s1 r1 s2 o1 r2 t1 where l: "ensure_init e r = Some (s1, r1)" "lookup_tryfast e host port out r1 t = Some (s2, o1, r2, t1)"
    "(if s2 = STATUS_OK then Some (STATUS_OK, o1, r2, t1) else lookup_inline e host port o1 r2 t1) = Some (STATUS_OK, h, r', t')"
    using assms by (auto simp: lookup_sync_def bind_eq_Some_conv status_defs split: if_splits)
  show ?thesis
    using l(3) lookup_tryfast_cached[OF l(2)] lookup_inline_cached[of e host port o1 r2 t1 STATUS_OK h r' t']
    by (cases "s2 = STATUS_OK") auto
qed

section \<open>Properties\<close>

text \<open>
  For a host other than localhost, a lookup takes the first address of a family it knows
  among those the system's resolver gives, of IPv4 or IPv6 alike, puts the port in it in
  network order, keeps its other bytes, and lets it expire in an hour.
\<close>

theorem nlookup_takes_first:
  assumes "de_getaddrinfo e (c_str host) (nat_str port) fam = (0, as)"
    and "\<forall>a \<in> set as. length (ai_addr a) = ai_addrlen a" "4 \<le> ai_addrlen a" "ai_addrlen a \<le> 128"
    and "find (\<lambda>a. ai_family a = AF_INET \<or> ai_family a = AF_INET6) as = Some a" "host \<noteq> ''localhost''"
  shows "\<exists>h' t'. nlookup e host port h fam t = Some (STATUS_OK, h', t') \<and>
    hi_sock_family h' = ai_family a \<and> hi_sa_len h' = int (ai_addrlen a) \<and> length (hi_sa h') = 128 \<and>
    take 2 (hi_sa h') = take 2 (ai_addr a) \<and> drop 4 (take (ai_addrlen a) (hi_sa h')) = drop 4 (ai_addr a) \<and>
    of_char (hi_sa h' ! 2) * 256 + of_char (hi_sa h' ! 3) = port mod 65536 \<and>
    hi_expires_s h' = u32 (u64 (fst (dns_now e t) + 3600))"
proof -
  have c: "addr_choice host as = Some a" using assms(5,6) by (simp add: addr_choice_def Let_def)
  have len: "length (ai_addr a) = ai_addrlen a" using assms(2) addr_choice_in[OF c] by blast
  define sa where "sa = ai_addr a @ drop (ai_addrlen a) (replicate 128 NUL)"
  have sa: "length sa = 128" using len assms(4) by (simp add: sa_def)
  define h' where "h' = h\<lparr>hi_sock_family := ai_family a, hi_sock_type := ai_socktype a, hi_sock_protocol := ai_protocol a,
      hi_sa_len := int (ai_addrlen a), hi_sa := put_port port sa, hi_expires_s := u32 (u64 (fst (dns_now e t) + 3600))\<rparr>"
  have e: "nlookup e host port h fam t = Some (STATUS_OK, h', snd (dns_now e t))"
    using assms(1,4) c len by (simp add: nlookup_choice take_addr_def Let_def case_prod_beta h'_def sa_def)
  have p: "hi_sa h' ! 2 = char_of (port div 256)" "hi_sa h' ! 3 = char_of (port mod 256)"
    using sa by (simp_all add: h'_def put_port_def)
  have "of_char (hi_sa h' ! 2) * 256 + of_char (hi_sa h' ! 3) = port div 256 mod 256 * 256 + port mod 256"
    unfolding p by simp
  also have "\<dots> = port mod 65536" using mod_mult2_eq[of port 256 256] by simp
  finally have port: "of_char (hi_sa h' ! 2) * 256 + of_char (hi_sa h' ! 3) = port mod 65536" .
  have "take 2 (hi_sa h') = take 2 (ai_addr a)"
    using len assms(3) by (simp add: h'_def put_port_def sa_def)
  moreover have "drop 4 (take (ai_addrlen a) (hi_sa h')) = drop 4 (ai_addr a)"
    using len assms(3) by (simp add: h'_def put_port_def sa_def drop_take)
  moreover have "length (hi_sa h') = 128" using sa by (simp add: h'_def put_port_def)
  ultimately show ?thesis using e port by (intro exI[of _ h'] exI[of _ "snd (dns_now e t)"]) (simp add: h'_def)
qed

definition demo_addrs :: "addrinfo list" where
  "demo_addrs = [\<lparr>ai_family = 1, ai_socktype = 1, ai_protocol = 0, ai_addrlen = 2, ai_addr = ''ab''\<rparr>,
     \<lparr>ai_family = AF_INET6, ai_socktype = 1, ai_protocol = 6, ai_addrlen = 28, ai_addr = CHR 0x0A # replicate 27 CHR 0x01\<rparr>,
     \<lparr>ai_family = AF_INET, ai_socktype = 1, ai_protocol = 6, ai_addrlen = 16, ai_addr = CHR 0x02 # replicate 15 CHR 0x01\<rparr>]"

text \<open>An environment with these addresses, in which the file of the cache holds \<open>s\<close>.\<close>

definition demo_dns :: "string \<Rightarrow> dns_env" where
  "demo_dns s = \<lparr>de_getaddrinfo = (\<lambda>_ _ _. (0, demo_addrs)), de_inet_pton = (\<lambda>_. False), de_tsc = (\<lambda>k. 7 * k), de_rt = (\<lambda>_. (100, 0)),
     de_json = (\<lambda>t. case json_read t of Some j \<Rightarrow> j | None \<Rightarrow> JOther),
     de_stat = (\<lambda>_. Some (True, int (length s))), de_fopen_r = (\<lambda>_. Some s), de_fopen_w = (\<lambda>_. True), de_fclose = (\<lambda>_. True),
     de_padding = replicate 4 NUL\<rparr>"

theorem nlookup_takes_first_witness:
  "\<exists>h' t'. nlookup (demo_dns []) ''example.org'' 8080 host_info_new AF_UNSPEC time_cache_new = Some (STATUS_OK, h', t') \<and>
    hi_sock_family h' = AF_INET6 \<and> hi_sa_len h' = 28 \<and> of_char (hi_sa h' ! 2) * 256 + of_char (hi_sa h' ! 3) = (8080 :: nat)"
proof -
  define a where "a = demo_addrs ! 1"
  have "find (\<lambda>a. ai_family a = AF_INET \<or> ai_family a = AF_INET6) demo_addrs = Some a"
    by (simp add: demo_addrs_def a_def AF_INET_def AF_INET6_def)
  moreover have "ai_addrlen a = 28" "ai_family a = AF_INET6" by (simp_all add: a_def demo_addrs_def)
  ultimately show ?thesis
    using nlookup_takes_first[of "demo_dns []" "''example.org''" 8080 AF_UNSPEC demo_addrs a host_info_new time_cache_new]
    by (auto simp: demo_dns_def) (auto simp: demo_addrs_def)
qed

text \<open>
  C36: What the cache writes to its file when it is destroyed is what it reads when it is
  created: for host names of printable ASCII without quotes and backslashes, which the code
  writes as they are, fewer than \<open>2 ^ 32\<close> entries, a file shorter than \<open>2 ^ 31\<close> bytes, file
  operations that succeed and give back what was written, and a parser that reads the plain
  part of JSON of \<open>json_read\<close>.
\<close>

theorem cache_file_roundtrip:
  assumes "smap_ok m" "\<forall>(k, h) \<in> set m. list_all json_plain k \<and> host_info_ok h" "length m < 2 ^ 32"
    and "length (de_padding e) = 4" "\<And>t j. json_read t = Some j \<Longrightarrow> de_json e t = j"
    and "de_fopen_w e (c_str file)" "de_fclose e (c_str file)"
    and "de_stat e (c_str file) = Some (True, int (length txt))" "de_fopen_r e (c_str file) = Some txt" "length txt < 2 ^ 31"
    and "ai_cache_delete e \<lparr>ac_map = m, ac_file = file\<rparr> = Some txt"
  shows "ai_cache_new e file = Some \<lparr>ac_map = m, ac_file = file\<rparr>"
proof -
  have f: "file \<noteq> []" using assms(11) by (auto simp: ai_cache_delete_def)
  have plain: "\<And>k h. (k, h) \<in> set m \<Longrightarrow> list_all json_plain k \<and> host_info_ok h" using assms(2) by auto
  have written: "txt = json_array (cache_pairs e m)"
    using assms(3,6,11) f sync_entries_pairs[of m 0 "length m" e] plain
    by (simp add: ai_cache_delete_def ai_sync_def json_array_def u32_def)
  have pairs: "\<forall>(k, v) \<in> set (cache_pairs e m). list_all json_plain k \<and> list_all json_plain v"
    using assms(2) by (auto simp: cache_pairs_def base64_plain)
  then have j: "de_json e txt = json_doc (cache_pairs e m)"
    unfolding written by (intro assms(5) json_read_array)
  have "NUL \<notin> set txt" unfolding written by (rule json_array_no_NUL[OF pairs])
  then have c: "c_str txt = txt" by (rule c_str_id)
  have sz: "s32 (u32_of_int (int (length txt))) = int (length txt)"
    using assms(10) by (intro s32_u32_of_int) simp_all
  have rd: "read_records e (map (\<lambda>(k, v). JObject [(''host'', JString k), (''ai'', JString v)]) (cache_pairs e m)) [] = Some (True, m)"
    using read_records_pairs[of m e "[]"] plain assms(4) foldl_smap_upd[of "[]" m] assms(1) by simp
  have "ai_read e file [] = Some (STATUS_OK, m)"
    using assms(7-9) rd sz c j by (simp add: ai_read_def Let_def json_doc_def)
  then show ?thesis using f by (simp add: ai_cache_new_def)
qed

definition demo_cache :: "(string \<times> host_info) list" where
  "demo_cache = [(''a:80'', host_info_new), (''b:443'', host_info_new\<lparr>hi_expires_s := 3700\<rparr>)]"

theorem cache_file_roundtrip_witness:
  "\<exists>txt. ai_cache_delete (demo_dns txt) \<lparr>ac_map = demo_cache, ac_file = ''f''\<rparr> = Some txt \<and>
    ai_cache_new (demo_dns txt) ''f'' = Some \<lparr>ac_map = demo_cache, ac_file = ''f''\<rparr>"
proof -
  define out where "out = json_array (cache_pairs (demo_dns []) demo_cache)"
  have p: "cache_pairs (demo_dns out) m = cache_pairs (demo_dns []) m" for m by (simp add: cache_pairs_def demo_dns_def)
  have ok: "smap_ok demo_cache" "\<forall>(k, h) \<in> set demo_cache. list_all json_plain k \<and> host_info_ok h"
    by (auto simp: demo_cache_def smap_ok_def json_plain_def host_info_new_ok host_info_ok_def host_info_new_def AF_INET_def
        SOCK_STREAM_def IPPROTO_TCP_def)
  have "length (base64_encode (host_info_bytes (replicate 4 NUL) h)) \<le> 306" if "host_info_ok h" for h
    using encode_length[of "host_info_bytes (replicate 4 NUL) h"] host_info_bytes_length[OF that, of "replicate 4 NUL"] by simp
  then have "length (base64_encode (host_info_bytes (replicate 4 NUL) (snd (demo_cache ! i)))) \<le> 306" if "i < 2" for i
    using ok(2) that by (auto simp: demo_cache_def less_2_cases_iff)
  from this[of 0] this[of 1] have len: "length out < 2 ^ 31"
    by (simp add: out_def json_array_def json_pair_def demo_dns_def demo_cache_def)
  have s: "sync_entries (demo_dns out) 2 0 demo_cache = json_pairs (cache_pairs (demo_dns out) demo_cache)"
    by (rule sync_entries_pairs) (use ok(2) in \<open>auto simp: demo_cache_def\<close>)
  have o: "''['' @ json_pairs (cache_pairs (demo_dns out) demo_cache) @ '']'' = out"
    unfolding p by (simp add: out_def json_array_def)
  have w: "de_fopen_w (demo_dns out) f" "de_fclose (demo_dns out) f" for f by (simp_all add: demo_dns_def)
  have l: "u32 (length demo_cache) = 2" by (simp add: demo_cache_def u32_def)
  have d: "ai_cache_delete (demo_dns out) \<lparr>ac_map = demo_cache, ac_file = ''f''\<rparr> = Some out"
    unfolding ai_cache_delete_def ai_sync_def using w l s
    by (simp add: o[simplified] del: sync_entries.simps json_pairs.simps)
  have "ai_cache_new (demo_dns out) ''f'' = Some \<lparr>ac_map = demo_cache, ac_file = ''f''\<rparr>"
  proof (rule cache_file_roundtrip[OF ok _ _ _ _ _ _ _ len d])
    show "de_json (demo_dns out) t = j" if "json_read t = Some j" for t j using that by (simp add: demo_dns_def)
  qed (simp_all add: demo_dns_def, simp add: demo_cache_def)
  then show ?thesis using d by blast
qed

text \<open>
  C37: After a lookup has succeeded, the same lookup is answered from the cache with the same
  address, without the system's resolver, until the address expires.
\<close>

theorem lookup_again_hits_cache:
  assumes "lookup_sync e host port out r t = Some (STATUS_OK, h, r', t')"
    and "nr_use_cache r'" "nr_ai_cache r' \<noteq> None" "hi_expires_s h = 0 \<or> fst (dns_now e t') \<le> hi_expires_s h"
  shows "\<exists>t2. lookup_sync (e\<lparr>de_getaddrinfo := g\<rparr>) host port out2 r' t' = Some (STATUS_OK, h, r', t2)"
proof -
  obtain c where c: "nr_ai_cache r' = Some c" using assms(3) by blast
  have i: "nr_is_initd r'" "map_of (ac_map c) (get_cache_key host port) = Some h"
    using lookup_sync_cached[OF assms(1)] assms(2) c by (simp_all add: cached_as_def)
  have "\<exists>t2. ai_lookup e (get_cache_key host port) c t' = (Some h, c, t2)"
    using i(2) assms(4) by (auto simp: ai_lookup_def split: prod.splits)
  then obtain t2 where l: "ai_lookup (e\<lparr>de_getaddrinfo := g\<rparr>) (get_cache_key host port) c t' = (Some h, c, t2)"
    by (auto simp: ai_lookup_env)
  have "r'\<lparr>nr_ai_cache := Some c\<rparr> = r'" using c by simp
  then show ?thesis
    using i(1) l assms(2) c by (intro exI[of _ t2]) (simp add: lookup_sync_def lookup_tryfast_def ensure_init_def)
qed

definition demo_resolver :: nresolver where
  "demo_resolver = nresolver_new\<lparr>nr_is_initd := True, nr_ai_cache := Some \<lparr>ac_map = [], ac_file = []\<rparr>\<rparr>"

lemma demo_now:
  assumes "g_cyles_us t = 0"
  shows "\<exists>t'. dns_now (demo_dns x) t = (100, t') \<and> g_cyles_us t' = 0"
proof -
  have "7 * (1 + readings t) - 7 * readings t = 7" by simp
  then have "sub64 (7 * Suc (readings t)) (7 * readings t) div 100000 = 0"
    by (simp add: sub64_def)
  then show ?thesis using assms by (simp add: dns_now_def demo_dns_def get_time_s_def use_cached_time_def Let_def ts_s_def u64_def)
qed

lemma demo_choice: "host \<noteq> ''localhost'' \<Longrightarrow> addr_choice host demo_addrs = Some (demo_addrs ! 1)"
  by (simp add: addr_choice_def demo_addrs_def AF_INET_def AF_INET6_def)

lemma demo_nlookup:
  assumes "g_cyles_us t = 0" "host \<noteq> ''localhost''"
  shows "\<exists>h' t'. nlookup (demo_dns x) host port h fam t = Some (STATUS_OK, h', t') \<and> hi_expires_s h' = 3700 \<and>
    hi_sock_family h' = AF_INET6 \<and> g_cyles_us t' = 0"
proof -
  obtain t' where t: "dns_now (demo_dns x) t = (100, t')" "g_cyles_us t' = 0" using demo_now[OF assms(1)] by blast
  have g: "de_getaddrinfo (demo_dns x) a b c = (0, demo_addrs)" for a b c by (simp add: demo_dns_def)
  have "\<exists>h1. take_addr port (demo_addrs ! 1) h0 = Some (STATUS_OK, h1) \<and> hi_sock_family h1 = AF_INET6" for h0
    by (simp add: take_addr_def demo_addrs_def)
  then obtain h1 where "take_addr port (demo_addrs ! 1) (h\<lparr>hi_sa_len := 128, hi_sa := replicate 128 NUL\<rparr>) = Some (STATUS_OK, h1)"
    "hi_sock_family h1 = AF_INET6" by blast
  then show ?thesis
    using t g demo_choice[OF assms(2)] by (simp add: nlookup_choice u32_def u64_def)
qed

lemma demo_lookup: "\<exists>h r t. lookup_sync (demo_dns []) ''h'' 80 host_info_new demo_resolver time_cache_new = Some (STATUS_OK, h, r, t) \<and>
    nr_use_cache r \<and> nr_ai_cache r \<noteq> None \<and> fst (dns_now (demo_dns []) t) \<le> hi_expires_s h"
proof -
  let ?e = "demo_dns []"
  have c: "g_cyles_us time_cache_new = 0" "''h'' \<noteq> ''localhost''" by (simp_all add: time_cache_new_def)
  obtain h t where n: "nlookup ?e ''h'' 80 host_info_new AF_UNSPEC time_cache_new = Some (STATUS_OK, h, t)" "hi_expires_s h = 3700"
    "g_cyles_us t = 0" using demo_nlookup[of time_cache_new "''h''" "[]" 80 host_info_new AF_UNSPEC] c by auto
  obtain t' where "dns_now ?e t = (100, t')" using demo_now[OF n(3)] by blast
  moreover have "de_inet_pton ?e x = False" for x by (simp add: demo_dns_def)
  ultimately show ?thesis
    using n by (simp add: lookup_sync_def lookup_tryfast_def lookup_inline_def ensure_init_def demo_resolver_def nresolver_new_def
      ai_lookup_def ai_lookup_or_add_def status_defs)
qed

theorem lookup_again_hits_cache_witness:
  "\<exists>h r t t2. lookup_sync (demo_dns []) ''h'' 80 host_info_new demo_resolver time_cache_new = Some (STATUS_OK, h, r, t) \<and>
    lookup_sync ((demo_dns [])\<lparr>de_getaddrinfo := \<lambda>_ _ _. (1, [])\<rparr>) ''h'' 80 host_info_new r t = Some (STATUS_OK, h, r, t2)"
  using demo_lookup lookup_again_hits_cache[of "demo_dns []" "''h''" 80 host_info_new demo_resolver time_cache_new] by blast

text \<open>An entry of the file that decodes to more bytes than the structure has is written past its end.\<close>

lemma cache_file_overflow:
  "base64_decode (c_str ai) = Some ds \<Longrightarrow> 152 < length ds \<Longrightarrow>
    read_records e [JObject [(''host'', JString k), (''ai'', JString ai)]] m = None"
  by (simp add: json_string_def host_info_memcpy_def)

text \<open>An IPv6 address that comes first is taken although there is an IPv4 address.\<close>

lemma nlookup_prefers_first:
  "\<exists>h t. nlookup (demo_dns []) ''h'' 80 host_info_new AF_UNSPEC time_cache_new = Some (STATUS_OK, h, t) \<and>
    hi_sock_family h = AF_INET6 \<and> (\<exists>a \<in> set demo_addrs. ai_family a = AF_INET)"
  using demo_nlookup[of time_cache_new "''h''" "[]" 80 host_info_new AF_UNSPEC] by (auto simp: time_cache_new_def demo_addrs_def)

end
