(* ===== verification/Hurl_Session.thy ===== *)
theory Hurl_Session
  imports Nconn_Tcp Hurl_Request Hurl_Path Hurl_Stat
begin

text \<open>
  The sessions and the thread object of \<^verbatim>\<open>src/hurl/hurl.cc\<close>: class \<^verbatim>\<open>session\<close> with
  its state machine \<^verbatim>\<open>run_state_machine\<close>, class \<^verbatim>\<open>t_hurl\<close> with the creation and the
  cleanup of connections and sessions, and the loop of a thread, \<^verbatim>\<open>t_run\<close>.

  One thread is modelled: its state is the record \<open>hurl_world\<close>, the event loop with the
  operating system, extended by the objects on the heap (connections and sessions, maps
  from addresses), the fields of \<^verbatim>\<open>t_hurl\<close> and the globals of the program that change.  A
  connection's address is that of its descriptor object; deleting it removes both, and
  reading a deleted object is undefined.  The globals the options set once are the record
  \<open>hurl_cfg\<close>.  What is printed is appended to \<open>w_out\<close>.  The virtual methods of the session
  are the record \<open>ses_virt\<close>, the classes of connections the function \<open>cls\<close>.
\<close>

section \<open>State\<close>

datatype hurl_cb = evr_fd_readable_cb | evr_fd_writeable_cb | evr_fd_error_cb | evr_fd_timeout_cb

text \<open>\<open>ses_sub\<close> are the members of the derived class.\<close>

record 's session =
  ses_nconn :: "nat option"
  ses_t_hurl :: bool
  ses_timer_obj :: "nat option"
  ses_in_q :: "nbq option"
  ses_out_q :: "nbq option"
  ses_request :: bool
  ses_idx :: nat
  ses_goaway :: bool
  ses_streams_closed :: nat
  ses_h2_body_q :: "nbq option"
  ses_sub :: 's

record hurl_cfg =
  g_verbose :: bool
  g_color :: bool
  g_rate_delta_us :: nat
  g_num_threads :: nat
  g_reqs_per_conn :: int
  g_random_xfwd :: bool
  g_path_multi :: bool
  g_chunk_size_kb :: nat

record ('o, 'k, 's) hurl_world = "(hurl_cb, 'o) evr_world" +
  conns :: "nat \<Rightarrow> 'k option"
  sessions :: "nat \<Rightarrow> 's session option"
  h_stopped :: bool
  h_nconn_set :: "nat set"
  h_stat :: thread_stat
  h_num_in_progress :: nat
  h_orphan_in_q :: nbq
  h_orphan_out_q :: nbq
  h_request :: request
  h_is_initd :: bool
  h_num_conn_parallel_max :: nat
  h_num_to_request :: int
  g_test_finished :: bool
  g_paths :: path_globals
  w_out :: string

type_synonym ('o, 'x, 's) hworld = "('o, 'x nconn_tcp_scheme, 's) hurl_world"
type_synonym ('o, 'x, 's, 'r) hres = "('r \<times> ('o, 'x, 's) hworld) option"

text \<open>A class of connections: its constructor with the options of \<^verbatim>\<open>create_conn\<close>, its virtual methods, and
  \<^verbatim>\<open>show_tls_info\<close> on its objects.\<close>

record ('x, 'w) nc_class =
  nk_new :: "request \<Rightarrow> 'x nconn_tcp_scheme"
  nk_virt :: "('x nconn_tcp_scheme, 'w) nc_virt"
  nk_show_tls_info :: "'x nconn_tcp_scheme \<Rightarrow> 'w \<Rightarrow> int \<times> 'w"

record ('s, 'w) ses_virt =
  sv_new :: "alpn \<Rightarrow> 's"
  sv_sconnected :: "nat \<Rightarrow> 'w \<Rightarrow> (int \<times> 'w) option"
  sv_srequest :: "nat \<Rightarrow> 'w \<Rightarrow> (int \<times> 'w) option"
  sv_sread :: "nat \<Rightarrow> byte list \<Rightarrow> nat \<Rightarrow> 'w \<Rightarrow> (int \<times> 'w) option"
  sv_swrite :: "nat \<Rightarrow> 'w \<Rightarrow> (int \<times> 'w) option"

record ('o, 'x, 's) hurl_env =
  he_cls :: "scheme \<Rightarrow> ('x, ('o, 'x, 's) hworld) nc_class option"
  he_ses :: "('s, ('o, 'x, 's) hworld) ses_virt"

section \<open>Access to the heap\<close>

definition put_conn :: "nat \<Rightarrow> 'x nconn_tcp_scheme \<Rightarrow> ('o, 'x, 's) hworld \<Rightarrow> ('o, 'x, 's) hworld" where
  "put_conn p c w = w\<lparr>conns := (conns w)(p \<mapsto> c)\<rparr>"

definition put_ses :: "nat \<Rightarrow> 's session \<Rightarrow> ('o, 'x, 's) hworld \<Rightarrow> ('o, 'x, 's) hworld" where
  "put_ses a s w = w\<lparr>sessions := (sessions w)(a \<mapsto> s)\<rparr>"

definition upd_stat :: "(t_stat_cntr \<Rightarrow> t_stat_cntr) \<Rightarrow> ('o, 'x, 's) hworld \<Rightarrow> ('o, 'x, 's) hworld" where
  "upd_stat f w = w\<lparr>h_stat := (h_stat w)\<lparr>ts_stat := f (ts_stat (h_stat w))\<rparr>\<rparr>"

text \<open>A virtual method of the connection at \<open>p\<close>.\<close>

definition on_conn ::
  "('o, 'x, 's) hurl_env \<Rightarrow>
   (('x nconn_tcp_scheme, ('o, 'x, 's) hworld) nc_virt \<Rightarrow> nat \<Rightarrow> 'x nconn_tcp_scheme \<times> ('o, 'x, 's) hworld \<Rightarrow>
      (int \<times> 'x nconn_tcp_scheme \<times> ('o, 'x, 's) hworld) option) \<Rightarrow>
   nat \<Rightarrow> ('o, 'x, 's) hworld \<Rightarrow> ('o, 'x, 's, int) hres" where
  "on_conn env f p w =
     do { c \<leftarrow> conns w p; k \<leftarrow> he_cls env (nc_scheme c);
          (r, c1, w1) \<leftarrow> f (nk_virt k) p (c, w);
          Some (r, put_conn p c1 w1) }"

definition set_state :: "nc_conn_state \<Rightarrow> nat \<Rightarrow> ('o, 'x, 's) hworld \<Rightarrow> ('o, 'x, 's) hworld option" where
  "set_state st p w = map_option (\<lambda>c. put_conn p (c\<lparr>nc_state := st\<rparr>) w) (conns w p)"

section \<open>The thread object\<close>

text \<open>\<^verbatim>\<open>t_hurl::cancel_timer\<close>; the event loop exists from \<^verbatim>\<open>init\<close> on.\<close>

definition t_hurl_cancel_timer :: "nat option \<Rightarrow> ('o, 'x, 's) hworld \<Rightarrow> ('o, 'x, 's, int) hres" where
  "t_hurl_cancel_timer t w = (case t of None \<Rightarrow> Some (STATUS_OK, w) | Some a \<Rightarrow> cancel_event (Some a) w)"

definition can_request :: "('o, 'x, 's) hworld \<Rightarrow> bool" where
  "can_request w \<longleftrightarrow> \<not> g_test_finished w \<and> \<not> h_stopped w \<and> h_num_in_progress w < h_num_conn_parallel_max w \<and>
     (h_num_to_request w < 0 \<or>
      u32_of_int (h_num_to_request w) > u64 (m_reqs (ts_stat (h_stat w)) + h_num_in_progress w))"

definition session_create ::
  "hurl_cfg \<Rightarrow> ('o, 'x, 's) hurl_env \<Rightarrow> nat \<Rightarrow> ('o, 'x, 's) hworld \<Rightarrow> ('o, 'x, 's, nat) hres" where
  "session_create cfg env p w =
     do { c \<leftarrow> conns w p;
          let a = next_addr w;
              q = nbq_new (g_chunk_size_kb cfg * 1024);
              s = \<lparr>ses_nconn = Some p, ses_t_hurl = True, ses_timer_obj = None, ses_in_q = Some q, ses_out_q = Some q,
                   ses_request = True, ses_idx = 0, ses_goaway = False, ses_streams_closed = 0, ses_h2_body_q = None,
                   ses_sub = sv_new (he_ses env) (nc_alpn c)\<rparr>
          in Some (a, put_ses a s (put_conn p (c\<lparr>nc_data := Some a\<rparr>) (w\<lparr>next_addr := Suc a\<rparr>))) }"

text \<open>\<^verbatim>\<open>session_cleanup\<close>: both objects are deleted.\<close>

definition session_cleanup ::
  "('o, 'x, 's) hurl_env \<Rightarrow> nat option \<Rightarrow> nat option \<Rightarrow> ('o, 'x, 's) hworld \<Rightarrow> ('o, 'x, 's, int) hres" where
  "session_cleanup env ses conn w =
     do {
       w1 \<leftarrow> (case ses of
               None \<Rightarrow> Some w
             | Some a \<Rightarrow> do { s \<leftarrow> sessions w a;
                             Some (if ses_t_hurl s then w\<lparr>sessions := (sessions w)(a := None)\<rparr> else w) });
       (case conn of
          None \<Rightarrow> Some (STATUS_OK, w1)
        | Some p \<Rightarrow>
            do { (_, w2) \<leftarrow> on_conn env nc_cleanup p (w1\<lparr>h_nconn_set := h_nconn_set w1 - {p}\<rparr>);
                 Some (STATUS_OK, w2\<lparr>conns := (conns w2)(p := None), fd_store := (fd_store w2)(p := None)\<rparr>) }) }"

text \<open>\<^verbatim>\<open>create_conn\<close>: the address of the new connection, or null for a scheme without a class.\<close>

definition create_conn :: "hurl_cfg \<Rightarrow> ('o, 'x, 's) hurl_env \<Rightarrow> ('o, 'x, 's) hworld \<Rightarrow> ('o, 'x, 's, nat option) hres" where
  "create_conn cfg env w =
     (case he_cls env (rq_scheme (h_request w)) of
        None \<Rightarrow> Some (None, w)
      | Some k \<Rightarrow>
          let p = next_addr w;
              c = snd (set_opt OPT_TCP_NO_LINGER 1 (nk_new k (h_request w)));
              c1 = set_host_info (rq_host_info (h_request w))
                     (c\<lparr>nc_ctx := Some 0, nc_num_reqs_per_conn := g_reqs_per_conn cfg, nc_evr_loop := True\<rparr>)
          in do {
            w1 \<leftarrow> setup_evr_fd p (Some evr_fd_readable_cb) (Some evr_fd_writeable_cb) (Some evr_fd_error_cb)
                    (w\<lparr>next_addr := Suc p, fd_store := (fd_store w)(p \<mapsto> evr_fd_zero)\<rparr>);
            Some (Some p, put_conn p c1 w1) })"

section \<open>Sessions\<close>

definition ses_log_status :: "nat \<Rightarrow> nat \<Rightarrow> ('o, 'x, 's) hworld \<Rightarrow> ('o, 'x, 's) hworld option" where
  "ses_log_status a status w =
     do { s \<leftarrow> sessions w a;
          Some (if \<not> ses_t_hurl s then w else w\<lparr>h_stat := request_log_status status (h_stat w)\<rparr>) }"

text \<open>\<^verbatim>\<open>request_complete\<close>, with the pause before the next request.\<close>

definition request_complete ::
  "hurl_cfg \<Rightarrow> 'o sys_env \<Rightarrow> nat \<Rightarrow> ('o, 'x, 's) hworld \<Rightarrow> ('o, 'x, 's, int) hres" where
  "request_complete cfg sys a w =
     do {
       s \<leftarrow> sessions w a;
       let w1 = put_ses a (s\<lparr>ses_streams_closed := u32 (ses_streams_closed s + 1)\<rparr>) w;
       if \<not> ses_t_hurl s then Some (STATUS_ERROR, w1)
       else (case ses_nconn s of
           None \<Rightarrow> Some (STATUS_ERROR, w1)
         | Some p \<Rightarrow>
             do {
               c \<leftarrow> conns w1 p;
               let w2 = put_conn p (bump_num_requested c) w1;
                   w3 = (if h_num_in_progress w2 \<noteq> 0
                         then upd_stat (\<lambda>t. t\<lparr>m_resp_count := u64 (m_resp_count t + 1)\<rparr>)
                                (w2\<lparr>h_num_in_progress := h_num_in_progress w2 - 1\<rparr>)
                         else w2)
               in Some (STATUS_OK,
                    if g_rate_delta_us cfg \<noteq> 0 \<and> \<not> g_test_finished w3
                    then w3\<lparr>w_os := sys_usleep sys (u32 (u64 (g_rate_delta_us cfg * g_num_threads cfg))) (w_os w3)\<rparr>
                    else w3) }) }"

definition ses_cancel_timer :: "nat option \<Rightarrow> nat \<Rightarrow> ('o, 'x, 's) hworld \<Rightarrow> ('o, 'x, 's, int) hres" where
  "ses_cancel_timer t a w =
     do { s \<leftarrow> sessions w a;
          if \<not> ses_t_hurl s then Some (STATUS_ERROR, w)
          else do { (st, w1) \<leftarrow> t_hurl_cancel_timer t w;
                    Some (if st \<noteq> STATUS_OK then STATUS_ERROR else STATUS_OK, w1) } }"

section \<open>The state machine\<close>

text \<open>
  Closing a connection and its session, with the session's timer: the callback ends with
  \<^const>\<open>STATUS_DONE\<close>.
\<close>

definition close_conn :: "('o, 'x, 's) hurl_env \<Rightarrow> nat \<Rightarrow> ('o, 'x, 's) hworld \<Rightarrow> ('o, 'x, 's, int) hres" where
  "close_conn env p w =
     do {
       c \<leftarrow> conns w p;
       w1 \<leftarrow> (case nc_data c of
               None \<Rightarrow> Some w
             | Some a \<Rightarrow>
                 do { s \<leftarrow> sessions w a;
                      (_, w1) \<leftarrow> ses_cancel_timer (ses_timer_obj s) a w;
                      Some (put_ses a (s\<lparr>ses_timer_obj := None\<rparr>) w1) });
       (_, w2) \<leftarrow> session_cleanup env (nc_data c) (Some p) w1;
       Some (STATUS_DONE, w2) }"

text \<open>A round from the label \<^verbatim>\<open>state_top\<close> goes to the label again with a mode, or returns.\<close>

datatype sm_next = Goto_Top evr_mode | Return int

type_synonym ('o, 'x, 's) sm_res = "(sm_next \<times> ('o, 'x, 's) hworld) option"

definition top_done :: "evr_mode \<Rightarrow> nat \<Rightarrow> ('o, 'x, 's) hworld \<Rightarrow> ('o, 'x, 's) sm_res" where
  "top_done mode p w = map_option (\<lambda>w1. (Goto_Top mode, w1)) (set_state NC_STATE_DONE p w)"

definition ret :: "('o, 'x, 's, int) hres \<Rightarrow> ('o, 'x, 's) sm_res" where
  "ret r = map_option (\<lambda>(st, w). (Return st, w)) r"

definition sm_free :: "('o, 'x, 's) hurl_env \<Rightarrow> evr_mode \<Rightarrow> nat \<Rightarrow> ('o, 'x, 's) hworld \<Rightarrow> ('o, 'x, 's) sm_res" where
  "sm_free env mode p w =
     do {
       (st, w1) \<leftarrow> on_conn env v_ncsetup p w;
       if st \<noteq> NC_STATUS_OK then Some (Return STATUS_ERROR, w1\<lparr>g_test_finished := True\<rparr>)
       else map_option (\<lambda>w2. (Goto_Top mode, w2)) (set_state NC_STATE_CONNECTING p w1) }"

definition sm_connecting ::
  "hurl_cfg \<Rightarrow> ('o, 'x, 's) hurl_env \<Rightarrow> nat \<Rightarrow> ('o, 'x, 's) hworld \<Rightarrow> ('o, 'x, 's) sm_res" where
  "sm_connecting cfg env p w =
     do {
       (st, w1) \<leftarrow> on_conn env v_ncconnect p w;
       if st = NC_STATUS_ERROR
       then Some (Return STATUS_ERROR, upd_stat (\<lambda>t. t\<lparr>m_errors := u64 (m_errors t + 1)\<rparr>) w1)
       else do {
         c \<leftarrow> conns w1 p; k \<leftarrow> he_cls env (nc_scheme c);
         if v_is_connecting (nk_virt k) c then Some (Return STATUS_OK, w1)
         else do {
           w2 \<leftarrow> set_state NC_STATE_CONNECTED p w1;
           (st, w3) \<leftarrow> (if g_verbose cfg then do { c \<leftarrow> conns w2 p; Some (nk_show_tls_info k c w2) }
                        else Some (STATUS_OK, w2));
           if st \<noteq> STATUS_OK then Some (Return STATUS_ERROR, w3)
           else do {
             (a, w4) \<leftarrow> session_create cfg env p w3;
             (st, w5) \<leftarrow> sv_sconnected (he_ses env) a w4;
             if st \<noteq> STATUS_OK then Some (Return STATUS_ERROR, w5)
             else do {
               (st, w6) \<leftarrow> sv_srequest (he_ses env) a w5;
               if st \<noteq> STATUS_OK then Some (Return STATUS_ERROR, w6)
               else Some (Goto_Top EVR_MODE_WRITE, w6) } } } } }"

text \<open>The queues a connected session reads to and writes from; a session without one uses the thread's.\<close>

definition get_in_q :: "nat \<Rightarrow> ('o, 'x, 's) hworld \<Rightarrow> nbq option" where
  "get_in_q a w = map_option (\<lambda>s. case ses_in_q s of Some q \<Rightarrow> q | None \<Rightarrow> h_orphan_in_q w) (sessions w a)"

definition put_in_q :: "nat \<Rightarrow> nbq \<Rightarrow> ('o, 'x, 's) hworld \<Rightarrow> ('o, 'x, 's) hworld option" where
  "put_in_q a q w = map_option (\<lambda>s. case ses_in_q s of
       Some _ \<Rightarrow> put_ses a (s\<lparr>ses_in_q := Some q\<rparr>) w | None \<Rightarrow> w\<lparr>h_orphan_in_q := q\<rparr>) (sessions w a)"

definition get_out_q :: "nat \<Rightarrow> ('o, 'x, 's) hworld \<Rightarrow> nbq option" where
  "get_out_q a w = map_option (\<lambda>s. case ses_out_q s of Some q \<Rightarrow> q | None \<Rightarrow> h_orphan_out_q w) (sessions w a)"

definition put_out_q :: "nat \<Rightarrow> nbq \<Rightarrow> ('o, 'x, 's) hworld \<Rightarrow> ('o, 'x, 's) hworld option" where
  "put_out_q a q w = map_option (\<lambda>s. case ses_out_q s of
       Some _ \<Rightarrow> put_ses a (s\<lparr>ses_out_q := Some q\<rparr>) w | None \<Rightarrow> w\<lparr>h_orphan_out_q := q\<rparr>) (sessions w a)"

text \<open>After bytes have been parsed: write what is left, close, or send the next request.\<close>

definition sm_after_read ::
  "hurl_cfg \<Rightarrow> ('o, 'x, 's) hurl_env \<Rightarrow> nat \<Rightarrow> nat \<Rightarrow> ('o, 'x, 's) hworld \<Rightarrow> ('o, 'x, 's) sm_res" where
  "sm_after_read cfg env p a w =
     do {
       q \<leftarrow> get_in_q a w;
       w1 \<leftarrow> (if \<not> g_verbose cfg then put_in_q a (reset_write q) w else Some w);
       oq \<leftarrow> get_out_q a w1;
       if read_avail oq \<noteq> 0 then Some (Goto_Top EVR_MODE_WRITE, w1)
       else do {
         s \<leftarrow> sessions w1 a;
         if ses_streams_closed s \<noteq> 0
         then do {
           c \<leftarrow> conns w1 p;
           let w2 = put_ses a (s\<lparr>ses_h2_body_q := None\<rparr>) w1;
           if ses_goaway s \<or> \<not> can_reuse c \<or> \<not> can_request w1 then top_done EVR_MODE_READ p w2
           else do {
             (_, w3) \<leftarrow> sv_srequest (he_ses env) a w2;
             s3 \<leftarrow> sessions w3 a;
             Some (Goto_Top EVR_MODE_WRITE, put_ses a (s3\<lparr>ses_streams_closed := 0\<rparr>) w3) } }
         else Some (Goto_Top EVR_MODE_READ, w1) } }"

definition sm_read ::
  "hurl_cfg \<Rightarrow> ('o, 'x, 's) hurl_env \<Rightarrow> nat \<Rightarrow> nat \<Rightarrow> ('o, 'x, 's) hworld \<Rightarrow> ('o, 'x, 's) sm_res" where
  "sm_read cfg env p a w =
     do {
       q \<leftarrow> get_in_q a w;
       c \<leftarrow> conns w p; k \<leftarrow> he_cls env (nc_scheme c);
       (st, bytes, q1, c1, w1) \<leftarrow> nc_read (nk_virt k) p (Some q) (c, w);
       w2 \<leftarrow> put_in_q a (the q1) (put_conn p c1 w1);
       let w3 = upd_stat (\<lambda>t. t\<lparr>m_bytes_read := u64 (m_bytes_read t + length bytes)\<rparr>) w2;
       if st = NC_STATUS_ERROR then top_done EVR_MODE_READ p w3
       else if st = NC_STATUS_AGAIN then Some (Return STATUS_OK, w3)
       else if st = NC_STATUS_READ_UNAVAILABLE then Some (Return STATUS_ERROR, w3)
       else if st = NC_STATUS_EOF \<or> st = NC_STATUS_OK
       then do {
         w4 \<leftarrow> (if st = NC_STATUS_EOF then set_state NC_STATE_DONE p w3 else Some w3);
         s \<leftarrow> sessions w4 a;
         (r, w5) \<leftarrow> sv_sread (he_ses env) a bytes (m_cur_write_offset q) (put_ses a (s\<lparr>ses_streams_closed := 0\<rparr>) w4);
         if r \<noteq> STATUS_OK then top_done EVR_MODE_READ p w5
         else sm_after_read cfg env p a w5 }
       else Some (Return STATUS_ERROR, w3) }"

definition sm_write :: "('o, 'x, 's) hurl_env \<Rightarrow> nat \<Rightarrow> nat \<Rightarrow> ('o, 'x, 's) hworld \<Rightarrow> ('o, 'x, 's) sm_res" where
  "sm_write env p a w =
     do {
       (st, w1) \<leftarrow> sv_swrite (he_ses env) a w;
       if st \<noteq> STATUS_OK then Some (Return STATUS_ERROR, w1)
       else do {
         q \<leftarrow> get_out_q a w1;
         if read_avail q = 0 then Some (Return STATUS_OK, w1)
         else do {
           c \<leftarrow> conns w1 p; k \<leftarrow> he_cls env (nc_scheme c);
           (st, n, q1, c1, w2) \<leftarrow> nc_write (nk_virt k) p (Some q) (c, w1);
           w3 \<leftarrow> put_out_q a (the q1) (put_conn p c1 w2);
           let w4 = upd_stat (\<lambda>t. t\<lparr>m_bytes_written := u64 (m_bytes_written t + n)\<rparr>) w3;
           if st = NC_STATUS_EOF \<or> st = NC_STATUS_ERROR then top_done EVR_MODE_WRITE p w4
           else if st = NC_STATUS_AGAIN then Some (Return STATUS_OK, w4)
           else if st = NC_STATUS_OK then Some (Goto_Top EVR_MODE_WRITE, w4)
           else Some (Return STATUS_ERROR, w4) } } }"

definition sm_connected ::
  "hurl_cfg \<Rightarrow> ('o, 'x, 's) hurl_env \<Rightarrow> evr_mode \<Rightarrow> nat \<Rightarrow> ('o, 'x, 's) hworld \<Rightarrow> ('o, 'x, 's) sm_res" where
  "sm_connected cfg env mode p w =
     do {
       c \<leftarrow> conns w p;
       (case nc_data c of
          None \<Rightarrow> Some (Return STATUS_ERROR, w)
        | Some a \<Rightarrow> (case mode of
              EVR_MODE_READ \<Rightarrow> sm_read cfg env p a w
            | EVR_MODE_WRITE \<Rightarrow> sm_write env p a w
            | _ \<Rightarrow> Some (Return STATUS_ERROR, w))) }"

definition sm_step ::
  "hurl_cfg \<Rightarrow> ('o, 'x, 's) hurl_env \<Rightarrow> evr_mode \<Rightarrow> nat \<Rightarrow> ('o, 'x, 's) hworld \<Rightarrow> ('o, 'x, 's) sm_res" where
  "sm_step cfg env mode p w =
     (if g_test_finished w then ret (close_conn env p w)
      else do {
        c \<leftarrow> conns w p;
        (case nc_state c of
           NC_STATE_FREE \<Rightarrow> sm_free env mode p w
         | NC_STATE_CONNECTING \<Rightarrow> sm_connecting cfg env p w
         | NC_STATE_CONNECTED \<Rightarrow> sm_connected cfg env mode p w
         | NC_STATE_DONE \<Rightarrow> do { (_, w1) \<leftarrow> session_cleanup env (nc_data c) (Some p) w; Some (Return STATUS_DONE, w1) }
         | _ \<Rightarrow> Some (Return STATUS_ERROR, w)) })"

partial_function (option) sm_top ::
  "hurl_cfg \<Rightarrow> ('o, 'x, 's) hurl_env \<Rightarrow> evr_mode \<Rightarrow> nat \<Rightarrow> ('o, 'x, 's) hworld \<Rightarrow> ('o, 'x, 's, int) hres" where
  "sm_top cfg env mode p w =
     do { (nx, w1) \<leftarrow> sm_step cfg env mode p w;
          (case nx of Goto_Top mode' \<Rightarrow> sm_top cfg env mode' p w1 | Return st \<Rightarrow> Some (st, w1)) }"

text \<open>\<^verbatim>\<open>run_state_machine\<close>: what the mode decides before the machine is entered.\<close>

definition run_state_machine ::
  "hurl_cfg \<Rightarrow> ('o, 'x, 's) hurl_env \<Rightarrow> evr_mode \<Rightarrow> nat option \<Rightarrow> ('o, 'x, 's) hworld \<Rightarrow> ('o, 'x, 's, int) hres" where
  "run_state_machine cfg env mode data w =
     (case data of
        None \<Rightarrow> Some (STATUS_OK, w)
      | Some p \<Rightarrow>
          do {
            c \<leftarrow> conns w p;
            (case nc_ctx c of
               None \<Rightarrow> Some (STATUS_ERROR, w)
             | Some _ \<Rightarrow>
                 (case mode of
                    EVR_MODE_ERROR \<Rightarrow> if nc_state c = NC_STATE_FREE then Some (STATUS_OK, w) else close_conn env p w
                  | EVR_MODE_TIMEOUT \<Rightarrow>
                      if nc_state c = NC_STATE_FREE then Some (STATUS_OK, w)
                      else if nc_data c = None then Some (STATUS_ERROR, w)
                      else sm_top cfg env mode p w
                  | EVR_MODE_READ \<Rightarrow>
                      if nc_state c = NC_STATE_FREE then Some (STATUS_OK, w) else sm_top cfg env mode p w
                  | EVR_MODE_WRITE \<Rightarrow> sm_top cfg env mode p w
                  | EVR_MODE_NONE \<Rightarrow> Some (STATUS_OK, w))) })"

definition hurl_call :: "hurl_cfg \<Rightarrow> ('o, 'x, 's) hurl_env \<Rightarrow> hurl_cb \<Rightarrow> nat \<Rightarrow> ('o, 'x, 's) hworld \<Rightarrow> ('o, 'x, 's, int) hres" where
  "hurl_call cfg env cb data w =
     run_state_machine cfg env
       (case cb of evr_fd_readable_cb \<Rightarrow> EVR_MODE_READ | evr_fd_writeable_cb \<Rightarrow> EVR_MODE_WRITE
        | evr_fd_error_cb \<Rightarrow> EVR_MODE_ERROR | evr_fd_timeout_cb \<Rightarrow> EVR_MODE_TIMEOUT) (Some data) w"

section \<open>The loop of a thread\<close>

partial_function (option) conn_start :: "hurl_cfg \<Rightarrow> ('o, 'x, 's) hurl_env \<Rightarrow> ('o, 'x, 's) hworld \<Rightarrow> ('o, 'x, 's, int) hres" where
  "conn_start cfg env w =
     (if card (h_nconn_set w) < h_num_conn_parallel_max w
      then do {
        (r, w1) \<leftarrow> create_conn cfg env w;
        (case r of
           None \<Rightarrow> Some (STATUS_ERROR, w1)
         | Some p \<Rightarrow>
             do {
               c \<leftarrow> conns w1 p;
               (st, w2) \<leftarrow> hurl_call cfg env evr_fd_writeable_cb p
                  (put_conn p (c\<lparr>nc_label := rq_host (h_request w1), nc_data := None\<rparr>) w1
                     \<lparr>h_nconn_set := insert p (h_nconn_set w1)\<rparr>);
               if st \<noteq> STATUS_OK then Some (STATUS_ERROR, w2) else conn_start cfg env w2 }) }
      else Some (STATUS_OK, w))"

text \<open>
  The thread: the loop runs until it is stopped or the responses asked for have come.
  \<open>clk\<close>, \<open>pick\<close> and \<open>wait\<close> are the clock, the top of the timer queue and the reactor of
  the event loop.
\<close>

definition t_continue :: "('o, 'x, 's) hworld \<Rightarrow> bool" where
  "t_continue w \<longleftrightarrow> \<not> h_stopped w \<and>
     (h_num_to_request w < 0 \<or> u32_of_int (h_num_to_request w) > m_resp_count (ts_stat (h_stat w)))"

partial_function (option) t_run_loop where
  "t_run_loop cfg env clk pick wait w =
     (if t_continue w
      then do { (_, w1) \<leftarrow> conn_start cfg env w;
                (_, w2) \<leftarrow> evr_run clk pick wait (hurl_call cfg env) w1;
                t_run_loop cfg env clk pick wait w2 }
      else Some (w\<lparr>h_stopped := True\<rparr>))"

definition t_run where
  "t_run cfg env clk pick wait w =
     t_run_loop cfg env clk pick wait
       (upd_stat t_stat_cntr_clear (w\<lparr>h_is_initd := True, h_stopped := False\<rparr>))"

text \<open>\<^verbatim>\<open>stop\<close>\<close>

definition t_stop :: "('o \<Rightarrow> int \<times> 'o) \<Rightarrow> ('o, 'x, 's) hworld \<Rightarrow> ('o, 'x, 's) hworld" where
  "t_stop sig w = (case evr_signal sig (Some (w_os w)) of (_, os) \<Rightarrow>
     (w\<lparr>h_stopped := True\<rparr>)\<lparr>w_os := (case os of Some x \<Rightarrow> x | None \<Rightarrow> w_os w)\<rparr>)"

end
