(* ===== verification/Hurl_Heap.thy ===== *)
theory Hurl_Heap
  imports Hurl_Session
begin

text \<open>
  The heap of a thread of \<^verbatim>\<open>src/hurl/hurl.cc\<close>: the invariant of its connections, sessions
  and descriptor objects, with the accounting of requests, and the updates that keep it.
\<close>

section \<open>The invariant of the heap\<close>

text \<open>
  An output queue: data only before its empty blocks, and the read cursor not at an empty
  block while there is something to write.
\<close>

definition solid :: "nbq \<Rightarrow> bool" where
  "solid q \<longleftrightarrow> (\<forall>i j. i < j \<and> j < length (m_q q) \<and> nb_written (m_q q ! j) \<noteq> 0 \<longrightarrow> nb_written (m_q q ! i) \<noteq> 0)"

definition out_ok :: "nbq \<Rightarrow> bool" where
  "out_ok q \<longleftrightarrow> rd_inv q \<and> wf_blocks q \<and> solid q \<and> no_gap q \<and> 0 < m_bsize q \<and> m_bsize q < 2 ^ 31"

text \<open>A session of the connection \<open>p\<close>.\<close>

definition ses_ok :: "nat \<Rightarrow> 's session \<Rightarrow> bool" where
  "ses_ok p s \<longleftrightarrow> ses_nconn s = Some p \<and> ses_t_hurl s \<and> ses_timer_obj s = None \<and>
     (\<exists>q. ses_in_q s = Some q \<and> nbq_inv q) \<and> (\<exists>q. ses_out_q s = Some q \<and> out_ok q)"

text \<open>\<open>R a\<close> is what else the session at \<open>a\<close> is expected to keep, \<open>H\<close> what the class expects of a connection.\<close>

definition conn_ok ::
  "('x nconn_tcp_scheme \<Rightarrow> bool) \<Rightarrow> (nat \<Rightarrow> 's session \<Rightarrow> bool) \<Rightarrow> ('o, 'x, 's) hworld \<Rightarrow> nat \<Rightarrow> 'x nconn_tcp_scheme \<Rightarrow> bool" where
  "conn_ok H R w p c \<longleftrightarrow> nc_ctx c \<noteq> None \<and> H c \<and> nc_alpn c \<noteq> ALPN_HTTP_VER_V2 \<and>
     (case nc_data c of
        None \<Rightarrow> nc_state c \<in> {NC_STATE_FREE, NC_STATE_CONNECTING}
      | Some a \<Rightarrow> nc_state c \<in> {NC_STATE_CONNECTED, NC_STATE_DONE} \<and>
          (\<exists>s. sessions w a = Some s \<and> ses_ok p s \<and> R a s))"

text \<open>Every request sent is answered or in progress, in the counters' 32 bits.\<close>

definition accounted :: "('o, 'x, 's) hworld \<Rightarrow> bool" where
  "accounted w \<longleftrightarrow> h_num_in_progress w < 2 ^ 32 \<and>
     m_reqs (ts_stat (h_stat w)) mod 2 ^ 32 = (m_resp_count (ts_stat (h_stat w)) + h_num_in_progress w) mod 2 ^ 32"

text \<open>
  The heap: the connections are those of the set, each with its descriptor object; every
  session belongs to a connection; nothing is allocated above the next address.
\<close>

definition heap_inv ::
  "('x nconn_tcp_scheme \<Rightarrow> bool) \<Rightarrow> (nat \<Rightarrow> 's session \<Rightarrow> bool) \<Rightarrow> (request \<Rightarrow> path_globals \<Rightarrow> bool) \<Rightarrow> ('o, 'x, 's) hworld \<Rightarrow> bool" where
  "heap_inv H R G w \<longleftrightarrow>
     finite (h_nconn_set w) \<and>
     (\<forall>p. p \<in> h_nconn_set w \<longleftrightarrow> conns w p \<noteq> None) \<and>
     (\<forall>p. fd_store w p \<noteq> None \<longleftrightarrow> conns w p \<noteq> None) \<and>
     (\<forall>p f. fd_store w p = Some f \<longrightarrow> fd_data f = p \<and> fd_read_cb f = Some evr_fd_readable_cb \<and>
        fd_write_cb f = Some evr_fd_writeable_cb) \<and>
     (\<forall>p c. conns w p = Some c \<longrightarrow> conn_ok H R w p c) \<and>
     (\<forall>a. sessions w a \<noteq> None \<longrightarrow> (\<exists>p c. conns w p = Some c \<and> nc_data c = Some a)) \<and>
     (\<forall>a. next_addr w \<le> a \<longrightarrow> conns w a = None \<and> sessions w a = None) \<and>
     event_pq w = [] \<and> G (h_request w) (g_paths w) \<and> accounted w"

text \<open>What a callback on \<open>p\<close> leaves alone: the other connections and their descriptor objects.\<close>

definition others :: "nat \<Rightarrow> ('o, 'x, 's) hworld \<Rightarrow> ('o, 'x, 's) hworld \<Rightarrow> bool" where
  "others p w w' \<longleftrightarrow> (\<forall>q. q \<noteq> p \<longrightarrow> conns w' q = conns w q \<and> fd_store w' q = fd_store w q) \<and>
     h_nconn_set w' \<subseteq> h_nconn_set w \<and> h_num_conn_parallel_max w' = h_num_conn_parallel_max w"

lemma others_refl [simp]: "others p w w"
  by (simp add: others_def)

lemma others_trans: "others p w w1 \<Longrightarrow> others p w1 w2 \<Longrightarrow> others p w w2"
  by (auto simp: others_def)

section \<open>Updates that keep the invariant\<close>

lemma conn_ok_sessions:
  assumes "sessions w' = sessions w"
  shows "conn_ok H R w' = conn_ok H R w"
  by (intro ext) (simp add: conn_ok_def assms split: option.splits)

text \<open>Updates outside the heap.\<close>

lemma heap_inv_cong:
  assumes "heap_inv H R G w" "h_nconn_set w' = h_nconn_set w" "conns w' = conns w" "fd_store w' = fd_store w"
    "sessions w' = sessions w" "next_addr w' = next_addr w" "event_pq w' = event_pq w"
    "G (h_request w') (g_paths w')" "accounted w'"
  shows "heap_inv H R G w'"
  using assms conn_ok_sessions[OF assms(5)] by (simp add: heap_inv_def)

lemma heap_inv_stat:
  assumes "heap_inv H R G w" "\<And>t. m_reqs (f t) = m_reqs t" "\<And>t. m_resp_count (f t) = m_resp_count t"
  shows "heap_inv H R G (upd_stat f w)"
  using assms by (intro heap_inv_cong[OF assms(1)]) (simp_all add: upd_stat_def heap_inv_def accounted_def)

lemma upd_stat_fields [simp]:
  "conns (upd_stat f w) = conns w" "sessions (upd_stat f w) = sessions w" "fd_store (upd_stat f w) = fd_store w"
  "h_nconn_set (upd_stat f w) = h_nconn_set w" "next_addr (upd_stat f w) = next_addr w" "w_os (upd_stat f w) = w_os w"
  "h_num_conn_parallel_max (upd_stat f w) = h_num_conn_parallel_max w" "g_test_finished (upd_stat f w) = g_test_finished w"
  "h_request (upd_stat f w) = h_request w" "g_paths (upd_stat f w) = g_paths w" "event_pq (upd_stat f w) = event_pq w"
  "h_num_in_progress (upd_stat f w) = h_num_in_progress w" "h_stat (upd_stat f w) = (h_stat w)\<lparr>ts_stat := f (ts_stat (h_stat w))\<rparr>"
  by (simp_all add: upd_stat_def)

lemma put_fields [simp]:
  "conns (put_conn p c w) = (conns w)(p \<mapsto> c)" "sessions (put_conn p c w) = sessions w" "fd_store (put_conn p c w) = fd_store w"
  "h_nconn_set (put_conn p c w) = h_nconn_set w" "next_addr (put_conn p c w) = next_addr w" "w_os (put_conn p c w) = w_os w"
  "h_num_conn_parallel_max (put_conn p c w) = h_num_conn_parallel_max w" "g_test_finished (put_conn p c w) = g_test_finished w"
  "h_request (put_conn p c w) = h_request w" "g_paths (put_conn p c w) = g_paths w" "event_pq (put_conn p c w) = event_pq w"
  "accounted (put_conn p c w) = accounted w" "h_stat (put_conn p c w) = h_stat w"
  "h_num_in_progress (put_conn p c w) = h_num_in_progress w"
  "conns (put_ses a s w) = conns w" "sessions (put_ses a s w) = (sessions w)(a \<mapsto> s)" "fd_store (put_ses a s w) = fd_store w"
  "h_nconn_set (put_ses a s w) = h_nconn_set w" "next_addr (put_ses a s w) = next_addr w" "w_os (put_ses a s w) = w_os w"
  "h_num_conn_parallel_max (put_ses a s w) = h_num_conn_parallel_max w" "g_test_finished (put_ses a s w) = g_test_finished w"
  "h_request (put_ses a s w) = h_request w" "g_paths (put_ses a s w) = g_paths w" "event_pq (put_ses a s w) = event_pq w"
  "accounted (put_ses a s w) = accounted w" "h_stat (put_ses a s w) = h_stat w"
  "h_num_in_progress (put_ses a s w) = h_num_in_progress w"
  by (simp_all add: put_conn_def put_ses_def accounted_def)

text \<open>A connection is changed within its frame, or to a state that goes with its session.\<close>

lemma heap_inv_conn:
  assumes "heap_inv H R G w" "conns w p = Some c" "conn_ok H R w p c'" "nc_data c' = nc_data c"
  shows "heap_inv H R G (put_conn p c' w)"
proof -
  have ok: "conn_ok H R (put_conn p c' w) = conn_ok H R w" by (rule conn_ok_sessions) (rule put_fields)
  have own: "\<exists>q d. ((conns w)(p \<mapsto> c')) q = Some d \<and> nc_data d = Some a" if s: "sessions w a \<noteq> None" for a
  proof -
    have "\<exists>q d. conns w q = Some d \<and> nc_data d = Some a" using assms(1) s by (simp add: heap_inv_def)
    then obtain q d where "conns w q = Some d" "nc_data d = Some a" by blast
    then show ?thesis using assms(2,4) by (cases "q = p") (auto intro: exI[of _ q])
  qed
  have "p < next_addr w" using assms(1,2) unfolding heap_inv_def by (metis not_less option.distinct(1))
  then show ?thesis
    using assms(1-3) own unfolding heap_inv_def ok put_fields by (simp split: if_splits)
qed

lemma conn_ok_frame: "conn_ok H R w p c \<Longrightarrow> conn_frame c c' \<Longrightarrow> H c' \<Longrightarrow> conn_ok H R w p c'"
  by (auto simp: conn_ok_def conn_frame_def split: option.splits)

text \<open>A session is changed to one that is as good.\<close>

lemma ses_owner:
  assumes "heap_inv H R G w" "conns w q = Some d" "nc_data d = Some a"
  shows "\<exists>s. sessions w a = Some s \<and> ses_ok q s \<and> R a s" "nc_state d \<in> {NC_STATE_CONNECTED, NC_STATE_DONE}"
proof -
  have "conn_ok H R w q d" using assms(1,2) by (simp add: heap_inv_def)
  then show "\<exists>s. sessions w a = Some s \<and> ses_ok q s \<and> R a s" "nc_state d \<in> {NC_STATE_CONNECTED, NC_STATE_DONE}"
    using assms(3) by (simp_all add: conn_ok_def)
qed

lemma one_owner:
  assumes "heap_inv H R G w" "conns w p = Some c" "nc_data c = Some a" "conns w q = Some d" "nc_data d = Some a"
  shows "p = q"
  using ses_owner(1)[OF assms(1-3)] ses_owner(1)[OF assms(1,4,5)] by (auto simp: ses_ok_def)

text \<open>A session is changed, or more or less is expected of it.\<close>

lemma heap_inv_ses:
  assumes "heap_inv H R G w" "conns w p = Some c" "nc_data c = Some a" "ses_ok p s" "R' a s" "\<And>b. b \<noteq> a \<Longrightarrow> R' b = R b"
  shows "heap_inv H R' G (put_ses a s w)"
proof -
  have ok: "conn_ok H R' (put_ses a s w) q d" if q: "conns w q = Some d" for q d
  proof (cases "nc_data d = Some a")
    case True
    then have "q = p" "d = c" using one_owner[OF assms(1-3) q] q assms(2) by auto
    moreover have "conn_ok H R w p c" using assms(1,2) by (simp add: heap_inv_def)
    ultimately show ?thesis using assms(3-5) by (simp add: conn_ok_def)
  next
    case False
    moreover have "conn_ok H R w q d" using assms(1) q by (simp add: heap_inv_def)
    ultimately show ?thesis using assms(6) by (auto simp: conn_ok_def split: option.splits)
  qed
  have "sessions w a \<noteq> None" using ses_owner(1)[OF assms(1-3)] by auto
  then have "a < next_addr w" using assms(1) unfolding heap_inv_def by (metis not_less)
  then show ?thesis
    using assms(1-3) ok unfolding heap_inv_def put_fields by (simp split: if_splits) blast
qed

lemma heap_inv_expect:
  assumes "heap_inv H R G w" "conns w p = Some c" "nc_data c = Some a" "sessions w a = Some s" "R' a s" "\<And>b. b \<noteq> a \<Longrightarrow> R' b = R b"
  shows "heap_inv H R' G w"
proof -
  have "ses_ok p s" using ses_owner(1)[OF assms(1-3)] assms(4) by auto
  then have "heap_inv H R' G (put_ses a s w)" by (rule heap_inv_ses[OF assms(1-3)]) (use assms(5,6) in auto)
  moreover have "put_ses a s w = w" using assms(4) by (simp add: put_ses_def map_upd_triv)
  ultimately show ?thesis by simp
qed

lemma heap_inv_os_frame:
  assumes "heap_inv H R G w" "os_frame p w w'"
  shows "heap_inv H R G w'"
proof -
  obtain os f f' where f: "fd_store w p = Some f" "w' = w\<lparr>w_os := os, fd_store := (fd_store w)(p \<mapsto> f')\<rparr>"
    "fd_data f' = fd_data f" "fd_read_cb f' = fd_read_cb f" "fd_write_cb f' = fd_write_cb f"
    using assms(2) unfolding os_frame_def by blast
  have ok: "conn_ok H R w' = conn_ok H R w" by (rule conn_ok_sessions) (simp add: f(2))
  have "accounted w' = accounted w" by (simp add: f(2) accounted_def)
  then show ?thesis
    using assms(1) f unfolding heap_inv_def ok by (simp add: f(2)) (metis option.distinct(1) option.inject)
qed

section \<open>Operations on connections\<close>

lemma others_put [simp]:
  "others p w (put_conn p c w1) = others p w w1" "others p w (put_ses a s w1) = others p w w1"
  "others p w (upd_stat f w1) = others p w w1"
  by (auto simp: others_def)

lemma os_frame_fields:
  assumes "os_frame p w w'"
  shows "conns w' = conns w" "sessions w' = sessions w" "g_test_finished w' = g_test_finished w" "others p w w'"
    "next_addr w' = next_addr w" "h_nconn_set w' = h_nconn_set w" "h_num_conn_parallel_max w' = h_num_conn_parallel_max w"
  using assms by (auto simp: os_frame_def others_def)

lemma heap_inv_fd:
  assumes "heap_inv H R G w" "conns w p = Some c"
  obtains f where "fd_store w p = Some f"
proof -
  have "fd_store w p \<noteq> None" using assms by (simp add: heap_inv_def)
  then show ?thesis using that by blast
qed

lemma heap_inv_conn_ok: "heap_inv H R G w \<Longrightarrow> conns w p = Some c \<Longrightarrow> conn_ok H R w p c"
  by (simp add: heap_inv_def)

lemma heap_inv_framed:
  assumes "heap_inv H R G w" "conns w p = Some c" "conn_frame c c'" "os_frame p w w'" "H c'"
  shows "heap_inv H R G (put_conn p c' w')"
proof (rule heap_inv_conn)
  show "heap_inv H R G w'" by (rule heap_inv_os_frame[OF assms(1,4)])
  show "conns w' p = Some c" using os_frame_fields(1)[OF assms(4)] assms(2) by simp
  show "conn_ok H R w' p c'"
    using conn_ok_frame[OF heap_inv_conn_ok[OF assms(1,2)] assms(3,5)] conn_ok_sessions[OF os_frame_fields(2)[OF assms(4)]] by metis
  show "nc_data c' = nc_data c" using assms(3) by (simp add: conn_frame_def)
qed

lemma on_conn_framed:
  assumes "heap_inv H R G w" "conns w p = Some c" "he_cls env (nc_scheme c) = Some k" "framed_when p A B (f (nk_virt k) p)" "A c"
  obtains r c' w' where "on_conn env f p w = Some (r, put_conn p c' w')" "conn_frame c c'" "os_frame p w w'" "B r c'"
    "H c' \<Longrightarrow> heap_inv H R G (put_conn p c' w')"
proof -
  obtain fd where "fd_store w p = Some fd" using heap_inv_fd[OF assms(1,2)] .
  from framed_whenD[OF assms(4) this assms(5)] obtain r c' w' where
    *: "f (nk_virt k) p (c, w) = Some (r, c', w')" "conn_frame c c'" "os_frame p w w'" "B r c'" by blast
  have "on_conn env f p w = Some (r, put_conn p c' w')" using assms(2,3) *(1) by (simp add: on_conn_def)
  then show ?thesis using that * heap_inv_framed[OF assms(1,2) *(2,3)] by blast
qed

text \<open>
  A connection and its session are deleted; nothing else is, and its request stays counted as
  in progress.
\<close>

definition gone :: "nat \<Rightarrow> 'x nconn_tcp_scheme \<Rightarrow> ('o, 'x, 's) hworld \<Rightarrow> ('o, 'x, 's) hworld \<Rightarrow> bool" where
  "gone p c w w' \<longleftrightarrow> conns w' p = None \<and> fd_store w' p = None \<and> p \<notin> h_nconn_set w' \<and>
     (\<forall>a. nc_data c = Some a \<longrightarrow> sessions w' a = None) \<and> h_num_in_progress w' = h_num_in_progress w"

lemma heap_inv_delete:
  assumes "heap_inv H R G w" "conns w p = Some c" "\<And>b. nc_data c \<noteq> Some b \<Longrightarrow> R' b = R b"
    and w': "w' = w\<lparr>w_os := os, sessions := (case nc_data c of None \<Rightarrow> sessions w | Some a \<Rightarrow> (sessions w)(a := None)),
      h_nconn_set := h_nconn_set w - {p}, conns := (conns w)(p := None), fd_store := (fd_store w)(p := None)\<rparr>"
  shows "heap_inv H R' G w' \<and> others p w w' \<and> gone p c w w'"
proof -
  have ok: "conn_ok H R' w' q d" if q: "q \<noteq> p" "conns w q = Some d" for q d
  proof -
    have "nc_data d \<noteq> nc_data c \<or> nc_data c = None"
      using one_owner[OF assms(1,2) _ q(2)] q(1) by (cases "nc_data c") auto
    then show ?thesis
      using heap_inv_conn_ok[OF assms(1) q(2)] assms(3) by (auto simp: conn_ok_def w' split: option.splits)
  qed
  have own: "\<exists>q d. conns w' q = Some d \<and> nc_data d = Some a" if s: "sessions w' a \<noteq> None" for a
  proof -
    have "sessions w a \<noteq> None" "nc_data c \<noteq> Some a" using s by (auto simp: w' split: option.splits if_splits)
    moreover from this(1) obtain q d where "conns w q = Some d" "nc_data d = Some a"
      using assms(1) by (auto simp: heap_inv_def)
    ultimately have "conns w' q = Some d" using assms(2) by (auto simp: w')
    with \<open>nc_data d = Some a\<close> show ?thesis by blast
  qed
  have "accounted w' = accounted w" by (simp add: accounted_def w')
  moreover have "sessions w' a = None" if "next_addr w \<le> a" for a
    using assms(1) that by (auto simp: heap_inv_def w' split: option.splits)
  ultimately have "heap_inv H R' G w'"
    using assms(1) ok own unfolding heap_inv_def by (simp add: w' split: if_splits)
  then show ?thesis by (auto simp: others_def gone_def w')
qed

lemma session_cleanup_ok:
  assumes "heap_inv H R G w" "conns w p = Some c" "\<And>b. nc_data c \<noteq> Some b \<Longrightarrow> R' b = R b"
    "he_cls env (nc_scheme c) = Some k" "framed p (v_nccleanup (nk_virt k) p)"
  shows "\<exists>w'. session_cleanup env (nc_data c) (Some p) w = Some (STATUS_OK, w') \<and> heap_inv H R' G w' \<and>
    others p w w' \<and> gone p c w w'"
proof -
  define w1 where "w1 = w\<lparr>sessions := (case nc_data c of None \<Rightarrow> sessions w | Some a \<Rightarrow> (sessions w)(a := None)),
      h_nconn_set := h_nconn_set w - {p}\<rparr>"
  have ses: "(case nc_data c of None \<Rightarrow> Some w | Some a \<Rightarrow> do { s \<leftarrow> sessions w a;
      Some (if ses_t_hurl s then w\<lparr>sessions := (sessions w)(a := None)\<rparr> else w) }) =
      Some (w\<lparr>sessions := sessions w1\<rparr>)"
    using ses_owner(1)[OF assms(1,2)] by (cases "nc_data c") (auto simp: w1_def ses_ok_def)
  obtain f where "fd_store w1 p = Some f" using heap_inv_fd[OF assms(1,2)] by (auto simp: w1_def)
  from framedD[OF assms(5) this, of c] obtain r c' w2 where
    v: "v_nccleanup (nk_virt k) p (c, w1) = Some (r, c', w2)" "os_frame p w1 w2" by blast
  from v(2) obtain os f' where w2: "w2 = w1\<lparr>w_os := os, fd_store := (fd_store w1)(p \<mapsto> f')\<rparr>" by (auto simp: os_frame_def)
  have "\<exists>st c2. on_conn env nc_cleanup p w1 = Some (st, put_conn p c2 w2)"
    using assms(2,4) v(1) by (cases "r = NC_STATUS_OK") (auto simp: on_conn_def nc_cleanup_def w1_def Let_def)
  then obtain st c2 where "on_conn env nc_cleanup p w1 = Some (st, put_conn p c2 w2)" by blast
  then have "session_cleanup env (nc_data c) (Some p) w =
      Some (STATUS_OK, w\<lparr>w_os := os, sessions := sessions w1, h_nconn_set := h_nconn_set w - {p},
        conns := (conns w)(p := None), fd_store := (fd_store w)(p := None)\<rparr>)"
    unfolding session_cleanup_def ses
    by (simp add: put_conn_def w1_def w2)
  then show ?thesis using heap_inv_delete[OF assms(1-3) refl] by (simp add: w1_def)
qed

text \<open>The same after the timer of the session is cancelled: there is none.\<close>

lemma close_conn_ok:
  assumes "heap_inv H R G w" "conns w p = Some c" "\<And>b. nc_data c \<noteq> Some b \<Longrightarrow> R' b = R b"
    "he_cls env (nc_scheme c) = Some k" "framed p (v_nccleanup (nk_virt k) p)"
  shows "\<exists>w'. close_conn env p w = Some (STATUS_DONE, w') \<and> heap_inv H R' G w' \<and> others p w w' \<and> gone p c w w'"
proof -
  have "(case nc_data c of None \<Rightarrow> Some w
      | Some a \<Rightarrow> do { s \<leftarrow> sessions w a;
          (_, w1) \<leftarrow> ses_cancel_timer (ses_timer_obj s) a w;
          Some (put_ses a (s\<lparr>ses_timer_obj := None\<rparr>) w1) }) = Some w"
  proof (cases "nc_data c")
    case (Some a)
    then obtain s where s: "sessions w a = Some s" "ses_ok p s" using ses_owner(1)[OF assms(1,2)] by blast
    then have "s\<lparr>ses_timer_obj := None\<rparr> = s" by (simp add: ses_ok_def)
    then have "put_ses a (s\<lparr>ses_timer_obj := None\<rparr>) w = w" using s(1) by (simp add: put_ses_def map_upd_triv)
    then show ?thesis using Some s by (simp add: ses_ok_def ses_cancel_timer_def t_hurl_cancel_timer_def)
  qed simp
  then show ?thesis
    using session_cleanup_ok[OF assms] assms(2) by (auto simp: close_conn_def)
qed

lemma set_drop_Suc_nth: "Suc r < length xs \<Longrightarrow> xs ! Suc r \<in> set (drop (Suc r) xs)"
  by (metis Cons_nth_drop_Suc list.set_intros(1))

lemma out_ok_read_step:
  assumes q: "out_ok q" and r: "m_cur_read_block q = At r" and n: "n \<le> avail (m_q q ! r)"
  shows "out_ok (read_step r n q)"
proof -
  let ?q = "read_step r n q"
  have rd: "rd_inv q" and wf: "wf_blocks q" and so: "solid q" using q by (simp_all add: out_ok_def)
  note A = rd_inv_At[OF rd r]
  have w: "map nb_written (m_q ?q) = map nb_written (m_q q)"
    using nb_read_inc_ok(5)[OF A(2) n] A(1) by (auto simp: read_step_def map_update intro!: nth_equalityI simp: nth_list_update)
  then have wi: "nb_written (m_q ?q ! i) = nb_written (m_q q ! i)" if "i < length (m_q q)" for i
    using that by (metis length_map nth_map read_step_frame(4))
  have "solid ?q"
    unfolding solid_def read_step_frame
  proof (intro allI impI, elim conjE)
    fix i j assume "i < j" "j < length (m_q q)" "nb_written (m_q ?q ! j) \<noteq> 0"
    then show "nb_written (m_q ?q ! i) \<noteq> 0" using so wi by (metis less_trans solid_def)
  qed
  moreover have "wf_blocks ?q"
    using rd_inv_wf[OF read_step_inv(1)[OF rd r n]] read_step_inv(3)[OF rd r n] wf_length[OF wf] by simp
  moreover have "no_gap ?q"
  proof (cases "n = avail (m_q q ! r) \<and> n \<noteq> m_total_read_avail q")
    case False
    then have c: "m_cur_read_block ?q = At r" by (simp only: read_step_def if_False) simp
    have a: "avail (m_q ?q ! r) = avail (m_q q ! r) - n"
      using nb_read_inc_ok(2)[OF A(2) n] A(1) by (simp add: read_step_def)
    have "avail (m_q ?q ! r) \<noteq> 0" if "m_total_read_avail ?q \<noteq> 0"
      using that False n unfolding a read_step_frame by linarith
    then show ?thesis using c by (simp add: no_gap_def)
  next
    case True
    then have sr: "Suc r < length (m_q q)" using read_step_next[OF rd r] by auto
    have z: "nb_read b = 0" if "b \<in> set (drop (Suc r) (m_q q))" for b using rd r that by (simp add: rd_inv_def)
    have "avail (m_q q ! Suc r) \<noteq> 0"
    proof
      assume "avail (m_q q ! Suc r) = 0"
      then have "nb_written (m_q q ! Suc r) = 0"
        using z[of "m_q q ! Suc r"] sr by (simp add: avail_def set_drop_Suc_nth)
      then have "nb_written (m_q q ! j) = 0" if "Suc r \<le> j" "j < length (m_q q)" for j
        using so that by (metis le_neq_implies_less solid_def)
      then have "nb_written b = 0" if "b \<in> set (drop (Suc r) (m_q q))" for b
        using that by (auto simp: in_set_conv_nth)
      then have "\<forall>b \<in> set (drop (Suc r) (m_q q)). avail b = 0" by (simp add: avail_def)
      then have "sum_list (map avail (drop (Suc r) (m_q q))) = 0" by (simp add: sum_list_eq_0_iff)
      with A(4) True show False by simp
    qed
    then show ?thesis using True by (simp add: no_gap_def read_step_def)
  qed
  ultimately show ?thesis
    using q read_step_inv(1)[OF rd r n] by (simp add: out_ok_def read_step_frame)
qed

lemma out_ok_new: "0 < n \<Longrightarrow> n < 2 ^ 31 \<Longrightarrow> out_ok (nbq_new n)"
  using nbq_new_inv[of n]
  by (auto simp: out_ok_def nbq_inv_rd nbq_inv_wf solid_def no_gap_def nbq_new_def)

text \<open>A session is created on a connection that has none.\<close>

lemma session_create_ok:
  assumes "heap_inv H R G w" "conns w p = Some c" "nc_data c = None"
    "0 < g_chunk_size_kb cfg" "g_chunk_size_kb cfg * 1024 < 2 ^ 31"
    and c': "nc_ctx c' = nc_ctx c" "nc_scheme c' = nc_scheme c" "nc_state c' = NC_STATE_CONNECTED"
      "nc_alpn c' \<noteq> ALPN_HTTP_VER_V2" "\<And>a. H (c'\<lparr>nc_data := Some a\<rparr>)"
  shows "\<exists>a w' c1. session_create cfg env p (put_conn p c' w) = Some (a, w') \<and>
    heap_inv H (R(a := \<lambda>_. True)) G w' \<and> others p w w' \<and> g_test_finished w' = g_test_finished w \<and>
    conns w' p = Some c1 \<and> nc_data c1 = Some a \<and> nc_state c1 = NC_STATE_CONNECTED"
proof -
  define a where "a = next_addr w"
  have free: "conns w a = None" "sessions w a = None" using assms(1) by (simp_all add: heap_inv_def a_def)
  define q where "q = nbq_new (g_chunk_size_kb cfg * 1024)"
  define s where "s = \<lparr>ses_nconn = Some p, ses_t_hurl = True, ses_timer_obj = None, ses_in_q = Some q, ses_out_q = Some q,
      ses_request = True, ses_idx = 0, ses_goaway = False, ses_streams_closed = 0, ses_h2_body_q = None,
      ses_sub = sv_new (he_ses env) (nc_alpn c')\<rparr>"
  define c1 where "c1 = c'\<lparr>nc_data := Some a\<rparr>"
  define w' where "w' = put_ses a s (put_conn p c1 (w\<lparr>next_addr := Suc a\<rparr>))"
  have create: "session_create cfg env p (put_conn p c' w) = Some (a, w')"
    by (simp add: session_create_def w'_def c1_def s_def q_def a_def Let_def put_conn_def put_ses_def)
  have "nbq_inv q" using assms(4,5) by (simp add: q_def)
  then have "ses_ok p s" using assms(4,5) by (simp add: ses_ok_def s_def out_ok_new q_def)
  then have new: "conn_ok H (R(a := \<lambda>_. True)) w' p c1"
    using heap_inv_conn_ok[OF assms(1,2)] c' by (simp add: conn_ok_def c1_def w'_def)
  have old: "conn_ok H (R(a := \<lambda>_. True)) w' x d" if x: "x \<noteq> p" "conns w x = Some d" for x d
  proof -
    have "nc_data d \<noteq> Some a" using ses_owner(1)[OF assms(1) x(2)] free by auto
    then show ?thesis using heap_inv_conn_ok[OF assms(1) x(2)] by (auto simp: conn_ok_def w'_def split: option.splits)
  qed
  have own: "\<exists>x d. conns w' x = Some d \<and> nc_data d = Some b" if b: "sessions w' b \<noteq> None" for b
  proof (cases "b = a")
    case True
    then show ?thesis by (intro exI[of _ p] exI[of _ c1]) (simp add: w'_def c1_def)
  next
    case False
    then have "sessions w b \<noteq> None" using b by (simp add: w'_def)
    then obtain x d where x: "conns w x = Some d" "nc_data d = Some b" using assms(1) by (auto simp: heap_inv_def)
    then have "x \<noteq> p" using assms(2,3) by auto
    then show ?thesis using x by (intro exI[of _ x] exI[of _ d]) (simp add: w'_def)
  qed
  have "p < a" using assms(1,2) unfolding heap_inv_def a_def by (metis not_less option.distinct(1))
  then have "heap_inv H (R(a := \<lambda>_. True)) G w'"
    using assms(1,2) new old own unfolding heap_inv_def w'_def put_fields
    by (simp add: a_def accounted_def split: if_splits)
  moreover have "others p w w'" by (auto simp: w'_def others_def)
  ultimately show ?thesis using create c'(3) by (intro exI[of _ a] exI[of _ w'] exI[of _ c1]) (simp add: w'_def c1_def)
qed

end
