(* ===== verification/Hurl_Machine.thy ===== *)
theory Hurl_Machine
  imports Hurl_Heap
begin

text \<open>
  The laws of the state machine of \<^verbatim>\<open>session::run_state_machine\<close>: over classes of
  connections and sessions that keep their contracts, every callback ends, whatever the
  kernel answers, without undefined behaviour, and keeps the invariant of the thread's heap.
\<close>

section \<open>Contracts\<close>

text \<open>
  What a connection of a class is expected to be: once it is set up and until it is done, the
  members of its derived class are \<open>up\<close>.
\<close>

definition conn_good ::
  "(scheme \<Rightarrow> ('x, 'w) nc_class option) \<Rightarrow> (scheme \<Rightarrow> 'x \<Rightarrow> bool) \<Rightarrow> 'x nconn_tcp_scheme \<Rightarrow> bool" where
  "conn_good cls up c \<longleftrightarrow> cls (nc_scheme c) \<noteq> None \<and>
     (nc_state c \<in> {NC_STATE_CONNECTING, NC_STATE_CONNECTED} \<longrightarrow> up (nc_scheme c) (nconn_tcp.more c))"

text \<open>
  The classes of connections: \<open>rx fd\<close> is the number of bytes still to be received on a
  descriptor.
\<close>

locale conn_classes =
  fixes cls :: "scheme \<Rightarrow> ('x, ('o, 'x, 's) hworld) nc_class option" and rx :: "int \<Rightarrow> 'o \<Rightarrow> nat"
    and up :: "scheme \<Rightarrow> 'x \<Rightarrow> bool"
  assumes new_conn: "cls sch = Some k \<Longrightarrow>
      nc_scheme (nk_new k r) = sch \<and> nc_data (nk_new k r) = None \<and> nc_state (nk_new k r) = NC_STATE_FREE \<and>
      nc_alpn (nk_new k r) \<noteq> ALPN_HTTP_VER_V2"
    and setup_framed: "cls sch = Some k \<Longrightarrow>
      framed_when p (\<lambda>_. True) (\<lambda>r c. r = NC_STATUS_OK \<longrightarrow> up sch (nconn_tcp.more c)) (v_ncsetup (nk_virt k) p)"
    and connect_framed: "cls sch = Some k \<Longrightarrow>
      framed_when p (\<lambda>c. up sch (nconn_tcp.more c)) (\<lambda>_ c. up sch (nconn_tcp.more c)) (v_ncconnect (nk_virt k) p)"
    and cleanup_framed: "cls sch = Some k \<Longrightarrow> framed p (v_nccleanup (nk_virt k) p)"
    and io: "cls sch = Some k \<Longrightarrow> nc_io (nk_virt k) p
      (\<lambda>s. m_fd (fst s) = fd \<and> conn_frame c0 (fst s) \<and> os_frame p w0 (snd s) \<and> up sch (nconn_tcp.more (fst s))) (\<lambda>s. rx fd (w_os (snd s)))"
    and rx_less: "rx fd os < 2 ^ 64"

text \<open>What a method of the session \<open>a\<close> of the connection \<open>p\<close> may change.\<close>

definition ses_frame ::
  "(int \<Rightarrow> 'o \<Rightarrow> nat) \<Rightarrow> nat \<Rightarrow> nat \<Rightarrow> ('o, 'x, 's) hworld \<Rightarrow> ('o, 'x, 's) hworld \<Rightarrow> bool" where
  "ses_frame rx p a w w' \<longleftrightarrow> others p w w' \<and>
     (\<forall>c. conns w p = Some c \<longrightarrow> (\<exists>c'. conns w' p = Some c' \<and> conn_frame c c' \<and> m_fd c' = m_fd c)) \<and>
     (\<forall>fd. rx fd (w_os w') = rx fd (w_os w))"

text \<open>What is expected of a session that has sent a request and is not reading a response.\<close>

definition ready :: "('s \<Rightarrow> bool) \<Rightarrow> nat \<Rightarrow> 's session \<Rightarrow> bool" where
  "ready sub_ok a s \<longleftrightarrow> sub_ok (ses_sub s) \<and> (\<forall>q. ses_in_q s = Some q \<longrightarrow> m_cur_write_offset q = 0)"

text \<open>
  The sessions: a request can always be sent, reading a response keeps the invariant, and
  writing adds nothing.
\<close>

locale hurl_machine = conn_classes "he_cls env" rx up
  for cfg :: hurl_cfg and env :: "('o, 'x, 's) hurl_env" and rx :: "int \<Rightarrow> 'o \<Rightarrow> nat" and up :: "scheme \<Rightarrow> 'x \<Rightarrow> bool" +
  fixes sub_ok :: "'s \<Rightarrow> bool" and G :: "request \<Rightarrow> path_globals \<Rightarrow> bool"
  assumes quiet: "\<not> g_verbose cfg"
    and chunk: "0 < g_chunk_size_kb cfg" "g_chunk_size_kb cfg * 1024 < 2 ^ 31"
    and sconnected: "sv_sconnected (he_ses env) a w = Some (STATUS_OK, w)"
    and swrite: "sv_swrite (he_ses env) a w = Some (STATUS_OK, w)"
    and srequest: "heap_inv (conn_good (he_cls env) up) ((ready sub_ok)(a := \<lambda>_. True)) G w \<Longrightarrow>
      conns w p = Some c \<Longrightarrow> nc_data c = Some a \<Longrightarrow>
      \<exists>w'. sv_srequest (he_ses env) a w = Some (STATUS_OK, w') \<and>
        heap_inv (conn_good (he_cls env) up) (ready sub_ok) G w' \<and> ses_frame rx p a w w'"
    and sread: "heap_inv (conn_good (he_cls env) up) ((ready sub_ok)(a := \<lambda>s. sub_ok (ses_sub s))) G w \<Longrightarrow>
      conns w p = Some c \<Longrightarrow> nc_data c = Some a \<Longrightarrow>
      \<exists>st w'. sv_sread (he_ses env) a bytes off w = Some (st, w') \<and>
        heap_inv (conn_good (he_cls env) up) ((ready sub_ok)(a := \<lambda>s. sub_ok (ses_sub s))) G w' \<and> ses_frame rx p a w w'"

section \<open>A round of the state machine\<close>

text \<open>
  What decreases from round to round: the state, the bytes still to be received, and the
  bytes still to be sent.
\<close>

fun state_rank :: "nc_conn_state \<Rightarrow> nat" where
  "state_rank NC_STATE_FREE = 3"
| "state_rank NC_STATE_CONNECTING = 2"
| "state_rank NC_STATE_CONNECTED = 1"
| "state_rank _ = 0"

definition out_left :: "nat option \<Rightarrow> ('o, 'x, 's) hworld \<Rightarrow> nat" where
  "out_left a w = (case Option.bind (Option.bind a (sessions w)) ses_out_q of None \<Rightarrow> 0 | Some q \<Rightarrow> length (unread q))"

definition variant :: "(int \<Rightarrow> 'o \<Rightarrow> nat) \<Rightarrow> nat \<Rightarrow> ('o, 'x, 's) hworld \<Rightarrow> nat \<times> nat \<times> nat" where
  "variant rx p w = (case conns w p of
     None \<Rightarrow> (0, 0, 0)
   | Some c \<Rightarrow> (state_rank (nc_state c), rx (m_fd c) (w_os w), out_left (nc_data c) w))"

definition lex3 :: "((nat \<times> nat \<times> nat) \<times> nat \<times> nat \<times> nat) set" where
  "lex3 = less_than <*lex*> less_than <*lex*> less_than"

lemma wf_lex3: "wf lex3"
  by (simp add: lex3_def wf_lex_prod)

lemma variant_state:
  "conns w p = Some c \<Longrightarrow> conns w' p = Some c' \<Longrightarrow> state_rank (nc_state c') < state_rank (nc_state c) \<Longrightarrow>
    (variant rx p w', variant rx p w) \<in> lex3"
  by (simp add: variant_def lex3_def)

lemma variant_rx:
  "conns w p = Some c \<Longrightarrow> conns w' p = Some c' \<Longrightarrow> state_rank (nc_state c') \<le> state_rank (nc_state c) \<Longrightarrow>
    rx (m_fd c') (w_os w') < rx (m_fd c) (w_os w) \<Longrightarrow> (variant rx p w', variant rx p w) \<in> lex3"
  by (auto simp: variant_def lex3_def)

lemma variant_out:
  "conns w p = Some c \<Longrightarrow> conns w' p = Some c' \<Longrightarrow> nc_state c' = nc_state c \<Longrightarrow>
    rx (m_fd c') (w_os w') = rx (m_fd c) (w_os w) \<Longrightarrow> out_left (nc_data c') w' < out_left (nc_data c) w \<Longrightarrow>
    (variant rx p w', variant rx p w) \<in> lex3"
  by (auto simp: variant_def lex3_def)

text \<open>The invariant of a thread: that of its heap, within the limit of connections.\<close>

definition thread_inv ::
  "('x nconn_tcp_scheme \<Rightarrow> bool) \<Rightarrow> (nat \<Rightarrow> 's session \<Rightarrow> bool) \<Rightarrow> (request \<Rightarrow> path_globals \<Rightarrow> bool) \<Rightarrow> ('o, 'x, 's) hworld \<Rightarrow> bool" where
  "thread_inv H R G w \<longleftrightarrow> heap_inv H R G w \<and> card (h_nconn_set w) \<le> h_num_conn_parallel_max w"

context hurl_machine
begin

abbreviation inv :: "(nat \<Rightarrow> 's session \<Rightarrow> bool) \<Rightarrow> ('o, 'x, 's) hworld \<Rightarrow> bool" where
  "inv R \<equiv> heap_inv (conn_good (he_cls env) up) R G"

abbreviation good :: "('o, 'x, 's) hworld \<Rightarrow> bool" where
  "good \<equiv> inv (ready sub_ok)"

abbreviation reading :: "nat \<Rightarrow> nat \<Rightarrow> 's session \<Rightarrow> bool" where
  "reading a \<equiv> (ready sub_ok)(a := \<lambda>s. sub_ok (ses_sub s))"

text \<open>In the machine the session of a connection that is done may have bytes left in its input queue.\<close>

definition live :: "nat \<Rightarrow> ('o, 'x, 's) hworld \<Rightarrow> bool" where
  "live p w \<longleftrightarrow> (\<exists>c R. conns w p = Some c \<and> inv R w \<and>
     (\<forall>a. R a = ready sub_ok a \<or> nc_data c = Some a \<and> nc_state c = NC_STATE_DONE))"

lemma live_good: "good w \<Longrightarrow> conns w p = Some c \<Longrightarrow> live p w"
  by (auto simp: live_def)

definition round_ok :: "nat \<Rightarrow> ('o, 'x, 's) hworld \<Rightarrow> ('o, 'x, 's) sm_res \<Rightarrow> bool" where
  "round_ok p w res \<longleftrightarrow> (\<exists>nx w'. res = Some (nx, w') \<and> others p w w' \<and>
     (case nx of
        Return st \<Rightarrow> good w' \<and> (conns w' p \<noteq> None \<or> st = STATUS_DONE)
      | Goto_Top m \<Rightarrow> live p w' \<and> (variant rx p w', variant rx p w) \<in> lex3))"

lemma round_ok_Return:
  "res = Some (Return st, w') \<Longrightarrow> others p w w' \<Longrightarrow> good w' \<Longrightarrow> conns w' p \<noteq> None \<or> st = STATUS_DONE \<Longrightarrow> round_ok p w res"
  by (simp add: round_ok_def)

lemma round_ok_Goto:
  "res = Some (Goto_Top m, w') \<Longrightarrow> others p w w' \<Longrightarrow> live p w' \<Longrightarrow> (variant rx p w', variant rx p w) \<in> lex3 \<Longrightarrow>
    round_ok p w res"
  by (simp add: round_ok_def)

lemma has_class:
  assumes "inv R w" "conns w p = Some c"
  obtains k where "he_cls env (nc_scheme c) = Some k"
  using heap_inv_conn_ok[OF assms] by (auto simp: conn_ok_def conn_good_def)

lemma is_up:
  assumes "inv R w" "conns w p = Some c" "nc_state c \<in> {NC_STATE_CONNECTING, NC_STATE_CONNECTED}"
  shows "up (nc_scheme c) (nconn_tcp.more c)"
  using heap_inv_conn_ok[OF assms(1,2)] assms(3) by (auto simp: conn_ok_def conn_good_def)

lemma stays_good:
  assumes "inv R w" "conns w p = Some c" "conn_frame c c'" "nc_state c \<in> {NC_STATE_CONNECTING, NC_STATE_CONNECTED} \<Longrightarrow> up (nc_scheme c) (nconn_tcp.more c')"
  shows "conn_good (he_cls env) up c'"
  using heap_inv_conn_ok[OF assms(1,2)] assms(3,4) by (auto simp: conn_ok_def conn_good_def conn_frame_def)

text \<open>A connection enters the state \<open>NC_STATE_DONE\<close>.\<close>

lemma set_done:
  assumes "inv R w" "conns w p = Some c" "nc_data c = Some a"
  shows "inv R (put_conn p (c\<lparr>nc_state := NC_STATE_DONE\<rparr>) w)"
  by (rule heap_inv_conn[OF assms(1,2)])
    (use heap_inv_conn_ok[OF assms(1,2)] assms(3) in \<open>auto simp: conn_ok_def conn_good_def\<close>)

lemma top_done_ok:
  assumes "inv R w'" "conns w' p = Some c'" "nc_data c' = Some a" "\<And>b. b \<noteq> a \<Longrightarrow> R b = ready sub_ok b" "others p w w'"
    "conns w p = Some c" "nc_state c = NC_STATE_CONNECTED"
  shows "round_ok p w (top_done m p w')"
proof (rule round_ok_Goto)
  let ?w = "put_conn p (c'\<lparr>nc_state := NC_STATE_DONE\<rparr>) w'"
  show "top_done m p w' = Some (Goto_Top m, ?w)" using assms(2) by (simp add: top_done_def set_state_def)
  show "others p w ?w" using assms(5) by simp
  have c: "conns ?w p = Some (c'\<lparr>nc_state := NC_STATE_DONE\<rparr>)" by simp
  have "R b = ready sub_ok b \<or> nc_data (c'\<lparr>nc_state := NC_STATE_DONE\<rparr>) = Some b \<and>
      nc_state (c'\<lparr>nc_state := NC_STATE_DONE\<rparr>) = NC_STATE_DONE" for b
    using assms(3,4) by (cases "b = a") auto
  then show "live p ?w" unfolding live_def using set_done[OF assms(1-3)] c by blast
  show "(variant rx p ?w, variant rx p w) \<in> lex3" by (rule variant_state[OF assms(6) c]) (simp add: assms(7))
qed

lemma sm_free_ok:
  assumes "good w" "conns w p = Some c" "nc_state c = NC_STATE_FREE"
  shows "round_ok p w (sm_free env m p w)"
proof -
  obtain k where k: "he_cls env (nc_scheme c) = Some k" using has_class[OF assms(1,2)] .
  obtain r c' w' where o: "on_conn env v_ncsetup p w = Some (r, put_conn p c' w')" "conn_frame c c'" "os_frame p w w'"
    "r = NC_STATUS_OK \<longrightarrow> up (nc_scheme c) (nconn_tcp.more c')" "good (put_conn p c' w')"
  proof (rule on_conn_framed[where f = v_ncsetup and A = "\<lambda>_. True", OF assms(1,2) k setup_framed[OF k] TrueI])
    fix r c' w'
    assume o: "on_conn env v_ncsetup p w = Some (r, put_conn p c' w')" "conn_frame c c'" "os_frame p w w'"
      "r = NC_STATUS_OK \<longrightarrow> up (nc_scheme c) (nconn_tcp.more c')"
      "conn_good (he_cls env) up c' \<Longrightarrow> good (put_conn p c' w')"
    have "conn_good (he_cls env) up c'" by (rule stays_good[OF assms(1,2) o(2)]) (simp add: assms(3))
    then show thesis using that o by blast
  qed
  note F = os_frame_fields[OF o(3)]
  show ?thesis
  proof (cases "r = NC_STATUS_OK")
    case False
    show ?thesis
    proof (rule round_ok_Return)
      show "sm_free env m p w = Some (Return STATUS_ERROR, (put_conn p c' w')\<lparr>g_test_finished := True\<rparr>)"
        using False o(1) by (simp add: sm_free_def)
      show "others p w ((put_conn p c' w')\<lparr>g_test_finished := True\<rparr>)" using F(4) by (auto simp: others_def)
      show "good ((put_conn p c' w')\<lparr>g_test_finished := True\<rparr>)"
        by (rule heap_inv_cong[OF o(5)]) (use o(5) in \<open>simp_all add: heap_inv_def accounted_def\<close>)
    qed simp
  next
    case True
    let ?c = "c'\<lparr>nc_state := NC_STATE_CONNECTING\<rparr>"
    let ?w = "put_conn p ?c (put_conn p c' w')"
    have "nc_data c = None" using heap_inv_conn_ok[OF assms(1,2)] assms(3) by (auto simp: conn_ok_def split: option.splits)
    then have d: "nc_data c' = None" using o(2) by (simp add: conn_frame_def)
    have c': "conns (put_conn p c' w') p = Some c'" by simp
    have g: "good ?w"
      by (rule heap_inv_conn[OF o(5) c']) (use heap_inv_conn_ok[OF o(5) c'] d o(2,4) True in \<open>simp_all add: conn_ok_def conn_good_def conn_frame_def\<close>)
    show ?thesis
    proof (rule round_ok_Goto)
      show "sm_free env m p w = Some (Goto_Top m, ?w)" using True o(1) by (simp add: sm_free_def set_state_def)
      show "others p w ?w" using F(4) by simp
      show "live p ?w" by (rule live_good[OF g]) simp
      show "(variant rx p ?w, variant rx p w) \<in> lex3" by (rule variant_state[OF assms(2), where c' = ?c]) (simp_all add: assms(3))
    qed
  qed
qed

lemma sm_connecting_ok:
  assumes "good w" "conns w p = Some c" "nc_state c = NC_STATE_CONNECTING"
  shows "round_ok p w (sm_connecting cfg env p w)"
proof -
  obtain k where k: "he_cls env (nc_scheme c) = Some k" using has_class[OF assms(1,2)] .
  obtain r c' w' where o: "on_conn env v_ncconnect p w = Some (r, put_conn p c' w')" "conn_frame c c'" "os_frame p w w'"
    "up (nc_scheme c) (nconn_tcp.more c')" "good (put_conn p c' w')"
  proof (rule on_conn_framed[where f = v_ncconnect and A = "\<lambda>c'. up (nc_scheme c) (nconn_tcp.more c')", OF assms(1,2) k connect_framed[OF k]])
    show "up (nc_scheme c) (nconn_tcp.more c)" using is_up[OF assms(1,2)] assms(3) by simp
    fix r c' w'
    assume o: "on_conn env v_ncconnect p w = Some (r, put_conn p c' w')" "conn_frame c c'" "os_frame p w w'"
      "up (nc_scheme c) (nconn_tcp.more c')" "conn_good (he_cls env) up c' \<Longrightarrow> good (put_conn p c' w')"
    show thesis using that o stays_good[OF assms(1,2) o(2)] by blast
  qed
  note F = os_frame_fields[OF o(3)]
  let ?w1 = "put_conn p c' w'"
  have c': "conns ?w1 p = Some c'" by simp
  have k': "he_cls env (nc_scheme c') = Some k" using k o(2) by (simp add: conn_frame_def)
  consider "r = NC_STATUS_ERROR" | "r \<noteq> NC_STATUS_ERROR" "v_is_connecting (nk_virt k) c'"
    | "r \<noteq> NC_STATUS_ERROR" "\<not> v_is_connecting (nk_virt k) c'" by blast
  then show ?thesis
  proof cases
    case 1
    show ?thesis
    proof (rule round_ok_Return)
      show "sm_connecting cfg env p w = Some (Return STATUS_ERROR, upd_stat (\<lambda>t. t\<lparr>m_errors := u64 (m_errors t + 1)\<rparr>) ?w1)"
        using 1 o(1) by (simp add: sm_connecting_def)
    qed (use F(4) heap_inv_stat[OF o(5)] in simp_all)
  next
    case 2
    show ?thesis
    proof (rule round_ok_Return)
      show "sm_connecting cfg env p w = Some (Return STATUS_OK, ?w1)"
        using 2 o(1) k' by (simp add: sm_connecting_def)
    qed (use F(4) o(5) in simp_all)
  next
    case 3
    have "nc_data c = None" using heap_inv_conn_ok[OF assms(1,2)] assms(3) by (auto simp: conn_ok_def split: option.splits)
    then have d: "nc_data c' = None" using o(2) by (simp add: conn_frame_def)
    have good': "conn_good (he_cls env) up (c'\<lparr>nc_state := NC_STATE_CONNECTED, nc_data := Some a\<rparr>)" for a
      using k o(2,4) by (simp add: conn_good_def conn_frame_def)
    have alpn: "nc_alpn c' \<noteq> ALPN_HTTP_VER_V2" using heap_inv_conn_ok[OF o(5) c'] by (simp add: conn_ok_def)
    obtain a w4 c1 where w4: "session_create cfg env p (put_conn p (c'\<lparr>nc_state := NC_STATE_CONNECTED\<rparr>) ?w1) = Some (a, w4)"
      "inv ((ready sub_ok)(a := \<lambda>_. True)) w4" "others p ?w1 w4" "conns w4 p = Some c1" "nc_data c1 = Some a"
      "nc_state c1 = NC_STATE_CONNECTED"
      using session_create_ok[OF o(5) c' d chunk, of "c'\<lparr>nc_state := NC_STATE_CONNECTED\<rparr>" env] good' alpn by auto
    obtain w6 where w6: "sv_srequest (he_ses env) a w4 = Some (STATUS_OK, w6)" "good w6" "ses_frame rx p a w4 w6"
      using srequest[OF w4(2,4,5)] by blast
    obtain c6 where c6: "conns w6 p = Some c6" "conn_frame c1 c6" using w6(3) w4(4) by (auto simp: ses_frame_def)
    show ?thesis
    proof (rule round_ok_Goto)
      show "sm_connecting cfg env p w = Some (Goto_Top EVR_MODE_WRITE, w6)"
        using 3 o(1) k' w4(1) w6(1) quiet sconnected by (simp add: sm_connecting_def set_state_def)
      have "others p w ?w1" using F(4) by simp
      then show "others p w w6" using w4(3) w6(3) others_trans unfolding ses_frame_def by blast
      show "live p w6" by (rule live_good[OF w6(2) c6(1)])
      show "(variant rx p w6, variant rx p w) \<in> lex3"
        by (rule variant_state[OF assms(2) c6(1)]) (use c6(2) w4(6) assms(3) in \<open>simp add: conn_frame_def\<close>)
    qed
  qed
qed

text \<open>Writing: bytes leave the output queue, or the round is the last one.\<close>

lemma nc_frame:
  assumes "inv R w" "conns w p = Some c" "he_cls env (nc_scheme c) = Some k" "nc_state c = NC_STATE_CONNECTED"
  shows "nc_io (nk_virt k) p (\<lambda>s. m_fd (fst s) = m_fd c \<and> conn_frame c (fst s) \<and> os_frame p w (snd s) \<and> up (nc_scheme c) (nconn_tcp.more (fst s)))
      (\<lambda>s. rx (m_fd c) (w_os (snd s)))"
    "m_fd (fst (c, w)) = m_fd c \<and> conn_frame c (fst (c, w)) \<and> os_frame p w (snd (c, w)) \<and> up (nc_scheme c) (nconn_tcp.more (fst (c, w)))"
proof -
  obtain f where "fd_store w p = Some f" using heap_inv_fd[OF assms(1,2)] .
  then show "m_fd (fst (c, w)) = m_fd c \<and> conn_frame c (fst (c, w)) \<and> os_frame p w (snd (c, w)) \<and> up (nc_scheme c) (nconn_tcp.more (fst (c, w)))"
    using is_up[OF assms(1,2)] assms(4) by (simp add: os_frame_refl)
qed (rule io[OF assms(3)])

lemma sm_write_ok:
  assumes g: "good w" and c: "conns w p = Some c" and a: "nc_data c = Some a" and st: "nc_state c = NC_STATE_CONNECTED"
  shows "round_ok p w (sm_write env p a w)"
proof -
  obtain k where k: "he_cls env (nc_scheme c) = Some k" using has_class[OF g c] .
  obtain s where s: "sessions w a = Some s" "ses_ok p s" "ready sub_ok a s" using ses_owner(1)[OF g c a] by blast
  obtain q where q: "ses_out_q s = Some q" "out_ok q" using s(2) by (auto simp: ses_ok_def)
  have get: "get_out_q a w = Some q" using s(1) q(1) by (simp add: get_out_q_def)
  have rd: "rd_inv q" "no_gap q" using q(2) by (simp_all add: out_ok_def)
  show ?thesis
  proof (cases "read_avail q = 0")
    case True
    show ?thesis
      by (rule round_ok_Return[of _ STATUS_OK w]) (use True get g c in \<open>simp_all add: sm_write_def swrite\<close>)
  next
    case False
    then have ne: "unread q \<noteq> []" using rd_inv_length[OF rd(1)] by (auto simp: read_avail_def)
    obtain r n q1 c1 w1 where
      n: "nc_write (nk_virt k) p (Some q) (c, w) = Some (r, n, Some q1, c1, w1)" "n \<le> length (unread q)" "read_post q n q1"
        "r \<in> {NC_STATUS_OK, NC_STATUS_AGAIN, NC_STATUS_ERROR}" "r = NC_STATUS_OK \<longrightarrow> 0 < n"
        "n = 0 \<and> q1 = q \<or> (\<exists>i. m_cur_read_block q = At i \<and> n \<le> avail (m_q q ! i) \<and> q1 = read_step i n q)"
      and fr: "m_fd c1 = m_fd c" "conn_frame c c1" "os_frame p w w1" "rx (m_fd c) (w_os w1) = rx (m_fd c) (w_os w)"
        "up (nc_scheme c) (nconn_tcp.more c1)"
      using nc_io.nc_write_ends[OF nc_frame[OF g c k st] rd(1)] rd(2) ne by (smt (verit) fst_conv prod.collapse snd_conv)
    note F = os_frame_fields[OF fr(3)]
    define s1 where "s1 = s\<lparr>ses_out_q := Some q1\<rparr>"
    define w4 where "w4 = upd_stat (\<lambda>t. t\<lparr>m_bytes_written := u64 (m_bytes_written t + n)\<rparr>) (put_ses a s1 (put_conn p c1 w1))"
    have out: "out_ok q1" using n(6) q(2) out_ok_read_step by blast
    have ses: "ses_ok p s1" "ready sub_ok a s1" using s(2,3) out by (simp_all add: ses_ok_def ready_def s1_def)
    have d1: "conns (put_conn p c1 w1) p = Some c1" "nc_data c1 = Some a" using fr(2) a by (simp_all add: conn_frame_def)
    have "good (put_ses a s1 (put_conn p c1 w1))"
      by (rule heap_inv_ses[where R' = "ready sub_ok", OF heap_inv_framed[OF g c fr(2,3) stays_good[OF g c fr(2,5)]] d1 ses]) simp
    then have g4: "good w4" unfolding w4_def by (rule heap_inv_stat) simp_all
    have oth: "others p w w4" using F(4) by (simp add: w4_def)
    have c4: "conns w4 p = Some c1" by (simp add: w4_def)
    have step: "sm_write env p a w =
        (if r = NC_STATUS_EOF \<or> r = NC_STATUS_ERROR then top_done EVR_MODE_WRITE p w4
         else if r = NC_STATUS_AGAIN then Some (Return STATUS_OK, w4)
         else if r = NC_STATUS_OK then Some (Goto_Top EVR_MODE_WRITE, w4) else Some (Return STATUS_ERROR, w4))"
      using False get c k n(1) s(1) F(2) q(1)
      by (simp add: sm_write_def swrite put_out_q_def w4_def s1_def)
    consider "r = NC_STATUS_OK" | "r = NC_STATUS_AGAIN" | "r = NC_STATUS_ERROR" using n(4) by blast
    then show ?thesis
    proof cases
      case 1
      show ?thesis
      proof (rule round_ok_Goto)
        show "sm_write env p a w = Some (Goto_Top EVR_MODE_WRITE, w4)" using 1 step by (simp add: nc_status_defs)
        show "live p w4" by (rule live_good[OF g4 c4])
        have "out_left (nc_data c1) w4 = length (unread q1)" using d1(2) by (simp add: out_left_def w4_def s1_def)
        moreover have "out_left (nc_data c) w = length (unread q)" using a s(1) q(1) by (simp add: out_left_def)
        moreover have "length (unread q1) < length (unread q)" using n(2,3,5) 1 by (auto simp: read_post_def)
        moreover have "w_os w4 = w_os w1" by (simp add: w4_def)
        ultimately show "(variant rx p w4, variant rx p w) \<in> lex3"
          using variant_out[OF c c4] fr by (simp add: conn_frame_def)
      qed (rule oth)
    next
      case 2
      then show ?thesis
        by (intro round_ok_Return[of _ STATUS_OK w4]) (use step oth g4 c4 in \<open>simp_all add: nc_status_defs\<close>)
    next
      case 3
      then have "sm_write env p a w = top_done EVR_MODE_WRITE p w4" using step by simp
      then show ?thesis using top_done_ok[OF g4 c4 d1(2) _ oth c st] by simp
    qed
  qed
qed

text \<open>After a response has been parsed.\<close>

lemma sm_after_read_ok:
  assumes i: "inv (reading a) w" and c: "conns w p = Some c" and a: "nc_data c = Some a"
  shows "\<exists>m w' c'. sm_after_read cfg env p a w = Some (Goto_Top m, w') \<and> good w' \<and> others p w w' \<and>
    conns w' p = Some c' \<and> m_fd c' = m_fd c \<and> nc_state c' \<in> {nc_state c, NC_STATE_DONE} \<and>
    (\<forall>fd. rx fd (w_os w') = rx fd (w_os w))"
proof -
  obtain s where s: "sessions w a = Some s" "ses_ok p s" "sub_ok (ses_sub s)" using ses_owner(1)[OF i c a] by auto
  obtain q oq where q: "ses_in_q s = Some q" "nbq_inv q" "ses_out_q s = Some oq" "out_ok oq" using s(2) by (auto simp: ses_ok_def)
  define s1 where "s1 = s\<lparr>ses_in_q := Some (reset_write q)\<rparr>"
  define w1 where "w1 = put_ses a s1 w"
  have r1: "ses_ok p s1" "ready sub_ok a s1"
    using s(2,3) reset_write_inv(1)[OF q(2)] by (simp_all add: ses_ok_def ready_def s1_def reset_write_def Let_def)
  have g1: "good w1" unfolding w1_def by (rule heap_inv_ses[where R' = "ready sub_ok", OF i c a r1]) simp
  have w1: "conns w1 p = Some c" "sessions w1 a = Some s1" "others p w w1" "w_os w1 = w_os w" using c by (simp_all add: w1_def)
  have get: "get_in_q a w = Some q" "put_in_q a (reset_write q) w = Some w1" "get_out_q a w1 = Some oq"
    using s(1) q w1(2) by (simp_all add: get_in_q_def put_in_q_def get_out_q_def w1_def s1_def)
  define w2 where "w2 = put_ses a (s1\<lparr>ses_h2_body_q := None\<rparr>) w1"
  have r2: "ses_ok p (s1\<lparr>ses_h2_body_q := None\<rparr>)" "ready sub_ok a (s1\<lparr>ses_h2_body_q := None\<rparr>)"
    using r1 by (simp_all add: ses_ok_def ready_def)
  have g2: "good w2" unfolding w2_def by (rule heap_inv_ses[where R' = "ready sub_ok", OF g1 w1(1) a r2]) simp
  have w2: "conns w2 p = Some c" "others p w w2" "w_os w2 = w_os w" using w1 by (simp_all add: w2_def)
  let ?wd = "put_conn p (c\<lparr>nc_state := NC_STATE_DONE\<rparr>) w2"
  have gd: "good ?wd" by (rule set_done[OF g2 w2(1) a])
  have s2: "sessions w2 a = Some (s1\<lparr>ses_h2_body_q := None\<rparr>)" by (simp add: w2_def)
  have "inv ((ready sub_ok)(a := \<lambda>_. True)) w2" by (rule heap_inv_expect[OF g2 w2(1) a s2]) simp_all
  from srequest[OF this w2(1) a] obtain w3 where
    w3: "sv_srequest (he_ses env) a w2 = Some (STATUS_OK, w3)" "good w3" "ses_frame rx p a w2 w3" by blast
  obtain c3 where c3: "conns w3 p = Some c3" "conn_frame c c3" "m_fd c3 = m_fd c" using w3(3) w2(1) by (auto simp: ses_frame_def)
  have a3: "nc_data c3 = Some a" using c3(2) a by (simp add: conn_frame_def)
  obtain s3 where s3: "sessions w3 a = Some s3" "ses_ok p s3" "ready sub_ok a s3" using ses_owner(1)[OF w3(2) c3(1) a3] by blast
  define w4 where "w4 = put_ses a (s3\<lparr>ses_streams_closed := 0\<rparr>) w3"
  have r4: "ses_ok p (s3\<lparr>ses_streams_closed := 0\<rparr>)" "ready sub_ok a (s3\<lparr>ses_streams_closed := 0\<rparr>)"
    using s3 by (simp_all add: ses_ok_def ready_def)
  have g4: "good w4" unfolding w4_def by (rule heap_inv_ses[where R' = "ready sub_ok", OF w3(2) c3(1) a3 r4]) simp
  have w4: "conns w4 p = Some c3" "others p w w4" "\<forall>fd. rx fd (w_os w4) = rx fd (w_os w)"
    using c3(1) w3(3) w2 others_trans by (auto simp: w4_def ses_frame_def)
  have step: "sm_after_read cfg env p a w =
      (if read_avail oq \<noteq> 0 then Some (Goto_Top EVR_MODE_WRITE, w1)
       else if ses_streams_closed s1 \<noteq> 0
       then (if ses_goaway s1 \<or> \<not> can_reuse c \<or> \<not> can_request w1 then Some (Goto_Top EVR_MODE_READ, ?wd)
             else Some (Goto_Top EVR_MODE_WRITE, w4))
       else Some (Goto_Top EVR_MODE_READ, w1))"
    using quiet get w1(1,2) w2(1) w3(1) s3(1)
    by (simp add: sm_after_read_def Let_def top_done_def set_state_def w2_def[symmetric] w4_def)
  have st3: "nc_state c3 = nc_state c" using c3(2) by (simp add: conn_frame_def)
  have ex: "?thesis" if "sm_after_read cfg env p a w = Some (Goto_Top m, w')" "good w'" "others p w w'" "conns w' p = Some c'"
    "m_fd c' = m_fd c" "nc_state c' \<in> {nc_state c, NC_STATE_DONE}" "\<forall>fd. rx fd (w_os w') = rx fd (w_os w)" for m w' c'
    using that by blast
  show ?thesis
  proof (cases "read_avail oq \<noteq> 0 \<or> ses_streams_closed s1 = 0")
    case True
    then show ?thesis
      by (intro ex[of "if read_avail oq \<noteq> 0 then EVR_MODE_WRITE else EVR_MODE_READ" w1 c]) (use step g1 w1 in auto)
  next
    case False
    show ?thesis
    proof (cases "ses_goaway s1 \<or> \<not> can_reuse c \<or> \<not> can_request w1")
      case True
      then show ?thesis
        by (intro ex[of EVR_MODE_READ ?wd "c\<lparr>nc_state := NC_STATE_DONE\<rparr>"]) (use False step gd w2 in auto)
    next
      case F: False
      then show ?thesis
        by (intro ex[of EVR_MODE_WRITE w4 c3]) (use False step g4 w4 c3(3) st3 in auto)
    qed
  qed
qed

text \<open>Reading: the session \<open>a\<close> after the bytes \<open>bs\<close> were received, in the world \<open>w3\<close>.\<close>

lemma sm_parse_ok:
  assumes c: "conns w p = Some c" and a: "nc_data c = Some a" and st: "nc_state c = NC_STATE_CONNECTED"
    and i3: "inv (reading a) w3" and c3: "conns w3 p = Some c3" "nc_data c3 = Some a" "m_fd c3 = m_fd c"
    and oth: "others p w w3"
    and less: "state_rank (nc_state c3) = 0 \<or> nc_state c3 = nc_state c \<and> rx (m_fd c) (w_os w3) < rx (m_fd c) (w_os w)"
  shows "round_ok p w (do {
      s \<leftarrow> sessions w3 a;
      (r, w5) \<leftarrow> sv_sread (he_ses env) a bs off (put_ses a (s\<lparr>ses_streams_closed := 0\<rparr>) w3);
      if r \<noteq> STATUS_OK then top_done EVR_MODE_READ p w5 else sm_after_read cfg env p a w5 })"
proof -
  obtain s where s: "sessions w3 a = Some s" "ses_ok p s" "sub_ok (ses_sub s)" using ses_owner(1)[OF i3 c3(1,2)] by auto
  define w4 where "w4 = put_ses a (s\<lparr>ses_streams_closed := 0\<rparr>) w3"
  have "ses_ok p (s\<lparr>ses_streams_closed := 0\<rparr>)" "reading a a (s\<lparr>ses_streams_closed := 0\<rparr>)"
    using s(2,3) by (simp_all add: ses_ok_def)
  then have i4: "inv (reading a) w4" unfolding w4_def by (rule heap_inv_ses[where R' = "reading a", OF i3 c3(1,2)]) simp
  have c4: "conns w4 p = Some c3" using c3(1) by (simp add: w4_def)
  obtain r w5 where w5: "sv_sread (he_ses env) a bs off w4 = Some (r, w5)" "inv (reading a) w5" "ses_frame rx p a w4 w5"
    using sread[OF i4 c4 c3(2)] by blast
  obtain c5 where c5: "conns w5 p = Some c5" "conn_frame c3 c5" "m_fd c5 = m_fd c" using w5(3) c4 c3(3) by (auto simp: ses_frame_def)
  have a5: "nc_data c5 = Some a" using c5(2) c3(2) by (simp add: conn_frame_def)
  have "others p w w4" using oth by (simp add: w4_def)
  then have oth5: "others p w w5" using w5(3) others_trans unfolding ses_frame_def by blast
  have rx5: "rx fd (w_os w5) = rx fd (w_os w3)" for fd using w5(3) by (simp add: ses_frame_def w4_def)
  have e: "do { s \<leftarrow> sessions w3 a;
      (r, w5) \<leftarrow> sv_sread (he_ses env) a bs off (put_ses a (s\<lparr>ses_streams_closed := 0\<rparr>) w3);
      if r \<noteq> STATUS_OK then top_done EVR_MODE_READ p w5 else sm_after_read cfg env p a w5 } =
      (if r \<noteq> STATUS_OK then top_done EVR_MODE_READ p w5 else sm_after_read cfg env p a w5)"
    using s(1) w5(1) by (simp add: w4_def)
  show ?thesis
  proof (cases "r = STATUS_OK")
    case False
    then show ?thesis unfolding e using top_done_ok[OF w5(2) c5(1) a5 _ oth5 c st] by simp
  next
    case True
    obtain m w6 c6 where w6: "sm_after_read cfg env p a w5 = Some (Goto_Top m, w6)" "good w6" "others p w5 w6"
      "conns w6 p = Some c6" "m_fd c6 = m_fd c5" "nc_state c6 \<in> {nc_state c5, NC_STATE_DONE}"
      "\<forall>fd. rx fd (w_os w6) = rx fd (w_os w5)"
      using sm_after_read_ok[OF w5(2) c5(1) a5] by blast
    have st5: "nc_state c5 = nc_state c3" using c5(2) by (simp add: conn_frame_def)
    have "(variant rx p w6, variant rx p w) \<in> lex3"
    proof (cases "state_rank (nc_state c6) = 0")
      case True
      then show ?thesis using variant_state[OF c w6(4)] st by simp
    next
      case False
      then have "nc_state c6 = nc_state c" "rx (m_fd c) (w_os w3) < rx (m_fd c) (w_os w)" using less w6(6) st5 by auto
      then show ?thesis using variant_rx[OF c w6(4)] w6(5,7) c5(3) rx5 by simp
    qed
    then show ?thesis
      unfolding e using True w6(1) others_trans[OF oth5 w6(3)] live_good[OF w6(2,4)] by (intro round_ok_Goto[of _ m w6]) simp_all
  qed
qed

lemma sm_read_ok:
  assumes g: "good w" and c: "conns w p = Some c" and a: "nc_data c = Some a" and st: "nc_state c = NC_STATE_CONNECTED"
  shows "round_ok p w (sm_read cfg env p a w)"
proof -
  obtain k where k: "he_cls env (nc_scheme c) = Some k" using has_class[OF g c] .
  obtain s where s: "sessions w a = Some s" "ses_ok p s" "ready sub_ok a s" using ses_owner(1)[OF g c a] by blast
  obtain q where q: "ses_in_q s = Some q" "nbq_inv q" "m_cur_write_offset q = 0"
    using s(2,3) by (auto simp: ses_ok_def ready_def)
  have get: "get_in_q a w = Some q" using s(1) q(1) by (simp add: get_in_q_def)
  have "m_cur_write_offset q + rx (m_fd c) (w_os (snd (c, w))) < 2 ^ 64" using q(3) rx_less by simp
  from nc_moves.nc_read_ends[OF nc_io.axioms(1)[OF nc_frame(1)[OF g c k st]] nc_frame(2)[OF g c k st] q(2) this] obtain r bs q1 s' where
    rd: "nc_read (nk_virt k) p (Some q) (c, w) = Some (r, bs, Some q1, s')" "write_post q bs q1"
      "r = NC_STATUS_OK \<longleftrightarrow> bs \<noteq> []" "rx (m_fd c) (w_os (snd s')) + length bs = rx (m_fd c) (w_os w)"
    and fr: "m_fd (fst s') = m_fd c" "conn_frame c (fst s')" "os_frame p w (snd s')"
      "up (nc_scheme c) (nconn_tcp.more (fst s'))"
    by auto
  obtain c1 w1 where s': "s' = (c1, w1)" by (cases s')
  note rd = rd[unfolded s' fst_conv snd_conv] and fr = fr[unfolded s' fst_conv snd_conv]
  note F = os_frame_fields[OF fr(3)]
  define s1 where "s1 = s\<lparr>ses_in_q := Some q1\<rparr>"
  define w3 where "w3 = upd_stat (\<lambda>t. t\<lparr>m_bytes_read := u64 (m_bytes_read t + length bs)\<rparr>) (put_ses a s1 (put_conn p c1 w1))"
  have r1: "ses_ok p s1" "reading a a s1" using s(2,3) rd(2) by (simp_all add: ses_ok_def ready_def s1_def write_post_def)
  have d1: "conns (put_conn p c1 w1) p = Some c1" "nc_data c1 = Some a" using fr(2) a by (simp_all add: conn_frame_def)
  have "inv (reading a) (put_ses a s1 (put_conn p c1 w1))"
    by (rule heap_inv_ses[where R' = "reading a", OF heap_inv_framed[OF g c fr(2,3) stays_good[OF g c fr(2,4)]] d1 r1]) simp
  then have i3: "inv (reading a) w3" unfolding w3_def by (rule heap_inv_stat) simp_all
  have w3: "others p w w3" "conns w3 p = Some c1" "sessions w3 a = Some s1" "w_os w3 = w_os w1" using F(4) by (simp_all add: w3_def)
  have g3: "good w3" if "bs = []"
    by (rule heap_inv_expect[OF i3 w3(2) d1(2) w3(3)])
      (use that s(3) q rd(2) in \<open>simp_all add: ready_def s1_def write_post_def\<close>)
  have step: "sm_read cfg env p a w =
      (if r = NC_STATUS_ERROR then top_done EVR_MODE_READ p w3
       else if r = NC_STATUS_AGAIN then Some (Return STATUS_OK, w3)
       else if r = NC_STATUS_READ_UNAVAILABLE then Some (Return STATUS_ERROR, w3)
       else if r = NC_STATUS_EOF \<or> r = NC_STATUS_OK
       then do {
         w4 \<leftarrow> (if r = NC_STATUS_EOF then set_state NC_STATE_DONE p w3 else Some w3);
         s \<leftarrow> sessions w4 a;
         (r, w5) \<leftarrow> sv_sread (he_ses env) a bs (m_cur_write_offset q) (put_ses a (s\<lparr>ses_streams_closed := 0\<rparr>) w4);
         if r \<noteq> STATUS_OK then top_done EVR_MODE_READ p w5 else sm_after_read cfg env p a w5 }
       else Some (Return STATUS_ERROR, w3))"
    using get c k rd(1) s(1) s' F(2) q(1) by (simp add: sm_read_def put_in_q_def w3_def s1_def)
  consider "r = NC_STATUS_ERROR" | "r = NC_STATUS_EOF" | "r = NC_STATUS_OK"
    | "r \<noteq> NC_STATUS_ERROR" "r \<noteq> NC_STATUS_EOF" "r \<noteq> NC_STATUS_OK" by blast
  then show ?thesis
  proof cases
    case 1
    then have "sm_read cfg env p a w = top_done EVR_MODE_READ p w3" using step by simp
    then show ?thesis using top_done_ok[OF i3 w3(2) d1(2) _ w3(1) c st] by simp
  next
    case 2
    let ?w4 = "put_conn p (c1\<lparr>nc_state := NC_STATE_DONE\<rparr>) w3"
    have c4: "conns ?w4 p = Some (c1\<lparr>nc_state := NC_STATE_DONE\<rparr>)" by simp
    have "round_ok p w (do {
        s \<leftarrow> sessions ?w4 a;
        (r, w5) \<leftarrow> sv_sread (he_ses env) a bs (m_cur_write_offset q) (put_ses a (s\<lparr>ses_streams_closed := 0\<rparr>) ?w4);
        if r \<noteq> STATUS_OK then top_done EVR_MODE_READ p w5 else sm_after_read cfg env p a w5 })"
      by (rule sm_parse_ok[OF c a st set_done[OF i3 w3(2) d1(2)] c4]) (use d1(2) fr(1) w3(1) in simp_all)
    then show ?thesis using step 2 w3(2) by (simp add: nc_status_defs set_state_def)
  next
    case 3
    have "rx (m_fd c) (w_os w3) < rx (m_fd c) (w_os w)" using 3 rd(3,4) w3(4) by (cases bs) auto
    moreover have "nc_state c1 = nc_state c" using fr(2) by (simp add: conn_frame_def)
    ultimately show ?thesis
      using sm_parse_ok[OF c a st i3 w3(2) d1(2) fr(1) w3(1)] step 3 by (simp add: nc_status_defs)
  next
    case 4
    then have "bs = []" using rd(3) by blast
    then show ?thesis
      by (intro round_ok_Return[of _ "if r = NC_STATUS_AGAIN then STATUS_OK else STATUS_ERROR" w3])
        (use 4 step w3(1,2) g3 in auto)
  qed
qed

section \<open>The machine ends\<close>

lemma sm_step_ok:
  assumes "live p w"
  shows "round_ok p w (sm_step cfg env m p w)"
proof -
  obtain c R where c: "conns w p = Some c" and i: "inv R w"
    and R: "\<And>a. R a = ready sub_ok a \<or> nc_data c = Some a \<and> nc_state c = NC_STATE_DONE"
    using assms by (auto simp: live_def)
  obtain k where k: "he_cls env (nc_scheme c) = Some k" using has_class[OF i c] .
  have R': "ready sub_ok b = R b" if "nc_data c \<noteq> Some b" for b using R[of b] that by simp
  show ?thesis
  proof (cases "g_test_finished w")
    case True
    obtain w' where "close_conn env p w = Some (STATUS_DONE, w')" "good w'" "others p w w'"
      using close_conn_ok[where R' = "ready sub_ok", OF i c R' k cleanup_framed[OF k]] by blast
    then show ?thesis using True by (intro round_ok_Return[of _ STATUS_DONE w']) (simp_all add: sm_step_def ret_def)
  next
    case False
    have good: "good w" if "nc_state c \<noteq> NC_STATE_DONE"
    proof -
      have "R = ready sub_ok" using R that by (intro ext[of R]) blast
      then show ?thesis using i by simp
    qed
    note ok = heap_inv_conn_ok[OF i c]
    consider "nc_state c = NC_STATE_FREE" | "nc_state c = NC_STATE_CONNECTING"
      | a where "nc_state c = NC_STATE_CONNECTED" "nc_data c = Some a" | "nc_state c = NC_STATE_DONE"
      using ok by (cases "nc_data c") (auto simp: conn_ok_def)
    then show ?thesis
    proof cases
      case 1
      then show ?thesis using sm_free_ok[OF good c] False c by (simp add: sm_step_def)
    next
      case 2
      then show ?thesis using sm_connecting_ok[OF good c] False c by (simp add: sm_step_def)
    next
      case 3
      have g: "good w" using good 3(1) by simp
      have e: "sm_step cfg env m p w = (case m of EVR_MODE_READ \<Rightarrow> sm_read cfg env p a w
          | EVR_MODE_WRITE \<Rightarrow> sm_write env p a w | _ \<Rightarrow> Some (Return STATUS_ERROR, w))"
        using False c 3 by (simp add: sm_step_def sm_connected_def)
      have "round_ok p w (Some (Return STATUS_ERROR, w))"
        by (rule round_ok_Return[OF refl]) (use g c in simp_all)
      then show ?thesis
        unfolding e using sm_read_ok[OF g c 3(2,1)] sm_write_ok[OF g c 3(2,1)] by (cases m) simp_all
    next
      case 4
      obtain w' where "session_cleanup env (nc_data c) (Some p) w = Some (STATUS_OK, w')" "good w'" "others p w w'"
        using session_cleanup_ok[where R' = "ready sub_ok", OF i c R' k cleanup_framed[OF k]] by blast
      then show ?thesis
        using False c 4 by (intro round_ok_Return[of _ STATUS_DONE w']) (simp_all add: sm_step_def)
    qed
  qed
qed

text \<open>What a callback on \<open>p\<close> comes to.\<close>

definition ends :: "nat \<Rightarrow> ('o, 'x, 's) hworld \<Rightarrow> ('o, 'x, 's, int) hres \<Rightarrow> bool" where
  "ends p w res \<longleftrightarrow> (\<exists>st w'. res = Some (st, w') \<and> good w' \<and> others p w w' \<and> (conns w' p \<noteq> None \<or> st = STATUS_DONE))"

lemma sm_top_ends: "live p w \<Longrightarrow> ends p w (sm_top cfg env m p w)"
proof (induction "variant rx p w" arbitrary: w m rule: wf_induct_rule[OF wf_lex3])
  case 1
  obtain nx w1 where w1: "sm_step cfg env m p w = Some (nx, w1)" "others p w w1"
    "case nx of Return st \<Rightarrow> good w1 \<and> (conns w1 p \<noteq> None \<or> st = STATUS_DONE)
     | Goto_Top m \<Rightarrow> live p w1 \<and> (variant rx p w1, variant rx p w) \<in> lex3"
    using sm_step_ok[OF 1(2), of m] unfolding round_ok_def by blast
  show ?case
  proof (cases nx)
    case (Goto_Top m')
    then have "ends p w1 (sm_top cfg env m' p w1)" using 1(1) w1(3) by auto
    then show ?thesis
      using w1(1,2) Goto_Top others_trans by (subst sm_top.simps) (fastforce simp: ends_def)
  next
    case (Return st)
    then show ?thesis using w1 by (subst sm_top.simps) (simp add: ends_def)
  qed
qed

lemma run_state_machine_ends:
  assumes "good w" "conns w p = Some c"
  shows "ends p w (run_state_machine cfg env m (Some p) w)"
proof -
  obtain k where k: "he_cls env (nc_scheme c) = Some k" using has_class[OF assms] .
  have ctx: "\<exists>x. nc_ctx c = Some x" using heap_inv_conn_ok[OF assms] by (auto simp: conn_ok_def)
  note top = sm_top_ends[OF live_good[OF assms]]
  have stay: "ends p w (Some (st, w))" for st using assms by (simp add: ends_def)
  have close: "ends p w (close_conn env p w)"
    using close_conn_ok[where R' = "ready sub_ok", OF assms refl k cleanup_framed[OF k]] by (auto simp: ends_def)
  show ?thesis
    using ctx assms(2) top stay close by (cases m) (auto simp: run_state_machine_def)
qed

text \<open>Once the test has finished, an event on a connection that is set up closes it.\<close>

lemma finished_closes:
  assumes "good w" "conns w p = Some c" "g_test_finished w" "nc_state c \<noteq> NC_STATE_FREE" "cb \<noteq> evr_fd_timeout_cb"
  shows "\<exists>w'. hurl_call cfg env cb p w = Some (STATUS_DONE, w') \<and> good w' \<and> others p w w' \<and> gone p c w w'"
proof -
  obtain k where k: "he_cls env (nc_scheme c) = Some k" using has_class[OF assms(1,2)] .
  obtain w' where w': "close_conn env p w = Some (STATUS_DONE, w')" "good w'" "others p w w'" "gone p c w w'"
    using close_conn_ok[where R' = "ready sub_ok", OF assms(1,2) refl k cleanup_framed[OF k]] by blast
  have "sm_top cfg env m p w = Some (STATUS_DONE, w')" for m
    using assms(3) w'(1) by (subst sm_top.simps) (simp add: sm_step_def ret_def)
  moreover have "nc_ctx c \<noteq> None" using heap_inv_conn_ok[OF assms(1,2)] by (simp add: conn_ok_def)
  ultimately have "hurl_call cfg env cb p w = Some (STATUS_DONE, w')"
    using assms(2,4,5) w'(1) by (cases cb) (auto simp: hurl_call_def run_state_machine_def)
  then show ?thesis using w'(2-4) by blast
qed

lemma hurl_call_ends: "good w \<Longrightarrow> conns w p = Some c \<Longrightarrow> ends p w (hurl_call cfg env cb p w)"
  unfolding hurl_call_def by (rule run_state_machine_ends)

text \<open>So the callbacks are a client of the event loop that never uses a freed object, within the limit of connections.\<close>

abbreviation tinv :: "('o, 'x, 's) hworld \<Rightarrow> bool" where
  "tinv \<equiv> thread_inv (conn_good (he_cls env) up) (ready sub_ok) G"

lemma hurl_fd_client: "fd_client (hurl_call cfg env) tinv"
  unfolding fd_client_def
proof (intro allI impI, elim conjE)
  fix cb w p f
  assume t: "tinv w" and f: "fd_store w p = Some f"
  have g: "good w" using t by (simp add: thread_inv_def)
  have d: "fd_data f = p" using g f by (simp add: heap_inv_def)
  have "conns w p \<noteq> None" using g f unfolding heap_inv_def by (metis option.distinct(1))
  then obtain c where c: "conns w p = Some c" by blast
  obtain st w' where w': "hurl_call cfg env cb p w = Some (st, w')" "good w'" "others p w w'"
    "conns w' p \<noteq> None \<or> st = STATUS_DONE"
    using hurl_call_ends[OF g c, of cb] unfolding ends_def by blast
  have "keeps_fd w w' q" if h: "st = STATUS_OK \<or> fd_data_of w q \<noteq> Some p" for q
  proof (cases "q = p")
    case True
    then have "st = STATUS_OK" using h f d by (simp add: fd_data_of_def)
    then have "conns w' p \<noteq> None" using w'(4) by (simp add: status_defs)
    then obtain f' where f': "fd_store w' p = Some f'" using heap_inv_fd[OF w'(2)] by blast
    have "fd_data f' = p \<and> fd_read_cb f' = Some evr_fd_readable_cb \<and> fd_write_cb f' = Some evr_fd_writeable_cb"
      using w'(2) f' by (simp add: heap_inv_def)
    moreover have "fd_data f = p \<and> fd_read_cb f = Some evr_fd_readable_cb \<and> fd_write_cb f = Some evr_fd_writeable_cb"
      using g f by (simp add: heap_inv_def)
    ultimately show ?thesis using True f f' by (simp add: keeps_fd_def fd_data_of_def)
  next
    case False
    then show ?thesis using w'(3) by (simp add: others_def keeps_fd_def split: option.splits)
  qed
  moreover have "card (h_nconn_set w') \<le> card (h_nconn_set w)"
    using w'(3) g by (intro card_mono) (simp_all add: others_def heap_inv_def)
  then have "tinv w'" using t w'(2,3) by (simp add: thread_inv_def others_def)
  ultimately show "\<exists>st w'. hurl_call cfg env cb (fd_data f) w = Some (st, w') \<and> tinv w' \<and>
      (\<forall>q. st = STATUS_OK \<or> fd_data_of w q \<noteq> Some (fd_data f) \<longrightarrow> keeps_fd w w' q)"
    unfolding d using w' by blast
qed

section \<open>Connections are started\<close>

lemma create_conn_ok:
  assumes g: "good w" and k: "he_cls env (rq_scheme (h_request w)) = Some k"
  shows "\<exists>p c1 w1 w0. create_conn cfg env w = Some (Some p, w1) \<and> conns w1 p = Some c1 \<and>
    w0 = put_conn p (c1\<lparr>nc_label := rq_host (h_request w1), nc_data := None\<rparr>) w1\<lparr>h_nconn_set := insert p (h_nconn_set w1)\<rparr> \<and>
    good w0 \<and> conns w0 p \<noteq> None \<and> p \<notin> h_nconn_set w \<and> h_nconn_set w0 = insert p (h_nconn_set w) \<and>
    h_num_conn_parallel_max w0 = h_num_conn_parallel_max w"
proof -
  define p where "p = next_addr w"
  have free: "conns w p = None" "p \<notin> h_nconn_set w" using g by (simp_all add: heap_inv_def p_def)
  define c1 where "c1 = set_host_info (rq_host_info (h_request w))
      ((snd (set_opt OPT_TCP_NO_LINGER 1 (nk_new k (h_request w))))
         \<lparr>nc_ctx := Some 0, nc_num_reqs_per_conn := g_reqs_per_conn cfg, nc_evr_loop := True\<rparr>)"
  define f where "f = evr_fd_zero\<lparr>fd_magic := EVR_EVENT_FD_MAGIC, fd_read_cb := Some evr_fd_readable_cb,
      fd_write_cb := Some evr_fd_writeable_cb, fd_error_cb := Some evr_fd_error_cb, fd_data := p\<rparr>"
  define w1 where "w1 = put_conn p c1 (w\<lparr>next_addr := Suc p, fd_store := (fd_store w)(p \<mapsto> f)\<rparr>)"
  define c0 where "c0 = c1\<lparr>nc_label := rq_host (h_request w1), nc_data := None\<rparr>"
  define w0 where "w0 = put_conn p c0 w1\<lparr>h_nconn_set := insert p (h_nconn_set w1)\<rparr>"
  have create: "create_conn cfg env w = Some (Some p, w1)"
    unfolding create_conn_def k option.case Let_def p_def[symmetric] c1_def[symmetric] setup_evr_fd_def
    by (simp add: w1_def f_def)
  have c0: "nc_scheme c0 = rq_scheme (h_request w)" "nc_data c0 = None" "nc_state c0 = NC_STATE_FREE" "nc_ctx c0 = Some 0"
    "nc_alpn c0 \<noteq> ALPN_HTTP_VER_V2"
    using new_conn[OF k, of "h_request w"]
    by (simp_all add: c0_def c1_def set_host_info_def set_opt_def OPT_TCP_RECV_BUF_SIZE_def OPT_TCP_SEND_BUF_SIZE_def
      OPT_TCP_NO_DELAY_def OPT_TCP_NO_LINGER_def)
  have new: "conn_ok (conn_good (he_cls env) up) (ready sub_ok) w0 p c0"
    using c0 k by (simp add: conn_ok_def conn_good_def)
  have old: "conn_ok (conn_good (he_cls env) up) (ready sub_ok) w0 x d" if "conns w x = Some d" for x d
  proof -
    have "sessions w0 = sessions w" by (simp add: w0_def w1_def)
    then show ?thesis using heap_inv_conn_ok[OF g that] by (simp only: conn_ok_sessions[of w0 w])
  qed
  have own: "\<exists>x d. conns w0 x = Some d \<and> nc_data d = Some b" if b: "sessions w b \<noteq> None" for b
  proof -
    obtain x d where x: "conns w x = Some d" "nc_data d = Some b" using g b by (auto simp: heap_inv_def)
    then have "x \<noteq> p" using free by auto
    then show ?thesis using x by (intro exI[of _ x] exI[of _ d]) (simp add: w0_def w1_def)
  qed
  have fields: "finite (h_nconn_set w0)" "\<forall>x. x \<in> h_nconn_set w0 \<longleftrightarrow> conns w0 x \<noteq> None"
    "\<forall>x. fd_store w0 x \<noteq> None \<longleftrightarrow> conns w0 x \<noteq> None"
    using g by (simp_all add: heap_inv_def w0_def w1_def)
  have fds: "\<forall>x h. fd_store w0 x = Some h \<longrightarrow> fd_data h = x \<and> fd_read_cb h = Some evr_fd_readable_cb \<and>
      fd_write_cb h = Some evr_fd_writeable_cb"
  proof (intro allI impI)
    fix x h assume h: "fd_store w0 x = Some h"
    have "\<forall>x h. fd_store w x = Some h \<longrightarrow> fd_data h = x \<and> fd_read_cb h = Some evr_fd_readable_cb \<and>
      fd_write_cb h = Some evr_fd_writeable_cb" using g by (simp add: heap_inv_def)
    then show "fd_data h = x \<and> fd_read_cb h = Some evr_fd_readable_cb \<and> fd_write_cb h = Some evr_fd_writeable_cb"
      using h by (cases "x = p") (auto simp: w0_def w1_def f_def)
  qed
  have cs: "\<forall>x d. conns w0 x = Some d \<longrightarrow> conn_ok (conn_good (he_cls env) up) (ready sub_ok) w0 x d"
  proof (intro allI impI)
    fix x d assume "conns w0 x = Some d"
    then show "conn_ok (conn_good (he_cls env) up) (ready sub_ok) w0 x d"
      using new old[of x d] by (cases "x = p") (simp_all add: w0_def w1_def)
  qed
  have rest: "\<forall>a. next_addr w0 \<le> a \<longrightarrow> conns w0 a = None \<and> sessions w0 a = None" "event_pq w0 = []"
    "G (h_request w0) (g_paths w0)" "accounted w0" "sessions w0 = sessions w"
    using g by (auto simp: heap_inv_def w0_def w1_def accounted_def p_def)
  have "good w0"
    unfolding heap_inv_def using fields fds cs own rest by simp
  then show ?thesis
    using create free by (intro exI[of _ p] exI[of _ c1] exI[of _ w1] exI[of _ w0]) (simp add: w0_def c0_def w1_def)
qed

text \<open>The loop ends with enough connections, or with an error.\<close>

lemma conn_start_ends:
  "good w \<Longrightarrow> \<exists>st w'. conn_start cfg env w = Some (st, w') \<and> good w' \<and>
    h_num_conn_parallel_max w' = h_num_conn_parallel_max w \<and>
    card (h_nconn_set w') \<le> max (card (h_nconn_set w)) (h_num_conn_parallel_max w) \<and>
    (st = STATUS_OK \<longrightarrow> h_num_conn_parallel_max w \<le> card (h_nconn_set w')) \<and> (st = STATUS_OK \<or> st = STATUS_ERROR)"
proof (induction "h_num_conn_parallel_max w - card (h_nconn_set w)" arbitrary: w rule: less_induct)
  case less
  note g = less.prems
  show ?case
  proof (cases "card (h_nconn_set w) < h_num_conn_parallel_max w")
    case False
    then show ?thesis using g by (subst conn_start.simps) simp
  next
    case lt: True
    show ?thesis
    proof (cases "he_cls env (rq_scheme (h_request w))")
      case None
      then have "conn_start cfg env w = Some (STATUS_ERROR, w)"
        using lt by (subst conn_start.simps) (simp add: create_conn_def)
      then show ?thesis using g by (simp add: status_defs)
    next
      case (Some k)
      obtain p c1 w1 w0 where n: "create_conn cfg env w = Some (Some p, w1)" "conns w1 p = Some c1"
        "w0 = put_conn p (c1\<lparr>nc_label := rq_host (h_request w1), nc_data := None\<rparr>) w1\<lparr>h_nconn_set := insert p (h_nconn_set w1)\<rparr>"
        "good w0" "conns w0 p \<noteq> None" "p \<notin> h_nconn_set w" "h_nconn_set w0 = insert p (h_nconn_set w)"
        "h_num_conn_parallel_max w0 = h_num_conn_parallel_max w"
        using create_conn_ok[OF g Some] by blast
      obtain c0 where "conns w0 p = Some c0" using n(5) by blast
      then obtain st w2 where c: "hurl_call cfg env evr_fd_writeable_cb p w0 = Some (st, w2)" "good w2" "others p w0 w2"
        "conns w2 p \<noteq> None \<or> st = STATUS_DONE"
        using hurl_call_ends[OF n(4), of p c0 evr_fd_writeable_cb] unfolding ends_def by blast
      have fin: "finite (h_nconn_set w)" using g by (simp add: heap_inv_def)
      have le: "card (h_nconn_set w2) \<le> Suc (card (h_nconn_set w))"
        using c(3) n(6,7) fin card_mono[of "insert p (h_nconn_set w)" "h_nconn_set w2"] by (simp add: others_def)
      have mx: "h_num_conn_parallel_max w2 = h_num_conn_parallel_max w" using c(3) n(8) by (simp add: others_def)
      have e: "conn_start cfg env w = (if st \<noteq> STATUS_OK then Some (STATUS_ERROR, w2) else conn_start cfg env w2)"
        using lt n(1,2) c(1) n(3) by (subst conn_start.simps) simp
      show ?thesis
      proof (cases "st = STATUS_OK")
        case False
        then show ?thesis using e c(2) mx le lt by (simp add: status_defs)
      next
        case True
        have "insert p (h_nconn_set w) \<subseteq> h_nconn_set w2"
        proof
          fix x assume x: "x \<in> insert p (h_nconn_set w)"
          have "conns w2 x \<noteq> None"
          proof (cases "x = p")
            case True
            then show ?thesis using c(4) \<open>st = STATUS_OK\<close> by (simp add: status_defs)
          next
            case False
            then have "conns w0 x \<noteq> None" using x n(4,7) by (auto simp: heap_inv_def)
            then show ?thesis using c(3) False by (simp add: others_def)
          qed
          then show "x \<in> h_nconn_set w2" using c(2) by (simp add: heap_inv_def)
        qed
        then have "card (h_nconn_set w2) = Suc (card (h_nconn_set w))"
          using le n(6) fin card_mono[of "h_nconn_set w2" "insert p (h_nconn_set w)"] c(2) by (simp add: heap_inv_def)
        then show ?thesis using less.hyps[OF _ c(2)] lt e True mx by auto
      qed
    qed
  qed
qed

end

sublocale hurl_machine \<subseteq> rounds: fd_rounds "hurl_call cfg env"
  "thread_inv (conn_good (he_cls env) up) (ready sub_ok) G"
  by (rule fd_rounds.intro[OF hurl_fd_client])

section \<open>Rounds of the thread\<close>

text \<open>At most \<open>n\<close> rounds of the loop of \<^verbatim>\<open>t_run\<close>.\<close>

primrec t_rounds where
  "t_rounds 0 cfg env clk pick wait w = Some w"
| "t_rounds (Suc n) cfg env clk pick wait w =
     (if t_continue w
      then do { (_, w1) \<leftarrow> conn_start cfg env w;
                (_, w2) \<leftarrow> evr_run clk pick wait (hurl_call cfg env) w1;
                t_rounds n cfg env clk pick wait w2 }
      else Some w)"

lemma t_rounds_run:
  "t_rounds n cfg env clk pick wait w = Some w' \<Longrightarrow> \<not> t_continue w' \<Longrightarrow>
    t_run_loop cfg env clk pick wait w = Some (w'\<lparr>h_stopped := True\<rparr>)"
proof (induction n arbitrary: w)
  case 0
  then show ?case by (subst t_run_loop.simps) simp
next
  case (Suc n)
  show ?case
  proof (cases "t_continue w")
    case True
    then obtain r1 w1 r2 w2 where "conn_start cfg env w = Some (r1, w1)"
      "evr_run clk pick wait (hurl_call cfg env) w1 = Some (r2, w2)" "t_rounds n cfg env clk pick wait w2 = Some w'"
      using Suc.prems(1) by (auto simp: bind_eq_Some_conv)
    then show ?thesis using True Suc.IH[OF _ Suc.prems(2)] by (subst t_run_loop.simps) simp
  next
    case False
    then show ?thesis using Suc.prems by (subst t_run_loop.simps) simp
  qed
qed

text \<open>
  What a wait of the reactor may do in the state \<open>w\<close>: it changes only the operating system
  and reports objects that exist, each at most once.
\<close>

definition reports ::
  "(int \<Rightarrow> ('o, 'x, 's) hworld \<Rightarrow> int \<times> (nat \<times> nat option) list \<times> ('o, 'x, 's) hworld) \<Rightarrow> ('o, 'x, 's) hworld \<Rightarrow> bool" where
  "reports wait w \<longleftrightarrow> (\<forall>d n es w'. wait d w = (n, es, w') \<longrightarrow> w' = w\<lparr>w_os := w_os w'\<rparr> \<and>
     distinct (event_ptrs (take (nat n) es)) \<and> (\<forall>p \<in> set (event_ptrs (take (nat n) es)). fd_store w p \<noteq> None))"

context hurl_machine
begin

lemma thread_inv_os:
  assumes "tinv w" "w' = w\<lparr>w_os := os\<rparr>"
  shows "tinv w'"
proof -
  have g: "good w" using assms(1) by (simp add: thread_inv_def)
  have "good w'"
    by (rule heap_inv_cong[OF g]) (use g in \<open>simp_all add: assms(2) heap_inv_def accounted_def\<close>)
  then show ?thesis using assms by (simp add: thread_inv_def)
qed

lemma evr_run_ends:
  assumes "tinv w" "reports wait w"
  shows "\<exists>st w'. evr_run clk pick wait (hurl_call cfg env) w = Some (st, w') \<and> tinv w'"
proof -
  have deq: "dequeue_events clk pick (hurl_call cfg env) v = Some (EVR_DEFAULT_TIME_WAIT_MS, v)" if "tinv v" for v
    using that by (subst dequeue_events.simps) (simp add: thread_inv_def heap_inv_def)
  obtain n es w2 where w: "wait (s32 EVR_DEFAULT_TIME_WAIT_MS) w = (n, es, w2)" by (metis surj_pair)
  then have r: "w2 = w\<lparr>w_os := w_os w2\<rparr>" "distinct (event_ptrs (take (nat n) es))"
    "\<forall>p \<in> set (event_ptrs (take (nat n) es)). fd_store w p \<noteq> None"
    using assms(2) unfolding reports_def by blast+
  have i2: "tinv w2" using thread_inv_os[OF assms(1) r(1)] .
  have fd: "fd_store w2 = fd_store w" by (subst r(1)) simp
  have own: "fd_data_of w2 p = Some p" if "p \<in> set (event_ptrs (take (nat n) es))" for p
  proof -
    have "fd_store w2 p \<noteq> None" using that r(3) fd by simp
    then obtain f where f: "fd_store w2 p = Some f" by blast
    then have "fd_data f = p" using i2 by (simp add: thread_inv_def heap_inv_def)
    then show ?thesis using f by (simp add: fd_data_of_def)
  qed
  have "map (fd_data_of w2) (event_ptrs (take (nat n) es)) = map Some (event_ptrs (take (nat n) es))"
    using own by (intro map_cong) simp_all
  moreover have "distinct (map Some (event_ptrs (take (nat n) es)))" using r(2) by (simp add: distinct_map)
  ultimately have "distinct (map (fd_data_of w2) (event_ptrs (take (nat n) es)))" by (simp only:)
  then obtain w3 where "service_events (hurl_call cfg env) (take (nat n) es) w2 = Some w3" "tinv w3"
    using rounds.service_events_run[OF i2, of "take (nat n) es"] own by auto
  then show ?thesis
    using deq[OF assms(1)] deq[OF i2] w i2 by (simp add: evr_run_def)
qed

text \<open>The rounds end while an invariant \<open>K\<close> makes the reactor report live objects only.\<close>

lemma t_rounds_ends:
  assumes "\<And>w. tinv w \<Longrightarrow> K w \<Longrightarrow> reports wait w"
    and "\<And>w st w'. tinv w \<Longrightarrow> K w \<Longrightarrow> conn_start cfg env w = Some (st, w') \<Longrightarrow> K w'"
    and "\<And>w st w'. tinv w \<Longrightarrow> K w \<Longrightarrow> evr_run clk pick wait (hurl_call cfg env) w = Some (st, w') \<Longrightarrow> K w'"
  shows "tinv w \<Longrightarrow> K w \<Longrightarrow> \<exists>w'. t_rounds n cfg env clk pick wait w = Some w' \<and> tinv w' \<and> K w'"
proof (induction n arbitrary: w)
  case (Suc n)
  show ?case
  proof (cases "t_continue w")
    case True
    obtain st w1 where w1: "conn_start cfg env w = Some (st, w1)" "tinv w1"
      using conn_start_ends[of w] Suc.prems by (auto simp: thread_inv_def)
    have k1: "K w1" by (rule assms(2)[OF Suc.prems w1(1)])
    obtain st2 w2 where w2: "evr_run clk pick wait (hurl_call cfg env) w1 = Some (st2, w2)" "tinv w2"
      using evr_run_ends[OF w1(2) assms(1)[OF w1(2) k1]] by blast
    then show ?thesis using True w1(1) Suc.IH[OF w2(2) assms(3)[OF w1(2) k1 w2(1)]] by simp
  qed (use Suc.prems in simp)
qed simp

end

end
