(* ===== verification/Hurl_Http.thy ===== *)
theory Hurl_Http
  imports Hurl_Session Http_Show
begin

text \<open>
  The HTTP/1 session of \<^verbatim>\<open>src/hurl/hurl.cc\<close>: class \<^verbatim>\<open>http_session\<close> with \<^verbatim>\<open>sconnected\<close>,
  \<^verbatim>\<open>srequest\<close>, \<^verbatim>\<open>sread\<close>, \<^verbatim>\<open>swrite\<close> and \<^verbatim>\<open>sdone\<close>, as the virtual methods of the state
  machine.  The parser of the vendored \<^verbatim>\<open>http_parser\<close> is a parameter: its state, and a
  function from the state, the value its \<^verbatim>\<open>on_headers_complete\<close> callback will return and
  the bytes, to the events it reports, the number of bytes parsed and the next state.  The
  random number generators are parameters too.
\<close>

section \<open>State\<close>

record 'p http_sub =
  hs_resp :: "resp option"
  hs_parser :: 'p

record ('o, 'p) http_env =
  hx_parser_init :: 'p
  hx_parser_execute :: "'p \<Rightarrow> int \<Rightarrow> byte list \<Rightarrow> hp_event list \<times> nat \<times> 'p"
  hx_rand :: "'o \<Rightarrow> nat \<times> 'o"
  hx_rand64 :: "'o \<Rightarrow> nat option \<times> 'o"
  hx_random :: "'o \<Rightarrow> nat \<times> 'o"

type_synonym ('o, 'x, 'p) h1world = "('o, 'x, 'p http_sub) hworld"

definition http_sub_new :: "('o, 'p) http_env \<Rightarrow> alpn \<Rightarrow> 'p http_sub" where
  "http_sub_new hx v = \<lparr>hs_resp = None, hs_parser = hx_parser_init hx\<rparr>"

section \<open>Requests\<close>

text \<open>\<^verbatim>\<open>get_path\<close> draws a number only when paths are chosen at random, from its own generator or from \<^verbatim>\<open>random()\<close>.\<close>

definition draw_path :: "('o, 'p) http_env \<Rightarrow> ('o, 'x, 's) hworld \<Rightarrow> (string \<times> ('o, 'x, 's) hworld) option" where
  "draw_path hx w =
     (let draws = g_path_vector (g_paths w) \<noteq> [] \<and> g_path_order_random (g_paths w);
          (r64, w1) = (if draws then on_os (hx_rand64 hx) w else (None, w));
          (rnd, w2) = (if draws \<and> r64 = None then on_os (hx_random hx) w1 else (0, w1))
      in map_option (\<lambda>(path, g). (path, w2\<lparr>g_paths := g\<rparr>)) (get_path r64 rnd (g_paths w2)))"

definition draw_xfwd :: "hurl_cfg \<Rightarrow> ('o, 'p) http_env \<Rightarrow> ('o, 'x, 's) hworld \<Rightarrow> ('o, 'x, 's) hworld" where
  "draw_xfwd cfg hx w =
     (if g_random_xfwd cfg
      then (let (a, w1) = on_os (hx_rand hx) w; (b, w2) = on_os (hx_rand hx) w1;
                (c, w3) = on_os (hx_rand hx) w2; (d, w4) = on_os (hx_rand hx) w3
            in w4\<lparr>h_request := set_random_xfwd_header a b c d (h_request w4)\<rparr>)
      else w)"

definition RULE :: string where
  "RULE = ''+------------------------------------------------------------------------------+'' @ [CHR 0x0A]"

definition request_banner :: string where
  "request_banner = ANSI_COLOR_FG_WHITE @ RULE @
     ''|                                R E Q U E S T                                 |'' @ [CHR 0x0A] @ RULE @ ANSI_COLOR_OFF"

definition response_banner :: string where
  "response_banner = ANSI_COLOR_FG_CYAN @ RULE @
     ''|                              R E S P O N S E                                 |'' @ [CHR 0x0A] @ RULE @ ANSI_COLOR_OFF"

text \<open>The request in the output queue: the one sent before, or written anew.\<close>

definition h1_make_request ::
  "hurl_cfg \<Rightarrow> ('o, 'p) http_env \<Rightarrow> nbq \<Rightarrow> ('o, 'x, 'p) h1world \<Rightarrow> (int \<times> nbq \<times> ('o, 'x, 'p) h1world) option" where
  "h1_make_request cfg hx oq w =
     (if \<not> g_path_multi cfg \<and> read_avail (reset_read oq) \<noteq> 0 then Some (STATUS_OK, reset_read oq, w)
      else do {
        (path, w1) \<leftarrow> draw_path hx w;
        let w2 = draw_xfwd cfg hx w1;
        (st, oq1) \<leftarrow> write_request path (h_request w2) (reset_read oq);
        Some (st, oq1, w2) })"

definition h1_srequest ::
  "hurl_cfg \<Rightarrow> ('o, 'p) http_env \<Rightarrow> nat \<Rightarrow> ('o, 'x, 'p) h1world \<Rightarrow> (int \<times> ('o, 'x, 'p) h1world) option" where
  "h1_srequest cfg hx a w =
     do {
       s \<leftarrow> sessions w a;
       if \<not> ses_t_hurl s then Some (STATUS_ERROR, w)
       else do {
         oq \<leftarrow> ses_out_q s;
         (st, oq1, w1) \<leftarrow> h1_make_request cfg hx oq
            (upd_stat (\<lambda>t. t\<lparr>m_reqs := u64 (m_reqs t + 1)\<rparr>) (w\<lparr>h_num_in_progress := u32 (h_num_in_progress w + 1)\<rparr>));
         if st \<noteq> STATUS_OK then Some (STATUS_ERROR, put_ses a (s\<lparr>ses_out_q := Some oq1\<rparr>) w1)
         else do {
           (out, oq2) \<leftarrow> (if g_verbose cfg
              then do { (t, oq2) \<leftarrow> nbq_print oq1; Some (request_banner @ t @ [CHR 0x0A], oq2) } else Some ([], oq1));
           let m = resp_init (g_verbose cfg) (case hs_resp (ses_sub s) of None \<Rightarrow> resp_new | Some m \<Rightarrow> m);
           iq \<leftarrow> ses_in_q s;
           Some (STATUS_OK, put_ses a
             (s\<lparr>ses_out_q := Some oq2, ses_in_q := Some (reset_write iq),
                ses_sub := \<lparr>hs_resp = Some (m\<lparr>hm_expect_resp_body_flag := rq_expect_resp_body_flag (h_request w1)\<rparr>),
                            hs_parser = hx_parser_init hx\<rparr>\<rparr>)
             (w1\<lparr>w_out := w_out w1 @ out @ (if g_verbose cfg then response_banner else [])\<rparr>)) } } }"

section \<open>Responses\<close>

text \<open>What the callback installed for the end of the headers returns.\<close>

definition headers_ret :: "resp \<Rightarrow> int" where
  "headers_ret m = fst (resp_event (Ev_Headers_Complete 0 0) m)"

definition h1_show :: "hurl_cfg \<Rightarrow> nat \<Rightarrow> ('o, 'x, 'p) h1world \<Rightarrow> ('o, 'x, 'p) h1world option" where
  "h1_show cfg a w =
     do {
       s \<leftarrow> sessions w a;
       m \<leftarrow> hs_resp (ses_sub s);
       iq \<leftarrow> ses_in_q s;
       (t, iq1) \<leftarrow> resp_show (g_color cfg) m iq;
       Some (put_ses a (s\<lparr>ses_in_q := Some iq1\<rparr>) (w\<lparr>w_out := w_out w @ t\<rparr>)) }"

text \<open>The response is complete: it is shown, counted, and the session may have to go away.\<close>

definition h1_response_done ::
  "hurl_cfg \<Rightarrow> 'o sys_env \<Rightarrow> resp \<Rightarrow> nat \<Rightarrow> ('o, 'x, 'p) h1world \<Rightarrow> (int \<times> ('o, 'x, 'p) h1world) option" where
  "h1_response_done cfg sys m a w =
     do {
       w1 \<leftarrow> (if g_verbose cfg then h1_show cfg a w else Some w);
       w2 \<leftarrow> ses_log_status a (rs_status m) w1;
       (st, w3) \<leftarrow> request_complete cfg sys a w2;
       if st \<noteq> STATUS_OK then Some (STATUS_ERROR, w3)
       else do {
         s \<leftarrow> sessions w3 a;
         p \<leftarrow> ses_nconn s;
         c \<leftarrow> conns w3 p;
         Some (STATUS_OK,
           if \<not> can_reuse c \<or> \<not> rq_keepalive (h_request w3) \<or> \<not> hm_supports_keep_alives m
           then put_ses a (s\<lparr>ses_goaway := True\<rparr>) w3 else w3) } }"

definition h1_sread ::
  "hurl_cfg \<Rightarrow> 'o sys_env \<Rightarrow> ('o, 'p) http_env \<Rightarrow> nat \<Rightarrow> byte list \<Rightarrow> nat \<Rightarrow> ('o, 'x, 'p) h1world \<Rightarrow>
     (int \<times> ('o, 'x, 'p) h1world) option" where
  "h1_sread cfg sys hx a bytes off w =
     do {
       s \<leftarrow> sessions w a;
       m \<leftarrow> hs_resp (ses_sub s);
       (evs, n, ps) \<leftarrow> Some (hx_parser_execute hx (hs_parser (ses_sub s)) (headers_ret m) bytes);
       let m1 = resp_events evs (m\<lparr>hm_cur_off := off\<rparr>);
       let w1 = put_ses a (s\<lparr>ses_sub := \<lparr>hs_resp = Some m1, hs_parser = ps\<rparr>\<rparr>) w;
       if n < length bytes then Some (STATUS_ERROR, w1)
       else if hm_complete m1 then h1_response_done cfg sys m1 a w1
       else Some (STATUS_OK, w1) }"

definition h1_sconnected :: "nat \<Rightarrow> ('o, 'x, 'p) h1world \<Rightarrow> (int \<times> ('o, 'x, 'p) h1world) option" where
  "h1_sconnected a w = Some (STATUS_OK, w)"

definition h1_swrite :: "nat \<Rightarrow> ('o, 'x, 'p) h1world \<Rightarrow> (int \<times> ('o, 'x, 'p) h1world) option" where
  "h1_swrite a w = Some (STATUS_OK, w)"

definition h1_sdone :: "nat \<Rightarrow> ('o, 'x, 'p) h1world \<Rightarrow> (int \<times> ('o, 'x, 'p) h1world) option" where
  "h1_sdone a w = Some (STATUS_OK, w)"

definition h1_virt ::
  "hurl_cfg \<Rightarrow> 'o sys_env \<Rightarrow> ('o, 'p) http_env \<Rightarrow> ('p http_sub, ('o, 'x, 'p) h1world) ses_virt" where
  "h1_virt cfg sys hx = \<lparr>sv_new = http_sub_new hx, sv_sconnected = h1_sconnected, sv_srequest = h1_srequest cfg hx,
     sv_sread = h1_sread cfg sys hx, sv_swrite = h1_swrite\<rparr>"

text \<open>A thread that speaks HTTP/1 over the classes of connections \<open>cls\<close>.\<close>

definition h1_env ::
  "hurl_cfg \<Rightarrow> 'o sys_env \<Rightarrow> (scheme \<Rightarrow> ('x, ('o, 'x, 'p) h1world) nc_class option) \<Rightarrow> ('o, 'p) http_env \<Rightarrow>
     ('o, 'x, 'p http_sub) hurl_env" where
  "h1_env cfg sys cls hx = \<lparr>he_cls = cls, he_ses = h1_virt cfg sys hx\<rparr>"

text \<open>Plain connections: the class of \<^verbatim>\<open>nconn_tcp\<close>, which has nothing to show.\<close>

definition tcp_class :: "'o sys_env \<Rightarrow> (unit, ('o, unit, 's) hworld) nc_class" where
  "tcp_class sys = \<lparr>nk_new = (\<lambda>_. nconn_tcp_new), nk_virt = tcp_virt sys, nk_show_tls_info = (\<lambda>_ w. (STATUS_OK, w))\<rparr>"

definition tcp_classes :: "'o sys_env \<Rightarrow> scheme \<Rightarrow> (unit, ('o, unit, 's) hworld) nc_class option" where
  "tcp_classes sys sch = (if sch = SCHEME_TCP then Some (tcp_class sys) else None)"

end
