(* ===== verification/Hurl_Thread.thy ===== *)
theory Hurl_Thread
  imports Hurl_Machine Hurl_Http Evr_Select
begin

text \<open>
  A thread of the program with HTTP/1 sessions over TCP connections: the sessions of
  \<open>Hurl_Http\<close> and the connections of \<open>Nconn_Tcp\<close> keep the contracts of \<open>Hurl_Machine\<close>,
  whatever the parser reports and the kernel answers, when the requests fit.
\<close>

section \<open>The output queue\<close>

lemma nbq_inv_solid: "nbq_inv q \<Longrightarrow> solid q"
proof -
  assume q: "nbq_inv q"
  show "solid q"
  proof (cases "m_q q = []")
    case True
    then show ?thesis by (simp add: solid_def)
  next
    case False
    then obtain r w where w: "wr_ok q r w" using q by (auto simp: nbq_inv_def)
    have cur: "m_cur_write_block q = At w" using w by (simp add: wr_ok_def)
    have "\<forall>b \<in> set (drop (Suc w) (m_q q)). nb_written b = 0"
      using nbq_inv_rd[OF q] unfolding rd_inv_def cur by simp
    note z = bspec[OF this]
    show ?thesis
      unfolding solid_def
    proof (intro allI impI, elim conjE)
      fix i j assume ij: "i < j" "j < length (m_q q)" "nb_written (m_q q ! j) \<noteq> 0"
      have "j \<le> w"
      proof (rule ccontr)
        assume "\<not> j \<le> w"
        then obtain k where k: "j = Suc (w + k)" using less_imp_Suc_add[of w j] by auto
        then have "drop (Suc w) (m_q q) ! k = m_q q ! j" "k < length (drop (Suc w) (m_q q))" using ij(2) by simp_all
        then show False using z nth_mem ij(3) by metis
      qed
      then have "nb_written (m_q q ! i) = nb_len (m_q q ! i)" "0 < nb_len (m_q q ! i)"
        using w ij by (auto simp: wr_ok_def)
      then show "nb_written (m_q q ! i) \<noteq> 0" by simp
    qed
  qed
qed

lemma nbq_inv_out_ok: "nbq_inv q \<Longrightarrow> out_ok q"
  using nbq_inv_solid[of q] nbq_inv_wf[of q] nbq_inv_rd[of q]
  by (auto simp: out_ok_def no_gap_def nbq_inv_def wr_ok_def)

lemma out_ok_reset_read:
  assumes "out_ok q"
  shows "out_ok (reset_read q)" "unread (reset_read q) = all_written q"
proof -
  have wf: "wf_blocks q" and so: "solid q" using assms by (simp_all add: out_ok_def)
  note R = reset_read_spec[OF wf]
  show "unread (reset_read q) = all_written q" by (rule R(2))
  have w: "nb_written (map nb_read_reset (m_q q) ! i) = nb_written (m_q q ! i)" if "i < length (m_q q)" for i
    using that by simp
  have "solid (reset_read q)"
    unfolding solid_def R(4) length_map
  proof (intro allI impI, elim conjE)
    fix i j assume "i < j" "j < length (m_q q)" "nb_written (map nb_read_reset (m_q q) ! j) \<noteq> 0"
    then show "nb_written (map nb_read_reset (m_q q) ! i) \<noteq> 0" using so w[of i] w[of j] by (simp add: solid_def) blast
  qed
  moreover have "wf_blocks (reset_read q)" using rd_inv_wf[OF R(1)] R(3) wf_length[OF wf] by simp
  moreover have "no_gap (reset_read q)"
  proof (cases "m_q q = []")
    case True
    then show ?thesis by (simp add: no_gap_def R(8) it_begin_def)
  next
    case False
    have "nb_written (m_q q ! 0) \<noteq> 0" if "m_total_read_avail (reset_read q) \<noteq> 0"
    proof
      assume z: "nb_written (m_q q ! 0) = 0"
      have "nb_written (m_q q ! j) = 0" if "j < length (m_q q)" for j
        using so z that by (cases "j = 0") (auto simp: solid_def)
      then have "\<forall>b \<in> set (m_q q). nb_written b = 0" by (auto simp: in_set_conv_nth)
      then have "all_written q = []" by (simp add: all_written_def written_bytes_def)
      then show False using that rd_inv_length[OF R(1)] R(2) by simp
    qed
    then show ?thesis using False by (simp add: no_gap_def R(4,8) it_begin_def)
  qed
  ultimately show "out_ok (reset_read q)" using assms R(1,6) by (simp add: out_ok_def)
qed

lemma join_ref_out_ok:
  assumes q: "nbq_inv q" "packed q" "unread q \<noteq> []" and b: "nbq_inv b" "m_cur_write_offset q + length (all_written b) < 2 ^ 64"
  shows "out_ok (snd (join_ref b q)) \<and> unread (snd (join_ref b q)) = unread q @ all_written b"
proof -
  have ne: "m_q q \<noteq> []" using q(3) by (auto simp: unread_def)
  have rd: "rd_inv q" "\<forall>x \<in> set (m_q b). blk_ok x" "m_cur_write_offset q = sum_list (map nb_written (m_q q))"
    using q(1) b(1) by (simp_all add: nbq_inv_def rd_inv_def)
  obtain r w where w: "wr_ok q r w" using q(1) ne by (auto simp: nbq_inv_def)
  then have cur: "m_cur_read_block q = At r" "r < length (m_q q)" by (simp_all add: wr_ok_def)
  obtain q' where j: "join_ref b q = (STATUS_OK, q')" "rd_inv q'" "unread q' = unread q @ all_written b" "wf_blocks q'"
    using join_ref_spec[OF rd b(2)] cur(1) by auto
  have m: "m_q q' = m_q q @ map ref_of (m_q b)" "m_cur_read_block q' = At r" "m_bsize q' = m_bsize q"
    using j(1) ne cur(1) by (auto simp: join_ref_def Let_def ref_of_def)
  have wr: "nb_written (ref_of x) = nb_written x" for x by (simp add: ref_of_def nb_new_ref_def)
  have "solid q'"
    unfolding solid_def
  proof (intro allI impI, elim conjE)
    fix i k assume ik: "i < k" "k < length (m_q q')" "nb_written (m_q q' ! k) \<noteq> 0"
    show "nb_written (m_q q' ! i) \<noteq> 0"
    proof (cases "i < length (m_q q)")
      case True
      then show ?thesis using q(2) by (simp add: m(1) nth_append packed_def)
    next
      case False
      define n where "n = length (m_q q)"
      have "nb_written (m_q b ! (k - n)) \<noteq> 0" "k - n < length (m_q b)" "i - n < k - n"
        using ik False by (simp_all add: m(1) nth_append wr n_def)
      then have "nb_written (m_q b ! (i - n)) \<noteq> 0" using nbq_inv_solid[OF b(1)] by (auto simp: solid_def)
      then show ?thesis using ik False by (simp add: m(1) nth_append wr n_def)
    qed
  qed
  moreover have "no_gap q'"
  proof -
    have "m_total_read_avail q \<noteq> 0" using rd_inv_length[OF rd(1)] q(3) by (cases "unread q") auto
    then have "avail (m_q q ! r) \<noteq> 0" using w by (simp add: wr_ok_def)
    then show ?thesis using cur(2) by (simp add: no_gap_def m nth_append)
  qed
  ultimately show ?thesis using j q(1) m(3) by (simp add: out_ok_def nbq_inv_def)
qed

section \<open>Requests that can be sent\<close>

definition body_bytes :: "request \<Rightarrow> byte list" where
  "body_bytes r = (case rq_body_q r of None \<Rightarrow> [] | Some b \<Rightarrow> all_written b)"

definition fits :: "string \<Rightarrow> request \<Rightarrow> bool" where
  "fits path r \<longleftrightarrow> headers_ok (rq_headers r) \<and> (\<forall>b. rq_body_q r = Some b \<longrightarrow> nbq_inv b) \<and>
     length (request_text path r) + length (body_bytes r) < 2 ^ 64 \<and>
     length (c_str (rq_verb r) @ '' '' @ c_str (request_uri path r) @ '' HTTP/1.1'') < 2048"

lemma request_text_nonempty: "request_text path r \<noteq> []"
  by (simp add: request_text_def)

lemma write_request_reset: "write_request path r q = write_request path r (nbq_reset q)"
  by (simp add: write_request_def nbq_reset_def)

text \<open>Whatever was in the queue before, the request is written and its body joined.\<close>

lemma write_request_out_ok:
  assumes "fits path r" "0 < m_bsize q" "m_bsize q < 2 ^ 31"
  shows "\<exists>q'. write_request path r q = Some (STATUS_OK, q') \<and> out_ok q' \<and> unread q' = request_text path r @ body_bytes r"
proof -
  have i: "nbq_inv (nbq_reset q)" using assms(2,3) by (simp add: nbq_inv_def rd_inv_def nbq_reset_def)
  have l: "length (request_text path r) < 2 ^ 64" using assms(1) by (simp add: fits_def)
  obtain q1 where q1: "write_request path r q = Some (STATUS_OK, case rq_body_q r of None \<Rightarrow> q1 | Some b \<Rightarrow> snd (join_ref b q1))"
    "nbq_inv q1" "packed q1" "unread q1 = request_text path r" "all_written q1 = request_text path r"
    using write_request_spec[OF i _ l, of ] assms(1) write_request_reset[of path r q] by (auto simp: fits_def)
  show ?thesis
  proof (cases "rq_body_q r")
    case None
    then show ?thesis using q1 nbq_inv_out_ok[OF q1(2)] by (simp add: body_bytes_def)
  next
    case (Some b)
    have "m_cur_write_offset q1 + length (all_written b) < 2 ^ 64"
      using nbq_inv_length[OF q1(2)] q1(5) assms(1) Some by (simp add: fits_def body_bytes_def)
    moreover have "nbq_inv b" using assms(1) Some by (simp add: fits_def)
    moreover have "unread q1 \<noteq> []" using q1(4) request_text_nonempty by simp
    ultimately show ?thesis
      using join_ref_out_ok[OF q1(2,3)] q1(1,4) Some by (simp add: body_bytes_def)
  qed
qed


section \<open>What a thread sends\<close>

text \<open>The paths \<^verbatim>\<open>get_path\<close> may give, and the requests that the thread may make of its own.\<close>

definition drawable :: "path_globals \<Rightarrow> string set" where
  "drawable g = (if g_path_vector g = [] then {g_path g} else set (g_path_vector g))"

definition sendable :: "hurl_cfg \<Rightarrow> request \<Rightarrow> path_globals \<Rightarrow> bool" where
  "sendable cfg r g \<longleftrightarrow> (\<forall>path \<in> drawable g.
     if g_random_xfwd cfg then \<forall>a b c d. fits path (set_random_xfwd_header a b c d r) else fits path r)"

lemma kv_set_twice: "kv_set k v (kv_set k v' m) = kv_set k v m"
  by (induction m) (auto simp: case_i_irrefl)

lemma set_random_xfwd_header_eq:
  "set_random_xfwd_header a b c d r =
     r\<lparr>rq_headers := kv_set ''X-Forwarded-For'' [inet_ntop_v4 (rand_addr a b c d)] (rq_headers r)\<rparr>"
proof -
  have "inet_ntop_v4 n \<noteq> []" for n by (simp add: inet_ntop_v4_def)
  moreover have "replaces_header ''X-Forwarded-For''" by (simp add: replaces_header_def)
  ultimately show ?thesis by (simp add: set_random_xfwd_header_def set_header_cases)
qed

lemma xfwd_twice: "set_random_xfwd_header a b c d (set_random_xfwd_header a' b' c' d' r) = set_random_xfwd_header a b c d r"
  by (simp add: set_random_xfwd_header_eq kv_set_twice)

lemma sendable_xfwd: "sendable cfg r g \<Longrightarrow> g_random_xfwd cfg \<Longrightarrow> sendable cfg (set_random_xfwd_header a b c d r) g"
  by (simp add: sendable_def xfwd_twice)

lemma get_path_drawable:
  assumes "r64 = None \<Longrightarrow> g_path_vector g \<noteq> [] \<Longrightarrow> g_path_order_random g \<Longrightarrow> rnd < path_random_max"
  shows "\<exists>path g'. get_path r64 rnd g = Some (path, g') \<and> path \<in> drawable g \<and> drawable g' = drawable g"
proof (cases "g_path_vector g = []")
  case True
  then show ?thesis by (simp add: get_path_def drawable_def)
next
  case ne: False
  define n where "n = length (g_path_vector g)"
  have n: "0 < n" using ne by (simp add: n_def)
  show ?thesis
  proof (cases "g_path_order_random g")
    case False
    have "(if n \<le> g_path_vector_last_idx g then 0 else g_path_vector_last_idx g) < n" using n by simp
    then have "g_path_vector g ! (if n \<le> g_path_vector_last_idx g then 0 else g_path_vector_last_idx g) \<in> set (g_path_vector g)"
      unfolding n_def by (rule nth_mem)
    then show ?thesis using ne False by (auto simp: get_path_def drawable_def Let_def n_def)
  next
    case True
    define i where "i = (case r64 of Some x \<Rightarrow> u32 (x mod n) | None \<Rightarrow> u32 (rnd * n div path_random_max))"
    have u: "u32 x \<le> x" for x by (simp add: u32_def)
    have "i < n"
    proof (cases r64)
      case None
      then have "rnd < path_random_max" using assms ne True by simp
      then have "rnd * n < n * path_random_max" using n by simp
      then have "rnd * n div path_random_max < n" by (rule less_mult_imp_div_less)
      then show ?thesis using None u le_less_trans by (simp add: i_def) blast
    next
      case (Some x)
      have "x mod n < n" using n by simp
      then show ?thesis using Some u le_less_trans by (simp add: i_def) blast
    qed
    then show ?thesis
      using ne True nth_mem[of i "g_path_vector g"] by (simp add: get_path_def drawable_def Let_def n_def[symmetric] i_def[symmetric])
  qed
qed

section \<open>The HTTP/1 client\<close>

text \<open>
  What the thread needs from its surroundings: a kernel for its sockets, options it is not
  verbose with, and random numbers that select a path; the kernel forgets no received byte
  while the thread draws numbers or pauses.
\<close>

locale h1_sessions =
  fixes sys :: "'o sys_env" and rx :: "int \<Rightarrow> 'o \<Rightarrow> nat" and cfg :: hurl_cfg and hx :: "('o, 'p) http_env"
  assumes rx_bound: "rx fd os < 2 ^ 64"
    and quiet_cfg: "\<not> g_verbose cfg"
    and chunk_cfg: "0 < g_chunk_size_kb cfg" "g_chunk_size_kb cfg * 1024 < 2 ^ 31"
    and rand_rx: "rx fd (snd (hx_rand hx os)) = rx fd os"
    and rand64_rx: "rx fd (snd (hx_rand64 hx os)) = rx fd os"
    and random_rx: "rx fd (snd (hx_random hx os)) = rx fd os"
    and usleep_rx: "rx fd (sys_usleep sys n os) = rx fd os"
    and draws: "fst (hx_rand64 hx os) = None \<Longrightarrow> fst (hx_random hx (snd (hx_rand64 hx os))) < path_random_max"

text \<open>What making a request changes of the thread: the generators, the position in the paths, the header.\<close>

definition drawn :: "hurl_cfg \<Rightarrow> (int \<Rightarrow> 'o \<Rightarrow> nat) \<Rightarrow> ('o, 'x, 's) hworld \<Rightarrow> ('o, 'x, 's) hworld \<Rightarrow> bool" where
  "drawn cfg rx w w' \<longleftrightarrow> (\<exists>os r g. w' = w\<lparr>w_os := os, h_request := r, g_paths := g\<rparr> \<and> sendable cfg r g) \<and>
     (\<forall>fd. rx fd (w_os w') = rx fd (w_os w))"

text \<open>What is in the output queue then: what was sent before, or a request with one of the paths.\<close>

definition loads :: "hurl_cfg \<Rightarrow> path_globals \<Rightarrow> request \<Rightarrow> nbq \<Rightarrow> nbq \<Rightarrow> bool" where
  "loads cfg g r oq q' \<longleftrightarrow>
     (if \<not> g_path_multi cfg \<and> all_written oq \<noteq> [] then unread q' = all_written oq
      else \<exists>path \<in> drawable g. unread q' = request_text path r @ body_bytes r)"

context h1_sessions
begin

lemma draw_path_ok:
  assumes "sendable cfg (h_request w) (g_paths w)"
  shows "\<exists>path os g. draw_path hx w = Some (path, w\<lparr>w_os := os, g_paths := g\<rparr>) \<and> path \<in> drawable g \<and>
    drawable g = drawable (g_paths w) \<and> sendable cfg (h_request w) g \<and> (\<forall>fd. rx fd os = rx fd (w_os w))"
proof -
  define draws where "draws = (g_path_vector (g_paths w) \<noteq> [] \<and> g_path_order_random (g_paths w))"
  define r64 where "r64 = (if draws then fst (hx_rand64 hx (w_os w)) else None)"
  define os1 where "os1 = (if draws then snd (hx_rand64 hx (w_os w)) else w_os w)"
  define rnd where "rnd = (if draws \<and> r64 = None then fst (hx_random hx os1) else 0)"
  define os2 where "os2 = (if draws \<and> r64 = None then snd (hx_random hx os1) else os1)"
  have "r64 = None \<Longrightarrow> g_path_vector (g_paths w) \<noteq> [] \<Longrightarrow> g_path_order_random (g_paths w) \<Longrightarrow> rnd < path_random_max"
    using draws[of "w_os w"] by (simp add: r64_def rnd_def os1_def draws_def)
  then obtain path g where p: "get_path r64 rnd (g_paths w) = Some (path, g)" "path \<in> drawable (g_paths w)"
    "drawable g = drawable (g_paths w)" using get_path_drawable[of r64 "g_paths w" rnd] by blast
  have "draw_path hx w = Some (path, w\<lparr>w_os := os2, g_paths := g\<rparr>)"
  proof (cases draws)
    case False
    then show ?thesis using p(1)
      by (simp add: draw_path_def Let_def draws_def[symmetric] r64_def os1_def rnd_def os2_def)
  next
    case True
    then show ?thesis using p(1)
      by (cases r64) (simp_all add: draw_path_def Let_def draws_def[symmetric] on_os_def case_prod_beta r64_def os1_def rnd_def os2_def)
  qed
  moreover have "rx fd os2 = rx fd (w_os w)" for fd
    by (simp add: os2_def os1_def random_rx rand64_rx)
  moreover have "sendable cfg (h_request w) g" using assms p(3) by (simp add: sendable_def)
  ultimately show ?thesis using p(2,3) by (intro exI[of _ path] exI[of _ os2] exI[of _ g]) simp
qed

lemma draw_xfwd_ok:
  assumes "sendable cfg (h_request w) (g_paths w)" "path \<in> drawable (g_paths w)"
  shows "\<exists>os r. draw_xfwd cfg hx w = w\<lparr>w_os := os, h_request := r\<rparr> \<and> fits path r \<and>
    sendable cfg r (g_paths w) \<and> (\<forall>fd. rx fd os = rx fd (w_os w))"
proof (cases "g_random_xfwd cfg")
  case False
  then have "draw_xfwd cfg hx w = w\<lparr>w_os := w_os w, h_request := h_request w\<rparr>" "fits path (h_request w)"
    using assms by (simp_all add: draw_xfwd_def sendable_def)
  then show ?thesis using assms(1) by (intro exI[of _ "w_os w"] exI[of _ "h_request w"]) simp
next
  case True
  obtain a os1 where a: "hx_rand hx (w_os w) = (a, os1)" by fastforce
  obtain b os2 where b: "hx_rand hx os1 = (b, os2)" by fastforce
  obtain c os3 where c: "hx_rand hx os2 = (c, os3)" by fastforce
  obtain d os4 where d: "hx_rand hx os3 = (d, os4)" by fastforce
  have "rx fd os4 = rx fd (w_os w)" for fd
    using rand_rx[of fd "w_os w"] rand_rx[of fd os1] rand_rx[of fd os2] rand_rx[of fd os3] a b c d by simp
  moreover have "draw_xfwd cfg hx w = w\<lparr>w_os := os4, h_request := set_random_xfwd_header a b c d (h_request w)\<rparr>"
    using True a b c d by (simp add: draw_xfwd_def on_os_def Let_def)
  moreover have "fits path (set_random_xfwd_header a b c d (h_request w))" using assms True by (simp add: sendable_def)
  ultimately show ?thesis using sendable_xfwd[OF assms(1) True] by blast
qed

lemma h1_make_request_ok:
  assumes "sendable cfg (h_request w) (g_paths w)" "out_ok oq"
  shows "\<exists>oq' w'. h1_make_request cfg hx oq w = Some (STATUS_OK, oq', w') \<and> out_ok oq' \<and> drawn cfg rx w w' \<and>
    loads cfg (g_paths w) (h_request w') oq oq'"
proof -
  have avail: "read_avail (reset_read oq) \<noteq> 0 \<longleftrightarrow> all_written oq \<noteq> []"
    using rd_inv_length[of "reset_read oq"] out_ok_reset_read[OF assms(2)] 
    by (cases "all_written oq") (simp_all add: out_ok_def read_avail_def)
  show ?thesis
  proof (cases "\<not> g_path_multi cfg \<and> all_written oq \<noteq> []")
  case True
  have "drawn cfg rx w w" unfolding drawn_def using assms(1) by (intro conjI exI[of _ "w_os w"] exI[of _ "h_request w"] exI[of _ "g_paths w"]) auto
  then show ?thesis using True avail out_ok_reset_read[OF assms(2)] by (simp add: h1_make_request_def loads_def)
next
  case False
  obtain path os g where p: "draw_path hx w = Some (path, w\<lparr>w_os := os, g_paths := g\<rparr>)" "path \<in> drawable g"
    "sendable cfg (h_request w) g" "\<forall>fd. rx fd os = rx fd (w_os w)" "drawable g = drawable (g_paths w)"
    using draw_path_ok[OF assms(1)] by blast
  define v where "v = w\<lparr>w_os := os, g_paths := g\<rparr>"
  have "sendable cfg (h_request v) (g_paths v)" "path \<in> drawable (g_paths v)" using p(2,3) by (simp_all add: v_def)
  from draw_xfwd_ok[OF this] obtain os2 r where v: "draw_xfwd cfg hx v = v\<lparr>w_os := os2, h_request := r\<rparr>"
    "fits path r" "sendable cfg r (g_paths v)" "\<forall>fd. rx fd os2 = rx fd (w_os v)" by blast
  then have x: "draw_xfwd cfg hx (w\<lparr>w_os := os, g_paths := g\<rparr>) = w\<lparr>w_os := os2, h_request := r, g_paths := g\<rparr>"
    "fits path r" "sendable cfg r g" "\<forall>fd. rx fd os2 = rx fd os" by (simp_all add: v_def)
  have "0 < m_bsize (reset_read oq)" "m_bsize (reset_read oq) < 2 ^ 31"
    using out_ok_reset_read(1)[OF assms(2)] by (simp_all add: out_ok_def)
  then obtain q' where q': "write_request path r (reset_read oq) = Some (STATUS_OK, q')" "out_ok q'"
    "unread q' = request_text path r @ body_bytes r"
    using write_request_out_ok[OF x(2)] by blast
  have "h1_make_request cfg hx oq w = Some (STATUS_OK, q', w\<lparr>w_os := os2, h_request := r, g_paths := g\<rparr>)"
    using False avail p(1) x(1) q'(1) by (auto simp: h1_make_request_def)
  moreover have "drawn cfg rx w (w\<lparr>w_os := os2, h_request := r, g_paths := g\<rparr>)"
    unfolding drawn_def using x(3,4) p(4) by auto
  moreover have "loads cfg (g_paths w) r oq q'" using False q'(3) p(2,5) by (auto simp: loads_def)
  ultimately show ?thesis using q'(2) by (intro exI[of _ q'] exI[of _ "w\<lparr>w_os := os2, h_request := r, g_paths := g\<rparr>"]) simp
qed
qed

lemma u64_mod32: "(u64 x + y) mod 2 ^ 32 = (x + y) mod 2 ^ 32"
  unfolding u64_def by (rule mod_add_cong[OF mod_mod_cancel refl]) simp

end

text \<open>Such sessions over any classes of connections that keep their contract.\<close>

locale http1_client = h1_sessions sys rx cfg hx + conn_classes cls rx up
  for sys :: "'o sys_env" and rx :: "int \<Rightarrow> 'o \<Rightarrow> nat" and cfg :: hurl_cfg and hx :: "('o, 'p) http_env"
    and cls :: "scheme \<Rightarrow> ('x, ('o, 'x, 'p http_sub) hworld) nc_class option" and up :: "scheme \<Rightarrow> 'x \<Rightarrow> bool"

context http1_client
begin

text \<open>Between two requests of a session.\<close>

abbreviation sent_ok :: "'p http_sub \<Rightarrow> bool" where
  "sent_ok s \<equiv> hs_resp s \<noteq> None"

abbreviation h1_inv :: "(nat \<Rightarrow> 'p http_sub session \<Rightarrow> bool) \<Rightarrow> ('o, 'x, 'p http_sub) hworld \<Rightarrow> bool" where
  "h1_inv R \<equiv> heap_inv (conn_good cls up) R (sendable cfg)"

lemma h1_srequest_ok:
  assumes g: "h1_inv ((Hurl_Machine.ready sent_ok)(a := \<lambda>_. True)) w" and c: "conns w p = Some c" "nc_data c = Some a"
  shows "\<exists>w'. h1_srequest cfg hx a w = Some (STATUS_OK, w') \<and> h1_inv (Hurl_Machine.ready sent_ok) w' \<and> ses_frame rx p a w w' \<and>
    (\<exists>s oq s' q'. sessions w a = Some s \<and> ses_out_q s = Some oq \<and> sessions w' a = Some s' \<and> ses_out_q s' = Some q' \<and>
       loads cfg (g_paths w) (h_request w') oq q') \<and>
    h_num_in_progress w' = u32 (h_num_in_progress w + 1)"
proof -
  obtain s where s: "sessions w a = Some s" "ses_ok p s" using ses_owner(1)[OF g c] by auto
  obtain oq iq where q: "ses_out_q s = Some oq" "out_ok oq" "ses_in_q s = Some iq" "nbq_inv iq" "ses_t_hurl s"
    using s(2) by (auto simp: ses_ok_def)
  define w0 where "w0 = upd_stat (\<lambda>t. t\<lparr>m_reqs := u64 (m_reqs t + 1)\<rparr>) (w\<lparr>h_num_in_progress := u32 (h_num_in_progress w + 1)\<rparr>)"
  have send: "sendable cfg (h_request w0) (g_paths w0)" using g by (simp add: w0_def heap_inv_def)
  obtain oq1 w1 where m: "h1_make_request cfg hx oq w0 = Some (STATUS_OK, oq1, w1)" "out_ok oq1" "drawn cfg rx w0 w1"
    "loads cfg (g_paths w0) (h_request w1) oq oq1"
    using h1_make_request_ok[OF send q(2)] by blast
  obtain os r g' where w1: "w1 = w0\<lparr>w_os := os, h_request := r, g_paths := g'\<rparr>" "sendable cfg r g'"
    "\<forall>fd. rx fd os = rx fd (w_os w0)" using m(3) by (auto simp: drawn_def)
  define m0 where "m0 = resp_init False (case hs_resp (ses_sub s) of None \<Rightarrow> resp_new | Some m \<Rightarrow> m)"
  define s' where "s' = s\<lparr>ses_out_q := Some oq1, ses_in_q := Some (reset_write iq),
      ses_sub := \<lparr>hs_resp = Some (m0\<lparr>hm_expect_resp_body_flag := rq_expect_resp_body_flag r\<rparr>), hs_parser = hx_parser_init hx\<rparr>\<rparr>"
  have e: "h1_srequest cfg hx a w = Some (STATUS_OK, put_ses a s' w1)"
  proof -
    have "h_request w1 = r" "w1\<lparr>w_out := w_out w1\<rparr> = w1" by (simp_all add: w1(1))
    then show ?thesis
      unfolding h1_srequest_def w0_def[symmetric] using s(1) q m(1) quiet_cfg by (simp add: s'_def m0_def)
  qed
  have "accounted w0"
  proof -
    have "h_num_in_progress w < 2 ^ 32"
      "m_reqs (ts_stat (h_stat w)) mod 2 ^ 32 = (m_resp_count (ts_stat (h_stat w)) + h_num_in_progress w) mod 2 ^ 32"
      using g by (simp_all add: heap_inv_def accounted_def)
    then have "(m_reqs (ts_stat (h_stat w)) + 1) mod 2 ^ 32 = (m_resp_count (ts_stat (h_stat w)) + (h_num_in_progress w + 1)) mod 2 ^ 32"
      using mod_add_cong[OF _ refl, of _ _ _ 1] by (simp only: add.assoc[symmetric]) blast
    moreover have "x mod 2 ^ 64 mod 2 ^ 32 = x mod 2 ^ 32" for x :: nat by (rule mod_mod_cancel) simp
    ultimately show ?thesis by (simp add: accounted_def w0_def u64_def u32_def mod_add_right_eq)
  qed
  then have "h1_inv ((Hurl_Machine.ready sent_ok)(a := \<lambda>_. True)) w1"
    by (intro heap_inv_cong[OF g]) (use w1(2) g in \<open>simp_all add: w1(1) w0_def accounted_def heap_inv_def\<close>)
  moreover have c1: "conns w1 p = Some c" using c(1) by (simp add: w1(1) w0_def)
  moreover have "ses_ok p s'" using s(2) m(2) q reset_write_inv(1)[OF q(4)] by (simp add: ses_ok_def s'_def)
  moreover have "Hurl_Machine.ready sent_ok a s'"
    using nbq_inv_length[OF reset_write_inv(1)[OF q(4)]] reset_write_inv(3)[OF q(4)] by (simp add: Hurl_Machine.ready_def s'_def)
  ultimately have "h1_inv (Hurl_Machine.ready sent_ok) (put_ses a s' w1)"
    using c(2) by (intro heap_inv_ses[where R = "(Hurl_Machine.ready sent_ok)(a := \<lambda>_. True)"]) auto
  moreover have "ses_frame rx p a w (put_ses a s' w1)"
    using c(1) w1(3) by (auto simp: ses_frame_def others_def w1(1) w0_def conn_frame_def)
  moreover have "sessions (put_ses a s' w1) a = Some s'" "ses_out_q s' = Some oq1" "g_paths w0 = g_paths w"
    by (simp_all add: s'_def w0_def)
  moreover have "h_num_in_progress (put_ses a s' w1) = u32 (h_num_in_progress w + 1)" by (simp add: w1(1) w0_def)
  ultimately show ?thesis
    using e s(1) q(1) m(4) by (intro exI[of _ "put_ses a s' w1"]) simp
qed

text \<open>What reading leaves of the session: it is still one of \<open>p\<close>, with a response object.\<close>

abbreviation reading_of :: "nat \<Rightarrow> nat \<Rightarrow> 'p http_sub session \<Rightarrow> bool" where
  "reading_of a \<equiv> (Hurl_Machine.ready sent_ok)(a := \<lambda>s. sent_ok (ses_sub s))"

lemma put_reading:
  assumes "h1_inv (reading_of a) w" "conns w p = Some c" "nc_data c = Some a" "ses_ok p s" "sent_ok (ses_sub s)"
  shows "h1_inv (reading_of a) (put_ses a s w)"
  by (rule heap_inv_ses[where R = "reading_of a", OF assms(1-4)]) (use assms(5) in simp_all)

lemma request_complete_ok:
  assumes g: "h1_inv (reading_of a) w" and c: "conns w p = Some c" "nc_data c = Some a"
  shows "\<exists>w'. request_complete cfg sys a w = Some (STATUS_OK, w') \<and> h1_inv (reading_of a) w' \<and> ses_frame rx p a w w'"
proof -
  obtain s where s: "sessions w a = Some s" "ses_ok p s" "sent_ok (ses_sub s)" using ses_owner(1)[OF g c] by auto
  define s1 where "s1 = s\<lparr>ses_streams_closed := u32 (ses_streams_closed s + 1)\<rparr>"
  define w2 where "w2 = put_conn p (bump_num_requested c) (put_ses a s1 w)"
  define w3 where "w3 = (if h_num_in_progress w2 \<noteq> 0
      then upd_stat (\<lambda>t. t\<lparr>m_resp_count := u64 (m_resp_count t + 1)\<rparr>) (w2\<lparr>h_num_in_progress := h_num_in_progress w2 - 1\<rparr>)
      else w2)"
  define w4 where "w4 = (if g_rate_delta_us cfg \<noteq> 0 \<and> \<not> g_test_finished w3
      then w3\<lparr>w_os := sys_usleep sys (u32 (u64 (g_rate_delta_us cfg * g_num_threads cfg))) (w_os w3)\<rparr> else w3)"
  have s1: "ses_ok p s1" "reading_of a a s1" "ses_t_hurl s" "ses_nconn s = Some p" using s by (simp_all add: ses_ok_def s1_def)
  have "request_complete cfg sys a w = Some (STATUS_OK, w4)"
    unfolding request_complete_def using s(1) s1 c(1)
    by (simp add: s1_def w2_def w3_def w4_def Let_def)
  have g1: "h1_inv (reading_of a) (put_ses a s1 w)" by (rule put_reading[OF g c s1(1)]) (use s1(2) in simp)
  have cb: "conn_frame c (bump_num_requested c)" "nc_data (bump_num_requested c) = nc_data c" "m_fd (bump_num_requested c) = m_fd c"
    by (simp_all add: conn_frame_def bump_num_requested_def)
  have hb: "conn_good cls up (bump_num_requested c)"
    using heap_inv_conn_ok[OF g c(1)] by (simp add: conn_ok_def conn_good_def bump_num_requested_def)
  have g2: "h1_inv (reading_of a) w2"
    unfolding w2_def
    by (rule heap_inv_conn[OF g1 _ conn_ok_frame[OF heap_inv_conn_ok[OF g1] cb(1) hb] cb(2)]) (simp_all add: c(1))
  have "accounted w3"
  proof (cases "h_num_in_progress w2 = 0")
    case True
    then show ?thesis using g2 by (simp add: w3_def heap_inv_def)
  next
    case False
    then obtain k where k: "h_num_in_progress w2 = Suc k" using not0_implies_Suc by blast
    have "accounted w2" using g2 by (simp add: heap_inv_def)
    then show ?thesis using k u64_mod32[of "m_resp_count (ts_stat (h_stat w2)) + 1" k] by (simp add: w3_def accounted_def)
  qed
  then have a4: "accounted w4" by (simp add: w4_def accounted_def)
  have "h1_inv (reading_of a) w4"
    by (rule heap_inv_cong[OF g2]) (use a4 g2 in \<open>simp_all add: w4_def w3_def heap_inv_def\<close>)
  moreover have "ses_frame rx p a w w4"
    using c(1) cb by (auto simp: ses_frame_def others_def w4_def w3_def w2_def usleep_rx)
  ultimately show ?thesis using \<open>request_complete cfg sys a w = Some (STATUS_OK, w4)\<close> by blast
qed

lemma ses_frame_trans: "ses_frame rx p a w w1 \<Longrightarrow> ses_frame rx p a w1 w2 \<Longrightarrow> ses_frame rx p a w w2"
  unfolding ses_frame_def using others_trans conn_frame_trans by (metis (no_types, lifting))

lemma ses_frame_put: "ses_frame rx p a w w' \<Longrightarrow> ses_frame rx p a w (put_ses a s w')"
  by (simp add: ses_frame_def)

lemma h1_response_done_ok:
  assumes g: "h1_inv (reading_of a) w" and c: "conns w p = Some c" "nc_data c = Some a"
  shows "\<exists>w'. h1_response_done cfg sys m a w = Some (STATUS_OK, w') \<and> h1_inv (reading_of a) w' \<and> ses_frame rx p a w w'"
proof -
  obtain s where s: "sessions w a = Some s" "ses_ok p s" using ses_owner(1)[OF g c] by auto
  define w2 where "w2 = w\<lparr>h_stat := request_log_status (rs_status m) (h_stat w)\<rparr>"
  have l: "ses_log_status a (rs_status m) w = Some w2"
    using s by (simp add: ses_log_status_def ses_ok_def w2_def)
  have "accounted w2 = accounted w" by (simp add: accounted_def w2_def request_log_status_def log_class_def)
  then have g2: "h1_inv (reading_of a) w2"
    by (intro heap_inv_cong[OF g]) (use g in \<open>simp_all add: w2_def heap_inv_def\<close>)
  have c2: "conns w2 p = Some c" using c(1) by (simp add: w2_def)
  obtain w3 where w3: "request_complete cfg sys a w2 = Some (STATUS_OK, w3)" "h1_inv (reading_of a) w3" "ses_frame rx p a w2 w3"
    using request_complete_ok[OF g2 c2 c(2)] by blast
  obtain c3 where c3: "conns w3 p = Some c3" "conn_frame c c3" using w3(3) c2 by (auto simp: ses_frame_def)
  have d3: "nc_data c3 = Some a" using c3(2) c(2) by (simp add: conn_frame_def)
  obtain s3 where s3: "sessions w3 a = Some s3" "ses_ok p s3" "reading_of a a s3" using ses_owner(1)[OF w3(2) c3(1) d3] by blast
  define w4 where "w4 = (if \<not> can_reuse c3 \<or> \<not> rq_keepalive (h_request w3) \<or> \<not> hm_supports_keep_alives m
      then put_ses a (s3\<lparr>ses_goaway := True\<rparr>) w3 else w3)"
  have "h1_response_done cfg sys m a w = Some (STATUS_OK, w4)"
    using quiet_cfg l w3(1) s3 c3(1) by (simp add: h1_response_done_def w4_def ses_ok_def)
  moreover have "h1_inv (reading_of a) (put_ses a (s3\<lparr>ses_goaway := True\<rparr>) w3)"
    by (rule put_reading[OF w3(2) c3(1) d3]) (use s3 in \<open>simp_all add: ses_ok_def\<close>)
  then have "h1_inv (reading_of a) w4" using w3(2) by (simp add: w4_def)
  moreover have "ses_frame rx p a w w2" using c(1) by (auto simp: ses_frame_def others_def w2_def conn_frame_def)
  then have "ses_frame rx p a w w4"
    using ses_frame_put[OF ses_frame_trans[OF _ w3(3)]] ses_frame_trans[OF _ w3(3)] by (simp add: w4_def)
  ultimately show ?thesis by blast
qed

lemma h1_sread_ok:
  assumes g: "h1_inv (reading_of a) w" and c: "conns w p = Some c" "nc_data c = Some a"
  shows "\<exists>st w'. h1_sread cfg sys hx a bytes off w = Some (st, w') \<and> h1_inv (reading_of a) w' \<and> ses_frame rx p a w w'"
proof -
  obtain s m where s: "sessions w a = Some s" "ses_ok p s" "hs_resp (ses_sub s) = Some m" using ses_owner(1)[OF g c] by auto
  obtain evs n ps where x: "hx_parser_execute hx (hs_parser (ses_sub s)) (headers_ret m) bytes = (evs, n, ps)" by (metis prod_cases3)
  define m1 where "m1 = resp_events evs (m\<lparr>hm_cur_off := off\<rparr>)"
  define w1 where "w1 = put_ses a (s\<lparr>ses_sub := \<lparr>hs_resp = Some m1, hs_parser = ps\<rparr>\<rparr>) w"
  have e: "h1_sread cfg sys hx a bytes off w =
      (if n < length bytes then Some (STATUS_ERROR, w1)
       else if hm_complete m1 then h1_response_done cfg sys m1 a w1 else Some (STATUS_OK, w1))"
    using s x by (simp add: h1_sread_def Let_def m1_def[symmetric] w1_def[symmetric])
  have g1: "h1_inv (reading_of a) w1"
    unfolding w1_def by (rule put_reading[OF g c]) (use s(2) in \<open>simp_all add: ses_ok_def\<close>)
  have f1: "ses_frame rx p a w w1" using c(1) by (auto simp: ses_frame_def w1_def conn_frame_def)
  have c1: "conns w1 p = Some c" using c(1) by (simp add: w1_def)
  obtain w' where w': "h1_response_done cfg sys m1 a w1 = Some (STATUS_OK, w')" "h1_inv (reading_of a) w'" "ses_frame rx p a w1 w'"
    using h1_response_done_ok[OF g1 c1 c(2), of m1] by blast
  show ?thesis
    using e g1 f1 w' ses_frame_trans[OF f1 w'(3)] by (cases "n < length bytes"; cases "hm_complete m1") auto
qed

end

text \<open>The contracts hold: this thread is a machine with HTTP/1 sessions.\<close>

sublocale http1_client \<subseteq> machine: hurl_machine cfg "h1_env cfg sys cls hx" rx up "\<lambda>s. hs_resp s \<noteq> None" "sendable cfg"
proof (intro hurl_machine.intro hurl_machine_axioms.intro, goal_cases)
  case 1
  then show ?case using conn_classes_axioms by (simp add: h1_env_def)
next
  case 2
  then show ?case by (rule quiet_cfg)
next
  case 3
  then show ?case by (rule chunk_cfg(1))
next
  case 4
  then show ?case by (rule chunk_cfg(2))
next
  case (5 a w)
  then show ?case by (simp add: h1_env_def h1_virt_def h1_sconnected_def)
next
  case (6 a w)
  then show ?case by (simp add: h1_env_def h1_virt_def h1_swrite_def)
next
  case (7 a w p c)
  then have h: "h1_inv ((Hurl_Machine.ready (\<lambda>s. hs_resp s \<noteq> None))(a := \<lambda>_. True)) w" "conns w p = Some c" "nc_data c = Some a"
    by (simp_all add: h1_env_def)
  show ?case using h1_srequest_ok[OF h] by (simp add: h1_env_def h1_virt_def) blast
next
  case (8 a w p c bytes off)
  then show ?case using h1_sread_ok[of a w p c bytes off] by (simp add: h1_env_def h1_virt_def)
qed

context http1_client
begin

lemma hurl_call_ok:
  assumes "h1_inv (Hurl_Machine.ready (\<lambda>s. hs_resp s \<noteq> None)) w" "conns w p = Some c"
  shows "\<exists>st w'. hurl_call cfg (h1_env cfg sys cls hx) cb p w = Some (st, w') \<and>
    h1_inv (Hurl_Machine.ready (\<lambda>s. hs_resp s \<noteq> None)) w' \<and>
    (\<forall>q. q \<noteq> p \<longrightarrow> conns w' q = conns w q \<and> fd_store w' q = fd_store w q) \<and> (conns w' p \<noteq> None \<or> st = STATUS_DONE)"
proof -
  have e: "he_cls (h1_env cfg sys cls hx) = cls" by (simp add: h1_env_def)
  show ?thesis
    using machine.hurl_call_ends[unfolded e, OF assms, of cb] unfolding machine.ends_def e others_def by blast
qed

lemma finished_call:
  assumes "h1_inv (Hurl_Machine.ready (\<lambda>s. hs_resp s \<noteq> None)) w" "conns w p = Some c" "g_test_finished w"
    "nc_state c \<noteq> NC_STATE_FREE" "cb \<noteq> evr_fd_timeout_cb"
  shows "\<exists>w'. hurl_call cfg (h1_env cfg sys cls hx) cb p w = Some (STATUS_DONE, w') \<and>
    h1_inv (Hurl_Machine.ready (\<lambda>s. hs_resp s \<noteq> None)) w' \<and> gone p c w w'"
proof -
  have e: "he_cls (h1_env cfg sys cls hx) = cls" by (simp add: h1_env_def)
  show ?thesis using machine.finished_closes[unfolded e, OF assms] by blast
qed

lemma conn_start_ok:
  assumes "h1_inv (Hurl_Machine.ready (\<lambda>s. hs_resp s \<noteq> None)) w"
  shows "\<exists>st w'. conn_start cfg (h1_env cfg sys cls hx) w = Some (st, w') \<and>
    h1_inv (Hurl_Machine.ready (\<lambda>s. hs_resp s \<noteq> None)) w' \<and>
    card (h_nconn_set w') \<le> max (card (h_nconn_set w)) (h_num_conn_parallel_max w) \<and>
    (st = STATUS_OK \<longrightarrow> h_num_conn_parallel_max w \<le> card (h_nconn_set w')) \<and> (st = STATUS_OK \<or> st = STATUS_ERROR)"
proof -
  have e: "he_cls (h1_env cfg sys cls hx) = cls" by (simp add: h1_env_def)
  show ?thesis using machine.conn_start_ends[unfolded e, OF assms] by blast
qed

text \<open>A session that has answered sends its next request.\<close>

lemma h1_srequest_queues:
  assumes g: "h1_inv (Hurl_Machine.ready (\<lambda>s. hs_resp s \<noteq> None)) w" and c: "conns w p = Some c" "nc_data c = Some a"
  shows "\<exists>w' s oq s' q'. h1_srequest cfg hx a w = Some (STATUS_OK, w') \<and> h1_inv (Hurl_Machine.ready (\<lambda>s. hs_resp s \<noteq> None)) w' \<and>
    sessions w a = Some s \<and> ses_out_q s = Some oq \<and> sessions w' a = Some s' \<and> ses_out_q s' = Some q' \<and>
    loads cfg (g_paths w) (h_request w') oq q' \<and> h_num_in_progress w' = u32 (h_num_in_progress w + 1)"
proof -
  obtain s where s: "sessions w a = Some s" using ses_owner(1)[OF g c] by auto
  have "h1_inv ((Hurl_Machine.ready (\<lambda>s. hs_resp s \<noteq> None))(a := \<lambda>_. True)) w"
    by (rule heap_inv_expect[OF g c s]) simp_all
  from h1_srequest_ok[OF this c] show ?thesis by blast
qed

end

section \<open>Over TCP\<close>

locale h1_client = tcp_io sys rx + h1_sessions sys rx cfg hx
  for sys :: "'o sys_env" and rx :: "int \<Rightarrow> 'o \<Rightarrow> nat" and cfg :: hurl_cfg and hx :: "('o, 'p) http_env"

text \<open>The members of a plain connection's class are always up.\<close>

lemma tcp_conn_classes:
  fixes sys :: "'o sys_env"
  assumes "tcp_io sys rx" "\<And>fd os. rx fd os < 2 ^ 64"
  shows "conn_classes (tcp_classes sys :: scheme \<Rightarrow> (unit, ('o, unit, 's) hworld) nc_class option) rx (\<lambda>_ _. True)"
proof (intro conn_classes.intro, goal_cases)
  case (1 sch k r)
  then show ?case by (auto simp: tcp_classes_def tcp_class_def nconn_tcp_new_def nconn.defs nconn_new_def split: if_splits)
next
  case (2 sch k p)
  then show ?case
    by (auto intro!: framed_when_any[OF tcp_ncsetup_framed] simp: tcp_classes_def tcp_class_def tcp_virt_def split: if_splits)
next
  case (3 sch k p)
  then show ?case
    by (auto intro!: framed_when_any[OF tcp_ncconnect_framed] simp: tcp_classes_def tcp_class_def tcp_virt_def split: if_splits)
next
  case (4 sch k p)
  then show ?case using tcp_nccleanup_framed by (auto simp: tcp_classes_def tcp_class_def tcp_virt_def split: if_splits)
next
  case (5 sch k p fd c0 w0)
  then have "nk_virt k = tcp_virt sys" by (auto simp: tcp_classes_def tcp_class_def split: if_splits)
  then show ?case using tcp_io.io_up[OF assms(1), of p fd c0 w0] by simp
next
  case (6 fd os)
  then show ?case by (rule assms(2))
qed

lemma h1_http1:
  assumes "h1_client sys rx cfg hx"
  shows "http1_client sys rx cfg hx (tcp_classes sys) (\<lambda>_ _. True)"
proof (rule http1_client.intro)
  show "h1_sessions sys rx cfg hx" using assms by (simp add: h1_client_def)
  then show "conn_classes (tcp_classes sys) rx (\<lambda>_ _. True)"
    using assms by (intro tcp_conn_classes h1_sessions.rx_bound) (simp_all add: h1_client_def)
qed

sublocale h1_client \<subseteq> http1_client sys rx cfg hx "tcp_classes sys" "\<lambda>_ _. True"
  by (rule h1_http1[OF h1_client_axioms])

section \<open>A host\<close>

text \<open>
  A host for the examples: a number of bytes to be received by whoever asks, at most two at a
  time, a byte sent at a time, and the select reactor with its array of events.
\<close>

type_synonym host = "nat \<times> evr_select \<times> (nat \<times> nat option) list"

definition host_left :: "nat \<Rightarrow> nat" where
  "host_left n = (if n < 2 ^ 64 then n else 0)"

text \<open>It refuses a descriptor that its sets have no room for.\<close>

definition host_reactor :: "nat \<Rightarrow> evr_select \<Rightarrow> (nat \<times> nat option) list \<Rightarrow> (int \<times> evr_select) option \<Rightarrow> int \<times> host" where
  "host_reactor n r es res = (case res of None \<Rightarrow> (STATUS_ERROR, n, r, es) | Some (st, r') \<Rightarrow> (st, n, r', es))"

definition host_sys :: "host sys_env" where
  "host_sys = \<lparr>sys_socket = (\<lambda>_ _ _ s. (3, s)), sys_setsockopt = (\<lambda>_ _ _ s. (0, s)), sys_set_linger = (\<lambda>_ _ _ s. (0, s)),
     sys_getsockopt_error = (\<lambda>_ s. (0, s)), sys_fcntl_getfl = (\<lambda>_ s. (0, s)), sys_fcntl_setfl = (\<lambda>_ _ s. (0, s)),
     sys_ioctl_fionbio = (\<lambda>_ s. (0, s)), sys_connect = (\<lambda>_ _ _ s. (0, EOTHER 0, s)), sys_accept4 = (\<lambda>_ _ s. (-1, [], 0, s)),
     sys_recvfrom = (\<lambda>_ len (n, s). let k = min (min len 2) (host_left n) in
        if k = 0 then (-1, EAGAIN, [], host_left n, s) else (int k, EOTHER 0, replicate k CHR ''x'', host_left n - k, s)),
     sys_send = (\<lambda>_ buf s. if buf = [] then (0, EOTHER 0, s) else (1, EOTHER 0, s)),
     sys_shutdown = (\<lambda>_ s. (0, s)), sys_close = (\<lambda>_ s. (0, s)), sys_usleep = (\<lambda>_ s. s),
     reactor_add = (\<lambda>fd msk e (n, r, es). case e of None \<Rightarrow> (STATUS_ERROR, n, r, es)
        | Some p \<Rightarrow> if fd < 0 then (STATUS_ERROR, n, r, es) else host_reactor n r es (select_add (nat fd) msk p r)),
     reactor_mod = (\<lambda>fd msk e (n, r, es). case e of None \<Rightarrow> (STATUS_ERROR, n, r, es)
        | Some p \<Rightarrow> if fd < 0 then (STATUS_ERROR, n, r, es) else host_reactor n r es (select_mod (nat fd) msk p r)),
     reactor_del = (\<lambda>fd (n, r, es). if fd < 0 then (STATUS_ERROR, n, r, es) else host_reactor n r es (select_del (nat fd) r)),
     reactor_is_epoll = False\<rparr>"

definition host_cfg :: hurl_cfg where
  "host_cfg = \<lparr>g_verbose = False, g_color = False, g_rate_delta_us = 0, g_num_threads = 1, g_reqs_per_conn = 2,
     g_random_xfwd = False, g_path_multi = False, g_chunk_size_kb = 4\<rparr>"

text \<open>Its parser takes whatever has come for a whole response.\<close>

definition host_http :: "(host, unit) http_env" where
  "host_http = \<lparr>hx_parser_init = (), hx_parser_execute = (\<lambda>_ _ bs. ([Ev_Message_Begin, Ev_Message_Complete True], length bs, ())),
     hx_rand = (\<lambda>s. (7, s)), hx_rand64 = (\<lambda>s. (Some 5, s)), hx_random = (\<lambda>s. (0, s))\<rparr>"

interpretation host: h1_client host_sys "\<lambda>_ s. host_left (fst s)" host_cfg host_http
  by unfold_locales
    (auto simp: host_sys_def host_reactor_def host_left_def host_http_def host_cfg_def Let_def min_def Suc_le_eq split: prod.splits if_splits option.splits)

text \<open>A thread with the connection 5, connected and waiting for the response to its request.\<close>

definition host_session :: "unit http_sub session" where
  "host_session = \<lparr>ses_nconn = Some 5, ses_t_hurl = True, ses_timer_obj = None, ses_in_q = Some (nbq_new 4096),
     ses_out_q = Some (nbq_new 4096), ses_request = True, ses_idx = 0, ses_goaway = False, ses_streams_closed = 0,
     ses_h2_body_q = None, ses_sub = \<lparr>hs_resp = Some resp_new, hs_parser = ()\<rparr>\<rparr>"

definition host_conn :: nconn_tcp where
  "host_conn = nconn_tcp_new\<lparr>m_fd := 3, nc_ctx := Some 0, nc_data := Some 6, nc_state := NC_STATE_CONNECTED, nc_evr_loop := True\<rparr>"

definition host_world :: "(host, unit, unit http_sub) hworld" where
  "host_world = \<lparr>event_pq = [], ev_store = Map.empty, fd_store = [5 \<mapsto> evr_fd_zero\<lparr>fd_magic := EVR_EVENT_FD_MAGIC,
       fd_read_cb := Some evr_fd_readable_cb, fd_write_cb := Some evr_fd_writeable_cb,
       fd_error_cb := Some evr_fd_error_cb, fd_data := 5\<rparr>], next_addr = 7, tick = 0, evr_stopped = False,
     w_os = (3, \<lparr>conn_map = [(3, 5)], rfdset = {3}, wfdset = {}\<rparr>, replicate 8 (0, None)),
     conns = [5 \<mapsto> host_conn], sessions = [6 \<mapsto> host_session], h_stopped = False, h_nconn_set = {5},
     h_stat = \<lparr>ts_stat = t_stat_cntr_new\<lparr>m_reqs := 1\<rparr>, ts_codes = []\<rparr>, h_num_in_progress = 1,
     h_orphan_in_q = nbq_new 4096, h_orphan_out_q = nbq_new 4096, h_request = get_req, h_is_initd = True,
     h_num_conn_parallel_max = 2, h_num_to_request = 10, g_test_finished = False,
     g_paths = \<lparr>g_path = ''/x'', g_path_vector = [], g_path_vector_last_idx = 0, g_path_order_random = False\<rparr>, w_out = []\<rparr>"

text \<open>The heap of an HTTP/1 thread over TCP connections.\<close>

definition h1_heap :: "hurl_cfg \<Rightarrow> 'o sys_env \<Rightarrow> ('o, unit, 'p http_sub) hworld \<Rightarrow> bool" where
  "h1_heap cfg sys = heap_inv (conn_good (tcp_classes sys :: scheme \<Rightarrow> (unit, ('o, unit, 'p http_sub) hworld) nc_class option) (\<lambda>_ _. True))
     (Hurl_Machine.ready (\<lambda>s. hs_resp s \<noteq> None)) (sendable cfg)"

lemma host_world_heap: "h1_heap host_cfg host_sys host_world"
proof -
  have f: "fits ''/x'' get_req"
    using get_req_text(2,3) demo_q_inv
    by (simp add: fits_def body_bytes_def get_req_def request_new_def headers_ok_def demo_q_def all_written_def written_bytes_def)
  have c: "nc_ctx host_conn \<noteq> None" "nc_scheme host_conn = SCHEME_TCP" "nc_data host_conn = Some 6" "nc_state host_conn = NC_STATE_CONNECTED"
      "nc_alpn host_conn \<noteq> ALPN_HTTP_VER_V2"
    by (simp_all add: host_conn_def nconn_tcp_new_def nconn.defs nconn_new_def)
  have s: "ses_ok 5 host_session" "Hurl_Machine.ready (\<lambda>s. hs_resp s \<noteq> None) 6 host_session"
    by (simp_all add: ses_ok_def host_session_def Hurl_Machine.ready_def out_ok_new)
  have g: "sendable host_cfg get_req (g_paths host_world)"
    using f by (simp add: sendable_def drawable_def host_cfg_def host_world_def)
  show ?thesis
    using c s g unfolding h1_heap_def heap_inv_def
    by (auto simp: host_world_def conn_ok_def conn_good_def tcp_classes_def accounted_def t_stat_cntr_new_def split: if_splits)
qed

section \<open>Properties\<close>

text \<open>
  C1: Whatever the kernel answers and the parser reports, a callback on a live connection
  returns, without undefined behaviour, and leaves a heap on which the next one can run; it
  touches no other connection, and when it deletes its own it says so with STATUS_DONE.
\<close>

theorem callback_keeps_heap:
  assumes "h1_client sys rx cfg hx" "h1_heap cfg sys w" "conns w p \<noteq> None"
  shows "\<exists>st w'. hurl_call cfg (h1_env cfg sys (tcp_classes sys) hx) cb p w = Some (st, w') \<and> h1_heap cfg sys w' \<and>
    (\<forall>q. q \<noteq> p \<longrightarrow> conns w' q = conns w q \<and> fd_store w' q = fd_store w q) \<and> (conns w' p \<noteq> None \<or> st = STATUS_DONE)"
proof -
  obtain c where c: "conns w p = Some c" using assms(3) by blast
  have e: "he_cls (h1_env cfg sys (tcp_classes sys) hx) = tcp_classes sys" by (simp add: h1_env_def)
  show ?thesis
    using http1_client.hurl_call_ok[OF h1_http1[OF assms(1)] _ c, of cb] assms(2) unfolding h1_heap_def by simp
qed

theorem callback_keeps_heap_witness:
  "\<exists>st w'. hurl_call host_cfg (h1_env host_cfg host_sys (tcp_classes host_sys) host_http) evr_fd_readable_cb 5 host_world = Some (st, w') \<and>
    h1_heap host_cfg host_sys w' \<and> (conns w' 5 \<noteq> None \<or> st = STATUS_DONE)"
  using callback_keeps_heap[OF host.h1_client_axioms host_world_heap, of 5 evr_fd_readable_cb] by (auto simp: host_world_def)

text \<open>
  C11: Sending a request always succeeds, and the output queue then holds exactly the bytes to
  send: those of the request sent before when there is only one path, and otherwise the text
  and the body of a request for one of the paths; the request is counted as in progress.
\<close>

theorem request_is_queued:
  assumes "h1_client sys rx cfg hx" "h1_heap cfg sys w" "conns w p = Some c" "nc_data c = Some a"
  shows "\<exists>w' s oq s' q'. h1_srequest cfg hx a w = Some (STATUS_OK, w') \<and> h1_heap cfg sys w' \<and>
    sessions w a = Some s \<and> ses_out_q s = Some oq \<and> sessions w' a = Some s' \<and> ses_out_q s' = Some q' \<and>
    (if \<not> g_path_multi cfg \<and> all_written oq \<noteq> [] then unread q' = all_written oq
     else \<exists>path \<in> drawable (g_paths w). unread q' = request_text path (h_request w') @ body_bytes (h_request w')) \<and>
    h_num_in_progress w' = u32 (h_num_in_progress w + 1)"
  using http1_client.h1_srequest_queues[OF h1_http1[OF assms(1)] _ assms(3,4)] assms(2) unfolding h1_heap_def by (simp add: loads_def)

theorem request_is_queued_witness:
  "\<exists>w' s' q'. h1_srequest host_cfg host_http 6 host_world = Some (STATUS_OK, w') \<and> h1_heap host_cfg host_sys w' \<and>
    sessions w' 6 = Some s' \<and> ses_out_q s' = Some q' \<and>
    unread q' = request_text ''/x'' (h_request w') @ body_bytes (h_request w') \<and> h_num_in_progress w' = 2"
proof -
  have c: "conns host_world 5 = Some host_conn" "nc_data host_conn = Some 6" by (simp_all add: host_world_def host_conn_def)
  have s: "sessions host_world 6 = Some host_session" "ses_out_q host_session = Some (nbq_new 4096)"
    "all_written (nbq_new 4096) = []" "drawable (g_paths host_world) = {''/x''}" "h_num_in_progress host_world = 1"
    by (simp_all add: host_world_def host_session_def drawable_def all_written_def nbq_new_def)
  from request_is_queued[OF host.h1_client_axioms host_world_heap c] obtain w' so oq s' q' where
    q: "h1_srequest host_cfg host_http 6 host_world = Some (STATUS_OK, w')" "h1_heap host_cfg host_sys w'"
    "sessions host_world 6 = Some so" "ses_out_q so = Some oq" "sessions w' 6 = Some s'" "ses_out_q s' = Some q'"
    "if \<not> g_path_multi host_cfg \<and> all_written oq \<noteq> [] then unread q' = all_written oq
     else \<exists>path \<in> drawable (g_paths host_world). unread q' = request_text path (h_request w') @ body_bytes (h_request w')"
    "h_num_in_progress w' = u32 (h_num_in_progress host_world + 1)" by blast
  have "oq = nbq_new 4096" using q(3,4) s(1,2) by simp
  then show ?thesis using q(1,2,5-8) s(3-5) by (simp add: u32_def)
qed

text \<open>
  C12: A thread that starts connections ends, with as many connections as it may have or with an error,
  and never with more.
\<close>

theorem connections_up_to_limit:
  assumes "h1_client sys rx cfg hx" "h1_heap cfg sys w" "card (h_nconn_set w) \<le> h_num_conn_parallel_max w"
  shows "\<exists>st w'. conn_start cfg (h1_env cfg sys (tcp_classes sys) hx) w = Some (st, w') \<and> h1_heap cfg sys w' \<and>
    card (h_nconn_set w') \<le> h_num_conn_parallel_max w \<and>
    (st = STATUS_OK \<and> card (h_nconn_set w') = h_num_conn_parallel_max w \<or> st = STATUS_ERROR)"
  using http1_client.conn_start_ok[OF h1_http1[OF assms(1)], of w] assms(2,3) unfolding h1_heap_def by fastforce

theorem connections_up_to_limit_witness:
  "\<exists>st w'. conn_start host_cfg (h1_env host_cfg host_sys (tcp_classes host_sys) host_http) host_world = Some (st, w') \<and>
    card (h_nconn_set w') \<le> 2 \<and> (st = STATUS_OK \<and> card (h_nconn_set w') = 2 \<or> st = STATUS_ERROR)"
  using connections_up_to_limit[OF host.h1_client_axioms host_world_heap] by (auto simp: host_world_def)

end
