(* ===== verification/Hurl_Registry.thy ===== *)
theory Hurl_Registry
  imports Hurl_Thread
begin

text \<open>
  The reactor and the heap of a thread: a descriptor stays registered no longer than its
  connection lives.  Each operation on a TCP connection, each method of an HTTP/1 session and
  each step of the state machine keeps this, whatever it returns.
\<close>

unbundle bit_operations_syntax

section \<open>The kernel's registrations\<close>

text \<open>
  \<open>reg os fd\<close> is the pointer registered for a descriptor, \<open>kinv\<close> an invariant of the kernel
  and the reactor.  A registration comes from \<^verbatim>\<open>add\<close>, its pointer may be replaced by
  \<^verbatim>\<open>mod\<close>, and it goes with \<^verbatim>\<open>del\<close> in the reactors other than epoll, and with
  \<^verbatim>\<open>close(2)\<close> in epoll.  Standard input is open, so that no socket is the descriptor 0.
\<close>

locale registry =
  fixes sys :: "'o sys_env" and hx :: "('o, 'p) http_env" and kinv :: "'o \<Rightarrow> bool" and reg :: "'o \<Rightarrow> int \<Rightarrow> nat option"
  assumes add: "kinv os \<Longrightarrow> reactor_add sys fd msk (Some p) os = (st, os') \<Longrightarrow>
      kinv os' \<and> (reg os' = reg os \<or> reg os' = (reg os)(fd \<mapsto> p))"
    and modify: "kinv os \<Longrightarrow> reactor_mod sys fd msk (Some p) os = (st, os') \<Longrightarrow>
      kinv os' \<and> (reg os' = reg os \<or> reg os fd \<noteq> None \<and> reg os' = (reg os)(fd \<mapsto> p))"
    and del: "kinv os \<Longrightarrow> \<not> reactor_is_epoll sys \<Longrightarrow> reactor_del sys fd os = (st, os') \<Longrightarrow>
      kinv os' \<and> (reg os' = (reg os)(fd := None) \<or> fd \<le> 0 \<and> reg os' = reg os)"
    and close: "kinv os \<Longrightarrow> 0 < fd \<Longrightarrow> sys_close sys fd os = (st, os') \<Longrightarrow>
      kinv os' \<and> (reg os' = (reg os)(fd := None) \<or> \<not> reactor_is_epoll sys \<and> reg os' = reg os)"
    and sockets: "kinv os \<Longrightarrow> sys_socket sys d t pr os = (fd, os') \<Longrightarrow> fd \<noteq> 0 \<and> kinv os' \<and> reg os' = reg os"
    and opts: "kinv os \<Longrightarrow> kinv (snd (sys_setsockopt sys fd opt v os)) \<and> reg (snd (sys_setsockopt sys fd opt v os)) = reg os"
      "kinv os \<Longrightarrow> kinv (snd (sys_set_linger sys fd i j os)) \<and> reg (snd (sys_set_linger sys fd i j os)) = reg os"
      "kinv os \<Longrightarrow> kinv (snd (sys_getsockopt_error sys fd os)) \<and> reg (snd (sys_getsockopt_error sys fd os)) = reg os"
      "kinv os \<Longrightarrow> kinv (snd (sys_fcntl_getfl sys fd os)) \<and> reg (snd (sys_fcntl_getfl sys fd os)) = reg os"
      "kinv os \<Longrightarrow> kinv (snd (sys_fcntl_setfl sys fd i os)) \<and> reg (snd (sys_fcntl_setfl sys fd i os)) = reg os"
      "kinv os \<Longrightarrow> kinv (snd (sys_shutdown sys fd os)) \<and> reg (snd (sys_shutdown sys fd os)) = reg os"
      "kinv os \<Longrightarrow> kinv (sys_usleep sys n os) \<and> reg (sys_usleep sys n os) = reg os"
    and transfers: "kinv os \<Longrightarrow> sys_connect sys fd sa l os = (r, e, os') \<Longrightarrow> kinv os' \<and> reg os' = reg os"
      "kinv os \<Longrightarrow> sys_recvfrom sys fd len os = (r, e, bs, os') \<Longrightarrow> kinv os' \<and> reg os' = reg os"
      "kinv os \<Longrightarrow> sys_send sys fd buf os = (r, e, os') \<Longrightarrow> kinv os' \<and> reg os' = reg os"
    and draws: "kinv os \<Longrightarrow> kinv (snd (hx_rand hx os)) \<and> reg (snd (hx_rand hx os)) = reg os"
      "kinv os \<Longrightarrow> kinv (snd (hx_rand64 hx os)) \<and> reg (snd (hx_rand64 hx os)) = reg os"
      "kinv os \<Longrightarrow> kinv (snd (hx_random hx os)) \<and> reg (snd (hx_random hx os)) = reg os"
begin

definition same :: "'o \<Rightarrow> 'o \<Rightarrow> bool" where
  "same os os' \<longleftrightarrow> (kinv os \<longrightarrow> kinv os' \<and> reg os' = reg os)"

lemma same_refl [simp]: "same os os"
  by (simp add: same_def)

lemma same_trans: "same os os1 \<Longrightarrow> same os1 os2 \<Longrightarrow> same os os2"
  by (simp add: same_def)

lemma on_os_same: "(\<And>os. same os (snd (f os))) \<Longrightarrow> on_os f w = (r, w') \<Longrightarrow> same (w_os w) (w_os w')"
  by (auto simp: on_os_def split: prod.splits) (metis snd_conv)

text \<open>An operation on the connection at \<open>p\<close>, \<open>c'\<close> at its end, registers at most the descriptor of \<open>p\<close>.\<close>

definition regd :: "nat \<Rightarrow> 'o \<Rightarrow> 'a nconn_tcp_scheme \<Rightarrow> 'o \<Rightarrow> bool" where
  "regd p os c os' \<longleftrightarrow> (kinv os \<longrightarrow> kinv os' \<and> (reg os' = reg os \<or>
     nc_evr_loop c \<and> (0 < m_fd c \<or> reg os (m_fd c) \<noteq> None) \<and> reg os' = (reg os)(m_fd c \<mapsto> p)))"

lemma same_regd: "same os os' \<Longrightarrow> regd p os c os'"
  by (simp add: same_def regd_def)

lemma regd_same: "regd p os c os1 \<Longrightarrow> same os1 os2 \<Longrightarrow> regd p os c os2"
  by (auto simp: same_def regd_def)

lemma same_then_regd: "same os os1 \<Longrightarrow> regd p os1 c os2 \<Longrightarrow> regd p os c os2"
  by (auto simp: same_def regd_def)

section \<open>TCP connections\<close>

lemma evr_reg_mod:
  assumes "evr_reg (reactor_mod sys) (m_fd c) msk p (c, w) = Some (ok, c', w')"
  shows "c' = c \<and> regd p (w_os w) c (w_os w')"
  using assms modify[of "w_os w" "m_fd c" msk p]
  by (auto simp: evr_reg_def add_fd_def set_attr_mask_def bind_eq_Some_conv regd_def split: if_splits prod.splits)

lemma evr_reg_add:
  assumes "evr_reg (reactor_add sys) (m_fd c) msk p (c, w) = Some (ok, c', w')" "0 < m_fd c"
  shows "c' = c \<and> regd p (w_os w) c (w_os w')"
  using assms add[of "w_os w" "m_fd c" msk p]
  by (auto simp: evr_reg_def add_fd_def set_attr_mask_def bind_eq_Some_conv regd_def split: if_splits prod.splits)

lemma set_sock_opts_same: "set_sock_opts sys fd opts w = (ok, w') \<Longrightarrow> same (w_os w) (w_os w')"
proof (induction opts arbitrary: w)
  case (Cons x opts)
  obtain opt v where x: "x = (opt, v)" by fastforce
  obtain r w1 where w1: "on_os (sys_setsockopt sys fd opt v) w = (r, w1)" by fastforce
  have "same (w_os w) (w_os w1)" by (rule on_os_same[OF _ w1]) (simp add: same_def opts)
  then show ?case using Cons x w1 same_trans by (auto split: if_splits)
qed simp

lemma set_nonblock_same:
  assumes "set_nonblock sys fd w = (ok, w')"
  shows "same (w_os w) (w_os w')"
proof -
  obtain fl w1 where w1: "on_os (sys_fcntl_getfl sys fd) w = (fl, w1)" by fastforce
  have s1: "same (w_os w) (w_os w1)" by (rule on_os_same[OF _ w1]) (simp add: same_def opts)
  obtain r w2 where w2: "on_os (sys_fcntl_setfl sys fd (fl OR O_NONBLOCK)) w1 = (r, w2)" by fastforce
  have s2: "same (w_os w1) (w_os w2)" by (rule on_os_same[OF _ w2]) (simp add: same_def opts)
  show ?thesis using assms w1 w2 s1 same_trans[OF s1 s2] by (auto simp: set_nonblock_def split: if_splits)
qed

lemma tcp_ncsetup_regd:
  assumes "tcp_ncsetup sys p (c, w) = Some (st, c', w')" "kinv (w_os w)"
  shows "regd p (w_os w) c' (w_os w') \<and> nc_evr_loop c' = nc_evr_loop c \<and> nc_state c' = nc_state c"
proof -
  obtain fd w1 where w1: "on_os (sys_socket sys (hi_sock_family (nc_host_info c))
      (hi_sock_type (nc_host_info c) OR SOCK_CLOEXEC) (hi_sock_protocol (nc_host_info c))) w = (fd, w1)" by fastforce
  obtain os where os: "sys_socket sys (hi_sock_family (nc_host_info c))
      (hi_sock_type (nc_host_info c) OR SOCK_CLOEXEC) (hi_sock_protocol (nc_host_info c)) (w_os w) = (fd, os)" "w1 = w\<lparr>w_os := os\<rparr>"
    using w1 by (auto simp: on_os_def split: prod.splits)
  have s1: "same (w_os w) (w_os w1)" "fd \<noteq> 0" using sockets[OF assms(2) os(1)] os(2) by (simp_all add: same_def)
  define c1 where "c1 = c\<lparr>m_fd := fd\<rparr>"
  obtain ok2 w2 where w2: "set_sock_opts sys fd (setup_opts c) w1 = (ok2, w2)" by fastforce
  have s2: "same (w_os w) (w_os w2)" using same_trans[OF s1(1) set_sock_opts_same[OF w2]] .
  obtain ok3 w3 where w3: "set_nonblock sys fd w2 = (ok3, w3)" by fastforce
  have s3: "same (w_os w) (w_os w3)" using same_trans[OF s2 set_nonblock_same[OF w3]] .
  have r: "c4 = c1 \<and> regd p (w_os w) c1 (w_os w4)"
    if "evr_reg (reactor_add sys) fd msk p (c1, w3) = Some (ok4, c4, w4)" "\<not> fd < 0" for msk ok4 c4 w4
    using evr_reg_add[of c1 msk p w3 ok4 c4 w4] that s1(2) same_then_regd[OF s3] by (auto simp: c1_def)
  have e: "regd p os (conn_error st d) os' = regd p os d os'" for st d os os' by (simp add: regd_def conn_error_def)
  show ?thesis
    using assms(1) w1 w2 w3 same_regd[OF s1(1)] same_regd[OF s2] same_regd[OF s3]
    by (auto simp: tcp_ncsetup_def Let_def c1_def[symmetric] bind_eq_Some_conv e dest!: r split: if_splits)
      (auto simp: c1_def conn_error_def)
qed

lemma regd_error [simp]: "regd p os (conn_error st c) os' = regd p os c os'"
  by (simp add: regd_def conn_error_def)

lemma regd_state [simp]: "regd p os (c\<lparr>m_tcp_state := x\<rparr>) os' = regd p os c os'"
  by (simp add: regd_def)

text \<open>What stays of a connection when it connects, reads or writes.\<close>

definition stays :: "'a nconn_tcp_scheme \<Rightarrow> 'a nconn_tcp_scheme \<Rightarrow> bool" where
  "stays c c' \<longleftrightarrow> m_fd c' = m_fd c \<and> nc_evr_loop c' = nc_evr_loop c \<and> nc_state c' = nc_state c"

lemma stays_simps [simp]:
  "stays c c" "stays c (conn_error st c') = stays c c'" "stays (c\<lparr>m_tcp_state := x\<rparr>) c' = stays c c'"
  by (auto simp: stays_def conn_error_def)

lemma connect_reg_regd:
  assumes "connect_reg sys p (c, w) = Some (st, c', w')"
  shows "stays c c' \<and> regd p (w_os w) c (w_os w')"
  using assms evr_reg_mod[of c MASK_RW_ALL p w]
  by (auto simp: connect_reg_def bind_eq_Some_conv split: if_splits)

lemma connect_try_regd:
  "connect_try sys n p (c, w) = Some (st, c', w') \<Longrightarrow> stays c c' \<and> regd p (w_os w) c (w_os w')"
proof (induction n arbitrary: w)
  have step: "stays c c' \<and> regd p (w_os w) c (w_os w')"
    if t: "connect_try sys n p (c, w) = Some (st, c', w')"
      and again: "\<And>m w. n = Suc m \<Longrightarrow> connect_try sys m p (c, w) = Some (st, c', w') \<Longrightarrow> stays c c' \<and> regd p (w_os w) c (w_os w')"
    for n w
  proof -
    obtain r e os where k: "sys_connect sys (m_fd c) (hi_sa (nc_host_info c)) (hi_sa_len (nc_host_info c)) (w_os w) = (r, e, os)"
      by (metis prod_cases3)
    define w1 where "w1 = w\<lparr>w_os := os\<rparr>"
    have s1: "same (w_os w) (w_os w1)" using transfers(1)[OF _ k] by (simp add: same_def w1_def)
    have call: "on_os (\<lambda>os. case sys_connect sys (m_fd c) (hi_sa (nc_host_info c)) (hi_sa_len (nc_host_info c)) os of
        (r, e, os1) \<Rightarrow> ((r, e), os1)) w = ((r, e), w1)" using k by (simp add: on_os_def w1_def)
    have reg: "stays c c2 \<and> regd p (w_os w) c (w_os w2)" if "connect_reg sys p (c\<lparr>m_tcp_state := x\<rparr>, w1) = Some (st, c2, w2)" for x c2 w2
      using connect_reg_regd[OF that] by (simp add: same_then_regd[OF s1])
    have reg': "stays c c2 \<and> regd p (w_os w) c (w_os w2)" if "connect_reg sys p (c, w1) = Some (st, c2, w2)" for c2 w2
      using connect_reg_regd[OF that] by (simp add: same_then_regd[OF s1])
    have sl: "same (w_os w) (sys_usleep sys 1000 (w_os w1))" using s1 opts(7)[of "w_os w1" 1000] by (auto simp: same_def)
    obtain z w2 where g: "on_os (sys_getsockopt_error sys (m_fd c)) w1 = (z, w2)" by fastforce
    have s2: "same (w_os w1) (w_os w2)" by (rule on_os_same[OF _ g]) (simp add: same_def opts)
    show ?thesis
    proof (cases "\<not> r < 0 \<or> e = EISCONN")
      case True
      then show ?thesis using t call reg by (subst (asm) connect_try.simps) auto
    next
      case False
      then show ?thesis using t call reg' g same_regd[OF s1] same_regd[OF same_trans[OF s1 s2]] again same_then_regd[OF sl]
        by (subst (asm) connect_try.simps) (fastforce split: errno.splits nat.splits)
    qed
  qed
  { case 0 then show ?case using step[of 0] by simp }
  { case (Suc n) then show ?case using step[of "Suc n"] by simp }
qed

lemma tcp_ncconnect_regd:
  "tcp_ncconnect sys p (c, w) = Some (st, c', w') \<Longrightarrow> stays c c' \<and> regd p (w_os w) c (w_os w')"
  using connect_try_regd[of 1023 p "c\<lparr>m_tcp_state := TCP_STATE_CONNECTING\<rparr>" w] by (simp add: tcp_ncconnect_def)

lemma tcp_ncread_regd:
  "tcp_ncread sys p len (c, w) = Some (r, bs, c', w') \<Longrightarrow> stays c c' \<and> regd p (w_os w) c (w_os w')"
  using transfers(2)[of "w_os w" "m_fd c" len]
  by (auto simp: tcp_ncread_def on_os_def same_def intro!: same_regd split: prod.splits if_splits)

lemma tcp_ncwrite_regd:
  assumes "tcp_ncwrite sys p buf (c, w) = Some (r', c', w')"
  shows "stays c c' \<and> regd p (w_os w) c (w_os w')"
proof -
  obtain r e os where k: "sys_send sys (m_fd c) buf (w_os w) = (r, e, os)" by (metis prod_cases3)
  define w1 where "w1 = w\<lparr>w_os := os\<rparr>"
  have s1: "same (w_os w) (w_os w1)" using transfers(3)[OF _ k] by (simp add: same_def w1_def)
  have reg: "c2 = c \<and> regd p (w_os w) c (w_os w2)"
    if "evr_reg (reactor_mod sys) (m_fd c) MASK_WRITE_ALL p (c, w1) = Some (ok, c2, w2)" for ok c2 w2
    using evr_reg_mod[OF that] by (simp add: same_then_regd[OF s1])
  show ?thesis
    using assms k same_regd[OF s1]
    by (auto simp: tcp_ncwrite_def on_os_def w1_def[symmetric] bind_eq_Some_conv dest!: reg split: if_splits)
qed

lemma tcp_nccleanup_reg:
  assumes "tcp_nccleanup sys p (c, w) = Some (st, c', w')" "kinv (w_os w)"
  shows "kinv (w_os w') \<and> (\<forall>fd. reg (w_os w') fd = reg (w_os w) fd \<or> reg (w_os w') fd = None) \<and>
    (nc_evr_loop c \<and> 0 < m_fd c \<longrightarrow> reg (w_os w') (m_fd c) = None)"
proof -
  define w1 where "w1 = (if nc_evr_loop c \<and> \<not> reactor_is_epoll sys then snd (on_os (reactor_del sys (m_fd c)) w) else w)"
  have k1: "kinv (w_os w1) \<and> (reg (w_os w1) = (reg (w_os w))(m_fd c := None) \<or>
      (\<not> (nc_evr_loop c \<and> \<not> reactor_is_epoll sys) \<or> m_fd c \<le> 0) \<and> reg (w_os w1) = reg (w_os w))"
  proof (cases "nc_evr_loop c \<and> \<not> reactor_is_epoll sys")
    case True
    obtain r os where d: "reactor_del sys (m_fd c) (w_os w) = (r, os)" by fastforce
    then show ?thesis using True del[OF assms(2) _ d] by (simp add: w1_def on_os_def)
  next
    case False
    then have "w1 = w" by (auto simp: w1_def)
    then show ?thesis using False assms(2) by simp
  qed
  have quiet: "same (w_os v) (w_os (snd (on_os (sys_set_linger sys (m_fd c) 1 0) (snd (on_os (sys_shutdown sys (m_fd c)) v)))))" for v
  proof -
    obtain r v1 where v1: "on_os (sys_shutdown sys (m_fd c)) v = (r, v1)" by fastforce
    obtain r2 v2 where v2: "on_os (sys_set_linger sys (m_fd c) 1 0) v1 = (r2, v2)" by fastforce
    have "same (w_os v) (w_os v1)" by (rule on_os_same[OF _ v1]) (simp add: same_def opts)
    moreover have "same (w_os v1) (w_os v2)" by (rule on_os_same[OF _ v2]) (simp add: same_def opts)
    ultimately show ?thesis using v1 v2 same_trans by simp
  qed
  define w2 where "w2 = (if m_sock_opt_no_linger c
      then snd (on_os (sys_set_linger sys (m_fd c) 1 0) (snd (on_os (sys_shutdown sys (m_fd c)) w1))) else w1)"
  have k2: "kinv (w_os w2)" "reg (w_os w2) = reg (w_os w1)" using k1 quiet[of w1] by (simp_all add: w2_def same_def)
  have os: "w_os w' = w_os (tcp_teardown sys c w)" using assms(1) by (auto simp: tcp_nccleanup_def Let_def)
  show ?thesis
  proof (cases "0 < m_fd c")
    case True
    obtain r os3 where d: "sys_close sys (m_fd c) (w_os w2) = (r, os3)" by fastforce
    have "w_os w' = os3" using os True d by (simp add: tcp_teardown_def Let_def w1_def[symmetric] w2_def[symmetric] on_os_def)
    then show ?thesis using close[OF k2(1) True d] k1 k2(2) True by (auto split: if_splits)
  next
    case False
    then have "w_os w' = w_os w1" using os by (simp add: tcp_teardown_def Let_def w1_def[symmetric])
    then show ?thesis using k1 False by (auto split: if_splits)
  qed
qed

end

section \<open>Registrations are those of live connections\<close>

text \<open>
  What is registered is the descriptor of a connection that exists and has an event loop, and,
  until the test ends, one that has been set up.
\<close>

definition registered_live :: "('o \<Rightarrow> bool) \<Rightarrow> ('o \<Rightarrow> int \<Rightarrow> nat option) \<Rightarrow> ('o, 'x, 's) hworld \<Rightarrow> bool" where
  "registered_live kinv reg w \<longleftrightarrow> kinv (w_os w) \<and>
     (\<forall>fd p. reg (w_os w) fd = Some p \<longrightarrow> (\<exists>c. conns w p = Some c \<and> m_fd c = fd \<and> 0 < fd \<and> nc_evr_loop c)) \<and>
     (\<not> g_test_finished w \<longrightarrow> (\<forall>p c fd. conns w p = Some c \<and> nc_state c = NC_STATE_FREE \<longrightarrow> reg (w_os w) fd \<noteq> Some p))"

text \<open>What of a connection matters here.\<close>

definition conn_view :: "('o, 'x, 's) hworld \<Rightarrow> nat \<Rightarrow> (int \<times> bool \<times> nc_conn_state) option" where
  "conn_view w p = map_option (\<lambda>c. (m_fd c, nc_evr_loop c, nc_state c)) (conns w p)"

lemma conn_view_fields [simp]:
  "conn_view (put_ses a s w) = conn_view w" "conn_view (upd_stat f w) = conn_view w"
  "conns w p = Some c \<Longrightarrow> m_fd c' = m_fd c \<Longrightarrow> nc_evr_loop c' = nc_evr_loop c \<Longrightarrow> nc_state c' = nc_state c \<Longrightarrow>
    conn_view (put_conn p c' w) = conn_view w"
  by (auto simp: conn_view_def fun_eq_iff)

lemma registered_live_view:
  "registered_live kinv reg w \<longleftrightarrow> kinv (w_os w) \<and>
     (\<forall>fd p. reg (w_os w) fd = Some p \<longrightarrow> 0 < fd \<and> (\<exists>st. conn_view w p = Some (fd, True, st))) \<and>
     (\<not> g_test_finished w \<longrightarrow> (\<forall>p x e fd. conn_view w p = Some (x, e, NC_STATE_FREE) \<longrightarrow> reg (w_os w) fd \<noteq> Some p))"
  unfolding registered_live_def conn_view_def by (intro conj_cong refl imp_cong) fastforce+

context registry
begin

definition regs :: "('o, 'x, 's) hworld \<Rightarrow> bool" where
  "regs w \<longleftrightarrow> registered_live kinv reg w \<and> (\<forall>p. conns w p \<noteq> None \<longrightarrow> fd_store w p \<noteq> None)"

definition calm :: "('o, 'x, 's) hworld \<Rightarrow> ('o, 'x, 's) hworld \<Rightarrow> bool" where
  "calm w w' \<longleftrightarrow> conn_view w' = conn_view w \<and> g_test_finished w' = g_test_finished w \<and> fd_store w' = fd_store w \<and>
     same (w_os w) (w_os w')"

lemma conn_view_None: "conn_view w p = None \<longleftrightarrow> conns w p = None"
  by (simp add: conn_view_def)

lemma calm_regs: "regs w \<Longrightarrow> calm w w' \<Longrightarrow> regs w'"
  unfolding regs_def registered_live_view calm_def same_def conn_view_None[symmetric] by simp

lemma calm_refl [simp]: "calm w w"
  by (simp add: calm_def)

lemma calm_trans: "calm w w1 \<Longrightarrow> calm w1 w2 \<Longrightarrow> calm w w2"
  unfolding calm_def by (auto intro: same_trans)

lemma calm_state: "calm w w' \<Longrightarrow> conns w p = Some c \<Longrightarrow>
    \<exists>c'. conns w' p = Some c' \<and> m_fd c' = m_fd c \<and> nc_evr_loop c' = nc_evr_loop c \<and> nc_state c' = nc_state c"
  by (drule arg_cong[where f = "\<lambda>v. v p", OF conjunct1[OF iffD1[OF calm_def]]]) (auto simp: conn_view_def)

lemma calm_put [simp]:
  "calm w (put_ses a s w') = calm w w'" "calm w (upd_stat f w') = calm w w'" "calm w (w'\<lparr>w_out := x\<rparr>) = calm w w'"
  "calm w (w'\<lparr>h_stat := t\<rparr>) = calm w w'" "calm w (w'\<lparr>h_num_in_progress := n\<rparr>) = calm w w'"
  "calm w (w'\<lparr>h_request := r\<rparr>) = calm w w'" "calm w (w'\<lparr>g_paths := g\<rparr>) = calm w w'"
  "calm w (w'\<lparr>h_orphan_in_q := q\<rparr>) = calm w w'" "calm w (w'\<lparr>h_orphan_out_q := q\<rparr>) = calm w w'"
  "calm w (w'\<lparr>next_addr := n\<rparr>) = calm w w'"
  by (simp_all add: calm_def conn_view_def fun_eq_iff upd_stat_def put_ses_def)

lemma calm_put_conn: "conns w' p = Some c \<Longrightarrow> m_fd c' = m_fd c \<Longrightarrow> nc_evr_loop c' = nc_evr_loop c \<Longrightarrow> nc_state c' = nc_state c \<Longrightarrow>
    calm w w' \<Longrightarrow> calm w (put_conn p c' w')"
  by (simp add: calm_def)

lemma calm_os: "calm v w \<Longrightarrow> same (w_os w) os \<Longrightarrow> calm v (w\<lparr>w_os := os\<rparr>)"
  unfolding calm_def by (auto simp: conn_view_def fun_eq_iff intro: same_trans)

lemma calm_on_os: "(\<And>os. same os (snd (f os))) \<Longrightarrow> on_os f w = (r, w') \<Longrightarrow> calm w w'"
  using on_os_same[of f w r w'] by (auto simp: calm_def on_os_def conn_view_def fun_eq_iff split: prod.splits)

text \<open>An operation of a connection that stays, in any state but the first.\<close>

lemma regs_regd:
  assumes "regs w" "conns w p = Some c" "nc_state c \<noteq> NC_STATE_FREE" "stays c c'" "regd p (w_os w) c (w_os w')"
    "conns w' = conns w" "g_test_finished w' = g_test_finished w"
    "fd_store w' p \<noteq> None" "\<And>q. q \<noteq> p \<Longrightarrow> fd_store w' q = fd_store w q"
  shows "regs (put_conn p c' w')"
proof -
  have "registered_live kinv reg (put_conn p c' w')"
  proof -
  have v: "conn_view (put_conn p c' w') = conn_view w"
    using assms(2,4,6) by (auto simp: conn_view_def stays_def fun_eq_iff)
  have vp: "conn_view w p = Some (m_fd c, nc_evr_loop c, nc_state c)" using assms(2) by (simp add: conn_view_def)
  have R: "kinv (w_os w)" "\<And>fd p. reg (w_os w) fd = Some p \<Longrightarrow> 0 < fd \<and> (\<exists>st. conn_view w p = Some (fd, True, st))"
    "\<And>p x e fd. \<not> g_test_finished w \<Longrightarrow> conn_view w p = Some (x, e, NC_STATE_FREE) \<Longrightarrow> reg (w_os w) fd \<noteq> Some p"
    using assms(1) unfolding regs_def registered_live_view by blast+
  show ?thesis
  proof (cases "reg (w_os w') = reg (w_os w)")
    case True
    then show ?thesis using assms(5,7) R unfolding registered_live_view v by (simp add: regd_def)
  next
    case False
    then have r: "kinv (w_os w')" "nc_evr_loop c" "0 < m_fd c \<or> reg (w_os w) (m_fd c) \<noteq> None"
      "reg (w_os w') = (reg (w_os w))(m_fd c \<mapsto> p)" using assms(5) R(1) by (auto simp: regd_def)
    have "0 < m_fd c" using r(3) R(2) by blast
    then show ?thesis
      using r R vp assms(3,7) unfolding registered_live_view v by (auto split: if_splits)
  qed
  qed
  moreover have "fd_store w' q \<noteq> None" if "conns w q \<noteq> None" for q
    using that assms(1,8,9) by (cases "q = p") (auto simp: regs_def)
  ultimately show ?thesis using assms(2,6) by (auto simp: regs_def)
qed

section \<open>Sessions\<close>

lemma rand_same: "same os (snd (hx_rand hx os))" "same os (snd (hx_rand64 hx os))" "same os (snd (hx_random hx os))"
    "same os (sys_usleep sys n os)"
  by (simp_all add: same_def draws opts)

lemma draw_path_calm: "draw_path hx w = Some (path, w') \<Longrightarrow> calm w w'"
proof -
  assume d: "draw_path hx w = Some (path, w')"
  define draws where "draws = (g_path_vector (g_paths w) \<noteq> [] \<and> g_path_order_random (g_paths w))"
  obtain r64 w1 where w1: "(if draws then on_os (hx_rand64 hx) w else (None, w)) = (r64, w1)" by fastforce
  obtain rnd w2 where w2: "(if draws \<and> r64 = None then on_os (hx_random hx) w1 else (0, w1)) = (rnd, w2)" by fastforce
  have "calm w w1" using w1 calm_on_os[of "hx_rand64 hx" w r64 w1] rand_same by (auto split: if_splits)
  moreover have "calm w1 w2" using w2 calm_on_os[of "hx_random hx" w1 rnd w2] rand_same by (auto split: if_splits)
  ultimately have "calm w w2" by (rule calm_trans)
  then show ?thesis using d w1 w2 by (auto simp: draw_path_def Let_def draws_def[symmetric])
qed

lemma draw_xfwd_calm: "calm w (draw_xfwd cfg hx w)"
proof (cases "g_random_xfwd cfg")
  case True
  obtain a w1 where a: "on_os (hx_rand hx) w = (a, w1)" by fastforce
  obtain b w2 where b: "on_os (hx_rand hx) w1 = (b, w2)" by fastforce
  obtain c w3 where c: "on_os (hx_rand hx) w2 = (c, w3)" by fastforce
  obtain d w4 where d: "on_os (hx_rand hx) w3 = (d, w4)" by fastforce
  note k = calm_on_os[OF rand_same(1)]
  show ?thesis using True a b c d calm_trans[OF calm_trans[OF k[OF a] k[OF b]] calm_trans[OF k[OF c] k[OF d]]]
    by (simp add: draw_xfwd_def)
qed (simp add: draw_xfwd_def)

lemma h1_make_request_calm: "h1_make_request cfg hx oq w = Some (st, q, w') \<Longrightarrow> calm w w'"
  using calm_trans[OF draw_path_calm draw_xfwd_calm]
  by (auto simp: h1_make_request_def bind_eq_Some_conv Let_def split: if_splits)

lemma h1_srequest_calm:
  assumes "h1_srequest cfg hx a w = Some (st, w')"
  shows "calm w w'"
proof -
  have m: "calm w w1" if "h1_make_request cfg hx oq (upd_stat f (w\<lparr>h_num_in_progress := n\<rparr>)) = Some (st, q, w1)" for f n oq st q w1
    using calm_trans[OF _ h1_make_request_calm[OF that]] by simp
  show ?thesis
    using assms by (auto simp: h1_srequest_def bind_eq_Some_conv Let_def dest!: m split: if_splits)
qed

lemma request_complete_calm:
  assumes "request_complete cfg sys a w = Some (st, w')"
  shows "calm w w'"
proof -
  obtain s where s: "sessions w a = Some s" using assms by (auto simp: request_complete_def bind_eq_Some_conv)
  have sl: "calm v w2 \<Longrightarrow> os = w_os w2 \<Longrightarrow> calm v (w2\<lparr>w_os := sys_usleep sys n os\<rparr>)" for v w2 n os
    by (erule calm_os) (simp add: rand_same(4))
  have b: "calm w (put_conn p (bump_num_requested c) (put_ses a s1 w))" if "conns w p = Some c" for p c s1
    by (rule calm_put_conn) (simp_all add: that bump_num_requested_def)
  show ?thesis
    using assms s by (auto simp: request_complete_def Let_def bind_eq_Some_conv intro!: sl b split: if_splits option.splits)
qed

lemma ses_log_status_calm: "ses_log_status a n w = Some w' \<Longrightarrow> calm w w'"
  by (auto simp: ses_log_status_def bind_eq_Some_conv)

lemma h1_show_calm: "h1_show cfg a w = Some w' \<Longrightarrow> calm w w'"
  by (auto simp: h1_show_def bind_eq_Some_conv)

lemma h1_response_done_calm:
  assumes "h1_response_done cfg sys m a w = Some (st, w')"
  shows "calm w w'"
proof -
  obtain w1 w2 st3 w3 where w: "(if g_verbose cfg then h1_show cfg a w else Some w) = Some w1"
    "ses_log_status a (rs_status m) w1 = Some w2" "request_complete cfg sys a w2 = Some (st3, w3)"
    using assms by (auto simp: h1_response_done_def bind_eq_Some_conv)
  have "calm w w1" using w(1) h1_show_calm by (auto split: if_splits)
  then have "calm w w3" using calm_trans ses_log_status_calm[OF w(2)] request_complete_calm[OF w(3)] by blast
  then show ?thesis using assms w by (auto simp: h1_response_done_def bind_eq_Some_conv split: if_splits)
qed

lemma h1_sread_calm:
  assumes "h1_sread cfg sys hx a bytes off w = Some (st, w')"
  shows "calm w w'"
proof -
  obtain s m evs n ps where s: "sessions w a = Some s" "hs_resp (ses_sub s) = Some m"
    "hx_parser_execute hx (hs_parser (ses_sub s)) (headers_ret m) bytes = (evs, n, ps)"
    using assms by (auto simp: h1_sread_def bind_eq_Some_conv) (metis prod_cases3)
  have d: "calm w w1" if "h1_response_done cfg sys m1 a (put_ses a s1 w) = Some (st, w1)" for m1 s1 w1
    by (rule calm_trans[OF _ h1_response_done_calm[OF that]]) simp
  show ?thesis
    using assms s by (auto simp: h1_sread_def Let_def dest: d split: if_splits)
qed

section \<open>The machine\<close>

abbreviation env :: "hurl_cfg \<Rightarrow> ('o, unit, 'p http_sub) hurl_env" where
  "env cfg \<equiv> h1_env cfg sys (tcp_classes sys) hx"

lemma env_simps:
  "he_cls (env cfg) sch = (if sch = SCHEME_TCP then Some (tcp_class sys) else None)"
  "sv_srequest (he_ses (env cfg)) = h1_srequest cfg hx" "sv_sread (he_ses (env cfg)) = h1_sread cfg sys hx"
  "sv_swrite (he_ses (env cfg)) = h1_swrite" "sv_sconnected (he_ses (env cfg)) = h1_sconnected"
  by (simp_all add: h1_env_def tcp_classes_def h1_virt_def)

lemma tcp_class_virt: "nk_virt (tcp_class sys) = tcp_virt sys" "nk_show_tls_info (tcp_class sys) c w = (STATUS_OK, w)"
  by (simp_all add: tcp_class_def)

lemma regs_set_state: "regs w \<Longrightarrow> set_state st p w = Some w' \<Longrightarrow> st \<noteq> NC_STATE_FREE \<Longrightarrow> regs w'"
  unfolding regs_def registered_live_def set_state_def by (fastforce simp: put_conn_def split: if_splits)

lemma put_q_calm: "put_in_q a q w = Some w' \<Longrightarrow> calm w w'" "put_out_q a q w = Some w' \<Longrightarrow> calm w w'"
  by (auto simp: put_in_q_def put_out_q_def split: option.splits)

lemma regs_fd: "regs w \<Longrightarrow> conns w p = Some c \<Longrightarrow> \<exists>f. fd_store w p = Some f"
  unfolding regs_def by (metis option.distinct(1) not_None_eq)

lemma regs_framed:
  assumes "regs w" "conns w p = Some c" "nc_state c \<noteq> NC_STATE_FREE" "framed p op" "op (c, w) = Some (r, c', w')"
    "stays c c' \<and> regd p (w_os w) c (w_os w')"
  shows "regs (put_conn p c' w')" "g_test_finished w' = g_test_finished w" "nc_state c' = nc_state c"
proof -
  obtain f where f: "fd_store w p = Some f" using regs_fd[OF assms(1,2)] by blast
  have fr: "os_frame p w w'" using framedD[OF assms(4) f, of c] assms(5) by auto
  obtain os f' where w': "w' = w\<lparr>w_os := os, fd_store := (fd_store w)(p \<mapsto> f')\<rparr>"
    using fr unfolding os_frame_def by blast
  show "regs (put_conn p c' w')"
    by (rule regs_regd[OF assms(1-3)]) (use assms(6) w' in simp_all)
  show "g_test_finished w' = g_test_finished w" using w' by simp
  show "nc_state c' = nc_state c" using assms(6) by (simp add: stays_def)
qed

text \<open>Setting up: the connection was not registered before.\<close>

lemma regs_setup:
  assumes "regs w" "conns w p = Some c" "nc_state c = NC_STATE_FREE" "\<not> g_test_finished w"
    "tcp_ncsetup sys p (c, w) = Some (r, c', w')"
  shows "regs ((put_conn p c' w')\<lparr>g_test_finished := True\<rparr>)" "set_state NC_STATE_CONNECTING p (put_conn p c' w') = Some w2 \<Longrightarrow> regs w2"
proof -
  obtain f where f: "fd_store w p = Some f" using regs_fd[OF assms(1,2)] by blast
  have fr: "os_frame p w w'" using framedD[OF tcp_ncsetup_framed f, of sys c] assms(5) by auto
  obtain os f' where w': "w' = w\<lparr>w_os := os, fd_store := (fd_store w)(p \<mapsto> f')\<rparr>"
    using fr unfolding os_frame_def by blast
  have R: "kinv (w_os w)" "\<And>fd p. reg (w_os w) fd = Some p \<Longrightarrow> \<exists>c. conns w p = Some c \<and> m_fd c = fd \<and> 0 < fd \<and> nc_evr_loop c"
    "\<And>p c fd. conns w p = Some c \<Longrightarrow> nc_state c = NC_STATE_FREE \<Longrightarrow> reg (w_os w) fd \<noteq> Some p"
    "\<And>p. conns w p \<noteq> None \<Longrightarrow> fd_store w p \<noteq> None"
    using assms(1,4) unfolding regs_def registered_live_def by blast+
  have s: "regd p (w_os w) c' os" "nc_evr_loop c' = nc_evr_loop c" "nc_state c' = nc_state c"
    using tcp_ncsetup_regd[OF assms(5) R(1)] w' by simp_all
  have un: "reg (w_os w) fd \<noteq> Some p" for fd by (rule R(3)[OF assms(2,3)])
  have k: "kinv os" and o: "reg os = reg (w_os w) \<or> nc_evr_loop c' \<and> 0 < m_fd c' \<and> reg os = (reg (w_os w))(m_fd c' \<mapsto> p)"
    using s(1) R(1,2) unfolding regd_def by blast+
  have pos: "\<exists>d. ((conns w)(p \<mapsto> c')) q = Some d \<and> m_fd d = fd \<and> 0 < fd \<and> nc_evr_loop d" if "reg os fd = Some q" for fd q
    using that o un R(2)[of fd q] by (cases "q = p") (auto split: if_splits)
  have un': "reg os fd \<noteq> Some q" if "q \<noteq> p" "conns w q = Some d" "nc_state d = NC_STATE_FREE" for q d fd
    using that R(3)[OF that(2,3)] o by (auto split: if_splits)
  have fd: "((fd_store w)(p \<mapsto> f')) q \<noteq> None" if "((conns w)(p \<mapsto> c')) q \<noteq> None" for q
    using that R(4)[of q] by (auto split: if_splits)
  show "regs ((put_conn p c' w')\<lparr>g_test_finished := True\<rparr>)"
    using k pos fd by (simp add: regs_def registered_live_def w')
  assume st: "set_state NC_STATE_CONNECTING p (put_conn p c' w') = Some w2"
  have w2: "w2 = put_conn p (c'\<lparr>nc_state := NC_STATE_CONNECTING\<rparr>) (put_conn p c' w')" using st by (simp add: set_state_def)
  have pos': "\<exists>d. ((conns w)(p \<mapsto> c'\<lparr>nc_state := NC_STATE_CONNECTING\<rparr>)) q = Some d \<and> m_fd d = fd \<and> 0 < fd \<and> nc_evr_loop d"
    if "reg os fd = Some q" for fd q
    using pos[OF that] by (cases "q = p") auto
  show "regs w2"
    using k pos' un' R(4) unfolding regs_def registered_live_def w2 w' by (auto split: if_splits)
qed

text \<open>Deleting a connection: its registration has gone with its descriptor.\<close>

lemma regs_delete:
  assumes "regs w" "session_cleanup (env cfg) ses (Some p) w = Some (st, w')" "conns w p = Some c"
  shows "regs w'"
proof -
  obtain w1 where w1: "regs w1" "conns w1 = conns w"
    "(do { (_, w2) \<leftarrow> on_conn (env cfg) nc_cleanup p (w1\<lparr>h_nconn_set := h_nconn_set w1 - {p}\<rparr>);
           Some (STATUS_OK, w2\<lparr>conns := (conns w2)(p := None), fd_store := (fd_store w2)(p := None)\<rparr>) }) = Some (st, w')"
  proof -
    have r: "regs (w\<lparr>sessions := x\<rparr>)" for x using assms(1) by (simp add: regs_def registered_live_def)
    show ?thesis
    proof (cases ses)
      case None
      then show ?thesis using assms(1,2) that[of w] by (simp add: session_cleanup_def)
    next
      case (Some a)
      then obtain s where "sessions w a = Some s" using assms(2) by (auto simp: session_cleanup_def bind_eq_Some_conv)
      then show ?thesis
        using Some assms(1,2) r that[of "if ses_t_hurl s then w\<lparr>sessions := (sessions w)(a := None)\<rparr> else w"]
        by (auto simp: session_cleanup_def)
    qed
  qed
  define w0 where "w0 = w1\<lparr>h_nconn_set := h_nconn_set w1 - {p}\<rparr>"
  have r0: "regs w0" "conns w0 p = Some c" using w1(1,2) assms(3) by (simp_all add: regs_def registered_live_def w0_def)
  obtain rr c2 w2 where w2: "nc_cleanup (tcp_virt sys) p (c, w0) = Some (rr, c2, w2)"
    "w' = (put_conn p c2 w2)\<lparr>conns := (conns (put_conn p c2 w2))(p := None), fd_store := (fd_store (put_conn p c2 w2))(p := None)\<rparr>"
    using w1(3) r0(2) by (auto simp: w0_def[symmetric] on_conn_def bind_eq_Some_conv env_simps tcp_class_virt split: if_splits)
  obtain r3 c3 where c3: "tcp_nccleanup sys p (c, w0) = Some (r3, c3, w2)"
    using w2(1) by (auto simp: nc_cleanup_def tcp_virt_def bind_eq_Some_conv Let_def split: if_splits)
  obtain f where f: "fd_store w0 p = Some f" using regs_fd[OF r0] by blast
  have fr: "os_frame p w0 w2" using framedD[OF tcp_nccleanup_framed f, of sys c] c3 by auto
  obtain os f' where o: "w2 = w0\<lparr>w_os := os, fd_store := (fd_store w0)(p \<mapsto> f')\<rparr>"
    using fr unfolding os_frame_def by blast
  have R: "kinv (w_os w0)" "\<And>fd p. reg (w_os w0) fd = Some p \<Longrightarrow> \<exists>c. conns w0 p = Some c \<and> m_fd c = fd \<and> 0 < fd \<and> nc_evr_loop c"
    "\<And>p c fd. \<not> g_test_finished w0 \<Longrightarrow> conns w0 p = Some c \<Longrightarrow> nc_state c = NC_STATE_FREE \<Longrightarrow> reg (w_os w0) fd \<noteq> Some p"
    "\<And>p. conns w0 p \<noteq> None \<Longrightarrow> fd_store w0 p \<noteq> None"
    using r0(1) unfolding regs_def registered_live_def by blast+
  have k: "kinv os" "\<And>fd. reg os fd = reg (w_os w0) fd \<or> reg os fd = None"
    "nc_evr_loop c \<Longrightarrow> 0 < m_fd c \<Longrightarrow> reg os (m_fd c) = None"
    using tcp_nccleanup_reg[OF c3 R(1)] o by simp_all
  have gone: "reg os fd \<noteq> Some p" for fd
  proof
    assume a: "reg os fd = Some p"
    then have "reg (w_os w0) fd = Some p" using k(2)[of fd] by auto
    then have "m_fd c = fd" "0 < fd" "nc_evr_loop c" using R(2)[of fd p] r0(2) by auto
    then show False using k(3) a by simp
  qed
  have old: "reg (w_os w0) fd = Some q" "q \<noteq> p" if "reg os fd = Some q" for fd q using that k(2)[of fd] gone by auto
  have un: "reg os fd \<noteq> Some q" if "\<not> g_test_finished w0" "conns w0 q = Some d" "nc_state d = NC_STATE_FREE" for q d fd
    using R(3)[OF that] old(1) by blast
  show ?thesis
    using k(1) old R(2,4) un unfolding regs_def registered_live_def w2(2) o by (auto split: if_splits)
qed

lemma close_conn_regs:
  assumes "regs w" "close_conn (env cfg) p w = Some (st, w')"
  shows "regs w'"
proof -
  obtain c where c: "conns w p = Some c" using assms(2) by (auto simp: close_conn_def bind_eq_Some_conv)
  have cancel: "regs w1 \<and> conns w1 = conns w" if "ses_cancel_timer t a w = Some (s, w1)" for t a s w1
    using that assms(1)
    by (auto simp: ses_cancel_timer_def t_hurl_cancel_timer_def cancel_event_def bind_eq_Some_conv regs_def registered_live_def
      split: if_splits option.splits)
  obtain w1 s2 w2 where w1: "regs w1" "conns w1 = conns w" "session_cleanup (env cfg) (nc_data c) (Some p) w1 = Some (s2, w2)" "w' = w2"
  proof (cases "nc_data c")
    case None
    then show ?thesis using assms c that[of w] by (auto simp: close_conn_def bind_eq_Some_conv)
  next
    case (Some a)
    then obtain s s1 v s2 w2 where v: "sessions w a = Some s" "ses_cancel_timer (ses_timer_obj s) a w = Some (s1, v)"
      "session_cleanup (env cfg) (nc_data c) (Some p) (put_ses a (s\<lparr>ses_timer_obj := None\<rparr>) v) = Some (s2, w2)" "w' = w2"
      using assms(2) c by (auto simp: close_conn_def bind_eq_Some_conv)
    have "regs (put_ses a (s\<lparr>ses_timer_obj := None\<rparr>) v)" using calm_regs[of v] cancel[OF v(2)] by simp
    then show ?thesis using that v(3,4) cancel[OF v(2)] by simp
  qed
  show ?thesis using regs_delete[OF w1(1,3)] w1(2,4) c by simp
qed

text \<open>The steps of the machine keep the registrations right, whatever they return.\<close>

lemma session_create_calm: "session_create cfg e p w = Some (a, w') \<Longrightarrow> calm w w'"
  by (auto simp: session_create_def bind_eq_Some_conv Let_def intro!: calm_put_conn)

lemma set_state_regs: "set_state st p w = Some w' \<Longrightarrow> st \<noteq> NC_STATE_FREE \<Longrightarrow> regs w \<Longrightarrow> regs w'"
  using regs_set_state by blast

lemma top_done_regs: "top_done m p w = Some (nx, w') \<Longrightarrow> regs w \<Longrightarrow> regs w'"
  using regs_set_state[of w NC_STATE_DONE p] by (auto simp: top_done_def)

lemma put_regs [simp]: "regs (put_ses a s w) = regs w" "regs (upd_stat f w) = regs w"
  by (simp_all add: regs_def registered_live_def upd_stat_def put_ses_def)

lemma session_regs:
  "session_create cfg e p w = Some (a, w') \<Longrightarrow> regs w \<Longrightarrow> regs w'"
  "h1_srequest cfg hx a w = Some (st, w') \<Longrightarrow> regs w \<Longrightarrow> regs w'"
  "h1_sread cfg sys hx a bytes off w = Some (st, w') \<Longrightarrow> regs w \<Longrightarrow> regs w'"
  "h1_sconnected a w = Some (st, w') \<Longrightarrow> regs w \<Longrightarrow> regs w'"
  "h1_swrite a w = Some (st, w') \<Longrightarrow> regs w \<Longrightarrow> regs w'"
  "put_in_q a q w = Some w' \<Longrightarrow> regs w \<Longrightarrow> regs w'"
  "put_out_q a q w = Some w' \<Longrightarrow> regs w \<Longrightarrow> regs w'"
  by (erule calm_regs[OF _ session_create_calm, rotated], assumption)
    (erule calm_regs[OF _ h1_srequest_calm, rotated], assumption,
     erule calm_regs[OF _ h1_sread_calm, rotated], assumption,
     simp add: h1_sconnected_def, simp add: h1_swrite_def,
     erule calm_regs[OF _ put_q_calm(1), rotated], assumption,
     erule calm_regs[OF _ put_q_calm(2), rotated], assumption)

lemma on_conn_cases:
  assumes "on_conn (env cfg) op p w = Some (r, w1)" "conns w p = Some c"
  obtains c' w' where "op (tcp_virt sys) p (c, w) = Some (r, c', w')" "w1 = put_conn p c' w'"
  using assms by (auto simp: on_conn_def bind_eq_Some_conv env_simps tcp_class_virt split: if_splits)

lemma sm_free_regs:
  assumes "sm_free (env cfg) m p w = Some (nx, w')" "regs w" "conns w p = Some c" "nc_state c = NC_STATE_FREE" "\<not> g_test_finished w"
  shows "regs w'"
proof -
  obtain r w1 where o: "on_conn (env cfg) v_ncsetup p w = Some (r, w1)" using assms(1) by (auto simp: sm_free_def bind_eq_Some_conv)
  obtain c' w2 where "tcp_ncsetup sys p (c, w) = Some (r, c', w2)" "w1 = put_conn p c' w2"
    using on_conn_cases[OF o assms(3)] by (auto simp: tcp_virt_def)
  then show ?thesis
    using regs_setup[OF assms(2-5)] assms(1) o by (auto simp: sm_free_def split: if_splits)
qed

lemma sm_connecting_regs:
  assumes "sm_connecting cfg (env cfg) p w = Some (nx, w')" "regs w" "conns w p = Some c" "nc_state c = NC_STATE_CONNECTING"
  shows "regs w'"
proof -
  have co: "regs w1" if o: "on_conn (env cfg) v_ncconnect p w = Some (r, w1)" for r w1
  proof -
    obtain c' w' where "tcp_ncconnect sys p (c, w) = Some (r, c', w')" "w1 = put_conn p c' w'"
      using on_conn_cases[OF o assms(3)] by (auto simp: tcp_virt_def)
    then show ?thesis using regs_framed(1)[OF assms(2,3) _ tcp_ncconnect_framed _ tcp_ncconnect_regd] assms(4) by simp
  qed
  have set: "set_state NC_STATE_CONNECTED p v = Some v' \<Longrightarrow> regs v \<Longrightarrow> regs v'" for v v' :: "('o, unit, 'p http_sub) hworld"
    using set_state_regs by blast
  have rest: "regs w6" if "session_create cfg (env cfg) p v = Some (a, w4)" "h1_srequest cfg hx a w4 = Some (st, w6)" "regs v"
    for v a w4 st w6
    using that session_regs(1,2) by blast
  show ?thesis
    using assms(1) unfolding sm_connecting_def
    by (auto simp: env_simps tcp_class_virt Let_def bind_eq_Some_conv h1_sconnected_def dest!: co split: if_splits)
      (blast intro: rest set)+
qed

lemma sm_after_read_regs:
  assumes "sm_after_read cfg (env cfg) p a w = Some (nx, w')" "regs w"
  shows "regs w'"
proof -
  obtain q w1 where w1: "get_in_q a w = Some q" "(if \<not> g_verbose cfg then put_in_q a (reset_write q) w else Some w) = Some w1"
    using assms(1) by (auto simp: sm_after_read_def bind_eq_Some_conv)
  have "regs w1" using w1(2) assms(2) session_regs(6) by (auto split: if_splits)
  then show ?thesis
    using assms(1) w1 by (auto simp: sm_after_read_def bind_eq_Some_conv env_simps Let_def
      intro: session_regs(2)[OF _ iffD2[OF put_regs(1)]] top_done_regs[OF _ iffD2[OF put_regs(1)]] split: if_splits)
qed

lemma nc_read_cases:
  "nc_read vt p (Some q) s = Some (st, bytes, q1, s1) \<Longrightarrow> s1 = s \<or> (\<exists>len r bs. v_ncread vt p len s = Some (r, bs, s1))"
  unfolding nc_read_def by (auto simp: bind_eq_Some_conv split: if_splits)

lemma nc_write_cases:
  "nc_write vt p (Some q) s = Some (st, n, q1, s1) \<Longrightarrow> s1 = s \<or> (\<exists>buf r. v_ncwrite vt p buf s = Some (r, s1))"
  unfolding nc_write_def by (auto simp: bind_eq_Some_conv split: if_splits)

lemma regs_put_same: "regs w \<Longrightarrow> conns w p = Some c \<Longrightarrow> regs (put_conn p c w)"
  by (simp add: put_conn_def map_upd_triv)

lemma nc_read_regs:
  assumes "nc_read (tcp_virt sys) p (Some q) (c, w) = Some (st, bytes, q1, c1, w1)" "regs w" "conns w p = Some c" "nc_state c \<noteq> NC_STATE_FREE"
  shows "regs (put_conn p c1 w1)"
proof -
  consider "(c1, w1) = (c, w)" | len r bs where "tcp_ncread sys p len (c, w) = Some (r, bs, c1, w1)"
    using nc_read_cases[OF assms(1)] by (auto simp: tcp_virt_def)
  then show ?thesis
  proof cases
    case 1
    then show ?thesis using regs_put_same[OF assms(2,3)] by simp
  next
    case 2
    obtain os where w1: "w1 = w\<lparr>w_os := os\<rparr>" using 2 by (auto simp: tcp_ncread_def on_os_def split: prod.splits if_splits)
    have "fd_store w p \<noteq> None" using regs_fd[OF assms(2,3)] by simp
    then show ?thesis
      by (intro regs_regd[OF assms(2-4)]) (use tcp_ncread_regd[OF 2] w1 in simp_all)
  qed
qed

lemma nc_write_regs:
  assumes "nc_write (tcp_virt sys) p (Some q) (c, w) = Some (st, n, q1, c1, w1)" "regs w" "conns w p = Some c" "nc_state c \<noteq> NC_STATE_FREE"
  shows "regs (put_conn p c1 w1)"
proof -
  consider "(c1, w1) = (c, w)" | buf r where "tcp_ncwrite sys p buf (c, w) = Some (r, c1, w1)"
    using nc_write_cases[OF assms(1)] by (auto simp: tcp_virt_def)
  then show ?thesis
  proof cases
    case 1
    then show ?thesis using regs_put_same[OF assms(2,3)] by simp
  next
    case 2
    obtain f where f: "fd_store w p = Some f" using regs_fd[OF assms(2,3)] by blast
    obtain r' e os where k: "sys_send sys (m_fd c) buf (w_os w) = (r', e, os)" by (metis prod_cases3)
    define v where "v = w\<lparr>w_os := os\<rparr>"
    have v: "os_frame p w v" using os_frame_os[OF f] by (simp add: v_def)
    obtain g where g: "fd_store v p = Some g" using f by (auto simp: v_def)
    obtain ok v2 where v2: "evr_reg (reactor_mod sys) (m_fd c) MASK_WRITE_ALL p (c, v) = Some (ok, c, v2)" "os_frame p v v2"
      using evr_reg_frame[OF g] by blast
    have "w1 = v \<or> w1 = v2"
      using 2 k v2(1) by (simp add: tcp_ncwrite_def on_os_def v_def[symmetric] split: if_splits)
    then have "os_frame p w w1" using v os_frame_trans[OF v v2(2)] by blast
    then obtain os g where w1: "w1 = w\<lparr>w_os := os, fd_store := (fd_store w)(p \<mapsto> g)\<rparr>"
      unfolding os_frame_def by blast
    then show ?thesis
      by (intro regs_regd[OF assms(2-4)]) (use tcp_ncwrite_regd[OF 2] w1 in simp_all)
  qed
qed

lemma sm_write_regs:
  assumes "sm_write (env cfg) p a w = Some (nx, w')" "regs w" "conns w p = Some c" "nc_state c = NC_STATE_CONNECTED"
  shows "regs w'"
proof -
  have wr: "regs w3" if "nc_write (tcp_virt sys) p (Some q) (c, w) = Some (st, n, q1, c1, w1)" "put_out_q a q2 (put_conn p c1 w1) = Some w3"
    for q st n q1 c1 w1 q2 w3
    by (rule session_regs(7)[OF that(2) nc_write_regs[OF that(1) assms(2,3)]]) (simp add: assms(4))
  have td: "regs w2" if "top_done m p (upd_stat f v) = Some (nx, w2)" "regs v" for m f v w2
    using top_done_regs[OF that(1)] that(2) by simp
  show ?thesis
    using assms unfolding sm_write_def
    by (auto simp: env_simps tcp_class_virt Let_def bind_eq_Some_conv h1_swrite_def dest!: wr td split: if_splits)
qed

lemma sm_read_regs:
  assumes "sm_read cfg (env cfg) p a w = Some (nx, w')" "regs w" "conns w p = Some c" "nc_state c = NC_STATE_CONNECTED"
  shows "regs w'"
proof -
  have rd: "regs w3" if "nc_read (tcp_virt sys) p (Some q) (c, w) = Some (st, bytes, q1, c1, w1)" "put_in_q a q2 (put_conn p c1 w1) = Some w3"
    for q st bytes q1 c1 w1 q2 w3
    by (rule session_regs(6)[OF that(2) nc_read_regs[OF that(1) assms(2,3)]]) (simp add: assms(4))
  obtain q st bytes q1 c1 w1 w2 where r: "get_in_q a w = Some q" "nc_read (tcp_virt sys) p (Some q) (c, w) = Some (st, bytes, q1, c1, w1)"
    "put_in_q a (the q1) (put_conn p c1 w1) = Some w2"
    using assms(1,3) by (auto simp: sm_read_def bind_eq_Some_conv env_simps tcp_class_virt split: if_splits)
  define w3 where "w3 = upd_stat (\<lambda>t. t\<lparr>m_bytes_read := u64 (m_bytes_read t + length bytes)\<rparr>) w2"
  have r3: "regs w3" using rd[OF r(2,3)] by (simp add: w3_def)
  have set: "regs v" if "(if st = NC_STATUS_EOF then set_state NC_STATE_DONE p w3 else Some w3) = Some v" for v
    using that r3 set_state_regs[of NC_STATE_DONE p w3 v] by (auto split: if_splits)
  have parsed: "regs v" if "h1_sread cfg sys hx a bytes off (put_ses a s u) = Some (x, v)" "regs u" for off s u x v
    using session_regs(3)[OF that(1)] that(2) by simp
  have scheme: "nc_scheme c = SCHEME_TCP" using assms(1,3) r(1) by (auto simp: sm_read_def bind_eq_Some_conv env_simps split: if_splits)
  have e: "sm_read cfg (env cfg) p a w =
      (if st = NC_STATUS_ERROR then top_done EVR_MODE_READ p w3
       else if st = NC_STATUS_AGAIN then Some (Return STATUS_OK, w3)
       else if st = NC_STATUS_READ_UNAVAILABLE then Some (Return STATUS_ERROR, w3)
       else if st = NC_STATUS_EOF \<or> st = NC_STATUS_OK
       then do {
         w4 \<leftarrow> (if st = NC_STATUS_EOF then set_state NC_STATE_DONE p w3 else Some w3);
         s \<leftarrow> sessions w4 a;
         (r, w5) \<leftarrow> h1_sread cfg sys hx a bytes (m_cur_write_offset q) (put_ses a (s\<lparr>ses_streams_closed := 0\<rparr>) w4);
         if r \<noteq> STATUS_OK then top_done EVR_MODE_READ p w5
         else sm_after_read cfg (env cfg) p a w5 }
       else Some (Return STATUS_ERROR, w3))"
    unfolding sm_read_def using r assms(3) scheme by (simp add: env_simps tcp_class_virt w3_def[symmetric])
  have tail: "regs w'"
    if t: "(do { w4 \<leftarrow> (if st = NC_STATUS_EOF then set_state NC_STATE_DONE p w3 else Some w3);
         s \<leftarrow> sessions w4 a;
         (r, w5) \<leftarrow> h1_sread cfg sys hx a bytes (m_cur_write_offset q) (put_ses a (s\<lparr>ses_streams_closed := 0\<rparr>) w4);
         if r \<noteq> STATUS_OK then top_done EVR_MODE_READ p w5
         else sm_after_read cfg (env cfg) p a w5 }) = Some (nx, w')"
  proof -
    obtain w4 s x w5 where o: "(if st = NC_STATUS_EOF then set_state NC_STATE_DONE p w3 else Some w3) = Some w4" "sessions w4 a = Some s"
      "h1_sread cfg sys hx a bytes (m_cur_write_offset q) (put_ses a (s\<lparr>ses_streams_closed := 0\<rparr>) w4) = Some (x, w5)"
      "(if x \<noteq> STATUS_OK then top_done EVR_MODE_READ p w5 else sm_after_read cfg (env cfg) p a w5) = Some (nx, w')"
      using t by (simp only: bind_eq_Some_conv prod.case split_paired_Ex) blast
    have "regs w5" by (rule parsed[OF o(3) set[OF o(1)]])
    then show ?thesis using o(4) top_done_regs sm_after_read_regs by (cases "x = STATUS_OK") auto
  qed
  show ?thesis
    using assms(1) r3 top_done_regs[OF _ r3] tail unfolding e by (auto split: if_splits)
qed

lemma sm_step_regs:
  assumes "sm_step cfg (env cfg) m p w = Some (nx, w')" "regs w"
  shows "regs w'"
proof (cases "g_test_finished w")
  case True
  then show ?thesis using assms close_conn_regs by (auto simp: sm_step_def ret_def)
next
  case False
  then obtain c where c: "conns w p = Some c" using assms(1) by (auto simp: sm_step_def bind_eq_Some_conv)
  have connected: "regs w'" if "sm_connected cfg (env cfg) m p w = Some (nx, w')" "nc_state c = NC_STATE_CONNECTED"
    using that c assms(2) sm_read_regs[OF _ assms(2) c that(2)] sm_write_regs[OF _ assms(2) c that(2)]
    by (auto simp: sm_connected_def split: option.splits evr_mode.splits)
  show ?thesis
    using assms False c connected sm_free_regs[OF _ assms(2) c _ False] sm_connecting_regs[OF _ assms(2) c] regs_delete[OF assms(2) _ c]
    by (cases "nc_state c") (auto simp: sm_step_def bind_eq_Some_conv)
qed

lemma sm_top_regs:
  assumes "sm_top cfg (env cfg) m p w = Some (st, w')" "regs w"
  shows "regs w'"
proof -
  have "e = env c \<longrightarrow> regs w \<longrightarrow> regs (snd r)" if "sm_top c e m p w = Some r" for c e m p w r
  proof (rule sm_top.raw_induct[OF _ that, of "\<lambda>c e m p w r. e = env c \<longrightarrow> regs w \<longrightarrow> regs (snd r)"], intro impI)
    fix top c e m p w r
    assume IH: "\<And>c e m p w r. top c e m p w = Some r \<Longrightarrow> e = env c \<longrightarrow> regs w \<longrightarrow> regs (snd r)"
      and e: "e = env c" "regs w"
      and t: "sm_step c e m p w \<bind> (\<lambda>(nx, w1). case nx of Goto_Top m' \<Rightarrow> top c e m' p w1 | Return st \<Rightarrow> Some (st, w1)) = Some r"
    obtain nx w1 where w1: "sm_step c e m p w = Some (nx, w1)"
      "(case nx of Goto_Top m' \<Rightarrow> top c e m' p w1 | Return st \<Rightarrow> Some (st, w1)) = Some r"
      using t by (auto simp: bind_eq_Some_conv)
    have "regs w1" using sm_step_regs w1(1) e by blast
    then show "regs (snd r)" using w1(2) IH e(1) by (cases nx) auto
  qed
  from this[OF assms(1)] assms(2) show ?thesis by simp
qed

lemma hurl_call_regs: "hurl_call cfg (env cfg) cb p w = Some (st, w') \<Longrightarrow> regs w \<Longrightarrow> regs w'"
  by (auto simp: hurl_call_def run_state_machine_def bind_eq_Some_conv split: evr_mode.splits hurl_cb.splits if_splits option.splits
    intro: sm_top_regs close_conn_regs)

lemma service_events_regs: "service_events (hurl_call cfg (env cfg)) es w = Some w' \<Longrightarrow> regs w \<Longrightarrow> regs w'"
proof (induction es arbitrary: w)
  case (Cons e es)
  obtain events ptr where e: "e = (events, ptr)" by fastforce
  show ?case
  proof (cases "evr_stopped w")
    case False
    then obtain w1 where w1: "service_event (hurl_call cfg (env cfg)) events ptr w = Some w1"
      "service_events (hurl_call cfg (env cfg)) es w1 = Some w'"
      using Cons.prems(1) e by (auto simp: bind_eq_Some_conv)
    have wr: "regs v'" if "service_write (hurl_call cfg (env cfg)) ev p v = Some v'" "regs v" for ev p v v'
      using that hurl_call_regs by (auto simp: service_write_def bind_eq_Some_conv split: if_splits option.splits)
    have "regs w1"
      using w1(1) Cons.prems(2) hurl_call_regs wr
      by (auto simp: service_event_def bind_eq_Some_conv split: if_splits option.splits)
    then show ?thesis using Cons.IH[OF w1(2)] by simp
  qed (use Cons e in simp)
qed simp

end

end
