(* ===== verification/Hurl_Live.thy ===== *)
theory Hurl_Live
  imports Hurl_Registry
begin

text \<open>
  The rounds of a thread: the event loop reads no object that has been freed, round after
  round, with the select reactor of \<^verbatim>\<open>src/core/evr/evr_select.cc\<close> as well as with epoll.
\<close>

section \<open>Rounds of a thread\<close>

text \<open>
  What a wait reports: some registered descriptors, each once, with the pointers they were
  registered with.
\<close>

definition reports_registered ::
  "('o \<Rightarrow> bool) \<Rightarrow> ('o \<Rightarrow> int \<Rightarrow> nat option) \<Rightarrow>
   (int \<Rightarrow> ('o, 'x, 's) hworld \<Rightarrow> int \<times> (nat \<times> nat option) list \<times> ('o, 'x, 's) hworld) \<Rightarrow> bool" where
  "reports_registered kinv reg wait \<longleftrightarrow> (\<forall>d w n es w'. kinv (w_os w) \<and> wait d w = (n, es, w') \<longrightarrow>
     w' = w\<lparr>w_os := w_os w'\<rparr> \<and> kinv (w_os w') \<and> reg (w_os w') = reg (w_os w) \<and>
     (\<exists>fds. distinct fds \<and> map Some (event_ptrs (take (nat n) es)) = map (reg (w_os w)) fds))"

lemma reports_live:
  assumes "reports_registered kinv reg wait" "registered_live kinv reg w" "\<And>p. conns w p \<noteq> None \<Longrightarrow> fd_store w p \<noteq> None"
  shows "reports wait w"
  unfolding reports_def
proof (intro allI impI)
  fix d n es w' assume w: "wait d w = (n, es, w')"
  define ps where "ps = event_ptrs (take (nat n) es)"
  obtain fds where r: "w' = w\<lparr>w_os := w_os w'\<rparr>" "distinct fds" "map Some ps = map (reg (w_os w)) fds"
    using assms(1,2) w unfolding reports_registered_def registered_live_def ps_def by blast
  have own: "\<exists>c. conns w p = Some c \<and> m_fd c = fd" if "reg (w_os w) fd = Some p" for fd p
    using assms(2) that unfolding registered_live_def by blast
  have len: "length ps = length fds" using r(3) map_eq_imp_length_eq by blast
  have at: "reg (w_os w) (fds ! i) = Some (ps ! i)" if "i < length ps" for i
    using arg_cong[OF r(3), of "\<lambda>l. l ! i"] that len by simp
  have "distinct ps"
    unfolding distinct_conv_nth
  proof (intro allI impI)
    fix i j assume ij: "i < length ps" "j < length ps" "i \<noteq> j"
    show "ps ! i \<noteq> ps ! j"
    proof
      assume "ps ! i = ps ! j"
      then have "fds ! i = fds ! j" using own[OF at[OF ij(1)]] own[OF at[OF ij(2)]] by auto
      then show False using r(2) ij len by (simp add: nth_eq_iff_index_eq)
    qed
  qed
  moreover have "fd_store w p \<noteq> None" if ps: "p \<in> set ps" for p
  proof -
    obtain i where "i < length ps" "ps ! i = p" using ps by (auto simp: in_set_conv_nth)
    then show ?thesis using own[OF at] assms(3) by fastforce
  qed
  ultimately show "w' = w\<lparr>w_os := w_os w'\<rparr> \<and> distinct (event_ptrs (take (nat n) es)) \<and>
      (\<forall>p \<in> set (event_ptrs (take (nat n) es)). fd_store w p \<noteq> None)"
    using r(1) unfolding ps_def by blast
qed

locale h1_thread = h1_client sys rx cfg hx + registry sys hx kinv reg
  for sys :: "'o sys_env" and rx :: "int \<Rightarrow> 'o \<Rightarrow> nat" and cfg :: hurl_cfg and hx :: "('o, 'p) http_env"
    and kinv :: "'o \<Rightarrow> bool" and reg :: "'o \<Rightarrow> int \<Rightarrow> nat option"
begin

lemma env_cls: "he_cls (env cfg) = tcp_classes sys"
  by (simp add: h1_env_def)

lemmas ends = machine.hurl_call_ends[unfolded env_cls machine.ends_def]
lemmas created = machine.create_conn_ok[unfolded env_cls]

abbreviation awaits :: "('o, unit, 'p http_sub) hworld \<Rightarrow> bool" where
  "awaits \<equiv> h1_inv (Hurl_Machine.ready (\<lambda>s. hs_resp s \<noteq> None))"

lemma create_conn_regs:
  assumes "create_conn cfg (env cfg) w = Some (Some p, w1)" "awaits w" "regs w" "conns w1 p = Some c1"
  shows "regs (put_conn p (c1\<lparr>nc_label := l, nc_data := None\<rparr>) w1\<lparr>h_nconn_set := ns\<rparr>)"
proof -
  have p: "p = next_addr w" using assms(1) by (auto simp: create_conn_def bind_eq_Some_conv Let_def split: option.splits)
  have free: "conns w p = None" using assms(2) by (simp add: heap_inv_def p)
  have w1: "w_os w1 = w_os w" "conns w1 = (conns w)(p \<mapsto> c1)" "g_test_finished w1 = g_test_finished w"
    "fd_store w1 p \<noteq> None" "\<forall>q. q \<noteq> p \<longrightarrow> fd_store w1 q = fd_store w q"
    using assms(1,4) by (auto simp: create_conn_def bind_eq_Some_conv Let_def setup_evr_fd_def put_conn_def split: option.splits)
  have "reg (w_os w) fd \<noteq> Some p" for fd using assms(3) free unfolding regs_def registered_live_def by fastforce
  then show ?thesis
    using assms(3) w1 free unfolding regs_def registered_live_def by (fastforce split: if_splits)
qed

lemma conn_start_regs:
  assumes "conn_start cfg (env cfg) w = Some (st, w')" "awaits w" "regs w"
  shows "regs w'"
proof -
  have "c = cfg \<longrightarrow> e = env c \<longrightarrow> awaits w \<longrightarrow> regs w \<longrightarrow> regs (snd r)" if "conn_start c e w = Some r" for c e w r
  proof (rule conn_start.raw_induct[OF _ that, of "\<lambda>c e w r. c = cfg \<longrightarrow> e = env c \<longrightarrow> awaits w \<longrightarrow> regs w \<longrightarrow> regs (snd r)"], intro impI)
    fix start c e w r
    assume IH: "\<And>c e w r. start c e w = Some r \<Longrightarrow> c = cfg \<longrightarrow> e = env c \<longrightarrow> awaits w \<longrightarrow> regs w \<longrightarrow> regs (snd r)"
      and e: "c = cfg" "e = env c" "awaits w" "regs w"
      and t: "(if card (h_nconn_set w) < h_num_conn_parallel_max w
        then do { (r, w1) \<leftarrow> create_conn c e w;
          (case r of None \<Rightarrow> Some (STATUS_ERROR, w1)
           | Some p \<Rightarrow> do {
               d \<leftarrow> conns w1 p;
               (st, w2) \<leftarrow> hurl_call c e evr_fd_writeable_cb p
                  (put_conn p (d\<lparr>nc_label := rq_host (h_request w1), nc_data := None\<rparr>) w1\<lparr>h_nconn_set := insert p (h_nconn_set w1)\<rparr>);
               if st \<noteq> STATUS_OK then Some (STATUS_ERROR, w2) else start c e w2 }) }
        else Some (STATUS_OK, w)) = Some r"
    show "regs (snd r)"
    proof (cases "card (h_nconn_set w) < h_num_conn_parallel_max w")
      case False
      then show ?thesis using t e(4) by auto
    next
      case lt: True
      show ?thesis
      proof (cases "tcp_classes sys (rq_scheme (h_request w)) :: (unit, ('o, unit, 'p http_sub) hworld) nc_class option")
        case None
        then have "create_conn cfg (env cfg) w = Some (None, w)" by (simp add: create_conn_def env_cls)
        then show ?thesis using t lt e by auto
      next
        case (Some k)
        obtain p c1 w1 w0 where n: "create_conn cfg (env cfg) w = Some (Some p, w1)" "conns w1 p = Some c1"
          "w0 = put_conn p (c1\<lparr>nc_label := rq_host (h_request w1), nc_data := None\<rparr>) w1\<lparr>h_nconn_set := insert p (h_nconn_set w1)\<rparr>"
          "awaits w0" "conns w0 p \<noteq> None" using created[OF e(3) Some] by blast
        have r0: "regs w0" unfolding n(3) by (rule create_conn_regs[OF n(1) e(3,4) n(2)])
        obtain c0 where "conns w0 p = Some c0" using n(5) by blast
        then obtain st w2 where c: "hurl_call cfg (env cfg) evr_fd_writeable_cb p w0 = Some (st, w2)" "awaits w2"
          using ends[OF n(4)] by blast
        have "regs w2" by (rule hurl_call_regs[OF c(1) r0])
        then show ?thesis
          using t lt e n(1,2) c n(3) IH[of c e w2 r] by (cases "st = STATUS_OK") auto
      qed
    qed
  qed
  from this[OF assms(1)] assms(2,3) show ?thesis by simp
qed

abbreviation thread_ok :: "('o, unit, 'p http_sub) hworld \<Rightarrow> bool" where
  "thread_ok \<equiv> thread_inv (conn_good (tcp_classes sys :: scheme \<Rightarrow> (unit, ('o, unit, 'p http_sub) hworld) nc_class option) (\<lambda>_ _. True))
     (Hurl_Machine.ready (\<lambda>s. hs_resp s \<noteq> None)) (sendable cfg)"

lemma evr_run_regs:
  assumes "evr_run clk pick wait (hurl_call cfg (env cfg)) w = Some (st, w')" "thread_ok w" "regs w" "reports_registered kinv reg wait"
  shows "regs w'"
proof -
  have deq: "dequeue_events clk pick (hurl_call cfg (env cfg)) v = Some (EVR_DEFAULT_TIME_WAIT_MS, v)" if "event_pq v = []" for v
    using that by (subst dequeue_events.simps) simp
  have pq: "event_pq w = []" using assms(2) by (simp add: thread_inv_def heap_inv_def)
  obtain n es w2 where w: "wait (s32 EVR_DEFAULT_TIME_WAIT_MS) w = (n, es, w2)" by (metis surj_pair)
  have "w2 = w\<lparr>w_os := w_os w2\<rparr>" "kinv (w_os w2)" "reg (w_os w2) = reg (w_os w)"
    using assms(3,4) w unfolding reports_registered_def regs_def registered_live_def by blast+
  then obtain os where o: "w2 = w\<lparr>w_os := os\<rparr>" "kinv os" "reg os = reg (w_os w)" by metis
  have r2: "regs w2" using assms(3) o(2,3) unfolding o(1) regs_def registered_live_def by simp
  have "event_pq w2 = []" using pq o(1) by simp
  then show ?thesis
    using assms(1) deq[OF pq] deq[of w2] w r2 service_events_regs by (auto simp: evr_run_def bind_eq_Some_conv split: if_splits)
qed

lemma rounds_ok:
  assumes "reports_registered kinv reg wait" "thread_ok w" "registered_live kinv reg w"
  shows "\<exists>w'. t_rounds n cfg (env cfg) clk pick wait w = Some w' \<and> thread_ok w' \<and> registered_live kinv reg w'"
proof -
  have fd: "regs w \<longleftrightarrow> registered_live kinv reg w" if "thread_ok w" for w
    using that by (simp add: regs_def thread_inv_def heap_inv_def)
  have heap: "awaits w" if "thread_ok w" for w using that by (simp add: thread_inv_def)
  have rep: "reports wait w" if "thread_ok w" "regs w" for w
    by (rule reports_live[OF assms(1)]) (use that in \<open>auto simp: regs_def\<close>)
  have "\<exists>w'. t_rounds n cfg (env cfg) clk pick wait w = Some w' \<and> thread_ok w' \<and> regs w'"
    by (rule machine.t_rounds_ends[where K = regs, unfolded env_cls])
      (use rep conn_start_regs heap evr_run_regs assms fd in \<open>blast+\<close>)
  then show ?thesis using fd by blast
qed

end

section \<open>The select reactor keeps the contract\<close>

text \<open>
  A host with the select reactor: the wait of the event loop is the reactor's, on the array of
  events the loop keeps, with a system call \<open>sel\<close>; no wait is the result of a wait that
  writes past the array.
\<close>

definition host_wait ::
  "(nat \<Rightarrow> nat set \<Rightarrow> nat set \<Rightarrow> nat option \<Rightarrow> int \<times> nat set \<times> nat set) \<Rightarrow>
   int \<Rightarrow> (host, 'x, 's) hworld \<Rightarrow> int \<times> (nat \<times> nat option) list \<times> (host, 'x, 's) hworld" where
  "host_wait sel d w = (case w_os w of (n, r, es) \<Rightarrow>
     (case select_wait sel es (int (length es)) d r of
        None \<Rightarrow> (STATUS_ERROR, es, w)
      | Some (k, es') \<Rightarrow> (k, es', w\<lparr>w_os := (n, r, es')\<rparr>)))"

definition host_reg :: "host \<Rightarrow> int \<Rightarrow> nat option" where
  "host_reg s fd = (if 0 \<le> fd then map_of (conn_map (fst (snd s))) (nat fd) else None)"

lemma event_ptrs_Some: "(\<And>e. e \<in> set es \<Longrightarrow> snd e \<noteq> None) \<Longrightarrow> map Some (event_ptrs es) = map snd es"
proof (induction es)
  case (Cons e es)
  obtain x p where "e = (x, Some p)" using Cons.prems[of e] by (cases e) auto
  then show ?case using Cons by (simp add: event_ptrs_def)
qed (simp add: event_ptrs_def)

lemma select_reports:
  assumes "select_contract sel"
  shows "reports_registered (\<lambda>s. sel_inv (fst (snd s))) host_reg (host_wait sel)"
  unfolding reports_registered_def
proof (intro allI impI, elim conjE)
  fix d and w :: "(host, 'x, 's) hworld" and k es' w'
  assume inv: "sel_inv (fst (snd (w_os w)))" and h: "host_wait sel d w = (k, es', w')"
  obtain n s es where os: "w_os w = (n, s, es)" by (metis prod_cases3)
  have i: "sel_inv s" using inv os by simp
  then have sm: "smap_ok (conn_map s)" by (simp add: sel_inv_def)
  obtain c r ws where c: "sel (if conn_map s = [] then 1 else fst (last (conn_map s)) + 1) (rfdset s) (wfdset s)
      (if d \<ge> 0 then Some (nat d) else None) = (c, r, ws)" by (metis prod_cases3)
  have bad: "select_wait sel es (int (length es)) d s = Some (STATUS_ERROR, es)" if "\<not> (0 \<le> c \<and> c \<le> int (length es))"
    using c that by (auto simp: select_wait_def)
  have triv: "w\<lparr>w_os := (n, s, es)\<rparr> = w" using os by simp
  have regs: "host_reg (n, s, x) = host_reg (n, s, es)" for x by (simp add: host_reg_def fun_eq_iff)
  show "w' = w\<lparr>w_os := w_os w'\<rparr> \<and> sel_inv (fst (snd (w_os w'))) \<and> host_reg (w_os w') = host_reg (w_os w) \<and>
     (\<exists>fds. distinct fds \<and> map Some (event_ptrs (take (nat k) es')) = map (host_reg (w_os w)) fds)"
  proof (cases "0 \<le> c \<and> c \<le> int (length es)")
    case False
    then have "k = STATUS_ERROR" "w' = w" using h os bad triv by (simp_all add: host_wait_def)
    then show ?thesis using i os by (auto simp: status_defs event_ptrs_def intro!: exI[of _ "[]"])
  next
    case True
    define rd where "rd = ready r ws (conn_map s)"
    obtain es2 where e: "select_wait sel es (int (length es)) d s = Some (int (length rd), es2)" "length es2 = length es"
      "\<forall>i < length es. es2 ! i = (if i < length rd then (fst (es ! i) OR ready_flags r ws (fst (rd ! i)), Some (snd (rd ! i))) else es ! i)"
      "length rd \<le> length es"
      using select_wait_spec[OF assms i c] True unfolding rd_def by blast
    have w': "k = int (length rd)" "es' = es2" "w' = w\<lparr>w_os := (n, s, es2)\<rparr>" using h os e(1) by (auto simp: host_wait_def)
    have t: "map snd (take (length rd) es2) = map (Some \<circ> snd) rd"
      by (rule nth_equalityI) (use e in simp_all)
    have "snd x \<noteq> None" if "x \<in> set (take (length rd) es2)" for x
      using arg_cong[OF t, of set] that by (auto dest: equalityD1)
    then have "map Some (event_ptrs (take (nat k) es')) = map (Some \<circ> snd) rd" using event_ptrs_Some t w'(1,2) by simp
    also have "\<dots> = map (host_reg (w_os w)) (map (int \<circ> fst) rd)"
      by (auto simp: host_reg_def os rd_def ready_def smap_map_of_iff[OF sm, THEN iffD2])
    finally have p: "map Some (event_ptrs (take (nat k) es')) = map (host_reg (w_os w)) (map (int \<circ> fst) rd)" .
    have "distinct (map fst rd)" using sm by (simp add: rd_def ready_def smap_ok_def distinct_map_filter)
    then have "distinct (map (int \<circ> fst) rd)" by (simp add: distinct_map comp_inj_on)
    then show ?thesis using p i regs w'(3) os by (intro conjI exI[of _ "map (int \<circ> fst) rd"]) simp_all
  qed
qed

lemma host_add_reg:
  assumes "sel_inv r" "0 \<le> fd" "host_reactor n r es (select_add (nat fd) msk p r) = (st, s')"
  shows "sel_inv (fst (snd s'))" "host_reg s' = host_reg (n, r, es) \<or> host_reg s' = (host_reg (n, r, es))(fd \<mapsto> p)"
proof -
  have "sel_inv (fst (snd s')) \<and> (host_reg s' = host_reg (n, r, es) \<or> host_reg s' = (host_reg (n, r, es))(fd \<mapsto> p))"
  proof (cases "nat fd < FD_SETSIZE")
    case True
    obtain r' where "select_add (nat fd) msk p r = Some (STATUS_OK, r')" "sel_inv r'" "map_of (conn_map r') = (map_of (conn_map r))(nat fd \<mapsto> p)"
      using sel_add_ok[OF assms(1) True, of msk p] by blast
    then show ?thesis using assms(2,3) by (auto simp: host_reactor_def host_reg_def fun_eq_iff)
  next
    case False
    then show ?thesis using assms by (auto simp: host_reactor_def select_add_def select_mod_def)
  qed
  then show "sel_inv (fst (snd s'))" "host_reg s' = host_reg (n, r, es) \<or> host_reg s' = (host_reg (n, r, es))(fd \<mapsto> p)" by simp_all
qed

lemma host_mod_reg:
  assumes "sel_inv r" "host_reactor n r es (select_mod (nat fd) msk p r) = (st, s')"
  shows "sel_inv (fst (snd s'))" "host_reg s' = host_reg (n, r, es)"
  using assms by (auto simp: host_reactor_def select_mod_def host_reg_def sel_inv_def fd_set_if_def split: if_splits)

lemma host_del_reg:
  assumes "sel_inv r" "0 \<le> fd" "host_reactor n r es (select_del (nat fd) r) = (st, s')"
  shows "sel_inv (fst (snd s'))" "host_reg s' = (host_reg (n, r, es))(fd := None)"
proof -
  have "sel_inv (fst (snd s')) \<and> host_reg s' = (host_reg (n, r, es))(fd := None)"
  proof (cases "nat fd < FD_SETSIZE")
    case True
    obtain r' where "select_del (nat fd) r = Some (STATUS_OK, r')" "sel_inv r'" "map_of (conn_map r') = (map_of (conn_map r))(nat fd := None)"
      using sel_del_ok[OF assms(1) True] by blast
    then show ?thesis using assms(2,3) by (auto simp: host_reactor_def host_reg_def fun_eq_iff)
  next
    case False
    have "map_of (conn_map r) (nat fd) = None"
      using False assms(1) sel_conns[of "conn_map r" FD_SETSIZE] by (auto simp: sel_inv_def)
    then show ?thesis using assms False by (auto simp: host_reactor_def select_del_def host_reg_def fun_eq_iff)
  qed
  then show "sel_inv (fst (snd s'))" "host_reg s' = (host_reg (n, r, es))(fd := None)" by simp_all
qed

interpretation host: h1_thread host_sys "\<lambda>_ s. host_left (fst s)" host_cfg host_http "\<lambda>s. sel_inv (fst (snd s))" host_reg
proof unfold_locales
  fix os os' :: host and fd :: int and msk p st
  assume k: "sel_inv (fst (snd os))"
  obtain n r es where os: "os = (n, r, es)" by (metis prod_cases3)
  show "sel_inv (fst (snd os')) \<and> (host_reg os' = host_reg os \<or> host_reg os' = (host_reg os)(fd \<mapsto> p))"
    if "reactor_add host_sys fd msk (Some p) os = (st, os')"
    using that k host_add_reg[of r fd n es msk p st os'] by (auto simp: host_sys_def os split: if_splits)
  show "sel_inv (fst (snd os')) \<and> (host_reg os' = host_reg os \<or> host_reg os fd \<noteq> None \<and> host_reg os' = (host_reg os)(fd \<mapsto> p))"
    if "reactor_mod host_sys fd msk (Some p) os = (st, os')"
    using that k host_mod_reg[of r n es fd msk p st os'] by (auto simp: host_sys_def os split: if_splits)
  show "sel_inv (fst (snd os')) \<and> (host_reg os' = (host_reg os)(fd := None) \<or> fd \<le> 0 \<and> host_reg os' = host_reg os)"
    if "reactor_del host_sys fd os = (st, os')"
    using that k host_del_reg[of r fd n es st os'] by (auto simp: host_sys_def os split: if_splits)
qed (auto simp: host_sys_def host_http_def host_reg_def fun_eq_iff Let_def split: if_splits option.splits prod.splits)

section \<open>Properties\<close>

text \<open>
  C2: However many rounds its loop runs, a thread ends each of them without undefined
  behaviour, keeps the invariant of its heap, stays within its limit of connections, and only
  descriptors of live connections are registered with the reactor, so that no event refers to
  a connection that was freed.  The kernel, the parser and the random numbers are arbitrary
  within their contracts.
\<close>

theorem thread_rounds_safe:
  assumes "h1_client sys rx cfg hx" "registry sys hx kinv reg" "reports_registered kinv reg wait"
    and "h1_heap cfg sys w" "card (h_nconn_set w) \<le> h_num_conn_parallel_max w" "registered_live kinv reg w"
  shows "\<exists>w'. t_rounds n cfg (h1_env cfg sys (tcp_classes sys) hx) clk pick wait w = Some w' \<and>
    h1_heap cfg sys w' \<and> card (h_nconn_set w') \<le> h_num_conn_parallel_max w' \<and> registered_live kinv reg w'"
proof -
  have t: "h1_thread sys rx cfg hx kinv reg" using assms(1,2) by (simp add: h1_thread_def)
  show ?thesis
    using h1_thread.rounds_ok[OF t assms(3) _ assms(6), of n clk pick] assms(4,5)
    unfolding thread_inv_def h1_heap_def by simp
qed

lemma demo_select_contract: "select_contract demo_select"
  by (auto simp: select_contract_def demo_select_def)

lemma host_world_live: "registered_live (\<lambda>s. sel_inv (fst (snd s))) host_reg host_world"
  by (auto simp: registered_live_def host_world_def host_reg_def sel_inv_def smap_ok_def FD_SETSIZE_def host_conn_def nconn_tcp_new_def
    nconn.defs split: if_splits)

theorem thread_rounds_safe_witness:
  "\<exists>w'. t_rounds 5 host_cfg (h1_env host_cfg host_sys (tcp_classes host_sys) host_http) id hd (host_wait demo_select) host_world = Some w' \<and>
    h1_heap host_cfg host_sys w' \<and> card (h_nconn_set w') \<le> h_num_conn_parallel_max w' \<and>
    registered_live (\<lambda>s. sel_inv (fst (snd s))) host_reg w'"
  by (rule thread_rounds_safe[OF host.h1_client_axioms host.registry_axioms select_reports[OF demo_select_contract] host_world_heap _ host_world_live])
    (simp add: host_world_def)

text \<open>
  C6: In every state that a thread reaches, the requests it counts are those it counts as answered and
  those in progress, in 32 bits: a request whose connection was closed before its response
  stays in progress.
\<close>

theorem requests_accounted:
  assumes "h1_client sys rx cfg hx" "registry sys hx kinv reg" "reports_registered kinv reg wait"
    and "h1_heap cfg sys w" "card (h_nconn_set w) \<le> h_num_conn_parallel_max w" "registered_live kinv reg w"
    and "t_rounds n cfg (h1_env cfg sys (tcp_classes sys) hx) clk pick wait w = Some w'"
  shows "m_reqs (ts_stat (h_stat w')) mod 2 ^ 32 = (m_resp_count (ts_stat (h_stat w')) + h_num_in_progress w') mod 2 ^ 32"
proof -
  have t: "h1_thread sys rx cfg hx kinv reg" using assms(1,2) by (simp add: h1_thread_def)
  have "heap_inv (conn_good (tcp_classes sys :: scheme \<Rightarrow> (unit, ('a, unit, 'b http_sub) hworld) nc_class option) (\<lambda>_ _. True))
      (Hurl_Machine.ready (\<lambda>s. hs_resp s \<noteq> None)) (sendable cfg) w'"
    using h1_thread.rounds_ok[OF t assms(3) _ assms(6), of n clk pick] assms(4,5,7)
    unfolding thread_inv_def h1_heap_def by auto
  then show ?thesis by (simp add: heap_inv_def accounted_def)
qed

lemma host_rounds_run:
  "\<exists>w'. t_rounds n host_cfg (h1_env host_cfg host_sys (tcp_classes host_sys) host_http) id hd (host_wait demo_select) host_world = Some w'"
proof -
  have "thread_inv (conn_good (tcp_classes host_sys :: scheme \<Rightarrow> (unit, (host, unit, unit http_sub) hworld) nc_class option) (\<lambda>_ _. True))
      (Hurl_Machine.ready (\<lambda>s. hs_resp s \<noteq> None)) (sendable host_cfg) host_world"
    using host_world_heap by (simp add: thread_inv_def h1_heap_def) (simp add: host_world_def)
  from host.rounds_ok[OF select_reports[OF demo_select_contract] this host_world_live, of n id hd] show ?thesis by blast
qed

theorem requests_accounted_witness:
  "\<exists>w'. t_rounds 5 host_cfg (h1_env host_cfg host_sys (tcp_classes host_sys) host_http) id hd (host_wait demo_select) host_world = Some w' \<and>
    m_reqs (ts_stat (h_stat w')) mod 2 ^ 32 = (m_resp_count (ts_stat (h_stat w')) + h_num_in_progress w') mod 2 ^ 32"
proof -
  obtain w' where w': "t_rounds 5 host_cfg (h1_env host_cfg host_sys (tcp_classes host_sys) host_http) id hd (host_wait demo_select) host_world = Some w'"
    using host_rounds_run by blast
  have "card (h_nconn_set host_world) \<le> h_num_conn_parallel_max host_world" by (simp add: host_world_def)
  from requests_accounted[OF host.h1_client_axioms host.registry_axioms select_reports[OF demo_select_contract] host_world_heap this
      host_world_live w'] w' show ?thesis by blast
qed

text \<open>
  C7: Once the test has finished, any event but a timeout on a connection that has been set up closes it: the connection, its
  descriptor object and its session are deleted, and the callback says so.
\<close>

theorem finished_test_closes:
  assumes "h1_client sys rx cfg hx" "h1_heap cfg sys w" "g_test_finished w"
    and "conns w p = Some c" "nc_state c \<noteq> NC_STATE_FREE" "cb \<noteq> evr_fd_timeout_cb"
  shows "\<exists>w'. hurl_call cfg (h1_env cfg sys (tcp_classes sys) hx) cb p w = Some (STATUS_DONE, w') \<and> h1_heap cfg sys w' \<and>
    conns w' p = None \<and> fd_store w' p = None \<and> p \<notin> h_nconn_set w' \<and>
    (\<forall>a. nc_data c = Some a \<longrightarrow> sessions w' a = None) \<and> h_num_in_progress w' = h_num_in_progress w"
  using http1_client.finished_call[OF h1_http1[OF assms(1)] _ assms(4,3,5,6)] assms(2) unfolding h1_heap_def gone_def by simp

theorem finished_test_closes_witness:
  "\<exists>w'. hurl_call host_cfg (h1_env host_cfg host_sys (tcp_classes host_sys) host_http) evr_fd_readable_cb 5
      (host_world\<lparr>g_test_finished := True\<rparr>) = Some (STATUS_DONE, w') \<and>
    conns w' 5 = None \<and> sessions w' 6 = None \<and> h_num_in_progress w' = 1"
proof -
  let ?w = "host_world\<lparr>g_test_finished := True\<rparr>"
  have h: "h1_heap host_cfg host_sys ?w"
    using host_world_heap unfolding h1_heap_def
    by (rule heap_inv_cong) (use host_world_heap in \<open>simp_all add: h1_heap_def heap_inv_def accounted_def\<close>)
  have c: "conns ?w 5 = Some host_conn" "nc_data host_conn = Some 6" "nc_state host_conn \<noteq> NC_STATE_FREE" "h_num_in_progress ?w = 1"
    by (simp_all add: host_world_def host_conn_def)
  show ?thesis
    using finished_test_closes[OF host.h1_client_axioms h _ c(1,3), of evr_fd_readable_cb] c(2,4) by auto
qed

end
