(* ===== verification/Tls_Util.thy ===== *)
theory Tls_Util
  imports Nconn_Tcp
begin

unbundle bit_operations_syntax

text \<open>
  The parts of TLS that do not belong to a connection: \<^verbatim>\<open>src/core/support/tls_util.cc\<close> and
  the first half of \<^verbatim>\<open>src/core/nconn/nconn_tls.cc\<close> (the choice of a protocol, the lists of
  ciphers, the context), as compiled with OpenSSL 1.1.1 or later.  The functions of OpenSSL
  are the fields of a record, its constants are parameters; the initialisation of the library
  and its locks only call it and are left out.
\<close>

section \<open>Options\<close>

text \<open>\<^verbatim>\<open>isspace\<close> in the C locale\<close>

definition is_space :: "char \<Rightarrow> bool" where
  "is_space c \<longleftrightarrow> c = CHR '' '' \<or> (9 \<le> (of_char c :: nat) \<and> (of_char c :: nat) \<le> 13)"

definition tls_option_names :: "string list" where
  "tls_option_names = [''SSL_OP_NO_SSLv2'', ''SSL_OP_NO_SSLv3'', ''SSL_OP_NO_TLSv1'', ''SSL_OP_NO_TLSv1_3'',
     ''SSL_OP_NO_TLSv1_2'', ''SSL_OP_NO_TLSv1_1'']"

text \<open>\<open>ssl_op\<close> are the values of the library's constants.\<close>

definition g_tls_options_map :: "(string \<Rightarrow> int) \<Rightarrow> string \<Rightarrow> int option" where
  "g_tls_options_map ssl_op = map_of (map (\<lambda>n. (n, ssl_op n)) tls_option_names)"

function options_loop :: "(string \<Rightarrow> int option) \<Rightarrow> string \<Rightarrow> int \<Rightarrow> int \<times> int" where
  "options_loop m s val =
     (case dropWhile (\<lambda>c. c \<noteq> CHR ''|'') s of
        [] \<Rightarrow> (case m s of None \<Rightarrow> (STATUS_ERROR, val) | Some v \<Rightarrow> (STATUS_OK, val OR v))
      | _ # rest \<Rightarrow>
          (case m (takeWhile (\<lambda>c. c \<noteq> CHR ''|'') s) of
             None \<Rightarrow> (STATUS_ERROR, val)
           | Some v \<Rightarrow> options_loop m rest (val OR v)))"
  by pat_completeness auto
termination
  by (relation "measure (\<lambda>(_, s, _). length s)")
    (auto, metis length_dropWhile_le Suc_le_lessD length_Cons)

definition get_tls_options_str_val :: "(string \<Rightarrow> int) \<Rightarrow> string \<Rightarrow> int \<times> int" where
  "get_tls_options_str_val ssl_op options_str =
     options_loop (g_tls_options_map ssl_op) (filter (\<lambda>c. \<not> is_space c) options_str) 0"

section \<open>What is shown of a connection\<close>

definition get_tls_info_cipher_str :: "(nat \<Rightarrow> string option) \<Rightarrow> nat option \<Rightarrow> string option" where
  "get_tls_info_cipher_str cipher_name ssl = (case ssl of None \<Rightarrow> None | Some h \<Rightarrow> cipher_name h)"

definition get_tls_info_protocol_num :: "(nat \<Rightarrow> int) \<Rightarrow> nat option \<Rightarrow> int" where
  "get_tls_info_protocol_num version ssl = (case ssl of None \<Rightarrow> -1 | Some h \<Rightarrow> version h)"

definition get_tls_info_protocol_str :: "int \<Rightarrow> string" where
  "get_tls_info_protocol_str v =
     (if v = 0x0002 then ''SSLv2'' else if v = 0x0300 then ''SSLv3'' else if v = 0x0303 then ''TLSv1.2''
      else if v = 0x0304 then ''TLSv1.3'' else if v = 0x0302 then ''TLSv1.1'' else if v = 0x0301 then ''TLSv1''
      else if v = 0xFEFF then ''DTLSv1'' else if v = 0x0100 then ''DTLSv1-bad'' else ''unknown'')"

section \<open>Certificates\<close>

text \<open>The callbacks of the verification; \<open>err\<close> is the error of the store, if there is a store.\<close>

definition X509_V_ERR_DEPTH_ZERO_SELF_SIGNED_CERT :: int where "X509_V_ERR_DEPTH_ZERO_SELF_SIGNED_CERT = 18"
definition X509_V_ERR_SELF_SIGNED_CERT_IN_CHAIN :: int where "X509_V_ERR_SELF_SIGNED_CERT_IN_CHAIN = 19"

definition tls_cert_verify_callback_allow_self_signed :: "int \<Rightarrow> int option \<Rightarrow> int" where
  "tls_cert_verify_callback_allow_self_signed ok store =
     (if ok \<noteq> 0 then ok
      else (case store of
          None \<Rightarrow> ok
        | Some err \<Rightarrow>
            if err = X509_V_ERR_DEPTH_ZERO_SELF_SIGNED_CERT \<or> err = X509_V_ERR_SELF_SIGNED_CERT_IN_CHAIN then 1 else ok))"

definition tls_cert_verify_callback :: "int \<Rightarrow> int option \<Rightarrow> int" where
  "tls_cert_verify_callback ok store = ok"

text \<open>The names of a certificate: with this version of the library there are none.\<close>

definition tls_x509_get_ids :: "nat option \<Rightarrow> bool \<times> string list" where
  "tls_x509_get_ids x509 = (case x509 of None \<Rightarrow> (False, []) | Some _ \<Rightarrow> (False, []))"

definition validate_server_certificate_hostname ::
  "(string \<Rightarrow> string \<Rightarrow> bool) \<Rightarrow> nat option \<Rightarrow> string \<Rightarrow> int" where
  "validate_server_certificate_hostname hostcheck cert host =
     (case tls_x509_get_ids cert of (found, names) \<Rightarrow>
        if \<not> found then -1
        else if \<exists>n \<in> set names. hostcheck (c_str n) host then 0 else -1)"

text \<open>\<open>cert\<close> is the certificate of the peer, \<open>host\<close> the name to check.\<close>

definition validate_server_certificate ::
  "(string \<Rightarrow> string \<Rightarrow> bool) \<Rightarrow> nat option \<Rightarrow> string option \<Rightarrow> int" where
  "validate_server_certificate hostcheck cert host =
     (case cert of
        None \<Rightarrow> -1
      | Some _ \<Rightarrow>
          (case host of
             None \<Rightarrow> 0
           | Some h \<Rightarrow> if validate_server_certificate_hostname hostcheck cert h \<noteq> 0 then -1 else 0))"

section \<open>The choice of a protocol\<close>

text \<open>
  The list of the server: names with their length in front.  The result is the status and
  where the name is, offset and length.  Reading past the list is undefined.
\<close>

partial_function (option) select_loop ::
  "byte list \<Rightarrow> nat \<Rightarrow> byte list \<Rightarrow> nat \<Rightarrow> (int \<times> (nat \<times> nat) option) option" where
  "select_loop inp inlen key i =
     (if \<not> u32 (i + length key) \<le> inlen then Some (-1, None)
      else if length inp < i + length key \<or> \<not> i < length inp then None
      else if take (length key) (drop i inp) = key then Some (0, Some (u32 (i + 1), of_char (inp ! i)))
      else select_loop inp inlen key (u32 (i + (of_char (inp ! i) + 1))))"

definition select_next_protocol ::
  "byte list \<Rightarrow> nat \<Rightarrow> byte list \<Rightarrow> (int \<times> (nat \<times> nat) option) option" where
  "select_next_protocol inp inlen key = select_loop inp inlen key 0"

definition PROTO_ALPN :: "byte list" where "PROTO_ALPN = CHR 0x02 # ''h2''"
definition HTTP_1_1_ALPN :: "byte list" where "HTTP_1_1_ALPN = CHR 0x08 # ''http/1.1''"

definition SSL_TLSEXT_ERR_OK :: int where "SSL_TLSEXT_ERR_OK = 0"
definition SSL_TLSEXT_ERR_ALERT_FATAL :: int where "SSL_TLSEXT_ERR_ALERT_FATAL = 2"

definition set_alpn :: "alpn \<Rightarrow> 'a nconn_scheme \<Rightarrow> 'a nconn_scheme" where
  "set_alpn v c = c\<lparr>nc_alpn := v\<rparr>"

text \<open>The callback: its connection is what the library has kept for it, if anything.\<close>

definition alpn_select_next_proto_cb ::
  "'a nconn_scheme option \<Rightarrow> byte list \<Rightarrow> (int \<times> (nat \<times> nat) option \<times> 'a nconn_scheme option) option" where
  "alpn_select_next_proto_cb ex inp =
     (case ex of
        None \<Rightarrow> Some (SSL_TLSEXT_ERR_ALERT_FATAL, None, None)
      | Some c \<Rightarrow>
          let c1 = snd (set_alpn_result inp c) in
          do {
            (r, out) \<leftarrow> select_next_protocol inp (length inp) PROTO_ALPN;
            if r = 0 then Some (SSL_TLSEXT_ERR_OK, out, Some (set_alpn ALPN_HTTP_VER_V2 c1))
            else do {
              (r, out) \<leftarrow> select_next_protocol inp (length inp) HTTP_1_1_ALPN;
              if r = 0 then Some (SSL_TLSEXT_ERR_OK, out, Some (set_alpn ALPN_HTTP_VER_V1_1 c1))
              else Some (SSL_TLSEXT_ERR_ALERT_FATAL, None, Some c1) } })"

section \<open>Ciphers\<close>

definition g_valid_ciphersuites :: "string list" where
  "g_valid_ciphersuites = [''TLS_AES_128_GCM_SHA256'', ''TLS_AES_256_GCM_SHA384'', ''TLS_CHACHA20_POLY1305_SHA256'',
     ''TLS_AES_128_CCM_SHA256'', ''TLS_AES_128_CCM_8_SHA256'']"

definition set_field :: "string \<Rightarrow> string \<times> string \<Rightarrow> string \<times> string" where
  "set_field f s =
     (case s of (ciphers, suites) \<Rightarrow>
        if f \<in> set g_valid_ciphersuites then (ciphers, (if suites \<noteq> [] then suites @ '':'' else suites) @ f)
        else ((if ciphers \<noteq> [] then ciphers @ '':'' else ciphers) @ f, suites))"

function split_loop :: "string \<Rightarrow> string \<times> string \<Rightarrow> string \<times> string" where
  "split_loop l s =
     (case dropWhile (\<lambda>c. c \<noteq> CHR '':'') l of
        [] \<Rightarrow> set_field l s
      | _ # rest \<Rightarrow> split_loop rest (set_field (takeWhile (\<lambda>c. c \<noteq> CHR '':'') l) s))"
  by pat_completeness auto
termination
  by (relation "measure (\<lambda>(l, _). length l)")
    (auto, metis length_dropWhile_le Suc_le_lessD length_Cons)

definition split_ciphers_ciphersuites :: "string \<Rightarrow> string \<times> string" where
  "split_ciphers_ciphersuites l = split_loop l ([], [])"

section \<open>The context\<close>

record 'o ctx_env =
  cx_new :: "'o \<Rightarrow> nat option \<times> 'o"
  cx_free :: "nat \<Rightarrow> 'o \<Rightarrow> 'o"
  cx_set_cipher_list :: "nat \<Rightarrow> string \<Rightarrow> 'o \<Rightarrow> int \<times> 'o"
  cx_set_ciphersuites :: "nat \<Rightarrow> string \<Rightarrow> 'o \<Rightarrow> int \<times> 'o"
  cx_set_default_verify_paths :: "nat \<Rightarrow> 'o \<Rightarrow> int \<times> 'o"
  cx_set_options :: "nat \<Rightarrow> int \<Rightarrow> 'o \<Rightarrow> 'o"
  cx_use_certificate_chain_file :: "nat \<Rightarrow> string \<Rightarrow> 'o \<Rightarrow> int \<times> 'o"
  cx_use_PrivateKey_file :: "nat \<Rightarrow> string \<Rightarrow> 'o \<Rightarrow> int \<times> 'o"
  cx_check_private_key :: "nat \<Rightarrow> 'o \<Rightarrow> int \<times> 'o"
  cx_set_next_proto_select_cb :: "nat \<Rightarrow> 'o \<Rightarrow> 'o"
  cx_set_alpn_protos :: "nat \<Rightarrow> byte list \<Rightarrow> 'o \<Rightarrow> 'o"
  cx_set_mode :: "nat \<Rightarrow> int \<Rightarrow> 'o \<Rightarrow> 'o"

definition ALPN_PROTO_ADV_H1 :: "byte list" where "ALPN_PROTO_ADV_H1 = CHR 0x08 # ''http/1.1''"

definition ALPN_PROTO_ADV :: "byte list" where
  "ALPN_PROTO_ADV = CHR 0x02 # ''h2'' @ CHR 0x05 # ''h2-16'' @ CHR 0x05 # ''h2-14'' @ CHR 0x08 # ''http/1.1''"

definition SSL_MODE_AUTO_RETRY :: int where "SSL_MODE_AUTO_RETRY = 4"
definition SSL_MODE_RELEASE_BUFFERS :: int where "SSL_MODE_RELEASE_BUFFERS = 16"

text \<open>A step that must succeed: the result of the library and whether it will do.\<close>

definition cx_step :: "('o \<Rightarrow> int \<times> 'o) \<Rightarrow> (int \<Rightarrow> bool) \<Rightarrow> 'o \<Rightarrow> bool \<times> 'o" where
  "cx_step f good os = (case f os of (r, os1) \<Rightarrow> (good r, os1))"

definition ctx_set_ciphers :: "'o ctx_env \<Rightarrow> nat \<Rightarrow> string \<Rightarrow> 'o \<Rightarrow> bool \<times> 'o" where
  "ctx_set_ciphers cx ctx cipher_list os =
     (if cipher_list = [] then (True, os)
      else (case split_ciphers_ciphersuites cipher_list of (c, cs) \<Rightarrow>
        (case (if c = [] then (True, os) else cx_step (cx_set_cipher_list cx ctx (c_str c)) (\<lambda>r. r = 1) os) of (ok, os1) \<Rightarrow>
           if \<not> ok then (False, os1)
           else if cs = [] then (True, os1)
           else cx_step (cx_set_ciphersuites cx ctx (c_str cs)) (\<lambda>r. r = 1) os1)))"

definition ctx_set_key :: "'o ctx_env \<Rightarrow> nat \<Rightarrow> string \<Rightarrow> 'o \<Rightarrow> bool \<times> 'o" where
  "ctx_set_key cx ctx key_file os =
     (if key_file = [] then (True, os)
      else (case cx_step (cx_use_PrivateKey_file cx ctx (c_str key_file)) (\<lambda>r. r > 0) os of (ok, os1) \<Rightarrow>
        if \<not> ok then (False, os1) else cx_step (cx_check_private_key cx ctx) (\<lambda>r. r \<noteq> 0) os1))"

definition tls_init_ctx ::
  "'o ctx_env \<Rightarrow> string \<Rightarrow> int \<Rightarrow> string \<Rightarrow> string \<Rightarrow> string \<Rightarrow> string \<Rightarrow> bool \<Rightarrow> 'o \<Rightarrow> nat option \<times> 'o" where
  "tls_init_ctx cx cipher_list options ca_file ca_path key_file crt_file force_h1 os =
     (case cx_new cx os of
        (None, os1) \<Rightarrow> (None, os1)
      | (Some ctx, os1) \<Rightarrow>
        (case ctx_set_ciphers cx ctx cipher_list os1 of (ok, os2) \<Rightarrow>
         if \<not> ok then (None, os2)
         else (case (if ca_file = [] \<and> ca_path = [] then (True, os2)
                     else cx_step (cx_set_default_verify_paths cx ctx) (\<lambda>r. r = 1) os2) of (ok, os3) \<Rightarrow>
         if \<not> ok then (None, cx_free cx ctx os3)
         else (let os4 = (if options \<noteq> 0 then cx_set_options cx ctx options os3 else os3) in
         (case (if crt_file = [] then (True, os4)
                else cx_step (cx_use_certificate_chain_file cx ctx (c_str crt_file)) (\<lambda>r. r > 0) os4) of (ok, os5) \<Rightarrow>
         if \<not> ok then (None, os5)
         else (case ctx_set_key cx ctx key_file os5 of (ok, os6) \<Rightarrow>
         if \<not> ok then (None, os6)
         else (let os7 = snd (cx_set_default_verify_paths cx ctx os6);
                   os8 = cx_set_next_proto_select_cb cx ctx os7;
                   os9 = cx_set_alpn_protos cx ctx (if force_h1 then ALPN_PROTO_ADV_H1 else ALPN_PROTO_ADV) os8
               in (Some ctx, cx_set_mode cx ctx SSL_MODE_RELEASE_BUFFERS
                               (cx_set_mode cx ctx SSL_MODE_AUTO_RETRY os9)))))))))"

declare options_loop.simps [simp del] split_loop.simps [simp del]

section \<open>Laws\<close>

text \<open>The fields of a string between the delimiters.\<close>

fun split_on :: "char \<Rightarrow> string \<Rightarrow> string list" where
  "split_on d [] = [[]]"
| "split_on d (c # s) = (if c = d then [] # split_on d s else (case split_on d s of [] \<Rightarrow> [] | t # ts \<Rightarrow> (c # t) # ts))"

lemma split_on_ne [simp]: "split_on d s \<noteq> []"
  by (induction s) (auto split: list.splits)

lemma split_on_last: "dropWhile (\<lambda>c. c \<noteq> d) s = [] \<Longrightarrow> split_on d s = [s]"
  by (induction s) (auto split: if_splits)

lemma split_on_more:
  "dropWhile (\<lambda>c. c \<noteq> d) s = x # rest \<Longrightarrow> split_on d s = takeWhile (\<lambda>c. c \<noteq> d) s # split_on d rest"
  by (induction s) (auto split: if_splits)

lemma options_loop_tokens:
  "options_loop m s v =
     (if set (split_on CHR ''|'' s) \<subseteq> dom m then STATUS_OK else STATUS_ERROR,
      foldl (\<lambda>v t. v OR the (m t)) v (takeWhile (\<lambda>t. t \<in> dom m) (split_on CHR ''|'' s)))"
proof (induction m s v rule: options_loop.induct)
  case (1 m s v)
  show ?case
  proof (cases "dropWhile (\<lambda>c. c \<noteq> CHR ''|'') s")
    case Nil
    show ?thesis unfolding split_on_last[OF Nil] options_loop.simps[of m s v] Nil by (cases "m s") (simp_all add: domIff)
  next
    case (Cons x rest)
    show ?thesis
    proof (cases "m (takeWhile (\<lambda>c. c \<noteq> CHR ''|'') s)")
      case None
      then show ?thesis unfolding split_on_more[OF Cons] options_loop.simps[of m s v] Cons by (simp add: domIff)
    next
      case (Some u)
      then have d: "takeWhile (\<lambda>c. c \<noteq> CHR ''|'') s \<in> dom m" by blast
      have e: "options_loop m s v = options_loop m rest (v OR u)"
        unfolding options_loop.simps[of m s v] Cons Some by simp
      show ?thesis
        unfolding e 1[OF Cons Some] split_on_more[OF Cons] using d Some by simp
    qed
  qed
qed

definition join :: "char \<Rightarrow> string list \<Rightarrow> string" where
  "join d ts = (if ts = [] then [] else hd ts @ concat (map (\<lambda>t. d # t) (tl ts)))"

lemma join_simps [simp]: "join d [] = []" "join d [t] = t"
  by (simp_all add: join_def)

lemma join_snoc: "t \<noteq> [] \<Longrightarrow> [] \<notin> set ts \<Longrightarrow> join d (ts @ [t]) = (if join d ts \<noteq> [] then join d ts @ [d] else join d ts) @ t"
  by (cases ts) (auto simp: join_def)

lemma set_field_join:
  assumes "f \<noteq> []" "[] \<notin> set fs"
  shows "set_field f (join CHR '':'' (filter (\<lambda>f. f \<notin> set g_valid_ciphersuites) fs), join CHR '':'' (filter (\<lambda>f. f \<in> set g_valid_ciphersuites) fs)) =
    (join CHR '':'' (filter (\<lambda>f. f \<notin> set g_valid_ciphersuites) (fs @ [f])), join CHR '':'' (filter (\<lambda>f. f \<in> set g_valid_ciphersuites) (fs @ [f])))"
  using assms by (simp add: set_field_def join_snoc del: join_simps)

lemma split_loop_fields:
  "[] \<notin> set (split_on CHR '':'' l) \<Longrightarrow> [] \<notin> set fs \<Longrightarrow>
    split_loop l (join CHR '':'' (filter (\<lambda>f. f \<notin> set g_valid_ciphersuites) fs), join CHR '':'' (filter (\<lambda>f. f \<in> set g_valid_ciphersuites) fs)) =
    (join CHR '':'' (filter (\<lambda>f. f \<notin> set g_valid_ciphersuites) (fs @ split_on CHR '':'' l)),
     join CHR '':'' (filter (\<lambda>f. f \<in> set g_valid_ciphersuites) (fs @ split_on CHR '':'' l)))"
proof (induction "length l" arbitrary: l fs rule: less_induct)
  case less
  show ?case
  proof (cases "dropWhile (\<lambda>c. c \<noteq> CHR '':'') l")
    case Nil
    then show ?thesis
      using less.prems split_on_last[OF Nil] unfolding split_loop.simps[of l] Nil
      by (simp add: set_field_join del: filter_append)
  next
    case (Cons x rest)
    let ?f = "takeWhile (\<lambda>c. c \<noteq> CHR '':'') l"
    have e: "split_on CHR '':'' l = ?f # split_on CHR '':'' rest" by (rule split_on_more[OF Cons])
    have "length rest < length l" using Cons length_dropWhile_le[of "\<lambda>c. c \<noteq> CHR '':''" l] by simp
    then show ?thesis
      using less.prems less.hyps[of rest "fs @ [?f]"] set_field_join[of ?f fs] e unfolding split_loop.simps[of l] Cons
      by (auto simp del: filter_append)
  qed
qed

text \<open>The wire format of a list of protocols, and the search in it.\<close>

definition wire :: "byte list list \<Rightarrow> byte list" where
  "wire ns = concat (map (\<lambda>n. char_of (length n) # n) ns)"

lemma wire_Cons: "wire (n # ns) = char_of (length n) # n @ wire ns"
  by (simp add: wire_def)

lemma wire_first:
  "p \<in> set ns \<Longrightarrow> take (length p) (drop (length (wire (takeWhile (\<lambda>n. n \<noteq> p) ns)) + 1) (wire ns)) = p"
  by (induction ns) (auto simp: wire_def)

lemma select_loop_at:
  assumes "length pre + length (wire ns) < 2 ^ 31" "p \<noteq> []" "length p < 256" "\<And>n. n \<in> set ns \<Longrightarrow> length n < 256"
  shows "select_loop (pre @ wire ns) (length (pre @ wire ns)) (char_of (length p) # p) (length pre) =
    Some (if p \<in> set ns then (0, Some (length pre + length (wire (takeWhile (\<lambda>n. n \<noteq> p) ns)) + 1, length p)) else (-1, None))"
  using assms(1,4)
proof (induction ns arbitrary: pre)
  case Nil
  then show ?case using assms(2,3) by (subst select_loop.simps) (simp add: wire_def u32_id)
next
  case (Cons n ns)
  let ?key = "char_of (length p) # p"
  let ?inp = "pre @ wire (n # ns)"
  have n: "length n < 256" using Cons.prems(2) by simp
  have len: "length pre + Suc (length n) + length (wire ns) < 2 ^ 31" using Cons.prems(1) by (simp add: wire_Cons)
  have sum: "length pre + length ?key < 2 ^ 32" using len assms(3) by simp
  have nth: "?inp ! length pre = char_of (length n)" by (simp add: wire_Cons nth_append)
  have oc: "(of_char (char_of (length n) :: char) :: nat) = length n" using n by simp
  have step: "u32 (length pre + (of_char (?inp ! length pre) + 1)) = length (pre @ char_of (length n) # n)"
    using len nth oc by (simp add: u32_id)
  show ?case
  proof (cases "length pre + length ?key \<le> length ?inp")
    case False
    have "p \<notin> set (n # ns)"
    proof
      assume "p \<in> set (n # ns)"
      then have "Suc (length p) \<le> length (wire (n # ns))"
        by (auto simp: wire_def in_set_conv_decomp)
      then show False using False by simp
    qed
    then show ?thesis using False sum by (subst select_loop.simps) (simp add: u32_id)
  next
    case fits: True
    show ?thesis
    proof (cases "take (length ?key) (drop (length pre) ?inp) = ?key")
      case True
      then have t: "take (length p) (n @ wire ns) = p" "char_of (length n) = (char_of (length p) :: char)" by (simp_all add: wire_Cons)
      then have "length n = length p" using n assms(3) by (metis char_of_eq_iff mod_less of_char_of)
      then have "n = p" using t(1) by simp
      moreover have "select_loop ?inp (length ?inp) ?key (length pre) = Some (0, Some (length pre + 1, length n))"
        using fits sum True nth oc len by (subst select_loop.simps) (simp add: u32_id wire_Cons)
      ultimately show ?thesis by (simp add: wire_def)
    next
      case False
      then have "n \<noteq> p" by (auto simp: wire_Cons)
      have r: "select_loop ((pre @ char_of (length n) # n) @ wire ns) (length ((pre @ char_of (length n) # n) @ wire ns)) ?key
          (length (pre @ char_of (length n) # n)) =
        Some (if p \<in> set ns then (0, Some (length (pre @ char_of (length n) # n) + length (wire (takeWhile (\<lambda>n. n \<noteq> p) ns)) + 1, length p)) else (-1, None))"
        using len Cons.prems(2) by (intro Cons.IH) simp_all
      have inp: "(pre @ char_of (length n) # n) @ wire ns = ?inp" by (simp add: wire_Cons)
      have "select_loop ?inp (length ?inp) ?key (length pre) = select_loop ?inp (length ?inp) ?key (length (pre @ char_of (length n) # n))"
        using fits sum False by (subst select_loop.simps) (simp only: u32_id[OF sum] step if_False if_True not_not not_le, auto)
      then show ?thesis using r \<open>n \<noteq> p\<close> unfolding inp by (simp only: list.set insert_iff takeWhile.simps if_True length_append list.size) (simp add: wire_Cons)
    qed
  qed
qed

text \<open>With this version of the library no host name passes the check of a certificate.\<close>

lemma validate_host_fails: "validate_server_certificate hostcheck cert (Some h) = -1"
  by (simp add: validate_server_certificate_def validate_server_certificate_hostname_def tls_x509_get_ids_def split: option.splits)

section \<open>Properties\<close>

text \<open>
  C22: The search for a protocol in the list of a server always ends inside the list: it gives
  the place of the first entry that is the protocol when the server offers it, just behind
  the entries before it and their lengths, and fails otherwise.
\<close>

theorem select_next_protocol_finds:
  assumes "length (wire ns) < 2 ^ 31" "\<forall>n \<in> set ns. length n < 256" "p \<noteq> []" "length p < 256"
  shows "select_next_protocol (wire ns) (length (wire ns)) (char_of (length p) # p) =
      Some (if p \<in> set ns then (0, Some (length (wire (takeWhile (\<lambda>n. n \<noteq> p) ns)) + 1, length p)) else (-1, None))
    \<and> (p \<in> set ns \<longrightarrow> take (length p) (drop (length (wire (takeWhile (\<lambda>n. n \<noteq> p) ns)) + 1) (wire ns)) = p)"
  using select_loop_at[of "[]" ns p] wire_first[of p ns] assms unfolding select_next_protocol_def append_Nil list.size by simp

theorem select_next_protocol_finds_witness:
  "select_next_protocol (wire [''spdy/3'', ''h2'', ''h2'']) (length (wire [''spdy/3'', ''h2'', ''h2''])) (char_of (length ''h2'') # ''h2'') =
      Some (0, Some (8, 2))"
  using select_next_protocol_finds[of "[''spdy/3'', ''h2'', ''h2'']" "''h2''"] by (simp add: wire_def)

text \<open>
  A list of ciphers is separated into the suites of TLS 1.3 and the others, each in the
  order of the list.
\<close>

theorem ciphers_separated:
  assumes "[] \<notin> set (split_on CHR '':'' l)"
  shows "split_ciphers_ciphersuites l =
    (join CHR '':'' (filter (\<lambda>f. f \<notin> set g_valid_ciphersuites) (split_on CHR '':'' l)),
     join CHR '':'' (filter (\<lambda>f. f \<in> set g_valid_ciphersuites) (split_on CHR '':'' l)))"
  using split_loop_fields[OF assms, of "[]"] by (simp add: split_ciphers_ciphersuites_def)

theorem ciphers_separated_witness:
  "split_ciphers_ciphersuites ''AES128-SHA:TLS_AES_128_GCM_SHA256:AES256-SHA'' = (''AES128-SHA:AES256-SHA'', ''TLS_AES_128_GCM_SHA256'')"
proof -
  have e: "split_on CHR '':'' ''AES128-SHA:TLS_AES_128_GCM_SHA256:AES256-SHA'' = [''AES128-SHA'', ''TLS_AES_128_GCM_SHA256'', ''AES256-SHA'']"
    by simp
  show ?thesis
    using ciphers_separated[of "''AES128-SHA:TLS_AES_128_GCM_SHA256:AES256-SHA''"] unfolding e
    by (simp add: g_valid_ciphersuites_def join_def)
qed

text \<open>
  A string of options, with white space anywhere, is the union of the options it names up
  to the first it does not know; it is an error when there is one it does not know.
\<close>

theorem tls_options_parsed:
  "get_tls_options_str_val ssl_op s =
    (let ts = split_on CHR ''|'' (filter (\<lambda>c. \<not> is_space c) s)
     in (if set ts \<subseteq> set tls_option_names then STATUS_OK else STATUS_ERROR,
         foldl (\<lambda>v t. v OR ssl_op t) 0 (takeWhile (\<lambda>t. t \<in> set tls_option_names) ts)))"
proof -
  have d: "dom (g_tls_options_map ssl_op) = set tls_option_names"
    by (auto simp: g_tls_options_map_def dom_map_of_conv_image_fst image_image)
  have v: "the (g_tls_options_map ssl_op t) = ssl_op t" if "t \<in> set tls_option_names" for t
    using that by (auto simp: g_tls_options_map_def tls_option_names_def)
  have "foldl (\<lambda>v t. v OR the (g_tls_options_map ssl_op t)) 0 (takeWhile (\<lambda>t. t \<in> set tls_option_names) ts) =
      foldl (\<lambda>v t. v OR ssl_op t) 0 (takeWhile (\<lambda>t. t \<in> set tls_option_names) ts)" for ts
    by (rule foldl_cong) (auto dest: set_takeWhileD simp: v)
  then show ?thesis unfolding get_tls_options_str_val_def options_loop_tokens d Let_def by simp
qed

end
