(* ===== verification/Nconn_Tls.thy ===== *)
theory Nconn_Tls
  imports Tls_Util
begin

unbundle bit_operations_syntax

text \<open>
  The TLS connection of \<^verbatim>\<open>src/core/nconn/nconn_tls.{h,cc}\<close>, derived from the TCP connection
  and compiled with OpenSSL 1.1.1 or later, without KTLS.  The functions of OpenSSL are the
  fields of the record \<open>ssl_env\<close>, on the same state \<open>'o\<close> as the system calls; an object of
  type \<^verbatim>\<open>SSL\<close> is its handle.  A call with a null object is undefined.  When a server sends its
  protocols by the NPN extension, the library calls \<^verbatim>\<open>alpn_select_next_proto_cb\<close> while it
  connects: \<open>ssl_npn\<close> is what it calls it with, and \<open>ssl_connect\<close> is given the answer.
\<close>

section \<open>The library\<close>

datatype ssl_error = SSL_ERROR_SSL | SSL_ERROR_WANT_READ | SSL_ERROR_WANT_WRITE | SSL_ERROR_WANT_X509_LOOKUP
  | SSL_ERROR_SYSCALL | SSL_ERROR_ZERO_RETURN | SSL_ERROR_WANT_CONNECT | SSL_ERROR_WANT_ACCEPT | SSL_ERROR_OTHER nat

record 'o ssl_env =
  ssl_new :: "nat \<Rightarrow> 'o \<Rightarrow> nat option \<times> 'o"
  ssl_free :: "nat \<Rightarrow> 'o \<Rightarrow> 'o"
  ssl_set_fd :: "nat \<Rightarrow> int \<Rightarrow> 'o \<Rightarrow> 'o"
  ssl_set_ex_data :: "nat \<Rightarrow> nat \<Rightarrow> 'o \<Rightarrow> 'o"
  ssl_clear_options :: "nat \<Rightarrow> int \<Rightarrow> 'o \<Rightarrow> 'o"
  ssl_set_options :: "nat \<Rightarrow> int \<Rightarrow> 'o \<Rightarrow> int \<times> 'o"
  ssl_set_cipher_list :: "nat \<Rightarrow> string \<Rightarrow> 'o \<Rightarrow> int \<times> 'o"
  ssl_set_tlsext_host_name :: "nat \<Rightarrow> string \<Rightarrow> 'o \<Rightarrow> int \<times> 'o"
  ssl_set_hostflags :: "nat \<Rightarrow> 'o \<Rightarrow> 'o"
  ssl_set1_host :: "nat \<Rightarrow> string \<Rightarrow> 'o \<Rightarrow> int \<times> 'o"
  ssl_set_verify :: "nat \<Rightarrow> (int \<Rightarrow> int option \<Rightarrow> int) option \<Rightarrow> 'o \<Rightarrow> 'o"
  ssl_npn :: "nat \<Rightarrow> 'o \<Rightarrow> byte list option"
  ssl_connect :: "nat \<Rightarrow> (int \<times> (nat \<times> nat) option) option \<Rightarrow> 'o \<Rightarrow> int \<times> 'o"
  ssl_accept :: "nat \<Rightarrow> 'o \<Rightarrow> int \<times> 'o"
  ssl_get_error :: "nat \<Rightarrow> int \<Rightarrow> 'o \<Rightarrow> ssl_error \<times> 'o"
  err_get_error :: "'o \<Rightarrow> int \<times> 'o"
  ssl_read :: "nat \<Rightarrow> nat \<Rightarrow> 'o \<Rightarrow> int \<times> errno \<times> byte list \<times> 'o"
  ssl_write :: "nat \<Rightarrow> byte list \<Rightarrow> 'o \<Rightarrow> int \<times> 'o"
  ssl_get_peer_certificate :: "nat \<Rightarrow> 'o \<Rightarrow> nat option \<times> 'o"
  ssl_alpn_selected :: "nat \<Rightarrow> 'o \<Rightarrow> byte list"
  ssl_cert_text :: "nat \<Rightarrow> string"
  ssl_session_text :: "nat \<Rightarrow> 'o \<Rightarrow> string"
  ssl_hostcheck :: "string \<Rightarrow> string \<Rightarrow> bool"

section \<open>State\<close>

definition CONN_STATUS_ERROR_SEND :: conn_status where "CONN_STATUS_ERROR_SEND = -7"

datatype tls_state =
  TLS_STATE_NONE | TLS_STATE_LISTENING | TLS_STATE_CONNECTING | TLS_STATE_ACCEPTING
  | TLS_STATE_TLS_CONNECTING | TLS_STATE_TLS_CONNECTING_WANT_READ | TLS_STATE_TLS_CONNECTING_WANT_WRITE
  | TLS_STATE_TLS_ACCEPTING | TLS_STATE_TLS_ACCEPTING_WANT_READ | TLS_STATE_TLS_ACCEPTING_WANT_WRITE
  | TLS_STATE_CONNECTED | TLS_STATE_READING | TLS_STATE_WRITING | TLS_STATE_DONE

definition OPT_TLS_CTX :: nat where "OPT_TLS_CTX = 1000"
definition OPT_TLS_CIPHER_STR :: nat where "OPT_TLS_CIPHER_STR = 1001"
definition OPT_TLS_OPTIONS :: nat where "OPT_TLS_OPTIONS = 1002"
definition OPT_TLS_SSL :: nat where "OPT_TLS_SSL = 1003"
definition OPT_TLS_SSL_LAST_ERR :: nat where "OPT_TLS_SSL_LAST_ERR = 1004"
definition OPT_TLS_VERIFY :: nat where "OPT_TLS_VERIFY = 1100"
definition OPT_TLS_SNI :: nat where "OPT_TLS_SNI = 1102"
definition OPT_TLS_HOSTNAME :: nat where "OPT_TLS_HOSTNAME = 1103"
definition OPT_TLS_VERIFY_ALLOW_SELF_SIGNED :: nat where "OPT_TLS_VERIFY_ALLOW_SELF_SIGNED = 1105"
definition OPT_TLS_VERIFY_NO_HOST_CHECK :: nat where "OPT_TLS_VERIFY_NO_HOST_CHECK = 1106"
definition OPT_TLS_CA_FILE :: nat where "OPT_TLS_CA_FILE = 1201"
definition OPT_TLS_CA_PATH :: nat where "OPT_TLS_CA_PATH = 1202"
definition OPT_TLS_TLS_KEY :: nat where "OPT_TLS_TLS_KEY = 1301"
definition OPT_TLS_TLS_CRT :: nat where "OPT_TLS_TLS_CRT = 1302"

lemmas tls_opt_defs = OPT_TLS_CTX_def OPT_TLS_CIPHER_STR_def OPT_TLS_OPTIONS_def OPT_TLS_SSL_def OPT_TLS_SSL_LAST_ERR_def
  OPT_TLS_VERIFY_def OPT_TLS_SNI_def OPT_TLS_HOSTNAME_def OPT_TLS_VERIFY_ALLOW_SELF_SIGNED_def
  OPT_TLS_VERIFY_NO_HOST_CHECK_def OPT_TLS_CA_FILE_def OPT_TLS_CA_PATH_def OPT_TLS_TLS_KEY_def OPT_TLS_TLS_CRT_def

record nconn_tls = nconn_tcp +
  m_tls_ctx :: "nat option"
  m_tls :: "nat option"
  m_tls_opt_verify :: bool
  m_tls_opt_sni :: bool
  m_tls_opt_verify_allow_self_signed :: bool
  m_tls_opt_verify_no_host_check :: bool
  m_tls_opt_hostname :: string
  m_tls_opt_ca_file :: string
  m_tls_opt_ca_path :: string
  m_tls_opt_options :: int
  m_tls_opt_cipher_str :: string
  m_tls_key :: string
  m_tls_crt :: string
  m_tls_state :: tls_state
  m_last_err :: int

definition nconn_tls_new :: nconn_tls where
  "nconn_tls_new = nconn_tcp.extend (nconn_tcp_new\<lparr>nc_scheme := SCHEME_TLS\<rparr>)
     \<lparr>m_tls_ctx = None, m_tls = None, m_tls_opt_verify = False, m_tls_opt_sni = False,
      m_tls_opt_verify_allow_self_signed = False, m_tls_opt_verify_no_host_check = False, m_tls_opt_hostname = [],
      m_tls_opt_ca_file = [], m_tls_opt_ca_path = [], m_tls_opt_options = 0, m_tls_opt_cipher_str = [],
      m_tls_key = [], m_tls_crt = [], m_tls_state = TLS_STATE_NONE, m_last_err = 0\<rparr>"

definition tls_is_listening :: "'a nconn_tls_scheme \<Rightarrow> bool" where
  "tls_is_listening c \<longleftrightarrow> m_tls_state c = TLS_STATE_LISTENING"

definition tls_is_connecting :: "'a nconn_tls_scheme \<Rightarrow> bool" where
  "tls_is_connecting c \<longleftrightarrow> m_tls_state c \<in> {TLS_STATE_CONNECTING, TLS_STATE_TLS_CONNECTING,
     TLS_STATE_TLS_CONNECTING_WANT_READ, TLS_STATE_TLS_CONNECTING_WANT_WRITE}"

definition tls_is_accepting :: "'a nconn_tls_scheme \<Rightarrow> bool" where
  "tls_is_accepting c \<longleftrightarrow> m_tls_state c \<in> {TLS_STATE_ACCEPTING, TLS_STATE_TLS_ACCEPTING,
     TLS_STATE_TLS_ACCEPTING_WANT_READ, TLS_STATE_TLS_ACCEPTING_WANT_WRITE}"

section \<open>Options\<close>

text \<open>What the buffer of an option points to: memory, or an object of the library.\<close>

datatype opt_buf = Opt_Mem "byte list" | Opt_Object "nat option"

text \<open>\<^verbatim>\<open>assign(a_buf, a_len)\<close> and \<^verbatim>\<open>memcpy\<close> of a boolean and of a \<^verbatim>\<open>long\<close>, low byte first.\<close>

definition buf_string :: "opt_buf \<Rightarrow> nat \<Rightarrow> string option" where
  "buf_string b len = (case b of Opt_Mem m \<Rightarrow> if len \<le> length m then Some (take len m) else None | Opt_Object _ \<Rightarrow> None)"

definition buf_bool :: "opt_buf \<Rightarrow> bool option" where
  "buf_bool b = map_option (\<lambda>m. m ! 0 \<noteq> NUL) (buf_string b 1)"

definition buf_long :: "opt_buf \<Rightarrow> int option" where
  "buf_long b = map_option (\<lambda>m. s64 (int (foldr (\<lambda>c n. of_char c + 256 * n) m 0))) (buf_string b 8)"

definition tls_set_opt :: "nat \<Rightarrow> opt_buf \<Rightarrow> nat \<Rightarrow> 'a nconn_tls_scheme \<Rightarrow> (int \<times> 'a nconn_tls_scheme) option" where
  "tls_set_opt opt b len c =
     (case set_opt opt len c of (st, c1) \<Rightarrow>
        if st \<noteq> NC_STATUS_OK \<and> st \<noteq> NC_STATUS_UNSUPPORTED then Some (NC_STATUS_ERROR, c1)
        else if st = NC_STATUS_OK then Some (NC_STATUS_OK, c1)
        else if opt = OPT_TLS_CIPHER_STR then map_option (\<lambda>v. (NC_STATUS_OK, c1\<lparr>m_tls_opt_cipher_str := v\<rparr>)) (buf_string b len)
        else if opt = OPT_TLS_OPTIONS then map_option (\<lambda>v. (NC_STATUS_OK, c1\<lparr>m_tls_opt_options := v\<rparr>)) (buf_long b)
        else if opt = OPT_TLS_VERIFY then map_option (\<lambda>v. (NC_STATUS_OK, c1\<lparr>m_tls_opt_verify := v\<rparr>)) (buf_bool b)
        else if opt = OPT_TLS_SNI then map_option (\<lambda>v. (NC_STATUS_OK, c1\<lparr>m_tls_opt_sni := v\<rparr>)) (buf_bool b)
        else if opt = OPT_TLS_HOSTNAME then map_option (\<lambda>v. (NC_STATUS_OK, c1\<lparr>m_tls_opt_hostname := v\<rparr>)) (buf_string b len)
        else if opt = OPT_TLS_VERIFY_ALLOW_SELF_SIGNED
        then map_option (\<lambda>v. (NC_STATUS_OK, c1\<lparr>m_tls_opt_verify_allow_self_signed := v\<rparr>)) (buf_bool b)
        else if opt = OPT_TLS_VERIFY_NO_HOST_CHECK
        then map_option (\<lambda>v. (NC_STATUS_OK, c1\<lparr>m_tls_opt_verify_no_host_check := v\<rparr>)) (buf_bool b)
        else if opt = OPT_TLS_CA_FILE then map_option (\<lambda>v. (NC_STATUS_OK, c1\<lparr>m_tls_opt_ca_file := v\<rparr>)) (buf_string b len)
        else if opt = OPT_TLS_CA_PATH then map_option (\<lambda>v. (NC_STATUS_OK, c1\<lparr>m_tls_opt_ca_path := v\<rparr>)) (buf_string b len)
        else if opt = OPT_TLS_TLS_KEY then map_option (\<lambda>v. (NC_STATUS_OK, c1\<lparr>m_tls_key := v\<rparr>)) (buf_string b len)
        else if opt = OPT_TLS_TLS_CRT then map_option (\<lambda>v. (NC_STATUS_OK, c1\<lparr>m_tls_crt := v\<rparr>)) (buf_string b len)
        else if opt = OPT_TLS_CTX
        then (case b of Opt_Object x \<Rightarrow> Some (NC_STATUS_OK, c1\<lparr>m_tls_ctx := x\<rparr>) | Opt_Mem _ \<Rightarrow> None)
        else Some (NC_STATUS_UNSUPPORTED, c1))"

text \<open>What an option gives: nothing is stored for the key and the certificate.\<close>

datatype opt_out = Out_Fd int | Out_Ssl "nat option" | Out_Long int

definition tls_get_opt :: "nat \<Rightarrow> 'a nconn_tls_scheme \<Rightarrow> int \<times> opt_out option" where
  "tls_get_opt opt c =
     (case get_opt opt c of (st, fd) \<Rightarrow>
        if st \<noteq> NC_STATUS_OK \<and> st \<noteq> NC_STATUS_UNSUPPORTED then (NC_STATUS_ERROR, None)
        else if st = NC_STATUS_OK then (NC_STATUS_OK, map_option Out_Fd fd)
        else if opt = OPT_TLS_TLS_KEY \<or> opt = OPT_TLS_TLS_CRT then (NC_STATUS_OK, None)
        else if opt = OPT_TLS_SSL then (NC_STATUS_OK, Some (Out_Ssl (m_tls c)))
        else if opt = OPT_TLS_SSL_LAST_ERR then (NC_STATUS_OK, Some (Out_Long (m_last_err c)))
        else (NC_STATUS_ERROR, None))"

definition nconn_get_SSL :: "'a nconn_tls_scheme \<Rightarrow> nat option" where
  "nconn_get_SSL c = (case tls_get_opt OPT_TLS_SSL c of
     (st, Some (Out_Ssl s)) \<Rightarrow> if st \<noteq> NC_STATUS_OK then None else s | _ \<Rightarrow> None)"

definition nconn_get_last_SSL_err :: "'a nconn_tls_scheme \<Rightarrow> int" where
  "nconn_get_last_SSL_err c = (case tls_get_opt OPT_TLS_SSL_LAST_ERR c of
     (st, Some (Out_Long e)) \<Rightarrow> if st \<noteq> NC_STATUS_OK then 0 else e | _ \<Rightarrow> 0)"

section \<open>Setting up\<close>

type_synonym ('a, 'c, 'o, 'm) tls_op =
  "'a nconn_tls_scheme \<times> ('c, 'o, 'm) evr_world_scheme \<Rightarrow> (int \<times> 'a nconn_tls_scheme \<times> ('c, 'o, 'm) evr_world_scheme) option"

text \<open>A call whose result is not looked at.\<close>

definition os_do :: "('o \<Rightarrow> 'o) \<Rightarrow> ('c, 'o, 'm) evr_world_scheme \<Rightarrow> ('c, 'o, 'm) evr_world_scheme" where
  "os_do f w = w\<lparr>w_os := f (w_os w)\<rparr>"

text \<open>What is set on the new object when the peer is to be verified.\<close>

definition tls_set_verify ::
  "'o ssl_env \<Rightarrow> nat \<Rightarrow> 'a nconn_tls_scheme \<Rightarrow> ('c, 'o, 'm) evr_world_scheme \<Rightarrow> ('c, 'o, 'm) evr_world_scheme" where
  "tls_set_verify ssl h c w =
     (if \<not> m_tls_opt_verify c then w
      else let w1 = (if m_tls_opt_verify_no_host_check c then w
                     else snd (on_os (ssl_set1_host ssl h (c_str (m_tls_opt_hostname c))) (os_do (ssl_set_hostflags ssl h) w)))
           in os_do (ssl_set_verify ssl h
                (if m_tls_opt_verify_allow_self_signed c then Some tls_cert_verify_callback_allow_self_signed else None)) w1)"

definition tls_init :: "'o ssl_env \<Rightarrow> nat \<Rightarrow> ('a, 'c, 'o, 'm) tls_op" where
  "tls_init ssl p s =
     (case s of (c, w) \<Rightarrow>
        (case m_tls_ctx c of
           None \<Rightarrow> Some (NC_STATUS_ERROR, conn_error CONN_STATUS_ERROR_CONNECT_TLS c, w)
         | Some ctx \<Rightarrow>
           (case on_os (ssl_new ssl ctx) w of
              (None, _) \<Rightarrow> None
            | (Some h, w1) \<Rightarrow>
              let c1 = c\<lparr>m_tls := Some h\<rparr>;
                  w2 = os_do (ssl_set_ex_data ssl h p) (os_do (ssl_set_fd ssl h (m_fd c)) w1);
                  w3 = (if m_tls_opt_options c \<noteq> 0
                        then snd (on_os (ssl_set_options ssl h (m_tls_opt_options c)) (os_do (ssl_clear_options ssl h 0x11111111) w2))
                        else w2)
              in
              (case (if m_tls_opt_cipher_str c \<noteq> [] then on_os (ssl_set_cipher_list ssl h (c_str (m_tls_opt_cipher_str c))) w3
                     else (1, w3)) of (r, w4) \<Rightarrow>
                 if r \<noteq> 1 then Some (NC_STATUS_ERROR, conn_error CONN_STATUS_ERROR_CONNECT_TLS c1, w4)
                 else (case (if m_tls_opt_sni c \<and> m_tls_opt_hostname c \<noteq> []
                             then on_os (ssl_set_tlsext_host_name ssl h (c_str (m_tls_opt_hostname c))) w4 else (1, w4)) of (r, w5) \<Rightarrow>
                   if r \<noteq> 1 then Some (NC_STATUS_ERROR, conn_error CONN_STATUS_ERROR_CONNECT_TLS c1, w5)
                   else Some (NC_STATUS_OK, c1, tls_set_verify ssl h c w5))))))"

definition tls_ncsetup :: "'o sys_env \<Rightarrow> 'o ssl_env \<Rightarrow> nat \<Rightarrow> ('a, 'c, 'o, 'm) tls_op" where
  "tls_ncsetup sys ssl p s =
     do {
       (st, s1) \<leftarrow> tcp_ncsetup sys p s;
       if st \<noteq> NC_STATUS_OK then Some (NC_STATUS_ERROR, s1)
       else do {
         (st, c2, w2) \<leftarrow> tls_init ssl p s1;
         Some (if st \<noteq> NC_STATUS_OK then (NC_STATUS_ERROR, c2, w2)
               else (NC_STATUS_OK, c2\<lparr>m_tls_state := TLS_STATE_CONNECTING\<rparr>, w2)) } }"

section \<open>The handshake\<close>

text \<open>The connection and the answer after the callback for the protocols, if the library calls it.\<close>

definition npn_answer ::
  "'o ssl_env \<Rightarrow> nat \<Rightarrow> 'a nconn_tls_scheme \<Rightarrow> 'o \<Rightarrow> ('a nconn_tls_scheme \<times> (int \<times> (nat \<times> nat) option) option) option" where
  "npn_answer ssl h c os =
     (case ssl_npn ssl h os of
        None \<Rightarrow> Some (c, None)
      | Some inp \<Rightarrow> do {
          (r, out, c') \<leftarrow> alpn_select_next_proto_cb (Some c) inp;
          Some (case c' of None \<Rightarrow> c | Some c1 \<Rightarrow> c1, Some (r, out)) })"

text \<open>The errors of the handshake that are not a wait: the connection and the world after them.\<close>

definition tls_connect_error ::
  "'o ssl_env \<Rightarrow> int \<Rightarrow> ssl_error \<Rightarrow> 'a nconn_tls_scheme \<Rightarrow> ('c, 'o, 'm) evr_world_scheme \<Rightarrow>
     'a nconn_tls_scheme \<times> ('c, 'o, 'm) evr_world_scheme" where
  "tls_connect_error ssl r e c w =
     (case (if e \<in> {SSL_ERROR_SSL, SSL_ERROR_WANT_X509_LOOKUP, SSL_ERROR_SYSCALL}
            then (case on_os (err_get_error ssl) w of (v, w1) \<Rightarrow> (c\<lparr>m_last_err := v\<rparr>, w1)) else (c, w)) of (c1, w1) \<Rightarrow>
        (if e = SSL_ERROR_SYSCALL \<and> r \<noteq> 0 \<and> r \<noteq> -1 then c1 else conn_error CONN_STATUS_ERROR_CONNECT_TLS c1, w1))"

definition tls_connect :: "'o ssl_env \<Rightarrow> ('a, 'c, 'o, 'm) tls_op" where
  "tls_connect ssl s =
     (case s of (c, w) \<Rightarrow> do {
        h \<leftarrow> m_tls c;
        (c1, answer) \<leftarrow> npn_answer ssl h (c\<lparr>m_tls_state := TLS_STATE_TLS_CONNECTING\<rparr>) (w_os w);
        (case on_os (ssl_connect ssl h answer) w of (r, w1) \<Rightarrow>
           if r \<le> 0
           then (case on_os (ssl_get_error ssl h r) w1 of (e, w2) \<Rightarrow>
             Some (case e of
                 SSL_ERROR_WANT_READ \<Rightarrow> (NC_STATUS_AGAIN, c1\<lparr>m_tls_state := TLS_STATE_TLS_CONNECTING_WANT_READ\<rparr>, w2)
               | SSL_ERROR_WANT_WRITE \<Rightarrow> (NC_STATUS_AGAIN, c1\<lparr>m_tls_state := TLS_STATE_TLS_CONNECTING_WANT_WRITE\<rparr>, w2)
               | _ \<Rightarrow> (NC_STATUS_ERROR, tls_connect_error ssl r e c1 w2)))
           else Some (NC_STATUS_OK, if r = 1 then c1\<lparr>m_tls_state := TLS_STATE_CONNECTED\<rparr> else c1, w1)) })"

text \<open>Each message for an error of the library takes two errors from its queue.\<close>

definition tls_accept_error ::
  "'o ssl_env \<Rightarrow> int \<Rightarrow> ssl_error \<Rightarrow> 'a nconn_tls_scheme \<Rightarrow> ('c, 'o, 'm) evr_world_scheme \<Rightarrow>
     'a nconn_tls_scheme \<times> ('c, 'o, 'm) evr_world_scheme" where
  "tls_accept_error ssl r e c w =
     (let told = (case e of SSL_ERROR_OTHER _ \<Rightarrow> False | SSL_ERROR_SYSCALL \<Rightarrow> r = 0 \<or> r = -1 | _ \<Rightarrow> True);
          w1 = (if told \<and> (e = SSL_ERROR_SSL \<or> e = SSL_ERROR_SYSCALL)
                then snd (on_os (err_get_error ssl) (snd (on_os (err_get_error ssl) w))) else w)
      in (if told then conn_error CONN_STATUS_ERROR_CONNECT_TLS c else c, w1))"

definition tls_accept :: "'o ssl_env \<Rightarrow> ('a, 'c, 'o, 'm) tls_op" where
  "tls_accept ssl s =
     (case s of (c, w) \<Rightarrow> do {
        h \<leftarrow> m_tls c;
        let c1 = c\<lparr>m_tls_state := TLS_STATE_TLS_ACCEPTING\<rparr>;
        (case on_os (ssl_accept ssl h) w of (r, w1) \<Rightarrow>
           if r \<le> 0
           then (case on_os (ssl_get_error ssl h r) w1 of (e, w2) \<Rightarrow>
             Some (case e of
                 SSL_ERROR_WANT_READ \<Rightarrow> (NC_STATUS_AGAIN, c1\<lparr>m_tls_state := TLS_STATE_TLS_ACCEPTING_WANT_READ\<rparr>, w2)
               | SSL_ERROR_WANT_WRITE \<Rightarrow> (NC_STATUS_AGAIN, c1\<lparr>m_tls_state := TLS_STATE_TLS_ACCEPTING_WANT_WRITE\<rparr>, w2)
               | _ \<Rightarrow> (NC_STATUS_ERROR, tls_accept_error ssl r e c1 w2)))
           else Some (NC_STATUS_OK, if r = 1 then c1\<lparr>m_tls_state := TLS_STATE_CONNECTED\<rparr> else c1, w1)) })"

text \<open>\<^verbatim>\<open>strncmp(a, b, n) == 0\<close> for a string \<open>a\<close> and \<open>n\<close> bytes \<open>b\<close>\<close>

definition strncmp_eq :: "string \<Rightarrow> byte list \<Rightarrow> bool" where
  "strncmp_eq a b \<longleftrightarrow> take (length b) (a @ [NUL]) = take (length (takeWhile (\<lambda>c. c \<noteq> NUL) b) + 1) b"

text \<open>What is left to do once the handshake is done: the check of the host and the protocol.\<close>

definition tls_finish :: "'o ssl_env \<Rightarrow> ('a, 'c, 'o, 'm) tls_op" where
  "tls_finish ssl s =
     (case s of (c, w) \<Rightarrow> do {
        h \<leftarrow> m_tls c;
        let (ok, c1, w1) =
          (if m_tls_opt_verify c \<and> \<not> m_tls_opt_verify_no_host_check c
           then (case on_os (ssl_get_peer_certificate ssl h) w of (cert, w1) \<Rightarrow>
             if validate_server_certificate (ssl_hostcheck ssl) cert (Some (c_str (m_tls_opt_hostname c))) \<noteq> 0
             then (False, conn_error CONN_STATUS_ERROR_CONNECT_TLS_HOST c, w1) else (True, c, w1))
           else (True, c, w));
        if \<not> ok then Some (NC_STATUS_ERROR, c1, w1)
        else let alpn = ssl_alpn_selected ssl h (w_os w1)
             in Some (NC_STATUS_OK,
                  set_alpn (if alpn \<noteq> [] \<and> (strncmp_eq ''h2'' alpn \<or> strncmp_eq ''h2-16'' alpn \<or> strncmp_eq ''h2-14'' alpn)
                            then ALPN_HTTP_VER_V2 else ALPN_HTTP_VER_V1_1) c1, w1) })"

partial_function (option) tls_ncconnect :: "'o sys_env \<Rightarrow> 'o ssl_env \<Rightarrow> nat \<Rightarrow> ('a, 'c, 'o, 'm) tls_op" where
  "tls_ncconnect sys ssl p s =
     (if m_tls_state (fst s) = TLS_STATE_CONNECTING
      then do {
        (st, c1, w1) \<leftarrow> tcp_ncconnect sys p s;
        if st = NC_STATUS_ERROR then Some (NC_STATUS_ERROR, c1, w1)
        else if is_connecting c1 then Some (NC_STATUS_OK, c1, w1)
        else tls_ncconnect sys ssl p (c1\<lparr>m_tls_state := TLS_STATE_TLS_CONNECTING\<rparr>, w1) }
      else if m_tls_state (fst s) \<in> {TLS_STATE_TLS_CONNECTING, TLS_STATE_TLS_CONNECTING_WANT_READ, TLS_STATE_TLS_CONNECTING_WANT_WRITE}
      then do {
        (st, s1) \<leftarrow> tls_connect ssl s;
        if st = NC_STATUS_AGAIN then Some (NC_STATUS_OK, s1)
        else if st \<noteq> NC_STATUS_OK then Some (NC_STATUS_ERROR, s1)
        else tls_ncconnect sys ssl p s1 }
      else if m_tls_state (fst s) = TLS_STATE_CONNECTED then tls_finish ssl s
      else Some (NC_STATUS_ERROR, s))"

section \<open>Listening and accepting\<close>

definition tls_ncset_listening :: "'o sys_env \<Rightarrow> nat \<Rightarrow> int \<Rightarrow> ('a, 'c, 'o, 'm) tls_op" where
  "tls_ncset_listening sys p v s =
     do { (st, c, w) \<leftarrow> tcp_ncset_listening sys p v s;
          Some (if st \<noteq> NC_STATUS_OK then (NC_STATUS_ERROR, c, w) else (NC_STATUS_OK, c\<lparr>m_tls_state := TLS_STATE_LISTENING\<rparr>, w)) }"

definition tls_ncset_listening_nb :: "'o sys_env \<Rightarrow> nat \<Rightarrow> int \<Rightarrow> ('a, 'c, 'o, 'm) tls_op" where
  "tls_ncset_listening_nb sys p v s =
     do { (st, c, w) \<leftarrow> tcp_ncset_listening_nb sys p v s;
          Some (if st \<noteq> NC_STATUS_OK then (NC_STATUS_ERROR, c, w) else (NC_STATUS_OK, c\<lparr>m_tls_state := TLS_STATE_LISTENING\<rparr>, w)) }"

text \<open>The status of \<^verbatim>\<open>init\<close> is not looked at.\<close>

definition tls_ncset_accepting :: "'o sys_env \<Rightarrow> 'o ssl_env \<Rightarrow> nat \<Rightarrow> int \<Rightarrow> ('a, 'c, 'o, 'm) tls_op" where
  "tls_ncset_accepting sys ssl p fd s =
     do {
       (st, s1) \<leftarrow> tcp_ncset_accepting sys p fd s;
       if st \<noteq> NC_STATUS_OK then Some (NC_STATUS_ERROR, s1)
       else do {
         (_, c2, w2) \<leftarrow> tls_init ssl p s1;
         h \<leftarrow> m_tls c2;
         (ok, s3) \<leftarrow> evr_reg (reactor_mod sys) (m_fd c2) MASK_RW_ALL p
                       (c2\<lparr>m_tls_state := TLS_STATE_ACCEPTING\<rparr>, os_do (ssl_set_fd ssl h fd) w2);
         Some (if ok then NC_STATUS_OK else NC_STATUS_ERROR, s3) } }"

definition tls_ncset_connected :: "'o sys_env \<Rightarrow> nat \<Rightarrow> ('a, 'c, 'o, 'm) tls_op" where
  "tls_ncset_connected sys p s =
     do { (st, s1) \<leftarrow> tcp_ncset_connected sys p s; Some (if st \<noteq> NC_STATUS_OK then NC_STATUS_ERROR else NC_STATUS_OK, s1) }"

text \<open>\<^verbatim>\<open>mod_fd\<close> with the status of the caller, or an error.\<close>

definition tls_mod :: "'o sys_env \<Rightarrow> nat \<Rightarrow> nat \<Rightarrow> int \<Rightarrow> ('a, 'c, 'o, 'm) tls_op" where
  "tls_mod sys msk p st s =
     do { (ok, c1, w1) \<leftarrow> evr_reg (reactor_mod sys) (m_fd (fst s)) msk p s;
          Some (if ok then (st, c1, w1) else (NC_STATUS_ERROR, conn_error CONN_STATUS_ERROR_INTERNAL c1, w1)) }"

partial_function (option) tls_ncaccept :: "'o sys_env \<Rightarrow> 'o ssl_env \<Rightarrow> nat \<Rightarrow> ('a, 'c, 'o, 'm) tls_op" where
  "tls_ncaccept sys ssl p s =
     (if m_tls_state (fst s) = TLS_STATE_LISTENING then tcp_ncaccept sys p s
      else if m_tls_state (fst s) \<in> {TLS_STATE_ACCEPTING, TLS_STATE_TLS_ACCEPTING, TLS_STATE_TLS_ACCEPTING_WANT_READ,
             TLS_STATE_TLS_ACCEPTING_WANT_WRITE}
      then do {
        (st, c1, w1) \<leftarrow> tls_accept ssl s;
        if st = NC_STATUS_AGAIN
        then (if m_tls_state c1 = TLS_STATE_TLS_ACCEPTING_WANT_READ
              then tls_mod sys (MASK_READ_ALL OR EVR_FILE_ATTR_MASK_ET) p NC_STATUS_AGAIN (c1, w1)
              else if m_tls_state c1 = TLS_STATE_TLS_ACCEPTING_WANT_WRITE
              then tls_mod sys MASK_WRITE_ALL p NC_STATUS_AGAIN (c1, w1)
              else Some (NC_STATUS_AGAIN, c1, w1))
        else if st \<noteq> NC_STATUS_OK then Some (NC_STATUS_ERROR, c1, w1)
        else do {
          (st, s2) \<leftarrow> tls_mod sys (MASK_READ_ALL OR EVR_FILE_ATTR_MASK_ET) p NC_STATUS_OK (c1, w1);
          if st \<noteq> NC_STATUS_OK then Some (NC_STATUS_ERROR, s2) else tls_ncaccept sys ssl p s2 } }
      else if m_tls_state (fst s) = TLS_STATE_CONNECTED then Some (NC_STATUS_OK, s)
      else Some (NC_STATUS_ERROR, s))"

section \<open>Reading, writing, cleaning up\<close>

definition tls_ncread ::
  "'o ssl_env \<Rightarrow> nat \<Rightarrow> nat \<Rightarrow> 'a nconn_tls_scheme \<times> ('c, 'o, 'm) evr_world_scheme \<Rightarrow>
     (int \<times> byte list \<times> 'a nconn_tls_scheme \<times> ('c, 'o, 'm) evr_world_scheme) option" where
  "tls_ncread ssl p len s =
     (case s of (c, w) \<Rightarrow> do {
        h \<leftarrow> m_tls c;
        (case on_os (\<lambda>os. case ssl_read ssl h len os of (r, e, bs, os1) \<Rightarrow> ((r, e, bs), os1)) w of
           ((r, e, bs), w1) \<Rightarrow>
             if r > 0 then Some (r, bs, c, w1)
             else (case on_os (ssl_get_error ssl h r) w1 of (te, w2) \<Rightarrow>
               Some (if te = SSL_ERROR_WANT_READ \<or> te = SSL_ERROR_WANT_WRITE then NC_STATUS_AGAIN
                     else if r = 0 then NC_STATUS_EOF
                     else if e = EAGAIN then NC_STATUS_AGAIN else NC_STATUS_ERROR, bs, c, w2))) })"

definition tls_ncwrite :: "'o ssl_env \<Rightarrow> nat \<Rightarrow> byte list \<Rightarrow> ('a, 'c, 'o, 'm) tls_op" where
  "tls_ncwrite ssl p buf s =
     (case s of (c, w) \<Rightarrow> do {
        h \<leftarrow> m_tls c;
        (case on_os (ssl_write ssl h buf) w of (r, w1) \<Rightarrow>
           if \<not> r < 0 then Some (r, c, w1)
           else (case on_os (ssl_get_error ssl h r) w1 of (te, w2) \<Rightarrow>
             Some (if te = SSL_ERROR_WANT_READ \<or> te = SSL_ERROR_WANT_WRITE then (NC_STATUS_AGAIN, c, w2)
                   else (NC_STATUS_ERROR, conn_error CONN_STATUS_ERROR_SEND c, w2)))) })"

definition tls_nccleanup :: "'o sys_env \<Rightarrow> 'o ssl_env \<Rightarrow> nat \<Rightarrow> ('a, 'c, 'o, 'm) tls_op" where
  "tls_nccleanup sys ssl p s =
     (case s of (c, w) \<Rightarrow>
        let w1 = (case m_tls c of None \<Rightarrow> w | Some h \<Rightarrow> os_do (ssl_free ssl h) w)
        in do { (_, s1) \<leftarrow> tcp_nccleanup sys p (c\<lparr>m_tls := None, m_tls_state := TLS_STATE_NONE\<rparr>, w1); Some (NC_STATUS_OK, s1) })"

definition tls_virt :: "'o sys_env \<Rightarrow> 'o ssl_env \<Rightarrow> ('a nconn_tls_scheme, ('c, 'o, 'm) evr_world_scheme) nc_virt" where
  "tls_virt sys ssl = \<lparr>v_ncsetup = tls_ncsetup sys ssl, v_ncread = tls_ncread ssl, v_ncwrite = tls_ncwrite ssl,
     v_ncaccept = tls_ncaccept sys ssl, v_ncconnect = tls_ncconnect sys ssl, v_nccleanup = tls_nccleanup sys ssl,
     v_ncset_listening = tls_ncset_listening sys, v_ncset_listening_nb = tls_ncset_listening_nb sys,
     v_ncset_accepting = tls_ncset_accepting sys ssl, v_ncset_connected = tls_ncset_connected sys,
     v_is_connecting = tls_is_connecting\<rparr>"

section \<open>Frames\<close>

text \<open>Only the state of the operating system and of the library changes.\<close>

definition os_only :: "('c, 'o, 'm) evr_world_scheme \<Rightarrow> ('c, 'o, 'm) evr_world_scheme \<Rightarrow> bool" where
  "os_only w w' \<longleftrightarrow> (\<exists>os. w' = w\<lparr>w_os := os\<rparr>)"

lemma os_only_refl [simp]: "os_only w w"
  unfolding os_only_def by (rule exI[of _ "w_os w"]) simp

lemma os_only_trans: "os_only w w1 \<Longrightarrow> os_only w1 w2 \<Longrightarrow> os_only w w2"
  by (auto simp: os_only_def)

lemma os_only_call: "on_os f w = (r, w') \<Longrightarrow> os_only w w'"
  by (auto simp: os_only_def on_os_def split: prod.splits)

lemma os_only_do: "os_only w (os_do f w)"
  by (auto simp: os_only_def os_do_def)

lemma os_only_snd: "os_only w w1 \<Longrightarrow> os_only w (snd (on_os f w1))"
  by (metis os_only_trans os_only_call prod.collapse)

lemma os_only_frame: "os_only w w' \<Longrightarrow> fd_store w p = Some f \<Longrightarrow> os_frame p w w' \<and> fd_store w' p = Some f"
  by (auto simp: os_only_def os_frame_os)

text \<open>What an operation on the library's object may change of a connection.\<close>

definition tls_frame :: "'a nconn_tls_scheme \<Rightarrow> 'a nconn_tls_scheme \<Rightarrow> bool" where
  "tls_frame c c' \<longleftrightarrow> conn_frame c c' \<and> m_fd c' = m_fd c \<and> m_tcp_state c' = m_tcp_state c \<and> nc_evr_loop c' = nc_evr_loop c"

lemma tls_frame_refl [simp]: "tls_frame c c"
  by (simp add: tls_frame_def)

lemma tls_frame_trans: "tls_frame c c1 \<Longrightarrow> tls_frame c1 c2 \<Longrightarrow> tls_frame c c2"
  by (auto simp: tls_frame_def dest: conn_frame_trans)

lemma tls_frame_upd:
  "tls_frame c (conn_error st c)" "tls_frame c (c\<lparr>m_tls_state := x\<rparr>)" "tls_frame c (c\<lparr>m_last_err := e\<rparr>)" "tls_frame c (c\<lparr>m_tls := h\<rparr>)"
  by (simp_all add: tls_frame_def conn_frame_def conn_error_def)

lemma tls_set_verify_os: "os_only w (tls_set_verify ssl h c w)"
  unfolding tls_set_verify_def
  by (auto simp: Let_def intro: os_only_trans[OF _ os_only_do] os_only_snd os_only_do)

lemma tls_init_ok:
  assumes "\<And>ctx os. fst (ssl_new ssl ctx os) \<noteq> None"
  shows "\<exists>r c' w'. tls_init ssl p (c, w) = Some (r, c', w') \<and> tls_frame c c' \<and> os_only w w' \<and>
    (r = NC_STATUS_OK \<longrightarrow> m_tls c' \<noteq> None)"
proof (cases "m_tls_ctx c")
  case None
  then show ?thesis by (simp add: tls_init_def tls_frame_upd nc_status_defs)
next
  case (Some ctx)
  obtain h os where n: "ssl_new ssl ctx (w_os w) = (Some h, os)" using assms[of ctx "w_os w"] by (cases "ssl_new ssl ctx (w_os w)") auto
  define w1 where "w1 = w\<lparr>w_os := os\<rparr>"
  have w1: "on_os (ssl_new ssl ctx) w = (Some h, w1)" using n by (simp add: on_os_def w1_def)
  define w2 where "w2 = os_do (ssl_set_ex_data ssl h p) (os_do (ssl_set_fd ssl h (m_fd c)) w1)"
  define w3 where "w3 = (if m_tls_opt_options c \<noteq> 0
      then snd (on_os (ssl_set_options ssl h (m_tls_opt_options c)) (os_do (ssl_clear_options ssl h 0x11111111) w2)) else w2)"
  have o1: "os_only w w1" using os_only_call[OF w1] .
  have o2: "os_only w w2" unfolding w2_def by (intro os_only_trans[OF _ os_only_do] o1)
  have o3: "os_only w w3" unfolding w3_def by (auto intro: o2 os_only_snd os_only_trans[OF _ os_only_do])
  obtain r4 w4 where w4: "(if m_tls_opt_cipher_str c \<noteq> [] then on_os (ssl_set_cipher_list ssl h (c_str (m_tls_opt_cipher_str c))) w3
      else (1, w3)) = (r4, w4)" by fastforce
  have o4: "os_only w w4" using w4 os_only_trans[OF o3 os_only_call] o3 by (auto split: if_splits)
  obtain r5 w5 where w5: "(if m_tls_opt_sni c \<and> m_tls_opt_hostname c \<noteq> []
      then on_os (ssl_set_tlsext_host_name ssl h (c_str (m_tls_opt_hostname c))) w4 else (1, w4)) = (r5, w5)" by fastforce
  have o5: "os_only w w5" using w5 os_only_trans[OF o4 os_only_call] o4 by (auto split: if_splits)
  have "tls_init ssl p (c, w) =
      (if r4 \<noteq> 1 then Some (NC_STATUS_ERROR, conn_error CONN_STATUS_ERROR_CONNECT_TLS (c\<lparr>m_tls := Some h\<rparr>), w4)
       else if r5 \<noteq> 1 then Some (NC_STATUS_ERROR, conn_error CONN_STATUS_ERROR_CONNECT_TLS (c\<lparr>m_tls := Some h\<rparr>), w5)
       else Some (NC_STATUS_OK, c\<lparr>m_tls := Some h\<rparr>, tls_set_verify ssl h c w5))"
    unfolding tls_init_def prod.case Some option.case w1 Let_def w2_def[symmetric] w3_def[symmetric] w4 w5 by simp
  moreover have "tls_frame c (conn_error st (c\<lparr>m_tls := Some h\<rparr>))" for st
    using tls_frame_trans[OF tls_frame_upd(4) tls_frame_upd(1)] .
  ultimately show ?thesis
    using o4 o5 os_only_trans[OF o5 tls_set_verify_os] by (auto simp: tls_frame_upd nc_status_defs)
qed

text \<open>The operations of TCP leave the members of the derived class alone.\<close>

lemma evr_reg_conn: "evr_reg op fd msk p (c, w) = Some (ok, c', w') \<Longrightarrow> c' = c"
  by (auto simp: evr_reg_def bind_eq_Some_conv split: if_splits prod.splits)

lemma connect_reg_more: "connect_reg env p (c, w) = Some (r, c', w') \<Longrightarrow> nconn_tcp.more c' = nconn_tcp.more c"
  by (auto simp: connect_reg_def bind_eq_Some_conv conn_error_def split: if_splits dest: evr_reg_conn)

lemma connect_try_more: "connect_try env n p (c, w) = Some (r, c', w') \<Longrightarrow> nconn_tcp.more c' = nconn_tcp.more c"
proof (induction n arbitrary: w)
  case (0 w)
  obtain r0 e w1 where k: "connect_call env c w = ((r0, e), w1)" by (metis surj_pair)
  show ?case
    using 0 unfolding connect_try_round[OF k]
    by (auto simp: conn_error_def dest: connect_reg_more split: if_splits)
next
  case (Suc n w)
  obtain r0 e w1 where k: "connect_call env c w = ((r0, e), w1)" by (metis surj_pair)
  show ?case
    using Suc unfolding connect_try_round[OF k]
    by (auto simp: conn_error_def dest: connect_reg_more split: if_splits)
qed

lemma tcp_ncconnect_more: "tcp_ncconnect env p (c, w) = Some (r, c', w') \<Longrightarrow> nconn_tcp.more c' = nconn_tcp.more c"
  by (auto simp: tcp_ncconnect_def dest: connect_try_more)

lemma more_fields:
  assumes "nconn_tcp.more c' = nconn_tcp.more c"
  shows "m_tls c' = m_tls c" "m_tls_state c' = m_tls_state c" "m_tls_opt_verify c' = m_tls_opt_verify c"
    "m_tls_opt_verify_no_host_check c' = m_tls_opt_verify_no_host_check c"
  using assms by (cases c; cases c'; simp)+

section \<open>The handshake ends\<close>

text \<open>
  What the library documents of the handshake: its result is at most 1, and the protocols of a
  server that sends them are a list in the wire format, each with its length, which is not 0,
  in front.
\<close>

definition wire_protocols :: "byte list \<Rightarrow> bool" where
  "wire_protocols inp \<longleftrightarrow> length inp < 2 ^ 16 \<and> (\<exists>ns. inp = wire ns \<and> (\<forall>n \<in> set ns. 0 < length n \<and> length n < 256))"

locale tls_shake =
  fixes ssl :: "'o ssl_env"
  assumes handshake: "fst (ssl_connect ssl h answer os) \<le> 1"
    and npn: "ssl_npn ssl h os = Some inp \<Longrightarrow> wire_protocols inp"

text \<open>
  A library that always makes an object, with servers that use the ALPN extension and choose
  HTTP/1.1: the scope of the program's state machine over TLS.
\<close>

locale tls_lib = tls_shake +
  assumes fresh: "fst (ssl_new ssl ctx os) \<noteq> None"
    and no_npn: "ssl_npn ssl h os = None"
    and http1: "ssl_alpn_selected ssl h os \<in> {[], ''http/1.1''}"

definition tls_waits :: "'a nconn_tls_scheme \<Rightarrow> bool" where
  "tls_waits c \<longleftrightarrow> m_tls_state c \<in> {TLS_STATE_TLS_CONNECTING_WANT_READ, TLS_STATE_TLS_CONNECTING_WANT_WRITE}"

lemma http1_is_not_h2:
  "\<not> strncmp_eq ''h2'' ''http/1.1''" "\<not> strncmp_eq ''h2-16'' ''http/1.1''" "\<not> strncmp_eq ''h2-14'' ''http/1.1''"
  by (simp_all add: strncmp_eq_def NUL_def)

text \<open>Whether the name of the host is checked.\<close>

definition checks_host :: "'a nconn_tls_scheme \<Rightarrow> bool" where
  "checks_host c \<longleftrightarrow> m_tls_opt_verify c \<and> \<not> m_tls_opt_verify_no_host_check c"

text \<open>What a connect comes to, from a connection on which the object is \<open>h\<close> and the host is checked or not.\<close>

definition connect_ends :: "nat option \<Rightarrow> bool \<Rightarrow> int \<Rightarrow> 'a nconn_tls_scheme \<Rightarrow> bool" where
  "connect_ends h chk r c \<longleftrightarrow> m_tls c = h \<and> checks_host c = chk \<and>
     (r = NC_STATUS_ERROR \<or>
      r = NC_STATUS_OK \<and> (tls_is_connecting c \<or> m_tls_state c = TLS_STATE_CONNECTED \<and> \<not> chk))"

text \<open>The members that a step of the handshake keeps.\<close>

definition tls_same :: "'a nconn_tls_scheme \<Rightarrow> 'a nconn_tls_scheme \<Rightarrow> bool" where
  "tls_same c c' \<longleftrightarrow> m_tls c' = m_tls c \<and> checks_host c' = checks_host c"

text \<open>Whether one of the names the client takes for HTTP/2 was selected.\<close>

definition selects_h2 :: "byte list \<Rightarrow> bool" where
  "selects_h2 alpn \<longleftrightarrow> alpn \<noteq> [] \<and> (strncmp_eq ''h2'' alpn \<or> strncmp_eq ''h2-16'' alpn \<or> strncmp_eq ''h2-14'' alpn)"

lemma alpn_callback_ends:
  assumes "wire_protocols inp"
  shows "\<exists>r out c1. alpn_select_next_proto_cb (Some c) inp = Some (r, out, Some c1) \<and> m_tls c1 = m_tls c \<and>
    m_tls_state c1 = m_tls_state c \<and> checks_host c1 = checks_host (c :: 'a nconn_tls_scheme)"
proof -
  obtain ns where ns: "inp = wire ns" "length (wire ns) < 2 ^ 31" "\<forall>n \<in> set ns. length n < 256"
    using assms by (auto simp: wire_protocols_def)
  have keys: "PROTO_ALPN = char_of (length ''h2'') # ''h2''" "HTTP_1_1_ALPN = char_of (length ''http/1.1'') # ''http/1.1''"
    by code_simp+
  have sel: "select_next_protocol inp (length inp) (char_of (length p) # p) \<noteq> None" if "p \<noteq> []" "length p < 256" for p
    using select_loop_at[of "[]" ns p] ns that unfolding select_next_protocol_def append_Nil list.size ns(1) by simp
  obtain r1 o1 where s1: "select_next_protocol inp (length inp) PROTO_ALPN = Some (r1, o1)"
    using sel[of "''h2''"] unfolding keys by force
  obtain r2 o2 where s2: "select_next_protocol inp (length inp) HTTP_1_1_ALPN = Some (r2, o2)"
    using sel[of "''http/1.1''"] unfolding keys by force
  show ?thesis
    unfolding alpn_select_next_proto_cb_def using s1 s2 by (auto simp: set_alpn_def set_alpn_result_def checks_host_def Let_def)
qed

context tls_shake
begin

lemma npn_answer_ends:
  "\<exists>c1 answer. npn_answer ssl h c os = Some (c1, answer) \<and> m_tls c1 = m_tls c \<and> m_tls_state c1 = m_tls_state c \<and>
    checks_host c1 = checks_host c"
proof (cases "ssl_npn ssl h os")
  case (Some inp)
  show ?thesis using alpn_callback_ends[OF npn[OF Some], of c] Some by (auto simp: npn_answer_def)
qed (simp add: npn_answer_def)

lemma tls_connect_states:
  assumes "m_tls c = Some h"
  shows "\<exists>r c' w'. tls_connect ssl (c, w) = Some (r, c', w') \<and> m_tls c' = Some h \<and> checks_host c' = checks_host c \<and>
    (r = NC_STATUS_OK \<and> m_tls_state c' = TLS_STATE_CONNECTED \<or> r = NC_STATUS_AGAIN \<and> tls_waits c' \<or> r = NC_STATUS_ERROR)"
proof -
  obtain c1 answer where n: "npn_answer ssl h (c\<lparr>m_tls_state := TLS_STATE_TLS_CONNECTING\<rparr>) (w_os w) = Some (c1, answer)"
    "m_tls c1 = Some h" "checks_host c1 = checks_host c"
    using npn_answer_ends[of h "c\<lparr>m_tls_state := TLS_STATE_TLS_CONNECTING\<rparr>" "w_os w"] assms by (auto simp: checks_host_def)
  obtain r w1 where r: "on_os (ssl_connect ssl h answer) w = (r, w1)" by fastforce
  have le: "r \<le> 1" using handshake[of h answer "w_os w"] r by (simp add: on_os_def split: prod.splits)
  obtain e w2 where e: "on_os (ssl_get_error ssl h r) w1 = (e, w2)" by fastforce
  obtain c3 w4 where err: "tls_connect_error ssl r e c1 w2 = (c3, w4)" by fastforce
  have c3: "m_tls c3 = Some h" "checks_host c3 = checks_host c"
    using err n(2,3) by (auto simp: tls_connect_error_def conn_error_def checks_host_def split: if_splits prod.splits)
  have "tls_connect ssl (c, w) =
      (if r \<le> 0
       then Some (if e = SSL_ERROR_WANT_READ then (NC_STATUS_AGAIN, c1\<lparr>m_tls_state := TLS_STATE_TLS_CONNECTING_WANT_READ\<rparr>, w2)
         else if e = SSL_ERROR_WANT_WRITE then (NC_STATUS_AGAIN, c1\<lparr>m_tls_state := TLS_STATE_TLS_CONNECTING_WANT_WRITE\<rparr>, w2)
         else (NC_STATUS_ERROR, c3, w4))
       else Some (NC_STATUS_OK, if r = 1 then c1\<lparr>m_tls_state := TLS_STATE_CONNECTED\<rparr> else c1, w1))"
    using n(1) r e err assms unfolding tls_connect_def by (cases e) simp_all
  then show ?thesis using le n(2,3) c3 by (auto simp: tls_waits_def checks_host_def)
qed

lemma tls_finish_states:
  assumes "m_tls c = Some h"
  shows "\<exists>r c' w'. tls_finish ssl (c, w) = Some (r, c', w') \<and> m_tls c' = Some h \<and> m_tls_state c' = m_tls_state c \<and>
    checks_host c' = checks_host c \<and> (if checks_host c then r = NC_STATUS_ERROR
      else r = NC_STATUS_OK \<and> w' = w \<and> nc_alpn c' = (if selects_h2 (ssl_alpn_selected ssl h (w_os w)) then ALPN_HTTP_VER_V2 else ALPN_HTTP_VER_V1_1))"
proof (cases "checks_host c")
  case True
  obtain cert w1 where w1: "on_os (ssl_get_peer_certificate ssl h) w = (cert, w1)" by fastforce
  have "tls_finish ssl (c, w) = Some (NC_STATUS_ERROR, conn_error CONN_STATUS_ERROR_CONNECT_TLS_HOST c, w1)"
    using assms True w1 by (simp add: tls_finish_def checks_host_def validate_host_fails Let_def)
  then show ?thesis using assms True by (simp add: conn_error_def checks_host_def)
next
  case False
  have "tls_finish ssl (c, w) = Some (NC_STATUS_OK,
      set_alpn (if selects_h2 (ssl_alpn_selected ssl h (w_os w)) then ALPN_HTTP_VER_V2 else ALPN_HTTP_VER_V1_1) c, w)"
    using assms False by (auto simp: tls_finish_def checks_host_def selects_h2_def Let_def)
  then show ?thesis using assms False by (auto simp: set_alpn_def checks_host_def)
qed

text \<open>What a connect comes to, with the protocol of a connection that is up.\<close>

definition shaken :: "nat \<Rightarrow> bool \<Rightarrow> int \<Rightarrow> 'c nconn_tls_scheme \<Rightarrow> ('d, 'o, 'm) evr_world_scheme \<Rightarrow> bool" where
  "shaken h chk r c w \<longleftrightarrow> m_tls c = Some h \<and>
     (r = NC_STATUS_ERROR \<or>
      r = NC_STATUS_OK \<and> (tls_is_connecting c \<or> m_tls_state c = TLS_STATE_CONNECTED \<and> \<not> chk \<and>
        nc_alpn c = (if selects_h2 (ssl_alpn_selected ssl h (w_os w)) then ALPN_HTTP_VER_V2 else ALPN_HTTP_VER_V1_1)))"

lemma tls_shakes:
  assumes "m_tls c = Some h" "tls_is_connecting c" "m_tls_state c \<noteq> TLS_STATE_CONNECTING"
  shows "\<exists>r c' w'. tls_ncconnect sys ssl p (c, w) = Some (r, c', w') \<and> shaken h (checks_host c) r c' w'"
proof -
  obtain r c1 w1 where k: "tls_connect ssl (c, w) = Some (r, c1, w1)" "m_tls c1 = Some h" "checks_host c1 = checks_host c"
    "r = NC_STATUS_OK \<and> m_tls_state c1 = TLS_STATE_CONNECTED \<or> r = NC_STATUS_AGAIN \<and> tls_waits c1 \<or> r = NC_STATUS_ERROR"
    using tls_connect_states[OF assms(1)] by blast
  have e: "tls_ncconnect sys ssl p (c, w) =
      (if r = NC_STATUS_AGAIN then Some (NC_STATUS_OK, c1, w1)
       else if r \<noteq> NC_STATUS_OK then Some (NC_STATUS_ERROR, c1, w1) else tls_ncconnect sys ssl p (c1, w1))"
    using assms(2,3) k(1) by (subst tls_ncconnect.simps) (auto simp: tls_is_connecting_def)
  consider "r = NC_STATUS_OK" "m_tls_state c1 = TLS_STATE_CONNECTED" | "r = NC_STATUS_AGAIN" "tls_waits c1" | "r = NC_STATUS_ERROR"
    using k(4) by blast
  then show ?thesis
  proof cases
    case 1
    have "tls_ncconnect sys ssl p (c1, w1) = tls_finish ssl (c1, w1)" using 1(2) by (subst tls_ncconnect.simps) simp
    then show ?thesis
      using e 1 k(3) tls_finish_states[OF k(2), of w1] by (auto simp: shaken_def nc_status_defs split: if_splits)
  next
    case 2
    then show ?thesis using e k(2) by (auto simp: shaken_def nc_status_defs tls_waits_def tls_is_connecting_def)
  next
    case 3
    then show ?thesis using e k(2) by (auto simp: shaken_def nc_status_defs)
  qed
qed

lemma tls_ncconnect_states:
  assumes "m_tls c = Some h" "fd_store w p = Some f" "tls_is_connecting c"
  shows "\<exists>r c' w'. tls_ncconnect sys ssl p (c, w) = Some (r, c', w') \<and> shaken h (checks_host c) r c' w'"
proof (cases "m_tls_state c = TLS_STATE_CONNECTING")
  case True
  obtain r c1 w1 where t: "tcp_ncconnect sys p (c, w) = Some (r, c1, w1)"
    using framedD[OF tcp_ncconnect_framed assms(2), of sys c] by blast
  note m = more_fields[OF tcp_ncconnect_more[OF t]]
  define c2 where "c2 = c1\<lparr>m_tls_state := TLS_STATE_TLS_CONNECTING\<rparr>"
  have c2: "m_tls c2 = Some h" "tls_is_connecting c2" "m_tls_state c2 \<noteq> TLS_STATE_CONNECTING" "checks_host c2 = checks_host c"
    using m assms(1) by (simp_all add: c2_def tls_is_connecting_def checks_host_def)
  have e: "tls_ncconnect sys ssl p (c, w) =
      (if r = NC_STATUS_ERROR then Some (NC_STATUS_ERROR, c1, w1)
       else if is_connecting c1 then Some (NC_STATUS_OK, c1, w1) else tls_ncconnect sys ssl p (c2, w1))"
    using True t by (subst tls_ncconnect.simps) (simp add: c2_def)
  have c1: "m_tls c1 = Some h" "tls_is_connecting c1" using m assms(1) True by (simp_all add: tls_is_connecting_def)
  show ?thesis using e c1 tls_shakes[OF c2(1-3), of sys p w1] c2(4) by (auto simp: shaken_def)
next
  case False
  then show ?thesis using tls_shakes[OF assms(1,3)] by blast
qed

end

context tls_lib
begin

lemma tls_connect_ok:
  assumes "m_tls c = Some h"
  shows "\<exists>r c' w'. tls_connect ssl (c, w) = Some (r, c', w') \<and> tls_frame c c' \<and> os_only w w' \<and>
    m_tls c' = Some h \<and> checks_host c' = checks_host c \<and>
    (r = NC_STATUS_OK \<and> m_tls_state c' = TLS_STATE_CONNECTED \<or> r = NC_STATUS_AGAIN \<and> tls_waits c' \<or> r = NC_STATUS_ERROR)"
proof -
  define c1 where "c1 = c\<lparr>m_tls_state := TLS_STATE_TLS_CONNECTING\<rparr>"
  have c1: "tls_frame c c1" "m_tls c1 = Some h" "checks_host c1 = checks_host c"
    using assms by (simp_all add: c1_def tls_frame_upd checks_host_def)
  obtain r w1 where r: "on_os (ssl_connect ssl h None) w = (r, w1)" by fastforce
  have le: "r \<le> 1" using handshake[of h None "w_os w"] r by (simp add: on_os_def split: prod.splits)
  obtain e w2 where e: "on_os (ssl_get_error ssl h r) w1 = (e, w2)" by fastforce
  have os: "os_only w w1" "os_only w w2" using os_only_call[OF r] os_only_trans[OF os_only_call[OF r] os_only_call[OF e]] by simp_all
  obtain v w3 where v: "on_os (err_get_error ssl) w2 = (v, w3)" by fastforce
  have os3: "os_only w w3" by (rule os_only_trans[OF os(2) os_only_call[OF v]])
  obtain c3 w4 where err: "tls_connect_error ssl r e c1 w2 = (c3, w4)" by fastforce
  have c3: "c3 \<in> {conn_error CONN_STATUS_ERROR_CONNECT_TLS (c1\<lparr>m_last_err := v\<rparr>), conn_error CONN_STATUS_ERROR_CONNECT_TLS c1, c1\<lparr>m_last_err := v\<rparr>}"
    "w4 \<in> {w2, w3}"
    using err v by (auto simp: tls_connect_error_def split: if_splits)
  have f3: "tls_frame c c3" using c3(1) c1(1) tls_frame_trans tls_frame_upd by blast
  have m3: "m_tls c3 = Some h" "checks_host c3 = checks_host c" using c3(1) c1(2,3) by (auto simp: conn_error_def checks_host_def)
  have o4: "os_only w w4" using c3(2) os(2) os3 by auto
  have st: "tls_frame c (c1\<lparr>m_tls_state := x\<rparr>)" "m_tls (c1\<lparr>m_tls_state := x\<rparr>) = Some h" "checks_host (c1\<lparr>m_tls_state := x\<rparr>) = checks_host c" for x
    using tls_frame_trans[OF c1(1) tls_frame_upd(2)] c1(2,3) by (simp_all add: checks_host_def)
  have n: "npn_answer ssl h c1 (w_os w) = Some (c1, None)" by (simp add: npn_answer_def no_npn)
  have "tls_connect ssl (c, w) =
      (if r \<le> 0
       then Some (if e = SSL_ERROR_WANT_READ then (NC_STATUS_AGAIN, c1\<lparr>m_tls_state := TLS_STATE_TLS_CONNECTING_WANT_READ\<rparr>, w2)
         else if e = SSL_ERROR_WANT_WRITE then (NC_STATUS_AGAIN, c1\<lparr>m_tls_state := TLS_STATE_TLS_CONNECTING_WANT_WRITE\<rparr>, w2)
         else (NC_STATUS_ERROR, c3, w4))
       else Some (NC_STATUS_OK, if r = 1 then c1\<lparr>m_tls_state := TLS_STATE_CONNECTED\<rparr> else c1, w1))"
    using n r e err assms unfolding tls_connect_def c1_def by (cases e) simp_all
  then show ?thesis
    using le os o4 f3 m3 st by (auto simp: tls_waits_def)
qed

lemma tls_finish_ok:
  assumes "m_tls c = Some h"
  shows "\<exists>r c' w'. tls_finish ssl (c, w) = Some (r, c', w') \<and> tls_frame c c' \<and> os_only w w' \<and>
    m_tls c' = Some h \<and> m_tls_state c' = m_tls_state c \<and> checks_host c' = checks_host c \<and>
    r = (if checks_host c then NC_STATUS_ERROR else NC_STATUS_OK)"
proof (cases "checks_host c")
  case True
  obtain cert w1 where w1: "on_os (ssl_get_peer_certificate ssl h) w = (cert, w1)" by fastforce
  have "tls_finish ssl (c, w) = Some (NC_STATUS_ERROR, conn_error CONN_STATUS_ERROR_CONNECT_TLS_HOST c, w1)"
    using assms True w1 by (simp add: tls_finish_def checks_host_def validate_host_fails Let_def)
  then show ?thesis using os_only_call[OF w1] assms True by (simp add: tls_frame_upd) (simp add: conn_error_def checks_host_def)
next
  case False
  have "tls_finish ssl (c, w) = Some (NC_STATUS_OK, set_alpn ALPN_HTTP_VER_V1_1 c, w)"
    using assms False http1[of h "w_os w"] http1_is_not_h2 by (auto simp: tls_finish_def checks_host_def Let_def)
  moreover have "tls_frame c (set_alpn ALPN_HTTP_VER_V1_1 c)" by (simp add: tls_frame_def conn_frame_def set_alpn_def)
  ultimately show ?thesis using assms False by (auto simp: set_alpn_def checks_host_def)
qed

lemma tls_ncconnect_shakes:
  assumes "m_tls c = Some h" "tls_is_connecting c" "m_tls_state c \<noteq> TLS_STATE_CONNECTING"
  shows "\<exists>r c' w'. tls_ncconnect sys ssl p (c, w) = Some (r, c', w') \<and> tls_frame c c' \<and> os_only w w' \<and>
    connect_ends (Some h) (checks_host c) r c'"
proof -
  obtain r c1 w1 where k: "tls_connect ssl (c, w) = Some (r, c1, w1)" "tls_frame c c1" "os_only w w1" "m_tls c1 = Some h"
    "checks_host c1 = checks_host c"
    "r = NC_STATUS_OK \<and> m_tls_state c1 = TLS_STATE_CONNECTED \<or> r = NC_STATUS_AGAIN \<and> tls_waits c1 \<or> r = NC_STATUS_ERROR"
    using tls_connect_ok[OF assms(1)] by blast
  have e: "tls_ncconnect sys ssl p (c, w) =
      (if r = NC_STATUS_AGAIN then Some (NC_STATUS_OK, c1, w1)
       else if r \<noteq> NC_STATUS_OK then Some (NC_STATUS_ERROR, c1, w1) else tls_ncconnect sys ssl p (c1, w1))"
    using assms(2,3) k(1) by (subst tls_ncconnect.simps) (auto simp: tls_is_connecting_def)
  consider "r = NC_STATUS_OK" "m_tls_state c1 = TLS_STATE_CONNECTED" | "r = NC_STATUS_AGAIN" "tls_waits c1" | "r = NC_STATUS_ERROR"
    using k(6) by blast
  then show ?thesis
  proof cases
    case 1
    obtain r2 c2 w2 where f: "tls_finish ssl (c1, w1) = Some (r2, c2, w2)" "tls_frame c1 c2" "os_only w1 w2"
      "m_tls c2 = Some h" "m_tls_state c2 = m_tls_state c1" "checks_host c2 = checks_host c1"
      "r2 = (if checks_host c1 then NC_STATUS_ERROR else NC_STATUS_OK)"
      using tls_finish_ok[OF k(4)] by blast
    have "tls_ncconnect sys ssl p (c1, w1) = tls_finish ssl (c1, w1)" using 1(2) by (subst tls_ncconnect.simps) simp
    then show ?thesis
      using e 1 f k tls_frame_trans[OF k(2) f(2)] os_only_trans[OF k(3) f(3)]
      by (auto simp: connect_ends_def nc_status_defs)
  next
    case 2
    then show ?thesis using e k by (auto simp: connect_ends_def nc_status_defs tls_waits_def tls_is_connecting_def)
  next
    case 3
    then show ?thesis using e k by (auto simp: connect_ends_def nc_status_defs)
  qed
qed

lemma tls_ncconnect_ok:
  assumes "m_tls c = Some h" "fd_store w p = Some f"
  shows "\<exists>r c' w'. tls_ncconnect sys ssl p (c, w) = Some (r, c', w') \<and> conn_frame c c' \<and> os_frame p w w' \<and> m_tls c' = Some h \<and>
    (tls_is_connecting c \<longrightarrow> connect_ends (Some h) (checks_host c) r c')"
proof -
  consider "m_tls_state c = TLS_STATE_CONNECTING" | "tls_is_connecting c" "m_tls_state c \<noteq> TLS_STATE_CONNECTING"
    | "m_tls_state c = TLS_STATE_CONNECTED" | "\<not> tls_is_connecting c" "m_tls_state c \<noteq> TLS_STATE_CONNECTED" by blast
  then show ?thesis
  proof cases
    case 1
    obtain r c1 w1 where t: "tcp_ncconnect sys p (c, w) = Some (r, c1, w1)" "conn_frame c c1" "os_frame p w w1"
      using framedD[OF tcp_ncconnect_framed assms(2), of sys c] by blast
    note m = more_fields[OF tcp_ncconnect_more[OF t(1)]]
    define c2 where "c2 = c1\<lparr>m_tls_state := TLS_STATE_TLS_CONNECTING\<rparr>"
    have e: "tls_ncconnect sys ssl p (c, w) =
        (if r = NC_STATUS_ERROR then Some (NC_STATUS_ERROR, c1, w1)
         else if is_connecting c1 then Some (NC_STATUS_OK, c1, w1) else tls_ncconnect sys ssl p (c2, w1))"
      using 1 t(1) by (subst tls_ncconnect.simps) (simp add: c2_def)
    have c2: "m_tls c2 = Some h" "tls_is_connecting c2" "m_tls_state c2 \<noteq> TLS_STATE_CONNECTING" "conn_frame c c2"
      "checks_host c2 = checks_host c"
      using m assms(1) t(2) by (simp_all add: c2_def tls_is_connecting_def conn_frame_def checks_host_def)
    obtain r3 c3 w3 where s: "tls_ncconnect sys ssl p (c2, w1) = Some (r3, c3, w3)" "tls_frame c2 c3" "os_only w1 w3"
      "connect_ends (Some h) (checks_host c2) r3 c3"
      using tls_ncconnect_shakes[OF c2(1-3)] by blast
    obtain f1 where f1: "fd_store w1 p = Some f1" using os_frame_alloc[OF t(3)] by blast
    have fr: "conn_frame c c3" "os_frame p w w3"
      using conn_frame_trans[OF c2(4)] s(2) os_frame_trans[OF t(3)] os_only_frame[OF s(3) f1] by (simp_all add: tls_frame_def)
    have "m_tls c3 = Some h" using s(4) by (simp add: connect_ends_def)
    moreover have "connect_ends (Some h) (checks_host c) r' c1" if "r' = NC_STATUS_ERROR \<or> r' = NC_STATUS_OK \<and> is_connecting c1" for r'
      using m assms(1) that 1 by (auto simp: connect_ends_def checks_host_def tls_is_connecting_def)
    ultimately show ?thesis using e t m s c2(5) fr assms(1) by auto
  next
    case 2
    from tls_ncconnect_shakes[OF assms(1) this] show ?thesis
      using os_only_frame[OF _ assms(2)] by (fastforce simp: tls_frame_def connect_ends_def)
  next
    case 3
    obtain r2 c2 w2 where f: "tls_finish ssl (c, w) = Some (r2, c2, w2)" "tls_frame c c2" "os_only w w2" "m_tls c2 = Some h"
      using tls_finish_ok[OF assms(1)] by blast
    have "tls_ncconnect sys ssl p (c, w) = tls_finish ssl (c, w)" using 3 by (subst tls_ncconnect.simps) simp
    then show ?thesis using f 3 os_only_frame[OF f(3) assms(2)] by (simp add: tls_frame_def tls_is_connecting_def)
  next
    case 4
    then have "tls_ncconnect sys ssl p (c, w) = Some (NC_STATUS_ERROR, c, w)"
      by (subst tls_ncconnect.simps) (auto simp: tls_is_connecting_def)
    then show ?thesis using 4 assms os_frame_refl by auto
  qed
qed

end

lemma tls_ncsetup_framed:
  fixes sys :: "'o sys_env"
  assumes "tls_lib ssl"
  shows "framed_when p (\<lambda>_. True) (\<lambda>r c. r = NC_STATUS_OK \<longrightarrow> m_tls c \<noteq> None) (tls_ncsetup sys ssl p :: ('a, 'c, 'o, 'm) tls_op)"
proof (rule framed_whenI)
  fix c :: "'a nconn_tls_scheme" and w :: "('c, 'o, 'm) evr_world_scheme" and f
  assume f: "fd_store w p = Some f"
  obtain r c1 w1 where t: "tcp_ncsetup sys p (c, w) = Some (r, c1, w1)" "conn_frame c c1" "os_frame p w w1"
    using framedD[OF tcp_ncsetup_framed f, of sys c] by blast
  obtain r2 c2 w2 where i: "tls_init ssl p (c1, w1) = Some (r2, c2, w2)" "tls_frame c1 c2" "os_only w1 w2" "r2 = NC_STATUS_OK \<longrightarrow> m_tls c2 \<noteq> None"
    using tls_init_ok[OF tls_lib.fresh[OF assms]] by blast
  obtain f1 where f1: "fd_store w1 p = Some f1" using os_frame_alloc[OF t(3)] by blast
  have "tls_frame c1 (c2\<lparr>m_tls_state := x\<rparr>)" for x by (rule tls_frame_trans[OF i(2) tls_frame_upd(2)])
  then have fr: "conn_frame c c2" "conn_frame c (c2\<lparr>m_tls_state := x\<rparr>)" "os_frame p w w2" for x
    using conn_frame_trans[OF t(2)] i(2) os_frame_trans[OF t(3)] os_only_frame[OF i(3) f1]
    by (auto simp: tls_frame_def)
  show "\<exists>r c' w'. tls_ncsetup sys ssl p (c, w) = Some (r, c', w') \<and> conn_frame c c' \<and> os_frame p w w' \<and> (r = NC_STATUS_OK \<longrightarrow> m_tls c' \<noteq> None)"
    using t fr i by (auto simp: tls_ncsetup_def nc_status_defs)
qed

lemma tls_ncconnect_framed:
  fixes sys :: "'o sys_env"
  assumes "tls_lib ssl"
  shows "framed_when p (\<lambda>c. m_tls c \<noteq> None) (\<lambda>_ c. m_tls c \<noteq> None) (tls_ncconnect sys ssl p :: ('a, 'c, 'o, 'm) tls_op)"
  by (rule framed_whenI) (use tls_lib.tls_ncconnect_ok[OF assms] in fastforce)

lemma tls_nccleanup_framed:
  fixes sys :: "'o sys_env"
  shows "framed p (tls_nccleanup sys ssl p :: ('a, 'c, 'o, 'm) tls_op)"
proof (rule framedI)
  fix c :: "'a nconn_tls_scheme" and w :: "('c, 'o, 'm) evr_world_scheme" and f
  assume f: "fd_store w p = Some f"
  define w1 where "w1 = (case m_tls c of None \<Rightarrow> w | Some h \<Rightarrow> os_do (ssl_free ssl h) w)"
  have "os_only w w1" by (simp add: w1_def os_only_do split: option.splits)
  then have w1: "os_frame p w w1" "fd_store w1 p = Some f" using os_only_frame f by blast+
  let ?c = "c\<lparr>m_tls := None, m_tls_state := TLS_STATE_NONE\<rparr>"
  obtain r c' w' where t: "tcp_nccleanup sys p (?c, w1) = Some (r, c', w')" "conn_frame ?c c'" "os_frame p w1 w'"
    using framedD[OF tcp_nccleanup_framed w1(2), of sys ?c] by blast
  have "conn_frame c c'" using t(2) by (simp add: conn_frame_def)
  then show "\<exists>r c' w'. tls_nccleanup sys ssl p (c, w) = Some (r, c', w') \<and> conn_frame c c' \<and> os_frame p w w'"
    using t os_frame_trans[OF w1(1)] by (auto simp: tls_nccleanup_def w1_def[symmetric])
qed

section \<open>The library as a transport\<close>

text \<open>
  What the library promises for the data of an object: \<open>rxq h\<close> are the bytes still to be
  read from it and \<open>txq h\<close> those it has accepted.  A read or a write whose result is not
  positive was not successful and moves nothing.
\<close>

locale tls_plain =
  fixes ssl :: "'o ssl_env" and rxq :: "nat \<Rightarrow> 'o \<Rightarrow> byte list" and txq :: "nat \<Rightarrow> 'o \<Rightarrow> byte list"
  assumes read_bytes: "ssl_read ssl h len os = (r, e, bs, os') \<Longrightarrow>
      txq h os' = txq h os \<and> rxq h os = (if 0 < r then bs else []) @ rxq h os' \<and> (0 < r \<longrightarrow> length bs = nat r \<and> nat r \<le> len)"
    and write_bytes: "ssl_write ssl h buf os = (r, os') \<Longrightarrow>
      rxq h os' = rxq h os \<and> txq h os' = txq h os @ take (nat r) buf \<and> nat r \<le> length buf"
    and error_bytes: "ssl_get_error ssl h r os = (te, os') \<Longrightarrow> rxq h os' = rxq h os \<and> txq h os' = txq h os"

text \<open>A read and a write of a connection, with the calls they make.\<close>

lemma tls_ncread_calls:
  assumes "m_tls c = Some h"
  shows "\<exists>r e bs os te os2 r' os'. ssl_read ssl h len (w_os w) = (r, e, bs, os) \<and> ssl_get_error ssl h r os = (te, os2) \<and>
    tls_ncread ssl p len (c, w) = Some (r', bs, c, w\<lparr>w_os := os'\<rparr>) \<and> r' \<noteq> NC_STATUS_OK \<and>
    (if 0 < r then r' = r \<and> os' = os else r' < 0 \<and> os' = os2)"
proof -
  obtain r e bs os where k: "ssl_read ssl h len (w_os w) = (r, e, bs, os)" by (metis prod_cases4)
  obtain te os2 where g: "ssl_get_error ssl h r os = (te, os2)" by fastforce
  show ?thesis using assms k g by (auto simp: tls_ncread_def on_os_def nc_status_defs)
qed

lemma tls_ncwrite_calls:
  assumes "m_tls c = Some h"
  shows "\<exists>r os te os2 r' c' os'. ssl_write ssl h buf (w_os w) = (r, os) \<and> ssl_get_error ssl h r os = (te, os2) \<and>
    tls_ncwrite ssl p buf (c, w) = Some (r', c', w\<lparr>w_os := os'\<rparr>) \<and> tls_frame c c' \<and> m_tls c' = Some h \<and>
    (if r < 0 then r' < 0 \<and> os' = os2 else r' = r \<and> os' = os)"
proof -
  obtain r os where k: "ssl_write ssl h buf (w_os w) = (r, os)" by fastforce
  obtain te os2 where g: "ssl_get_error ssl h r os = (te, os2)" by fastforce
  show ?thesis using assms k g tls_frame_upd(1)[of c]
    by (auto simp: tls_ncwrite_def on_os_def nc_status_defs conn_error_def)
qed

sublocale tls_plain \<subseteq> tls: nc_stream "tls_virt sys ssl" p "\<lambda>s. m_tls (fst s) = Some h"
    "\<lambda>s. rxq h (w_os (snd s))" "\<lambda>s. txq h (w_os (snd s))" for sys p h
proof (unfold_locales, goal_cases)
  case (1 s len)
  obtain c w where s: "s = (c, w)" by (cases s)
  from 1 s tls_ncread_calls[of c h ssl len w p] obtain r e bs os te os2 r' os' where
    k: "ssl_read ssl h len (w_os w) = (r, e, bs, os)" "ssl_get_error ssl h r os = (te, os2)"
    "tls_ncread ssl p len (c, w) = Some (r', bs, c, w\<lparr>w_os := os'\<rparr>)" "r' \<noteq> NC_STATUS_OK"
    "if 0 < r then r' = r \<and> os' = os else r' < 0 \<and> os' = os2" by auto
  show ?case
    using k read_bytes[OF k(1)] error_bytes[OF k(2)] s 1 by (cases "0 < r") (auto simp: tls_virt_def)
next
  case (2 s buf)
  obtain c w where s: "s = (c, w)" by (cases s)
  from 2 s tls_ncwrite_calls[of c h ssl buf w p] obtain r os te os2 r' c' os' where
    k: "ssl_write ssl h buf (w_os w) = (r, os)" "ssl_get_error ssl h r os = (te, os2)"
    "tls_ncwrite ssl p buf (c, w) = Some (r', c', w\<lparr>w_os := os'\<rparr>)" "m_tls c' = Some h"
    "if r < 0 then r' < 0 \<and> os' = os2 else r' = r \<and> os' = os" by auto
  show ?case
    using k write_bytes[OF k(1)] error_bytes[OF k(2)] s by (cases "r < 0") (auto simp: tls_virt_def)
next
  case (3 s len r' bs s')
  obtain c w where s: "s = (c, w)" by (cases s)
  from 3 s tls_ncread_calls[of c h ssl len w p] obtain r e bs0 os te os2 r1 os' where
    k: "ssl_read ssl h len (w_os w) = (r, e, bs0, os)" "ssl_get_error ssl h r os = (te, os2)"
    "tls_ncread ssl p len (c, w) = Some (r1, bs0, c, w\<lparr>w_os := os'\<rparr>)"
    "if 0 < r then r1 = r \<and> os' = os else r1 < 0 \<and> os' = os2" by auto
  show ?case
    using k read_bytes[OF k(1)] error_bytes[OF k(2)] s 3 by (cases "0 < r") (auto simp: tls_virt_def)
next
  case (4 s buf r' s')
  obtain c w where s: "s = (c, w)" by (cases s)
  from 4 s tls_ncwrite_calls[of c h ssl buf w p] obtain r os te os2 r1 c' os' where
    k: "ssl_write ssl h buf (w_os w) = (r, os)" "ssl_get_error ssl h r os = (te, os2)"
    "tls_ncwrite ssl p buf (c, w) = Some (r1, c', w\<lparr>w_os := os'\<rparr>)"
    "if r < 0 then r1 < 0 \<and> os' = os2 else r1 = r \<and> os' = os" by auto
  show ?case
    using k write_bytes[OF k(1)] error_bytes[OF k(2)] s 4 by (cases "r < 0") (auto simp: tls_virt_def)
qed

text \<open>
  For the state machine: \<open>rem\<close> is the number of bytes that the connections, of either kind,
  are still to receive.
\<close>

locale tls_io = tls_lib ssl + tcp_io sys "\<lambda>_. rem"
  for ssl :: "'o ssl_env" and sys :: "'o sys_env" and rem :: "'o \<Rightarrow> nat" +
  assumes ssl_recv: "ssl_read ssl h len os = (r, e, bs, os') \<Longrightarrow>
      (if 0 < r then length bs = nat r \<and> nat r \<le> len \<and> rem os' + nat r = rem os else rem os' = rem os)"
    and ssl_send: "ssl_write ssl h buf os = (r, os') \<Longrightarrow> rem os' = rem os \<and> nat r \<le> length buf \<and> (buf \<noteq> [] \<longrightarrow> r \<noteq> 0)"
    and ssl_err: "ssl_get_error ssl h r os = (te, os') \<Longrightarrow> rem os' = rem os"
begin

lemma tls_up:
  "nc_io (tls_virt sys ssl) p (\<lambda>s. m_fd (fst s) = fd \<and> conn_frame c0 (fst s) \<and> os_frame p w0 (snd s) \<and> m_tls (fst s) \<noteq> None)
     (\<lambda>s. rem (w_os (snd s)))"
proof (rule nc_ioI, goal_cases)
  case (1 s len)
  obtain c w h where s: "s = (c, w)" "m_tls c = Some h" using 1 by (cases s) auto
  obtain f where f: "fd_store w p = Some f" using 1 s os_frame_alloc by force
  from tls_ncread_calls[OF s(2), of ssl len w p] obtain r e bs os te os2 r' os' where
    k: "ssl_read ssl h len (w_os w) = (r, e, bs, os)" "ssl_get_error ssl h r os = (te, os2)"
    "tls_ncread ssl p len (c, w) = Some (r', bs, c, w\<lparr>w_os := os'\<rparr>)" "r' \<noteq> NC_STATUS_OK"
    "if 0 < r then r' = r \<and> os' = os else r' < 0 \<and> os' = os2" by auto
  have "os_frame p w0 (w\<lparr>w_os := os'\<rparr>)" using 1 s os_frame_trans[OF _ os_frame_os[OF f]] by simp
  then show ?case
    using k ssl_recv[OF k(1)] ssl_err[OF k(2)] s 1 by (cases "0 < r") (auto simp: tls_virt_def)
next
  case (2 s buf)
  obtain c w h where s: "s = (c, w)" "m_tls c = Some h" using 2 by (cases s) auto
  obtain f where f: "fd_store w p = Some f" using 2 s os_frame_alloc by force
  from tls_ncwrite_calls[OF s(2), of ssl buf w p] obtain r os te os2 r' c' os' where
    k: "ssl_write ssl h buf (w_os w) = (r, os)" "ssl_get_error ssl h r os = (te, os2)"
    "tls_ncwrite ssl p buf (c, w) = Some (r', c', w\<lparr>w_os := os'\<rparr>)" "tls_frame c c'" "m_tls c' = Some h"
    "if r < 0 then r' < 0 \<and> os' = os2 else r' = r \<and> os' = os" by blast
  have "os_frame p w0 (w\<lparr>w_os := os'\<rparr>)" using 2 s os_frame_trans[OF _ os_frame_os[OF f]] by simp
  moreover have "conn_frame c0 c'" "m_fd c' = fd" using 2 s k(4) conn_frame_trans by (auto simp: tls_frame_def)
  ultimately show ?case
    using k ssl_send[OF k(1)] ssl_err[OF k(2)] s 2 by (cases "r < 0") (auto simp: tls_virt_def)
qed

end

context tls_plain
begin

lemma tls_io_run:
  assumes "m_tls c = Some h" "nbq_inv iq" "rd_inv oq" "m_cur_write_offset iq + length (rxq h (w_os w)) < 2 ^ 64"
  shows "\<exists>iq' oq' c' w'. io_run (tls_virt sys ssl) p ops (iq, oq, c, w) = Some (iq', oq', c', w') \<and>
    nbq_inv iq' \<and> rd_inv oq' \<and>
    unread iq' @ rxq h (w_os w') = unread iq @ rxq h (w_os w) \<and> txq h (w_os w') @ unread oq' = txq h (w_os w) @ unread oq"
proof -
  have "m_tls (fst (c, w)) = Some h" using assms(1) by simp
  from tls.io_run_stream[OF this] assms show ?thesis by fastforce
qed

end

section \<open>Properties\<close>

text \<open>
  C20: Whatever the order of reads and writes of a TLS connection, and however short those of
  the library are, no byte is lost, duplicated or reordered between the queues and the
  library, and no operation is undefined; a write that is not successful, with the result 0
  or an error, takes nothing from the queue.
\<close>

theorem tls_stream_fidelity:
  assumes "tls_plain ssl rxq txq" "m_tls c = Some h" "nbq_inv iq" "rd_inv oq"
    "m_cur_write_offset iq + length (rxq h (w_os w)) < 2 ^ 64"
  shows "\<exists>iq' oq' c' w'. io_run (tls_virt sys ssl) p ops (iq, oq, c, w) = Some (iq', oq', c', w') \<and>
    nbq_inv iq' \<and> rd_inv oq' \<and>
    unread iq' @ rxq h (w_os w') = unread iq @ rxq h (w_os w) \<and> txq h (w_os w') @ unread oq' = txq h (w_os w) @ unread oq"
  by (rule tls_plain.tls_io_run[OF assms])

text \<open>The socket of the examples of TCP with a library that passes the bytes on and refuses every other write.\<close>

definition demo_ssl :: "demo_os ssl_env" where
  "demo_ssl = \<lparr>ssl_new = (\<lambda>_ s. (Some 1, s)), ssl_free = (\<lambda>_ s. s), ssl_set_fd = (\<lambda>_ _ s. s), ssl_set_ex_data = (\<lambda>_ _ s. s),
     ssl_clear_options = (\<lambda>_ _ s. s), ssl_set_options = (\<lambda>_ n s. (n, s)), ssl_set_cipher_list = (\<lambda>_ _ s. (1, s)),
     ssl_set_tlsext_host_name = (\<lambda>_ _ s. (1, s)), ssl_set_hostflags = (\<lambda>_ s. s), ssl_set1_host = (\<lambda>_ _ s. (1, s)),
     ssl_set_verify = (\<lambda>_ _ s. s), ssl_npn = (\<lambda>_ _. None), ssl_connect = (\<lambda>_ _ s. (1, s)), ssl_accept = (\<lambda>_ s. (1, s)),
     ssl_get_error = (\<lambda>_ _ s. (SSL_ERROR_WANT_READ, s)), err_get_error = (\<lambda>s. (0, s)),
     ssl_read = (\<lambda>_ len (rx, tx, n). let k = min (min len 2) (length rx) in
        if k = 0 then (-1, EAGAIN, [], rx, tx, n) else (int k, EOTHER 0, take k rx, drop k rx, tx, n)),
     ssl_write = (\<lambda>_ buf (rx, tx, n). if buf = [] \<or> even n then (0, rx, tx, Suc n) else (1, rx, tx @ take 1 buf, Suc n)),
     ssl_get_peer_certificate = (\<lambda>_ s. (Some 0, s)), ssl_alpn_selected = (\<lambda>_ _. ''http/1.1''),
     ssl_cert_text = (\<lambda>_. []), ssl_session_text = (\<lambda>_ _. []), ssl_hostcheck = (\<lambda>_ _. True)\<rparr>"

interpretation demo_ssl: tls_plain demo_ssl "\<lambda>_. fst" "\<lambda>_ s. fst (snd s)"
  by unfold_locales (auto simp: demo_ssl_def Let_def min_def Suc_le_eq split: prod.splits if_splits)

interpretation demo_ssl_lib: tls_lib demo_ssl
  by unfold_locales (auto simp: demo_ssl_def)

definition demo_tls_conn :: nconn_tls where
  "demo_tls_conn = nconn_tls_new\<lparr>m_tls := Some 1, m_tls_state := TLS_STATE_TLS_CONNECTING\<rparr>"

theorem tls_stream_fidelity_witness:
  "\<exists>iq' oq' c' w'. io_run (tls_virt demo_env demo_ssl) 9 [Io_Read, Io_Write, Io_Write, Io_Read] (nbq_new 4, demo_q, demo_tls_conn, demo_world) =
      Some (iq', oq', c', w') \<and> nbq_inv iq' \<and> rd_inv oq' \<and>
    unread iq' @ fst (w_os w') = unread (nbq_new 4) @ ''abc'' \<and> fst (snd (w_os w')) @ unread oq' = [] @ unread demo_q"
  using tls_stream_fidelity[OF demo_ssl.tls_plain_axioms, where w = demo_world and c = demo_tls_conn and h = 1 and p = 9 and
      iq = "nbq_new 4" and oq = demo_q and sys = demo_env and ops = "[Io_Read, Io_Write, Io_Write, Io_Read]"] demo_q_inv
  by (simp add: demo_world_def demo_tls_conn_def nbq_inv_rd)

text \<open>
  C21: A connect of a TLS connection that is connecting always ends, whatever the socket and
  the library answer and whichever protocols the server offers: with an error, still
  connecting, or connected, with HTTP/2 when the server selected one of its names and HTTP/1.1
  otherwise.  It is never connected when the name of the host is to be checked, since no
  certificate has a name for it.
\<close>

theorem tls_connect_ends:
  assumes "tls_shake ssl" "fd_store w p \<noteq> None" "m_tls c = Some h" "tls_is_connecting c"
  shows "\<exists>r c' w'. tls_ncconnect sys ssl p (c, w) = Some (r, c', w') \<and> m_tls c' = Some h \<and>
    (r = NC_STATUS_ERROR \<or>
     r = NC_STATUS_OK \<and> (tls_is_connecting c' \<or> m_tls_state c' = TLS_STATE_CONNECTED \<and> \<not> checks_host c \<and>
       nc_alpn c' = (if selects_h2 (ssl_alpn_selected ssl h (w_os w')) then ALPN_HTTP_VER_V2 else ALPN_HTTP_VER_V1_1)))"
proof -
  obtain f where "fd_store w p = Some f" using assms(2) by blast
  from tls_shake.tls_ncconnect_states[OF assms(1,3) this assms(4), of sys] show ?thesis
    unfolding tls_shake.shaken_def[OF assms(1)] by blast
qed

text \<open>A server that sends its protocols, HTTP/2 among them, and selects it.\<close>

definition demo_h2_ssl :: "demo_os ssl_env" where
  "demo_h2_ssl = demo_ssl\<lparr>ssl_npn := (\<lambda>_ _. Some (wire [''http/1.1'', ''h2''])), ssl_alpn_selected := (\<lambda>_ _. ''h2'')\<rparr>"

interpretation demo_h2_ssl: tls_shake demo_h2_ssl
proof
  have "wire_protocols (wire [''http/1.1'', ''h2''])"
    unfolding wire_protocols_def
    by (intro conjI exI[of _ "[''http/1.1'', ''h2'']"]) (simp_all add: wire_def)
  then show "wire_protocols inp" if "ssl_npn demo_h2_ssl h os = Some inp" for h os inp
    using that by (auto simp: demo_h2_ssl_def)
qed (simp add: demo_h2_ssl_def demo_ssl_def)

theorem tls_connect_ends_witness:
  "\<exists>r c' w'. tls_ncconnect demo_env demo_h2_ssl 9 (demo_tls_conn, demo_world) = Some (r, c', w') \<and> m_tls c' = Some 1 \<and>
    (r = NC_STATUS_ERROR \<or> r = NC_STATUS_OK \<and> (tls_is_connecting c' \<or> m_tls_state c' = TLS_STATE_CONNECTED \<and> nc_alpn c' = ALPN_HTTP_VER_V2))"
  using tls_connect_ends[OF demo_h2_ssl.tls_shake_axioms, of demo_world 9 demo_tls_conn 1 demo_env]
  by (auto simp: demo_world_def demo_tls_conn_def tls_is_connecting_def demo_h2_ssl_def selects_h2_def strncmp_eq_def NUL_def)

text \<open>A write of which the library accepts nothing, with the result 0, counts as done and will be tried again at once.\<close>

lemma tls_write_zero:
  assumes "m_tls c = Some h" "rd_inv q" "read_avail q \<noteq> 0" "\<And>buf. ssl_write ssl h buf (w_os w) = (0, os)"
  shows "nc_write (tls_virt sys ssl) p (Some q) (c, w) = Some (NC_STATUS_OK, 0, Some q, c, w\<lparr>w_os := os\<rparr>)"
proof -
  obtain r where r: "m_cur_read_block q = At r"
    using assms(2,3) by (cases "m_cur_read_block q") (auto simp: rd_inv_def read_avail_def)
  note A = rd_inv_At[OF assms(2) r]
  define k where "k = avail (m_q q ! r)"
  have k: "b_read_avail q = Some (s32 k)" "u32 k = k"
    using rd_b_read_avail[OF assms(2) r] avail_less[OF A(2)] by (auto simp: k_def u32_id)
  have "b_read_copy k q = Some (take k (unread q))"
    by (rule rd_b_read_copy[OF assms(2) r]) (simp add: k_def)
  then show ?thesis using assms k by (simp add: nc_write_def tls_virt_def tls_ncwrite_def on_os_def)
qed

end
