(* ===== verification/Hurl_Tls.thy ===== *)
theory Hurl_Tls
  imports Nconn_Tls Hurl_Thread
begin

text \<open>
  Both classes of connections in the program: what \<^verbatim>\<open>t_hurl::create_conn\<close> makes of a request
  with either scheme, and \<^verbatim>\<open>show_tls_info\<close>.  The classes keep the contract of the state
  machine, so that a callback of a thread that talks HTTP/1 over TLS does not run into undefined
  behaviour, as long as the library does not do what the code has no answer to: \<^verbatim>\<open>SSL_new\<close> fails,
  \<^verbatim>\<open>SSL_write\<close> gives 0 for bytes that are left, or the server chooses h2.  What the code does then
  is in \<open>Nconn_Tls\<close>.
\<close>

section \<open>The classes\<close>

text \<open>A plain connection has the members of a TLS connection, which nothing of its class looks at.\<close>

definition plain_conn :: nconn_tls where
  "plain_conn = nconn_tls_new\<lparr>nc_scheme := SCHEME_TCP\<rparr>"

text \<open>A new TLS connection with the options for the request; \<open>ctx\<close> is the context made for it.\<close>

definition tls_conn_new :: "nat \<Rightarrow> request \<Rightarrow> nconn_tls" where
  "tls_conn_new ctx r = nconn_tls_new\<lparr>m_tls_ctx := if rq_tls_ctx r then Some ctx else None, m_tls_opt_sni := True,
     m_tls_opt_hostname := rq_host r\<rparr>"

lemma tls_conn_new_options:
  "do { (_, c1) \<leftarrow> tls_set_opt OPT_TLS_CTX (Opt_Object (if rq_tls_ctx r then Some ctx else None)) 8 nconn_tls_new;
        (_, c2) \<leftarrow> tls_set_opt OPT_TLS_SNI (Opt_Mem [CHR 0x01]) 1 c1;
        (_, c3) \<leftarrow> tls_set_opt OPT_TLS_HOSTNAME (Opt_Mem (rq_host r @ [NUL])) (length (rq_host r)) c2;
        Some c3 } = Some (tls_conn_new ctx r)"
  by (simp add: tls_set_opt_def set_opt_def tls_opt_defs OPT_TCP_RECV_BUF_SIZE_def OPT_TCP_SEND_BUF_SIZE_def
    OPT_TCP_NO_DELAY_def OPT_TCP_NO_LINGER_def nc_status_defs buf_bool_def buf_string_def tls_conn_new_def NUL_def)

definition ANSI_COLOR_FG_MAGENTA :: string where "ANSI_COLOR_FG_MAGENTA = CHR 0x1B # ''[01;35m''"
definition ANSI_COLOR_FG_YELLOW :: string where "ANSI_COLOR_FG_YELLOW = CHR 0x1B # ''[01;33m''"

definition tls_banner :: "string \<Rightarrow> string \<Rightarrow> string" where
  "tls_banner color title = color @ RULE @ title @ [CHR 0x0A] @ RULE @ ANSI_COLOR_OFF"

definition show_tls_info ::
  "'o ssl_env \<Rightarrow> nconn_tls \<Rightarrow> ('o, unit nconn_tls_ext, 's) hworld \<Rightarrow> int \<times> ('o, unit nconn_tls_ext, 's) hworld" where
  "show_tls_info ssl c w =
     (case nconn_get_SSL c of
        None \<Rightarrow> (STATUS_OK, w)
      | Some h \<Rightarrow>
        (case on_os (ssl_get_peer_certificate ssl h) w of
           (None, w1) \<Rightarrow> (STATUS_ERROR, w1)
         | (Some x, w1) \<Rightarrow>
           (STATUS_OK, w1\<lparr>w_out := w_out w1 @
              tls_banner ANSI_COLOR_FG_MAGENTA ''| *************** T L S   S E R V E R   C E R T I F I C A T E **************** |'' @
              ssl_cert_text ssl x @
              tls_banner ANSI_COLOR_FG_YELLOW ''|                      T L S   S E S S I O N   I N F O                         |'' @
              ssl_session_text ssl h (w_os w1)\<rparr>)))"

definition tls_class :: "'o sys_env \<Rightarrow> 'o ssl_env \<Rightarrow> nat \<Rightarrow> (unit nconn_tls_ext, ('o, unit nconn_tls_ext, 's) hworld) nc_class" where
  "tls_class sys ssl ctx = \<lparr>nk_new = tls_conn_new ctx, nk_virt = tls_virt sys ssl, nk_show_tls_info = show_tls_info ssl\<rparr>"

definition hurl_classes ::
  "'o sys_env \<Rightarrow> 'o ssl_env \<Rightarrow> nat \<Rightarrow> scheme \<Rightarrow> (unit nconn_tls_ext, ('o, unit nconn_tls_ext, 's) hworld) nc_class option" where
  "hurl_classes sys ssl ctx sch =
     (case sch of
        SCHEME_TLS \<Rightarrow> Some (tls_class sys ssl ctx)
      | SCHEME_TCP \<Rightarrow> Some \<lparr>nk_new = (\<lambda>_. plain_conn), nk_virt = tcp_virt sys, nk_show_tls_info = (\<lambda>_ w. (STATUS_OK, w))\<rparr>
      | SCHEME_NONE \<Rightarrow> None)"

text \<open>A TLS connection that is set up has its object of the library.\<close>

definition tls_members_up :: "scheme \<Rightarrow> unit nconn_tls_ext \<Rightarrow> bool" where
  "tls_members_up sch x \<longleftrightarrow> sch = SCHEME_TLS \<longrightarrow> m_tls (nconn_tcp.extend nconn_tcp_new x) \<noteq> None"

lemma extend_more: "m_tls (nconn_tcp.extend b (nconn_tcp.more (c :: nconn_tls))) = m_tls c"
  by (cases c) (simp add: nconn_tcp.defs)

lemma tls_members_up_TLS: "tls_members_up SCHEME_TLS (nconn_tcp.more c) \<longleftrightarrow> m_tls c \<noteq> None"
  by (simp add: tls_members_up_def extend_more)

lemma tls_members_up_TCP [simp]: "tls_members_up SCHEME_TCP x"
  by (simp add: tls_members_up_def)

lemma new_conns:
  "nc_scheme (tls_conn_new ctx r) = SCHEME_TLS" "nc_data (tls_conn_new ctx r) = None" "nc_state (tls_conn_new ctx r) = NC_STATE_FREE"
  "nc_alpn (tls_conn_new ctx r) = ALPN_HTTP_VER_V1_1" "nc_scheme plain_conn = SCHEME_TCP" "nc_data plain_conn = None"
  "nc_state plain_conn = NC_STATE_FREE" "nc_alpn plain_conn = ALPN_HTTP_VER_V1_1"
  by (simp_all add: tls_conn_new_def plain_conn_def nconn_tls_new_def nconn_tcp.defs nconn_tcp_new_def nconn.defs nconn_new_def)

lemma hurl_classes_cases:
  "hurl_classes sys ssl ctx sch = Some k \<Longrightarrow>
     sch = SCHEME_TLS \<and> nk_new k = tls_conn_new ctx \<and> nk_virt k = tls_virt sys ssl \<or>
     sch = SCHEME_TCP \<and> nk_new k = (\<lambda>_. plain_conn) \<and> nk_virt k = tcp_virt sys"
  by (cases sch) (auto simp: hurl_classes_def tls_class_def)

lemma hurl_conn_classes:
  fixes sys :: "'o sys_env"
  assumes "tls_io ssl sys rem" "\<And>os. rem os < 2 ^ 64"
  shows "conn_classes (hurl_classes sys ssl ctx :: scheme \<Rightarrow> (unit nconn_tls_ext, ('o, unit nconn_tls_ext, 's) hworld) nc_class option)
    (\<lambda>_. rem) tls_members_up"
proof -
  have lib: "tls_lib ssl" and tcp: "tcp_io sys (\<lambda>_. rem)" using assms(1) by (simp_all add: tls_io_def)
  show ?thesis
  proof (intro conn_classes.intro, goal_cases)
    case (1 sch k r)
    then show ?case by (auto dest!: hurl_classes_cases simp: new_conns)
  next
    case (2 sch k p)
    from hurl_classes_cases[OF 2] show ?case
      using tls_ncsetup_framed[OF lib, of p sys]
      by (auto intro!: framed_when_any[OF tcp_ncsetup_framed] simp: tls_virt_def tcp_virt_def tls_members_up_TLS)
  next
    case (3 sch k p)
    from hurl_classes_cases[OF 3] show ?case
      using tls_ncconnect_framed[OF lib, of p sys]
      by (auto intro!: framed_when_any[OF tcp_ncconnect_framed] simp: tls_virt_def tcp_virt_def tls_members_up_TLS)
  next
    case (4 sch k p)
    from hurl_classes_cases[OF 4] show ?case
      using tls_nccleanup_framed tcp_nccleanup_framed by (auto simp: tls_virt_def tcp_virt_def)
  next
    case (5 sch k p fd c0 w0)
    from hurl_classes_cases[OF 5] show ?case
      using tls_io.tls_up[OF assms(1), of p fd c0 w0] tcp_io.io_up[OF tcp, of p fd c0 w0]
      by (auto simp: tls_members_up_TLS)
  next
    case (6 fd os)
    then show ?case by (rule assms(2))
  qed
qed

section \<open>The client\<close>

locale hurl_client = tls_io ssl sys rem + h1_sessions sys "\<lambda>_. rem" cfg hx
  for ssl :: "'o ssl_env" and sys :: "'o sys_env" and rem :: "'o \<Rightarrow> nat" and cfg :: hurl_cfg and hx :: "('o, 'p) http_env"

lemma hurl_http1:
  assumes "hurl_client ssl sys rem cfg hx"
  shows "http1_client sys (\<lambda>_. rem) cfg hx (hurl_classes sys ssl ctx) tls_members_up"
proof (rule http1_client.intro)
  show "h1_sessions sys (\<lambda>_. rem) cfg hx" using assms by (simp add: hurl_client_def)
  then have "rem os < 2 ^ 64" for os by (rule h1_sessions.rx_bound)
  then show "conn_classes (hurl_classes sys ssl ctx) (\<lambda>_. rem) tls_members_up"
    using assms by (intro hurl_conn_classes) (simp_all add: hurl_client_def)
qed

definition hurl_heap ::
  "hurl_cfg \<Rightarrow> 'o sys_env \<Rightarrow> 'o ssl_env \<Rightarrow> nat \<Rightarrow> ('o, unit nconn_tls_ext, 'p http_sub) hworld \<Rightarrow> bool" where
  "hurl_heap cfg sys ssl ctx =
     heap_inv (conn_good (hurl_classes sys ssl ctx :: scheme \<Rightarrow> (unit nconn_tls_ext, ('o, unit nconn_tls_ext, 'p http_sub) hworld) nc_class option)
       tls_members_up)
       (Hurl_Machine.ready (\<lambda>s. hs_resp s \<noteq> None)) (sendable cfg)"

section \<open>The host with the library\<close>

definition host_ssl :: "host ssl_env" where
  "host_ssl = \<lparr>ssl_new = (\<lambda>_ s. (Some 1, s)), ssl_free = (\<lambda>_ s. s), ssl_set_fd = (\<lambda>_ _ s. s), ssl_set_ex_data = (\<lambda>_ _ s. s),
     ssl_clear_options = (\<lambda>_ _ s. s), ssl_set_options = (\<lambda>_ n s. (n, s)), ssl_set_cipher_list = (\<lambda>_ _ s. (1, s)),
     ssl_set_tlsext_host_name = (\<lambda>_ _ s. (1, s)), ssl_set_hostflags = (\<lambda>_ s. s), ssl_set1_host = (\<lambda>_ _ s. (1, s)),
     ssl_set_verify = (\<lambda>_ _ s. s), ssl_npn = (\<lambda>_ _. None), ssl_connect = (\<lambda>_ _ s. (1, s)), ssl_accept = (\<lambda>_ s. (1, s)),
     ssl_get_error = (\<lambda>_ _ s. (SSL_ERROR_WANT_READ, s)), err_get_error = (\<lambda>s. (0, s)),
     ssl_read = (\<lambda>_ len s. sys_recvfrom host_sys 3 len s), ssl_write = (\<lambda>_ buf s. if buf = [] then (0, s) else (1, s)),
     ssl_get_peer_certificate = (\<lambda>_ s. (Some 0, s)), ssl_alpn_selected = (\<lambda>_ _. ''http/1.1''),
     ssl_cert_text = (\<lambda>_. []), ssl_session_text = (\<lambda>_ _. []), ssl_hostcheck = (\<lambda>_ _. True)\<rparr>"

interpretation host_tls: hurl_client host_ssl host_sys "\<lambda>s. host_left (fst s)" host_cfg host_http
proof -
  have "tls_io_axioms host_ssl (\<lambda>s. host_left (fst s))"
    by unfold_locales
      (auto simp: host_ssl_def host_sys_def host_left_def Let_def min_def Suc_le_eq split: prod.splits if_splits option.splits)
  moreover have "tls_lib host_ssl" by unfold_locales (auto simp: host_ssl_def)
  ultimately show "hurl_client host_ssl host_sys (\<lambda>s. host_left (fst s)) host_cfg host_http"
    by (intro hurl_client.intro tls_io.intro host.tcp_io_axioms host.h1_sessions_axioms)
qed

text \<open>The thread of \<^const>\<open>host_world\<close> when its connection is a TLS connection past its handshake.\<close>

definition host_tls_conn :: nconn_tls where
  "host_tls_conn = nconn_tls_new\<lparr>m_fd := 3, nc_ctx := Some 0, nc_data := Some 6, nc_state := NC_STATE_CONNECTED,
     nc_evr_loop := True, m_tls_ctx := Some 0, m_tls := Some 1, m_tls_state := TLS_STATE_CONNECTED\<rparr>"

definition host_tls_world :: "(host, unit nconn_tls_ext, unit http_sub) hworld" where
  "host_tls_world = \<lparr>event_pq = [], ev_store = Map.empty, fd_store = fd_store host_world, next_addr = 7, tick = 0, evr_stopped = False,
     w_os = w_os host_world, conns = [5 \<mapsto> host_tls_conn], sessions = [6 \<mapsto> host_session], h_stopped = False, h_nconn_set = {5},
     h_stat = \<lparr>ts_stat = t_stat_cntr_new\<lparr>m_reqs := 1\<rparr>, ts_codes = []\<rparr>, h_num_in_progress = 1,
     h_orphan_in_q = nbq_new 4096, h_orphan_out_q = nbq_new 4096, h_request = get_req, h_is_initd = True,
     h_num_conn_parallel_max = 2, h_num_to_request = 10, g_test_finished = False, g_paths = g_paths host_world, w_out = []\<rparr>"

lemma host_tls_heap: "hurl_heap host_cfg host_sys host_ssl 0 host_tls_world"
proof -
  have c: "nc_ctx host_tls_conn \<noteq> None" "nc_scheme host_tls_conn = SCHEME_TLS" "nc_data host_tls_conn = Some 6"
      "nc_state host_tls_conn = NC_STATE_CONNECTED" "nc_alpn host_tls_conn \<noteq> ALPN_HTTP_VER_V2" "m_tls host_tls_conn = Some 1"
    by (simp_all add: host_tls_conn_def nconn_tls_new_def nconn_tcp.defs nconn_tcp_new_def nconn.defs nconn_new_def)
  have u: "tls_members_up SCHEME_TLS (nconn_tcp.more host_tls_conn)"
    using c by (simp add: tls_members_up_TLS)
  have s: "ses_ok 5 host_session" "Hurl_Machine.ready (\<lambda>s. hs_resp s \<noteq> None) 6 host_session"
    by (simp_all add: ses_ok_def host_session_def Hurl_Machine.ready_def out_ok_new)
  have g: "sendable host_cfg get_req (g_paths host_world)"
    using host_world_heap by (simp add: h1_heap_def heap_inv_def host_world_def)
  show ?thesis
    using c s g u unfolding hurl_heap_def heap_inv_def
    by (auto simp: host_tls_world_def host_world_def conn_ok_def conn_good_def hurl_classes_def accounted_def t_stat_cntr_new_def
      split: if_splits)
qed

section \<open>Properties\<close>

text \<open>
  The program with both its classes of connections, under \<open>tls_io\<close>: \<^verbatim>\<open>SSL_new\<close> succeeds,
  \<^verbatim>\<open>SSL_write\<close> does not give 0 for bytes that are left, and the servers speak HTTP/1.  Then, whatever
  else the kernel answers, the library does in its handshakes and transfers and the parser
  reports, a callback on a live connection returns, without undefined behaviour, and
  leaves a heap on which the next one can run.  It touches no other connection, and when it
  deletes its own it says so with STATUS_DONE.
\<close>

theorem tls_callback_keeps_heap:
  fixes w :: "('o, unit nconn_tls_ext, 'p http_sub) hworld"
  assumes "hurl_client ssl sys rem cfg hx" "hurl_heap cfg sys ssl ctx w" "conns w p \<noteq> None"
  shows "\<exists>st w'. hurl_call cfg (h1_env cfg sys (hurl_classes sys ssl ctx) hx) cb p w = Some (st, w') \<and>
    hurl_heap cfg sys ssl ctx w' \<and> (\<forall>q. q \<noteq> p \<longrightarrow> conns w' q = conns w q \<and> fd_store w' q = fd_store w q) \<and>
    (conns w' p \<noteq> None \<or> st = STATUS_DONE)"
proof -
  obtain c where c: "conns w p = Some c" using assms(3) by blast
  show ?thesis
    using http1_client.hurl_call_ok[OF hurl_http1[OF assms(1), of ctx] _ c, of cb] assms(2) unfolding hurl_heap_def by simp
qed

theorem tls_callback_keeps_heap_witness:
  "\<exists>st w'. hurl_call host_cfg (h1_env host_cfg host_sys (hurl_classes host_sys host_ssl 0) host_http) evr_fd_readable_cb 5 host_tls_world =
      Some (st, w') \<and> hurl_heap host_cfg host_sys host_ssl 0 w' \<and> (conns w' 5 \<noteq> None \<or> st = STATUS_DONE)"
  using tls_callback_keeps_heap[OF host_tls.hurl_client_axioms host_tls_heap, of 5 evr_fd_readable_cb]
  by (auto simp: host_tls_world_def)

end
