(* ===== verification/Hurl_H2.thy ===== *)
theory Hurl_H2
  imports Hurl_Tls
begin

text \<open>
  The HTTP/2 session of \<^verbatim>\<open>src/hurl/hurl.cc\<close>: class \<^verbatim>\<open>h2_session\<close> and the callbacks it gives
  to the vendored nghttp2.  The library is a parameter.  It calls back while it runs, and what
  it does next may depend on what a callback returns: a run of it is a tree, in which each
  call has a branch for each answer.  As a datatype the tree has no infinite path: a call of
  the library returns, whatever the callbacks answer.
\<close>

section \<open>The library\<close>

text \<open>
  The callbacks, with the arguments the code looks at.  A header comes with the type of its
  frame and the category of the headers; \<open>Ng_Data_Read\<close> asks for at most that many bytes.
\<close>

datatype ng_event =
    Ng_Send "byte list"
  | Ng_Frame_Recv nat
  | Ng_Frame_Send
  | Ng_Stream_Close
  | Ng_Data_Chunk "byte list"
  | Ng_Header nat nat "byte list" "byte list"
  | Ng_Begin_Headers
  | Ng_Data_Read nat

text \<open>What a callback returns; reading data gives the bytes and the flag for the end too.\<close>

record ng_answer =
  ans_ret :: int
  ans_buf :: "byte list"
  ans_eof :: bool

definition answer :: "int \<Rightarrow> ng_answer" where
  "answer r = \<lparr>ans_ret = r, ans_buf = [], ans_eof = False\<rparr>"

datatype 'n ng_run = Ng_Return int 'n | Ng_Call ng_event "ng_answer \<Rightarrow> 'n ng_run"

text \<open>The library on its session object.  A slot of the headers that is not filled in is \<^const>\<open>None\<close>.\<close>

record 'n ng_env =
  ng_client_new :: "'n option"
  ng_submit_settings :: "'n \<Rightarrow> (nat \<times> nat) list \<Rightarrow> int \<times> 'n"
  ng_submit_request :: "'n \<Rightarrow> (byte list \<times> byte list) option list \<Rightarrow> bool \<Rightarrow> int \<times> 'n"
  ng_session_send :: "'n \<Rightarrow> 'n ng_run"
  ng_session_mem_recv :: "'n \<Rightarrow> byte list \<Rightarrow> 'n ng_run"

definition NGHTTP2_HEADERS :: nat where "NGHTTP2_HEADERS = 1"
definition NGHTTP2_GOAWAY :: nat where "NGHTTP2_GOAWAY = 7"
definition NGHTTP2_HCAT_RESPONSE :: nat where "NGHTTP2_HCAT_RESPONSE = 1"
definition NGHTTP2_SETTINGS_MAX_CONCURRENT_STREAMS :: nat where "NGHTTP2_SETTINGS_MAX_CONCURRENT_STREAMS = 3"
definition NGHTTP2_ERR_TEMPORAL_CALLBACK_FAILURE :: int where "NGHTTP2_ERR_TEMPORAL_CALLBACK_FAILURE = -521"

section \<open>State\<close>

record 'n h2_sub =
  m_ngxxx_session :: "'n option"

definition h2_sub_new :: "alpn \<Rightarrow> 'n h2_sub" where
  "h2_sub_new v = \<lparr>m_ngxxx_session = None\<rparr>"

type_synonym ('o, 'x, 'n) h2world = "('o, 'x, 'n h2_sub) hworld"

section \<open>The callbacks\<close>

definition ngxxx_send_cb :: "byte list \<Rightarrow> nat \<Rightarrow> ('o, 'x, 'n) h2world \<Rightarrow> (ng_answer \<times> ('o, 'x, 'n) h2world) option" where
  "ngxxx_send_cb data a w =
     do { s \<leftarrow> sessions w a; oq \<leftarrow> ses_out_q s;
          (r, oq1) \<leftarrow> nbq_write (Some data) oq;
          Some (answer r, put_ses a (s\<lparr>ses_out_q := Some oq1\<rparr>) w) }"

definition ngxxx_frame_recv_cb :: "nat \<Rightarrow> nat \<Rightarrow> ('o, 'x, 'n) h2world \<Rightarrow> (ng_answer \<times> ('o, 'x, 'n) h2world) option" where
  "ngxxx_frame_recv_cb type a w =
     (if type = NGHTTP2_GOAWAY
      then do { s \<leftarrow> sessions w a; Some (answer 0, put_ses a (s\<lparr>ses_goaway := True\<rparr>) w) }
      else Some (answer 0, w))"

definition ngxxx_data_chunk_recv_cb ::
  "hurl_cfg \<Rightarrow> byte list \<Rightarrow> ('o, 'x, 'n) h2world \<Rightarrow> (ng_answer \<times> ('o, 'x, 'n) h2world) option" where
  "ngxxx_data_chunk_recv_cb cfg data w =
     Some (answer 0, if g_verbose cfg then w\<lparr>w_out := w_out w @ c_str data\<rparr> else w)"

definition ngxxx_stream_close_cb ::
  "hurl_cfg \<Rightarrow> 'o sys_env \<Rightarrow> nat \<Rightarrow> ('o, 'x, 'n) h2world \<Rightarrow> (ng_answer \<times> ('o, 'x, 'n) h2world) option" where
  "ngxxx_stream_close_cb cfg sys a w =
     do {
       (st, w1) \<leftarrow> request_complete cfg sys a w;
       if st \<noteq> STATUS_OK then Some (answer NGHTTP2_ERR_TEMPORAL_CALLBACK_FAILURE, w1)
       else do {
         s \<leftarrow> sessions w1 a;
         p \<leftarrow> ses_nconn s;
         c \<leftarrow> conns w1 p;
         if \<not> can_reuse c then Some (answer 0, put_ses a (s\<lparr>ses_goaway := True\<rparr>) w1)
         else if \<not> ses_request s then None
         else Some (answer 0, if \<not> rq_keepalive (h_request w1) then put_ses a (s\<lparr>ses_goaway := True\<rparr>) w1 else w1) } }"

text \<open>\<^verbatim>\<open>strtoul(_, NULL, 10)\<close>, cut to 16 bits\<close>

definition strtoul16 :: "string \<Rightarrow> nat" where
  "strtoul16 v =
     (case scan_sign (dropWhile Hurl_Path.is_space (c_str v)) of (neg, r) \<Rightarrow>
        let n = dec_val (takeWhile is_digit r)
        in (if n \<ge> 2 ^ 64 then 2 ^ 16 - 1 else if neg then nat (- int n mod 2 ^ 16) else n mod 2 ^ 16))"

definition paint :: "byte list \<Rightarrow> byte list \<Rightarrow> string" where
  "paint name value = ANSI_COLOR_FG_BLUE @ c_str name @ ANSI_COLOR_OFF @ '': '' @ ANSI_COLOR_FG_GREEN @ c_str value @
     ANSI_COLOR_OFF @ [CHR 0x0A]"

definition ngxxx_header_cb ::
  "hurl_cfg \<Rightarrow> nat \<Rightarrow> nat \<Rightarrow> byte list \<Rightarrow> byte list \<Rightarrow> nat \<Rightarrow> ('o, 'x, 'n) h2world \<Rightarrow>
     (ng_answer \<times> ('o, 'x, 'n) h2world) option" where
  "ngxxx_header_cb cfg type cat name value a w =
     (if type = NGHTTP2_HEADERS \<and> cat = NGHTTP2_HCAT_RESPONSE
      then do {
        w1 \<leftarrow> (if strncmp_eq '':status'' (List.map to_lower name) then ses_log_status a (strtoul16 value) w else Some w);
        Some (answer 0, if g_verbose cfg then w1\<lparr>w_out := w_out w1 @ paint name value\<rparr> else w1) }
      else Some (answer 0, w))"

text \<open>The body is read from a queue of the session, made of the request's when the first piece is asked for.\<close>

definition h2_body :: "request \<Rightarrow> 'n h2_sub session \<Rightarrow> nbq option" where
  "h2_body r s =
     (case ses_h2_body_q s of
        Some q \<Rightarrow> Some q
      | None \<Rightarrow> map_option (\<lambda>b. snd (join_ref b (nbq_new (8 * 1024)))) (rq_body_q r))"

definition ngxxx_data_source_read_cb ::
  "hurl_cfg \<Rightarrow> nat \<Rightarrow> nat \<Rightarrow> ('o, 'x, 'n) h2world \<Rightarrow> (ng_answer \<times> ('o, 'x, 'n) h2world) option" where
  "ngxxx_data_source_read_cb cfg len a w =
     do {
       s \<leftarrow> sessions w a;
       if \<not> ses_request s then Some (answer NGHTTP2_ERR_TEMPORAL_CALLBACK_FAILURE, w)
       else if rq_body_q (h_request w) = None then Some (answer 0, w)
       else do {
         q \<leftarrow> h2_body (h_request w) s;
         (n, bytes, q1) \<leftarrow> nbq_read True (if len > read_avail q then read_avail q else len) q;
         let eof = (read_avail q1 = 0);
         let w1 = put_ses a (s\<lparr>ses_h2_body_q := Some q1\<rparr>) w;
         let out = (if g_verbose cfg then c_str bytes @ (if eof then [CHR 0x0A] else []) else []);
         Some (\<lparr>ans_ret = int n, ans_buf = bytes, ans_eof = eof\<rparr>, w1\<lparr>w_out := w_out w1 @ out\<rparr>) } }"

definition ng_callback ::
  "hurl_cfg \<Rightarrow> 'o sys_env \<Rightarrow> nat \<Rightarrow> ng_event \<Rightarrow> ('o, 'x, 'n) h2world \<Rightarrow> (ng_answer \<times> ('o, 'x, 'n) h2world) option" where
  "ng_callback cfg sys a e w =
     (case e of
        Ng_Send data \<Rightarrow> ngxxx_send_cb data a w
      | Ng_Frame_Recv type \<Rightarrow> ngxxx_frame_recv_cb type a w
      | Ng_Frame_Send \<Rightarrow> Some (answer 0, w)
      | Ng_Stream_Close \<Rightarrow> ngxxx_stream_close_cb cfg sys a w
      | Ng_Data_Chunk data \<Rightarrow> ngxxx_data_chunk_recv_cb cfg data w
      | Ng_Header type cat name value \<Rightarrow> ngxxx_header_cb cfg type cat name value a w
      | Ng_Begin_Headers \<Rightarrow> Some (answer 0, w)
      | Ng_Data_Read len \<Rightarrow> ngxxx_data_source_read_cb cfg len a w)"

text \<open>A run of the library with these callbacks.\<close>

primrec ng_do ::
  "hurl_cfg \<Rightarrow> 'o sys_env \<Rightarrow> nat \<Rightarrow> 'n ng_run \<Rightarrow> ('o, 'x, 'n) h2world \<Rightarrow> (int \<times> 'n \<times> ('o, 'x, 'n) h2world) option" where
  "ng_do cfg sys a (Ng_Return r n) w = Some (r, n, w)"
| "ng_do cfg sys a (Ng_Call e k) w =
     do { (ans, w1) \<leftarrow> ng_callback cfg sys a e w; ng_do cfg sys a (k ans) w1 }"

section \<open>The methods of the session\<close>

definition put_ng :: "nat \<Rightarrow> 'n \<Rightarrow> ('o, 'x, 'n) h2world \<Rightarrow> ('o, 'x, 'n) h2world option" where
  "put_ng a n w = map_option (\<lambda>s. put_ses a (s\<lparr>ses_sub := \<lparr>m_ngxxx_session = Some n\<rparr>\<rparr>) w) (sessions w a)"

definition get_ng :: "nat \<Rightarrow> ('o, 'x, 'n) h2world \<Rightarrow> 'n option" where
  "get_ng a w = Option.bind (sessions w a) (\<lambda>s. m_ngxxx_session (ses_sub s))"

text \<open>A run on the session object, which is kept in the session.\<close>

definition ng_call ::
  "hurl_cfg \<Rightarrow> 'o sys_env \<Rightarrow> nat \<Rightarrow> ('n \<Rightarrow> 'n ng_run) \<Rightarrow> ('o, 'x, 'n) h2world \<Rightarrow> (int \<times> ('o, 'x, 'n) h2world) option" where
  "ng_call cfg sys a f w =
     do { n \<leftarrow> get_ng a w; (r, n1, w1) \<leftarrow> ng_do cfg sys a (f n) w; w2 \<leftarrow> put_ng a n1 w1; Some (r, w2) }"

definition h2_sconnected :: "'n ng_env \<Rightarrow> nat \<Rightarrow> ('o, 'x, 'n) h2world \<Rightarrow> (int \<times> ('o, 'x, 'n) h2world) option" where
  "h2_sconnected ng a w =
     do { n \<leftarrow> ng_client_new ng;
          (r, n1) \<leftarrow> Some (ng_submit_settings ng n [(NGHTTP2_SETTINGS_MAX_CONCURRENT_STREAMS, 1000)]);
          w1 \<leftarrow> put_ng a n1 w;
          Some (if r \<noteq> 0 then STATUS_ERROR else STATUS_OK, w1) }"

definition front_header :: "string \<times> string list \<Rightarrow> (byte list \<times> byte list) option" where
  "front_header e = (case snd e of [] \<Rightarrow> None | v # _ \<Rightarrow> Some (fst e, v))"

text \<open>\<^verbatim>\<open>_SET_IF\<close>\<close>

definition h2_set_if :: "string \<Rightarrow> kv_map_list \<Rightarrow> (byte list \<times> byte list) list option" where
  "h2_set_if key hs = (case kv_find key hs of None \<Rightarrow> Some [] | Some e \<Rightarrow> map_option (\<lambda>h. [h]) (front_header e))"

definition h2_skip :: "bool \<Rightarrow> string \<times> string list \<Rightarrow> bool" where
  "h2_skip no_host e \<longleftrightarrow> ci_eq ''accept'' (fst e) \<or> ci_eq ''user-agent'' (fst e) \<or> \<not> no_host \<and> ci_eq ''host'' (fst e)"

fun h2_rest :: "bool \<Rightarrow> kv_map_list \<Rightarrow> (byte list \<times> byte list) list option" where
  "h2_rest no_host [] = Some []"
| "h2_rest no_host (e # hs) =
     (if h2_skip no_host e then h2_rest no_host hs
      else do { h \<leftarrow> front_header e; hl \<leftarrow> h2_rest no_host hs; Some (h # hl) })"

text \<open>
  The array of headers: as many slots as \<^verbatim>\<open>l_hdrs_len\<close>, a \<^verbatim>\<open>uint16_t\<close>; more headers than
  slots are written past its end.
\<close>

definition h2_headers :: "string \<Rightarrow> request \<Rightarrow> (byte list \<times> byte list) option list option" where
  "h2_headers uri r =
     do {
       ua \<leftarrow> h2_set_if ''user-agent'' (rq_headers r);
       ac \<leftarrow> h2_set_if ''accept'' (rq_headers r);
       rest \<leftarrow> h2_rest (rq_no_host r) (rq_headers r);
       let slots = (4 + length (rq_headers r)) mod 2 ^ 16;
       let hs = [('':method'', rq_verb r), ('':path'', uri), ('':scheme'', ''https''), ('':authority'', rq_host r)] @ ua @ ac @ rest;
       if slots < length hs then None else Some (List.map Some hs @ replicate (slots - length hs) None) }"

definition h2_show_headers :: "(byte list \<times> byte list) option list \<Rightarrow> string" where
  "h2_show_headers hs = request_banner @
     concat (List.map (\<lambda>h. case h of None \<Rightarrow> [] | Some (n, v) \<Rightarrow> if n = [] \<or> v = [] then [] else paint n v) hs) @ [CHR 0x0A]"

definition h2_srequest ::
  "hurl_cfg \<Rightarrow> 'o sys_env \<Rightarrow> ('o, 'p) http_env \<Rightarrow> 'n ng_env \<Rightarrow> nat \<Rightarrow> ('o, 'x, 'n) h2world \<Rightarrow>
     (int \<times> ('o, 'x, 'n) h2world) option" where
  "h2_srequest cfg sys hx ng a w =
     do {
       s \<leftarrow> sessions w a;
       if \<not> ses_t_hurl s \<or> \<not> ses_request s then None
       else do {
         (path, w1) \<leftarrow> draw_path hx
            (upd_stat (\<lambda>t. t\<lparr>m_reqs := u64 (m_reqs t + 1)\<rparr>) (w\<lparr>h_num_in_progress := u32 (h_num_in_progress w + 1)\<rparr>));
         let uri = request_uri path (h_request w1);
         let w2 = draw_xfwd cfg hx w1;
         hs \<leftarrow> h2_headers uri (h_request w2);
         let w3 = (if g_verbose cfg then w2\<lparr>w_out := w_out w2 @ h2_show_headers hs\<rparr> else w2);
         n \<leftarrow> get_ng a w3;
         (id, n1) \<leftarrow> Some (ng_submit_request ng n hs (rq_body_q (h_request w3) \<noteq> None));
         w4 \<leftarrow> put_ng a n1 w3;
         if id < 0 then Some (STATUS_ERROR, w4)
         else do {
           (r, w5) \<leftarrow> ng_call cfg sys a (ng_session_send ng) w4;
           if r \<noteq> 0 then Some (STATUS_ERROR, w5)
           else Some (STATUS_OK, if g_verbose cfg then w5\<lparr>w_out := w_out w5 @ response_banner\<rparr> else w5) } } }"

definition h2_sread ::
  "hurl_cfg \<Rightarrow> 'o sys_env \<Rightarrow> 'n ng_env \<Rightarrow> nat \<Rightarrow> byte list \<Rightarrow> nat \<Rightarrow> ('o, 'x, 'n) h2world \<Rightarrow>
     (int \<times> ('o, 'x, 'n) h2world) option" where
  "h2_sread cfg sys ng a bytes off w =
     do { (r, w1) \<leftarrow> ng_call cfg sys a (\<lambda>n. ng_session_mem_recv ng n bytes) w;
          Some (if r < 0 then STATUS_ERROR else STATUS_OK, w1) }"

definition h2_swrite ::
  "hurl_cfg \<Rightarrow> 'o sys_env \<Rightarrow> 'n ng_env \<Rightarrow> nat \<Rightarrow> ('o, 'x, 'n) h2world \<Rightarrow> (int \<times> ('o, 'x, 'n) h2world) option" where
  "h2_swrite cfg sys ng a w =
     do { (r, w1) \<leftarrow> ng_call cfg sys a (ng_session_send ng) w;
          Some (if r \<noteq> 0 then STATUS_ERROR else STATUS_OK, w1) }"

definition h2_sdone :: "nat \<Rightarrow> ('o, 'x, 'n) h2world \<Rightarrow> (int \<times> ('o, 'x, 'n) h2world) option" where
  "h2_sdone a w = Some (STATUS_OK, w)"

definition h2_virt ::
  "hurl_cfg \<Rightarrow> 'o sys_env \<Rightarrow> ('o, 'p) http_env \<Rightarrow> 'n ng_env \<Rightarrow> ('n h2_sub, ('o, 'x, 'n) h2world) ses_virt" where
  "h2_virt cfg sys hx ng = \<lparr>sv_new = h2_sub_new, sv_sconnected = h2_sconnected ng, sv_srequest = h2_srequest cfg sys hx ng,
     sv_sread = h2_sread cfg sys ng, sv_swrite = h2_swrite cfg sys ng\<rparr>"

text \<open>A thread that speaks HTTP/2 over the classes of connections \<open>cls\<close>.\<close>

definition h2_env ::
  "hurl_cfg \<Rightarrow> 'o sys_env \<Rightarrow> (scheme \<Rightarrow> ('x, ('o, 'x, 'n) h2world) nc_class option) \<Rightarrow> ('o, 'p) http_env \<Rightarrow> 'n ng_env \<Rightarrow>
     ('o, 'x, 'n h2_sub) hurl_env" where
  "h2_env cfg sys cls hx ng = \<lparr>he_cls = cls, he_ses = h2_virt cfg sys hx ng\<rparr>"

section \<open>The headers of a request\<close>

definition first_value :: "string \<times> string list \<Rightarrow> byte list \<times> byte list" where
  "first_value e = (fst e, hd (snd e))"

definition hdrs_named :: "string \<Rightarrow> kv_map_list \<Rightarrow> kv_map_list" where
  "hdrs_named k hs = filter (\<lambda>e. ci_eq (fst e) k) hs"

lemma front_header_ok: "snd e \<noteq> [] \<Longrightarrow> front_header e = Some (first_value e)"
  by (simp add: front_header_def first_value_def split: list.splits)

lemma hdrs_named_find:
  "kv_inv hs \<Longrightarrow> hdrs_named k hs = (case kv_find k hs of None \<Rightarrow> [] | Some e \<Rightarrow> [e])"
proof (induction hs)
  case (Cons e hs)
  have "hdrs_named k hs = []" if "ci_eq (fst e) k"
    unfolding hdrs_named_def filter_empty_conv
  proof
    fix x assume "x \<in> set hs"
    then have "case_i_comp (fst e) (fst x)" using Cons.prems by simp
    then show "\<not> ci_eq (fst x) k" using that by (metis case_i_cong(2) case_i_irrefl ci_eq_refl ci_eq_sym)
  qed
  then show ?case using Cons by (auto simp: hdrs_named_def)
qed (simp add: hdrs_named_def)

lemma h2_set_if_named:
  assumes "headers_ok hs"
  shows "h2_set_if k hs = Some (List.map first_value (hdrs_named k hs))"
  using kv_find_Some[of k hs] assms
  by (auto simp: h2_set_if_def hdrs_named_find headers_ok_def front_header_ok split: option.splits)

lemma h2_rest_filter:
  "\<forall>e \<in> set hs. snd e \<noteq> [] \<Longrightarrow> h2_rest nh hs = Some (List.map first_value (filter (\<lambda>e. \<not> h2_skip nh e) hs))"
  by (induction hs) (auto simp: front_header_ok)

lemma h2_slots:
  "length (hdrs_named ''user-agent'' hs) + length (hdrs_named ''accept'' hs) + length (filter (\<lambda>e. \<not> h2_skip nh e) hs) +
     (if nh then 0 else length (hdrs_named ''host'' hs)) = length hs"
proof (induction hs)
  case (Cons e hs)
  define k where "k = ci_key (fst e)"
  have e: "ci_eq (fst e) x \<longleftrightarrow> k = ci_key x" "ci_eq x (fst e) \<longleftrightarrow> k = ci_key x" for x
    by (auto simp: ci_eq_def k_def)
  show ?case
    using Cons.IH unfolding hdrs_named_def h2_skip_def filter.simps e
    by (cases "k = ''user-agent''"; cases "k = ''accept''"; cases "k = ''host''"; cases nh) simp_all
qed (simp add: hdrs_named_def)

section \<open>The body in pieces\<close>

primrec body_reads ::
  "hurl_cfg \<Rightarrow> nat \<Rightarrow> nat list \<Rightarrow> ('o, 'x, 'n) h2world \<Rightarrow> (ng_answer list \<times> ('o, 'x, 'n) h2world) option" where
  "body_reads cfg a [] w = Some ([], w)"
| "body_reads cfg a (l # ls) w =
     do { (x, w1) \<leftarrow> ngxxx_data_source_read_cb cfg l a w; (xs, w2) \<leftarrow> body_reads cfg a ls w1; Some (x # xs, w2) }"

text \<open>What the answers should be: the next bytes, at most as many as asked for, and the flag with the last of them.\<close>

primrec pieces :: "nat list \<Rightarrow> byte list \<Rightarrow> ng_answer list" where
  "pieces [] rest = []"
| "pieces (l # ls) rest =
     \<lparr>ans_ret = int (min l (length rest)), ans_buf = take l rest, ans_eof = (length rest \<le> l)\<rparr> # pieces ls (drop l rest)"

lemma pieces_concat: "concat (List.map ans_buf (pieces ls rest)) = take (sum_list ls) rest"
  by (induction ls arbitrary: rest) (simp_all add: take_add)

lemma data_read_piece:
  assumes "sessions w a = Some s" "ses_request s" "rq_body_q (h_request w) \<noteq> None"
    "h2_body (h_request w) s = Some q" "rd_inv q"
  shows "\<exists>q1 w'. ngxxx_data_source_read_cb cfg l a w = Some (hd (pieces [l] (unread q)), w') \<and>
    sessions w' a = Some (s\<lparr>ses_h2_body_q := Some q1\<rparr>) \<and> h_request w' = h_request w \<and> rd_inv q1 \<and> unread q1 = drop l (unread q)"
proof -
  define m where "m = (if l > read_avail q then read_avail q else l)"
  have len: "length (unread q) = read_avail q" using rd_inv_length[OF assms(5)] by (simp add: read_avail_def)
  then have m: "m = min l (length (unread q))" by (simp add: m_def)
  have mm: "min m (length (unread q)) = m" using m by linarith
  obtain q1 where q1: "nbq_read True m q = Some (m, take m (unread q), q1)" "rd_inv q1" "unread q1 = drop m (unread q)"
    using nbq_read_spec[OF assms(5), of True m] unfolding mm read_post_def if_True by blast
  have nr: "nbq_read True (if read_avail q < l then read_avail q else l) q = Some (m, take m (unread q), q1)"
    using q1(1) by (simp only: m_def)
  have e: "read_avail q1 = 0 \<longleftrightarrow> length (unread q) \<le> l"
    using rd_inv_length[OF q1(2)] q1(3) m by (auto simp: read_avail_def)
  have tk: "take m (unread q) = take l (unread q)" "drop m (unread q) = drop l (unread q)" by (auto simp: m min_def)
  obtain w' where "ngxxx_data_source_read_cb cfg l a w =
      Some (\<lparr>ans_ret = int m, ans_buf = take m (unread q), ans_eof = (read_avail q1 = 0)\<rparr>, w')"
    "sessions w' a = Some (s\<lparr>ses_h2_body_q := Some q1\<rparr>)" "h_request w' = h_request w"
    using assms(1-4) nr by (simp add: ngxxx_data_source_read_cb_def Let_def)
  then show ?thesis using q1(2,3) e tk m by auto
qed

lemma body_reads_pieces:
  assumes "sessions w a = Some s" "ses_request s" "rq_body_q (h_request w) \<noteq> None"
    "h2_body (h_request w) s = Some q" "rd_inv q"
  shows "\<exists>w'. body_reads cfg a ls w = Some (pieces ls (unread q), w')"
  using assms
proof (induction ls arbitrary: w s q)
  case (Cons l ls)
  obtain q1 w1 where w1: "ngxxx_data_source_read_cb cfg l a w = Some (hd (pieces [l] (unread q)), w1)"
      "sessions w1 a = Some (s\<lparr>ses_h2_body_q := Some q1\<rparr>)" "h_request w1 = h_request w" "rd_inv q1" "unread q1 = drop l (unread q)"
    using data_read_piece[OF Cons.prems, of cfg l] by blast
  have "\<exists>w'. body_reads cfg a ls w1 = Some (pieces ls (unread q1), w')"
    by (rule Cons.IH[OF w1(2)]) (use Cons.prems w1 in \<open>simp_all add: h2_body_def\<close>)
  then show ?case using w1 by auto
qed simp

lemma h2_body_fresh:
  assumes "\<forall>x \<in> set (m_q b). blk_ok x" "length (all_written b) < 2 ^ 64" "ses_h2_body_q s = None" "rq_body_q r = Some b"
  shows "\<exists>q. h2_body r s = Some q \<and> rd_inv q \<and> unread q = all_written b"
proof -
  have "rd_inv (nbq_new (8 * 1024))" using nbq_new_inv[of "8 * 1024"] by (simp add: nbq_inv_def)
  then show ?thesis
    using join_ref_spec[of "nbq_new (8 * 1024)" b] assms by (auto simp: h2_body_def)
qed

section \<open>A run of the library\<close>

text \<open>
  What the callbacks need: the session at \<open>a\<close>, with its thread, its connection \<open>p\<close>, its
  request and an output queue of \<open>n\<close> bytes; and a body that can be read.
\<close>

definition h2_live :: "nat \<Rightarrow> nat \<Rightarrow> nat \<Rightarrow> ('o, 'x, 'n) h2world \<Rightarrow> bool" where
  "h2_live p a n w \<longleftrightarrow> conns w p \<noteq> None \<and>
     (\<exists>s q. sessions w a = Some s \<and> ses_t_hurl s \<and> ses_nconn s = Some p \<and> ses_request s \<and>
        ses_out_q s = Some q \<and> nbq_inv q \<and> m_cur_write_offset q = n \<and> (\<forall>b. ses_h2_body_q s = Some b \<longrightarrow> rd_inv b)) \<and>
     (\<forall>b. rq_body_q (h_request w) = Some b \<longrightarrow> (\<forall>x \<in> set (m_q b). blk_ok x) \<and> length (all_written b) < 2 ^ 64)"

definition out_bytes :: "nat \<Rightarrow> ('o, 'x, 'n) h2world \<Rightarrow> byte list" where
  "out_bytes a w = (case Option.bind (sessions w a) ses_out_q of None \<Rightarrow> [] | Some q \<Rightarrow> unread q)"

text \<open>What a run leaves alone, and what it does to the counters.\<close>

definition h2_frame :: "nat \<Rightarrow> nat \<Rightarrow> ('o, 'x, 'n) h2world \<Rightarrow> ('o, 'x, 'n) h2world \<Rightarrow> bool" where
  "h2_frame p a w w' \<longleftrightarrow> others p w w' \<and> (\<forall>b. b \<noteq> a \<longrightarrow> sessions w' b = sessions w b) \<and>
     h_request w' = h_request w \<and> m_reqs (ts_stat (h_stat w')) = m_reqs (ts_stat (h_stat w)) \<and>
     h_num_in_progress w' \<le> h_num_in_progress w \<and>
     u64 (m_resp_count (ts_stat (h_stat w')) + h_num_in_progress w') = u64 (m_resp_count (ts_stat (h_stat w)) + h_num_in_progress w) \<and>
     (\<forall>s. sessions w a = Some s \<longrightarrow> (\<exists>s'. sessions w' a = Some s' \<and> (ses_goaway s \<longrightarrow> ses_goaway s')))"

lemma h2_frame_refl [simp]: "h2_frame p a w w"
  by (simp add: h2_frame_def)

lemma h2_frame_trans: "h2_frame p a w w1 \<Longrightarrow> h2_frame p a w1 w2 \<Longrightarrow> h2_frame p a w w2"
  by (cases "sessions w a") (auto simp: h2_frame_def intro: others_trans)

text \<open>
  \<open>left g\<close> bounds what the library will ever send on the session object \<open>g\<close>.  On every path
  of a run from \<open>m\<close>, what is sent and what is left at the end are together at most \<open>m\<close>.
\<close>

definition sent_by :: "ng_event \<Rightarrow> byte list" where
  "sent_by e = (case e of Ng_Send data \<Rightarrow> data | _ \<Rightarrow> [])"

primrec ng_within :: "('n \<Rightarrow> nat) \<Rightarrow> 'n ng_run \<Rightarrow> nat \<Rightarrow> bool" where
  "ng_within left (Ng_Return r g) m = (left g \<le> m)"
| "ng_within left (Ng_Call e k) m = (length (sent_by e) \<le> m \<and> (\<forall>x. ng_within left (k x) (m - length (sent_by e))))"

text \<open>The library: a new session object can be had, and sends fewer than \<open>2 ^ 64\<close> bytes in its life.\<close>

locale ng_lib =
  fixes ng :: "'n ng_env" and left :: "'n \<Rightarrow> nat"
  assumes client_new: "\<exists>g. ng_client_new ng = Some g \<and> left g < 2 ^ 64"
    and submit_settings: "left (snd (ng_submit_settings ng g iv)) \<le> left g"
    and submit_request: "left (snd (ng_submit_request ng g hs data)) \<le> left g"
    and session_send: "ng_within left (ng_session_send ng g) (left g)"
    and session_mem_recv: "ng_within left (ng_session_mem_recv ng g bytes) (left g)"

text \<open>A callback that has sent \<open>d\<close>.\<close>

definition h2_does :: "nat \<Rightarrow> nat \<Rightarrow> nat \<Rightarrow> byte list \<Rightarrow> ('o, 'x, 'n) h2world \<Rightarrow> ('r \<times> ('o, 'x, 'n) h2world) option \<Rightarrow> bool" where
  "h2_does p a n d w res \<longleftrightarrow> (\<exists>x w'. res = Some (x, w') \<and> h2_live p a (n + length d) w' \<and> h2_frame p a w w' \<and>
     out_bytes a w' = out_bytes a w @ d)"

lemma h2_does_ses:
  assumes "h2_live p a n w" "sessions w a = Some s" "ses_out_q s = Some q"
    "ses_t_hurl s' = ses_t_hurl s" "ses_nconn s' = ses_nconn s" "ses_request s' = ses_request s"
    "ses_goaway s \<Longrightarrow> ses_goaway s'" "ses_out_q s' = Some q'" "write_post q d q'"
    "\<And>b. ses_h2_body_q s' = Some b \<Longrightarrow> rd_inv b"
  shows "h2_does p a n d w (Some (x, put_ses a s' w))"
  using assms by (auto simp: h2_does_def h2_live_def h2_frame_def out_bytes_def others_def write_post_def)

lemma h2_does_goaway:
  assumes "h2_live p a n w" "sessions w a = Some s"
  shows "h2_does p a n [] w (Some (x, put_ses a (s\<lparr>ses_goaway := True\<rparr>) w))"
proof -
  obtain q where "ses_out_q s = Some q" "nbq_inv q" using assms by (auto simp: h2_live_def)
  then show ?thesis
    by (intro h2_does_ses[OF assms, of q _ q]) (use assms in \<open>auto simp: write_post_def h2_live_def\<close>)
qed

lemma h2_does_trans:
  assumes "h2_does p a n d w (Some (x, w1))" "\<And>m. h2_live p a m w1 \<Longrightarrow> h2_does p a m e w1 r"
  shows "h2_does p a n (d @ e) w r"
proof -
  have w1: "h2_live p a (n + length d) w1" "h2_frame p a w w1" "out_bytes a w1 = out_bytes a w @ d"
    using assms(1) by (auto simp: h2_does_def)
  obtain y w' where "r = Some (y, w')" "h2_live p a (n + length d + length e) w'" "h2_frame p a w1 w'" "out_bytes a w' = out_bytes a w1 @ e"
    using assms(2)[OF w1(1)] by (auto simp: h2_does_def)
  then show ?thesis using w1 h2_frame_trans[OF w1(2)] by (auto simp: h2_does_def add.assoc)
qed

lemma h2_does_step:
  assumes "h2_does p a n [] w (Some (x, w1))" "\<And>m. h2_live p a m w1 \<Longrightarrow> h2_does p a m [] w1 r"
  shows "h2_does p a n [] w r"
  using h2_does_trans[OF assms] by simp

text \<open>Output and statistics are outside the heap.\<close>

lemma h2_does_out:
  assumes "h2_live p a n w"
  shows "h2_does p a n [] w (Some (x, w\<lparr>w_out := t\<rparr>))"
  using assms by (simp add: h2_does_def h2_live_def h2_frame_def out_bytes_def others_def)

lemma h2_does_log:
  assumes "h2_live p a n w"
  shows "h2_does p a n [] w (Some (x, w\<lparr>h_stat := request_log_status v (h_stat w)\<rparr>))"
  using assms by (simp add: h2_does_def h2_live_def h2_frame_def out_bytes_def others_def request_log_status_def log_class_def)

lemma h2_does_nothing: "h2_live p a n w \<Longrightarrow> h2_does p a n [] w (Some (x, w))"
  by (simp add: h2_does_def)

lemma request_complete_does:
  assumes "h2_live p a n w"
  shows "h2_does p a n [] w (request_complete cfg sys a w) \<and> (\<exists>w'. request_complete cfg sys a w = Some (STATUS_OK, w'))"
proof -
  obtain s q c where s: "sessions w a = Some s" "ses_t_hurl s" "ses_nconn s = Some p" "ses_request s" "ses_out_q s = Some q" "nbq_inv q"
      "m_cur_write_offset q = n" "\<forall>b. ses_h2_body_q s = Some b \<longrightarrow> rd_inv b" and c: "conns w p = Some c"
    using assms by (auto simp: h2_live_def)
  define s1 where "s1 = s\<lparr>ses_streams_closed := u32 (ses_streams_closed s + 1)\<rparr>"
  define w2 where "w2 = put_conn p (bump_num_requested c) (put_ses a s1 w)"
  define w3 where "w3 = (if h_num_in_progress w2 \<noteq> 0
      then upd_stat (\<lambda>t. t\<lparr>m_resp_count := u64 (m_resp_count t + 1)\<rparr>) (w2\<lparr>h_num_in_progress := h_num_in_progress w2 - 1\<rparr>)
      else w2)"
  define w4 where "w4 = (if g_rate_delta_us cfg \<noteq> 0 \<and> \<not> g_test_finished w3
      then w3\<lparr>w_os := sys_usleep sys (u32 (u64 (g_rate_delta_us cfg * g_num_threads cfg))) (w_os w3)\<rparr> else w3)"
  have e: "request_complete cfg sys a w = Some (STATUS_OK, w4)"
    unfolding request_complete_def using s(1-3) c
    by (simp add: s1_def w2_def w3_def w4_def Let_def)
  have k: "u64 (u64 (Suc r) + m) = u64 (Suc (r + m))" for r m
    using mod_add_left_eq[of "Suc r" "2 ^ 64" m] by (simp add: u64_def)
  have "h2_frame p a w w4"
    using s(1) by (cases "h_num_in_progress w") (auto simp: h2_frame_def others_def w4_def w3_def w2_def s1_def k)
  moreover have "h2_live p a n w4 \<and> out_bytes a w4 = out_bytes a w"
    using assms s by (auto simp: h2_live_def out_bytes_def w4_def w3_def w2_def s1_def)
  ultimately show ?thesis using e by (simp add: h2_does_def)
qed

lemma stream_close_does:
  assumes "h2_live p a n w"
  shows "h2_does p a n [] w (ngxxx_stream_close_cb cfg sys a w)"
proof -
  obtain w1 where w1: "request_complete cfg sys a w = Some (STATUS_OK, w1)"
    and d: "h2_does p a n [] w (Some (STATUS_OK, w1))"
    using request_complete_does[OF assms, of cfg sys] by auto
  have "h2_does p a m [] w1 (ngxxx_stream_close_cb cfg sys a w)" if l: "h2_live p a m w1" for m
  proof -
    obtain s c where s: "sessions w1 a = Some s" "ses_nconn s = Some p" "ses_request s" "conns w1 p = Some c"
      using l by (auto simp: h2_live_def)
    then show ?thesis
      using w1 by (simp add: ngxxx_stream_close_cb_def h2_does_goaway[OF l s(1)] h2_does_nothing[OF l])
  qed
  from h2_does_step[OF d this] show ?thesis .
qed

lemma header_does:
  assumes "h2_live p a n w"
  shows "h2_does p a n [] w (ngxxx_header_cb cfg type cat name value a w)"
proof -
  obtain s where s: "sessions w a = Some s" "ses_t_hurl s" using assms by (auto simp: h2_live_def)
  define w1 where "w1 = (if strncmp_eq '':status'' (List.map to_lower name)
    then w\<lparr>h_stat := request_log_status (strtoul16 value) (h_stat w)\<rparr> else w)"
  have e: "ngxxx_header_cb cfg type cat name value a w =
      Some (answer 0, if type = NGHTTP2_HEADERS \<and> cat = NGHTTP2_HCAT_RESPONSE
        then if g_verbose cfg then w1\<lparr>w_out := w_out w1 @ paint name value\<rparr> else w1 else w)"
    using s by (simp add: ngxxx_header_cb_def ses_log_status_def w1_def)
  have d: "h2_does p a n [] w (Some (answer 0, w1))"
    by (simp add: w1_def h2_does_log[OF assms] h2_does_nothing[OF assms])
  show ?thesis
    unfolding e by (simp add: h2_does_step[OF d h2_does_out] h2_does_nothing[OF assms] d)
qed

lemma data_read_does:
  assumes "h2_live p a n w"
  shows "h2_does p a n [] w (ngxxx_data_source_read_cb cfg len a w)"
proof (cases "rq_body_q (h_request w)")
  case None
  then show ?thesis
    using assms h2_does_nothing[OF assms] by (auto simp: ngxxx_data_source_read_cb_def h2_live_def)
next
  case (Some b)
  obtain s oq where s: "sessions w a = Some s" "ses_request s" "ses_out_q s = Some oq" "nbq_inv oq"
      "\<forall>b. ses_h2_body_q s = Some b \<longrightarrow> rd_inv b"
    using assms by (auto simp: h2_live_def)
  have b: "\<forall>x \<in> set (m_q b). blk_ok x" "length (all_written b) < 2 ^ 64" using assms Some by (auto simp: h2_live_def)
  obtain q where q: "h2_body (h_request w) s = Some q" "rd_inv q"
    using h2_body_fresh[OF b, of s "h_request w"] s(5) Some by (cases "ses_h2_body_q s") (auto simp: h2_body_def)
  obtain m bytes q1 where q1: "nbq_read True (if len > read_avail q then read_avail q else len) q = Some (m, bytes, q1)" "rd_inv q1"
    using nbq_read_spec[OF q(2), of True "if len > read_avail q then read_avail q else len"] unfolding read_post_def by blast
  define w1 where "w1 = put_ses a (s\<lparr>ses_h2_body_q := Some q1\<rparr>) w"
  have d: "h2_does p a n [] w (Some (x, w1))" for x :: ng_answer
    unfolding w1_def
    by (rule h2_does_ses[OF assms s(1,3), of _ oq]) (use s q1(2) in \<open>auto simp: write_post_def\<close>)
  have e: "ngxxx_data_source_read_cb cfg len a w = Some (\<lparr>ans_ret = int m, ans_buf = bytes, ans_eof = (read_avail q1 = 0)\<rparr>,
      w1\<lparr>w_out := w_out w1 @ (if g_verbose cfg then c_str bytes @ (if read_avail q1 = 0 then [CHR 0x0A] else []) else [])\<rparr>)"
    using s(1,2) Some q(1) q1(1) by (simp add: ngxxx_data_source_read_cb_def w1_def Let_def)
  show ?thesis unfolding e by (rule h2_does_step[OF d h2_does_out])
qed

text \<open>Every callback.\<close>

lemma ng_callback_does:
  assumes "h2_live p a n w" "n + length (sent_by e) < 2 ^ 64"
  shows "h2_does p a n (sent_by e) w (ng_callback cfg sys a e w)"
proof (cases e)
  case (Ng_Send data)
  obtain s q where s: "sessions w a = Some s" "ses_out_q s = Some q" "nbq_inv q" "m_cur_write_offset q = n"
      "\<forall>b. ses_h2_body_q s = Some b \<longrightarrow> rd_inv b"
    using assms(1) by (auto simp: h2_live_def)
  obtain q' where q': "nbq_write (Some data) q = Some (int (length data), q')" "write_post q data q'"
    using nbq_write_spec[OF s(3), of data] s(4) assms(2) Ng_Send by (auto simp: sent_by_def)
  have "h2_does p a n data w (Some (answer (int (length data)), put_ses a (s\<lparr>ses_out_q := Some q'\<rparr>) w))"
    by (rule h2_does_ses[OF assms(1) s(1,2) _ _ _ _ _ q'(2)]) (use s(5) in simp_all)
  then show ?thesis using Ng_Send s(1,2) q'(1) by (simp add: ng_callback_def ngxxx_send_cb_def sent_by_def)
next
  case (Ng_Frame_Recv type)
  obtain s where s: "sessions w a = Some s" using assms(1) by (auto simp: h2_live_def)
  then show ?thesis
    using Ng_Frame_Recv
    by (simp add: ng_callback_def ngxxx_frame_recv_cb_def sent_by_def h2_does_goaway[OF assms(1) s] h2_does_nothing[OF assms(1)])
qed (use assms(1) in \<open>simp_all add: ng_callback_def sent_by_def ngxxx_data_chunk_recv_cb_def
    h2_does_nothing h2_does_out stream_close_does header_does data_read_does\<close>)

lemma ng_do_does:
  assumes "h2_live p a n w" "ng_within left run m" "n + m < 2 ^ 64"
  shows "\<exists>r g w' d. ng_do cfg sys a run w = Some (r, g, w') \<and> h2_live p a (n + length d) w' \<and> h2_frame p a w w' \<and>
    out_bytes a w' = out_bytes a w @ d \<and> length d + left g \<le> m"
  using assms
proof (induction run arbitrary: w n m)
  case (Ng_Call e k)
  obtain x w1 where e: "ng_callback cfg sys a e w = Some (x, w1)" "h2_live p a (n + length (sent_by e)) w1" "h2_frame p a w w1"
      "out_bytes a w1 = out_bytes a w @ sent_by e"
    using ng_callback_does[of p a n w e cfg sys] Ng_Call.prems by (auto simp: h2_does_def)
  have "ng_within left (k x) (m - length (sent_by e))" "n + length (sent_by e) + (m - length (sent_by e)) < 2 ^ 64"
    using Ng_Call.prems(2,3) by auto
  from Ng_Call.IH[OF _ e(2) this] obtain r g w' d where
    w': "ng_do cfg sys a (k x) w1 = Some (r, g, w')" "h2_live p a (n + length (sent_by e) + length d) w'" "h2_frame p a w1 w'"
      "out_bytes a w' = out_bytes a w1 @ d" "length d + left g \<le> m - length (sent_by e)" by blast
  show ?case
    by (rule exI[of _ r], rule exI[of _ g], rule exI[of _ w'], rule exI[of _ "sent_by e @ d"])
      (use e w' h2_frame_trans[OF e(3) w'(3)] Ng_Call.prems(2) in \<open>auto simp: add.assoc\<close>)
qed auto

lemma put_ng_does:
  assumes "h2_live p a n w"
  shows "\<exists>w'. put_ng a g w = Some w' \<and> h2_live p a n w' \<and> h2_frame p a w w' \<and> out_bytes a w' = out_bytes a w \<and> get_ng a w' = Some g"
proof -
  obtain s q where s: "sessions w a = Some s" "ses_out_q s = Some q" "nbq_inv q" "\<forall>b. ses_h2_body_q s = Some b \<longrightarrow> rd_inv b"
    using assms by (auto simp: h2_live_def)
  have "h2_does p a n [] w (Some ((), put_ses a (s\<lparr>ses_sub := \<lparr>m_ngxxx_session = Some g\<rparr>\<rparr>) w))"
    by (rule h2_does_ses[OF assms s(1,2), of _ q]) (use s in \<open>auto simp: write_post_def\<close>)
  then show ?thesis using s(1) by (auto simp: put_ng_def get_ng_def h2_does_def)
qed

lemma ng_call_does:
  assumes "h2_live p a n w" "get_ng a w = Some g" "ng_within left (f g) (left g)" "n + left g < 2 ^ 64"
  shows "\<exists>r w' d g'. ng_call cfg sys a f w = Some (r, w') \<and> h2_live p a (n + length d) w' \<and> h2_frame p a w w' \<and>
    out_bytes a w' = out_bytes a w @ d \<and> get_ng a w' = Some g' \<and> length d + left g' \<le> left g"
proof -
  obtain r g' w1 d where w1: "ng_do cfg sys a (f g) w = Some (r, g', w1)" "h2_live p a (n + length d) w1" "h2_frame p a w w1"
      "out_bytes a w1 = out_bytes a w @ d" "length d + left g' \<le> left g"
    using ng_do_does[OF assms(1,3,4), of cfg sys] by blast
  obtain w' where w': "put_ng a g' w1 = Some w'" "h2_live p a (n + length d) w'" "h2_frame p a w1 w'"
      "out_bytes a w' = out_bytes a w1" "get_ng a w' = Some g'"
    using put_ng_does[OF w1(2), of g'] by blast
  have "ng_call cfg sys a f w = Some (r, w')" using assms(2) w1(1) w'(1) by (simp add: ng_call_def)
  then show ?thesis using w1 w' h2_frame_trans[OF w1(3) w'(3)] by auto
qed

section \<open>A library for the examples\<close>

text \<open>Its session object is the number of bytes it may send; it answers each read with a response.\<close>

definition demo_ng :: "nat ng_env" where
  "demo_ng = \<lparr>ng_client_new = Some 30, ng_submit_settings = (\<lambda>g _. (0, g)), ng_submit_request = (\<lambda>g _ _. (1, g)),
     ng_session_send = (\<lambda>g. if 3 \<le> g then Ng_Call (Ng_Send ''abc'') (\<lambda>_. Ng_Return 0 (g - 3)) else Ng_Return 0 g),
     ng_session_mem_recv = (\<lambda>g bytes. Ng_Call (Ng_Header NGHTTP2_HEADERS NGHTTP2_HCAT_RESPONSE '':status'' ''200'')
        (\<lambda>_. Ng_Call Ng_Stream_Close (\<lambda>_. Ng_Return (int (length bytes)) g)))\<rparr>"

interpretation demo_ng: ng_lib demo_ng "\<lambda>g. g"
  by unfold_locales (auto simp: demo_ng_def sent_by_def)

definition demo_h2_session :: "nat h2_sub session" where
  "demo_h2_session = \<lparr>ses_nconn = Some 5, ses_t_hurl = True, ses_timer_obj = None, ses_in_q = Some (nbq_new 4096),
     ses_out_q = Some (nbq_new 4096), ses_request = True, ses_idx = 0, ses_goaway = False, ses_streams_closed = 0,
     ses_h2_body_q = None, ses_sub = \<lparr>m_ngxxx_session = Some 30\<rparr>\<rparr>"

definition demo_h2_world :: "(host, unit nconn_tls_ext, nat h2_sub) hworld" where
  "demo_h2_world = \<lparr>event_pq = [], ev_store = Map.empty, fd_store = fd_store host_world, next_addr = 7, tick = 0, evr_stopped = False,
     w_os = w_os host_world, conns = [5 \<mapsto> host_tls_conn\<lparr>nc_alpn := ALPN_HTTP_VER_V2\<rparr>], sessions = [6 \<mapsto> demo_h2_session],
     h_stopped = False, h_nconn_set = {5}, h_stat = \<lparr>ts_stat = t_stat_cntr_new\<lparr>m_reqs := 1\<rparr>, ts_codes = []\<rparr>, h_num_in_progress = 1,
     h_orphan_in_q = nbq_new 4096, h_orphan_out_q = nbq_new 4096, h_request = get_req, h_is_initd = True,
     h_num_conn_parallel_max = 2, h_num_to_request = 10, g_test_finished = False, g_paths = g_paths host_world, w_out = []\<rparr>"

lemma demo_h2_live: "h2_live 5 6 0 demo_h2_world"
proof -
  have "\<forall>x \<in> set (m_q demo_q). blk_ok x" "length (all_written demo_q) < 2 ^ 64"
    by (simp_all add: demo_q_def blk_ok_def all_written_def written_bytes_def)
  then show ?thesis
    using nbq_new_inv[of 4096] by (simp add: h2_live_def demo_h2_world_def demo_h2_session_def get_req_def request_new_def)
qed

section \<open>Properties\<close>

text \<open>
  C35: The headers submitted for a request are the four of HTTP/2, the user agent and what is
  accepted, and the first value of every other header, in this order; a header with the name
  of the host is left out, and its slot of the array is submitted without a name or a value.
\<close>

theorem h2_headers_submitted:
  assumes "headers_ok (rq_headers r)" "4 + length (rq_headers r) < 2 ^ 16"
  shows "h2_headers uri r = Some (List.map Some
      ([('':method'', rq_verb r), ('':path'', uri), ('':scheme'', ''https''), ('':authority'', rq_host r)] @
       List.map first_value (hdrs_named ''user-agent'' (rq_headers r) @ hdrs_named ''accept'' (rq_headers r) @
         filter (\<lambda>e. \<not> h2_skip (rq_no_host r) e) (rq_headers r))) @
      (if \<not> rq_no_host r \<and> kv_find ''host'' (rq_headers r) \<noteq> None then [None] else []))"
proof -
  let ?hs = "rq_headers r"
  let ?xs = "[('':method'', rq_verb r), ('':path'', uri), ('':scheme'', ''https''), ('':authority'', rq_host r)] @
       List.map first_value (hdrs_named ''user-agent'' ?hs @ hdrs_named ''accept'' ?hs @ filter (\<lambda>e. \<not> h2_skip (rq_no_host r) e) ?hs)"
  define k :: nat where "k = (if \<not> rq_no_host r \<and> kv_find ''host'' ?hs \<noteq> None then 1 else 0)"
  have r: "h2_rest (rq_no_host r) ?hs = Some (List.map first_value (filter (\<lambda>e. \<not> h2_skip (rq_no_host r) e) ?hs))"
    using assms(1) by (intro h2_rest_filter) (simp add: headers_ok_def)
  have "k = (if rq_no_host r then 0 else length (hdrs_named ''host'' ?hs))"
    using assms(1) by (simp add: k_def hdrs_named_find split: option.splits)
  then have l: "4 + length ?hs = length ?xs + k"
    using h2_slots[of ?hs "rq_no_host r"] by simp
  have "h2_headers uri r = Some (List.map Some ?xs @ replicate k None)"
    using assms(2) l unfolding h2_headers_def h2_set_if_named[OF assms(1)] r by (simp add: Let_def)
  moreover have "replicate k (None :: (byte list \<times> byte list) option) = (if \<not> rq_no_host r \<and> kv_find ''host'' ?hs \<noteq> None then [None] else [])"
    by (simp add: k_def)
  ultimately show ?thesis by (simp only:)
qed

text \<open>
  C34: The body of a request is read by the library in pieces: whatever the lengths it asks
  for, the pieces are the bytes of the body in order, none longer than asked for, and the end
  is flagged with the last of them.
\<close>

theorem h2_body_in_pieces:
  assumes "sessions w a = Some s" "ses_request s" "ses_h2_body_q s = None" "rq_body_q (h_request w) = Some b"
    "\<forall>x \<in> set (m_q b). blk_ok x" "length (all_written b) < 2 ^ 64"
  shows "\<exists>w'. body_reads cfg a ls w = Some (pieces ls (all_written b), w') \<and>
    concat (List.map ans_buf (pieces ls (all_written b))) = take (sum_list ls) (all_written b)"
proof -
  obtain q where q: "h2_body (h_request w) s = Some q" "rd_inv q" "unread q = all_written b"
    using h2_body_fresh[OF assms(5,6,3,4)] by blast
  show ?thesis using body_reads_pieces[OF assms(1,2) _ q(1,2), of cfg ls] assms(4) pieces_concat q(3) by auto
qed

text \<open>
  C33: Reading from an HTTP/2 session: whatever callbacks the library makes of the bytes, in
  whatever order, none is undefined and the call returns.  What it sends is appended to the
  output queue, no other connection or session is touched, and a request is taken off those
  in progress exactly when its response is counted.
\<close>

theorem h2_read_safe:
  assumes "ng_lib ng left" "h2_live p a n w" "get_ng a w = Some g" "n + left g < 2 ^ 64"
  shows "\<exists>st w' d g'. h2_sread cfg sys ng a bytes off w = Some (st, w') \<and> st \<in> {STATUS_OK, STATUS_ERROR} \<and>
    h2_live p a (n + length d) w' \<and> h2_frame p a w w' \<and> out_bytes a w' = out_bytes a w @ d \<and>
    get_ng a w' = Some g' \<and> length d + left g' \<le> left g"
proof -
  have "ng_within left (ng_session_mem_recv ng g bytes) (left g)" using ng_lib.session_mem_recv[OF assms(1)] .
  from ng_call_does[where f = "\<lambda>g. ng_session_mem_recv ng g bytes", OF assms(2,3) this assms(4), of cfg sys] show ?thesis
    by (fastforce simp: h2_sread_def)
qed

theorem h2_headers_submitted_witness:
  "h2_headers ''/'' (get_req\<lparr>rq_headers := [(''Host'', [''h''])]\<rparr>) =
    Some [Some ('':method'', rq_verb get_req), Some ('':path'', ''/''), Some ('':scheme'', ''https''),
      Some ('':authority'', rq_host get_req), None]"
  using h2_headers_submitted[of "get_req\<lparr>rq_headers := [(''Host'', [''h''])]\<rparr>" "''/''"]
  by (simp add: headers_ok_def hdrs_named_def h2_skip_def ci_eq_def get_req_def request_new_def)

theorem h2_body_in_pieces_witness:
  "\<exists>w'. body_reads host_cfg 6 [4, 4] demo_h2_world =
    Some ([\<lparr>ans_ret = 4, ans_buf = ''abcd'', ans_eof = False\<rparr>, \<lparr>ans_ret = 2, ans_buf = ''ef'', ans_eof = True\<rparr>], w')"
proof -
  have "all_written demo_q = ''abcdef''" "\<forall>x \<in> set (m_q demo_q). blk_ok x"
    by (simp_all add: demo_q_def blk_ok_def all_written_def written_bytes_def)
  then show ?thesis
    using h2_body_in_pieces[of demo_h2_world 6 demo_h2_session demo_q host_cfg "[4, 4]"]
    by (simp add: demo_h2_world_def demo_h2_session_def get_req_def request_new_def)
qed

theorem h2_read_safe_witness:
  "\<exists>st w' d g'. h2_sread host_cfg host_sys demo_ng 6 ''x'' 0 demo_h2_world = Some (st, w') \<and> st \<in> {STATUS_OK, STATUS_ERROR} \<and>
    h2_live 5 6 (0 + length d) w' \<and> h2_frame 5 6 demo_h2_world w' \<and> out_bytes 6 w' = out_bytes 6 demo_h2_world @ d \<and>
    get_ng 6 w' = Some g' \<and> length d + g' \<le> 30"
  by (rule h2_read_safe[OF demo_ng.ng_lib_axioms demo_h2_live])
    (simp_all add: get_ng_def demo_h2_world_def demo_h2_session_def)

end
