(* ===== verification/Hurl_Main.thy ===== *)
theory Hurl_Main
  imports Hurl_Live Hurl_Tls Dns Str_Util
begin

unbundle bit_operations_syntax

text \<open>
  The start of the program, the first half of \<^verbatim>\<open>main\<close> in \<^verbatim>\<open>src/hurl/hurl.cc\<close>: the options,
  the checks, the request and its paths, and the threads it makes.  The local variables of
  \<^verbatim>\<open>main\<close> and the globals the options set are the record \<open>main_st\<close>.  What \<^verbatim>\<open>getopt_long_only\<close>
  returns is a parameter, a list with the option, its argument and the \<^verbatim>\<open>argv[optind]\<close> of
  each call; the operating system, the resolver and the libraries are the record
  \<open>main_env\<close>.  The texts of the error messages, of the help and of the version are left out.
\<close>

section \<open>State\<close>

record main_st =
  l_num_to_request :: int
  l_interval_ms :: nat
  l_num_parallel :: nat
  l_run_time_ms :: int
  l_silent :: bool
  l_show_response_codes :: bool
  l_show_per_interval :: bool
  l_display_results_json_flag :: bool
  l_input_flag :: bool
  l_wildcarding :: bool
  l_output_file :: string
  l_ai_family :: int
  l_url :: string
  l_request :: request
  l_conf_tls_cipher_list :: string
  l_conf_tls_options :: int
  mn_cfg :: hurl_cfg
  mn_stats :: bool
  mn_paths :: path_globals
  mn_trc_log_level :: nat
  mn_trc_log_file :: "string option"

record getopt =
  go_opt :: char
  go_optarg :: "string option"
  go_operand :: "string option"

text \<open>
  \<open>me_file\<close> and \<open>me_fd\<close> are what the system answers for a file and what a descriptor of it
  delivers; \<open>me_ssl_op\<close> are the constants of the TLS library.
\<close>

record ('f, 'o) main_env =
  me_isatty :: bool
  me_version :: string
  me_file :: "string \<Rightarrow> file_env"
  me_reader :: "'f reader"
  me_fd :: "string \<Rightarrow> 'f"
  me_ssl_op :: "string \<Rightarrow> int"
  me_rlimit :: "nat option"
  me_signal :: bool
  me_parse_url :: "string \<Rightarrow> url_fields option"
  me_ctx :: "'o ctx_env"
  me_os :: 'o
  me_dns :: dns_env
  me_time :: time_cache

text \<open>The end of the program with its exit status, or going on.\<close>

datatype 'a cont = Exit int | Go 'a

section \<open>Numbers\<close>

text \<open>\<^verbatim>\<open>atoi\<close> of the C library: \<^verbatim>\<open>strtol\<close>, which saturates at 64 bits, cut to an \<^verbatim>\<open>int\<close>.\<close>

definition i32 :: "int \<Rightarrow> int" where "i32 i = s32 (u32_of_int i)"

definition atoi :: "string \<Rightarrow> int" where
  "atoi s =
     (case scan_sign (dropWhile Hurl_Path.is_space s) of (neg, r) \<Rightarrow>
        let v = int (dec_val (takeWhile is_digit r))
        in i32 (if neg then max (- (2 ^ 63)) (- v) else min (2 ^ 63 - 1) v))"

text \<open>A number of at least \<open>least\<close>; an overflow of \<^verbatim>\<open>int\<close> is undefined.\<close>

definition opt_num :: "int \<Rightarrow> string option \<Rightarrow> (int \<Rightarrow> main_st cont option) \<Rightarrow> main_st cont option" where
  "opt_num least arg f =
     (case arg of
        None \<Rightarrow> None
      | Some s \<Rightarrow> if atoi s < least then Some (Exit STATUS_ERROR) else f (atoi s))"

definition times1000 :: "int \<Rightarrow> int option" where
  "times1000 v = (if v * 1000 < 2 ^ 31 then Some (v * 1000) else None)"

section \<open>Options\<close>

definition upd_req :: "(request \<Rightarrow> request) \<Rightarrow> main_st \<Rightarrow> main_st" where
  "upd_req f m = m\<lparr>l_request := f (l_request m)\<rparr>"

definition upd_cfg :: "(hurl_cfg \<Rightarrow> hurl_cfg) \<Rightarrow> main_st \<Rightarrow> main_st" where
  "upd_cfg f m = m\<lparr>mn_cfg := f (mn_cfg m)\<rparr>"

text \<open>\<^verbatim>\<open>-d\<close>: the body, given or read from a file, and its length.\<close>

definition opt_data :: "('f, 'o) main_env \<Rightarrow> string \<Rightarrow> main_st \<Rightarrow> main_st cont option" where
  "opt_data e l_arg m =
     do { (st, q) \<leftarrow>
            (if l_arg \<noteq> [] \<and> hd l_arg = CHR ''@''
             then do { (st, _, q) \<leftarrow> read_file_nbq (me_reader e) (me_file e (tl l_arg)) (nbq_new 8192) (me_fd e (tl l_arg));
                       Some (st, q) }
             else do { (_, q) \<leftarrow> nbq_write (Some l_arg) (nbq_new 8192); Some (STATUS_OK, q) });
          if st \<noteq> STATUS_OK then Some (Exit STATUS_ERROR)
          else Some (Go (upd_req (\<lambda>r. (snd (set_header ''Content-Length'' (nat_str (u32 (read_avail q))) r))\<lparr>rq_body_q := Some q\<rparr>) m)) }"

text \<open>\<^verbatim>\<open>-H\<close>\<close>

definition opt_header :: "string \<Rightarrow> main_st \<Rightarrow> main_st cont" where
  "opt_header l_arg m =
     (case break_header_string l_arg of
        None \<Rightarrow> Exit STATUS_ERROR
      | Some (k, v) \<Rightarrow> (case set_header k v (l_request m) of
          (st, r) \<Rightarrow> if st \<noteq> 0 then Exit STATUS_ERROR else Go (m\<lparr>l_request := r\<rparr>)))"

text \<open>\<^verbatim>\<open>-M\<close>\<close>

definition opt_mode :: "string \<Rightarrow> main_st \<Rightarrow> main_st cont" where
  "opt_mode l_val m =
     (if l_val = ''sequential'' then Go (m\<lparr>mn_paths := (mn_paths m)\<lparr>g_path_order_random := False\<rparr>\<rparr>)
      else if l_val = ''random'' then Go (m\<lparr>mn_paths := (mn_paths m)\<lparr>g_path_order_random := True\<rparr>\<rparr>)
      else Exit STATUS_ERROR)"

text \<open>\<^verbatim>\<open>-r\<close>\<close>

definition opt_trace :: "string \<Rightarrow> main_st \<Rightarrow> main_st" where
  "opt_trace l_arg m =
     (let level = (if ci_eq ''error'' l_arg then Some 1 else if ci_eq ''warn'' l_arg then Some 2
                   else if ci_eq ''debug'' l_arg then Some 3 else if ci_eq ''verbose'' l_arg then Some 4
                   else if ci_eq ''all'' l_arg then Some 5 else None)
      in case level of
           Some n \<Rightarrow> m\<lparr>mn_trc_log_level := n, mn_trc_log_file := Some ''/dev/stdout''\<rparr>
         | None \<Rightarrow> m\<lparr>mn_trc_log_level := 0\<rparr>)"

text \<open>The end of the options: the operand is the URL.\<close>

definition opt_url :: "string option \<Rightarrow> main_st \<Rightarrow> main_st" where
  "opt_url operand m =
     (let m1 = (case operand of None \<Rightarrow> m | Some u \<Rightarrow> m\<lparr>l_url := u\<rparr>)
      in if l_url m1 \<noteq> [] then m1\<lparr>l_input_flag := True\<rparr> else m1)"

text \<open>One option; \<^verbatim>\<open>l_arg\<close> is the argument or the empty string.\<close>

definition main_opt :: "('f, 'o) main_env \<Rightarrow> getopt \<Rightarrow> main_st \<Rightarrow> main_st cont option" where
  "main_opt e g m =
     (let c = go_opt g; optarg = go_optarg g; l_arg = (case optarg of None \<Rightarrow> [] | Some s \<Rightarrow> s) in
      if c = CHR ''h'' \<or> c = CHR ''V'' then Some (Exit 0)
      else if c = CHR ''4'' then Some (Go (m\<lparr>l_ai_family := AF_INET\<rparr>))
      else if c = CHR ''6'' then Some (Go (m\<lparr>l_ai_family := AF_INET6\<rparr>))
      else if c = CHR ''w'' then Some (Go (m\<lparr>l_wildcarding := False\<rparr>))
      else if c = CHR ''d'' then opt_data e l_arg m
      else if c = CHR ''p'' then opt_num 1 optarg (\<lambda>v. Some (Go (m\<lparr>l_num_parallel := nat v\<rparr>)))
      else if c = CHR ''f'' then opt_num 1 optarg (\<lambda>v. Some (Go (m\<lparr>l_num_to_request := v\<rparr>)))
      else if c = CHR ''N'' then opt_num 1 optarg (\<lambda>v. let m1 = upd_cfg (\<lambda>k. k\<lparr>g_reqs_per_conn := v\<rparr>) m
              in Some (Go (if v = 1 then upd_req (\<lambda>r. r\<lparr>rq_keepalive := False\<rparr>) m1 else m1)))
      else if c = CHR ''1'' then Some (Go (upd_req (\<lambda>r. r\<lparr>rq_h1 := True\<rparr>) m))
      else if c = CHR ''t'' then opt_num 0 optarg (\<lambda>v. Some (Go (upd_cfg (\<lambda>k. k\<lparr>g_num_threads := nat v\<rparr>) m)))
      else if c = CHR ''H'' then Some (opt_header l_arg m)
      else if c = CHR ''X'' then Some (if length l_arg > 64 then Exit STATUS_ERROR else Go (upd_req (\<lambda>r. r\<lparr>rq_verb := l_arg\<rparr>) m))
      else if c = CHR ''A'' then opt_num 1 optarg (\<lambda>v. Some (Go (upd_cfg (\<lambda>k. k\<lparr>g_rate_delta_us := nat (1000000 div v)\<rparr>) m)))
      else if c = CHR ''M'' then (case optarg of None \<Rightarrow> None | Some s \<Rightarrow> Some (opt_mode s m))
      else if c = CHR ''l'' then opt_num 1 optarg (\<lambda>v. map_option (\<lambda>t. Go (m\<lparr>l_run_time_ms := t\<rparr>)) (times1000 v))
      else if c = CHR ''s'' then Some (Go (m\<lparr>l_silent := True\<rparr>))
      else if c = CHR ''T'' then opt_num 1 optarg (\<lambda>v. map_option (\<lambda>t. Go (upd_req (\<lambda>r. r\<lparr>rq_timeout_ms := nat t\<rparr>) m)) (times1000 v))
      else if c = CHR ''x'' then Some (Go (m\<lparr>mn_stats := False\<rparr>))
      else if c = CHR ''I'' then Some (Go m)
      else if c = CHR ''S'' then opt_num 1 optarg (\<lambda>v. Some (if v > 1024 then Exit STATUS_ERROR
              else Go (upd_cfg (\<lambda>k. k\<lparr>g_chunk_size_kb := nat v\<rparr>) m)))
      else if c = CHR ''y'' then Some (Go (m\<lparr>l_conf_tls_cipher_list := l_arg\<rparr>))
      else if c = CHR ''O'' then (case get_tls_options_str_val (me_ssl_op e) l_arg of
              (st, v) \<Rightarrow> Some (if st \<noteq> STATUS_OK then Exit STATUS_ERROR else Go (m\<lparr>l_conf_tls_options := v\<rparr>)))
      else if c = CHR ''v'' then Some (Go (upd_req (\<lambda>r. r\<lparr>rq_save := True\<rparr>) (upd_cfg (\<lambda>k. k\<lparr>g_verbose := True\<rparr>) m)))
      else if c = CHR ''c'' then Some (Go (upd_cfg (\<lambda>k. k\<lparr>g_color := False\<rparr>) m))
      else if c = CHR ''C'' then Some (Go (m\<lparr>l_show_response_codes := True\<rparr>))
      else if c = CHR ''L'' then Some (Go (m\<lparr>l_show_response_codes := True, l_show_per_interval := True\<rparr>))
      else if c = CHR ''j'' then Some (Go (m\<lparr>l_display_results_json_flag := True\<rparr>))
      else if c = CHR ''o'' then (case optarg of None \<Rightarrow> None | Some s \<Rightarrow> Some (Go (m\<lparr>l_output_file := s\<rparr>)))
      else if c = CHR ''U'' then opt_num 1 optarg (\<lambda>v. Some (Go (m\<lparr>l_interval_ms := nat v\<rparr>)))
      else if c = CHR ''r'' then Some (Go (opt_trace l_arg m))
      else if c = CHR ''F'' then Some (Go (upd_cfg (\<lambda>k. k\<lparr>g_random_xfwd := True\<rparr>) m))
      else if c = CHR ''?'' then Some (Go m)
      else Some (Go (opt_url (go_operand g) m)))"

text \<open>The loop ends with the value -1 of \<^verbatim>\<open>getopt_long_only\<close>, which is 255 as a character.\<close>

definition OPT_END :: char where "OPT_END = CHR 0xFF"

fun main_opts :: "('f, 'o) main_env \<Rightarrow> getopt list \<Rightarrow> main_st \<Rightarrow> main_st cont option" where
  "main_opts e [] m = None"
| "main_opts e (g # gs) m =
     (case main_opt e g m of
        None \<Rightarrow> None
      | Some (Exit r) \<Rightarrow> Some (Exit r)
      | Some (Go m1) \<Rightarrow> if go_opt g = OPT_END then Some (Go m1) else main_opts e gs m1)"


section \<open>The start\<close>

definition default_tls_options :: "(string \<Rightarrow> int) \<Rightarrow> int" where
  "default_tls_options ssl_op = ssl_op ''SSL_OP_ALL'' OR ssl_op ''SSL_OP_NO_SSLv2'' OR ssl_op ''SSL_OP_NO_SSLv3'' OR
     ssl_op ''SSL_OP_NO_COMPRESSION'' OR ssl_op ''SSL_OP_NO_SESSION_RESUMPTION_ON_RENEGOTIATION''"

definition main_init :: "('f, 'o) main_env \<Rightarrow> main_st" where
  "main_init e =
     \<lparr>l_num_to_request = -1, l_interval_ms = 500, l_num_parallel = 100, l_run_time_ms = -1, l_silent = False,
      l_show_response_codes = False, l_show_per_interval = True, l_display_results_json_flag = False, l_input_flag = False,
      l_wildcarding = True, l_output_file = [], l_ai_family = AF_UNSPEC, l_url = [],
      l_request = snd (set_header ''User-Agent'' (''hurl/'' @ me_version e) (snd (set_header ''Accept'' ''*/*''
        (request_new\<lparr>rq_save := False, rq_keepalive := True\<rparr>)))),
      l_conf_tls_cipher_list = [], l_conf_tls_options = default_tls_options (me_ssl_op e),
      mn_cfg = \<lparr>g_verbose = False, g_color = me_isatty e, g_rate_delta_us = 0, g_num_threads = 1, g_reqs_per_conn = -1,
        g_random_xfwd = False, g_path_multi = False, g_chunk_size_kb = 8\<rparr>,
      mn_stats = True,
      mn_paths = \<lparr>g_path = [], g_path_vector = [], g_path_vector_last_idx = 0, g_path_order_random = True\<rparr>,
      mn_trc_log_level = 0, mn_trc_log_file = None\<rparr>"

text \<open>
  After the options.  The product of threads and connections is one of 32 bits.
\<close>

definition main_paths :: "main_st \<Rightarrow> main_st cont option" where
  "main_paths m =
     (if l_wildcarding m
      then do { (st, _, g) \<leftarrow> special_effects_parse (rq_url_path (l_request m)) (mn_paths m);
                if st \<noteq> STATUS_OK then Some (Exit STATUS_ERROR)
                else let m1 = m\<lparr>mn_paths := g\<rparr>
                     in Some (Go (if length (g_path_vector g) > 1 then upd_cfg (\<lambda>k. k\<lparr>g_path_multi := True\<rparr>) m1 else m1)) }
      else Some (Go (m\<lparr>mn_paths := (mn_paths m)\<lparr>g_path := rq_url_path (l_request m)\<rparr>\<rparr>)))"

definition main_tls_ctx :: "('f, 'o) main_env \<Rightarrow> main_st \<Rightarrow> request \<Rightarrow> bool" where
  "main_tls_ctx e m r =
     (fst (tls_init_ctx (me_ctx e) (l_conf_tls_cipher_list m) (l_conf_tls_options m) [] [] [] [] (rq_h1 r) (me_os e)) \<noteq> None)"

definition main_start :: "('f, 'o) main_env \<Rightarrow> main_st \<Rightarrow> main_st cont option" where
  "main_start e m =
     (case me_rlimit e of
        None \<Rightarrow> Some (Exit STATUS_ERROR)
      | Some rlim_cur \<Rightarrow>
          if rlim_cur < u32 (g_num_threads (mn_cfg m) * l_num_parallel m) then Some (Exit STATUS_ERROR)
          else if \<not> me_signal e then Some (Exit STATUS_ERROR)
          else do {
            (st, r) \<leftarrow> init_with_url (me_parse_url e) (main_tls_ctx e m) (l_url m) (l_request m);
            if st \<noteq> STATUS_OK then Some (Exit STATUS_ERROR)
            else do {
              (st2, h, _) \<leftarrow> nlookup (me_dns e) (rq_host r) (rq_port r) host_info_new (l_ai_family m) (me_time e);
              if st2 \<noteq> STATUS_OK then Some (Exit STATUS_ERROR)
              else main_paths (m\<lparr>l_request := r\<lparr>rq_host_info := h\<rparr>\<rparr>) } })"

text \<open>The message printed before the threads start.\<close>

definition main_banner :: "main_st \<Rightarrow> string" where
  "main_banner m =
     (if g_verbose (mn_cfg m) \<or> l_silent m then []
      else ''Running '' @ nat_str (g_num_threads (mn_cfg m)) @ '' threads '' @ nat_str (l_num_parallel m) @
        '' parallel connections per thread with '' @
        (if g_reqs_per_conn (mn_cfg m) < 0 then ''infinite requests per connection''
         else nat_str (nat (g_reqs_per_conn (mn_cfg m))) @ '' requests per connection'') @ [CHR 0x0A])"

section \<open>The threads\<close>

text \<open>How many requests a thread is to send; the first one gets the remainder.\<close>

definition thread_share :: "main_st \<Rightarrow> nat \<Rightarrow> int" where
  "thread_share m i =
     (let n = int (g_num_threads (mn_cfg m)) in
      if l_num_to_request m > 0
      then let per = i32 (l_num_to_request m div n)
           in if i = 0 then i32 (per + l_num_to_request m mod n) else per
      else -1)"

text \<open>The constructor of \<^verbatim>\<open>t_hurl\<close>, then \<^verbatim>\<open>init\<close>; \<open>os\<close> is the system with the new event loop.\<close>

definition t_hurl_new :: "hurl_cfg \<Rightarrow> request \<Rightarrow> nat \<Rightarrow> int \<Rightarrow> path_globals \<Rightarrow> 'o \<Rightarrow> ('o, 'x, 's) hworld" where
  "t_hurl_new cfg r max_parallel num_to_request g os =
     \<lparr>event_pq = [], ev_store = Map.empty, fd_store = Map.empty, next_addr = 0, tick = 0, evr_stopped = False, w_os = os,
      conns = Map.empty, sessions = Map.empty, h_stopped = True, h_nconn_set = {},
      h_stat = \<lparr>ts_stat = t_stat_cntr_new, ts_codes = []\<rparr>, h_num_in_progress = 0,
      h_orphan_in_q = nbq_new (g_chunk_size_kb cfg * 1024), h_orphan_out_q = nbq_new (g_chunk_size_kb cfg * 1024),
      h_request = r, h_is_initd = False, h_num_conn_parallel_max = max_parallel, h_num_to_request = num_to_request,
      g_test_finished = False, g_paths = g, w_out = []\<rparr>"

definition t_hurl_init :: "('o, 'x, 's) hworld \<Rightarrow> ('o, 'x, 's) hworld" where
  "t_hurl_init w = (if h_is_initd w then w else w\<lparr>h_is_initd := True\<rparr>)"

definition main_threads :: "(nat \<Rightarrow> 'o) \<Rightarrow> main_st \<Rightarrow> ('o, 'x, 's) hworld list" where
  "main_threads os m =
     map (\<lambda>i. t_hurl_init (t_hurl_new (mn_cfg m) (l_request m) (l_num_parallel m) (thread_share m i) (mn_paths m) (os i)))
       [0..<g_num_threads (mn_cfg m)]"

text \<open>The program up to the start of its threads.\<close>

definition main_up :: "('f, 'o) main_env \<Rightarrow> getopt list \<Rightarrow> main_st cont option" where
  "main_up e gs =
     (case main_opts e gs (main_init e) of
        None \<Rightarrow> None
      | Some (Exit r) \<Rightarrow> Some (Exit r)
      | Some (Go m) \<Rightarrow> main_start e m)"

section \<open>Laws: the options\<close>

text \<open>What holds of the settings after each option that is accepted.\<close>

definition numbers_ok :: "main_st \<Rightarrow> bool" where
  "numbers_ok m \<longleftrightarrow>
     1 \<le> l_num_parallel m \<and> l_num_parallel m < 2 ^ 31 \<and>
     (l_num_to_request m = -1 \<or> 1 \<le> l_num_to_request m \<and> l_num_to_request m < 2 ^ 31) \<and>
     1 \<le> l_interval_ms m \<and> l_interval_ms m < 2 ^ 31 \<and>
     (l_run_time_ms m = -1 \<or> 1000 \<le> l_run_time_ms m \<and> l_run_time_ms m < 2 ^ 31)"

definition globals_ok :: "hurl_cfg \<Rightarrow> bool" where
  "globals_ok k \<longleftrightarrow> g_num_threads k < 2 ^ 31 \<and> g_rate_delta_us k \<le> 1000000 \<and>
     (g_reqs_per_conn k = -1 \<or> 1 \<le> g_reqs_per_conn k \<and> g_reqs_per_conn k < 2 ^ 31) \<and>
     1 \<le> g_chunk_size_kb k \<and> g_chunk_size_kb k \<le> 1024 \<and> \<not> g_path_multi k"

definition request_ok :: "request \<Rightarrow> bool" where
  "request_ok r \<longleftrightarrow> headers_ok (rq_headers r) \<and> (\<forall>b. rq_body_q r = Some b \<longrightarrow> nbq_inv b) \<and> length (rq_verb r) \<le> 64 \<and>
     1000 \<le> rq_timeout_ms r \<and> rq_timeout_ms r < 2 ^ 31 \<and> rq_url_path r = [] \<and> rq_url_query r = [] \<and>
     rq_expect_resp_body_flag r \<and> \<not> rq_connect_only r"

definition opts_ok :: "main_st \<Rightarrow> bool" where
  "opts_ok m \<longleftrightarrow> numbers_ok m \<and> globals_ok (mn_cfg m) \<and> request_ok (l_request m) \<and>
     g_path_vector (mn_paths m) = [] \<and> g_path (mn_paths m) = [] \<and>
     (g_reqs_per_conn (mn_cfg m) = 1 \<longrightarrow> \<not> rq_keepalive (l_request m))"

lemma opts_ok_fields [simp]:
  "opts_ok (m\<lparr>l_ai_family := a\<rparr>) = opts_ok m" "opts_ok (m\<lparr>l_wildcarding := b\<rparr>) = opts_ok m"
  "opts_ok (m\<lparr>l_silent := b\<rparr>) = opts_ok m" "opts_ok (m\<lparr>mn_stats := b\<rparr>) = opts_ok m"
  "opts_ok (m\<lparr>l_show_response_codes := b\<rparr>) = opts_ok m" "opts_ok (m\<lparr>l_show_per_interval := b\<rparr>) = opts_ok m"
  "opts_ok (m\<lparr>l_display_results_json_flag := b\<rparr>) = opts_ok m" "opts_ok (m\<lparr>l_output_file := s\<rparr>) = opts_ok m"
  "opts_ok (m\<lparr>l_conf_tls_cipher_list := s\<rparr>) = opts_ok m" "opts_ok (m\<lparr>l_conf_tls_options := v\<rparr>) = opts_ok m"
  "opts_ok (m\<lparr>l_url := s\<rparr>) = opts_ok m" "opts_ok (m\<lparr>l_input_flag := b\<rparr>) = opts_ok m"
  "opts_ok (m\<lparr>mn_trc_log_level := n\<rparr>) = opts_ok m" "opts_ok (m\<lparr>mn_trc_log_file := f\<rparr>) = opts_ok m"
  by (simp_all add: opts_ok_def numbers_ok_def)

lemma s32_bounds: "- (2 ^ 31) \<le> s32 n \<and> s32 n < 2 ^ 31"
  by (auto simp: s32_def Let_def dest: order.strict_trans[OF mod_less_divisor[of "2 ^ 32" n]])

lemma atoi_bounds: "atoi s < 2 ^ 31"
  using s32_bounds by (simp add: atoi_def i32_def Let_def split: prod.split)

text \<open>An option is refused with one of the two exit statuses, or its setting is in range.\<close>

definition settled :: "main_st cont option \<Rightarrow> bool" where
  "settled r \<longleftrightarrow> (\<exists>x. r = Some x \<and> (case x of Exit c \<Rightarrow> c = 0 \<or> c = STATUS_ERROR | Go m \<Rightarrow> opts_ok m))"

lemma settled_simps [simp]:
  "\<not> settled None" "settled (Some (Exit c)) \<longleftrightarrow> c = 0 \<or> c = STATUS_ERROR" "settled (Some (Go m)) \<longleftrightarrow> opts_ok m"
  by (simp_all add: settled_def)

lemma opt_num_settled:
  assumes "arg \<noteq> None" "\<And>v. least \<le> v \<Longrightarrow> v < 2 ^ 31 \<Longrightarrow> arg \<noteq> None \<Longrightarrow> v = atoi (the arg) \<Longrightarrow> settled (f v)"
  shows "settled (opt_num least arg f)"
  using assms atoi_bounds by (auto simp: opt_num_def)

lemma request_ok_header:
  assumes "set_header k v r = (st, r')" "request_ok r"
  shows "st = STATUS_OK" "request_ok r'" "rq_keepalive r' = rq_keepalive r"
  using assms set_header_spec[OF _ assms(1)]
  by (auto simp: request_ok_def set_header_def Let_def split: option.splits if_splits)

text \<open>What the system promises of the files: a reader that delivers what is there, and sizes of 64 bits.\<close>

definition files_ok :: "('f, 'o) main_env \<Rightarrow> ('f \<Rightarrow> byte list) \<Rightarrow> bool" where
  "files_ok e rem \<longleftrightarrow> fd_ok (me_reader e) rem \<and> (\<forall>f b n. fe_stat (me_file e f) = Some (b, n) \<longrightarrow> n < 2 ^ 64)"

lemma opt_data_settled:
  assumes "files_ok e rem" "opts_ok m" "length l_arg < 2 ^ 64"
  shows "settled (opt_data e l_arg m)"
proof -
  have n: "nbq_inv (nbq_new 8192)" "m_cur_write_offset (nbq_new 8192) = 0" using nbq_new_inv[of 8192] by (simp_all add: nbq_new_def del: nbq_new_inv)
  have set: "opts_ok (upd_req (\<lambda>r. (snd (set_header k v r))\<lparr>rq_body_q := Some q\<rparr>) m)" if "nbq_inv q" for k v q
    using assms(2) that request_ok_header[of k v "l_request m", OF surjective_pairing]
    by (auto simp: opts_ok_def upd_req_def numbers_ok_def request_ok_def)
  show ?thesis
  proof (cases "l_arg \<noteq> [] \<and> hd l_arg = CHR ''@''")
    case False
    obtain q' where "nbq_write (Some l_arg) (nbq_new 8192) = Some (int (length l_arg), q')" "write_post (nbq_new 8192) l_arg q'"
      using nbq_write_spec[OF n(1), of l_arg] n(2) assms(3) by auto
    then show ?thesis using False set[of q'] by (auto simp: opt_data_def write_post_def)
  next
    case True
    define f where "f = tl l_arg"
    have "\<exists>st k q. read_file_nbq (me_reader e) (me_file e f) (nbq_new 8192) (me_fd e f) = Some (st, k, q) \<and> nbq_inv q"
    proof (cases "fe_stat (me_file e f)")
      case None
      then show ?thesis using n(1) by (simp add: read_file_nbq_def)
    next
      case (Some x)
      obtain b len where x: "x = (b, len)" by (cases x)
      then have "len < 2 ^ 64" using assms(1) Some by (simp add: files_ok_def)
      then obtain res st q' s' where "write_fd (me_reader e) len 0 (nbq_new 8192) (me_fd e f) = Some (res, st, q', s')" "nbq_inv q'"
        using write_fd_spec[of "me_reader e" rem "nbq_new 8192" len 0 "me_fd e f"] assms(1) n
        by (auto simp: files_ok_def write_post_def)
      then show ?thesis using Some x n(1) by (simp add: read_file_nbq_def)
    qed
    then show ?thesis using True set by (auto simp: opt_data_def f_def)
  qed
qed

lemma opt_header_settled: "opts_ok m \<Longrightarrow> settled (Some (opt_header l_arg m))"
  by (auto simp: opt_header_def opts_ok_def numbers_ok_def status_defs request_ok_header split: option.splits prod.splits)

lemma opt_mode_settled: "opts_ok m \<Longrightarrow> settled (Some (opt_mode l_arg m))"
  by (simp add: opt_mode_def opts_ok_def numbers_ok_def)

lemma opt_trace_ok: "opts_ok m \<Longrightarrow> opts_ok (opt_trace l_arg m)"
  by (simp add: opt_trace_def Let_def split: option.split)

lemma opt_url_ok: "opts_ok m \<Longrightarrow> opts_ok (opt_url operand m)"
  by (simp add: opt_url_def Let_def split: option.split)

text \<open>What is relied on of an answer of \<^verbatim>\<open>getopt_long_only\<close>: an option that needs an argument has one.\<close>

definition needs_arg :: "char set" where
  "needs_arg = set ''dpfNtHXAMlTISyOoUr''"

definition getopt_ok :: "getopt \<Rightarrow> bool" where
  "getopt_ok g \<longleftrightarrow> (go_opt g \<in> needs_arg \<longrightarrow> go_optarg g \<noteq> None) \<and> (\<forall>s. go_optarg g = Some s \<longrightarrow> length s < 2 ^ 64)"

text \<open>No number of seconds overflows when it is made milliseconds.\<close>

definition seconds_ok :: "getopt \<Rightarrow> bool" where
  "seconds_ok g \<longleftrightarrow> (\<forall>s. (go_opt g = CHR ''l'' \<or> go_opt g = CHR ''T'') \<and> go_optarg g = Some s \<longrightarrow> atoi s < 2147484)"

lemma opts_ok_numbers:
  assumes "opts_ok m"
  shows "1 \<le> v \<Longrightarrow> v < 2 ^ 31 \<Longrightarrow> opts_ok (m\<lparr>l_num_parallel := nat v\<rparr>)"
    "1 \<le> v \<Longrightarrow> v < 2 ^ 31 \<Longrightarrow> opts_ok (m\<lparr>l_num_to_request := v\<rparr>)"
    "1 \<le> v \<Longrightarrow> v < 2 ^ 31 \<Longrightarrow> opts_ok (m\<lparr>l_interval_ms := nat v\<rparr>)"
    "1000 \<le> v \<Longrightarrow> v < 2 ^ 31 \<Longrightarrow> opts_ok (m\<lparr>l_run_time_ms := v\<rparr>)"
  using assms unfolding opts_ok_def numbers_ok_def by (simp_all add: Suc_le_eq nat_less_iff)

lemma opts_ok_globals:
  assumes "opts_ok m"
  shows "1 \<le> v \<Longrightarrow> v < 2 ^ 31 \<Longrightarrow> v \<noteq> 1 \<Longrightarrow> opts_ok (upd_cfg (\<lambda>k. k\<lparr>g_reqs_per_conn := v\<rparr>) m)"
    "opts_ok (upd_req (\<lambda>r. r\<lparr>rq_keepalive := False\<rparr>) (upd_cfg (\<lambda>k. k\<lparr>g_reqs_per_conn := 1\<rparr>) m))"
    "0 \<le> v \<Longrightarrow> v < 2 ^ 31 \<Longrightarrow> opts_ok (upd_cfg (\<lambda>k. k\<lparr>g_num_threads := nat v\<rparr>) m)"
    "1 \<le> v \<Longrightarrow> opts_ok (upd_cfg (\<lambda>k. k\<lparr>g_rate_delta_us := nat (1000000 div v)\<rparr>) m)"
    "1 \<le> v \<Longrightarrow> v \<le> 1024 \<Longrightarrow> opts_ok (upd_cfg (\<lambda>k. k\<lparr>g_chunk_size_kb := nat v\<rparr>) m)"
    "opts_ok (upd_cfg (\<lambda>k. k\<lparr>g_color := b\<rparr>) m)" "opts_ok (upd_cfg (\<lambda>k. k\<lparr>g_random_xfwd := b\<rparr>) m)"
    "opts_ok (upd_cfg (\<lambda>k. k\<lparr>g_verbose := b\<rparr>) m)"
proof -
  have "nat (1000000 div v) \<le> 1000000" if "1 \<le> v" for v :: int
    using that div_by_1[of "1000000::int"] zdiv_mono2[of 1000000 1 v] by simp
  then show "1 \<le> v \<Longrightarrow> opts_ok (upd_cfg (\<lambda>k. k\<lparr>g_rate_delta_us := nat (1000000 div v)\<rparr>) m)"
    using assms unfolding opts_ok_def numbers_ok_def globals_ok_def upd_cfg_def by simp
qed (use assms in \<open>unfold opts_ok_def numbers_ok_def globals_ok_def request_ok_def upd_req_def upd_cfg_def, simp_all add: Suc_le_eq nat_less_iff nat_le_iff\<close>)

lemma opts_ok_request:
  assumes "opts_ok m"
  shows "opts_ok (upd_req (\<lambda>r. r\<lparr>rq_h1 := b\<rparr>) m)" "opts_ok (upd_req (\<lambda>r. r\<lparr>rq_save := b\<rparr>) m)"
    "length v \<le> 64 \<Longrightarrow> opts_ok (upd_req (\<lambda>r. r\<lparr>rq_verb := v\<rparr>) m)"
    "1000 \<le> t \<Longrightarrow> t < 2 ^ 31 \<Longrightarrow> opts_ok (upd_req (\<lambda>r. r\<lparr>rq_timeout_ms := nat t\<rparr>) m)"
  using assms unfolding opts_ok_def numbers_ok_def request_ok_def upd_req_def by (simp_all add: nat_less_iff le_nat_iff)

lemma if_settled: "(b \<Longrightarrow> settled x) \<Longrightarrow> settled y \<Longrightarrow> settled (if b then x else y)"
  by simp

lemma main_opt_settled:
  assumes "files_ok e rem" "getopt_ok g" "seconds_ok g" "opts_ok m"
  shows "settled (main_opt e g m)"
proof -
  have arg: "c = go_opt g \<Longrightarrow> c \<in> needs_arg \<Longrightarrow> go_optarg g \<noteq> None" for c
    using assms(2) by (auto simp: getopt_ok_def)
  have len: "length (case go_optarg g of None \<Rightarrow> [] | Some s \<Rightarrow> s) < 2 ^ 64"
    using assms(2) by (auto simp: getopt_ok_def split: option.split)
  have num: "go_opt g = c \<Longrightarrow> c \<in> needs_arg \<Longrightarrow> (\<And>v. least \<le> v \<Longrightarrow> v < 2 ^ 31 \<Longrightarrow> settled (f v)) \<Longrightarrow>
      settled (opt_num least (go_optarg g) f)" for c least f
    using arg by (intro opt_num_settled) auto
  have secs: "go_opt g = c \<Longrightarrow> c = CHR ''l'' \<or> c = CHR ''T'' \<Longrightarrow> (\<And>t. 1000 \<le> t \<Longrightarrow> t < 2 ^ 31 \<Longrightarrow> opts_ok (f t)) \<Longrightarrow>
      settled (opt_num 1 (go_optarg g) (\<lambda>v. map_option (\<lambda>t. Go (f t)) (times1000 v)))" for c f
    using assms(3) arg by (intro opt_num_settled) (auto simp: seconds_ok_def needs_arg_def times1000_def)
  note nums = opts_ok_numbers[OF assms(4)] opts_ok_globals[OF assms(4)] opts_ok_request[OF assms(4)]
  have verbose: "opts_ok (upd_req (\<lambda>r. r\<lparr>rq_save := True\<rparr>) (upd_cfg (\<lambda>k. k\<lparr>g_verbose := True\<rparr>) m))"
    by (rule opts_ok_request(2)) (rule nums)
  have chars: "CHR ''p'' \<in> needs_arg" "CHR ''f'' \<in> needs_arg" "CHR ''N'' \<in> needs_arg" "CHR ''t'' \<in> needs_arg" "CHR ''A'' \<in> needs_arg"
    "CHR ''S'' \<in> needs_arg" "CHR ''U'' \<in> needs_arg" "CHR ''M'' \<in> needs_arg" "CHR ''o'' \<in> needs_arg"
    by (simp_all add: needs_arg_def)
  show ?thesis
    unfolding main_opt_def Let_def
  proof (intro if_settled, goal_cases)
    case 5 show ?case by (rule opt_data_settled[OF assms(1,4) len])
  next
    case 6 then show ?case by (intro num[OF _ chars(1)]) (simp_all add: nums)
  next
    case 7 then show ?case by (intro num[OF _ chars(2)]) (simp_all add: nums)
  next
    case 8 then show ?case by (intro num[OF _ chars(3)]) (simp_all add: nums)
  next
    case 10 then show ?case by (intro num[OF _ chars(4)]) (simp_all add: nums)
  next
    case 11 show ?case by (rule opt_header_settled[OF assms(4)])
  next
    case 13 then show ?case by (intro num[OF _ chars(5)]) (simp_all add: nums)
  next
    case 14 then show ?case using opt_mode_settled[OF assms(4)] arg[OF _ chars(8)] by (auto split: option.split)
  next
    case 15 show ?case by (rule secs[OF 15]) (simp_all add: nums)
  next
    case 17 show ?case by (rule secs[OF 17]) (simp_all add: nums)
  next
    case 20 then show ?case by (intro num[OF _ chars(6)]) (simp_all add: nums)
  next
    case 28 then show ?case using assms(4) arg[OF _ chars(9)] by (auto split: option.split)
  next
    case 29 then show ?case by (intro num[OF _ chars(7)]) (simp_all add: nums)
  qed (use assms(4) in \<open>simp_all add: nums verbose opt_trace_ok opt_url_ok split: prod.split\<close>)
qed

lemma main_opts_settled:
  assumes "files_ok e rem" "\<forall>g \<in> set gs. getopt_ok g \<and> seconds_ok g" "\<exists>g \<in> set gs. go_opt g = OPT_END" "opts_ok m"
  shows "settled (main_opts e gs m)"
  using assms(2-4)
proof (induction gs arbitrary: m)
  case (Cons g gs)
  have "settled (main_opt e g m)" using Cons.prems assms(1) by (intro main_opt_settled) simp_all
  then obtain r where r: "main_opt e g m = Some r" "case r of Exit c \<Rightarrow> c = 0 \<or> c = STATUS_ERROR | Go m \<Rightarrow> opts_ok m"
    by (auto simp: settled_def)
  show ?case
  proof (cases r)
    case (Exit c)
    then show ?thesis using r by simp
  next
    case (Go m1)
    then show ?thesis using r Cons.IH[of m1] Cons.prems by auto
  qed
qed simp

lemma main_init_ok: "opts_ok (main_init e)"
proof -
  have "request_ok (request_new\<lparr>rq_save := False, rq_keepalive := True\<rparr>)"
    by (simp add: request_ok_def request_new_def headers_ok_def)
  then have "request_ok (snd (set_header ''User-Agent'' v (snd (set_header ''Accept'' w
      (request_new\<lparr>rq_save := False, rq_keepalive := True\<rparr>)))))" for v w
    by (intro request_ok_header(2)[OF surjective_pairing])
  then show ?thesis
    by (simp add: opts_ok_def numbers_ok_def globals_ok_def main_init_def)
qed

section \<open>Laws: the start\<close>

text \<open>What reading a URL leaves of a request.\<close>

definition same_content :: "request \<Rightarrow> request \<Rightarrow> bool" where
  "same_content r r' \<longleftrightarrow> rq_headers r' = rq_headers r \<and> rq_body_q r' = rq_body_q r \<and> rq_verb r' = rq_verb r"

lemma same_content_refl: "same_content r r"
  by (simp add: same_content_def)

lemma same_content_trans: "same_content r r1 \<Longrightarrow> same_content r1 r2 \<Longrightarrow> same_content r r2"
  by (simp add: same_content_def)

lemma url_same_content:
  "url_schema u f r = Some r' \<Longrightarrow> same_content r r'" "same_content r (url_parts u f r)" "same_content r (url_defaults r)"
  "same_content r (r\<lparr>rq_port := n\<rparr>)" "same_content r (r\<lparr>rq_tls_ctx := b\<rparr>)"
  by (auto simp: same_content_def url_schema_def url_parts_def url_defaults_def split: option.splits if_splits)

lemma init_with_url_keeps:
  assumes "init_with_url pu ctx u r = Some (st, r')"
  shows "same_content r r'"
proof -
  define u1 where "u1 = (if has_substr ''://'' u then u else ''http://'' @ u)"
  show ?thesis
  proof (cases "pu u1")
    case None
    then show ?thesis using assms by (simp add: init_with_url_def Let_def same_content_refl flip: u1_def)
  next
    case (Some f)
    show ?thesis
    proof (cases "url_schema u1 f (r\<lparr>rq_port := 0\<rparr>)")
      case None
      then have "r' = r\<lparr>rq_port := 0\<rparr>" using assms Some by (simp add: init_with_url_def Let_def flip: u1_def)
      then show ?thesis using url_same_content(4) by simp
    next
      case r1: (Some r1)
      define r2 where "r2 = url_defaults (url_parts u1 f r1)"
      have "same_content r r2"
        unfolding r2_def using url_same_content(4)[of r 0] url_same_content(1)[OF r1] url_same_content(2,3)
        by (meson same_content_trans)
      moreover have "r' = r2 \<or> r' = r2\<lparr>rq_tls_ctx := True\<rparr>"
        using assms Some r1 by (auto simp: init_with_url_def Let_def r2_def simp flip: u1_def split: if_splits)
      ultimately show ?thesis using url_same_content(5)[of r2 True] by (auto intro: same_content_trans)
    qed
  qed
qed

text \<open>The settings the threads start from.\<close>

definition started :: "main_st \<Rightarrow> main_st \<Rightarrow> bool" where
  "started m m' \<longleftrightarrow> numbers_ok m' \<and> l_num_parallel m' = l_num_parallel m \<and> l_num_to_request m' = l_num_to_request m \<and>
     (\<exists>b. mn_cfg m' = (mn_cfg m)\<lparr>g_path_multi := b\<rparr>) \<and>
     headers_ok (rq_headers (l_request m')) \<and> (\<forall>b. rq_body_q (l_request m') = Some b \<longrightarrow> nbq_inv b) \<and> length (rq_verb (l_request m')) \<le> 64"

lemma main_paths_started:
  assumes "main_paths m = Some (Go m')"
  shows "l_request m' = l_request m" "l_num_parallel m' = l_num_parallel m" "l_num_to_request m' = l_num_to_request m"
    "numbers_ok m' = numbers_ok m" "\<exists>b. mn_cfg m' = (mn_cfg m)\<lparr>g_path_multi := b\<rparr>"
proof -
  have "\<exists>g b. m' = (if b then upd_cfg (\<lambda>k. k\<lparr>g_path_multi := True\<rparr>) (m\<lparr>mn_paths := g\<rparr>) else m\<lparr>mn_paths := g\<rparr>)"
  proof (cases "l_wildcarding m")
    case True
    then obtain st p g where "special_effects_parse (rq_url_path (l_request m)) (mn_paths m) = Some (st, p, g)" "st = STATUS_OK"
      using assms by (auto simp: main_paths_def bind_eq_Some_conv split: if_splits)
    then show ?thesis
      using assms True by (intro exI[of _ g] exI[of _ "length (g_path_vector g) > 1"]) (simp add: main_paths_def Let_def split: if_splits)
  next
    case False
    then show ?thesis
      using assms by (intro exI[of _ "(mn_paths m)\<lparr>g_path := rq_url_path (l_request m)\<rparr>"] exI[of _ False]) (simp add: main_paths_def)
  qed
  then obtain g b where m': "m' = (if b then upd_cfg (\<lambda>k. k\<lparr>g_path_multi := True\<rparr>) (m\<lparr>mn_paths := g\<rparr>) else m\<lparr>mn_paths := g\<rparr>)"
    by blast
  show "l_request m' = l_request m" "l_num_parallel m' = l_num_parallel m" "l_num_to_request m' = l_num_to_request m"
    "numbers_ok m' = numbers_ok m"
    by (simp_all add: m' upd_cfg_def numbers_ok_def)
  show "\<exists>b. mn_cfg m' = (mn_cfg m)\<lparr>g_path_multi := b\<rparr>"
    by (rule exI[of _ "if b then True else g_path_multi (mn_cfg m)"]) (simp add: m' upd_cfg_def)
qed

lemma main_start_started:
  assumes "main_start e m = Some (Go m')" "opts_ok m"
  shows "started m m'" "\<exists>lim. me_rlimit e = Some lim \<and> u32 (g_num_threads (mn_cfg m) * l_num_parallel m) \<le> lim"
proof -
  obtain lim where lim: "me_rlimit e = Some lim" "\<not> lim < u32 (g_num_threads (mn_cfg m) * l_num_parallel m)" "me_signal e"
    using assms(1) by (auto simp: main_start_def split: option.splits if_splits)
  obtain st r where r: "init_with_url (me_parse_url e) (main_tls_ctx e m) (l_url m) (l_request m) = Some (st, r)" "st = STATUS_OK"
    using assms(1) lim by (auto simp: main_start_def bind_eq_Some_conv split: if_splits)
  obtain h where p: "main_paths (m\<lparr>l_request := r\<lparr>rq_host_info := h\<rparr>\<rparr>) = Some (Go m')"
    using assms(1) lim r by (auto simp: main_start_def bind_eq_Some_conv split: if_splits)
  note f = main_paths_started[OF p]
  have n: "numbers_ok (m\<lparr>l_request := r\<lparr>rq_host_info := h\<rparr>\<rparr>) = numbers_ok m" by (simp add: numbers_ok_def)
  have q: "request_ok (l_request m)" "numbers_ok m" using assms(2) by (simp_all add: opts_ok_def)
  show "started m m'"
    using f q n init_with_url_keeps[OF r(1)] by (simp add: started_def same_content_def request_ok_def)
  show "\<exists>lim. me_rlimit e = Some lim \<and> u32 (g_num_threads (mn_cfg m) * l_num_parallel m) \<le> lim"
    using lim by auto
qed

text \<open>What the program has accepted when it starts its threads.\<close>

lemma main_up_started:
  assumes "main_up e gs = Some (Go m)" "files_ok e rem" "\<forall>g \<in> set gs. getopt_ok g \<and> seconds_ok g" "\<exists>g \<in> set gs. go_opt g = OPT_END"
  obtains m0 where "opts_ok m0" "main_start e m0 = Some (Go m)" "started m0 m"
proof -
  have "settled (main_opts e gs (main_init e))"
    using main_opts_settled[OF assms(2-4) main_init_ok] .
  then obtain x where x: "main_opts e gs (main_init e) = Some x" "case x of Exit c \<Rightarrow> c = 0 \<or> c = STATUS_ERROR | Go m \<Rightarrow> opts_ok m"
    by (auto simp: settled_def)
  then obtain m0 where "opts_ok m0" "main_start e m0 = Some (Go m)"
    using assms(1) by (cases x) (simp_all add: main_up_def)
  then show ?thesis using that main_start_started(1) by blast
qed

text \<open>The shares of the threads.\<close>

lemma i32_id: "- (2 ^ 31) \<le> i \<Longrightarrow> i < 2 ^ 31 \<Longrightarrow> i32 i = i"
  by (simp add: i32_def s32_u32_of_int)

lemma thread_share_value:
  assumes "0 < n" "n < 2 ^ 31" "n = g_num_threads (mn_cfg m)" "1 \<le> l_num_to_request m" "l_num_to_request m < 2 ^ 31"
  shows "thread_share m i = l_num_to_request m div int n + (if i = 0 then l_num_to_request m mod int n else 0)"
proof -
  define k where "k = l_num_to_request m"
  have k: "1 \<le> k" "k < 2 ^ 31" using assms by (simp_all add: k_def)
  have "0 \<le> k div int n" "0 \<le> k mod int n" using assms(1) k by (simp_all add: pos_imp_zdiv_nonneg_iff)
  moreover have "k div int n + k mod int n \<le> int n * (k div int n) + k mod int n"
  proof -
    have "1 * (k div int n) \<le> int n * (k div int n)"
      using assms(1) \<open>0 \<le> k div int n\<close> by (intro mult_right_mono) simp_all
    then show ?thesis by linarith
  qed
  moreover have "int n * (k div int n) + k mod int n = k" by (simp add: mult_div_mod_eq)
  ultimately have "k div int n + k mod int n < 2 ^ 31" "0 \<le> k div int n" "0 \<le> k mod int n" using k by linarith+
  then show ?thesis
    using assms(3) k by (simp add: thread_share_def Let_def i32_id flip: k_def)
qed

lemma thread_share_sum:
  assumes "0 < n" "n < 2 ^ 31" "n = g_num_threads (mn_cfg m)" "1 \<le> l_num_to_request m" "l_num_to_request m < 2 ^ 31"
  shows "(\<Sum>i \<leftarrow> [0..<n]. thread_share m i) = l_num_to_request m"
proof -
  define k where "k = l_num_to_request m"
  have "(\<Sum>i \<leftarrow> [0..<n]. thread_share m i) = (\<Sum>i \<leftarrow> [0..<n]. k div int n + (if i = 0 then k mod int n else 0))"
    by (simp only: thread_share_value[OF assms] k_def)
  also have "\<dots> = (\<Sum>i = 0..<n. k div int n + (if i = 0 then k mod int n else 0))"
    by (simp add: interv_sum_list_conv_sum_set_nat)
  also have "\<dots> = int n * (k div int n) + k mod int n"
    using assms(1) by (simp add: sum.distrib)
  finally show ?thesis by (simp add: k_def mult_div_mod_eq)
qed

section \<open>Laws: the threads\<close>

text \<open>
  The sizes a request may have: the line of the request fits its buffer of 2048 characters when
  path and query have 1973, and what is sent fits in 64 bits.
\<close>

definition sizes_ok :: "main_st \<Rightarrow> bool" where
  "sizes_ok m \<longleftrightarrow> (\<forall>path \<in> drawable (mn_paths m). length (request_uri path (l_request m)) \<le> 1973 \<and>
     (\<forall>r. r = l_request m \<or> g_random_xfwd (mn_cfg m) \<and> (\<exists>a b c d. r = set_random_xfwd_header a b c d (l_request m)) \<longrightarrow>
        length (request_text path r) + length (body_bytes r) < 2 ^ 64))"

lemma c_str_length: "length (c_str s) \<le> length s"
  by (simp add: c_str_def length_takeWhile_le)

lemma started_fits:
  assumes "started m0 m" "sizes_ok m" "path \<in> drawable (mn_paths m)"
    and "r = l_request m \<or> g_random_xfwd (mn_cfg m) \<and> (\<exists>a b c d. r = set_random_xfwd_header a b c d (l_request m))"
  shows "fits path r"
proof -
  have q: "headers_ok (rq_headers (l_request m))" "\<forall>b. rq_body_q (l_request m) = Some b \<longrightarrow> nbq_inv b" "length (rq_verb (l_request m)) \<le> 64"
    using assms(1) by (simp_all add: started_def)
  have r: "headers_ok (rq_headers r)" "rq_body_q r = rq_body_q (l_request m)" "rq_verb r = rq_verb (l_request m)"
      "request_uri path r = request_uri path (l_request m)"
    using assms(4) q(1) by (auto simp: set_random_xfwd_header_eq request_uri_def Let_def intro!: headers_ok_set)
  have "length (request_uri path (l_request m)) \<le> 1973" "length (request_text path r) + length (body_bytes r) < 2 ^ 64"
    using assms(2-4) unfolding sizes_ok_def by blast+
  then show ?thesis
    using q(2,3) r c_str_length[of "rq_verb r"] c_str_length[of "request_uri path r"] by (auto simp: fits_def)
qed

lemma started_sendable:
  assumes "started m0 m" "sizes_ok m"
  shows "sendable (mn_cfg m) (l_request m) (mn_paths m)"
proof -
  have "fits path (l_request m)" "g_random_xfwd (mn_cfg m) \<Longrightarrow> fits path (set_random_xfwd_header a b c d (l_request m))"
    if "path \<in> drawable (mn_paths m)" for path a b c d
    by (rule started_fits[OF assms that], blast)+
  then show ?thesis by (simp add: sendable_def)
qed

text \<open>The contract of the client depends on the settings only by their bounds.\<close>

lemma h1_client_cfg:
  assumes "h1_client sys rx cfg hx" "\<not> g_verbose k" "1 \<le> g_chunk_size_kb k" "g_chunk_size_kb k \<le> 1024"
  shows "h1_client sys rx k hx"
  using assms unfolding h1_client_def h1_sessions_def by auto

lemma new_thread_heap:
  assumes "sendable cfg r g"
  shows "heap_inv H R (sendable cfg) (t_hurl_init (t_hurl_new cfg r par k g os))"
  using assms by (simp add: heap_inv_def t_hurl_init_def t_hurl_new_def accounted_def t_stat_cntr_new_def)

text \<open>The state in which \<^verbatim>\<open>t_run\<close> enters its loop.\<close>

definition t_run_start :: "('o, 'x, 's) hworld \<Rightarrow> ('o, 'x, 's) hworld" where
  "t_run_start w = upd_stat t_stat_cntr_clear (w\<lparr>h_is_initd := True, h_stopped := False\<rparr>)"

lemma t_run_start_loop: "t_run cfg env clk pick wait w = t_run_loop cfg env clk pick wait (t_run_start w)"
  by (simp add: t_run_def t_run_start_def)

lemma t_run_start_heap:
  assumes "sendable cfg r g"
  shows "heap_inv H R (sendable cfg) (t_run_start (t_hurl_init (t_hurl_new cfg r par k g os)))"
  using new_thread_heap[OF assms, of H R par k os]
  by (simp add: heap_inv_def t_run_start_def upd_stat_def accounted_def t_stat_cntr_clear_def t_hurl_init_def t_hurl_new_def)

section \<open>Properties\<close>

text \<open>
  C4: Whatever the command line, reading the options ends: with one of the two exit statuses, or
  with settings that are in range, a well formed set of headers and a well formed body.  The
  only way out of defined behaviour is a number of seconds that overflows in milliseconds.
\<close>

theorem options_checked:
  assumes "files_ok e rem" "\<forall>g \<in> set gs. getopt_ok g \<and> seconds_ok g" "\<exists>g \<in> set gs. go_opt g = OPT_END"
  shows "\<exists>x. main_opts e gs (main_init e) = Some x \<and>
    (x = Exit 0 \<or> x = Exit STATUS_ERROR \<or>
     (\<exists>m. x = Go m \<and>
        1 \<le> l_num_parallel m \<and> l_num_parallel m < 2 ^ 31 \<and> g_num_threads (mn_cfg m) < 2 ^ 31 \<and>
        (l_num_to_request m = -1 \<or> 1 \<le> l_num_to_request m \<and> l_num_to_request m < 2 ^ 31) \<and>
        (l_run_time_ms m = -1 \<or> 1000 \<le> l_run_time_ms m) \<and> 1 \<le> l_interval_ms m \<and> 1000 \<le> rq_timeout_ms (l_request m) \<and>
        (g_reqs_per_conn (mn_cfg m) = -1 \<or> 1 \<le> g_reqs_per_conn (mn_cfg m)) \<and>
        (g_reqs_per_conn (mn_cfg m) = 1 \<longrightarrow> \<not> rq_keepalive (l_request m)) \<and>
        1 \<le> g_chunk_size_kb (mn_cfg m) \<and> g_chunk_size_kb (mn_cfg m) \<le> 1024 \<and> g_rate_delta_us (mn_cfg m) \<le> 1000000 \<and>
        length (rq_verb (l_request m)) \<le> 64 \<and> headers_ok (rq_headers (l_request m)) \<and>
        (\<forall>b. rq_body_q (l_request m) = Some b \<longrightarrow> nbq_inv b)))"
proof -
  have "settled (main_opts e gs (main_init e))"
    using main_opts_settled[OF assms main_init_ok] .
  then obtain x where x: "main_opts e gs (main_init e) = Some x" "case x of Exit c \<Rightarrow> c = 0 \<or> c = STATUS_ERROR | Go m \<Rightarrow> opts_ok m"
    by (auto simp: settled_def)
  show ?thesis
  proof (cases x)
    case (Exit c)
    then show ?thesis using x by auto
  next
    case (Go m)
    then have "opts_ok m" using x by simp
    then have "numbers_ok m" "globals_ok (mn_cfg m)" "request_ok (l_request m)"
        "g_reqs_per_conn (mn_cfg m) = 1 \<longrightarrow> \<not> rq_keepalive (l_request m)"
      by (simp_all add: opts_ok_def)
    then show ?thesis using x(1) Go by (auto simp: numbers_ok_def globals_ok_def request_ok_def)
  qed
qed

text \<open>
  C5: The threads that are started share the number of fetches asked for: the sum of what each is to send is
  that number, no share is negative, and without a number no thread has a limit.
\<close>

theorem requests_split:
  assumes "main_up e gs = Some (Go m)" "files_ok e rem" "\<forall>g \<in> set gs. getopt_ok g \<and> seconds_ok g" "\<exists>g \<in> set gs. go_opt g = OPT_END"
    and "0 < g_num_threads (mn_cfg m)"
  shows "length (main_threads os m) = g_num_threads (mn_cfg m) \<and>
    (if l_num_to_request m = -1 then \<forall>w \<in> set (main_threads os m). h_num_to_request w = -1
     else (\<Sum>w \<leftarrow> main_threads os m. h_num_to_request w) = l_num_to_request m \<and> (\<forall>w \<in> set (main_threads os m). 0 \<le> h_num_to_request w))"
proof -
  obtain m0 where m0: "opts_ok m0" "started m0 m" using main_up_started[OF assms(1-4)] by metis
  define n where "n = g_num_threads (mn_cfg m)"
  have n: "0 < n" "n < 2 ^ 31" using m0 assms(5) by (auto simp: started_def opts_ok_def globals_ok_def n_def)
  have k: "l_num_to_request m = -1 \<or> 1 \<le> l_num_to_request m \<and> l_num_to_request m < 2 ^ 31"
    using m0(2) unfolding started_def numbers_ok_def by blast
  have share: "h_num_to_request (t_hurl_init (t_hurl_new cfg r par s g o1)) = s" for cfg r par s g o1
    by (simp add: t_hurl_init_def t_hurl_new_def)
  show ?thesis
  proof (cases "l_num_to_request m = -1")
    case True
    then show ?thesis by (auto simp: main_threads_def share thread_share_def)
  next
    case False
    then have k1: "1 \<le> l_num_to_request m" "l_num_to_request m < 2 ^ 31" using k by simp_all
    have "(\<Sum>w \<leftarrow> main_threads os m. h_num_to_request w) = (\<Sum>i \<leftarrow> [0..<n]. thread_share m i)"
      by (simp add: main_threads_def share n_def comp_def)
    moreover have "0 \<le> thread_share m i" for i
      using thread_share_value[OF n n_def k1, of i] n(1) k1 by (simp add: pos_imp_zdiv_nonneg_iff)
    ultimately show ?thesis
      using False thread_share_sum[OF n n_def k1] by (auto simp: main_threads_def share n_def)
  qed
qed

text \<open>
  C3: From the command line to the rounds of the threads, for a plain http URL, without \<^verbatim>\<open>-v\<close> and
  with requests that fit their buffers: every thread the program starts ends each round of its loop
  without undefined behaviour, keeps the invariant of its heap, stays within its limit of connections
  and has only live connections registered, whatever the kernel answers and the parser reports.
  All connections are HTTP/1 over TCP then, the only class of \<open>tcp_classes\<close>.
\<close>

theorem program_threads_safe:
  assumes "h1_client sys rx cfg0 hx" "registry sys hx kinv reg" "reports_registered kinv reg wait"
    and "main_up e gs = Some (Go m)" "files_ok e rem" "\<forall>g \<in> set gs. getopt_ok g \<and> seconds_ok g" "\<exists>g \<in> set gs. go_opt g = OPT_END"
    and "rq_scheme (l_request m) = SCHEME_TCP" "\<not> g_verbose (mn_cfg m)" "sizes_ok m" "\<forall>i. kinv (os i) \<and> reg (os i) = Map.empty"
    and "w \<in> set (main_threads os m)"
  shows "\<exists>w'. t_rounds n (mn_cfg m) (h1_env (mn_cfg m) sys (tcp_classes sys) hx) clk pick wait (t_run_start w) = Some w' \<and>
    h1_heap (mn_cfg m) sys w' \<and> card (h_nconn_set w') \<le> h_num_conn_parallel_max w' \<and> registered_live kinv reg w'"
proof -
  obtain m0 where m0: "opts_ok m0" "started m0 m" using main_up_started[OF assms(4-7)] by metis
  have "1 \<le> g_chunk_size_kb (mn_cfg m)" "g_chunk_size_kb (mn_cfg m) \<le> 1024"
    using m0 by (auto simp: started_def opts_ok_def globals_ok_def)
  then have t: "h1_thread sys rx (mn_cfg m) hx kinv reg"
    using h1_client_cfg[OF assms(1,9)] assms(2) by (simp add: h1_thread_def)
  obtain i where w: "w = t_hurl_init (t_hurl_new (mn_cfg m) (l_request m) (l_num_parallel m) (thread_share m i) (mn_paths m) (os i))"
    using assms(12) by (auto simp: main_threads_def)
  have "heap_inv (conn_good (tcp_classes sys :: scheme \<Rightarrow> (unit, ('a, unit, 'b http_sub) hworld) nc_class option) (\<lambda>_ _. True))
      (Hurl_Machine.ready (\<lambda>s. hs_resp s \<noteq> None)) (sendable (mn_cfg m)) (t_run_start w)"
    unfolding w by (rule t_run_start_heap[OF started_sendable[OF m0(2) assms(10)]])
  then have "thread_inv (conn_good (tcp_classes sys :: scheme \<Rightarrow> (unit, ('a, unit, 'b http_sub) hworld) nc_class option) (\<lambda>_ _. True))
      (Hurl_Machine.ready (\<lambda>s. hs_resp s \<noteq> None)) (sendable (mn_cfg m)) (t_run_start w)"
    unfolding thread_inv_def by (simp add: w t_run_start_def upd_stat_def t_hurl_init_def t_hurl_new_def)
  moreover have "registered_live kinv reg (t_run_start w)"
    using assms(11) by (simp add: registered_live_def w t_run_start_def upd_stat_def t_hurl_init_def t_hurl_new_def)
  ultimately show ?thesis
    using h1_thread.rounds_ok[OF t assms(3), of "t_run_start w" n clk pick] unfolding thread_inv_def h1_heap_def by simp
qed


section \<open>A run of the program\<close>

text \<open>\<^verbatim>\<open>hurl -p 2 -f 5 -t 2 h/x\<close>\<close>

definition demo_opts :: "getopt list" where
  "demo_opts =
     [\<lparr>go_opt = CHR ''p'', go_optarg = Some ''2'', go_operand = None\<rparr>,
      \<lparr>go_opt = CHR ''f'', go_optarg = Some ''5'', go_operand = None\<rparr>,
      \<lparr>go_opt = CHR ''t'', go_optarg = Some ''2'', go_operand = None\<rparr>,
      \<lparr>go_opt = OPT_END, go_optarg = None, go_operand = Some ''h/x''\<rparr>]"

definition demo_main_env :: "(unit, unit) main_env" where
  "demo_main_env = \<lparr>me_isatty = False, me_version = ''1.0'', me_file = (\<lambda>_. \<lparr>fe_stat = None, fe_open = False, fe_close = False\<rparr>),
     me_reader = (\<lambda>s _. (0, False, [], s)), me_fd = (\<lambda>_. ()), me_ssl_op = (\<lambda>_. 0), me_rlimit = Some 1024, me_signal = True,
     me_parse_url = (\<lambda>_. Some \<lparr>uf_schema = (0, 4), uf_host = (7, 1), uf_port = (0, 0), uf_path = (8, 2), uf_query = (0, 0)\<rparr>),
     me_ctx = \<lparr>cx_new = (\<lambda>s. (None, s)), cx_free = (\<lambda>_ s. s), cx_set_cipher_list = (\<lambda>_ _ s. (0, s)), cx_set_ciphersuites = (\<lambda>_ _ s. (0, s)),
       cx_set_default_verify_paths = (\<lambda>_ s. (0, s)), cx_set_options = (\<lambda>_ _ s. s), cx_use_certificate_chain_file = (\<lambda>_ _ s. (0, s)),
       cx_use_PrivateKey_file = (\<lambda>_ _ s. (0, s)), cx_check_private_key = (\<lambda>_ s. (0, s)), cx_set_next_proto_select_cb = (\<lambda>_ s. s),
       cx_set_alpn_protos = (\<lambda>_ _ s. s), cx_set_mode = (\<lambda>_ _ s. s)\<rparr>,
     me_os = (), me_dns = demo_dns [], me_time = time_cache_new\<rparr>"

lemma demo_contract:
  "files_ok demo_main_env (\<lambda>_. [])" "\<forall>g \<in> set demo_opts. getopt_ok g \<and> seconds_ok g" "\<exists>g \<in> set demo_opts. go_opt g = OPT_END"
  by (auto simp: files_ok_def demo_main_env_def fd_ok_def demo_opts_def getopt_ok_def seconds_ok_def OPT_END_def needs_arg_def)

lemma demo_main_opts:
  "main_opts demo_main_env demo_opts (main_init demo_main_env) =
     Some (Go ((main_init demo_main_env)\<lparr>l_num_parallel := 2, l_num_to_request := 5, l_url := ''h/x'', l_input_flag := True,
       mn_cfg := (mn_cfg (main_init demo_main_env))\<lparr>g_num_threads := 2\<rparr>\<rparr>))"
proof -
  have "atoi ''2'' = 2" "atoi ''5'' = 5"
    by (simp_all add: atoi_def scan_sign_def Hurl_Path.is_space_def is_digit_def dec_val_def digit_val_def i32_def s32_u32_of_int)
  then have "main_opt demo_main_env (demo_opts ! 0) m = Some (Go (m\<lparr>l_num_parallel := 2\<rparr>))"
    "main_opt demo_main_env (demo_opts ! 1) m = Some (Go (m\<lparr>l_num_to_request := 5\<rparr>))"
    "main_opt demo_main_env (demo_opts ! 2) m = Some (Go (upd_cfg (\<lambda>k. k\<lparr>g_num_threads := 2\<rparr>) m))"
    "main_opt demo_main_env (demo_opts ! 3) m = Some (Go (m\<lparr>l_url := ''h/x'', l_input_flag := True\<rparr>))" for m
    by (simp_all add: demo_opts_def main_opt_def opt_num_def opt_url_def OPT_END_def)
  then show ?thesis
    by (simp add: demo_opts_def OPT_END_def upd_cfg_def)
qed


definition demo_request :: request where
  "demo_request = request_new\<lparr>rq_host := ''h'', rq_url_path := ''/x'', rq_port := 80, rq_keepalive := True,
     rq_headers := [(''Accept'', [''*/*'']), (''User-Agent'', [''hurl/1.0''])]\<rparr>"

lemma demo_init_url:
  "init_with_url (me_parse_url demo_main_env) ctx ''h/x'' (l_request (main_init demo_main_env)) = Some (STATUS_OK, demo_request)"
proof -
  have "case_i_comp ''Accept'' ''User-Agent''"
    by (simp add: case_i_comp_def ci_key_def to_lower_def c_str_def NUL_def less_char_def)
  then have "l_request (main_init demo_main_env) = request_new\<lparr>rq_keepalive := True,
      rq_headers := [(''Accept'', [''*/*'']), (''User-Agent'', [''hurl/1.0''])]\<rparr>"
    by (simp add: main_init_def demo_main_env_def set_header_def replaces_header_def request_new_def Let_def ci_eq_def)
  then show ?thesis
    by (simp add: init_with_url_def demo_main_env_def url_schema_def url_parts_def url_defaults_def uf_part_def demo_request_def request_new_def
      substr_def)
qed

lemma demo_paths_parse:
  "special_effects_parse ''/x'' \<lparr>g_path = [], g_path_vector = [], g_path_vector_last_idx = 0, g_path_order_random = True\<rparr> =
     Some (STATUS_OK, ''/x'', \<lparr>g_path = [], g_path_vector = [''/x''], g_path_vector_last_idx = 0, g_path_order_random = True\<rparr>)"
proof -
  have "parse_path ''/x'' = Some (STATUS_OK, [''/x''], [])" by (subst parse_path.simps) (simp add: str_find_def)
  then show ?thesis
    by (simp add: special_effects_parse_def c_str_def NUL_def strtok_def path_options.simps)
qed


lemma demo_host_lookup: "\<exists>h t. nlookup (demo_dns []) ''h'' 80 host_info_new AF_UNSPEC time_cache_new = Some (STATUS_OK, h, t)"
  by (simp add: nlookup_choice demo_dns_def addr_choice_def demo_addrs_def AF_INET_def AF_INET6_def take_addr_def Let_def case_prod_beta)

lemma demo_up:
  "\<exists>m h. main_up demo_main_env demo_opts = Some (Go m) \<and> l_num_parallel m = 2 \<and> l_num_to_request m = 5 \<and>
     mn_cfg m = (mn_cfg (main_init demo_main_env))\<lparr>g_num_threads := 2\<rparr> \<and> l_request m = demo_request\<lparr>rq_host_info := h\<rparr> \<and>
     g_path_vector (mn_paths m) = [''/x'']"
proof -
  obtain h t where h: "nlookup (demo_dns []) ''h'' 80 host_info_new AF_UNSPEC time_cache_new = Some (STATUS_OK, h, t)"
    using demo_host_lookup by blast
  define m0 where "m0 = (main_init demo_main_env)\<lparr>l_num_parallel := 2, l_num_to_request := 5, l_url := ''h/x'', l_input_flag := True,
       mn_cfg := (mn_cfg (main_init demo_main_env))\<lparr>g_num_threads := 2\<rparr>\<rparr>"
  have f: "l_url m0 = ''h/x''" "l_request m0 = l_request (main_init demo_main_env)" "g_num_threads (mn_cfg m0) = 2" "l_num_parallel m0 = 2"
    "l_ai_family m0 = AF_UNSPEC" "l_wildcarding m0" "l_num_to_request m0 = 5" "mn_cfg m0 = (mn_cfg (main_init demo_main_env))\<lparr>g_num_threads := 2\<rparr>"
    "mn_paths m0 = \<lparr>g_path = [], g_path_vector = [], g_path_vector_last_idx = 0, g_path_order_random = True\<rparr>"
    by (simp_all add: m0_def main_init_def)
  have e: "me_rlimit demo_main_env = Some 1024" "me_signal demo_main_env" "me_dns demo_main_env = demo_dns []" "me_time demo_main_env = time_cache_new"
    by (simp_all add: demo_main_env_def)
  have r: "rq_host demo_request = ''h''" "rq_port demo_request = 80" "rq_url_path demo_request = ''/x''"
    by (simp_all add: demo_request_def)
  define m where "m = m0\<lparr>l_request := demo_request\<lparr>rq_host_info := h\<rparr>,
      mn_paths := \<lparr>g_path = [], g_path_vector = [''/x''], g_path_vector_last_idx = 0, g_path_order_random = True\<rparr>\<rparr>"
  have "main_start demo_main_env m0 = Some (Go m)"
    using f h r demo_paths_parse
    by (simp add: main_start_def e demo_init_url u32_def main_paths_def m_def)
  then have "main_up demo_main_env demo_opts = Some (Go m)"
    using demo_main_opts by (simp add: main_up_def m0_def)
  then show ?thesis using f by (intro exI[of _ m] exI[of _ h]) (simp add: m_def)
qed

lemma demo_sizes:
  "length (request_text ''/x'' (demo_request\<lparr>rq_host_info := h\<rparr>)) < 1000" "body_bytes (demo_request\<lparr>rq_host_info := h\<rparr>) = []"
  "length (request_uri ''/x'' (demo_request\<lparr>rq_host_info := h\<rparr>)) = 2"
  by (simp_all add: request_text_def request_uri_def body_bytes_def demo_request_def request_new_def c_str_def NUL_def CRLF_def
    first_text_def rest_text_def header_text_def skip_header_def ci_eq_def ci_key_def to_lower_def)

theorem options_checked_witness:
  "\<exists>m. main_opts demo_main_env demo_opts (main_init demo_main_env) = Some (Go m) \<and> headers_ok (rq_headers (l_request m)) \<and> l_num_parallel m < 2 ^ 31"
  using options_checked[OF demo_contract] demo_main_opts by auto

theorem requests_split_witness:
  "\<exists>m ws. main_up demo_main_env demo_opts = Some (Go m) \<and> ws = (main_threads (\<lambda>_. ()) m :: (unit, unit, unit http_sub) hworld list) \<and>
     length ws = 2 \<and> (\<Sum>w \<leftarrow> ws. h_num_to_request w) = 5"
proof -
  obtain m h where m: "main_up demo_main_env demo_opts = Some (Go m)" "l_num_to_request m = 5"
      "mn_cfg m = (mn_cfg (main_init demo_main_env))\<lparr>g_num_threads := 2\<rparr>"
    using demo_up by blast
  define ws where "ws = (main_threads (\<lambda>_. ()) m :: (unit, unit, unit http_sub) hworld list)"
  have t: "0 < g_num_threads (mn_cfg m)" using m(3) by simp
  have "length ws = g_num_threads (mn_cfg m) \<and>
    (if l_num_to_request m = -1 then \<forall>w \<in> set ws. h_num_to_request w = -1
     else (\<Sum>w \<leftarrow> ws. h_num_to_request w) = l_num_to_request m \<and> (\<forall>w \<in> set ws. 0 \<le> h_num_to_request w))"
    unfolding ws_def by (rule requests_split[OF m(1) demo_contract t])
  then have "length ws = 2 \<and> (\<Sum>w \<leftarrow> ws. h_num_to_request w) = 5" using m(2,3) by simp
  then show ?thesis using m(1) ws_def by blast
qed

definition demo_os :: host where
  "demo_os = (3, select_new, replicate 8 (0, None))"

theorem program_threads_safe_witness:
  "\<exists>m w'. main_up demo_main_env demo_opts = Some (Go m) \<and>
     t_rounds 5 (mn_cfg m) (h1_env (mn_cfg m) host_sys (tcp_classes host_sys) host_http) id hd (host_wait demo_select)
       (t_run_start (hd (main_threads (\<lambda>_. demo_os) m))) = Some w' \<and>
     h1_heap (mn_cfg m) host_sys w' \<and> card (h_nconn_set w') \<le> h_num_conn_parallel_max w'"
proof -
  obtain m h where m: "main_up demo_main_env demo_opts = Some (Go m)" "mn_cfg m = (mn_cfg (main_init demo_main_env))\<lparr>g_num_threads := 2\<rparr>"
      "l_request m = demo_request\<lparr>rq_host_info := h\<rparr>" "g_path_vector (mn_paths m) = [''/x'']"
    using demo_up by blast
  have c: "\<not> g_verbose (mn_cfg m)" "\<not> g_random_xfwd (mn_cfg m)" "g_num_threads (mn_cfg m) = 2"
    using m(2) by (simp_all add: main_init_def)
  have sch: "rq_scheme (l_request m) = SCHEME_TCP"
    using m(3) by (simp add: demo_request_def request_new_def)
  have s: "sizes_ok m"
    using c(2) m(4) demo_sizes[of h] by (simp add: sizes_ok_def drawable_def m(3))
  define ws where "ws = (main_threads (\<lambda>_. demo_os) m :: (host, unit, unit http_sub) hworld list)"
  have "ws \<noteq> []" using c(3) by (simp add: ws_def main_threads_def)
  then have t: "hd ws \<in> set (main_threads (\<lambda>_. demo_os) m)" by (simp add: ws_def)
  have o: "\<forall>i. sel_inv (fst (snd demo_os)) \<and> host_reg demo_os = Map.empty"
    by (auto simp: demo_os_def select_new_def sel_inv_def smap_ok_def host_reg_def fun_eq_iff)
  show ?thesis
    using program_threads_safe[OF host.h1_client_axioms host.registry_axioms select_reports[OF demo_select_contract] m(1) demo_contract
      sch c(1) s o t, of 5 id hd] m(1) unfolding ws_def by blast
qed

section \<open>Corner cases\<close>

text \<open>
  The check against the limit of descriptors uses a product of 32 bits: 65536 threads of 65536
  connections are within any limit.
\<close>

lemma limit_check_wraps: "u32 (65536 * 65536) = 0"
  by (simp add: u32_def)

text \<open>A second \<^verbatim>\<open>-d\<close> replaces the body but adds to the header: two lengths are sent.\<close>

lemma repeated_data_two_lengths:
  "kv_values (rq_headers (snd (set_header ''Content-Length'' ''2'' (snd (set_header ''Content-Length'' ''1'' request_new))))) ''content-length'' =
     Some [''1'', ''2'']"
proof -
  have "ci_eq ''Content-Length'' ''content-length''" by code_simp
  moreover have "\<not> replaces_header ''Content-Length''" by code_simp
  moreover have "ci_eq ''Content-Length'' ''Content-Length''" by (simp add: ci_eq_def)
  ultimately show ?thesis by (simp add: set_header_def request_new_def Let_def kv_values_def)
qed

text \<open>A rate above a million per second is no limit at all.\<close>

lemma large_rate_unlimited:
  "main_opt e \<lparr>go_opt = CHR ''A'', go_optarg = Some ''1000001'', go_operand = None\<rparr> m = Some (Go (upd_cfg (\<lambda>k. k\<lparr>g_rate_delta_us := 0\<rparr>) m))"
proof -
  have "atoi ''1000001'' = 1000001"
    by (simp add: atoi_def scan_sign_def Hurl_Path.is_space_def is_digit_def dec_val_def digit_val_def i32_def s32_u32_of_int)
  then show ?thesis by (simp add: main_opt_def opt_num_def)
qed

end
