(* ===== verification/Json_Writer.thy ===== *)
theory Json_Writer
  imports Prelude Complex_Main
begin

text \<open>
  What the program uses of the vendored \<^verbatim>\<open>ext/rapidjson\<close> to print its results: the values
  of a document, \<^verbatim>\<open>GenericValue::Accept\<close> of \<^verbatim>\<open>document.h\<close> that walks over them, and
  \<^verbatim>\<open>Writer\<close> of \<^verbatim>\<open>writer.h\<close> with its default flags and UTF-8 on both sides.  Digits of a
  double are a parameter; a failed assertion is \<^term>\<open>None\<close>.
\<close>

section \<open>Values\<close>

text \<open>A \<^verbatim>\<open>double\<close>: a real number, an infinity with its sign, or not a number.\<close>

datatype dbl = DFin real | DInf bool | DNaN

datatype jv =
    JNull
  | JBool bool
  | JInt int
  | JUint nat
  | JDouble dbl
  | JString string
  | JObject "(string \<times> jv) list"
  | JArray "jv list"

datatype jtype = kNullType | kFalseType | kTrueType | kObjectType | kArrayType | kStringType | kNumberType

section \<open>The writer\<close>

text \<open>The levels, the innermost first: how many values (names included) it has, and whether it is an array.\<close>

record json_writer =
  jw_out :: string
  level_stack :: "(nat \<times> bool) list"
  hasRoot :: bool

definition json_writer_new :: json_writer where
  "json_writer_new = \<lparr>jw_out = [], level_stack = [], hasRoot = False\<rparr>"

definition jw_put :: "string \<Rightarrow> json_writer \<Rightarrow> json_writer" where
  "jw_put s w = w\<lparr>jw_out := jw_out w @ s\<rparr>"

definition Prefix :: "jtype \<Rightarrow> json_writer \<Rightarrow> json_writer option" where
  "Prefix ty w =
     (case level_stack w of
        [] \<Rightarrow> if hasRoot w then None else Some (w\<lparr>hasRoot := True\<rparr>)
      | (n, in_array) # ls \<Rightarrow>
          let w1 = (if n > 0 then jw_put (if in_array then '','' else if even n then '','' else '':'') w else w)
          in if \<not> in_array \<and> even n \<and> ty \<noteq> kStringType then None
             else Some (w1\<lparr>level_stack := (Suc n, in_array) # ls\<rparr>))"

definition hexDigit :: "nat \<Rightarrow> char" where
  "hexDigit n = ''0123456789ABCDEF'' ! n"

text \<open>The table of escapes and what is put for a character.\<close>

definition escape :: "char \<Rightarrow> char option" where
  "escape c = (let n = of_char c :: nat in
     if n = 0x22 then Some (CHR 0x22) else if n = 0x5C then Some (CHR 0x5C)
     else if n = 8 then Some CHR ''b'' else if n = 9 then Some CHR ''t'' else if n = 10 then Some CHR ''n''
     else if n = 12 then Some CHR ''f'' else if n = 13 then Some CHR ''r''
     else if n < 0x20 then Some CHR ''u'' else None)"

definition put_char :: "char \<Rightarrow> string" where
  "put_char c = (case escape c of
     None \<Rightarrow> [c]
   | Some e \<Rightarrow> [CHR 0x5C, e] @ (if e = CHR ''u'' then ''00'' @ [hexDigit (of_char c div 16), hexDigit (of_char c mod 16)] else []))"

definition json_quoted :: "string \<Rightarrow> string" where
  "json_quoted s = [CHR 0x22] @ concat (map put_char s) @ [CHR 0x22]"

definition WriteString :: "string \<Rightarrow> json_writer \<Rightarrow> bool \<times> json_writer" where
  "WriteString s w = (True, jw_put (json_quoted s) w)"

definition int_text :: "int \<Rightarrow> string" where
  "int_text i = (if i < 0 then ''-'' else []) @ nat_str (nat \<bar>i\<bar>)"

definition WriteDouble :: "(real \<Rightarrow> string) \<Rightarrow> dbl \<Rightarrow> json_writer \<Rightarrow> bool \<times> json_writer" where
  "WriteDouble dtoa d w = (case d of DFin x \<Rightarrow> (True, jw_put (dtoa x) w) | _ \<Rightarrow> (False, w))"

text \<open>The calls of a handler; \<^verbatim>\<open>Key\<close> is \<^verbatim>\<open>String\<close>.\<close>

definition jw_Null :: "json_writer \<Rightarrow> (bool \<times> json_writer) option" where
  "jw_Null w = map_option (\<lambda>w. (True, jw_put ''null'' w)) (Prefix kNullType w)"

definition jw_Bool :: "bool \<Rightarrow> json_writer \<Rightarrow> (bool \<times> json_writer) option" where
  "jw_Bool b w = map_option (\<lambda>w. (True, jw_put (if b then ''true'' else ''false'') w)) (Prefix (if b then kTrueType else kFalseType) w)"

definition jw_Int :: "int \<Rightarrow> json_writer \<Rightarrow> (bool \<times> json_writer) option" where
  "jw_Int i w = map_option (\<lambda>w. (True, jw_put (int_text i) w)) (Prefix kNumberType w)"

definition jw_Uint :: "nat \<Rightarrow> json_writer \<Rightarrow> (bool \<times> json_writer) option" where
  "jw_Uint n w = map_option (\<lambda>w. (True, jw_put (nat_str n) w)) (Prefix kNumberType w)"

definition jw_Double :: "(real \<Rightarrow> string) \<Rightarrow> dbl \<Rightarrow> json_writer \<Rightarrow> (bool \<times> json_writer) option" where
  "jw_Double dtoa d w = map_option (WriteDouble dtoa d) (Prefix kNumberType w)"

definition jw_String :: "string \<Rightarrow> json_writer \<Rightarrow> (bool \<times> json_writer) option" where
  "jw_String s w = map_option (WriteString s) (Prefix kStringType w)"

definition jw_Start :: "bool \<Rightarrow> json_writer \<Rightarrow> (bool \<times> json_writer) option" where
  "jw_Start in_array w =
     map_option (\<lambda>w. (True, jw_put (if in_array then ''['' else ''{'') (w\<lparr>level_stack := (0, in_array) # level_stack w\<rparr>)))
       (Prefix (if in_array then kArrayType else kObjectType) w)"

definition jw_End :: "bool \<Rightarrow> json_writer \<Rightarrow> (bool \<times> json_writer) option" where
  "jw_End in_array w =
     (case level_stack w of
        [] \<Rightarrow> None
      | (n, a) # ls \<Rightarrow> if a \<noteq> in_array \<or> \<not> in_array \<and> odd n then None
                      else Some (True, jw_put (if in_array then '']'' else ''}'') (w\<lparr>level_stack := ls\<rparr>)))"

section \<open>The walk\<close>

fun accept :: "(real \<Rightarrow> string) \<Rightarrow> jv \<Rightarrow> json_writer \<Rightarrow> (bool \<times> json_writer) option"
  and accept_members :: "(real \<Rightarrow> string) \<Rightarrow> (string \<times> jv) list \<Rightarrow> json_writer \<Rightarrow> (bool \<times> json_writer) option"
  and accept_values :: "(real \<Rightarrow> string) \<Rightarrow> jv list \<Rightarrow> json_writer \<Rightarrow> (bool \<times> json_writer) option" where
  "accept dtoa JNull w = jw_Null w"
| "accept dtoa (JBool b) w = jw_Bool b w"
| "accept dtoa (JInt i) w = jw_Int i w"
| "accept dtoa (JUint n) w = jw_Uint n w"
| "accept dtoa (JDouble d) w = jw_Double dtoa d w"
| "accept dtoa (JString s) w = jw_String s w"
| "accept dtoa (JObject ms) w =
     do { (ok, w1) \<leftarrow> jw_Start False w;
          if \<not> ok then Some (False, w1)
          else do { (ok2, w2) \<leftarrow> accept_members dtoa ms w1;
                    if \<not> ok2 then Some (False, w2) else jw_End False w2 } }"
| "accept dtoa (JArray vs) w =
     do { (ok, w1) \<leftarrow> jw_Start True w;
          if \<not> ok then Some (False, w1)
          else do { (ok2, w2) \<leftarrow> accept_values dtoa vs w1;
                    if \<not> ok2 then Some (False, w2) else jw_End True w2 } }"
| "accept_members dtoa [] w = Some (True, w)"
| "accept_members dtoa ((k, v) # ms) w =
     do { (ok, w1) \<leftarrow> jw_String k w;
          if \<not> ok then Some (False, w1)
          else do { (ok2, w2) \<leftarrow> accept dtoa v w1;
                    if \<not> ok2 then Some (False, w2) else accept_members dtoa ms w2 } }"
| "accept_values dtoa [] w = Some (True, w)"
| "accept_values dtoa (v # vs) w =
     do { (ok, w1) \<leftarrow> accept dtoa v w;
          if \<not> ok then Some (False, w1) else accept_values dtoa vs w1 }"

section \<open>The text of a document\<close>

text \<open>A reference: the text of a value, written down at once.\<close>

definition comma_sep :: "string list \<Rightarrow> string" where
  "comma_sep ss = (case ss of [] \<Rightarrow> [] | s # t \<Rightarrow> s @ concat (map (\<lambda>x. CHR '','' # x) t))"

fun json_text :: "(real \<Rightarrow> string) \<Rightarrow> jv \<Rightarrow> string" where
  "json_text dtoa JNull = ''null''"
| "json_text dtoa (JBool b) = (if b then ''true'' else ''false'')"
| "json_text dtoa (JInt i) = int_text i"
| "json_text dtoa (JUint n) = nat_str n"
| "json_text dtoa (JDouble d) = (case d of DFin x \<Rightarrow> dtoa x | _ \<Rightarrow> [])"
| "json_text dtoa (JString s) = json_quoted s"
| "json_text dtoa (JObject ms) = ''{'' @ comma_sep (map (\<lambda>(k, v). json_quoted k @ '':'' @ json_text dtoa v) ms) @ ''}''"
| "json_text dtoa (JArray vs) = ''['' @ comma_sep (map (json_text dtoa) vs) @ '']''"

fun all_finite :: "jv \<Rightarrow> bool" where
  "all_finite (JDouble d) = (case d of DFin x \<Rightarrow> True | _ \<Rightarrow> False)"
| "all_finite (JObject ms) = list_all (\<lambda>(k, v). all_finite v) ms"
| "all_finite (JArray vs) = list_all all_finite vs"
| "all_finite _ = True"

definition member_text :: "(real \<Rightarrow> string) \<Rightarrow> string \<times> jv \<Rightarrow> string" where
  "member_text dtoa = (\<lambda>(k, v). json_quoted k @ '':'' @ json_text dtoa v)"

fun jtype_of :: "jv \<Rightarrow> jtype" where
  "jtype_of JNull = kNullType"
| "jtype_of (JBool b) = (if b then kTrueType else kFalseType)"
| "jtype_of (JString s) = kStringType"
| "jtype_of (JObject ms) = kObjectType"
| "jtype_of (JArray vs) = kArrayType"
| "jtype_of _ = kNumberType"


section \<open>Laws\<close>

definition sep_after :: "bool \<Rightarrow> string list \<Rightarrow> string" where
  "sep_after b ts = (if b then concat (map (\<lambda>x. CHR '','' # x) ts) else comma_sep ts)"

lemma sep_after_simps [simp]:
  "sep_after b [] = []"
  "sep_after b (t # ts) = (if b then '','' else []) @ t @ sep_after True ts"
  by (simp_all add: sep_after_def comma_sep_def)

lemma comma_sep_sep_after: "comma_sep ts = sep_after False ts"
  by (simp add: sep_after_def)

lemma jw_put_simps [simp]:
  "jw_put [] w = w" "jw_put t (jw_put s w) = jw_put (s @ t) w" "level_stack (jw_put s w) = level_stack w" "hasRoot (jw_put s w) = hasRoot w"
  "(jw_put s w)\<lparr>level_stack := l\<rparr> = jw_put s (w\<lparr>level_stack := l\<rparr>)"
  by (simp_all add: jw_put_def)

text \<open>What \<open>Prefix\<close> does on the three kinds of places.\<close>

lemma Prefix_name:
  "level_stack w = (n, False) # ls \<Longrightarrow> even n \<Longrightarrow>
     Prefix kStringType w = Some (jw_put (if n > 0 then '','' else []) (w\<lparr>level_stack := (Suc n, False) # ls\<rparr>))"
  by (simp add: Prefix_def)

lemma Prefix_value:
  "level_stack w = (n, False) # ls \<Longrightarrow> odd n \<Longrightarrow> Prefix ty w = Some (jw_put '':'' (w\<lparr>level_stack := (Suc n, False) # ls\<rparr>))"
  by (cases n) (simp_all add: Prefix_def)

lemma Prefix_element:
  "level_stack w = (n, True) # ls \<Longrightarrow>
     Prefix ty w = Some (jw_put (if n > 0 then '','' else []) (w\<lparr>level_stack := (Suc n, True) # ls\<rparr>))"
  by (simp add: Prefix_def)

text \<open>The walk over a document without infinities prints its text.\<close>

lemma accept_text:
  "all_finite v \<Longrightarrow> Prefix (jtype_of v) w = Some w1 \<Longrightarrow> accept dtoa v w = Some (True, jw_put (json_text dtoa v) w1)"
  "list_all (\<lambda>(k, v). all_finite v) ms \<Longrightarrow> level_stack w = (n, False) # ls \<Longrightarrow> even n \<Longrightarrow>
     accept_members dtoa ms w = Some (True, jw_put (sep_after (n > 0) (map (member_text dtoa) ms)) (w\<lparr>level_stack := (n + 2 * length ms, False) # ls\<rparr>))"
  "list_all all_finite vs \<Longrightarrow> level_stack w = (n, True) # ls \<Longrightarrow>
     accept_values dtoa vs w = Some (True, jw_put (sep_after (n > 0) (map (json_text dtoa) vs)) (w\<lparr>level_stack := (n + length vs, True) # ls\<rparr>))"
proof (induction dtoa v w and dtoa ms w and dtoa vs w arbitrary: w1 and n ls and n ls rule: accept_accept_members_accept_values.induct)
  case (5 dtoa d w)
  then show ?case by (cases d) (simp_all add: jw_Double_def WriteDouble_def)
next
  case (7 dtoa ms w)
  have "list_all (\<lambda>(k, v). all_finite v) ms" using "7.prems"(1) by simp
  then have m: "accept_members dtoa ms (jw_put ''{'' (w1\<lparr>level_stack := (0, False) # level_stack w1\<rparr>)) =
      Some (True, jw_put (sep_after False (map (member_text dtoa) ms)) ((jw_put ''{'' (w1\<lparr>level_stack := (0, False) # level_stack w1\<rparr>))\<lparr>level_stack := (2 * length ms, False) # level_stack w1\<rparr>))"
    using "7.IH"[of "(True, jw_put ''{'' (w1\<lparr>level_stack := (0, False) # level_stack w1\<rparr>))", OF _ refl, of 0 "level_stack w1"] "7.prems"(2)
    by (simp add: jw_Start_def)
  show ?case
    using "7.prems"(2) m by (simp add: jw_Start_def jw_End_def comma_sep_sep_after member_text_def)
next
  case (8 dtoa vs w)
  have m: "accept_values dtoa vs (jw_put ''['' (w1\<lparr>level_stack := (0, True) # level_stack w1\<rparr>)) =
      Some (True, jw_put (sep_after False (map (json_text dtoa) vs)) ((jw_put ''['' (w1\<lparr>level_stack := (0, True) # level_stack w1\<rparr>))\<lparr>level_stack := (length vs, True) # level_stack w1\<rparr>))"
    using "8.IH"[of "(True, jw_put ''['' (w1\<lparr>level_stack := (0, True) # level_stack w1\<rparr>))", OF _ refl, of 0 "level_stack w1"] "8.prems"
    by (simp add: jw_Start_def)
  show ?case
    using "8.prems"(2) m by (simp add: jw_Start_def jw_End_def comma_sep_sep_after)
next
  case (10 dtoa k v ms w)
  define w1 where "w1 = jw_put ((if n > 0 then '','' else []) @ json_quoted k) (w\<lparr>level_stack := (Suc n, False) # ls\<rparr>)"
  define w2 where "w2 = jw_put ('':'' @ json_text dtoa v) (w1\<lparr>level_stack := (Suc (Suc n), False) # ls\<rparr>)"
  have k: "jw_String k w = Some (True, w1)"
    using Prefix_name[OF "10.prems"(2,3)] by (simp add: jw_String_def WriteString_def w1_def)
  have "Prefix (jtype_of v) w1 = Some (jw_put '':'' (w1\<lparr>level_stack := (Suc (Suc n), False) # ls\<rparr>))"
    using "10.prems"(3) by (intro Prefix_value) (simp_all add: w1_def)
  then have v: "accept dtoa v w1 = Some (True, w2)"
    using "10.IH"(1)[OF k refl _ ] "10.prems"(1) by (simp add: w2_def)
  have "accept_members dtoa ms w2 = Some (True, jw_put (sep_after True (map (member_text dtoa) ms)) (w2\<lparr>level_stack := (Suc (Suc n) + 2 * length ms, False) # ls\<rparr>))"
    using "10.IH"(2)[OF k refl _ v refl, of "Suc (Suc n)" ls] "10.prems" by (simp add: w2_def)
  then show ?case
    using k v by (simp add: w2_def w1_def member_text_def)
next
  case (12 dtoa v vs w)
  define w1 where "w1 = jw_put ((if n > 0 then '','' else []) @ json_text dtoa v) (w\<lparr>level_stack := (Suc n, True) # ls\<rparr>)"
  have v: "accept dtoa v w = Some (True, w1)"
    using "12.IH"(1)[OF _ Prefix_element[OF "12.prems"(2)]] "12.prems"(1) by (simp add: w1_def)
  have "accept_values dtoa vs w1 = Some (True, jw_put (sep_after True (map (json_text dtoa) vs)) (w1\<lparr>level_stack := (Suc n + length vs, True) # ls\<rparr>))"
    using "12.IH"(2)[OF v refl, of "Suc n" ls] "12.prems" by (simp add: w1_def)
  then show ?case
    using v by (simp add: w1_def)
qed (auto simp: jw_Null_def jw_Bool_def jw_Int_def jw_Uint_def jw_Double_def jw_String_def WriteString_def WriteDouble_def)


lemma accept_members_append:
  "accept_members dtoa (ms @ ms') w =
     do { (ok, w1) \<leftarrow> accept_members dtoa ms w; if \<not> ok then Some (False, w1) else accept_members dtoa ms' w1 }"
proof (induction ms arbitrary: w)
  case (Cons m ms)
  obtain k v where m: "m = (k, v)" by (cases m)
  show ?case
      by (simp add: m Cons split: option.split prod.split bind_split)
qed simp

text \<open>At a number that is no real number the walk gives up and leaves the text unfinished.\<close>

lemma accept_object_cut:
  assumes "list_all (\<lambda>(k, v). all_finite v) ms" "\<forall>x. d \<noteq> DFin x"
  shows "\<exists>w'. accept dtoa (JObject (ms @ (k, JDouble d) # ms')) json_writer_new = Some (False, w') \<and>
    jw_out w' = ''{'' @ sep_after False (map (member_text dtoa) ms @ [json_quoted k @ '':''])"
proof -
  define w0 where "w0 = jw_put ''{'' (json_writer_new\<lparr>hasRoot := True, level_stack := [(0, False)]\<rparr>)"
  define w1 where "w1 = jw_put (sep_after False (map (member_text dtoa) ms)) (w0\<lparr>level_stack := [(2 * length ms, False)]\<rparr>)"
  have s: "jw_Start False json_writer_new = Some (True, w0)"
    by (simp add: jw_Start_def Prefix_def json_writer_new_def w0_def)
  have ms: "accept_members dtoa ms w0 = Some (True, w1)"
    using accept_text(2)[OF assms(1), of w0 0 "[]"] by (simp add: w0_def w1_def)
  define w2 where "w2 = jw_put ((if ms \<noteq> [] then '','' else []) @ json_quoted k) (w1\<lparr>level_stack := [(Suc (2 * length ms), False)]\<rparr>)"
  have "jw_String k w1 = Some (True, w2)"
    using Prefix_name[of w1 "2 * length ms" "[]"] by (simp add: jw_String_def WriteString_def w1_def w2_def)
  moreover have "jw_Double dtoa d w2 = Some (False, jw_put '':'' (w2\<lparr>level_stack := [(Suc (Suc (2 * length ms)), False)]\<rparr>))"
    using Prefix_value[of w2 "Suc (2 * length ms)" "[]" kNumberType] assms(2)
    by (cases d) (simp_all add: jw_Double_def WriteDouble_def w2_def)
  moreover have "sep_after False (map (member_text dtoa) ms @ [t]) =
      sep_after False (map (member_text dtoa) ms) @ (if ms \<noteq> [] then '','' else []) @ t" for t
    by (cases ms) (simp_all add: sep_after_def comma_sep_def)
  ultimately show ?thesis
    using s ms by (simp add: accept_members_append w2_def w1_def w0_def) (simp add: jw_put_def json_writer_new_def)
qed

section \<open>Properties\<close>

text \<open>
  C10: The writer prints a document without infinities completely, and exactly as its text: the members in
  their order, separated by commas, with names and strings escaped, whatever the nesting.
\<close>

theorem writer_prints_text:
  assumes "all_finite v"
  shows "accept dtoa v json_writer_new = Some (True, \<lparr>jw_out = json_text dtoa v, level_stack = [], hasRoot = True\<rparr>)"
proof -
  have "Prefix (jtype_of v) json_writer_new = Some (json_writer_new\<lparr>hasRoot := True\<rparr>)"
    by (simp add: Prefix_def json_writer_new_def)
  from accept_text(1)[OF assms this] show ?thesis by (simp add: jw_put_def json_writer_new_def)
qed

theorem writer_prints_text_witness:
  "accept (\<lambda>_. ''0.5'') (JObject [(''n'', JUint 12), (''o'', JObject [(''a'', JDouble (DFin 2)), (''b'', JArray [JNull, JBool True])])])
     json_writer_new = Some (True, \<lparr>jw_out = json_text (\<lambda>_. ''0.5'') (JObject [(''n'', JUint 12),
        (''o'', JObject [(''a'', JDouble (DFin 2)), (''b'', JArray [JNull, JBool True])])]), level_stack = [], hasRoot = True\<rparr>)"
  by (rule writer_prints_text) simp

end
