(* ===== verification/Hurl_Report.thy ===== *)
theory Hurl_Report
  imports Hurl_Main Json_Writer
begin

text \<open>
  The rest of \<^verbatim>\<open>main\<close> in \<^verbatim>\<open>src/hurl/hurl.cc\<close>: the loop that waits for the end of the test and
  shows its progress, and the results, as text or as JSON, on the terminal or in a file.  What
  other threads, the user and the clock do in a round of the loop is a record, an argument of
  the round; the conversions of a double are a parameter.  The mode of the terminal and the
  length of the pauses are left out.
\<close>

section \<open>Formats\<close>

definition ANSI_COLOR_FG_RED :: string where "ANSI_COLOR_FG_RED = CHR 0x1B # ''[01;31m''"

text \<open>A field of \<^verbatim>\<open>printf\<close> with its width.\<close>

definition pad_left :: "nat \<Rightarrow> string \<Rightarrow> string" where
  "pad_left n s = replicate (n - length s) CHR '' '' @ s"

text \<open>\<open>pf p c\<close> is the conversion of a double with \<open>p\<close> digits and the letter \<open>c\<close>.\<close>

type_synonym fmt = "nat \<Rightarrow> char \<Rightarrow> dbl \<Rightarrow> string"

text \<open>A quotient of two doubles that are not negative.\<close>

definition ddiv :: "real \<Rightarrow> real \<Rightarrow> dbl" where
  "ddiv x y = (if y \<noteq> 0 then DFin (x / y) else if x = 0 then DNaN else DInf True)"

definition paint :: "main_st \<Rightarrow> string \<Rightarrow> string \<Rightarrow> string" where
  "paint m c s = (if g_color (mn_cfg m) then c else ANSI_COLOR_OFF) @ s @ ANSI_COLOR_OFF"

definition NL :: string where "NL = [CHR 0x0A]"

text \<open>A line of fields between separators.\<close>

section \<open>The loop\<close>

record round_obs =
  ob_finished :: bool
  ob_key :: "char option"
  ob_now :: nat
  ob_threads :: "(bool \<times> t_stat_cntr \<times> status_code_count_map) list"
  ob_now_stat :: nat
  ob_now_show :: nat

record loop_st =
  lp_finished :: bool
  lp_first_time :: bool
  lp_last :: stat_last
  lp_out :: string

definition head_responses :: "main_st \<Rightarrow> string" where
  "head_responses m =
     (let rule = ''+-----------+-------------+-----------+-----------+-----------+-----------+-----------+-----------+'' @ NL;
          pc = (if l_show_per_interval m then '' %'' else [])
      in rule @ ''| '' @ paint m ANSI_COLOR_FG_WHITE (pad_left 9 ''Elapsed'') @ '' / '' @
         paint m ANSI_COLOR_FG_WHITE (pad_left 11 (if l_show_per_interval m then ''Rsp/s'' else ''Req/s'')) @ '' / '' @
         paint m ANSI_COLOR_FG_WHITE (pad_left 9 ''Cmpltd'') @ '' / '' @ paint m ANSI_COLOR_FG_WHITE (pad_left 9 ''Errors'') @ '' / '' @
         paint m ANSI_COLOR_FG_GREEN (pad_left 9 (''200s'' @ pc)) @ '' | '' @ paint m ANSI_COLOR_FG_CYAN (pad_left 9 (''300s'' @ pc)) @ '' | '' @
         paint m ANSI_COLOR_FG_MAGENTA (pad_left 9 (''400s'' @ pc)) @ '' | '' @ paint m ANSI_COLOR_FG_RED (pad_left 9 (''500s'' @ pc)) @ '' | '' @ NL @ rule)"

definition head_requests :: "main_st \<Rightarrow> string" where
  "head_requests m =
     (let rule = ''+-----------/-----------+-----------+-----------+--------------+-----------+------------+----------+'' @ NL
      in rule @ ''| '' @ paint m ANSI_COLOR_FG_GREEN (pad_left 9 ''Completed'') @ '' / '' @ paint m ANSI_COLOR_FG_BLUE (pad_left 9 ''Requested'') @ '' | '' @
         paint m ANSI_COLOR_FG_MAGENTA (pad_left 9 ''IdlKil'') @ '' | '' @ paint m ANSI_COLOR_FG_RED (pad_left 9 ''Errors'') @ '' | '' @
         paint m ANSI_COLOR_FG_YELLOW (pad_left 12 ''kBytes Recvd'') @ '' | '' @ pad_left 9 ''Elapsed'' @ '' | '' @ pad_left 10 ''Req/s'' @ '' | '' @
         pad_left 8 ''MB/s'' @ '' |'' @ NL @ rule)"

text \<open>The sums of the answers by the hundreds of their status, in 32 bits.\<close>

definition code_class :: "nat \<Rightarrow> status_code_count_map \<Rightarrow> nat" where
  "code_class c codes = foldl (\<lambda>n (k, v). if c * 100 \<le> k \<and> k \<le> c * 100 + 99 then u32 (n + v) else n) 0 codes"

definition secs :: "nat \<Rightarrow> dbl" where "secs ms = DFin (real ms / 1000)"

definition line_responses :: "fmt \<Rightarrow> main_st \<Rightarrow> nat \<Rightarrow> t_stat_cntr \<Rightarrow> t_stat_calc \<Rightarrow> status_code_count_map list \<Rightarrow> string" where
  "line_responses pf m ms tot calc codes =
     (let cm = get_status_codes [] codes;
          cell = (\<lambda>color pc n. paint m color (pad_left 9 (if l_show_per_interval m then pf 2 CHR ''f'' (DFin pc) else nat_str n)))
      in ''| '' @ pad_left 8 (pf 2 CHR ''f'' (secs ms)) @ ''s / '' @ pad_left 10 (pf 2 CHR ''f'' (DFin (c_resp_s calc))) @ ''s / '' @
         pad_left 9 (nat_str (m_resp_count tot)) @ '' / '' @ pad_left 9 (nat_str (m_errors tot)) @ '' / '' @
         cell ANSI_COLOR_FG_GREEN (c_2xx_pcnt calc) (code_class 2 cm) @ '' | '' @ cell ANSI_COLOR_FG_CYAN (c_3xx_pcnt calc) (code_class 3 cm) @ '' | '' @
         cell ANSI_COLOR_FG_MAGENTA (c_4xx_pcnt calc) (code_class 4 cm) @ '' | '' @ cell ANSI_COLOR_FG_RED (c_5xx_pcnt calc) (code_class 5 cm) @ '' |'' @ NL)"

text \<open>\<^verbatim>\<open>PRIi64\<close> of an unsigned value\<close>

definition i64_str :: "nat \<Rightarrow> string" where
  "i64_str n = (if n < 2 ^ 63 then nat_str n else ''-'' @ nat_str (2 ^ 64 - n))"

definition line_requests :: "fmt \<Rightarrow> main_st \<Rightarrow> nat \<Rightarrow> t_stat_cntr \<Rightarrow> t_stat_calc \<Rightarrow> string" where
  "line_requests pf m ms tot calc =
     ''| '' @ paint m ANSI_COLOR_FG_GREEN (pad_left 9 (nat_str (m_resp_count tot))) @ '' / '' @
     paint m ANSI_COLOR_FG_BLUE (pad_left 9 (i64_str (m_reqs tot))) @ '' | '' @
     paint m ANSI_COLOR_FG_MAGENTA (pad_left 9 (nat_str (m_idle_killed tot))) @ '' | '' @
     paint m ANSI_COLOR_FG_RED (pad_left 9 (nat_str (m_errors tot))) @ '' | '' @
     paint m ANSI_COLOR_FG_YELLOW (pad_left 12 (pf 2 CHR ''f'' (DFin (c_bytes_read_s calc / 1024)))) @ '' | '' @
     pad_left 8 (pf 2 CHR ''f'' (secs ms)) @ ''s | '' @ pad_left 10 (pf 2 CHR ''f'' (DFin (c_req_s calc))) @ '' | '' @
     pad_left 8 (pf 2 CHR ''f'' (DFin (c_bytes_read_s calc / (1024 * 1024)))) @ '' |'' @ NL"

text \<open>Whether the test is over after the checks of a round.\<close>

definition round_over :: "main_st \<Rightarrow> nat \<Rightarrow> round_obs \<Rightarrow> bool" where
  "round_over m start ob \<longleftrightarrow> ob_key ob = Some CHR ''q'' \<or>
     l_run_time_ms m \<noteq> -1 \<and> i32 (int (sub64 (ob_now ob) start)) \<ge> l_run_time_ms m \<or>
     (\<forall>(stopped, _) \<in> set (ob_threads ob). stopped)"

definition main_round :: "fmt \<Rightarrow> main_st \<Rightarrow> nat \<Rightarrow> round_obs \<Rightarrow> loop_st \<Rightarrow> loop_st" where
  "main_round pf m start ob s =
     (let s1 = s\<lparr>lp_finished := lp_finished s \<or> round_over m start ob\<rparr>
      in if g_verbose (mn_cfg m) \<or> l_silent m then s1
         else case get_stat (ob_now_stat ob) (map (fst \<circ> snd) (ob_threads ob)) t_stat_cntr_new t_stat_calc_new (lp_last s) of
           (tot, calc, l1) \<Rightarrow>
             if lp_first_time s
             then s1\<lparr>lp_first_time := False, lp_last := l1,
                  lp_out := lp_out s @ (if l_show_response_codes m then head_responses m else head_requests m)\<rparr>
             else (let ms = sub64 (ob_now_show ob) start
                   in s1\<lparr>lp_last := l1, lp_out := lp_out s @
                        (if l_show_response_codes m then line_responses pf m ms tot calc (map (snd \<circ> snd) (ob_threads ob))
                         else line_requests pf m ms tot calc)\<rparr>))"

text \<open>
  The loop over the rounds from the \<open>n\<close>-th on.  The flag that ends it is also set by the signal handler and
  by the threads.
\<close>

partial_function (option) main_loop :: "fmt \<Rightarrow> main_st \<Rightarrow> nat \<Rightarrow> (nat \<Rightarrow> round_obs) \<Rightarrow> nat \<Rightarrow> loop_st \<Rightarrow> (nat \<times> loop_st) option" where
  "main_loop pf m start obs n s =
     (if lp_finished s \<or> ob_finished (obs n) then Some (n, s)
      else main_loop pf m start obs (Suc n) (main_round pf m start (obs n) s))"

definition loop_init :: "stat_last \<Rightarrow> loop_st" where
  "loop_init l = \<lparr>lp_finished = False, lp_first_time = True, lp_last = l, lp_out = []\<rparr>"

section \<open>The results\<close>

text \<open>One line of the text, through a buffer of 1024 characters.\<close>

definition str_print :: "string \<Rightarrow> string" where
  "str_print s = take 1023 s"

definition total_bytes :: "t_stat_cntr \<Rightarrow> nat" where
  "total_bytes tot = u64 (m_bytes_read tot + m_bytes_written tot)"

definition results_text :: "fmt \<Rightarrow> main_st \<Rightarrow> nat \<Rightarrow> t_stat_cntr \<Rightarrow> status_code_count_map \<Rightarrow> string" where
  "results_text pf m end_time_ms tot codes =
     (let b = real (total_bytes tot); n = real (m_resp_count tot); s = real end_time_ms / 1000 in
      str_print (''| '' @ paint m ANSI_COLOR_FG_CYAN ''RESULTS'' @ '':             '' @ paint m ANSI_COLOR_FG_YELLOW ''ALL'' @ NL) @
      str_print (''| fetches:             '' @ nat_str (m_resp_count tot) @ NL) @
      str_print (''| max parallel:        '' @ nat_str (l_num_parallel m) @ NL) @
      str_print (''| bytes:               '' @ pf 6 CHR ''e'' (DFin b) @ NL) @
      str_print (''| seconds:             '' @ pf 6 CHR ''f'' (DFin s) @ NL) @
      str_print (''| mean bytes/conn:     '' @ pf 6 CHR ''f'' (ddiv b n) @ NL) @
      str_print (''| fetches/sec:         '' @ pf 6 CHR ''f'' (ddiv n s) @ NL) @
      str_print (''| bytes/sec:           '' @ pf 6 CHR ''e'' (ddiv b s) @ NL) @
      str_print (''| '' @ paint m ANSI_COLOR_FG_GREEN ''HTTP response codes'' @ '': '' @ NL) @
      concat (map (\<lambda>(k, c). str_print (''| '' @ paint m ANSI_COLOR_FG_MAGENTA (pad_left 3 (nat_str k)) @ '' -- '' @ nat_str c @ NL)) codes))"

definition results_json :: "main_st \<Rightarrow> nat \<Rightarrow> t_stat_cntr \<Rightarrow> status_code_count_map \<Rightarrow> jv" where
  "results_json m end_time_ms tot codes =
     (let b = real (total_bytes tot); n = real (m_resp_count tot); s = real end_time_ms / 1000 in
      JObject ([(''fetches'', JUint (m_resp_count tot)),
                (''max-parallel'', JUint (l_num_parallel m)),
                (''bytes'', JDouble (DFin b)),
                (''seconds'', JDouble (DFin s)),
                (''mean-bytes-per-conn'', JDouble (ddiv b n)),
                (''fetches-per-sec'', JDouble (ddiv n s)),
                (''bytes-per-sec'', JDouble (ddiv b s))] @
               (if codes \<noteq> [] then [(''response-codes'', JObject (map (\<lambda>(k, c). (pad_left 3 (nat_str k), JUint c)) codes))] else [])))"

definition results :: "fmt \<Rightarrow> (real \<Rightarrow> string) \<Rightarrow> main_st \<Rightarrow> nat \<Rightarrow> t_stat_cntr \<Rightarrow> status_code_count_map \<Rightarrow> string option" where
  "results pf dtoa m end_time_ms tot codes =
     (if \<not> l_display_results_json_flag m then Some (results_text pf m end_time_ms tot codes)
      else map_option (\<lambda>(_, w). jw_out w) (accept dtoa (results_json m end_time_ms tot codes) json_writer_new))"

text \<open>
  Writing them out: the exit status, what is printed, and what is in the file.  \<open>fo\<close> and \<open>fc\<close>
  say whether the file can be opened and closed, \<open>fw\<close> how much of it is written.
\<close>

definition write_results :: "main_st \<Rightarrow> bool \<Rightarrow> (nat \<Rightarrow> nat) \<Rightarrow> bool \<Rightarrow> string \<Rightarrow> int \<times> string \<times> string option" where
  "write_results m fo fw fc out =
     (if l_output_file m = [] then (0, if g_verbose (mn_cfg m) then [] else c_str out @ NL, None)
      else if \<not> fo then (STATUS_ERROR, [], None)
      else (let k = fw (length out) in
            if i32 (int k) \<noteq> i32 (int (length out)) then (STATUS_ERROR, [], Some (take k out))
            else (if fc then 0 else STATUS_ERROR, [], Some (take k out))))"

text \<open>What follows the loop: the counters of the threads that have ended are added up and reported.\<close>

definition main_report ::
  "fmt \<Rightarrow> (real \<Rightarrow> string) \<Rightarrow> main_st \<Rightarrow> nat \<Rightarrow> nat \<Rightarrow> nat \<Rightarrow> thread_stat list \<Rightarrow> stat_last \<Rightarrow> string option" where
  "main_report pf dtoa m start now now_stat threads l =
     (case get_stat now_stat (map ts_stat threads) t_stat_cntr_new t_stat_calc_new l of
        (tot, _, _) \<Rightarrow> results pf dtoa m (sub64 now start) tot (get_status_codes [] (map ts_codes threads)))"

section \<open>Laws\<close>

lemma main_loop_run:
  assumes "n \<le> i" "ob_finished (obs i) \<or> round_over m start (obs i)"
  shows "\<exists>k s'. main_loop pf m start obs n s = Some (k, s') \<and> k \<le> Suc i \<and> (lp_finished s' \<or> ob_finished (obs k))"
  using assms(1)
proof (induction "Suc i - n" arbitrary: n s)
  case (Suc d)
  show ?case
  proof (cases "lp_finished s \<or> ob_finished (obs n)")
    case True
    then show ?thesis using Suc.prems by (subst main_loop.simps) auto
  next
    case run: False
    define s1 where "s1 = main_round pf m start (obs n) s"
    have step: "main_loop pf m start obs n s = main_loop pf m start obs (Suc n) s1"
      using run by (subst main_loop.simps) (simp add: s1_def)
    show ?thesis
    proof (cases "n = i")
      case True
      then have "lp_finished s1" using assms(2) run by (simp add: s1_def main_round_def Let_def split: prod.split)
      then have "main_loop pf m start obs (Suc n) s1 = Some (Suc n, s1)" by (subst main_loop.simps) simp
      then show ?thesis using step True \<open>lp_finished s1\<close> by simp
    next
      case False
      then show ?thesis using Suc step by simp
    qed
  qed
qed simp

text \<open>The codes that are reported: the sums over the threads.\<close>

lemma code_counts_bounded:
  "(\<And>k. code_count m k < 2 ^ 32) \<Longrightarrow> code_count (get_status_codes m ts) k < 2 ^ 32"
proof (induction ts arbitrary: m)
  case Nil
  then show ?case by (simp add: get_status_codes_def)
next
  case (Cons t ts)
  have "code_count (add_codes m t) k < 2 ^ 32" for k
    using Cons.prems unfolding add_codes_def
    by (induction t arbitrary: m) (auto simp: u32_less[simplified])
  then show ?case using Cons.IH[of "add_codes m t"] by (simp add: get_status_codes_def)
qed

lemma reported_codes:
  assumes "\<forall>t \<in> set ts. smap_ok t"
  shows "code_count (get_status_codes [] ts) k = u32 (\<Sum>t \<leftarrow> ts. code_count t k)" "smap_ok (get_status_codes [] ts)"
proof -
  have z: "code_count [] j = 0" for j by (simp add: code_count_def)
  show "code_count (get_status_codes [] ts) k = u32 (\<Sum>t \<leftarrow> ts. code_count t k)"
    using get_status_codes_count[OF assms, of "[]" k] code_counts_bounded[of "[]" ts k] z by (simp add: u32_id)
  have "smap_ok (foldl add_codes m ts)" if "smap_ok m" for m
    using that by (induction ts arbitrary: m) (simp_all add: smap_ok_add_codes)
  then show "smap_ok (get_status_codes [] ts)" by (simp add: get_status_codes_def smap_ok_def)
qed

lemma reported_total:
  "m_resp_count (fst (get_stat now ts t_stat_cntr_new calc l)) = u64 (\<Sum>t \<leftarrow> ts. m_resp_count t)"
proof -
  have z: "m_resp_count (t_stat_cntr_clear t_stat_cntr_new) = 0" by (simp add: t_stat_cntr_clear_def)
  show ?thesis
    using agg_threads_sums(2)[of "t_stat_cntr_clear t_stat_cntr_new" ts] agg_threads_less(2)[of "t_stat_cntr_clear t_stat_cntr_new" ts]
    by (simp add: get_stat_fst z u64_id)
qed

text \<open>The members before the first quotient.\<close>

definition results_head :: "(real \<Rightarrow> string) \<Rightarrow> main_st \<Rightarrow> nat \<Rightarrow> t_stat_cntr \<Rightarrow> string list" where
  "results_head dtoa m end_time_ms tot =
     [json_quoted ''fetches'' @ '':'' @ nat_str (m_resp_count tot),
      json_quoted ''max-parallel'' @ '':'' @ nat_str (l_num_parallel m),
      json_quoted ''bytes'' @ '':'' @ dtoa (real (total_bytes tot)),
      json_quoted ''seconds'' @ '':'' @ dtoa (real end_time_ms / 1000)]"

lemma ddiv_fin: "y \<noteq> 0 \<Longrightarrow> ddiv x y = DFin (x / y)" "y = 0 \<Longrightarrow> ddiv x y \<noteq> DFin z"
  by (simp_all add: ddiv_def)

lemma results_json_text:
  assumes "m_resp_count tot \<noteq> 0" "end_time_ms \<noteq> 0"
  shows "accept dtoa (results_json m end_time_ms tot codes) json_writer_new =
    Some (True, \<lparr>jw_out = json_text dtoa (results_json m end_time_ms tot codes), level_stack = [], hasRoot = True\<rparr>)"
proof -
  have "all_finite (results_json m end_time_ms tot codes)"
    using assms by (auto simp: results_json_def Let_def ddiv_fin list_all_iff)
  moreover have "Prefix (jtype_of (results_json m end_time_ms tot codes)) json_writer_new = Some (json_writer_new\<lparr>hasRoot := True\<rparr>)"
    by (simp add: Prefix_def json_writer_new_def)
  ultimately show ?thesis
    using accept_text(1)[of "results_json m end_time_ms tot codes" json_writer_new "json_writer_new\<lparr>hasRoot := True\<rparr>" dtoa]
    by (simp add: jw_put_def json_writer_new_def)
qed

lemma results_json_cut:
  assumes "m_resp_count tot = 0"
  shows "\<exists>w. accept dtoa (results_json m end_time_ms tot codes) json_writer_new = Some (False, w) \<and>
    jw_out w = ''{'' @ comma_sep (results_head dtoa m end_time_ms tot @ [json_quoted ''mean-bytes-per-conn'' @ '':''])"
proof -
  let ?b = "real (total_bytes tot)" and ?s = "real end_time_ms / 1000"
  let ?ms = "[(''fetches'', JUint (m_resp_count tot)), (''max-parallel'', JUint (l_num_parallel m)),
      (''bytes'', JDouble (DFin ?b)), (''seconds'', JDouble (DFin ?s))]"
  have fin: "list_all (\<lambda>(k, v). all_finite v) ?ms" by simp
  have "\<forall>x. ddiv ?b (real (m_resp_count tot)) \<noteq> DFin x" using assms by (simp add: ddiv_fin)
  note cut = accept_object_cut[OF fin this]
  obtain ms' where "results_json m end_time_ms tot codes = JObject (?ms @ (''mean-bytes-per-conn'', JDouble (ddiv ?b (real (m_resp_count tot)))) # ms')"
    by (simp add: results_json_def Let_def)
  then show ?thesis
    using cut[of dtoa "''mean-bytes-per-conn''" ms'] by (simp add: results_head_def member_text_def comma_sep_sep_after del: accept.simps)
qed

lemma results_json_cut_time:
  assumes "m_resp_count tot \<noteq> 0" "end_time_ms = 0"
  shows "\<exists>w. accept dtoa (results_json m end_time_ms tot codes) json_writer_new = Some (False, w) \<and>
    jw_out w = ''{'' @ comma_sep (results_head dtoa m end_time_ms tot @
      [json_quoted ''mean-bytes-per-conn'' @ '':'' @ dtoa (real (total_bytes tot) / real (m_resp_count tot)), json_quoted ''fetches-per-sec'' @ '':''])"
proof -
  let ?b = "real (total_bytes tot)" and ?s = "real end_time_ms / 1000" and ?n = "real (m_resp_count tot)"
  let ?ms = "[(''fetches'', JUint (m_resp_count tot)), (''max-parallel'', JUint (l_num_parallel m)),
      (''bytes'', JDouble (DFin ?b)), (''seconds'', JDouble (DFin ?s)), (''mean-bytes-per-conn'', JDouble (DFin (?b / ?n)))]"
  have fin: "list_all (\<lambda>(k, v). all_finite v) ?ms" by simp
  have "\<forall>x. ddiv ?n ?s \<noteq> DFin x" using assms by (simp add: ddiv_fin)
  note cut = accept_object_cut[OF fin this]
  obtain ms' where "results_json m end_time_ms tot codes = JObject (?ms @ (''fetches-per-sec'', JDouble (ddiv ?n ?s)) # ms')"
    using assms(1) by (simp add: results_json_def Let_def ddiv_fin)
  then show ?thesis
    using cut[of dtoa "''fetches-per-sec''" ms'] by (simp add: results_head_def member_text_def comma_sep_sep_after del: accept.simps)
qed

section \<open>Properties\<close>

text \<open>
  C8: The loop that waits ends at the latest with the round after the first in which the flag is
  set, the user types q, every thread has stopped, or the time asked for with -l has passed (and
  less than 24 days, which overflow).
\<close>

theorem main_loop_ends:
  assumes "n \<le> i"
    and "ob_finished (obs i) \<or> ob_key (obs i) = Some CHR ''q'' \<or> (\<forall>t \<in> set (ob_threads (obs i)). fst t) \<or>
      l_run_time_ms m \<noteq> -1 \<and> l_run_time_ms m \<le> int (sub64 (ob_now (obs i)) start) \<and> sub64 (ob_now (obs i)) start < 2 ^ 31"
  shows "\<exists>k s'. main_loop pf m start obs n s = Some (k, s') \<and> k \<le> Suc i \<and> (lp_finished s' \<or> ob_finished (obs k))"
proof -
  have "i32 (int (sub64 (ob_now (obs i)) start)) = int (sub64 (ob_now (obs i)) start)" if "sub64 (ob_now (obs i)) start < 2 ^ 31"
    using that by (intro i32_id) simp_all
  then have "ob_finished (obs i) \<or> round_over m start (obs i)"
    using assms(2) by (auto simp: round_over_def)
  then show ?thesis by (rule main_loop_run[OF assms(1)])
qed

text \<open>
  C9: With -j the program prints one complete JSON object, with the number of answers of all its threads
  and the count of each status over them, exactly when there was an answer and the test took a millisecond.
  Otherwise a quotient is not a number, and what it prints ends after the name of that member.
\<close>

theorem json_report_complete:
  assumes "l_display_results_json_flag m" "\<forall>t \<in> set threads. smap_ok (ts_codes t)"
    and "n = u64 (\<Sum>t \<leftarrow> threads. m_resp_count (ts_stat t))" "e = sub64 now start"
  shows "\<exists>out tot codes. main_report pf dtoa m start now now_stat threads l = Some out \<and> m_resp_count tot = n \<and>
    smap_ok codes \<and> (\<forall>k. code_count codes k = u32 (\<Sum>t \<leftarrow> threads. code_count (ts_codes t) k)) \<and>
    out = (if n = 0 then ''{'' @ comma_sep (results_head dtoa m e tot @ [json_quoted ''mean-bytes-per-conn'' @ '':''])
           else if e = 0 then ''{'' @ comma_sep (results_head dtoa m e tot @
             [json_quoted ''mean-bytes-per-conn'' @ '':'' @ dtoa (real (total_bytes tot) / real n), json_quoted ''fetches-per-sec'' @ '':''])
           else json_text dtoa (results_json m e tot codes))"
proof -
  define tot where "tot = fst (get_stat now_stat (map ts_stat threads) t_stat_cntr_new t_stat_calc_new l)"
  define codes where "codes = get_status_codes [] (map ts_codes threads)"
  have t: "m_resp_count tot = n" by (simp add: tot_def reported_total assms(3) comp_def)
  have c: "smap_ok codes" "code_count codes k = u32 (\<Sum>t \<leftarrow> threads. code_count (ts_codes t) k)" for k
    using reported_codes(1)[of "map ts_codes threads" k] reported_codes(2)[of "map ts_codes threads"] assms(2)
    by (simp_all add: codes_def comp_def)
  have r: "main_report pf dtoa m start now now_stat threads l =
      map_option (\<lambda>(_, w). jw_out w) (accept dtoa (results_json m e tot codes) json_writer_new)"
    using assms(1,4) by (simp add: main_report_def results_def tot_def codes_def case_prod_beta)
  consider (none) "n = 0" | (fast) "n \<noteq> 0" "e = 0" | (all) "n \<noteq> 0" "e \<noteq> 0" by blast
  then show ?thesis
  proof cases
    case none
    then show ?thesis using results_json_cut[of tot dtoa m e codes] r t c by auto
  next
    case fast
    then show ?thesis using results_json_cut_time[of tot e dtoa m codes] r t c by auto
  next
    case all
    then show ?thesis using results_json_text[of tot e dtoa m codes] r t c by auto
  qed
qed


theorem main_loop_ends_witness:
  "\<exists>k s'. main_loop (\<lambda>_ _ _. []) ((main_init demo_main_env)\<lparr>l_run_time_ms := 3000\<rparr>) 1000
     (\<lambda>i. \<lparr>ob_finished = False, ob_key = None, ob_now = 1000 + 500 * i, ob_threads = [(False, t_stat_cntr_new, [])],
        ob_now_stat = 1000 + 500 * i, ob_now_show = 1000 + 500 * i\<rparr>) 0 (loop_init stat_last_new) = Some (k, s') \<and> k \<le> 7"
  using main_loop_ends[of 0 6 "\<lambda>i. \<lparr>ob_finished = False, ob_key = None, ob_now = 1000 + 500 * i,
      ob_threads = [(False, t_stat_cntr_new, [])], ob_now_stat = 1000 + 500 * i, ob_now_show = 1000 + 500 * i\<rparr>"
      "(main_init demo_main_env)\<lparr>l_run_time_ms := 3000\<rparr>" 1000 "\<lambda>_ _ _. []" "loop_init stat_last_new"]
  by (auto simp: sub64_def)

theorem json_report_complete_witness:
  "\<exists>out. main_report (\<lambda>_ _ _. []) (\<lambda>_. ''1.0'') ((main_init demo_main_env)\<lparr>l_display_results_json_flag := True\<rparr>) 1000 2000 2000
      [\<lparr>ts_stat = t_stat_cntr_new, ts_codes = []\<rparr>] stat_last_new = Some out \<and> last out = CHR '':''"
proof -
  have s: "\<forall>t \<in> set [\<lparr>ts_stat = t_stat_cntr_new, ts_codes = []\<rparr>]. smap_ok (ts_codes t)" by (simp add: smap_ok_def)
  have "0 = u64 (\<Sum>t \<leftarrow> [\<lparr>ts_stat = t_stat_cntr_new, ts_codes = []\<rparr>]. m_resp_count (ts_stat t))"
    by (simp add: t_stat_cntr_new_def u64_def)
  from json_report_complete[OF _ s this refl, of "(main_init demo_main_env)\<lparr>l_display_results_json_flag := True\<rparr>" "\<lambda>_ _ _. []" "\<lambda>_. ''1.0''" 1000 2000 2000 stat_last_new]
  show ?thesis by (auto simp: results_head_def comma_sep_def)
qed

section \<open>Corner cases\<close>

text \<open>
  No option turns the display per interval off, so that -C and -L show the same and the columns of counts are
  never shown.
\<close>

definition interval_kept :: "main_st cont option \<Rightarrow> bool" where
  "interval_kept r \<longleftrightarrow> (\<forall>m. r = Some (Go m) \<longrightarrow> l_show_per_interval m)"

lemma interval_kept_simps [simp]:
  "interval_kept None" "interval_kept (Some (Exit c))" "interval_kept (Some (Go m)) \<longleftrightarrow> l_show_per_interval m"
  "interval_kept (map_option (\<lambda>t. Go (f t)) r) \<longleftrightarrow> (\<forall>t. r = Some t \<longrightarrow> l_show_per_interval (f t))"
  by (auto simp: interval_kept_def)

lemma interval_kept_num: "(\<And>v. interval_kept (f v)) \<Longrightarrow> interval_kept (opt_num least arg f)"
  by (simp add: opt_num_def split: option.split)

lemma interval_upd [simp]:
  "l_show_per_interval (upd_req f m) = l_show_per_interval m" "l_show_per_interval (upd_cfg g m) = l_show_per_interval m"
  by (simp_all add: upd_req_def upd_cfg_def)

lemma interval_kept_opt:
  assumes "l_show_per_interval m"
  shows "interval_kept (main_opt e g m)"
proof -
  have i: "interval_kept x \<Longrightarrow> interval_kept y \<Longrightarrow> interval_kept (if b then x else y)" for b x y by simp
  have d: "interval_kept (opt_data e s m)" for s
    using assms by (auto simp: opt_data_def interval_kept_def bind_eq_Some_conv split: if_splits)
  have h: "interval_kept (Some (opt_header s m))" "interval_kept (Some (opt_mode s m))" for s
    using assms by (auto simp: opt_header_def opt_mode_def split: option.split prod.split)
  have o: "l_show_per_interval (opt_trace s m)" "l_show_per_interval (opt_url u m)" for s u
    using assms by (auto simp: opt_trace_def opt_url_def Let_def split: option.split)
  show ?thesis
    unfolding main_opt_def Let_def
    by (intro i interval_kept_num d h(1)) (simp_all add: assms h o split: option.split prod.split)
qed

lemma interval_always:
  "l_show_per_interval m \<Longrightarrow> main_opts e gs m = Some (Go m') \<Longrightarrow> l_show_per_interval m'"
proof (induction gs arbitrary: m)
  case (Cons g gs)
  have k: "interval_kept (main_opt e g m)" by (rule interval_kept_opt[OF Cons.prems(1)])
  show ?case
    using Cons.prems(2) Cons.IH k by (auto split: option.splits cont.splits if_splits)
qed simp

text \<open>
  A file of results is complete when the program says so.
\<close>

lemma results_written:
  assumes "l_output_file m \<noteq> []" "\<And>n. fw n \<le> n" "length out < 2 ^ 31" "write_results m fo fw fc out = (0, t, f)"
  shows "f = Some out"
proof -
  have "i32 (int (fw (length out))) = int (fw (length out))" "i32 (int (length out)) = int (length out)"
    using assms(2)[of "length out"] assms(3) by (simp_all add: i32_id)
  then show ?thesis
    using assms(1,4) by (auto simp: write_results_def Let_def status_defs split: if_splits)
qed

end
