(* ===== verification/Http_Parser.thy ===== *)
theory Http_Parser
  imports Prelude "HOL-Library.Word"
begin

unbundle bit_operations_syntax

text \<open>
  The parser of \<^verbatim>\<open>ext/http_parser/http_parser.cc\<close> as the program builds it, with
  \<^verbatim>\<open>HTTP_PARSER_STRICT=0\<close> (\<^verbatim>\<open>CMakeLists.txt\<close>): the state machine of \<^verbatim>\<open>http_parser_execute\<close>
  for requests and responses.  \<^term>\<open>None\<close> and \<open>Abort\<close> are a failed \<^verbatim>\<open>assert\<close> (the program is
  built without \<^verbatim>\<open>NDEBUG\<close>) or an access outside a buffer.

  The local copies of \<^verbatim>\<open>state\<close> and \<^verbatim>\<open>nread\<close> are written back before every return, so that the
  model has the fields alone; a callback may see older values, at which those of the program do
  not look.  A callback is a function of
  the parser and of the data it points to; one that is not installed returns 0 and does nothing.
  The callbacks of the program only read the parser, so that a callback that changes or pauses it
  is not modelled.
\<close>

section \<open>Data\<close>

datatype hp_type = HTTP_REQUEST | HTTP_RESPONSE | HTTP_BOTH

datatype hp_state =
    s_dead
  | s_start_req_or_res | s_res_or_resp_H | s_start_res
  | s_res_H | s_res_HT | s_res_HTT | s_res_HTTP
  | s_res_http_major | s_res_http_dot | s_res_http_minor | s_res_http_end
  | s_res_first_status_code | s_res_status_code | s_res_status_start | s_res_status | s_res_line_almost_done
  | s_start_req
  | s_req_method | s_req_spaces_before_url
  | s_req_schema | s_req_schema_slash | s_req_schema_slash_slash
  | s_req_server_start | s_req_server | s_req_server_with_at
  | s_req_path | s_req_query_string_start | s_req_query_string
  | s_req_fragment_start | s_req_fragment
  | s_req_http_start | s_req_http_H | s_req_http_HT | s_req_http_HTT | s_req_http_HTTP
  | s_req_http_I | s_req_http_IC
  | s_req_http_major | s_req_http_dot | s_req_http_minor | s_req_http_end | s_req_line_almost_done
  | s_header_field_start | s_header_field
  | s_header_value_discard_ws | s_header_value_discard_ws_almost_done | s_header_value_discard_lws
  | s_header_value_start | s_header_value | s_header_value_lws
  | s_header_almost_done
  | s_chunk_size_start | s_chunk_size | s_chunk_parameters | s_chunk_size_almost_done
  | s_headers_almost_done | s_headers_done
  | s_chunk_data | s_chunk_data_almost_done | s_chunk_data_done
  | s_body_identity | s_body_identity_eof
  | s_message_done

definition body_states :: "hp_state list" where
  "body_states = [s_chunk_data, s_chunk_data_almost_done, s_chunk_data_done, s_body_identity, s_body_identity_eof, s_message_done]"

text \<open>\<^verbatim>\<open>PARSING_HEADER\<close>: the states up to \<^verbatim>\<open>s_headers_done\<close>.\<close>

definition parsing_header :: "hp_state \<Rightarrow> bool" where
  "parsing_header s \<longleftrightarrow> s \<notin> set body_states"

datatype hp_hstate =
    h_general | h_C | h_CO | h_CON
  | h_matching_connection | h_matching_proxy_connection | h_matching_content_length
  | h_matching_transfer_encoding | h_matching_upgrade
  | h_connection | h_content_length | h_content_length_num | h_content_length_ws
  | h_transfer_encoding | h_upgrade
  | h_matching_transfer_encoding_token_start | h_matching_transfer_encoding_chunked | h_matching_transfer_encoding_token
  | h_matching_connection_token_start | h_matching_connection_keep_alive | h_matching_connection_close
  | h_matching_connection_upgrade | h_matching_connection_token
  | h_transfer_encoding_chunked | h_connection_keep_alive | h_connection_close | h_connection_upgrade

datatype http_errno =
    HPE_OK
  | HPE_CB_message_begin | HPE_CB_url | HPE_CB_header_field | HPE_CB_header_value | HPE_CB_headers_complete
  | HPE_CB_body | HPE_CB_message_complete | HPE_CB_status | HPE_CB_chunk_header | HPE_CB_chunk_complete
  | HPE_INVALID_EOF_STATE | HPE_HEADER_OVERFLOW | HPE_CLOSED_CONNECTION
  | HPE_INVALID_VERSION | HPE_INVALID_STATUS | HPE_INVALID_METHOD | HPE_INVALID_URL
  | HPE_INVALID_HOST | HPE_INVALID_PORT | HPE_INVALID_PATH | HPE_INVALID_QUERY_STRING | HPE_INVALID_FRAGMENT
  | HPE_LF_EXPECTED | HPE_INVALID_HEADER_TOKEN | HPE_INVALID_CONTENT_LENGTH | HPE_UNEXPECTED_CONTENT_LENGTH
  | HPE_INVALID_CHUNK_SIZE | HPE_INVALID_CONSTANT | HPE_INVALID_INTERNAL_STATE
  | HPE_STRICT | HPE_PAUSED | HPE_UNKNOWN | HPE_INVALID_TRANSFER_ENCODING

datatype http_method =
    M_DELETE | M_GET | M_HEAD | M_POST | M_PUT
  | M_CONNECT | M_OPTIONS | M_TRACE
  | M_COPY | M_LOCK | M_MKCOL | M_MOVE | M_PROPFIND | M_PROPPATCH | M_SEARCH | M_UNLOCK | M_BIND | M_REBIND | M_UNBIND | M_ACL
  | M_REPORT | M_MKACTIVITY | M_CHECKOUT | M_MERGE
  | M_MSEARCH | M_NOTIFY | M_SUBSCRIBE | M_UNSUBSCRIBE
  | M_PATCH | M_PURGE | M_MKCALENDAR | M_LINK | M_UNLINK | M_SOURCE

primrec method_string :: "http_method \<Rightarrow> string" where
  "method_string M_DELETE = ''DELETE''" | "method_string M_GET = ''GET''" | "method_string M_HEAD = ''HEAD''"
| "method_string M_POST = ''POST''" | "method_string M_PUT = ''PUT''" | "method_string M_CONNECT = ''CONNECT''"
| "method_string M_OPTIONS = ''OPTIONS''" | "method_string M_TRACE = ''TRACE''" | "method_string M_COPY = ''COPY''"
| "method_string M_LOCK = ''LOCK''" | "method_string M_MKCOL = ''MKCOL''" | "method_string M_MOVE = ''MOVE''"
| "method_string M_PROPFIND = ''PROPFIND''" | "method_string M_PROPPATCH = ''PROPPATCH''" | "method_string M_SEARCH = ''SEARCH''"
| "method_string M_UNLOCK = ''UNLOCK''" | "method_string M_BIND = ''BIND''" | "method_string M_REBIND = ''REBIND''"
| "method_string M_UNBIND = ''UNBIND''" | "method_string M_ACL = ''ACL''" | "method_string M_REPORT = ''REPORT''"
| "method_string M_MKACTIVITY = ''MKACTIVITY''" | "method_string M_CHECKOUT = ''CHECKOUT''" | "method_string M_MERGE = ''MERGE''"
| "method_string M_MSEARCH = ''M-SEARCH''" | "method_string M_NOTIFY = ''NOTIFY''" | "method_string M_SUBSCRIBE = ''SUBSCRIBE''"
| "method_string M_UNSUBSCRIBE = ''UNSUBSCRIBE''" | "method_string M_PATCH = ''PATCH''" | "method_string M_PURGE = ''PURGE''"
| "method_string M_MKCALENDAR = ''MKCALENDAR''" | "method_string M_LINK = ''LINK''" | "method_string M_UNLINK = ''UNLINK''"
| "method_string M_SOURCE = ''SOURCE''"

definition F_CHUNKED :: "8 word" where "F_CHUNKED = 1"
definition F_CONNECTION_KEEP_ALIVE :: "8 word" where "F_CONNECTION_KEEP_ALIVE = 2"
definition F_CONNECTION_CLOSE :: "8 word" where "F_CONNECTION_CLOSE = 4"
definition F_CONNECTION_UPGRADE :: "8 word" where "F_CONNECTION_UPGRADE = 8"
definition F_TRAILING :: "8 word" where "F_TRAILING = 16"
definition F_UPGRADE :: "8 word" where "F_UPGRADE = 32"
definition F_SKIPBODY :: "8 word" where "F_SKIPBODY = 64"
definition F_CONTENTLENGTH :: "8 word" where "F_CONTENTLENGTH = 128"

lemmas flag_defs = F_CHUNKED_def F_CONNECTION_KEEP_ALIVE_def F_CONNECTION_CLOSE_def F_CONNECTION_UPGRADE_def
  F_TRAILING_def F_UPGRADE_def F_SKIPBODY_def F_CONTENTLENGTH_def

definition ULLONG_MAX :: nat where "ULLONG_MAX = 2 ^ 64 - 1"
definition HTTP_MAX_HEADER_SIZE :: nat where "HTTP_MAX_HEADER_SIZE = 80 * 1024"

text \<open>The bit fields \<^verbatim>\<open>index : 5\<close> and \<^verbatim>\<open>status_code : 16\<close> wrap at their width.\<close>

definition u16 :: "nat \<Rightarrow> nat" where "u16 n = n mod 2 ^ 16"
definition inc5 :: "nat \<Rightarrow> nat" where "inc5 n = (n + 1) mod 32"

record http_parser =
  hp_type :: hp_type
  hp_flags :: "8 word"
  hp_state :: hp_state
  hp_hstate :: hp_hstate
  hp_index :: nat
  hp_uses_te :: bool
  hp_allow_chunked_length :: bool
  hp_lenient :: bool
  hp_nread :: nat
  hp_content_length :: nat
  hp_http_major :: nat
  hp_http_minor :: nat
  hp_status_code :: nat
  hp_method :: http_method
  hp_errno :: http_errno
  hp_upgrade :: bool

definition has_flag :: "8 word \<Rightarrow> 'a http_parser_scheme \<Rightarrow> bool" where
  "has_flag f l \<longleftrightarrow> hp_flags l AND f \<noteq> 0"

definition set_flag :: "8 word \<Rightarrow> 'a http_parser_scheme \<Rightarrow> 'a http_parser_scheme" where
  "set_flag f l = l\<lparr>hp_flags := hp_flags l OR f\<rparr>"

definition http_parser_init :: "hp_type \<Rightarrow> http_parser" where
  "http_parser_init t =
     \<lparr>hp_type = t, hp_flags = 0,
      hp_state = (case t of HTTP_REQUEST \<Rightarrow> s_start_req | HTTP_RESPONSE \<Rightarrow> s_start_res | HTTP_BOTH \<Rightarrow> s_start_req_or_res),
      hp_hstate = h_general, hp_index = 0, hp_uses_te = False, hp_allow_chunked_length = False, hp_lenient = False,
      hp_nread = 0, hp_content_length = 0, hp_http_major = 0, hp_http_minor = 0, hp_status_code = 0,
      hp_method = M_DELETE, hp_errno = HPE_OK, hp_upgrade = False\<rparr>"

section \<open>Characters\<close>

definition CR :: char where "CR = CHR 0x0D"
definition LF :: char where "LF = CHR 0x0A"
definition SP :: char where "SP = CHR '' ''"
definition HTAB :: char where "HTAB = CHR 0x09"

definition is_crlf :: "char \<Rightarrow> bool" where
  "is_crlf c \<longleftrightarrow> c = CR \<or> c = LF"

text \<open>The table \<^verbatim>\<open>tokens\<close>: the first half is written out, the second is zero.\<close>

definition tokens_low :: string where
  "tokens_low =
     replicate 32 NUL @
     [CHR '' '', CHR ''!'', NUL, CHR ''#'', CHR ''$'', CHR ''%'', CHR ''&'', CHR 0x27] @
     [NUL, NUL, CHR ''*'', CHR ''+'', NUL, CHR ''-'', CHR ''.'', NUL] @
     ''0123456789'' @ replicate 6 NUL @
     [NUL] @ ''abcdefghijklmnopqrstuvwxyz'' @ [NUL, NUL, NUL, CHR ''^'', CHR ''_''] @
     [CHR 0x60] @ ''abcdefghijklmnopqrstuvwxyz'' @ [NUL, CHR ''|'', NUL, CHR ''~'', NUL]"

definition token :: "char \<Rightarrow> char" where
  "token c = (let n = of_char c :: nat in if n < 128 then tokens_low ! n else NUL)"

definition strict_token :: "char \<Rightarrow> char" where
  "strict_token c = (if c = SP then NUL else token c)"

definition unhex_low :: "int list" where
  "unhex_low =
     replicate 48 (-1) @ [0, 1, 2, 3, 4, 5, 6, 7, 8, 9] @ replicate 6 (-1) @
     [-1, 10, 11, 12, 13, 14, 15] @ replicate 9 (-1) @ replicate 16 (-1) @
     [-1, 10, 11, 12, 13, 14, 15] @ replicate 9 (-1) @ replicate 16 (-1)"

text \<open>The array has 256 elements and an initialiser for 128: the others are 0.\<close>

definition unhex :: "char \<Rightarrow> int" where
  "unhex c = (let n = of_char c :: nat in if n < 128 then unhex_low ! n else 0)"

definition LOWER :: "char \<Rightarrow> char" where
  "LOWER c = char_of ((of_char c :: nat) OR 32)"

definition is_between :: "char \<Rightarrow> char \<Rightarrow> char \<Rightarrow> bool" where
  "is_between a b c \<longleftrightarrow> (of_char a :: nat) \<le> of_char c \<and> (of_char c :: nat) \<le> of_char b"

definition is_alpha :: "char \<Rightarrow> bool" where "is_alpha c \<longleftrightarrow> is_between CHR ''a'' CHR ''z'' (LOWER c)"
definition is_num :: "char \<Rightarrow> bool" where "is_num c \<longleftrightarrow> is_between CHR ''0'' CHR ''9'' c"
definition is_alphanum :: "char \<Rightarrow> bool" where "is_alphanum c \<longleftrightarrow> is_alpha c \<or> is_num c"
definition is_hex :: "char \<Rightarrow> bool" where "is_hex c \<longleftrightarrow> is_num c \<or> is_between CHR ''a'' CHR ''f'' (LOWER c)"
definition is_mark :: "char \<Rightarrow> bool" where "is_mark c \<longleftrightarrow> c \<in> set (''-_.!~*()'' @ [CHR 0x27])"
definition is_userinfo_char :: "char \<Rightarrow> bool" where
  "is_userinfo_char c \<longleftrightarrow> is_alphanum c \<or> is_mark c \<or> c \<in> set ''%;:&=+$,''"

text \<open>The bit table \<^verbatim>\<open>normal_url_char\<close>, a number for each eight characters, and the check that is not strict.\<close>

definition normal_url_low :: "nat list" where
  "normal_url_low = [0, 18, 0, 0, 246, 255, 255, 127, 255, 255, 255, 255, 255, 255, 255, 127]"

definition is_url_char :: "char \<Rightarrow> bool" where
  "is_url_char c \<longleftrightarrow>
     (let n = of_char c :: nat in (n < 128 \<and> bit (normal_url_low ! (n div 8)) (n mod 8)) \<or> 128 \<le> n)"

definition is_host_char :: "char \<Rightarrow> bool" where
  "is_host_char c \<longleftrightarrow> is_alphanum c \<or> c \<in> set ''.-_''"

definition is_header_char :: "char \<Rightarrow> bool" where
  "is_header_char c \<longleftrightarrow> c = CR \<or> c = LF \<or> c = HTAB \<or> ((of_char c :: nat) > 31 \<and> (of_char c :: nat) \<noteq> 127)"

definition num_val :: "char \<Rightarrow> nat" where
  "num_val c = of_char c - 48"

end
