(* ===== verification/Http_Execute.thy ===== *)
theory Http_Execute
  imports Http_Parser
begin

text \<open>
  \<^verbatim>\<open>http_parser_execute\<close> of \<^verbatim>\<open>ext/http_parser/http_parser.cc\<close>: one definition per group of
  cases of its switch, in the order of the code, the loop over the buffer, and the functions a
  callback may ask about the parser.  Positions are offsets from \<^verbatim>\<open>data\<close>.
\<close>

unbundle bit_operations_syntax

section \<open>Locals and callbacks\<close>

datatype hp_mark = M_header_field | M_header_value | M_url | M_body | M_status

datatype hp_cbk =
    On_message_begin
  | On_data hp_mark nat nat
  | On_headers_complete
  | On_message_complete
  | On_chunk_header
  | On_chunk_complete

record 'u hp_loc = http_parser +
  l_p :: nat
  l_ch :: char
  l_mark :: "hp_mark \<Rightarrow> nat option"
  l_user :: 'u

text \<open>The callbacks, the buffer, and the limit \<^verbatim>\<open>max_header_size\<close>.\<close>

type_synonym 'u hp_settings = "hp_cbk \<Rightarrow> http_parser \<Rightarrow> 'u \<Rightarrow> int \<times> 'u"

record 'u hp_cx =
  cx_call :: "'u hp_settings"
  cx_data :: string
  cx_max :: nat

text \<open>How a case of the switch ends: \<^verbatim>\<open>break\<close>, \<^verbatim>\<open>goto reexecute\<close>, \<^verbatim>\<open>return\<close>, or a failed assertion.\<close>

datatype 'u hp_out = Next "'u hp_loc" | Redo "'u hp_loc" | Stop nat "'u hp_loc" | Abort

definition hp_err :: "http_errno \<Rightarrow> 'u hp_loc \<Rightarrow> 'u hp_out" where
  "hp_err e l = Stop (l_p l) (l\<lparr>hp_errno := e\<rparr>)"

primrec mark_errno :: "hp_mark \<Rightarrow> http_errno" where
  "mark_errno M_header_field = HPE_CB_header_field"
| "mark_errno M_header_value = HPE_CB_header_value"
| "mark_errno M_url = HPE_CB_url"
| "mark_errno M_body = HPE_CB_body"
| "mark_errno M_status = HPE_CB_status"

definition callback_notify ::
  "'u hp_cx \<Rightarrow> hp_cbk \<Rightarrow> http_errno \<Rightarrow> nat \<Rightarrow> ('u hp_loc \<Rightarrow> 'u hp_out) \<Rightarrow> 'u hp_loc \<Rightarrow> 'u hp_out" where
  "callback_notify cx f e er k l =
     (if hp_errno l \<noteq> HPE_OK then Abort
      else case cx_call cx f (http_parser.truncate l) (l_user l) of
        (r, u) \<Rightarrow> if r \<noteq> 0 then Stop er (l\<lparr>l_user := u, hp_errno := e\<rparr>) else k (l\<lparr>l_user := u\<rparr>))"

text \<open>\<open>e\<close> is the end of the data, \<open>er\<close> what is returned when the callback fails.\<close>

definition callback_data ::
  "'u hp_cx \<Rightarrow> hp_mark \<Rightarrow> nat \<Rightarrow> nat \<Rightarrow> ('u hp_loc \<Rightarrow> 'u hp_out) \<Rightarrow> 'u hp_loc \<Rightarrow> 'u hp_out" where
  "callback_data cx m e er k l =
     (if hp_errno l \<noteq> HPE_OK then Abort
      else case l_mark l m of
        None \<Rightarrow> k l
      | Some a \<Rightarrow>
          (case cx_call cx (On_data m a (e - a)) (http_parser.truncate l) (l_user l) of
             (r, u) \<Rightarrow> if r \<noteq> 0 then Stop er (l\<lparr>l_user := u, hp_errno := mark_errno m\<rparr>)
                       else k (l\<lparr>l_user := u, l_mark := (l_mark l)(m := None)\<rparr>)))"

definition set_mark :: "hp_mark \<Rightarrow> 'u hp_loc \<Rightarrow> 'u hp_loc" where
  "set_mark m l = (if l_mark l m = None then l\<lparr>l_mark := (l_mark l)(m \<mapsto> l_p l)\<rparr> else l)"

definition count_header_size :: "'u hp_cx \<Rightarrow> nat \<Rightarrow> ('u hp_loc \<Rightarrow> 'u hp_out) \<Rightarrow> 'u hp_loc \<Rightarrow> 'u hp_out" where
  "count_header_size cx v k l =
     (let l1 = l\<lparr>hp_nread := u32 (hp_nread l + v)\<rparr>
      in if hp_nread l1 > cx_max cx then hp_err HPE_HEADER_OVERFLOW l1 else k l1)"

abbreviation goto :: "hp_state \<Rightarrow> 'u hp_loc \<Rightarrow> 'u hp_loc" where
  "goto s l \<equiv> l\<lparr>hp_state := s\<rparr>"

definition start_state :: "'a http_parser_scheme \<Rightarrow> hp_state" where
  "start_state l = (if hp_type l = HTTP_REQUEST then s_start_req else s_start_res)"

definition message_complete :: "'u hp_cx \<Rightarrow> ('u hp_loc \<Rightarrow> 'u hp_out) \<Rightarrow> 'u hp_loc \<Rightarrow> 'u hp_out" where
  "message_complete cx k l =
     callback_notify cx On_message_complete HPE_CB_message_complete (l_p l + 1) k (goto (start_state l) l)"

section \<open>What callbacks ask\<close>

definition http_message_needs_eof :: "'a http_parser_scheme \<Rightarrow> bool" where
  "http_message_needs_eof l =
     (if hp_type l = HTTP_REQUEST then False
      else if hp_status_code l div 100 = 1 \<or> hp_status_code l = 204 \<or> hp_status_code l = 304 \<or> has_flag F_SKIPBODY l then False
      else if hp_uses_te l \<and> \<not> has_flag F_CHUNKED l then True
      else if has_flag F_CHUNKED l \<or> hp_content_length l \<noteq> ULLONG_MAX then False
      else True)"

definition http_should_keep_alive :: "'a http_parser_scheme \<Rightarrow> bool" where
  "http_should_keep_alive l =
     (if hp_http_major l > 0 \<and> hp_http_minor l > 0
      then (if has_flag F_CONNECTION_CLOSE l then False else \<not> http_message_needs_eof l)
      else (if \<not> has_flag F_CONNECTION_KEEP_ALIVE l then False else \<not> http_message_needs_eof l))"

section \<open>The characters of a URL\<close>

definition parse_url_char :: "hp_state \<Rightarrow> char \<Rightarrow> hp_state" where
  "parse_url_char s ch =
     (if ch = SP \<or> is_crlf ch then s_dead
      else case s of
        s_req_spaces_before_url \<Rightarrow>
          if ch = CHR ''/'' \<or> ch = CHR ''*'' then s_req_path
          else if is_alpha ch then s_req_schema else s_dead
      | s_req_schema \<Rightarrow>
          if is_alpha ch then s else if ch = CHR '':'' then s_req_schema_slash else s_dead
      | s_req_schema_slash \<Rightarrow> if ch = CHR ''/'' then s_req_schema_slash_slash else s_dead
      | s_req_schema_slash_slash \<Rightarrow> if ch = CHR ''/'' then s_req_server_start else s_dead
      | s_req_server_with_at \<Rightarrow>
          if ch = CHR ''@'' then s_dead
          else if ch = CHR ''/'' then s_req_path
          else if ch = CHR ''?'' then s_req_query_string_start
          else if is_userinfo_char ch \<or> ch = CHR ''['' \<or> ch = CHR '']'' then s_req_server else s_dead
      | s_req_server_start \<Rightarrow>
          if ch = CHR ''/'' then s_req_path
          else if ch = CHR ''?'' then s_req_query_string_start
          else if ch = CHR ''@'' then s_req_server_with_at
          else if is_userinfo_char ch \<or> ch = CHR ''['' \<or> ch = CHR '']'' then s_req_server else s_dead
      | s_req_server \<Rightarrow>
          if ch = CHR ''/'' then s_req_path
          else if ch = CHR ''?'' then s_req_query_string_start
          else if ch = CHR ''@'' then s_req_server_with_at
          else if is_userinfo_char ch \<or> ch = CHR ''['' \<or> ch = CHR '']'' then s_req_server else s_dead
      | s_req_path \<Rightarrow>
          if is_url_char ch then s
          else if ch = CHR ''?'' then s_req_query_string_start
          else if ch = CHR ''#'' then s_req_fragment_start else s_dead
      | s_req_query_string_start \<Rightarrow>
          if is_url_char ch \<or> ch = CHR ''?'' then s_req_query_string
          else if ch = CHR ''#'' then s_req_fragment_start else s_dead
      | s_req_query_string \<Rightarrow>
          if is_url_char ch \<or> ch = CHR ''?'' then s_req_query_string
          else if ch = CHR ''#'' then s_req_fragment_start else s_dead
      | s_req_fragment_start \<Rightarrow>
          if is_url_char ch \<or> ch = CHR ''?'' then s_req_fragment
          else if ch = CHR ''#'' then s else s_dead
      | s_req_fragment \<Rightarrow>
          if is_url_char ch \<or> ch = CHR ''?'' \<or> ch = CHR ''#'' then s else s_dead
      | _ \<Rightarrow> s_dead)"

section \<open>The start of a message\<close>

definition begin_message :: "'u hp_loc \<Rightarrow> 'u hp_loc" where
  "begin_message l = l\<lparr>hp_flags := 0, hp_uses_te := False, hp_content_length := ULLONG_MAX\<rparr>"

definition st_dead :: "'u hp_cx \<Rightarrow> 'u hp_loc \<Rightarrow> 'u hp_out" where
  "st_dead cx l = (if is_crlf (l_ch l) then Next l else hp_err HPE_CLOSED_CONNECTION l)"

definition st_start_req_or_res :: "'u hp_cx \<Rightarrow> 'u hp_loc \<Rightarrow> 'u hp_out" where
  "st_start_req_or_res cx l =
     (if is_crlf (l_ch l) then Next l
      else if l_ch l = CHR ''H''
      then callback_notify cx On_message_begin HPE_CB_message_begin (l_p l + 1) Next (goto s_res_or_resp_H (begin_message l))
      else Redo (goto s_start_req ((begin_message l)\<lparr>hp_type := HTTP_REQUEST\<rparr>)))"

definition st_res_or_resp_H :: "'u hp_cx \<Rightarrow> 'u hp_loc \<Rightarrow> 'u hp_out" where
  "st_res_or_resp_H cx l =
     (if l_ch l = CHR ''T'' then Next (goto s_res_HT (l\<lparr>hp_type := HTTP_RESPONSE\<rparr>))
      else if l_ch l \<noteq> CHR ''E'' then hp_err HPE_INVALID_CONSTANT l
      else Next (goto s_req_method (l\<lparr>hp_type := HTTP_REQUEST, hp_method := M_HEAD, hp_index := 2\<rparr>)))"

definition st_start_res :: "'u hp_cx \<Rightarrow> 'u hp_loc \<Rightarrow> 'u hp_out" where
  "st_start_res cx l =
     (if is_crlf (l_ch l) then Next l
      else if l_ch l = CHR ''H''
      then callback_notify cx On_message_begin HPE_CB_message_begin (l_p l + 1) Next (goto s_res_H (begin_message l))
      else hp_err HPE_INVALID_CONSTANT (begin_message l))"

section \<open>The status line\<close>

definition st_res_http_major :: "'u hp_cx \<Rightarrow> 'u hp_loc \<Rightarrow> 'u hp_out" where
  "st_res_http_major cx l =
     (if \<not> is_num (l_ch l) then hp_err HPE_INVALID_VERSION l
      else Next (goto s_res_http_dot (l\<lparr>hp_http_major := num_val (l_ch l)\<rparr>)))"

definition st_res_http_dot :: "'u hp_cx \<Rightarrow> 'u hp_loc \<Rightarrow> 'u hp_out" where
  "st_res_http_dot cx l =
     (if l_ch l \<noteq> CHR ''.'' then hp_err HPE_INVALID_VERSION l else Next (goto s_res_http_minor l))"

definition st_res_http_minor :: "'u hp_cx \<Rightarrow> 'u hp_loc \<Rightarrow> 'u hp_out" where
  "st_res_http_minor cx l =
     (if \<not> is_num (l_ch l) then hp_err HPE_INVALID_VERSION l
      else Next (goto s_res_http_end (l\<lparr>hp_http_minor := num_val (l_ch l)\<rparr>)))"

definition st_res_http_end :: "'u hp_cx \<Rightarrow> 'u hp_loc \<Rightarrow> 'u hp_out" where
  "st_res_http_end cx l =
     (if l_ch l \<noteq> SP then hp_err HPE_INVALID_VERSION l else Next (goto s_res_first_status_code l))"

definition st_res_first_status_code :: "'u hp_cx \<Rightarrow> 'u hp_loc \<Rightarrow> 'u hp_out" where
  "st_res_first_status_code cx l =
     (if \<not> is_num (l_ch l) then (if l_ch l = SP then Next l else hp_err HPE_INVALID_STATUS l)
      else Next (goto s_res_status_code (l\<lparr>hp_status_code := num_val (l_ch l)\<rparr>)))"

definition st_res_status_code :: "'u hp_cx \<Rightarrow> 'u hp_loc \<Rightarrow> 'u hp_out" where
  "st_res_status_code cx l =
     (if \<not> is_num (l_ch l)
      then (if l_ch l = SP then Next (goto s_res_status_start l)
            else if is_crlf (l_ch l) then Redo (goto s_res_status_start l)
            else hp_err HPE_INVALID_STATUS l)
      else let l1 = l\<lparr>hp_status_code := u16 (u16 (hp_status_code l * 10) + num_val (l_ch l))\<rparr>
           in if hp_status_code l1 > 999 then hp_err HPE_INVALID_STATUS l1 else Next l1)"

definition st_res_status_start :: "'u hp_cx \<Rightarrow> 'u hp_loc \<Rightarrow> 'u hp_out" where
  "st_res_status_start cx l =
     (let l1 = (goto s_res_status (set_mark M_status l))\<lparr>hp_index := 0\<rparr>
      in if is_crlf (l_ch l) then Redo l1 else Next l1)"

definition st_res_status :: "'u hp_cx \<Rightarrow> 'u hp_loc \<Rightarrow> 'u hp_out" where
  "st_res_status cx l =
     (if l_ch l = CR then callback_data cx M_status (l_p l) (l_p l + 1) Next (goto s_res_line_almost_done l)
      else if l_ch l = LF then callback_data cx M_status (l_p l) (l_p l + 1) Next (goto s_header_field_start l)
      else Next l)"

section \<open>The request line\<close>

definition first_method :: "char \<Rightarrow> http_method option" where
  "first_method ch =
     map_of [(CHR ''A'', M_ACL), (CHR ''B'', M_BIND), (CHR ''C'', M_CONNECT), (CHR ''D'', M_DELETE), (CHR ''G'', M_GET),
       (CHR ''H'', M_HEAD), (CHR ''L'', M_LOCK), (CHR ''M'', M_MKCOL), (CHR ''N'', M_NOTIFY), (CHR ''O'', M_OPTIONS),
       (CHR ''P'', M_POST), (CHR ''R'', M_REPORT), (CHR ''S'', M_SUBSCRIBE), (CHR ''T'', M_TRACE), (CHR ''U'', M_UNLOCK)] ch"

definition st_start_req :: "'u hp_cx \<Rightarrow> 'u hp_loc \<Rightarrow> 'u hp_out" where
  "st_start_req cx l =
     (if is_crlf (l_ch l) then Next l
      else let l1 = begin_message l in
        if \<not> is_alpha (l_ch l) then hp_err HPE_INVALID_METHOD l1
        else case first_method (l_ch l) of
          None \<Rightarrow> hp_err HPE_INVALID_METHOD (l1\<lparr>hp_method := M_DELETE, hp_index := 1\<rparr>)
        | Some m \<Rightarrow> callback_notify cx On_message_begin HPE_CB_message_begin (l_p l + 1) Next
            (goto s_req_method (l1\<lparr>hp_method := m, hp_index := 1\<rparr>)))"

definition switch_method :: "http_method \<Rightarrow> nat \<Rightarrow> char \<Rightarrow> http_method option" where
  "switch_method m pos ch =
     map_of [((M_POST, 1, CHR ''U''), M_PUT), ((M_POST, 1, CHR ''A''), M_PATCH), ((M_POST, 1, CHR ''R''), M_PROPFIND),
       ((M_PUT, 2, CHR ''R''), M_PURGE), ((M_CONNECT, 1, CHR ''H''), M_CHECKOUT), ((M_CONNECT, 2, CHR ''P''), M_COPY),
       ((M_MKCOL, 1, CHR ''O''), M_MOVE), ((M_MKCOL, 1, CHR ''E''), M_MERGE), ((M_MKCOL, 1, CHR ''-''), M_MSEARCH),
       ((M_MKCOL, 2, CHR ''A''), M_MKACTIVITY), ((M_MKCOL, 3, CHR ''A''), M_MKCALENDAR), ((M_SUBSCRIBE, 1, CHR ''E''), M_SEARCH),
       ((M_SUBSCRIBE, 1, CHR ''O''), M_SOURCE), ((M_REPORT, 2, CHR ''B''), M_REBIND), ((M_PROPFIND, 4, CHR ''P''), M_PROPPATCH),
       ((M_LOCK, 1, CHR ''I''), M_LINK), ((M_UNLOCK, 2, CHR ''S''), M_UNSUBSCRIBE), ((M_UNLOCK, 2, CHR ''B''), M_UNBIND),
       ((M_UNLOCK, 3, CHR ''I''), M_UNLINK)] (m, pos, ch)"

text \<open>A read past the end of the name of the method is an \<open>Abort\<close>.\<close>

definition st_req_method :: "'u hp_cx \<Rightarrow> 'u hp_loc \<Rightarrow> 'u hp_out" where
  "st_req_method cx l =
     (let ch = l_ch l; matcher = method_string (hp_method l) @ [NUL] in
      if ch = NUL then hp_err HPE_INVALID_METHOD l
      else if hp_index l \<ge> length matcher then Abort
      else
        let m = matcher ! hp_index l; l2 = l\<lparr>hp_index := inc5 (hp_index l)\<rparr> in
        if ch = SP \<and> m = NUL then Next (goto s_req_spaces_before_url l2)
        else if ch = m then Next l2
        else if is_between CHR ''A'' CHR ''Z'' ch \<or> ch = CHR ''-''
        then (case switch_method (hp_method l) (hp_index l) ch of
                None \<Rightarrow> hp_err HPE_INVALID_METHOD l
              | Some m \<Rightarrow> Next (l2\<lparr>hp_method := m\<rparr>))
        else hp_err HPE_INVALID_METHOD l)"

definition url_step :: "hp_state \<Rightarrow> 'u hp_loc \<Rightarrow> 'u hp_out" where
  "url_step s l =
     (let l1 = goto (parse_url_char s (l_ch l)) l
      in if hp_state l1 = s_dead then hp_err HPE_INVALID_URL l1 else Next l1)"

definition st_req_spaces_before_url :: "'u hp_cx \<Rightarrow> 'u hp_loc \<Rightarrow> 'u hp_out" where
  "st_req_spaces_before_url cx l =
     (if l_ch l = SP then Next l
      else url_step (if hp_method l = M_CONNECT then s_req_server_start else s_req_spaces_before_url) (set_mark M_url l))"

definition st_req_schema :: "'u hp_cx \<Rightarrow> 'u hp_loc \<Rightarrow> 'u hp_out" where
  "st_req_schema cx l =
     (if l_ch l = SP \<or> is_crlf (l_ch l) then hp_err HPE_INVALID_URL l else url_step (hp_state l) l)"

definition st_req_url :: "'u hp_cx \<Rightarrow> 'u hp_loc \<Rightarrow> 'u hp_out" where
  "st_req_url cx l =
     (if l_ch l = SP then callback_data cx M_url (l_p l) (l_p l + 1) Next (goto s_req_http_start l)
      else if is_crlf (l_ch l)
      then callback_data cx M_url (l_p l) (l_p l + 1) Next
             (goto (if l_ch l = CR then s_req_line_almost_done else s_header_field_start) (l\<lparr>hp_http_major := 0, hp_http_minor := 9\<rparr>))
      else url_step (hp_state l) l)"

definition st_req_http_start :: "'u hp_cx \<Rightarrow> 'u hp_loc \<Rightarrow> 'u hp_out" where
  "st_req_http_start cx l =
     (if l_ch l = SP then Next l
      else if l_ch l = CHR ''H'' then Next (goto s_req_http_H l)
      else if l_ch l = CHR ''I'' \<and> hp_method l = M_SOURCE then Next (goto s_req_http_I l)
      else hp_err HPE_INVALID_CONSTANT l)"

definition st_req_http_major :: "'u hp_cx \<Rightarrow> 'u hp_loc \<Rightarrow> 'u hp_out" where
  "st_req_http_major cx l =
     (if \<not> is_num (l_ch l) then hp_err HPE_INVALID_VERSION l
      else Next (goto s_req_http_dot (l\<lparr>hp_http_major := num_val (l_ch l)\<rparr>)))"

definition st_req_http_dot :: "'u hp_cx \<Rightarrow> 'u hp_loc \<Rightarrow> 'u hp_out" where
  "st_req_http_dot cx l =
     (if l_ch l \<noteq> CHR ''.'' then hp_err HPE_INVALID_VERSION l else Next (goto s_req_http_minor l))"

definition st_req_http_minor :: "'u hp_cx \<Rightarrow> 'u hp_loc \<Rightarrow> 'u hp_out" where
  "st_req_http_minor cx l =
     (if \<not> is_num (l_ch l) then hp_err HPE_INVALID_VERSION l
      else Next (goto s_req_http_end (l\<lparr>hp_http_minor := num_val (l_ch l)\<rparr>)))"

definition st_req_http_end :: "'u hp_cx \<Rightarrow> 'u hp_loc \<Rightarrow> 'u hp_out" where
  "st_req_http_end cx l =
     (if l_ch l = CR then Next (goto s_req_line_almost_done l)
      else if l_ch l = LF then Next (goto s_header_field_start l)
      else hp_err HPE_INVALID_VERSION l)"

definition st_req_line_almost_done :: "'u hp_cx \<Rightarrow> 'u hp_loc \<Rightarrow> 'u hp_out" where
  "st_req_line_almost_done cx l =
     (if l_ch l \<noteq> LF then hp_err HPE_LF_EXPECTED l else Next (goto s_header_field_start l))"

section \<open>Header names\<close>

definition st_header_field_start :: "'u hp_cx \<Rightarrow> 'u hp_loc \<Rightarrow> 'u hp_out" where
  "st_header_field_start cx l =
     (if l_ch l = CR then Next (goto s_headers_almost_done l)
      else if l_ch l = LF then Redo (goto s_headers_almost_done l)
      else let c = token (l_ch l) in
        if c = NUL then hp_err HPE_INVALID_HEADER_TOKEN l
        else Next ((goto s_header_field (set_mark M_header_field l))\<lparr>hp_index := 0, hp_hstate :=
          (if c = CHR ''c'' then h_C
           else if c = CHR ''p'' then h_matching_proxy_connection
           else if c = CHR ''t'' then h_matching_transfer_encoding
           else if c = CHR ''u'' then h_matching_upgrade
           else h_general)\<rparr>))"

text \<open>
  The comparison with the next character of a constant: the index is incremented, and the
  terminator of the constant may be read.
\<close>

datatype match_result = Mismatch | Matching | Matched

definition match_next :: "string \<Rightarrow> nat \<Rightarrow> char \<Rightarrow> match_result" where
  "match_next w i c =
     (if i > length w \<or> c \<noteq> (w @ [NUL]) ! i then Mismatch else if i = length w - 1 then Matched else Matching)"

definition match_field :: "string \<Rightarrow> hp_hstate \<Rightarrow> char \<Rightarrow> 'u hp_loc \<Rightarrow> 'u hp_loc" where
  "match_field w hd1 c l =
     (let l1 = l\<lparr>hp_index := inc5 (hp_index l)\<rparr> in
      case match_next w (hp_index l1) c of
        Mismatch \<Rightarrow> l1\<lparr>hp_hstate := h_general\<rparr> | Matched \<Rightarrow> l1\<lparr>hp_hstate := hd1\<rparr> | Matching \<Rightarrow> l1)"

definition st_field_byte :: "char \<Rightarrow> char \<Rightarrow> 'u hp_loc \<Rightarrow> 'u hp_loc option" where
  "st_field_byte ch c l =
     (case hp_hstate l of
        h_general \<Rightarrow> Some l
      | h_C \<Rightarrow> Some (l\<lparr>hp_index := inc5 (hp_index l), hp_hstate := (if c = CHR ''o'' then h_CO else h_general)\<rparr>)
      | h_CO \<Rightarrow> Some (l\<lparr>hp_index := inc5 (hp_index l), hp_hstate := (if c = CHR ''n'' then h_CON else h_general)\<rparr>)
      | h_CON \<Rightarrow> Some (l\<lparr>hp_index := inc5 (hp_index l),
          hp_hstate := (if c = CHR ''n'' then h_matching_connection
                        else if c = CHR ''t'' then h_matching_content_length else h_general)\<rparr>)
      | h_matching_connection \<Rightarrow> Some (match_field ''connection'' h_connection c l)
      | h_matching_proxy_connection \<Rightarrow> Some (match_field ''proxy-connection'' h_connection c l)
      | h_matching_content_length \<Rightarrow> Some (match_field ''content-length'' h_content_length c l)
      | h_matching_transfer_encoding \<Rightarrow>
          (let l1 = match_field ''transfer-encoding'' h_transfer_encoding c l
           in Some (if hp_hstate l1 = h_transfer_encoding then l1\<lparr>hp_uses_te := True\<rparr> else l1))
      | h_matching_upgrade \<Rightarrow> Some (match_field ''upgrade'' h_upgrade c l)
      | h_connection \<Rightarrow> Some (if ch \<noteq> SP then l\<lparr>hp_hstate := h_general\<rparr> else l)
      | h_content_length \<Rightarrow> Some (if ch \<noteq> SP then l\<lparr>hp_hstate := h_general\<rparr> else l)
      | h_transfer_encoding \<Rightarrow> Some (if ch \<noteq> SP then l\<lparr>hp_hstate := h_general\<rparr> else l)
      | h_upgrade \<Rightarrow> Some (if ch \<noteq> SP then l\<lparr>hp_hstate := h_general\<rparr> else l)
      | _ \<Rightarrow> None)"

text \<open>In the state \<^verbatim>\<open>h_general\<close> the loop looks ahead for the end of the name.\<close>

definition field_skip :: "'u hp_cx \<Rightarrow> nat \<Rightarrow> nat" where
  "field_skip cx p =
     (let pe = p + min (length (cx_data cx) - p) (cx_max cx)
      in length (takeWhile (\<lambda>c. token c \<noteq> NUL) (take (pe - Suc p) (drop (Suc p) (cx_data cx)))))"

function field_loop :: "'u hp_cx \<Rightarrow> 'u hp_loc \<Rightarrow> 'u hp_loc option" where
  "field_loop cx l =
     (if l_p l \<ge> length (cx_data cx) then Some l
      else
        let ch = cx_data cx ! l_p l; c = token ch; l1 = l\<lparr>l_ch := ch\<rparr> in
        if c = NUL then Some l1
        else if hp_hstate l = h_general then field_loop cx (l1\<lparr>l_p := Suc (l_p l + field_skip cx (l_p l))\<rparr>)
        else case st_field_byte ch c l1 of None \<Rightarrow> None | Some l2 \<Rightarrow> field_loop cx (l2\<lparr>l_p := Suc (l_p l)\<rparr>))"
  by pat_completeness auto
termination by (relation "measure (\<lambda>(cx, l). length (cx_data cx) - l_p l)") auto

declare field_loop.simps [simp del]

definition st_header_field :: "'u hp_cx \<Rightarrow> 'u hp_loc \<Rightarrow> 'u hp_out" where
  "st_header_field cx l =
     (case field_loop cx l of
        None \<Rightarrow> Abort
      | Some l1 \<Rightarrow>
          if l_p l1 = length (cx_data cx)
          then count_header_size cx (l_p l1 - 1 - l_p l) Next (l1\<lparr>l_p := l_p l1 - 1\<rparr>)
          else count_header_size cx (l_p l1 - l_p l)
            (\<lambda>l2. if l_ch l2 = CHR '':''
                  then callback_data cx M_header_field (l_p l2) (l_p l2 + 1) Next (goto s_header_value_discard_ws l2)
                  else hp_err HPE_INVALID_HEADER_TOKEN l2) l1)"

section \<open>Header values\<close>

definition st_header_value_start :: "'u hp_cx \<Rightarrow> 'u hp_loc \<Rightarrow> 'u hp_out" where
  "st_header_value_start cx l =
     (let l1 = (goto s_header_value (set_mark M_header_value l))\<lparr>hp_index := 0\<rparr>; c = LOWER (l_ch l) in
      case hp_hstate l of
        h_upgrade \<Rightarrow> Next ((set_flag F_UPGRADE l1)\<lparr>hp_hstate := h_general\<rparr>)
      | h_transfer_encoding \<Rightarrow>
          Next (l1\<lparr>hp_hstate := (if c = CHR ''c'' then h_matching_transfer_encoding_chunked else h_matching_transfer_encoding_token)\<rparr>)
      | h_matching_transfer_encoding_token_start \<Rightarrow> Next l1
      | h_content_length \<Rightarrow>
          if \<not> is_num (l_ch l) then hp_err HPE_INVALID_CONTENT_LENGTH l1
          else if has_flag F_CONTENTLENGTH l1 then hp_err HPE_UNEXPECTED_CONTENT_LENGTH l1
          else Next ((set_flag F_CONTENTLENGTH l1)\<lparr>hp_content_length := num_val (l_ch l), hp_hstate := h_content_length_num\<rparr>)
      | h_content_length_ws \<Rightarrow> Next l1
      | h_connection \<Rightarrow>
          Next (l1\<lparr>hp_hstate := (if c = CHR ''k'' then h_matching_connection_keep_alive
                                else if c = CHR ''c'' then h_matching_connection_close
                                else if c = CHR ''u'' then h_matching_connection_upgrade
                                else h_matching_connection_token)\<rparr>)
      | h_matching_connection_token_start \<Rightarrow> Next l1
      | _ \<Rightarrow> Next (l1\<lparr>hp_hstate := h_general\<rparr>))"

definition st_header_value_discard_ws :: "'u hp_cx \<Rightarrow> 'u hp_loc \<Rightarrow> 'u hp_out" where
  "st_header_value_discard_ws cx l =
     (if l_ch l = SP \<or> l_ch l = HTAB then Next l
      else if l_ch l = CR then Next (goto s_header_value_discard_ws_almost_done l)
      else if l_ch l = LF then Next (goto s_header_value_discard_lws l)
      else st_header_value_start cx l)"

text \<open>A byte of a value: the new local \<^verbatim>\<open>h_state\<close>, an error, or a failed assertion.\<close>

datatype 'u value_out = V_go hp_hstate "'u hp_loc" | V_err http_errno "'u hp_loc" | V_abort

definition content_digit :: "char \<Rightarrow> 'u hp_loc \<Rightarrow> 'u value_out" where
  "content_digit ch l =
     (if ch = SP then V_go h_content_length_ws l
      else if \<not> is_num ch then V_err HPE_INVALID_CONTENT_LENGTH (l\<lparr>hp_hstate := h_content_length_num\<rparr>)
      else let t = u64 (u64 (hp_content_length l * 10) + num_val ch) in
        if (ULLONG_MAX - 10) div 10 < hp_content_length l
        then V_err HPE_INVALID_CONTENT_LENGTH (l\<lparr>hp_hstate := h_content_length_num\<rparr>)
        else V_go h_content_length_num (l\<lparr>hp_content_length := t\<rparr>))"

definition match_value :: "string \<Rightarrow> hp_hstate \<Rightarrow> hp_hstate \<Rightarrow> hp_hstate \<Rightarrow> char \<Rightarrow> 'u hp_loc \<Rightarrow> 'u value_out" where
  "match_value w h hfound hno c l =
     (let l1 = l\<lparr>hp_index := inc5 (hp_index l)\<rparr> in
      case match_next w (hp_index l1) c of
        Mismatch \<Rightarrow> V_go hno l1 | Matched \<Rightarrow> V_go hfound l1 | Matching \<Rightarrow> V_go h l1)"

definition next_token :: "hp_hstate \<Rightarrow> char \<Rightarrow> 'u hp_loc \<Rightarrow> 'u value_out" where
  "next_token h ch l =
     (if ch = CHR '','' then V_go (if h = h_matching_transfer_encoding_token then h_matching_transfer_encoding_token_start
                                   else h_matching_connection_token_start) (l\<lparr>hp_index := 0\<rparr>)
      else V_go h l)"

definition connection_end :: "hp_hstate \<Rightarrow> 8 word \<Rightarrow> char \<Rightarrow> 'u hp_loc \<Rightarrow> 'u value_out" where
  "connection_end h f ch l =
     (if ch = CHR '','' then V_go h_matching_connection_token_start ((set_flag f l)\<lparr>hp_index := 0\<rparr>)
      else if ch \<noteq> SP then V_go h_matching_connection_token l
      else V_go h l)"

definition value_byte :: "char \<Rightarrow> hp_hstate \<Rightarrow> 'u hp_loc \<Rightarrow> 'u value_out" where
  "value_byte ch h l =
     (let c = LOWER ch in
      case h of
        h_general \<Rightarrow> V_go h l
      | h_connection \<Rightarrow> V_abort
      | h_transfer_encoding \<Rightarrow> V_abort
      | h_content_length \<Rightarrow> if ch = SP then V_go h l else content_digit ch l
      | h_content_length_num \<Rightarrow> content_digit ch l
      | h_content_length_ws \<Rightarrow>
          if ch = SP then V_go h l else V_err HPE_INVALID_CONTENT_LENGTH (l\<lparr>hp_hstate := h\<rparr>)
      | h_matching_transfer_encoding_token_start \<Rightarrow>
          V_go (if c = CHR ''c'' then h_matching_transfer_encoding_chunked
                else if strict_token c \<noteq> NUL then h_matching_transfer_encoding_token
                else if c = SP \<or> c = HTAB then h else h_general) l
      | h_matching_transfer_encoding_chunked \<Rightarrow>
          match_value ''chunked'' h h_transfer_encoding_chunked h_matching_transfer_encoding_token c l
      | h_matching_transfer_encoding_token \<Rightarrow> next_token h ch l
      | h_matching_connection_token_start \<Rightarrow>
          V_go (if c = CHR ''k'' then h_matching_connection_keep_alive
                else if c = CHR ''c'' then h_matching_connection_close
                else if c = CHR ''u'' then h_matching_connection_upgrade
                else if strict_token c \<noteq> NUL then h_matching_connection_token
                else if c = SP \<or> c = HTAB then h else h_general) l
      | h_matching_connection_keep_alive \<Rightarrow>
          match_value ''keep-alive'' h h_connection_keep_alive h_matching_connection_token c l
      | h_matching_connection_close \<Rightarrow>
          match_value ''close'' h h_connection_close h_matching_connection_token c l
      | h_matching_connection_upgrade \<Rightarrow>
          match_value ''upgrade'' h h_connection_upgrade h_matching_connection_token c l
      | h_matching_connection_token \<Rightarrow> next_token h ch l
      | h_transfer_encoding_chunked \<Rightarrow> V_go (if ch \<noteq> SP then h_matching_transfer_encoding_token else h) l
      | h_connection_keep_alive \<Rightarrow> connection_end h F_CONNECTION_KEEP_ALIVE ch l
      | h_connection_close \<Rightarrow> connection_end h F_CONNECTION_CLOSE ch l
      | h_connection_upgrade \<Rightarrow> connection_end h F_CONNECTION_UPGRADE ch l
      | _ \<Rightarrow> V_go h_general (goto s_header_value l))"

text \<open>Why the loop over a value ends: the end of the buffer, \<^verbatim>\<open>CR\<close>, \<^verbatim>\<open>LF\<close>, or an error.\<close>

datatype value_end = V_end | V_cr | V_lf | V_bad http_errno | V_assert

text \<open>
  In the state \<^verbatim>\<open>h_general\<close> an inner loop runs to the end of the value or of the buffer, but at
  most over \<^verbatim>\<open>max_header_size\<close> bytes; when it is cut by this bound the byte it stops at is skipped.
\<close>

definition value_char_ok :: "'a http_parser_scheme \<Rightarrow> char \<Rightarrow> bool" where
  "value_char_ok l c \<longleftrightarrow> hp_lenient l \<or> is_header_char c"

definition value_run :: "'u hp_cx \<Rightarrow> 'u hp_loc \<Rightarrow> nat" where
  "value_run cx l =
     length (takeWhile (\<lambda>c. \<not> is_crlf c \<and> value_char_ok l c) (take (cx_max cx) (drop (l_p l) (cx_data cx))))"

function value_loop :: "'u hp_cx \<Rightarrow> hp_hstate \<Rightarrow> 'u hp_loc \<Rightarrow> value_end \<times> hp_hstate \<times> 'u hp_loc" where
  "value_loop cx h l =
     (if l_p l \<ge> length (cx_data cx) then (V_end, h, l)
      else
        let ch = cx_data cx ! l_p l; l1 = l\<lparr>l_ch := ch\<rparr> in
        if ch = CR then (V_cr, h, l1)
        else if ch = LF then (V_lf, h, l1)
        else if \<not> value_char_ok l ch then (V_bad HPE_INVALID_HEADER_TOKEN, h, l1)
        else if h = h_general
        then let n = value_run cx l; pe = l_p l + min (length (cx_data cx) - l_p l) (cx_max cx); q = l_p l + n in
          if q < pe
          then (let l2 = l1\<lparr>l_ch := cx_data cx ! q, l_p := q\<rparr> in
                if \<not> is_crlf (l_ch l2) then (V_bad HPE_INVALID_HEADER_TOKEN, h, l2)
                else if n = 0 then (V_assert, h, l2) else value_loop cx h l2)
          else if pe = length (cx_data cx) then value_loop cx h (l1\<lparr>l_p := pe\<rparr>)
          else value_loop cx h (l1\<lparr>l_p := Suc pe\<rparr>)
        else case value_byte ch h l1 of
          V_go h1 l2 \<Rightarrow> value_loop cx h1 (l2\<lparr>l_p := Suc (l_p l)\<rparr>)
        | V_err e l2 \<Rightarrow> (V_bad e, h, l2)
        | V_abort \<Rightarrow> (V_assert, h, l1))"
  by pat_completeness auto
termination
  by (relation "measure (\<lambda>(cx, h, l). length (cx_data cx) - l_p l)") (auto simp: min_def split: if_splits)

declare value_loop.simps [simp del]

definition st_header_value :: "'u hp_cx \<Rightarrow> 'u hp_loc \<Rightarrow> 'u hp_out" where
  "st_header_value cx l =
     (case value_loop cx (hp_hstate l) l of
        (V_end, h, l1) \<Rightarrow>
          count_header_size cx (l_p l1 - 1 - l_p l) Next (l1\<lparr>hp_hstate := h, l_p := l_p l1 - 1\<rparr>)
      | (V_cr, h, l1) \<Rightarrow>
          callback_data cx M_header_value (l_p l1) (l_p l1 + 1)
            (\<lambda>l2. count_header_size cx (l_p l2 - l_p l) Next l2) (goto s_header_almost_done (l1\<lparr>hp_hstate := h\<rparr>))
      | (V_lf, h, l1) \<Rightarrow>
          count_header_size cx (l_p l1 - l_p l)
            (\<lambda>l2. callback_data cx M_header_value (l_p l2) (l_p l2) Redo (l2\<lparr>hp_hstate := h\<rparr>)) (goto s_header_almost_done l1)
      | (V_bad e, h, l1) \<Rightarrow> hp_err e l1
      | (V_assert, h, l1) \<Rightarrow> Abort)"

definition st_header_almost_done :: "'u hp_cx \<Rightarrow> 'u hp_loc \<Rightarrow> 'u hp_out" where
  "st_header_almost_done cx l =
     (if l_ch l \<noteq> LF then hp_err HPE_LF_EXPECTED l else Next (goto s_header_value_lws l))"

definition value_flags :: "'u hp_loc \<Rightarrow> 'u hp_loc" where
  "value_flags l =
     (case hp_hstate l of
        h_connection_keep_alive \<Rightarrow> set_flag F_CONNECTION_KEEP_ALIVE l
      | h_connection_close \<Rightarrow> set_flag F_CONNECTION_CLOSE l
      | h_transfer_encoding_chunked \<Rightarrow> set_flag F_CHUNKED l
      | h_connection_upgrade \<Rightarrow> set_flag F_CONNECTION_UPGRADE l
      | _ \<Rightarrow> l)"

definition st_header_value_lws :: "'u hp_cx \<Rightarrow> 'u hp_loc \<Rightarrow> 'u hp_out" where
  "st_header_value_lws cx l =
     (if l_ch l = SP \<or> l_ch l = HTAB
      then Redo (goto s_header_value_start
             (if hp_hstate l = h_content_length_num then l\<lparr>hp_hstate := h_content_length_ws\<rparr> else l))
      else Redo (goto s_header_field_start (value_flags l)))"

text \<open>An empty value: none of the flags can be due, and an empty length is an error.\<close>

definition st_header_value_discard_lws :: "'u hp_cx \<Rightarrow> 'u hp_loc \<Rightarrow> 'u hp_out" where
  "st_header_value_discard_lws cx l =
     (if l_ch l = SP \<or> l_ch l = HTAB then Next (goto s_header_value_discard_ws l)
      else if hp_hstate l = h_content_length then hp_err HPE_INVALID_CONTENT_LENGTH l
      else callback_data cx M_header_value (l_p l) (l_p l) Redo
        (goto s_header_field_start (set_mark M_header_value (value_flags l))))"

section \<open>The end of the headers\<close>

definition length_conflict :: "'u hp_loc \<Rightarrow> bool" where
  "length_conflict l \<longleftrightarrow> hp_uses_te l \<and> has_flag F_CONTENTLENGTH l \<and>
     (if has_flag F_CHUNKED l then \<not> hp_allow_chunked_length l else \<not> hp_lenient l)"

definition set_upgrade :: "'u hp_loc \<Rightarrow> 'u hp_loc" where
  "set_upgrade l =
     l\<lparr>hp_upgrade :=
        (if has_flag F_UPGRADE l \<and> has_flag F_CONNECTION_UPGRADE l
         then hp_type l = HTTP_REQUEST \<or> hp_status_code l = 101
         else hp_method l = M_CONNECT)\<rparr>"

definition st_headers_almost_done :: "'u hp_cx \<Rightarrow> 'u hp_loc \<Rightarrow> 'u hp_out" where
  "st_headers_almost_done cx l =
     (if has_flag F_TRAILING l
      then callback_notify cx On_chunk_complete HPE_CB_chunk_complete (l_p l) Redo (goto s_message_done l)
      else if length_conflict l then hp_err HPE_UNEXPECTED_CONTENT_LENGTH l
      else
        let l1 = set_upgrade (goto s_headers_done l) in
        case cx_call cx On_headers_complete (http_parser.truncate l1) (l_user l1) of
          (r, u) \<Rightarrow>
            let l2 = l1\<lparr>l_user := u\<rparr> in
            if r = 0 then (if hp_errno l2 \<noteq> HPE_OK then Stop (l_p l2) l2 else Redo l2)
            else if r = 1 \<or> r = 2
            then (let l3 = set_flag F_SKIPBODY (if r = 2 then l2\<lparr>hp_upgrade := True\<rparr> else l2)
                  in if hp_errno l3 \<noteq> HPE_OK then Stop (l_p l3) l3 else Redo l3)
            else Stop (l_p l2) (l2\<lparr>hp_errno := HPE_CB_headers_complete\<rparr>))"

definition has_body :: "'u hp_loc \<Rightarrow> bool" where
  "has_body l \<longleftrightarrow> has_flag F_CHUNKED l \<or> hp_content_length l > 0 \<and> hp_content_length l \<noteq> ULLONG_MAX"

definition st_headers_done :: "'u hp_cx \<Rightarrow> 'u hp_loc \<Rightarrow> 'u hp_out" where
  "st_headers_done cx l0 =
     (let l = l0\<lparr>hp_nread := 0\<rparr> in
      if hp_upgrade l \<and> (hp_method l = M_CONNECT \<or> has_flag F_SKIPBODY l \<or> \<not> has_body l)
      then message_complete cx (\<lambda>l1. Stop (l_p l1 + 1) l1) l
      else if has_flag F_SKIPBODY l then message_complete cx Next l
      else if has_flag F_CHUNKED l then Next (goto s_chunk_size_start l)
      else if hp_uses_te l
      then (if hp_type l = HTTP_REQUEST \<and> \<not> hp_lenient l
            then Stop (l_p l) (l\<lparr>hp_errno := HPE_INVALID_TRANSFER_ENCODING\<rparr>)
            else Next (goto s_body_identity_eof l))
      else if hp_content_length l = 0 then message_complete cx Next l
      else if hp_content_length l \<noteq> ULLONG_MAX then Next (goto s_body_identity l)
      else if \<not> http_message_needs_eof l then message_complete cx Next l
      else Next (goto s_body_identity_eof l))"

section \<open>Bodies\<close>

definition length_known :: "'u hp_loc \<Rightarrow> bool" where
  "length_known l \<longleftrightarrow> hp_content_length l \<noteq> 0 \<and> hp_content_length l \<noteq> ULLONG_MAX"

definition take_body :: "'u hp_cx \<Rightarrow> 'u hp_loc \<Rightarrow> 'u hp_loc" where
  "take_body cx l =
     (let to_read = min (hp_content_length l) (length (cx_data cx) - l_p l)
      in (set_mark M_body l)\<lparr>hp_content_length := hp_content_length l - to_read, l_p := l_p l + to_read - 1\<rparr>)"

definition st_body_identity :: "'u hp_cx \<Rightarrow> 'u hp_loc \<Rightarrow> 'u hp_out" where
  "st_body_identity cx l =
     (if \<not> length_known l then Abort
      else let l1 = take_body cx l in
        if hp_content_length l1 = 0
        then callback_data cx M_body (l_p l1 + 1) (l_p l1) Redo (goto s_message_done l1)
        else Next l1)"

definition st_body_identity_eof :: "'u hp_cx \<Rightarrow> 'u hp_loc \<Rightarrow> 'u hp_out" where
  "st_body_identity_eof cx l = Next ((set_mark M_body l)\<lparr>l_p := length (cx_data cx) - 1\<rparr>)"

definition st_message_done :: "'u hp_cx \<Rightarrow> 'u hp_loc \<Rightarrow> 'u hp_out" where
  "st_message_done cx l =
     message_complete cx (\<lambda>l1. if hp_upgrade l1 then Stop (l_p l1 + 1) l1 else Next l1) l"

definition st_chunk_size_start :: "'u hp_cx \<Rightarrow> 'u hp_loc \<Rightarrow> 'u hp_out" where
  "st_chunk_size_start cx l =
     (if hp_nread l \<noteq> 1 \<or> \<not> has_flag F_CHUNKED l then Abort
      else let v = unhex (l_ch l) in
        if v = -1 then hp_err HPE_INVALID_CHUNK_SIZE l
        else Next (goto s_chunk_size (l\<lparr>hp_content_length := nat v\<rparr>)))"

definition st_chunk_size :: "'u hp_cx \<Rightarrow> 'u hp_loc \<Rightarrow> 'u hp_out" where
  "st_chunk_size cx l =
     (if \<not> has_flag F_CHUNKED l then Abort
      else if l_ch l = CR then Next (goto s_chunk_size_almost_done l)
      else let v = unhex (l_ch l) in
        if v = -1
        then (if l_ch l = CHR '';'' \<or> l_ch l = SP then Next (goto s_chunk_parameters l)
              else hp_err HPE_INVALID_CHUNK_SIZE l)
        else let t = u64 (u64 (hp_content_length l * 16) + nat v) in
          if (ULLONG_MAX - 16) div 16 < hp_content_length l then hp_err HPE_INVALID_CONTENT_LENGTH l
          else Next (l\<lparr>hp_content_length := t\<rparr>))"

definition st_chunk_parameters :: "'u hp_cx \<Rightarrow> 'u hp_loc \<Rightarrow> 'u hp_out" where
  "st_chunk_parameters cx l =
     (if \<not> has_flag F_CHUNKED l then Abort
      else if l_ch l = CR then Next (goto s_chunk_size_almost_done l) else Next l)"

definition st_chunk_size_almost_done :: "'u hp_cx \<Rightarrow> 'u hp_loc \<Rightarrow> 'u hp_out" where
  "st_chunk_size_almost_done cx l =
     (if \<not> has_flag F_CHUNKED l then Abort
      else
        let l1 = l\<lparr>hp_nread := 0\<rparr>;
            l2 = (if hp_content_length l1 = 0 then goto s_header_field_start (set_flag F_TRAILING l1)
                  else goto s_chunk_data l1)
        in callback_notify cx On_chunk_header HPE_CB_chunk_header (l_p l2 + 1) Next l2)"

definition st_chunk_data :: "'u hp_cx \<Rightarrow> 'u hp_loc \<Rightarrow> 'u hp_out" where
  "st_chunk_data cx l =
     (if \<not> has_flag F_CHUNKED l \<or> \<not> length_known l then Abort
      else let l1 = take_body cx l
           in Next (if hp_content_length l1 = 0 then goto s_chunk_data_almost_done l1 else l1))"

definition st_chunk_data_almost_done :: "'u hp_cx \<Rightarrow> 'u hp_loc \<Rightarrow> 'u hp_out" where
  "st_chunk_data_almost_done cx l =
     (if \<not> has_flag F_CHUNKED l \<or> hp_content_length l \<noteq> 0 then Abort
      else callback_data cx M_body (l_p l) (l_p l + 1) Next (goto s_chunk_data_done l))"

definition st_chunk_data_done :: "'u hp_cx \<Rightarrow> 'u hp_loc \<Rightarrow> 'u hp_out" where
  "st_chunk_data_done cx l =
     (if \<not> has_flag F_CHUNKED l then Abort
      else callback_notify cx On_chunk_complete HPE_CB_chunk_complete (l_p l + 1) Next
        (goto s_chunk_size_start (l\<lparr>hp_nread := 0\<rparr>)))"

section \<open>The switch and the loop\<close>

text \<open>The checks of \<^verbatim>\<open>STRICT_CHECK\<close> are empty in this build.\<close>

primrec hp_switch :: "hp_state \<Rightarrow> 'u hp_cx \<Rightarrow> 'u hp_loc \<Rightarrow> 'u hp_out" where
  "hp_switch s_dead cx l = st_dead cx l"
| "hp_switch s_start_req_or_res cx l = st_start_req_or_res cx l"
| "hp_switch s_res_or_resp_H cx l = st_res_or_resp_H cx l"
| "hp_switch s_start_res cx l = st_start_res cx l"
| "hp_switch s_res_H cx l = Next (goto s_res_HT l)"
| "hp_switch s_res_HT cx l = Next (goto s_res_HTT l)"
| "hp_switch s_res_HTT cx l = Next (goto s_res_HTTP l)"
| "hp_switch s_res_HTTP cx l = Next (goto s_res_http_major l)"
| "hp_switch s_res_http_major cx l = st_res_http_major cx l"
| "hp_switch s_res_http_dot cx l = st_res_http_dot cx l"
| "hp_switch s_res_http_minor cx l = st_res_http_minor cx l"
| "hp_switch s_res_http_end cx l = st_res_http_end cx l"
| "hp_switch s_res_first_status_code cx l = st_res_first_status_code cx l"
| "hp_switch s_res_status_code cx l = st_res_status_code cx l"
| "hp_switch s_res_status_start cx l = st_res_status_start cx l"
| "hp_switch s_res_status cx l = st_res_status cx l"
| "hp_switch s_res_line_almost_done cx l = Next (goto s_header_field_start l)"
| "hp_switch s_start_req cx l = st_start_req cx l"
| "hp_switch s_req_method cx l = st_req_method cx l"
| "hp_switch s_req_spaces_before_url cx l = st_req_spaces_before_url cx l"
| "hp_switch s_req_schema cx l = st_req_schema cx l"
| "hp_switch s_req_schema_slash cx l = st_req_schema cx l"
| "hp_switch s_req_schema_slash_slash cx l = st_req_schema cx l"
| "hp_switch s_req_server_start cx l = st_req_schema cx l"
| "hp_switch s_req_server cx l = st_req_url cx l"
| "hp_switch s_req_server_with_at cx l = st_req_url cx l"
| "hp_switch s_req_path cx l = st_req_url cx l"
| "hp_switch s_req_query_string_start cx l = st_req_url cx l"
| "hp_switch s_req_query_string cx l = st_req_url cx l"
| "hp_switch s_req_fragment_start cx l = st_req_url cx l"
| "hp_switch s_req_fragment cx l = st_req_url cx l"
| "hp_switch s_req_http_start cx l = st_req_http_start cx l"
| "hp_switch s_req_http_H cx l = Next (goto s_req_http_HT l)"
| "hp_switch s_req_http_HT cx l = Next (goto s_req_http_HTT l)"
| "hp_switch s_req_http_HTT cx l = Next (goto s_req_http_HTTP l)"
| "hp_switch s_req_http_I cx l = Next (goto s_req_http_IC l)"
| "hp_switch s_req_http_IC cx l = Next (goto s_req_http_HTTP l)"
| "hp_switch s_req_http_HTTP cx l = Next (goto s_req_http_major l)"
| "hp_switch s_req_http_major cx l = st_req_http_major cx l"
| "hp_switch s_req_http_dot cx l = st_req_http_dot cx l"
| "hp_switch s_req_http_minor cx l = st_req_http_minor cx l"
| "hp_switch s_req_http_end cx l = st_req_http_end cx l"
| "hp_switch s_req_line_almost_done cx l = st_req_line_almost_done cx l"
| "hp_switch s_header_field_start cx l = st_header_field_start cx l"
| "hp_switch s_header_field cx l = st_header_field cx l"
| "hp_switch s_header_value_discard_ws cx l = st_header_value_discard_ws cx l"
| "hp_switch s_header_value_start cx l = st_header_value_start cx l"
| "hp_switch s_header_value cx l = st_header_value cx l"
| "hp_switch s_header_almost_done cx l = st_header_almost_done cx l"
| "hp_switch s_header_value_lws cx l = st_header_value_lws cx l"
| "hp_switch s_header_value_discard_ws_almost_done cx l = Next (goto s_header_value_discard_lws l)"
| "hp_switch s_header_value_discard_lws cx l = st_header_value_discard_lws cx l"
| "hp_switch s_headers_almost_done cx l = st_headers_almost_done cx l"
| "hp_switch s_headers_done cx l = st_headers_done cx l"
| "hp_switch s_body_identity cx l = st_body_identity cx l"
| "hp_switch s_body_identity_eof cx l = st_body_identity_eof cx l"
| "hp_switch s_message_done cx l = st_message_done cx l"
| "hp_switch s_chunk_size_start cx l = st_chunk_size_start cx l"
| "hp_switch s_chunk_size cx l = st_chunk_size cx l"
| "hp_switch s_chunk_parameters cx l = st_chunk_parameters cx l"
| "hp_switch s_chunk_size_almost_done cx l = st_chunk_size_almost_done cx l"
| "hp_switch s_chunk_data cx l = st_chunk_data cx l"
| "hp_switch s_chunk_data_almost_done cx l = st_chunk_data_almost_done cx l"
| "hp_switch s_chunk_data_done cx l = st_chunk_data_done cx l"

definition hp_step :: "'u hp_cx \<Rightarrow> 'u hp_loc \<Rightarrow> 'u hp_out" where
  "hp_step cx l = hp_switch (hp_state l) cx l"

text \<open>How far a state is, at most, from a case that takes a byte.\<close>

definition redo_rank :: "hp_state \<Rightarrow> nat" where
  "redo_rank s =
     (case s of
        s_header_value \<Rightarrow> 7 | s_header_almost_done \<Rightarrow> 6 | s_header_value_lws \<Rightarrow> 5 | s_header_value_discard_lws \<Rightarrow> 5
      | s_header_field_start \<Rightarrow> 4 | s_headers_almost_done \<Rightarrow> 3 | s_body_identity \<Rightarrow> 3 | s_res_status_code \<Rightarrow> 3
      | s_headers_done \<Rightarrow> 2 | s_message_done \<Rightarrow> 2 | s_res_status_start \<Rightarrow> 2 | s_start_req_or_res \<Rightarrow> 2
      | _ \<Rightarrow> 0)"

lemmas st_defs = st_dead_def st_start_req_or_res_def st_res_or_resp_H_def st_start_res_def st_res_http_major_def
  st_res_http_dot_def st_res_http_minor_def st_res_http_end_def st_res_first_status_code_def st_res_status_code_def
  st_res_status_start_def st_res_status_def st_start_req_def st_req_method_def st_req_spaces_before_url_def
  st_req_schema_def st_req_url_def st_req_http_start_def st_req_http_major_def st_req_http_dot_def
  st_req_http_minor_def st_req_http_end_def st_req_line_almost_done_def st_header_field_start_def
  st_header_value_discard_ws_def st_header_value_start_def st_header_almost_done_def st_header_value_lws_def
  st_header_value_discard_lws_def st_headers_almost_done_def st_headers_done_def st_body_identity_def
  st_body_identity_eof_def st_message_done_def st_chunk_size_start_def st_chunk_size_def st_chunk_parameters_def
  st_chunk_size_almost_done_def st_chunk_data_def st_chunk_data_almost_done_def st_chunk_data_done_def
  url_step_def message_complete_def

lemmas macro_defs = callback_notify_def callback_data_def count_header_size_def hp_err_def set_mark_def set_flag_def
  begin_message_def take_body_def value_flags_def set_upgrade_def

text \<open>What neither loop over a name or a value changes.\<close>

definition same_frame :: "'u hp_loc \<Rightarrow> 'u hp_loc \<Rightarrow> bool" where
  "same_frame l l1 \<longleftrightarrow> l_p l \<le> l_p l1 \<and> hp_state l1 = hp_state l \<and> l_mark l1 = l_mark l \<and> l_user l1 = l_user l \<and>
     hp_errno l1 = hp_errno l \<and> hp_type l1 = hp_type l \<and> hp_nread l1 = hp_nread l \<and> hp_lenient l1 = hp_lenient l"

lemma same_frame_refl [simp]: "same_frame l l"
  by (simp add: same_frame_def)

lemma same_frame_trans: "same_frame l l1 \<Longrightarrow> same_frame l1 l2 \<Longrightarrow> same_frame l l2"
  by (simp add: same_frame_def)

lemma st_field_byte_frame:
  "st_field_byte ch c l = Some l1 \<Longrightarrow> l_p l1 = l_p l \<and> same_frame l l1"
  by (auto simp: st_field_byte_def match_field_def same_frame_def Let_def split: hp_hstate.splits if_splits match_result.splits)

lemma field_skip_bound: "p < length (cx_data cx) \<Longrightarrow> p + field_skip cx p < length (cx_data cx)"
proof -
  assume p: "p < length (cx_data cx)"
  have "field_skip cx p \<le> length (cx_data cx) - Suc p"
    unfolding field_skip_def Let_def by (rule order_trans[OF length_takeWhile_le]) simp
  then show ?thesis using p by linarith
qed

lemma field_loop_frame:
  "field_loop cx l = Some l1 \<Longrightarrow> same_frame l l1 \<and> (l_p l \<le> length (cx_data cx) \<longrightarrow> l_p l1 \<le> length (cx_data cx))"
proof (induction cx l arbitrary: l1 rule: field_loop.induct)
  case (1 cx l)
  let ?ch = "cx_data cx ! l_p l"
  let ?l = "l\<lparr>l_ch := ?ch\<rparr>"
  have f: "same_frame l ?l" by (simp add: same_frame_def)
  show ?case
  proof (cases "l_p l \<ge> length (cx_data cx) \<or> token ?ch = NUL")
    case True
    then show ?thesis using "1.prems" f by (subst (asm) field_loop.simps) (auto simp: Let_def split: if_splits)
  next
    case False
    show ?thesis
    proof (cases "hp_hstate l = h_general")
      case True
      have g: "l_p l + field_skip cx (l_p l) < length (cx_data cx)"
        using False field_skip_bound[of "l_p l" cx] by simp
      have "field_loop cx (?l\<lparr>l_p := Suc (l_p l + field_skip cx (l_p l))\<rparr>) = Some l1"
        using "1.prems" False True by (subst (asm) field_loop.simps) (simp add: Let_def)
      from "1.IH"(1)[OF _ refl refl refl _ True this] False
      show ?thesis using same_frame_trans[of l "?l\<lparr>l_p := Suc (l_p l + field_skip cx (l_p l))\<rparr>"] g
        by (simp add: same_frame_def)
    next
      case g: False
      obtain l2 where b: "st_field_byte ?ch (token ?ch) ?l = Some l2" "field_loop cx (l2\<lparr>l_p := Suc (l_p l)\<rparr>) = Some l1"
        using "1.prems" False g by (subst (asm) field_loop.simps) (auto simp: Let_def split: option.splits)
      from "1.IH"(2)[OF _ refl refl refl _ g b] False
      show ?thesis using st_field_byte_frame[OF b(1)] by (simp add: same_frame_def)
    qed
  qed
qed

lemma value_byte_frame:
  "value_byte ch h l = V_go h1 l1 \<Longrightarrow> hp_state l = s_header_value \<Longrightarrow> l_p l1 = l_p l \<and> same_frame l l1"
  "value_byte ch h l = V_err e l1 \<Longrightarrow> l_p l1 = l_p l \<and> same_frame l l1"
  by (auto simp: value_byte_def content_digit_def match_value_def next_token_def connection_end_def set_flag_def
      same_frame_def Let_def split: hp_hstate.splits if_splits match_result.splits)

lemma value_run_bound: "value_run cx l \<le> min (length (cx_data cx) - l_p l) (cx_max cx)"
  unfolding value_run_def by (rule order_trans[OF length_takeWhile_le]) (simp add: min_def)

text \<open>One round of the loop over a value, as the four ways it can go on or end.\<close>

lemma value_loop_frame:
  assumes "value_loop cx h l = (v, h1, l1)" "hp_state l = s_header_value"
  shows "same_frame l l1 \<and> (l_p l \<le> length (cx_data cx) \<longrightarrow> l_p l1 \<le> length (cx_data cx)) \<and>
    (v = V_end \<longrightarrow> length (cx_data cx) \<le> l_p l1) \<and> (v \<noteq> V_end \<longrightarrow> l_p l1 < length (cx_data cx))"
  using assms
proof (induction cx h l arbitrary: v h1 l1 rule: value_loop.induct)
  case (1 cx h l)
  let ?ch = "cx_data cx ! l_p l"
  let ?l = "l\<lparr>l_ch := ?ch\<rparr>"
  let ?pe = "l_p l + min (length (cx_data cx) - l_p l) (cx_max cx)"
  let ?q = "l_p l + value_run cx l"
  have f: "same_frame l (?l\<lparr>l_p := n\<rparr>) \<longleftrightarrow> l_p l \<le> n" "same_frame l ?l" for n by (simp_all add: same_frame_def)
  show ?case
  proof (cases "l_p l \<ge> length (cx_data cx) \<or> ?ch = CR \<or> ?ch = LF \<or> \<not> value_char_ok l ?ch")
    case True
    then show ?thesis using "1.prems" f by (subst (asm) value_loop.simps) (auto simp: Let_def split: if_splits)
  next
    case False
    then have b: "\<not> length (cx_data cx) \<le> l_p l" "?ch \<noteq> CR" "?ch \<noteq> LF" "\<not> \<not> value_char_ok l ?ch" by auto
    show ?thesis
    proof (cases "h = h_general")
      case g: True
      note S = "1.prems"(1)[unfolded value_loop.simps[of cx h l] Let_def]
      show ?thesis
      proof (cases "?q < ?pe")
        case True
        let ?l2 = "?l\<lparr>l_ch := cx_data cx ! ?q, l_p := ?q\<rparr>"
        have d: "?q < length (cx_data cx)" using True b by (simp add: min_def split: if_splits)
        show ?thesis
        proof (cases "\<not> is_crlf (l_ch ?l2) \<or> value_run cx l = 0")
          case t: True
          then show ?thesis using S b g True d by (auto simp: same_frame_def split: if_splits)
        next
          case False
          then have "value_loop cx h ?l2 = (v, h1, l1)" using S b g True by simp
          from "1.IH"(1)[OF b(1) refl refl b(2,3,4) g refl refl refl True refl _ _ this] False "1.prems"(2)
          show ?thesis using d by (simp add: same_frame_def)
        qed
      next
        case q: False
        note S2 = S[unfolded if_not_P[OF b(1)] if_not_P[OF b(2)] if_not_P[OF b(3)] if_not_P[OF b(4)] if_P[OF g] if_not_P[OF q]]
        show ?thesis
        proof (cases "?pe = length (cx_data cx)")
          case True
          have "value_loop cx h (?l\<lparr>l_p := ?pe\<rparr>) = (v, h1, l1)" by (rule S2[unfolded if_P[OF True]])
          from "1.IH"(2)[OF b(1) refl refl b(2,3,4) g refl refl refl q True this] "1.prems"(2)
          show ?thesis using True by (simp add: same_frame_def)
        next
          case False
          have "value_loop cx h (?l\<lparr>l_p := Suc ?pe\<rparr>) = (v, h1, l1)" by (rule S2[unfolded if_not_P[OF False]])
          from "1.IH"(3)[OF b(1) refl refl b(2,3,4) g refl refl refl q False this] "1.prems"(2) False
          show ?thesis by (auto simp: same_frame_def min_def split: if_splits)
        qed
      qed
    next
      case g: False
      note S = "1.prems"(1)[unfolded value_loop.simps[of cx h l] Let_def]
      show ?thesis
      proof (cases "value_byte ?ch h ?l")
        case v: (V_go h2 l2)
        then have "value_loop cx h2 (l2\<lparr>l_p := Suc (l_p l)\<rparr>) = (v, h1, l1)" using S b g by simp
        note I = "1.IH"(4)[OF b(1) refl refl b(2,3,4) g v this]
        show ?thesis using I value_byte_frame(1)[OF v] "1.prems"(2) b(1) by (simp add: same_frame_def)
      next
        case v: (V_err e l2)
        then show ?thesis using S b g value_byte_frame(2)[OF v] by (auto simp: same_frame_def)
      next
        case V_abort
        then show ?thesis using S b g f by auto
      qed
    qed
  qed
qed

definition progress :: "'u hp_loc \<Rightarrow> 'u hp_out \<Rightarrow> bool" where
  "progress l res =
     (case res of
        Next l1 \<Rightarrow> l_p l \<le> l_p l1
      | Redo l1 \<Rightarrow> l_p l \<le> l_p l1 \<and> redo_rank (hp_state l1) < redo_rank (hp_state l)
      | _ \<Rightarrow> True)"

lemma progress_simps [simp]:
  "progress l (Next l1) \<longleftrightarrow> l_p l \<le> l_p l1"
  "progress l (Redo l1) \<longleftrightarrow> l_p l \<le> l_p l1 \<and> redo_rank (hp_state l1) < redo_rank (hp_state l)"
  "progress l (Stop n l1)" "progress l Abort" "progress l (hp_err e l1)"
  by (simp_all add: progress_def hp_err_def)

lemma progress_notify:
  "(\<And>u. progress l0 (k (l\<lparr>l_user := u\<rparr>))) \<Longrightarrow> progress l0 (callback_notify cx f e er k l)"
  by (simp add: callback_notify_def split: prod.split)

lemma progress_data:
  assumes "\<And>ms u. progress l0 (k (l\<lparr>l_user := u, l_mark := ms\<rparr>))"
  shows "progress l0 (callback_data cx m e er k l)"
  using assms assms[of "l_mark l" "l_user l"] by (auto simp: callback_data_def split: prod.split option.split)

lemma progress_count:
  "(\<And>n. progress l0 (k (l\<lparr>hp_nread := n\<rparr>))) \<Longrightarrow> progress l0 (count_header_size cx v k l)"
  by (simp add: count_header_size_def Let_def)

lemma set_mark_frame [simp]: "l_p (set_mark m l) = l_p l" "hp_state (set_mark m l) = hp_state l"
  by (simp_all add: set_mark_def)

lemma take_body_progress:
  "l_p l < length (cx_data cx) \<Longrightarrow> length_known l \<Longrightarrow> l_p l \<le> l_p (take_body cx l)"
  by (auto simp: take_body_def length_known_def Let_def)

lemma st_header_field_progress:
  assumes "l_p l < length (cx_data cx)" "hp_state l = s_header_field"
  shows "progress l (st_header_field cx l)"
proof (cases "field_loop cx l")
  case None
  then show ?thesis by (simp add: st_header_field_def)
next
  case (Some l1)
  then show ?thesis using field_loop_frame[OF Some] assms
    by (auto simp: st_header_field_def same_frame_def Let_def intro!: progress_count progress_data)
qed

lemma st_header_value_progress:
  assumes "l_p l < length (cx_data cx)" "hp_state l = s_header_value"
  shows "progress l (st_header_value cx l)"
proof (cases "value_loop cx (hp_hstate l) l")
  case (fields v h l1)
  show ?thesis using value_loop_frame[OF fields] assms fields
    by (cases v) (auto simp: st_header_value_def same_frame_def redo_rank_def Let_def intro!: progress_count progress_data)
qed

lemma value_flags_frame [simp]: "l_p (value_flags l) = l_p l" "hp_state (value_flags l) = hp_state l"
  by (simp_all add: value_flags_def set_flag_def split: hp_hstate.split)

lemma small_frames [simp]: "l_p (begin_message l) = l_p l" "l_p (set_upgrade l) = l_p l" "l_p (set_flag f l) = l_p l"
  "hp_state (set_flag f l) = hp_state l" "hp_state (set_upgrade l) = hp_state l"
  by (simp_all add: begin_message_def set_upgrade_def set_flag_def)

lemma hp_step_progress:
  assumes "l_p l < length (cx_data cx)"
  shows "progress l (hp_step cx l)"
proof (cases "hp_state l")
  case s_headers_almost_done
  then show ?thesis
    by (auto simp: hp_step_def st_headers_almost_done_def redo_rank_def Let_def intro!: progress_notify split: prod.split)
next
  case s_body_identity
  then show ?thesis using take_body_progress[OF assms]
    by (auto simp: hp_step_def st_body_identity_def redo_rank_def Let_def intro!: progress_data)
next
  case s_chunk_data
  then show ?thesis using take_body_progress[OF assms]
    by (auto simp: hp_step_def st_chunk_data_def Let_def)
next
  case s_header_value_start
  then show ?thesis
    by (auto simp: hp_step_def st_header_value_start_def Let_def split: hp_hstate.split)
next
  case s_header_value_discard_ws
  then show ?thesis
    by (auto simp: hp_step_def st_header_value_start_def st_header_value_discard_ws_def Let_def split: hp_hstate.split)
qed (use assms in \<open>auto simp: hp_step_def st_header_field_progress st_header_value_progress st_defs redo_rank_def Let_def
       intro!: progress_notify progress_data progress_count split: option.split\<close>)

text \<open>
  The loop; \<open>again\<close> is the entry at the label \<^verbatim>\<open>reexecute\<close>, past the test, the load of the byte and
  the count of the bytes of the headers.
\<close>

function hp_run :: "'u hp_cx \<Rightarrow> bool \<Rightarrow> 'u hp_loc \<Rightarrow> 'u hp_out" where
  "hp_run cx again l =
     (if l_p l \<ge> length (cx_data cx) then (if again \<or> l_p l > length (cx_data cx) then Abort else Next l)
      else if again
      then (case hp_step cx l of
              Next l1 \<Rightarrow> hp_run cx False (l1\<lparr>l_p := l_p l1 + 1\<rparr>)
            | Redo l1 \<Rightarrow> hp_run cx True l1
            | Stop n l1 \<Rightarrow> Stop n l1
            | Abort \<Rightarrow> Abort)
      else
        let l1 = l\<lparr>l_ch := cx_data cx ! l_p l\<rparr>;
            l2 = (if parsing_header (hp_state l1) then l1\<lparr>hp_nread := u32 (hp_nread l1 + 1)\<rparr> else l1) in
        if parsing_header (hp_state l1) \<and> hp_nread l2 > cx_max cx then hp_err HPE_HEADER_OVERFLOW l2
        else hp_run cx True l2)"
  by pat_completeness auto
termination
proof (relation "measures [\<lambda>(cx, again, l). length (cx_data cx) - l_p l,
    \<lambda>(cx, again, l). if again then redo_rank (hp_state l) else 8]", goal_cases)
  case 1
  then show ?case by simp
next
  case (2 cx again l l1)
  then have "l_p l < length (cx_data cx)" "l_p l \<le> l_p l1" using hp_step_progress[of l cx] by simp_all
  then have "length (cx_data cx) - Suc (l_p l1) < length (cx_data cx) - l_p l" by arith
  then show ?case by simp
next
  case (3 cx again l l1)
  then have "again" "l_p l \<le> l_p l1" "redo_rank (hp_state l1) < redo_rank (hp_state l)" using hp_step_progress[of l cx] by simp_all
  then show ?case by (auto simp: nat_less_le)
next
  case (4 cx again l l1 l2)
  have "redo_rank s < 8" for s by (cases s) (simp_all add: redo_rank_def)
  then show ?case using 4 by (simp add: Let_def)
qed

declare hp_run.simps [simp del]

text \<open>The marks that are set when a call begins, and the callbacks for those left at its end.\<close>

definition url_states :: "hp_state list" where
  "url_states = [s_req_path, s_req_schema, s_req_schema_slash, s_req_schema_slash_slash, s_req_server_start, s_req_server,
     s_req_server_with_at, s_req_query_string_start, s_req_query_string, s_req_fragment_start, s_req_fragment]"

definition initial_mark :: "hp_state \<Rightarrow> hp_mark \<Rightarrow> nat option" where
  "initial_mark s m =
     (case m of
        M_header_field \<Rightarrow> if s = s_header_field then Some 0 else None
      | M_header_value \<Rightarrow> if s = s_header_value then Some 0 else None
      | M_url \<Rightarrow> if s \<in> set url_states then Some 0 else None
      | M_status \<Rightarrow> if s = s_res_status then Some 0 else None
      | M_body \<Rightarrow> None)"

definition one_mark :: "(hp_mark \<Rightarrow> nat option) \<Rightarrow> bool" where
  "one_mark ms \<longleftrightarrow>
     length (filter (\<lambda>m. ms m \<noteq> None) [M_header_field, M_header_value, M_url, M_body, M_status]) \<le> 1"

definition hp_flush :: "'u hp_cx \<Rightarrow> 'u hp_loc \<Rightarrow> 'u hp_out" where
  "hp_flush cx l =
     (if \<not> one_mark (l_mark l) then Abort
      else
        callback_data cx M_header_field (l_p l) (l_p l)
          (callback_data cx M_header_value (l_p l) (l_p l)
            (callback_data cx M_url (l_p l) (l_p l)
              (callback_data cx M_body (l_p l) (l_p l)
                (callback_data cx M_status (l_p l) (l_p l) (Stop (length (cx_data cx))))))) l)"

definition hp_start :: "http_parser \<Rightarrow> 'u \<Rightarrow> 'u hp_loc" where
  "hp_start prs u = http_parser.extend prs \<lparr>l_p = 0, l_ch = NUL, l_mark = initial_mark (hp_state prs), l_user = u\<rparr>"

definition hp_result :: "'u hp_out \<Rightarrow> (nat \<times> http_parser \<times> 'u) option" where
  "hp_result res = (case res of Stop n l \<Rightarrow> Some (n, http_parser.truncate l, l_user l) | _ \<Rightarrow> None)"

text \<open>\<open>mx\<close> is \<^verbatim>\<open>max_header_size\<close>.  A call with no bytes is how a caller says that the connection has ended.\<close>

definition http_parser_execute ::
  "nat \<Rightarrow> 'u hp_settings \<Rightarrow> string \<Rightarrow> http_parser \<Rightarrow> 'u \<Rightarrow> (nat \<times> http_parser \<times> 'u) option" where
  "http_parser_execute mx cb data prs u =
     (let cx = \<lparr>cx_call = cb, cx_data = data, cx_max = mx\<rparr>; l = hp_start prs u in
      if hp_errno prs \<noteq> HPE_OK then Some (0, prs, u)
      else if data = []
      then (if hp_state prs = s_body_identity_eof
            then hp_result (callback_notify cx On_message_complete HPE_CB_message_complete 0 (Stop 0) l)
            else if hp_state prs \<in> {s_dead, s_start_req_or_res, s_start_res, s_start_req} then Some (0, prs, u)
            else Some (1, prs\<lparr>hp_errno := HPE_INVALID_EOF_STATE\<rparr>, u))
      else hp_result
        (case hp_run cx False l of Next l1 \<Rightarrow> hp_flush cx l1 | res \<Rightarrow> res))"

definition http_body_is_final :: "http_parser \<Rightarrow> bool" where
  "http_body_is_final prs \<longleftrightarrow> hp_state prs = s_message_done"

definition http_parser_pause :: "bool \<Rightarrow> http_parser \<Rightarrow> http_parser option" where
  "http_parser_pause paused prs =
     (if hp_errno prs = HPE_OK \<or> hp_errno prs = HPE_PAUSED
      then Some (prs\<lparr>hp_errno := (if paused then HPE_PAUSED else HPE_OK)\<rparr>) else None)"

end

