(* ===== verification/Http_Parser_Safe.thy ===== *)
theory Http_Parser_Safe
  imports Http_Execute
begin

text \<open>
  The invariant of the parser, and what it gives: no assertion fails, every byte that a callback is
  shown is a byte of the buffer, and a call takes the whole buffer unless it reports an error or the
  message is an upgrade.  The callbacks are arbitrary: \<open>P\<close> is any property of the user's data that
  calls within the buffer keep.
\<close>

unbundle bit_operations_syntax

section \<open>The invariant\<close>

definition field_hstates :: "hp_hstate list" where
  "field_hstates = [h_general, h_C, h_CO, h_CON, h_matching_connection, h_matching_proxy_connection,
     h_matching_content_length, h_matching_transfer_encoding, h_matching_upgrade,
     h_connection, h_content_length, h_transfer_encoding, h_upgrade]"

definition value_hstate :: "hp_hstate \<Rightarrow> bool" where
  "value_hstate h \<longleftrightarrow> h \<noteq> h_connection \<and> h \<noteq> h_transfer_encoding"

text \<open>\<open>k\<close> is the count of bytes with which the state \<^verbatim>\<open>s_chunk_size_start\<close> is met.\<close>

definition state_ok :: "nat \<Rightarrow> 'a http_parser_scheme \<Rightarrow> bool" where
  "state_ok k l =
     (case hp_state l of
        s_header_field \<Rightarrow> hp_hstate l \<in> set field_hstates
      | s_header_value \<Rightarrow> value_hstate (hp_hstate l)
      | s_req_method \<Rightarrow> hp_index l \<le> length (method_string (hp_method l))
      | s_body_identity \<Rightarrow> hp_content_length l \<noteq> 0 \<and> hp_content_length l \<noteq> ULLONG_MAX
      | s_chunk_size_start \<Rightarrow> has_flag F_CHUNKED l \<and> hp_nread l = k
      | s_chunk_size \<Rightarrow> has_flag F_CHUNKED l \<and> hp_content_length l < ULLONG_MAX
      | s_chunk_parameters \<Rightarrow> has_flag F_CHUNKED l \<and> hp_content_length l < ULLONG_MAX
      | s_chunk_size_almost_done \<Rightarrow> has_flag F_CHUNKED l \<and> hp_content_length l < ULLONG_MAX
      | s_chunk_data \<Rightarrow> has_flag F_CHUNKED l \<and> hp_content_length l \<noteq> 0 \<and> hp_content_length l \<noteq> ULLONG_MAX
      | s_chunk_data_almost_done \<Rightarrow> has_flag F_CHUNKED l \<and> hp_content_length l = 0
      | s_chunk_data_done \<Rightarrow> has_flag F_CHUNKED l
      | _ \<Rightarrow> True)"

definition parser_ok :: "nat \<Rightarrow> 'a http_parser_scheme \<Rightarrow> bool" where
  "parser_ok k l \<longleftrightarrow> hp_errno l = HPE_OK \<and> hp_content_length l \<le> ULLONG_MAX \<and> state_ok k l"

text \<open>Which mark can be set is known from the state, and that of a body alone may be absent.\<close>

definition state_mark :: "hp_state \<Rightarrow> hp_mark option" where
  "state_mark s =
     (case s of
        s_header_field \<Rightarrow> Some M_header_field
      | s_header_value \<Rightarrow> Some M_header_value
      | s_res_status \<Rightarrow> Some M_status
      | s_body_identity \<Rightarrow> Some M_body | s_body_identity_eof \<Rightarrow> Some M_body
      | s_chunk_data \<Rightarrow> Some M_body | s_chunk_data_almost_done \<Rightarrow> Some M_body
      | _ \<Rightarrow> if s \<in> set url_states then Some M_url else None)"

definition marks_ok :: "hp_state \<Rightarrow> (hp_mark \<Rightarrow> nat option) \<Rightarrow> nat \<Rightarrow> bool" where
  "marks_ok s ms p \<longleftrightarrow>
     (case state_mark s of
        None \<Rightarrow> ms = Map.empty
      | Some m \<Rightarrow> (\<exists>a \<le> p. ms = [m \<mapsto> a]) \<or> m = M_body \<and> ms = Map.empty)"

definition in_buffer :: "string \<Rightarrow> hp_cbk \<Rightarrow> bool" where
  "in_buffer data f = (case f of On_data m a n \<Rightarrow> a + n \<le> length data | _ \<Rightarrow> True)"

definition keeps :: "('u \<Rightarrow> bool) \<Rightarrow> 'u hp_cx \<Rightarrow> bool" where
  "keeps P cx \<longleftrightarrow> (\<forall>f prs u. P u \<longrightarrow> in_buffer (cx_data cx) f \<longrightarrow> P (snd (cx_call cx f prs u)))"

definition loc_ok :: "('u \<Rightarrow> bool) \<Rightarrow> nat \<Rightarrow> 'u hp_loc \<Rightarrow> bool" where
  "loc_ok P k l \<longleftrightarrow> parser_ok k l \<and> marks_ok (hp_state l) (l_mark l) (l_p l) \<and> P (l_user l)"

definition stopped_ok :: "'a http_parser_scheme \<Rightarrow> bool" where
  "stopped_ok l \<longleftrightarrow> hp_errno l \<noteq> HPE_OK \<or> parser_ok 0 l \<and> hp_upgrade l"

text \<open>\<open>n\<close> is the length of the buffer.\<close>

definition out_ok :: "('u \<Rightarrow> bool) \<Rightarrow> nat \<Rightarrow> 'u hp_out \<Rightarrow> bool" where
  "out_ok P n res =
     (case res of
        Next l \<Rightarrow> loc_ok P 0 l \<and> l_p l < n
      | Redo l \<Rightarrow> loc_ok P 1 l \<and> l_p l < n
      | Stop m l \<Rightarrow> m \<le> n \<and> P (l_user l) \<and> stopped_ok l
      | Abort \<Rightarrow> False)"

lemma out_ok_simps [simp]:
  "out_ok P n (Next l) \<longleftrightarrow> loc_ok P 0 l \<and> l_p l < n"
  "out_ok P n (Redo l) \<longleftrightarrow> loc_ok P 1 l \<and> l_p l < n"
  "out_ok P n (Stop m l) \<longleftrightarrow> m \<le> n \<and> P (l_user l) \<and> stopped_ok l"
  "\<not> out_ok P n Abort"
  by (simp_all add: out_ok_def)

lemma out_ok_err [simp]: "e \<noteq> HPE_OK \<Longrightarrow> out_ok P n (hp_err e l) \<longleftrightarrow> l_p l \<le> n \<and> P (l_user l)"
  by (simp add: hp_err_def stopped_ok_def)

lemma out_ok_notify:
  assumes "keeps P cx" "hp_errno l = HPE_OK" "P (l_user l)" "\<And>m a b. f \<noteq> On_data m a b"
    and "er \<le> n" "e \<noteq> HPE_OK" "\<And>u. P u \<Longrightarrow> out_ok P n (k (l\<lparr>l_user := u\<rparr>))"
  shows "out_ok P n (callback_notify cx f e er k l)"
proof (cases "cx_call cx f (http_parser.truncate l) (l_user l)")
  case (Pair r u)
  have "in_buffer (cx_data cx) f" using assms(4) by (simp add: in_buffer_def split: hp_cbk.split)
  then have "P u" using assms(1,3) Pair unfolding keeps_def by (metis snd_conv)
  then show ?thesis using assms(2,5-) Pair by (simp add: callback_notify_def stopped_ok_def)
qed

lemma mark_errno_neq [simp]: "mark_errno m \<noteq> HPE_OK"
  by (cases m) simp_all

lemma out_ok_data:
  assumes "keeps P cx" "hp_errno l = HPE_OK" "P (l_user l)" "\<And>a. l_mark l m = Some a \<Longrightarrow> a \<le> e" "e \<le> length (cx_data cx)"
    and "er \<le> n" "\<And>u. P u \<Longrightarrow> out_ok P n (k (l\<lparr>l_user := u, l_mark := (l_mark l)(m := None)\<rparr>))"
  shows "out_ok P n (callback_data cx m e er k l)"
proof (cases "l_mark l m")
  case None
  then have "(l_mark l)(m := None) = l_mark l" by auto
  then have "out_ok P n (k l)" using assms(7)[OF assms(3)] by simp
  then show ?thesis using assms(2) None by (simp add: callback_data_def)
next
  case (Some a)
  obtain r u where c: "cx_call cx (On_data m a (e - a)) (http_parser.truncate l) (l_user l) = (r, u)" by fastforce
  have "in_buffer (cx_data cx) (On_data m a (e - a))" using assms(4)[OF Some] assms(5) by (simp add: in_buffer_def)
  then have "P u" using assms(1,3) c unfolding keeps_def by (metis snd_conv)
  then show ?thesis using assms(2,6,7) Some c by (simp add: callback_data_def stopped_ok_def)
qed

lemma out_ok_count:
  assumes "l_p l \<le> n" "P (l_user l)" "\<And>m. out_ok P n (k (l\<lparr>hp_nread := m\<rparr>))"
  shows "out_ok P n (count_header_size cx v k l)"
  using assms by (simp add: count_header_size_def Let_def)

lemmas ok_defs = loc_ok_def parser_ok_def state_ok_def marks_ok_def stopped_ok_def

lemma state_mark_url: "s \<in> set url_states \<Longrightarrow> state_mark s = Some M_url"
  by (auto simp: url_states_def state_mark_def)

lemma state_mark_simps [simp]:
  "state_mark s_header_field = Some M_header_field" "state_mark s_header_value = Some M_header_value"
  "state_mark s_res_status = Some M_status"
  "state_mark s_body_identity = Some M_body" "state_mark s_body_identity_eof = Some M_body"
  "state_mark s_chunk_data = Some M_body" "state_mark s_chunk_data_almost_done = Some M_body"
  by (simp_all add: state_mark_def)

lemma state_mark_None [simp]:
  "s \<in> {s_dead, s_start_req_or_res, s_res_or_resp_H, s_start_res,
     s_res_H, s_res_HT, s_res_HTT, s_res_HTTP,
     s_res_http_major, s_res_http_dot, s_res_http_minor, s_res_http_end,
     s_res_first_status_code, s_res_status_code, s_res_status_start, s_res_line_almost_done,
     s_start_req, s_req_method, s_req_spaces_before_url,
     s_req_http_start, s_req_http_H, s_req_http_HT, s_req_http_HTT, s_req_http_HTTP,
     s_req_http_I, s_req_http_IC,
     s_req_http_major, s_req_http_dot, s_req_http_minor, s_req_http_end, s_req_line_almost_done,
     s_header_field_start, s_header_value_discard_ws, s_header_value_discard_ws_almost_done, s_header_value_discard_lws,
     s_header_value_start, s_header_value_lws, s_header_almost_done,
     s_chunk_size_start, s_chunk_size, s_chunk_parameters, s_chunk_size_almost_done,
     s_headers_almost_done, s_headers_done, s_chunk_data_done, s_message_done} \<Longrightarrow> state_mark s = None"
  by (elim insertE emptyE) (simp_all add: state_mark_def url_states_def)

lemma one_mark_reset [simp]: "[m \<mapsto> a](m := None) = Map.empty"
  by auto

lemma one_mark_eq [simp]: "[m \<mapsto> (a :: nat)] = [m \<mapsto> b] \<longleftrightarrow> a = b"
  by (metis map_upd_eqD1)

section \<open>One case of the switch\<close>

lemma message_complete_ok:
  assumes "keeps P cx" "hp_errno l = HPE_OK" "P (l_user l)" "l_p l < n"
    and "\<And>u. P u \<Longrightarrow> out_ok P n (k ((goto (start_state l) l)\<lparr>l_user := u\<rparr>))"
  shows "out_ok P n (message_complete cx k l)"
  unfolding message_complete_def by (rule out_ok_notify) (use assms in auto)

lemma method_string_length: "2 < length (method_string m)"
  by (cases m) simp_all

lemma method_string_Suc_0 [simp]: "Suc 0 \<le> length (method_string m)"
  using method_string_length[of m] by simp

lemmas step_simps = hp_step_def loc_ok_def parser_ok_def state_ok_def marks_ok_def stopped_ok_def begin_message_def
  set_mark_def out_ok_notify out_ok_data out_ok_count message_complete_ok Let_def

lemma loc_ok_D:
  assumes "loc_ok P k l"
  shows "hp_errno l = HPE_OK" "P (l_user l)" "hp_content_length l \<le> ULLONG_MAX" "marks_ok (hp_state l) (l_mark l) (l_p l)"
    "state_ok k l"
  using assms by (simp_all add: loc_ok_def parser_ok_def)

lemma parse_url_char_states:
  "parse_url_char s ch \<noteq> s_dead \<Longrightarrow> parse_url_char s ch \<in> set url_states"
  by (cases s) (auto simp: parse_url_char_def url_states_def split: if_splits)

lemma state_ok_url: "hp_state l \<in> set url_states \<Longrightarrow> state_ok k l"
  by (auto simp: state_ok_def url_states_def)

lemma url_step_ok:
  assumes "loc_ok P 1 l" "l_p l < n" "hp_state l \<in> set url_states"
  shows "out_ok P n (url_step s l)"
proof (cases "parse_url_char s (l_ch l) = s_dead")
  case True
  then show ?thesis using loc_ok_D[OF assms(1)] assms(2) by (simp add: url_step_def Let_def)
next
  case False
  note u = parse_url_char_states[OF False]
  show ?thesis using loc_ok_D[OF assms(1)] assms(2) False state_mark_url[OF assms(3)] state_mark_url[OF u]
      state_ok_url[of "goto (parse_url_char s (l_ch l)) l" 0] u
    by (simp add: url_step_def Let_def loc_ok_def parser_ok_def marks_ok_def)
qed

lemma switch_method_length: "switch_method m i ch = Some m1 \<Longrightarrow> Suc i \<le> length (method_string m1) \<and> i < 31"
  by (auto simp: switch_method_def split: if_splits)

lemma method_string_less: "length (method_string m) < 31"
  by (cases m) simp_all

lemma req_method_ok:
  assumes "loc_ok P 1 l" "l_p l < n" "hp_state l = s_req_method"
  shows "out_ok P n (st_req_method cx l)"
proof -
  note b = loc_ok_D[OF assms(1)]
  have i: "hp_index l \<le> length (method_string (hp_method l))" using b(5) assms(3) by (simp add: state_ok_def)
  then have w: "inc5 (hp_index l) = Suc (hp_index l)"
    using method_string_less[of "hp_method l"] by (simp add: inc5_def)
  have e: "l_ch l \<noteq> NUL \<Longrightarrow> l_ch l = (method_string (hp_method l) @ [NUL]) ! hp_index l \<Longrightarrow>
      Suc (hp_index l) \<le> length (method_string (hp_method l))"
    using i by (cases "hp_index l = length (method_string (hp_method l))") auto
  show ?thesis using b assms(2,3) i e switch_method_length[of "hp_method l" "hp_index l" "l_ch l"]
    by (auto simp: st_req_method_def Let_def w ok_defs split: option.split)
qed

lemma req_url_ok:
  assumes "keeps P cx" "loc_ok P 1 l" "l_p l < length (cx_data cx)" "hp_state l \<in> set url_states"
  shows "out_ok P (length (cx_data cx)) (st_req_schema cx l)" "out_ok P (length (cx_data cx)) (st_req_url cx l)"
proof -
  note b = loc_ok_D[OF assms(2)]
  obtain a where m: "l_mark l = [M_url \<mapsto> a]" "a \<le> l_p l"
    using b(4) state_mark_url[OF assms(4)] by (auto simp: marks_ok_def)
  show "out_ok P (length (cx_data cx)) (st_req_schema cx l)"
    using url_step_ok[OF assms(2-4)] b assms(3) by (simp add: st_req_schema_def)
  show "out_ok P (length (cx_data cx)) (st_req_url cx l)"
    using url_step_ok[OF assms(2-4)] b(1-3) m assms(1,3)
    by (auto simp: st_req_url_def ok_defs intro!: out_ok_data)
qed

section \<open>Header names and values\<close>

lemma field_loop_invariant:
  assumes "\<And>l ch c. I l \<Longrightarrow> \<exists>l2. st_field_byte ch c l = Some l2 \<and> I l2"
    and "\<And>l ch. I l \<Longrightarrow> I (l\<lparr>l_ch := ch\<rparr>)" "\<And>l p. I l \<Longrightarrow> I (l\<lparr>l_p := p\<rparr>)" and "I l"
  shows "\<exists>l1. field_loop cx l = Some l1 \<and> I l1"
  using assms(4)
proof (induction cx l rule: field_loop.induct)
  case (1 cx l)
  let ?ch = "cx_data cx ! l_p l"
  let ?l = "l\<lparr>l_ch := ?ch\<rparr>"
  note S = field_loop.simps[of cx l, unfolded Let_def]
  show ?case
  proof (cases "l_p l \<ge> length (cx_data cx) \<or> token ?ch = NUL")
    case True
    then show ?thesis using S "1.prems" assms(2) by auto
  next
    case False
    then have b: "\<not> length (cx_data cx) \<le> l_p l" "token ?ch \<noteq> NUL" by auto
    show ?thesis
    proof (cases "hp_hstate l = h_general")
      case True
      show ?thesis using "1.IH"(1)[OF b(1) refl refl refl b(2) True] assms(3)[OF assms(2)[OF "1.prems"]] S b True by simp
    next
      case g: False
      obtain l2 where l2: "st_field_byte ?ch (token ?ch) ?l = Some l2" "I l2"
        using assms(1)[OF assms(2)[OF "1.prems"]] by blast
      show ?thesis using "1.IH"(2)[OF b(1) refl refl refl b(2) g l2(1)] assms(3)[OF l2(2)] S b g l2(1) by simp
    qed
  qed
qed

lemma st_field_byte_ok:
  "hp_hstate l \<in> set field_hstates \<Longrightarrow>
   \<exists>l2. st_field_byte ch c l = Some l2 \<and> hp_hstate l2 \<in> set field_hstates \<and> hp_content_length l2 = hp_content_length l"
  by (cases "hp_hstate l") (simp_all add: field_hstates_def st_field_byte_def match_field_def Let_def split: match_result.split)

lemma field_loop_ok:
  assumes "hp_hstate l \<in> set field_hstates"
  shows "\<exists>l1. field_loop cx l = Some l1 \<and> hp_hstate l1 \<in> set field_hstates \<and> hp_content_length l1 = hp_content_length l"
  using field_loop_invariant[of "\<lambda>l1. hp_hstate l1 \<in> set field_hstates \<and> hp_content_length l1 = hp_content_length l" l cx]
    st_field_byte_ok assms by fastforce

lemma header_field_ok:
  assumes "keeps P cx" "loc_ok P 1 l" "l_p l < length (cx_data cx)" "hp_state l = s_header_field"
  shows "out_ok P (length (cx_data cx)) (st_header_field cx l)"
proof -
  note b = loc_ok_D[OF assms(2)]
  have "hp_hstate l \<in> set field_hstates" using b(5) assms(4) by (simp add: state_ok_def)
  then obtain l1 where l1: "field_loop cx l = Some l1" "hp_hstate l1 \<in> set field_hstates" "hp_content_length l1 = hp_content_length l"
    using field_loop_ok by blast
  note f = field_loop_frame[OF l1(1)]
  obtain a where a: "l_mark l = [M_header_field \<mapsto> a]" "a \<le> l_p l" using b(4) assms(4) by (auto simp: marks_ok_def)
  have z: "length (cx_data cx) - Suc 0 < length (cx_data cx)" "a \<le> length (cx_data cx) - Suc 0" using assms(3) a(2) by linarith+
  show ?thesis using l1 f a b(1-3) z assms(1,3,4)
    by (auto simp: st_header_field_def same_frame_def ok_defs intro!: out_ok_count out_ok_data)
qed

lemma value_run_pos:
  "l_p l < length (cx_data cx) \<Longrightarrow> cx_max cx \<noteq> 0 \<Longrightarrow> \<not> is_crlf (cx_data cx ! l_p l) \<Longrightarrow>
   value_char_ok l (cx_data cx ! l_p l) \<Longrightarrow> value_run cx l \<noteq> 0"
  by (cases "cx_max cx") (simp_all add: value_run_def Cons_nth_drop_Suc[symmetric])

lemma value_loop_invariant:
  assumes byte: "\<And>h l ch. I h l \<Longrightarrow> (case value_byte ch h l of V_go h1 l1 \<Rightarrow> I h1 l1 | V_err e l1 \<Rightarrow> e \<noteq> HPE_OK | V_abort \<Rightarrow> False)"
    and upd: "\<And>h l ch. I h l \<Longrightarrow> I h (l\<lparr>l_ch := ch\<rparr>)" "\<And>h l p. I h l \<Longrightarrow> I h (l\<lparr>l_p := p\<rparr>)"
    and "I h l" "value_loop cx h l = (v, h1, l1)"
  shows "v \<noteq> V_assert \<and> (case v of V_bad e \<Rightarrow> e \<noteq> HPE_OK | _ \<Rightarrow> I h1 l1)"
  using assms(4,5)
proof (induction cx h l rule: value_loop.induct)
  case (1 cx h l)
  let ?ch = "cx_data cx ! l_p l"
  let ?l = "l\<lparr>l_ch := ?ch\<rparr>"
  let ?pe = "l_p l + min (length (cx_data cx) - l_p l) (cx_max cx)"
  let ?q = "l_p l + value_run cx l"
  note S = "1.prems"(2)[unfolded value_loop.simps[of cx h l] Let_def]
  have i: "I h ?l" using upd(1) "1.prems"(1) .
  show ?case
  proof (cases "l_p l \<ge> length (cx_data cx) \<or> ?ch = CR \<or> ?ch = LF \<or> \<not> value_char_ok l ?ch")
    case True
    then show ?thesis using S "1.prems"(1) i by (auto split: if_splits)
  next
    case False
    then have b: "\<not> length (cx_data cx) \<le> l_p l" "?ch \<noteq> CR" "?ch \<noteq> LF" "\<not> \<not> value_char_ok l ?ch" by auto
    show ?thesis
    proof (cases "h = h_general")
      case g: True
      show ?thesis
      proof (cases "?q < ?pe")
        case True
        let ?l2 = "?l\<lparr>l_ch := cx_data cx ! ?q, l_p := ?q\<rparr>"
        have n: "value_run cx l \<noteq> 0" using value_run_pos[of l cx] b True by (auto simp: is_crlf_def)
        show ?thesis
        proof (cases "is_crlf (l_ch ?l2)")
          case t: True
          have r: "value_loop cx h ?l2 = (v, h1, l1)" using S b g True t n by simp
          show ?thesis
            by (rule "1.IH"(1)[OF b(1) refl refl b(2,3,4) g refl refl refl True refl _ n _ r])
              (use t upd(2)[OF upd(1)[OF i, of "cx_data cx ! ?q"], of ?q] in simp_all)
        next
          case False
          then show ?thesis using S b g True by auto
        qed
      next
        case q: False
        note S2 = S[unfolded if_not_P[OF b(1)] if_not_P[OF b(2)] if_not_P[OF b(3)] if_not_P[OF b(4)] if_P[OF g] if_not_P[OF q]]
        show ?thesis
        proof (cases "?pe = length (cx_data cx)")
          case True
          have "value_loop cx h (?l\<lparr>l_p := ?pe\<rparr>) = (v, h1, l1)" by (rule S2[unfolded if_P[OF True]])
          from "1.IH"(2)[OF b(1) refl refl b(2,3,4) g refl refl refl q True upd(2)[OF i] this] show ?thesis .
        next
          case False
          have "value_loop cx h (?l\<lparr>l_p := Suc ?pe\<rparr>) = (v, h1, l1)" by (rule S2[unfolded if_not_P[OF False]])
          from "1.IH"(3)[OF b(1) refl refl b(2,3,4) g refl refl refl q False upd(2)[OF i] this] show ?thesis .
        qed
      qed
    next
      case g: False
      show ?thesis
      proof (cases "value_byte ?ch h ?l")
        case v: (V_go h2 l2)
        have "value_loop cx h2 (l2\<lparr>l_p := Suc (l_p l)\<rparr>) = (v, h1, l1)" using S b g v by simp
        moreover have "I h2 l2" using byte[OF i, of ?ch] v by simp
        ultimately show ?thesis using "1.IH"(4)[OF b(1) refl refl b(2,3,4) g v upd(2)] by blast
      next
        case (V_err e l2)
        then show ?thesis using S b g byte[OF i, of ?ch] by auto
      next
        case V_abort
        then show ?thesis using byte[OF i, of ?ch] by simp
      qed
    qed
  qed
qed

lemma content_bound:
  "\<not> (ULLONG_MAX - 10) div 10 < n \<Longrightarrow> is_num ch \<Longrightarrow> u64 (u64 (n * 10) + num_val ch) \<le> ULLONG_MAX"
  by (simp add: ULLONG_MAX_def u64_def)

lemma value_byte_ok:
  assumes "value_hstate h" "hp_content_length l \<le> ULLONG_MAX"
  shows "case value_byte ch h l of V_go h1 l1 \<Rightarrow> value_hstate h1 \<and> hp_content_length l1 \<le> ULLONG_MAX
    | V_err e l1 \<Rightarrow> e \<noteq> HPE_OK | V_abort \<Rightarrow> False"
  using assms content_bound[of "hp_content_length l" ch]
  by (cases h) (auto simp: value_hstate_def value_byte_def content_digit_def match_value_def next_token_def connection_end_def
      set_flag_def Let_def split: match_result.split)

lemma header_value_ok:
  assumes "keeps P cx" "loc_ok P 1 l" "l_p l < length (cx_data cx)" "hp_state l = s_header_value"
  shows "out_ok P (length (cx_data cx)) (st_header_value cx l)"
proof -
  note b = loc_ok_D[OF assms(2)]
  obtain a where a: "l_mark l = [M_header_value \<mapsto> a]" "a \<le> l_p l" using b(4) assms(4) by (auto simp: marks_ok_def)
  obtain v h l1 where v: "value_loop cx (hp_hstate l) l = (v, h, l1)" by (metis prod_cases3)
  note f = value_loop_frame[OF v assms(4)]
  have h: "value_hstate (hp_hstate l)" using b(5) assms(4) by (simp add: state_ok_def)
  have i: "v \<noteq> V_assert \<and> (case v of V_bad e \<Rightarrow> e \<noteq> HPE_OK | _ \<Rightarrow> value_hstate h \<and> hp_content_length l1 \<le> ULLONG_MAX)"
    by (rule value_loop_invariant[where I = "\<lambda>h l. value_hstate h \<and> hp_content_length l \<le> ULLONG_MAX", OF _ _ _ _ v])
      (use h b value_byte_ok in auto)
  have z: "length (cx_data cx) - Suc 0 < length (cx_data cx)" "a \<le> length (cx_data cx) - Suc 0" using assms(3) a(2) by linarith+
  show ?thesis
  proof (cases v)
    case V_end
    then show ?thesis using v i f a b(1-3) z assms(1,3,4)
      by (auto simp: st_header_value_def same_frame_def ok_defs intro!: out_ok_count)
  next
    case V_cr
    then show ?thesis using v i f a b(1-3) assms(1,3,4)
      by (auto simp: st_header_value_def same_frame_def ok_defs intro!: out_ok_count out_ok_data)
  next
    case V_lf
    then show ?thesis using v i f a b(1-3) assms(1,3,4)
      by (auto simp: st_header_value_def same_frame_def ok_defs intro!: out_ok_count out_ok_data)
  next
    case (V_bad e)
    then show ?thesis using v i f b assms by (auto simp: st_header_value_def same_frame_def)
  next
    case V_assert
    then show ?thesis using i by simp
  qed
qed

lemma header_value_start_ok:
  assumes "loc_ok P 1 l" "l_p l < n" "hp_state l = s_header_value_start \<or> hp_state l = s_header_value_discard_ws"
  shows "out_ok P n (st_header_value_start cx l)"
proof -
  have m: "l_mark l = Map.empty" "hp_errno l = HPE_OK" "P (l_user l)" "hp_content_length l \<le> ULLONG_MAX"
    using loc_ok_D[OF assms(1)] assms(3) by (auto simp: marks_ok_def)
  have n: "is_num ch \<Longrightarrow> num_val ch \<le> ULLONG_MAX" for ch
    unfolding is_num_def is_between_def num_val_def ULLONG_MAX_def by simp linarith
  show ?thesis using m n assms(2)
    by (simp add: st_header_value_start_def Let_def set_mark_def set_flag_def ok_defs value_hstate_def split: hp_hstate.split)
qed

lemma headers_almost_done_ok:
  assumes "keeps P cx" "loc_ok P 1 l" "l_p l < length (cx_data cx)" "hp_state l = s_headers_almost_done"
  shows "out_ok P (length (cx_data cx)) (st_headers_almost_done cx l)"
proof -
  have m: "l_mark l = Map.empty" "hp_errno l = HPE_OK" "P (l_user l)" "hp_content_length l \<le> ULLONG_MAX"
    using loc_ok_D[OF assms(2)] assms(4) by (auto simp: marks_ok_def)
  have c: "P (snd (cx_call cx On_headers_complete prs (l_user l)))" for prs
    using assms(1) m(3) by (simp add: keeps_def in_buffer_def)
  show ?thesis
  proof (cases "has_flag F_TRAILING l \<or> length_conflict l")
    case True
    then show ?thesis using m assms(1,3)
      by (auto simp: st_headers_almost_done_def ok_defs intro!: out_ok_notify)
  next
    case False
    obtain r u where r: "cx_call cx On_headers_complete (http_parser.truncate (set_upgrade (goto s_headers_done l))) (l_user l) = (r, u)"
      by fastforce
    show ?thesis using False m assms(3) r c[of "http_parser.truncate (set_upgrade (goto s_headers_done l))"]
      by (simp add: st_headers_almost_done_def Let_def set_upgrade_def set_flag_def ok_defs)
  qed
qed

lemma parser_ok_start: "hp_errno l = HPE_OK \<Longrightarrow> hp_content_length l \<le> ULLONG_MAX \<Longrightarrow> parser_ok 0 (goto (start_state l) l)"
  by (simp add: parser_ok_def state_ok_def start_state_def)

lemma marks_ok_start: "marks_ok (start_state l) Map.empty p"
  by (simp add: marks_ok_def start_state_def)

lemma message_complete_ok2:
  assumes "keeps P cx" "hp_errno l = HPE_OK" "P (l_user l)" "l_p l < n" "hp_content_length l \<le> ULLONG_MAX" "l_mark l = Map.empty"
  shows "out_ok P n (message_complete cx Next l)"
    "hp_upgrade l \<Longrightarrow> out_ok P n (message_complete cx (\<lambda>l1. Stop (Suc (l_p l1)) l1) l)"
    "out_ok P n (message_complete cx (\<lambda>l1. if hp_upgrade l1 then Stop (Suc (l_p l1)) l1 else Next l1) l)"
  using assms by (auto simp: loc_ok_def stopped_ok_def start_state_def parser_ok_def state_ok_def marks_ok_def intro!: message_complete_ok)

lemma headers_done_ok:
  assumes "keeps P cx" "loc_ok P 1 l" "l_p l < length (cx_data cx)" "hp_state l = s_headers_done"
  shows "out_ok P (length (cx_data cx)) (st_headers_done cx l)"
proof -
  have m: "l_mark l = Map.empty" "hp_errno l = HPE_OK" "P (l_user l)" "hp_content_length l \<le> ULLONG_MAX"
    using loc_ok_D[OF assms(2)] assms(4) by (auto simp: marks_ok_def)
  show ?thesis using m assms(1,3)
    by (simp add: st_headers_done_def Let_def message_complete_ok2 ok_defs has_flag_def)
qed

lemma take_body_ok:
  assumes "length_known l" "l_p l < length (cx_data cx)" "hp_content_length l \<le> ULLONG_MAX"
    "l_mark l = Map.empty \<or> (\<exists>a \<le> l_p l. l_mark l = [M_body \<mapsto> a])"
  shows "l_p (take_body cx l) < length (cx_data cx)"
    "hp_content_length (take_body cx l) \<le> ULLONG_MAX" "hp_content_length (take_body cx l) \<noteq> ULLONG_MAX"
    "\<exists>a \<le> l_p (take_body cx l). l_mark (take_body cx l) = [M_body \<mapsto> a]"
    "hp_errno (take_body cx l) = hp_errno l" "l_user (take_body cx l) = l_user l" "hp_flags (take_body cx l) = hp_flags l"
    "hp_state (take_body cx l) = hp_state l" "hp_nread (take_body cx l) = hp_nread l"
proof -
  show "l_p (take_body cx l) < length (cx_data cx)"
    "hp_content_length (take_body cx l) \<le> ULLONG_MAX" "hp_content_length (take_body cx l) \<noteq> ULLONG_MAX"
    using assms(1-3) by (auto simp: take_body_def length_known_def Let_def)
  show "\<exists>a \<le> l_p (take_body cx l). l_mark (take_body cx l) = [M_body \<mapsto> a]"
    using assms(4) take_body_progress[OF assms(2,1)] by (auto simp: take_body_def set_mark_def Let_def)
qed (simp_all add: take_body_def set_mark_def Let_def)

lemma body_ok:
  assumes "keeps P cx" "loc_ok P 1 l" "l_p l < length (cx_data cx)"
  shows "hp_state l = s_body_identity \<Longrightarrow> out_ok P (length (cx_data cx)) (st_body_identity cx l)"
    "hp_state l = s_chunk_data \<Longrightarrow> out_ok P (length (cx_data cx)) (st_chunk_data cx l)"
    "hp_state l = s_body_identity_eof \<Longrightarrow> out_ok P (length (cx_data cx)) (st_body_identity_eof cx l)"
    "hp_state l = s_chunk_data_almost_done \<Longrightarrow> out_ok P (length (cx_data cx)) (st_chunk_data_almost_done cx l)"
proof -
  note b = loc_ok_D[OF assms(2)]
  have m: "l_mark l = Map.empty \<or> (\<exists>a \<le> l_p l. l_mark l = [M_body \<mapsto> a])" if "state_mark (hp_state l) = Some M_body"
    using b(4) that by (auto simp: marks_ok_def)
  {
    assume s: "hp_state l = s_body_identity"
    then have k: "length_known l" using b(5) by (simp add: state_ok_def length_known_def)
    note t = take_body_ok[OF k assms(3) b(3) m]
    show "out_ok P (length (cx_data cx)) (st_body_identity cx l)"
      using t k b(1,2) s assms(1) by (auto simp: st_body_identity_def Let_def ok_defs intro!: out_ok_data)
  next
    assume s: "hp_state l = s_chunk_data"
    then have k: "length_known l" "has_flag F_CHUNKED l" using b(5) by (simp_all add: state_ok_def length_known_def)
    note t = take_body_ok[OF k(1) assms(3) b(3) m]
    show "out_ok P (length (cx_data cx)) (st_chunk_data cx l)"
      using t k b(1,2) s assms(1) by (auto simp: st_chunk_data_def Let_def ok_defs has_flag_def)
  next
    assume s: "hp_state l = s_body_identity_eof"
    then show "out_ok P (length (cx_data cx)) (st_body_identity_eof cx l)"
      using b(1-3) m assms(3) by (auto simp: st_body_identity_eof_def ok_defs set_mark_def)
  next
    assume s: "hp_state l = s_chunk_data_almost_done"
    then have k: "has_flag F_CHUNKED l" "hp_content_length l = 0" using b(5) by (simp_all add: state_ok_def)
    show "out_ok P (length (cx_data cx)) (st_chunk_data_almost_done cx l)"
      using k s b(1-3) m assms(1,3)
      by (auto simp: st_chunk_data_almost_done_def ok_defs has_flag_def intro!: out_ok_data)
  }
qed

lemma unhex_less: "unhex c < 16"
proof (cases "(of_char c :: nat) < 128")
  case True
  have "\<forall>x \<in> set unhex_low. x < 16" "length unhex_low = 128" by (simp_all add: unhex_low_def)
  then show ?thesis using True nth_mem[of "of_char c" unhex_low] by (simp add: unhex_def Let_def)
qed (simp add: unhex_def Let_def)

lemma chunk_bound:
  assumes "\<not> (ULLONG_MAX - 16) div 16 < n"
  shows "u64 (u64 (n * 16) + nat (unhex c)) < ULLONG_MAX"
proof -
  have "n \<le> 1152921504606846974" using assms by (simp add: ULLONG_MAX_def)
  moreover have "nat (unhex c) < 16" using unhex_less[of c] by (simp add: nat_less_iff)
  ultimately have "n * 16 + nat (unhex c) < 18446744073709551615" by linarith
  then show ?thesis by (simp add: u64_def ULLONG_MAX_def)
qed

lemma url_step_goto: "url_step s (goto s1 l) = url_step s l"
  by (simp add: url_step_def hp_err_def Let_def)

lemma hp_step_ok:
  assumes "keeps P cx" "loc_ok P 1 l" "l_p l < length (cx_data cx)"
  shows "out_ok P (length (cx_data cx)) (hp_step cx l)"
proof -
  note b = loc_ok_D[OF assms(2)]
  show ?thesis
  proof (cases "hp_state l")
    case s_res_status
    then obtain a where "l_mark l = [M_status \<mapsto> a]" "a \<le> l_p l" using b(4) by (auto simp: marks_ok_def)
    then show ?thesis using s_res_status b(1-3) assms(1,3)
      by (auto simp: hp_step_def st_res_status_def ok_defs intro!: out_ok_data)
  next
    case s_req_method
    then show ?thesis using req_method_ok[OF assms(2,3)] by (simp add: hp_step_def)
  next
    case s_req_spaces_before_url
    then have "loc_ok P 1 (goto s_req_path (set_mark M_url l))"
      using b(1-4) by (simp add: set_mark_def ok_defs url_states_def state_mark_def)
    from url_step_ok[OF this] have u: "out_ok P (length (cx_data cx)) (url_step s (set_mark M_url l))" for s
      using assms(3) by (simp add: url_step_goto url_states_def)
    show ?thesis using s_req_spaces_before_url u b assms(3)
      by (simp add: hp_step_def st_req_spaces_before_url_def ok_defs)
  next
    case s_header_field
    then show ?thesis using header_field_ok[OF assms] by (simp add: hp_step_def)
  next
    case s_header_value
    then show ?thesis using header_value_ok[OF assms] by (simp add: hp_step_def)
  next
    case s_header_value_start
    then show ?thesis using header_value_start_ok[OF assms(2,3)] by (simp add: hp_step_def)
  next
    case s_header_value_discard_ws
    then show ?thesis using header_value_start_ok[OF assms(2,3)] b assms(3)
      by (simp add: hp_step_def st_header_value_discard_ws_def ok_defs)
  next
    case s_header_field_start
    then show ?thesis using b assms(3)
      by (simp add: hp_step_def st_header_field_start_def Let_def set_mark_def ok_defs field_hstates_def)
  next
    case s_header_value_lws
    then show ?thesis using b assms(3)
      by (simp add: hp_step_def st_header_value_lws_def Let_def value_flags_def set_flag_def ok_defs split: hp_hstate.split)
  next
    case s_header_value_discard_lws
    have v: "hp_errno (value_flags l) = hp_errno l" "hp_content_length (value_flags l) = hp_content_length l"
      "l_user (value_flags l) = l_user l" "l_mark (value_flags l) = l_mark l"
      by (simp_all add: value_flags_def set_flag_def split: hp_hstate.split)
    show ?thesis using b s_header_value_discard_lws assms(1,3) v
      by (auto simp: hp_step_def st_header_value_discard_lws_def set_mark_def ok_defs intro!: out_ok_data)
  next
    case s_headers_almost_done
    then show ?thesis using headers_almost_done_ok[OF assms] by (simp add: hp_step_def)
  next
    case s_headers_done
    then show ?thesis using headers_done_ok[OF assms] by (simp add: hp_step_def)
  next
    case s_body_identity
    then show ?thesis using body_ok(1)[OF assms] by (simp add: hp_step_def)
  next
    case s_body_identity_eof
    then show ?thesis using body_ok(3)[OF assms] by (simp add: hp_step_def)
  next
    case s_chunk_data
    then show ?thesis using body_ok(2)[OF assms] by (simp add: hp_step_def)
  next
    case s_chunk_data_almost_done
    then show ?thesis using body_ok(4)[OF assms] by (simp add: hp_step_def)
  next
    case s_message_done
    then show ?thesis using b assms(1,3) by (simp add: hp_step_def st_message_done_def message_complete_ok2(3)[unfolded Suc_eq_plus1] ok_defs)
  next
    case s_chunk_size_start
    moreover have "nat (unhex (l_ch l)) < 16" using unhex_less[of "l_ch l"] by (simp add: nat_less_iff)
    ultimately show ?thesis using b assms(3)
      by (auto simp: hp_step_def st_chunk_size_start_def Let_def ok_defs has_flag_def ULLONG_MAX_def)
  next
    case s_chunk_size
    then show ?thesis using b assms(3) unhex_less[of "l_ch l"] chunk_bound[of "hp_content_length l" "l_ch l"]
      by (auto simp: hp_step_def st_chunk_size_def Let_def ok_defs has_flag_def)
  next
    case s_chunk_parameters
    then show ?thesis using b assms(3)
      by (auto simp: hp_step_def st_chunk_parameters_def Let_def ok_defs has_flag_def)
  next
    case s_chunk_size_almost_done
    then show ?thesis using b assms(1,3)
      by (auto simp: hp_step_def st_chunk_size_almost_done_def set_flag_def Let_def ok_defs has_flag_def intro!: out_ok_notify)
  next
    case s_chunk_data_done
    then show ?thesis using b assms(1,3)
      by (auto simp: hp_step_def st_chunk_data_done_def Let_def ok_defs has_flag_def intro!: out_ok_notify)
  next
    case s_header_almost_done
    then show ?thesis using b assms(3) by (simp add: hp_step_def st_header_almost_done_def ok_defs)
  qed (use b assms state_mark_url[of "hp_state l"] req_url_ok[OF assms] in \<open>simp_all add: step_simps st_defs url_states_def split: option.split\<close>)
qed

section \<open>The loop\<close>

lemma counted_ok:
  assumes "parser_ok 0 l"
  shows "parsing_header (hp_state l) \<Longrightarrow> parser_ok 1 (l\<lparr>l_ch := ch, hp_nread := u32 (hp_nread l + 1)\<rparr>)"
    "\<not> parsing_header (hp_state l) \<Longrightarrow> parser_ok 1 (l\<lparr>l_ch := ch\<rparr>)"
  using assms by (cases "hp_state l"; simp add: parser_ok_def state_ok_def has_flag_def u32_def parsing_header_def body_states_def)+

lemma hp_run_ok:
  assumes "keeps P cx" "cx_max cx < 2 ^ 32"
    and "loc_ok P (if again then 1 else 0) l" "l_p l < length (cx_data cx) \<or> \<not> again \<and> l_p l = length (cx_data cx)"
  shows "case hp_run cx again l of
      Next l1 \<Rightarrow> loc_ok P 0 l1 \<and> l_p l1 = length (cx_data cx)
    | Stop n l1 \<Rightarrow> n \<le> length (cx_data cx) \<and> P (l_user l1) \<and> stopped_ok l1
    | _ \<Rightarrow> False"
  using assms(1,3,4)
proof (induction cx again l rule: hp_run.induct)
  case (1 cx again l)
  show ?case
  proof (cases "l_p l < length (cx_data cx)")
    case False
    then show ?thesis using "1.prems" by (simp add: hp_run.simps)
  next
    case p: True
    then have np: "\<not> length (cx_data cx) \<le> l_p l" by simp
    show ?thesis
    proof (cases again)
      case True
      have s: "out_ok P (length (cx_data cx)) (hp_step cx l)" using hp_step_ok[OF "1.prems"(1) _ p] "1.prems"(2) True by simp
      show ?thesis
      proof (cases "hp_step cx l")
        case (Next l1)
        then have "loc_ok P 0 (l1\<lparr>l_p := l_p l1 + 1\<rparr>)" "l_p l1 + 1 < length (cx_data cx) \<or> l_p l1 + 1 = length (cx_data cx)"
          using s by (auto simp: loc_ok_def parser_ok_def state_ok_def marks_ok_def has_flag_def
              split: option.splits intro: le_SucI cong: hp_state.case_cong)
        then show ?thesis using "1.IH"(1)[OF np True Next] "1.prems"(1) np True Next
          by (subst hp_run.simps) auto
      next
        case (Redo l1)
        then show ?thesis using "1.IH"(2)[OF np True Redo] "1.prems"(1) np True s
          by (subst hp_run.simps) auto
      next
        case (Stop n l1)
        then show ?thesis using s np True by (subst hp_run.simps) simp
      next
        case Abort
        then show ?thesis using s by simp
      qed
    next
      case a: False
      let ?l1 = "l\<lparr>l_ch := cx_data cx ! l_p l\<rparr>"
      let ?l2 = "if parsing_header (hp_state ?l1) then ?l1\<lparr>hp_nread := u32 (hp_nread ?l1 + 1)\<rparr> else ?l1"
      show ?thesis
      proof (cases "parsing_header (hp_state ?l1) \<and> hp_nread ?l2 > cx_max cx")
        case True
        then show ?thesis using "1.prems" a p
          by (subst hp_run.simps) (auto simp: hp_err_def stopped_ok_def loc_ok_def Let_def)
      next
        case False
        have "loc_ok P 1 ?l2" using "1.prems"(2) a counted_ok[of l "cx_data cx ! l_p l"]
          by (simp add: loc_ok_def)
        moreover have "l_p ?l2 < length (cx_data cx)" using p by simp
        ultimately show ?thesis using "1.IH"(3)[OF np a refl refl False "1.prems"(1)] np a False
          by (subst hp_run.simps) (simp add: Let_def)
      qed
    qed
  qed
qed

section \<open>A call\<close>

definition hp_inv :: "http_parser \<Rightarrow> bool" where
  "hp_inv prs \<longleftrightarrow> hp_errno prs \<noteq> HPE_OK \<or> parser_ok 0 prs"

lemma hp_inv_init: "hp_inv (http_parser_init t)"
  by (cases t) (simp_all add: hp_inv_def parser_ok_def state_ok_def http_parser_init_def)

lemma truncate_fields [simp]:
  "hp_errno (http_parser.truncate l) = hp_errno l" "hp_upgrade (http_parser.truncate l) = hp_upgrade l"
  "hp_state (http_parser.truncate l) = hp_state l" "hp_hstate (http_parser.truncate l) = hp_hstate l"
  "hp_index (http_parser.truncate l) = hp_index l" "hp_method (http_parser.truncate l) = hp_method l"
  "hp_nread (http_parser.truncate l) = hp_nread l" "hp_content_length (http_parser.truncate l) = hp_content_length l"
  "hp_flags (http_parser.truncate l) = hp_flags l"
  by (simp_all add: http_parser.defs)

lemma parser_ok_cong:
  assumes "hp_errno l1 = hp_errno l" "hp_state l1 = hp_state l" "hp_hstate l1 = hp_hstate l" "hp_index l1 = hp_index l"
    "hp_method l1 = hp_method l" "hp_nread l1 = hp_nread l" "hp_content_length l1 = hp_content_length l" "hp_flags l1 = hp_flags l"
  shows "parser_ok k l1 = parser_ok k l"
  unfolding parser_ok_def state_ok_def has_flag_def assms ..

lemma parser_ok_truncate [simp]: "parser_ok k (http_parser.truncate l) = parser_ok k l"
  by (rule parser_ok_cong) simp_all

lemma parser_ok_locals [simp]:
  "parser_ok k (l\<lparr>l_user := u\<rparr>) = parser_ok k l" "parser_ok k (l\<lparr>l_mark := ms\<rparr>) = parser_ok k l"
  by (rule parser_ok_cong; simp)+

lemma hp_start_fields [simp]:
  "hp_state (hp_start prs u) = hp_state prs" "hp_errno (hp_start prs u) = hp_errno prs"
  "l_p (hp_start prs u) = 0" "l_user (hp_start prs u) = u" "l_mark (hp_start prs u) = initial_mark (hp_state prs)"
  by (simp_all add: hp_start_def http_parser.defs)

lemma hp_start_parser_ok [simp]: "parser_ok k (hp_start prs u) = parser_ok k prs"
  by (rule parser_ok_cong) (simp_all add: hp_start_def http_parser.defs)

lemma hp_start_ok:
  assumes "parser_ok 0 prs" "P u"
  shows "loc_ok P 0 (hp_start prs u)"
proof -
  have "initial_mark s = (case state_mark s of None \<Rightarrow> Map.empty | Some m \<Rightarrow> if m = M_body then Map.empty else [m \<mapsto> 0])" for s
    by (rule ext) (auto simp: initial_mark_def state_mark_def url_states_def split: hp_mark.split hp_state.split)
  then have "marks_ok s (initial_mark s) 0" for s by (auto simp: marks_ok_def split: option.split)
  then show ?thesis using assms by (simp add: loc_ok_def)
qed

lemma hp_flush_ok:
  assumes "keeps P cx" "loc_ok P 0 l" "l_p l = length (cx_data cx)"
  shows "case hp_flush cx l of
      Stop n l1 \<Rightarrow> n = length (cx_data cx) \<and> P (l_user l1) \<and> (hp_errno l1 \<noteq> HPE_OK \<or> parser_ok 0 l1)
    | _ \<Rightarrow> False"
proof -
  note b = loc_ok_D[OF assms(2)]
  consider "l_mark l = Map.empty" | m a where "l_mark l = [m \<mapsto> a]" "a \<le> l_p l"
    using b(4) by (auto simp: marks_ok_def split: option.splits)
  then show ?thesis
  proof cases
    case 1
    then show ?thesis using assms(2) b(1) by (simp add: hp_flush_def one_mark_def callback_data_def loc_ok_def)
  next
    case (2 m a)
    let ?n = "length (cx_data cx)"
    obtain r u where c: "cx_call cx (On_data m a (?n - a)) (http_parser.truncate l) (l_user l) = (r, u)" by fastforce
    have "in_buffer (cx_data cx) (On_data m a (?n - a))" using 2(2) assms(3) by (simp add: in_buffer_def)
    then have u: "P u" using assms(1) b(2) c unfolding keeps_def by (metis snd_conv)
    have p: "parser_ok 0 (l\<lparr>l_user := u, l_mark := Map.empty\<rparr>)" using assms(2) by (simp add: loc_ok_def)
    show ?thesis using 2(1) b(1) c u p assms(3)
      by (cases m) (simp_all add: hp_flush_def one_mark_def callback_data_def)
  qed
qed

text \<open>
  C16: Whatever bytes a server sends and whatever the callbacks do, a call of the parser returns
  without failing one of its assertions, keeps the invariant that a fresh parser has, shows the
  callbacks only bytes of the buffer, and takes the whole buffer unless it reports an error or the
  connection is upgraded.
\<close>

theorem http_parser_execute_safe:
  assumes "hp_inv prs" "mx < 2 ^ 32" "P u"
    and "\<And>f p v. P v \<Longrightarrow> in_buffer data f \<Longrightarrow> P (snd (cb f p v))"
  shows "hp_inv (http_parser_init t) \<and>
    (\<exists>n prs1 u1. http_parser_execute mx cb data prs u = Some (n, prs1, u1) \<and> hp_inv prs1 \<and> P u1 \<and>
      (n \<le> length data \<or> data = []) \<and> (hp_errno prs1 = HPE_OK \<and> \<not> hp_upgrade prs1 \<longrightarrow> n = length data))"
proof (intro conjI hp_inv_init)
  let ?cx = "\<lparr>cx_call = cb, cx_data = data, cx_max = mx\<rparr>"
  have k: "keeps P ?cx" using assms(4) by (simp add: keeps_def)
  show "\<exists>n prs1 u1. http_parser_execute mx cb data prs u = Some (n, prs1, u1) \<and> hp_inv prs1 \<and> P u1 \<and>
      (n \<le> length data \<or> data = []) \<and> (hp_errno prs1 = HPE_OK \<and> \<not> hp_upgrade prs1 \<longrightarrow> n = length data)"
  proof (cases "hp_errno prs = HPE_OK")
    case False
    then show ?thesis using assms(1,3) by (simp add: http_parser_execute_def Let_def)
  next
    case e: True
    then have ok: "parser_ok 0 prs" using assms(1) by (simp add: hp_inv_def)
    note s = hp_start_ok[of prs P u, OF ok assms(3)]
    show ?thesis
    proof (cases "data = []")
      case True
      obtain r v where c: "cb On_message_complete (http_parser.truncate (hp_start prs u)) u = (r, v)" by fastforce
      have "in_buffer data On_message_complete" by (simp add: in_buffer_def)
      then have v: "P v" using assms(4)[OF assms(3)] c by (metis snd_conv)
      show ?thesis using True e ok assms(3) c v
        by (simp add: http_parser_execute_def Let_def hp_result_def callback_notify_def hp_inv_def)
    next
      case d: False
      have r: "case hp_run ?cx False (hp_start prs u) of
          Next l1 \<Rightarrow> loc_ok P 0 l1 \<and> l_p l1 = length (cx_data ?cx)
        | Stop n l1 \<Rightarrow> n \<le> length (cx_data ?cx) \<and> P (l_user l1) \<and> stopped_ok l1
        | _ \<Rightarrow> False"
        by (rule hp_run_ok[OF k]) (use s assms(2) in simp_all)
      show ?thesis
      proof (cases "hp_run ?cx False (hp_start prs u)")
        case (Next l1)
        then have l1: "loc_ok P 0 l1" "l_p l1 = length (cx_data ?cx)" using r by simp_all
        show ?thesis using hp_flush_ok[OF k l1] d e Next
          by (cases "hp_flush ?cx l1") (auto simp: http_parser_execute_def Let_def hp_result_def hp_inv_def)
      qed (use r d e in \<open>auto simp: http_parser_execute_def Let_def hp_result_def hp_inv_def stopped_ok_def\<close>)
    qed
  qed
qed

text \<open>The callbacks as they come, for a short response.\<close>

definition demo_recorder :: "hp_cbk list hp_settings" where
  "demo_recorder f p v = (0, v @ [f])"

definition demo_response :: string where
  "demo_response = ''HTTP/1.1 200 OK'' @ [CR, LF] @ ''Content-Length: 2'' @ [CR, LF, CR, LF] @ ''hi''"

theorem http_parser_execute_safe_witness:
  "\<exists>n prs evs. http_parser_execute 81920 demo_recorder demo_response (http_parser_init HTTP_RESPONSE) [] = Some (n, prs, evs) \<and>
     hp_inv prs \<and> list_all (in_buffer demo_response) evs \<and> n \<le> 40"
proof -
  have i: "hp_inv (http_parser_init HTTP_RESPONSE)" by (rule hp_inv_init)
  have k: "list_all (in_buffer demo_response) (snd (demo_recorder f p v))"
    if "list_all (in_buffer demo_response) v" "in_buffer demo_response f" for f p v
    using that by (simp add: demo_recorder_def)
  have "length demo_response = 40" "demo_response \<noteq> []" by (simp_all add: demo_response_def)
  then show ?thesis
    using http_parser_execute_safe[of "http_parser_init HTTP_RESPONSE" 81920 "list_all (in_buffer demo_response)" "[]"
        demo_response demo_recorder, OF i _ _ k] by fastforce
qed

end
