(* ===== verification/Http_Url.thy ===== *)
theory Http_Url
  imports Http_Parser_Safe Hurl_Request
begin

text \<open>
  The URL parser of \<^verbatim>\<open>ext/http_parser/http_parser.cc\<close>, \<^verbatim>\<open>http_parser_parse_url\<close>, and what it gives
  \<^verbatim>\<open>request::init_with_url\<close>.  The offsets and lengths of the fields are 16 bits wide.
\<close>

section \<open>Fields\<close>

datatype url_field = UF_SCHEMA | UF_HOST | UF_PORT | UF_PATH | UF_QUERY | UF_FRAGMENT | UF_USERINFO

record http_parser_url =
  hu_set :: "url_field \<Rightarrow> bool"
  hu_port :: nat
  hu_off :: "url_field \<Rightarrow> nat"
  hu_len :: "url_field \<Rightarrow> nat"

definition http_parser_url_init :: http_parser_url where
  "http_parser_url_init = \<lparr>hu_set = (\<lambda>_. False), hu_port = 0, hu_off = (\<lambda>_. 0), hu_len = (\<lambda>_. 0)\<rparr>"

text \<open>The result: the fields, a nonzero status, or a failed assertion.\<close>

datatype url_result = URL_OK http_parser_url | URL_ERROR | URL_ASSERT

definition more_of :: "url_field \<Rightarrow> http_parser_url \<Rightarrow> http_parser_url" where
  "more_of f u = u\<lparr>hu_len := (hu_len u)(f := u16 (hu_len u f + 1))\<rparr>"

definition new_of :: "url_field \<Rightarrow> nat \<Rightarrow> http_parser_url \<Rightarrow> http_parser_url" where
  "new_of f p u = u\<lparr>hu_off := (hu_off u)(f := u16 p), hu_len := (hu_len u)(f := 1), hu_set := (hu_set u)(f := True)\<rparr>"

section \<open>The host\<close>

datatype http_host_state =
    s_http_host_dead
  | s_http_userinfo_start | s_http_userinfo
  | s_http_host_start | s_http_host_v6_start | s_http_host
  | s_http_host_v6 | s_http_host_v6_end | s_http_host_v6_zone_start | s_http_host_v6_zone
  | s_http_host_port_start | s_http_host_port

definition zone_char :: "char \<Rightarrow> bool" where
  "zone_char ch \<longleftrightarrow> is_alphanum ch \<or> ch \<in> set ''%.-_~''"

definition v6_char :: "char \<Rightarrow> bool" where
  "v6_char ch \<longleftrightarrow> is_hex ch \<or> ch = CHR '':'' \<or> ch = CHR ''.''"

primrec http_parse_host_char :: "http_host_state \<Rightarrow> char \<Rightarrow> http_host_state" where
  "http_parse_host_char s_http_userinfo ch =
     (if ch = CHR ''@'' then s_http_host_start else if is_userinfo_char ch then s_http_userinfo else s_http_host_dead)"
| "http_parse_host_char s_http_userinfo_start ch =
     (if ch = CHR ''@'' then s_http_host_start else if is_userinfo_char ch then s_http_userinfo else s_http_host_dead)"
| "http_parse_host_char s_http_host_start ch =
     (if ch = CHR ''['' then s_http_host_v6_start else if is_host_char ch then s_http_host else s_http_host_dead)"
| "http_parse_host_char s_http_host ch =
     (if is_host_char ch then s_http_host else if ch = CHR '':'' then s_http_host_port_start else s_http_host_dead)"
| "http_parse_host_char s_http_host_v6_end ch =
     (if ch = CHR '':'' then s_http_host_port_start else s_http_host_dead)"
| "http_parse_host_char s_http_host_v6 ch =
     (if ch = CHR '']'' then s_http_host_v6_end else if v6_char ch then s_http_host_v6
      else if ch = CHR ''%'' then s_http_host_v6_zone_start else s_http_host_dead)"
| "http_parse_host_char s_http_host_v6_start ch =
     (if v6_char ch then s_http_host_v6 else s_http_host_dead)"
| "http_parse_host_char s_http_host_v6_zone ch =
     (if ch = CHR '']'' then s_http_host_v6_end else if zone_char ch then s_http_host_v6_zone else s_http_host_dead)"
| "http_parse_host_char s_http_host_v6_zone_start ch =
     (if zone_char ch then s_http_host_v6_zone else s_http_host_dead)"
| "http_parse_host_char s_http_host_port ch = (if is_num ch then s_http_host_port else s_http_host_dead)"
| "http_parse_host_char s_http_host_port_start ch = (if is_num ch then s_http_host_port else s_http_host_dead)"
| "http_parse_host_char s_http_host_dead ch = s_http_host_dead"

text \<open>The offset of the host moves when it begins, and its length goes on from 0.\<close>

definition host_byte :: "http_host_state \<Rightarrow> http_host_state \<Rightarrow> nat \<Rightarrow> http_parser_url \<Rightarrow> http_parser_url" where
  "host_byte s s1 p u =
     (case s1 of
        s_http_host \<Rightarrow> more_of UF_HOST (if s \<noteq> s1 then u\<lparr>hu_off := (hu_off u)(UF_HOST := u16 p)\<rparr> else u)
      | s_http_host_v6 \<Rightarrow> more_of UF_HOST (if s \<noteq> s1 then u\<lparr>hu_off := (hu_off u)(UF_HOST := u16 p)\<rparr> else u)
      | s_http_host_v6_zone_start \<Rightarrow> more_of UF_HOST u
      | s_http_host_v6_zone \<Rightarrow> more_of UF_HOST u
      | s_http_host_port \<Rightarrow> if s \<noteq> s1 then new_of UF_PORT p u else more_of UF_PORT u
      | s_http_userinfo \<Rightarrow> if s \<noteq> s1 then new_of UF_USERINFO p u else more_of UF_USERINFO u
      | _ \<Rightarrow> u)"

fun host_loop :: "string \<Rightarrow> nat \<Rightarrow> http_host_state \<Rightarrow> http_parser_url \<Rightarrow> (http_host_state \<times> http_parser_url) option" where
  "host_loop [] p s u = Some (s, u)"
| "host_loop (c # cs) p s u =
     (let s1 = http_parse_host_char s c in
      if s1 = s_http_host_dead then None else host_loop cs (Suc p) s1 (host_byte s s1 p u))"

definition host_end_ok :: "http_host_state \<Rightarrow> bool" where
  "host_end_ok s \<longleftrightarrow> s \<notin> {s_http_host_start, s_http_host_v6_start, s_http_host_v6, s_http_host_v6_zone_start,
     s_http_host_v6_zone, s_http_host_port_start, s_http_userinfo, s_http_userinfo_start}"

definition http_parse_host :: "string \<Rightarrow> bool \<Rightarrow> http_parser_url \<Rightarrow> url_result" where
  "http_parse_host buf found_at u =
     (if \<not> hu_set u UF_HOST then URL_ASSERT
      else case host_loop (substr buf (hu_off u UF_HOST) (hu_len u UF_HOST)) (hu_off u UF_HOST)
             (if found_at then s_http_userinfo_start else s_http_host_start) (u\<lparr>hu_len := (hu_len u)(UF_HOST := 0)\<rparr>) of
        None \<Rightarrow> URL_ERROR
      | Some (s, u1) \<Rightarrow> if host_end_ok s then URL_OK u1 else URL_ERROR)"

section \<open>The URL\<close>

text \<open>The field a state belongs to; \<^term>\<open>None\<close> is a delimiter.\<close>

definition field_of :: "hp_state \<Rightarrow> url_field option option" where
  "field_of s =
     (case s of
        s_req_schema_slash \<Rightarrow> Some None | s_req_schema_slash_slash \<Rightarrow> Some None | s_req_server_start \<Rightarrow> Some None
      | s_req_query_string_start \<Rightarrow> Some None | s_req_fragment_start \<Rightarrow> Some None
      | s_req_schema \<Rightarrow> Some (Some UF_SCHEMA)
      | s_req_server_with_at \<Rightarrow> Some (Some UF_HOST)
      | s_req_server \<Rightarrow> Some (Some UF_HOST)
      | s_req_path \<Rightarrow> Some (Some UF_PATH)
      | s_req_query_string \<Rightarrow> Some (Some UF_QUERY)
      | s_req_fragment \<Rightarrow> Some (Some UF_FRAGMENT)
      | _ \<Rightarrow> None)"

datatype url_scan = Scan_ok bool http_parser_url | Scan_bad | Scan_assert

fun url_loop :: "string \<Rightarrow> nat \<Rightarrow> hp_state \<Rightarrow> url_field option \<Rightarrow> bool \<Rightarrow> http_parser_url \<Rightarrow> url_scan" where
  "url_loop [] p s old fat u = Scan_ok fat u"
| "url_loop (c # cs) p s old fat u =
     (let s1 = parse_url_char s c; fat1 = (fat \<or> s1 = s_req_server_with_at) in
      if s1 = s_dead then Scan_bad
      else case field_of s1 of
        None \<Rightarrow> Scan_assert
      | Some None \<Rightarrow> url_loop cs (Suc p) s1 old fat1 u
      | Some (Some f) \<Rightarrow>
          if old = Some f then url_loop cs (Suc p) s1 old fat1 (more_of f u)
          else url_loop cs (Suc p) s1 (Some f) fat1 (new_of f p u))"

text \<open>
  The value of the port, given up when it exceeds 65535.  A \<^verbatim>\<open>char\<close> is signed, the sum an
  \<^verbatim>\<open>unsigned long\<close>.
\<close>

definition schar :: "char \<Rightarrow> int" where
  "schar c = (let n = int (of_char c) in if n < 128 then n else n - 256)"

fun port_value :: "string \<Rightarrow> nat \<Rightarrow> nat option" where
  "port_value [] v = Some v"
| "port_value (c # cs) v = (let v1 = nat ((int v * 10 + (schar c - 48)) mod 2 ^ 64) in if v1 > 65535 then None else port_value cs v1)"

definition url_port :: "string \<Rightarrow> http_parser_url \<Rightarrow> url_result" where
  "url_port buf u =
     (if \<not> hu_set u UF_PORT then URL_OK u
      else if hu_off u UF_PORT + hu_len u UF_PORT > length buf then URL_ASSERT
      else case port_value (substr buf (hu_off u UF_PORT) (hu_len u UF_PORT)) 0 of
        None \<Rightarrow> URL_ERROR
      | Some v \<Rightarrow> URL_OK (u\<lparr>hu_port := u16 v\<rparr>))"

definition http_parser_parse_url :: "string \<Rightarrow> bool \<Rightarrow> http_parser_url \<Rightarrow> url_result" where
  "http_parser_parse_url buf is_connect u0 =
     (if buf = [] then URL_ERROR
      else case url_loop buf 0 (if is_connect then s_req_server_start else s_req_spaces_before_url) None False
                  (u0\<lparr>hu_port := 0, hu_set := (\<lambda>_. False)\<rparr>) of
        Scan_bad \<Rightarrow> URL_ERROR
      | Scan_assert \<Rightarrow> URL_ASSERT
      | Scan_ok fat u \<Rightarrow>
          if hu_set u UF_SCHEMA \<and> \<not> hu_set u UF_HOST then URL_ERROR
          else case (if hu_set u UF_HOST then http_parse_host buf fat u else URL_OK u) of
            URL_OK u1 \<Rightarrow>
              if is_connect \<and> \<not> (\<forall>f \<in> {UF_SCHEMA, UF_HOST, UF_PORT, UF_PATH, UF_QUERY, UF_FRAGMENT, UF_USERINFO}.
                                   hu_set u1 f = (f = UF_HOST \<or> f = UF_PORT))
              then URL_ERROR else url_port buf u1
          | res \<Rightarrow> res)"

text \<open>What \<^verbatim>\<open>init_with_url\<close> reads of the result.\<close>

definition field_pair :: "http_parser_url \<Rightarrow> url_field \<Rightarrow> nat \<times> nat" where
  "field_pair u f = (hu_off u f, hu_len u f)"

definition parse_url_fields :: "string \<Rightarrow> url_fields option" where
  "parse_url_fields s =
     (case http_parser_parse_url s False http_parser_url_init of
        URL_OK u \<Rightarrow> Some \<lparr>uf_schema = field_pair u UF_SCHEMA, uf_host = field_pair u UF_HOST, uf_port = field_pair u UF_PORT,
                         uf_path = field_pair u UF_PATH, uf_query = field_pair u UF_QUERY\<rparr>
      | _ \<Rightarrow> None)"

section \<open>Fields within the URL\<close>

definition fields_in :: "http_parser_url \<Rightarrow> nat \<Rightarrow> bool" where
  "fields_in u n \<longleftrightarrow> (\<forall>f. hu_off u f + hu_len u f \<le> n)"

lemma u16_le: "u16 n \<le> n"
  by (simp add: u16_def)

lemma more_of_in: "fields_in u n \<Longrightarrow> fields_in (more_of f u) (Suc n)"
  unfolding fields_in_def
proof
  fix g assume a: "\<forall>f. hu_off u f + hu_len u f \<le> n"
  show "hu_off (more_of f u) g + hu_len (more_of f u) g \<le> Suc n"
    using spec[OF a, of g] u16_le[of "hu_len u f + 1"] by (auto simp: more_of_def)
qed

lemma new_of_in: "fields_in u n \<Longrightarrow> fields_in (new_of f n u) (Suc n)"
  unfolding fields_in_def
proof
  fix g assume a: "\<forall>f. hu_off u f + hu_len u f \<le> n"
  show "hu_off (new_of f n u) g + hu_len (new_of f n u) g \<le> Suc n"
    using spec[OF a, of g] u16_le[of n] by (simp add: new_of_def)
qed

lemma url_loop_in:
  assumes "fields_in u p"
  shows "case url_loop cs p s old fat u of Scan_ok fat1 u1 \<Rightarrow> fields_in u1 (p + length cs) | Scan_bad \<Rightarrow> True | Scan_assert \<Rightarrow> False"
  using assms
proof (induction cs p s old fat u rule: url_loop.induct)
  case (2 c cs p s old fat u)
  let ?s1 = "parse_url_char s c"
  have f: "field_of ?s1 \<noteq> None" if "?s1 \<noteq> s_dead"
    using parse_url_char_states[OF that] by (auto simp: url_states_def field_of_def)
  have u: "fields_in u (Suc p)" using 2(4) by (auto simp: fields_in_def intro: le_SucI)
  show ?case
  proof (cases "?s1 = s_dead")
    case False
    then obtain g where g: "field_of ?s1 = Some g" using f by blast
    show ?thesis
    proof (cases g)
      case None
      then show ?thesis using 2(1)[OF refl refl False g None u] False g None by (simp add: Let_def cong: url_scan.case_cong)
    next
      case (Some x)
      show ?thesis
      proof (cases "old = Some x")
        case True
        then show ?thesis using 2(2)[OF refl refl False g Some True more_of_in[OF 2(4)]] False g Some by (simp add: Let_def cong: url_scan.case_cong)
      next
        case o: False
        then show ?thesis using 2(3)[OF refl refl False g Some o new_of_in[OF 2(4)]] False g Some by (simp add: Let_def cong: url_scan.case_cong)
      qed
    qed
  qed simp
qed simp

text \<open>Before the host begins its length is 0; then the field being read ends before the position.\<close>

definition ends_by :: "http_parser_url \<Rightarrow> url_field \<Rightarrow> nat \<Rightarrow> bool" where
  "ends_by u f p \<longleftrightarrow> hu_off u f + hu_len u f \<le> p"

definition host_inv :: "http_host_state \<Rightarrow> nat \<Rightarrow> http_parser_url \<Rightarrow> bool" where
  "host_inv s p u \<longleftrightarrow>
     (case s of
        s_http_userinfo_start \<Rightarrow> hu_len u UF_HOST = 0
      | s_http_userinfo \<Rightarrow> hu_len u UF_HOST = 0 \<and> ends_by u UF_USERINFO p
      | s_http_host_start \<Rightarrow> hu_len u UF_HOST = 0
      | s_http_host_v6_start \<Rightarrow> hu_len u UF_HOST = 0
      | s_http_host_port \<Rightarrow> ends_by u UF_PORT p
      | s_http_host_port_start \<Rightarrow> True
      | s_http_host_v6_end \<Rightarrow> True
      | s_http_host_dead \<Rightarrow> True
      | _ \<Rightarrow> ends_by u UF_HOST p)"

lemma more_of_ends: "ends_by u f p \<Longrightarrow> ends_by (more_of f u) f (Suc p)"
  using u16_le[of "hu_len u f + 1"] by (simp add: ends_by_def more_of_def)

lemma new_of_ends: "ends_by (new_of f p u) f (Suc p)"
  using u16_le[of p] by (simp add: ends_by_def new_of_def)

lemma fields_in_upd: "fields_in u n \<Longrightarrow> ends_by u1 f n \<Longrightarrow> (\<And>g. g \<noteq> f \<Longrightarrow> hu_off u1 g = hu_off u g \<and> hu_len u1 g = hu_len u g) \<Longrightarrow> fields_in u1 n"
  unfolding fields_in_def ends_by_def by (metis)

lemma ends_by_mono: "ends_by u f p \<Longrightarrow> p \<le> n \<Longrightarrow> ends_by u f n"
  by (simp add: ends_by_def)

lemma host_byte_other:
  "http_parse_host_char s c = s1 \<Longrightarrow> s1 \<in> {s_http_host, s_http_host_v6, s_http_host_v6_zone_start, s_http_host_v6_zone} \<Longrightarrow>
   g \<noteq> UF_HOST \<Longrightarrow> hu_off (host_byte s s1 p u) g = hu_off u g \<and> hu_len (host_byte s s1 p u) g = hu_len u g"
  by (auto simp: host_byte_def more_of_def)

lemma host_byte_ends:
  assumes "host_inv s p u" "http_parse_host_char s c = s1" "s1 \<noteq> s_http_host_dead"
  shows "host_inv s1 (Suc p) (host_byte s s1 p u)"
proof -
  have h: "ends_by (more_of UF_HOST (u\<lparr>hu_off := (hu_off u)(UF_HOST := u16 p)\<rparr>)) UF_HOST (Suc p)" if "hu_len u UF_HOST = 0"
    by (rule more_of_ends) (use that u16_le[of p] in \<open>simp add: ends_by_def\<close>)
  have o: "hu_len (more_of UF_USERINFO u) UF_HOST = hu_len u UF_HOST" "hu_len (new_of UF_USERINFO p u) UF_HOST = hu_len u UF_HOST"
    by (simp_all add: more_of_def new_of_def)
  show ?thesis using assms h
    by (cases s) (auto simp: host_byte_def host_inv_def o more_of_ends new_of_ends split: if_splits)
qed

lemma host_byte_in:
  assumes "host_inv s p u" "http_parse_host_char s c = s1" "s1 \<noteq> s_http_host_dead" "fields_in u n" "Suc p \<le> n"
  shows "fields_in (host_byte s s1 p u) n"
proof -
  note e = host_byte_ends[OF assms(1-3)]
  have r: "fields_in (host_byte s s1 p u) n"
    if "ends_by (host_byte s s1 p u) f (Suc p)"
      "\<And>g. g \<noteq> f \<Longrightarrow> hu_off (host_byte s s1 p u) g = hu_off u g \<and> hu_len (host_byte s s1 p u) g = hu_len u g" for f
    using fields_in_upd[OF assms(4) ends_by_mono[OF that(1) assms(5)]] that(2) by blast
  have k: "host_byte s s1 p u = u" if "s1 \<in> {s_http_userinfo_start, s_http_host_start, s_http_host_v6_start, s_http_host_v6_end,
      s_http_host_port_start}" using that by (auto simp: host_byte_def)
  show ?thesis
  proof (cases s1)
    case s_http_host
    show ?thesis by (rule r[of UF_HOST]) (use e s_http_host in \<open>auto simp: host_inv_def host_byte_def more_of_def\<close>)
  next
    case s_http_host_v6
    show ?thesis by (rule r[of UF_HOST]) (use e s_http_host_v6 in \<open>auto simp: host_inv_def host_byte_def more_of_def\<close>)
  next
    case s_http_host_v6_zone_start
    show ?thesis by (rule r[of UF_HOST]) (use e s_http_host_v6_zone_start in \<open>auto simp: host_inv_def host_byte_def more_of_def\<close>)
  next
    case s_http_host_v6_zone
    show ?thesis by (rule r[of UF_HOST]) (use e s_http_host_v6_zone in \<open>auto simp: host_inv_def host_byte_def more_of_def\<close>)
  next
    case s_http_host_port
    show ?thesis by (rule r[of UF_PORT]) (use e s_http_host_port in \<open>auto simp: host_inv_def host_byte_def more_of_def new_of_def\<close>)
  next
    case s_http_userinfo
    show ?thesis by (rule r[of UF_USERINFO]) (use e s_http_userinfo in \<open>auto simp: host_inv_def host_byte_def more_of_def new_of_def\<close>)
  qed (use k assms(3,4) in auto)
qed

lemma host_loop_in:
  "host_loop cs p s u = Some (s1, u1) \<Longrightarrow> host_inv s p u \<Longrightarrow> fields_in u n \<Longrightarrow> p + length cs \<le> n \<Longrightarrow> fields_in u1 n"
proof (induction cs p s u rule: host_loop.induct)
  case (2 c cs p s u)
  let ?s = "http_parse_host_char s c"
  have d: "?s \<noteq> s_http_host_dead" using 2(2) by (auto simp: Let_def)
  show ?case using 2(1)[OF refl d] 2(2,5) d host_byte_in[OF 2(3) refl d 2(4)] host_byte_ends[OF 2(3) refl d]
    by (simp add: Let_def)
qed simp

lemma http_parse_host_in:
  assumes "fields_in u (length buf)" "hu_set u UF_HOST"
  shows "case http_parse_host buf fat u of URL_OK u1 \<Rightarrow> fields_in u1 (length buf) | URL_ERROR \<Rightarrow> True | URL_ASSERT \<Rightarrow> False"
proof -
  let ?o = "hu_off u UF_HOST" and ?n = "hu_len u UF_HOST"
  let ?s = "if fat then s_http_userinfo_start else s_http_host_start"
  let ?u = "u\<lparr>hu_len := (hu_len u)(UF_HOST := 0)\<rparr>"
  have n: "?o + ?n \<le> length buf" using assms(1) by (simp add: fields_in_def)
  then have l: "?o + length (substr buf ?o ?n) \<le> length buf" by (simp add: substr_def)
  have i: "host_inv ?s ?o ?u" by (simp add: host_inv_def)
  have f: "fields_in ?u (length buf)" using assms(1) by (auto simp: fields_in_def intro: add_leD1)
  show ?thesis using host_loop_in[OF _ i f l] assms(2)
    by (auto simp: http_parse_host_def split: option.split)
qed

text \<open>
  C17: Whatever the URL, the parser fails none of its assertions, and each field it reports lies
  within the URL.
\<close>

theorem parse_url_in_bounds:
  "case http_parser_parse_url s is_connect http_parser_url_init of
     URL_OK u \<Rightarrow> hu_off u f + hu_len u f \<le> length s
   | URL_ERROR \<Rightarrow> True
   | URL_ASSERT \<Rightarrow> False"
proof (cases "s = []")
  case True
  then show ?thesis by (simp add: http_parser_parse_url_def)
next
  case False
  let ?u0 = "http_parser_url_init\<lparr>hu_port := 0, hu_set := (\<lambda>_. False)\<rparr>"
  let ?s = "if is_connect then s_req_server_start else s_req_spaces_before_url"
  have u0: "fields_in ?u0 0" by (simp add: fields_in_def http_parser_url_init_def)
  have p: "case url_port s u of URL_OK u1 \<Rightarrow> fields_in u1 (length s) | URL_ERROR \<Rightarrow> True | URL_ASSERT \<Rightarrow> False"
    if "fields_in u (length s)" for u
  proof -
    have "\<not> hu_off u UF_PORT + hu_len u UF_PORT > length s" using that by (auto simp: fields_in_def not_less)
    then show ?thesis using that by (auto simp: url_port_def fields_in_def split: option.split)
  qed
  have r: "case (if c then URL_ERROR else url_port s u) of URL_OK u \<Rightarrow> hu_off u f + hu_len u f \<le> length s | URL_ERROR \<Rightarrow> True | URL_ASSERT \<Rightarrow> False"
    if "fields_in u (length s)" for u c
    using p[OF that] by (auto simp: fields_in_def split: url_result.splits)
  show ?thesis
  proof (cases "url_loop s 0 ?s None False ?u0")
    case (Scan_ok fat u)
    then have u: "fields_in u (length s)" using url_loop_in[OF u0, of s ?s None False] by simp
    show ?thesis
    proof (cases "hu_set u UF_HOST")
      case True
      show ?thesis using http_parse_host_in[OF u True, of fat] Scan_ok False True r
        by (cases "http_parse_host s fat u") (simp_all add: http_parser_parse_url_def del: split_paired_All)
    next
      case h: False
      show ?thesis using Scan_ok False h r[OF u] by (simp add: http_parser_parse_url_def)
    qed
  next
    case Scan_assert
    then show ?thesis using url_loop_in[OF u0, of s ?s None False] by simp
  qed (simp add: http_parser_parse_url_def)
qed

end
