(* ===== verification/Spec2Isabelle.thy ===== *)
theory Spec2Isabelle
  imports Nbq_Ops Uri Str_Util Kv_Map Nlru Containers Time_Util Evr Evr_Select Http_Msg Http_Rqst
    Hurl_Request Hurl_Path Hurl_Stat Nconn_Tcp Http_Show Dns Hurl_Live Hurl_Tls Hurl_H2
    Hurl_Main Json_Writer Hurl_Report Base64 Http_Parser_Safe Http_Url
begin

text \<open>
  A model of hurl, the HTTP load generator of this repository, written from
  \<^verbatim>\<open>src/src/core\<close> (the library) and \<^verbatim>\<open>src/src/hurl/hurl.cc\<close> (the program), with the parts of
  \<^verbatim>\<open>src/ext\<close> that parse what comes in: \<^verbatim>\<open>http_parser\<close> and \<^verbatim>\<open>base64\<close>.

  \<^bold>\<open>The program.\<close>  A thread of the program (\<^verbatim>\<open>t_hurl\<close>) owns an event loop, a set of
  connections and counters.  It opens connections up to a limit; each is driven by the state
  machine \<^verbatim>\<open>session::run_state_machine\<close>, which the event loop enters through the callbacks
  of the connection's descriptor object: set up, connect, then write the request and read
  the response as often as the connection may be reused, then close.  A session holds a queue
  of blocks for each direction; the request is serialised into one, the socket is read into
  the other, and the HTTP parser reports where in that queue the parts of the response are.
  The paths requested come from the expansion of the ranges in the URL, the counters of the
  threads are added up for the display.

  \<^bold>\<open>Conventions.\<close>  Undefined behaviour (a null or dangling pointer, an access outside a
  buffer, an uncaught exception) is \<^term>\<open>None\<close> in the result of an operation; statuses are
  integers, as in \<^verbatim>\<open>status.h\<close>.  Unsigned integers are naturals and each operation that can
  wrap says so (\<open>u32\<close>, \<open>u64\<close>, \<open>s32\<close> of \<open>Prelude\<close>).  An object that others point to
  lives in a store under its address; a null pointer is \<^term>\<open>None\<close>.  A loop that may not
  end is a \<open>partial_function\<close>, for which not ending is \<^term>\<open>None\<close> too, so that a theorem
  that gives \<open>Some\<close> states termination and the absence of undefined behaviour.  No fuel is
  used, except for the retries of \<^verbatim>\<open>ncconnect\<close>, where the code has the bound 1024, and in the
  reader of plain JSON \<open>json_read\<close>, two for each character, which is enough since each call but
  one for a nested value takes a character.  A length that
  the code narrows to an \<^verbatim>\<open>int\<close> is narrowed in the model too, and the theorems state the bound from
  which on it matters.  System calls, the clock and random numbers are parameters: functions on
  a state of the environment.

  \<^bold>\<open>Parts, theories and files.\<close>
  \<^item> \<open>Prelude\<close>: statuses, integer widths, C strings and their printing, shared lemmas;
    \<open>Smap\<close>: \<^verbatim>\<open>std::map\<close> as a sorted association list.
  \<^item> \<open>Nbq\<close>, \<open>Nbq_Ops\<close> (\<^verbatim>\<open>support/nbq.{h,cc}\<close>, \<^verbatim>\<open>nbq_stream.h\<close>, \<^verbatim>\<open>file_util.cc\<close>): blocks,
    cursors and each operation of the queue.  The invariant \<open>nbq_inv\<close> and the contracts
    \<open>read_post\<close> and \<open>write_post\<close> carry all later lemmas; the queue refines a list of bytes.
    \<open>Http_Show\<close>: printing a queue and a response.
  \<^item> \<open>Uri\<close>, \<open>Str_Util\<close>, \<open>Time_Util\<close>, \<open>Kv_Map\<close>, \<open>Nlru\<close>, \<open>Containers\<close>
    (\<^verbatim>\<open>support/uri.cc\<close>, \<^verbatim>\<open>string_util.cc\<close>, \<^verbatim>\<open>time_util.cc\<close>, \<^verbatim>\<open>kv_map_list.h\<close>, \<^verbatim>\<open>nlru.h\<close>,
    \<^verbatim>\<open>obj_pool.h\<close>, \<^verbatim>\<open>circular_vector.h\<close>): the codec, strings, the cached clock and the
    containers, each against a specification on lists.
  \<^item> \<open>Evr\<close> (\<^verbatim>\<open>evr/evr.{h,cc}\<close>): timers and dispatch.  A callback is a parameter of the loop;
    the locale \<open>timer_rounds\<close> states what callbacks may do with the timers (start a bounded number,
    cancel any) and gives the order in which they fire, under any clock; the locale \<open>fd_rounds\<close>
    states what callbacks keep of the descriptors, and a round of dispatch then reads no freed
    object.  \<open>Evr_Select\<close> (\<^verbatim>\<open>evr_select.cc\<close>, \<^verbatim>\<open>evr_epoll.cc\<close>): the reactors; a descriptor from
    \<open>FD_SETSIZE\<close> on is undefined behaviour of the one over \<^verbatim>\<open>select\<close>.
  \<^item> \<open>Http_Parser\<close>, \<open>Http_Execute\<close>, \<open>Http_Parser_Safe\<close>, \<open>Http_Url\<close> (\<^verbatim>\<open>ext/http_parser\<close>, not strict as
    in \<^verbatim>\<open>CMakeLists.txt\<close>): the parser by the cases of its switch, its invariant, and the parser of
    URLs with its 16-bit fields.  The limit of the headers is an argument; callbacks are functions of
    the parser and a state of the user.
  \<^item> \<open>Http_Msg\<close>, \<open>Http_Rqst\<close> (\<^verbatim>\<open>http/\<close>): messages as slices of the input queue, filled by the
    parser's callbacks; headers, body, URL and query.
  \<^item> \<open>Nconn\<close> (\<^verbatim>\<open>nconn/nconn.{h,cc}\<close>, \<^verbatim>\<open>host_info.cc\<close>): connections over virtual methods,
    \<open>nc_read\<close> and \<open>nc_write\<close>; the locales \<open>nc_moves\<close> (reads and
    writes end), \<open>nc_io\<close> (and a write that succeeds makes progress) and \<open>nc_stream\<close> (and bytes keep
    their order) are the contract of a transport.  \<open>Nconn_Tcp\<close> (\<^verbatim>\<open>nconn_tcp.{h,cc}\<close>): the virtual methods over system calls; what
    the kernel promises is the locale \<open>tcp_kernel\<close>, and it gives the contract of the transport.
  \<^item> \<open>Hurl_Request\<close>, \<open>Hurl_Path\<close>, \<open>Hurl_Stat\<close> (\<^verbatim>\<open>hurl.cc\<close>): the request and its
    serialisation, path expansion, statistics with doubles as reals.
  \<^item> \<open>Base64\<close> (\<^verbatim>\<open>ext/base64\<close>): encoder and decoder, and that one undoes the other.  \<open>Dns\<close> (\<^verbatim>\<open>dns/\<close>):
    lookup, the cache of addresses with its file, the resolver.  The parser of rapidjson is a
    parameter, of which only is asked that it reads plain JSON as \<open>json_read\<close> does.
  \<^item> \<open>Hurl_Session\<close> (\<^verbatim>\<open>hurl.cc\<close>): the heap of connections and sessions, the state machine by its
    states (\<open>sm_free\<close>, \<open>sm_connecting\<close>, \<open>sm_read\<close>, \<open>sm_write\<close>, ...; a round from the label
    \<^verbatim>\<open>state_top\<close> is \<open>sm_step\<close>, the jump back is the recursion of \<open>sm_top\<close>), and the loop of a
    thread.  \<open>Hurl_Http\<close>: the HTTP/1 session.
  \<^item> \<open>Hurl_Heap\<close>: the invariant \<open>heap_inv\<close> of that heap (each connection has its descriptor
    object, its session and their queues, each session one connection, the counters agree)
    and what creating and deleting a connection does to it.
  \<^item> \<open>Hurl_Machine\<close>: the state machine over the contracts of a transport and of a session
    (locale \<open>hurl_machine\<close>).  It terminates, by a variant of bytes left to receive, state and
    bytes left to send, and keeps the invariant; the rounds of a thread (\<open>t_rounds\<close>) follow.
  \<^item> \<open>Hurl_Thread\<close>: the HTTP/1 session over TCP meets these contracts (locale \<open>h1_client\<close>), so
    that every callback returns and keeps the heap.
  \<^item> \<open>Tls_Util\<close> (\<^verbatim>\<open>support/tls_util.cc\<close>, \<^verbatim>\<open>nconn_tls.cc\<close>): the choice of a protocol, ciphers,
    options, contexts, the check of a certificate.  \<open>Nconn_Tls\<close> (\<^verbatim>\<open>nconn/nconn_tls.{h,cc}\<close>): TLS
    connections, the members on top of those of a TCP connection, over OpenSSL (1.1.1 or later)
    as a parameter; the locale \<open>tls_plain\<close> is what its reads and writes promise and gives the
    stream of a transport, \<open>tls_shake\<close> what its handshake promises.  \<open>Hurl_Tls\<close>: the program with
    both classes of connections meets the contracts of the state machine (locale \<open>hurl_client\<close>) in
    the scope of \<open>tls_lib\<close> and \<open>tls_io\<close>: \<^verbatim>\<open>SSL_new\<close> succeeds, \<^verbatim>\<open>SSL_write\<close> does not give 0 for bytes
    that are left, and the server speaks HTTP/1; outside of it the code has the faults that the
    lemma \<open>tls_write_zero\<close> and the list of findings describe.
  \<^item> \<open>Hurl_H2\<close> (\<^verbatim>\<open>hurl.cc\<close>): the HTTP/2 session over nghttp2.  A run of the library is a tree of
    callbacks with a branch for each answer (\<open>ng_run\<close>); as a datatype it has no infinite path.
    \<open>ng_lib\<close> is its contract: it sends a bounded number of bytes on a session.
  \<^item> \<open>Hurl_Registry\<close>, \<open>Hurl_Live\<close>: what the kernel keeps registered (locale \<open>registry\<close>) are
    descriptors of live connections only; with a reactor that reports registered descriptors
    (the select reactor of \<open>Evr_Select\<close> does) no event refers to a freed connection, and a
    thread can run any number of rounds.  The locales are interpreted on a host whose kernel
    is a concrete state machine.
  \<^item> \<open>Hurl_Main\<close> (\<^verbatim>\<open>main\<close> in \<^verbatim>\<open>hurl.cc\<close>): the options, one definition of a step for each answer of
    \<^verbatim>\<open>getopt_long_only\<close>, the checks, the request with its paths, and the threads.  What the options
    accept (\<open>opts_ok\<close>) is what the contracts of the threads ask for, so that the theorems on the
    rounds of a thread hold for the program from its command line.  \<open>Json_Writer\<close>
    (\<^verbatim>\<open>ext/rapidjson/writer.h\<close>, \<^verbatim>\<open>document.h\<close>): the writer of JSON against the text of a document.
    \<open>Hurl_Report\<close> (\<^verbatim>\<open>main\<close>): the loop that waits, with its display, and the results.

  \<^bold>\<open>Not modelled.\<close>  The vendored nghttp2 is a parameter; of rapidjson only the
  writer is modelled, with the digits of a double as a parameter.  The HTTP/1 session has the parser
  as a parameter, from bytes to callbacks, so that its theorems hold for any parser; the parser of
  \<open>Http_Execute\<close> is not put in its place.  \<^verbatim>\<open>getopt_long_only\<close> is a
  parameter, a list of its answers.  The texts of error messages, of the help and of the version,
  the mode of the terminal, the length of pauses and the freeing of objects at the end of \<^verbatim>\<open>main\<close>
  are left out.  The locks and the initialisation of OpenSSL and its kernel TLS are left out.  The
  reactor for kqueue is not compiled on Linux.  Code under \<^verbatim>\<open>#if 0\<close> and trace output are left
  out.  Interleaving between threads is not modelled: the threads share only the choice of paths
  and the cache of addresses, which are under locks, and flags.  The theorems on the rounds of a
  thread are for HTTP/1 over TCP and for runs without -v.
\<close>

end
